(* ===== verification/Aegis_Prelude.thy ===== *)
theory Aegis_Prelude
  imports Main "HOL-Library.Word" "HOL-Library.List_Lexorder"
begin

text \<open>
  Shared vocabulary of the development: bytes, Rust results, fixed buffers and the
  little-endian integer encodings of the wire formats.

  \<^item> A Rust array \<open>[u8; N]\<close> or slice is a \<open>byte list\<close>; where the code's type fixes the
    length, well-formedness predicates say so.
  \<^item> \<open>Result<T, E>\<close> is \<open>E + T\<close>: \<open>Inl\<close> is \<open>Err\<close>, \<open>Inr\<close> is \<open>Ok\<close>.
  \<^item> \<open>buf[a..a+n].copy_from_slice(src)\<close> is \<open>put a src buf\<close>; \<open>buf[a..a+n]\<close> is \<open>slice a n buf\<close>.
    Both are used with bounds the code's constants guarantee, so no panic is hidden.
\<close>

section \<open>Names\<close>

type_synonym byte = "8 word"
type_synonym u32 = "32 word"
type_synonym u64 = "64 word"
type_synonym bytes = "byte list"
type_synonym ('e, 'a) result = "'e + 'a"

text \<open>Facts about slices of buffers and about the size of encodings.\<close>

named_theorems buf_simps
named_theorems len_simps

section \<open>Results\<close>

definition bind_result :: "('e, 'a) result \<Rightarrow> ('a \<Rightarrow> ('e, 'b) result) \<Rightarrow> ('e, 'b) result" where
  "bind_result r f = (case r of Inl e \<Rightarrow> Inl e | Inr a \<Rightarrow> f a)"

lemma bind_result_simps [simp]:
  "bind_result (Inl e) f = Inl e"
  "bind_result (Inr a) f = f a"
  by (simp_all add: bind_result_def)

lemma bind_result_Inr_iff:
  "bind_result r f = Inr b \<longleftrightarrow> (\<exists>a. r = Inr a \<and> f a = Inr b)"
  by (cases r) auto

lemma bind_result_Inl_iff:
  "bind_result r f = Inl e \<longleftrightarrow> r = Inl e \<or> (\<exists>a. r = Inr a \<and> f a = Inl e)"
  by (cases r) auto

definition ok_or :: "'a option \<Rightarrow> 'e \<Rightarrow> ('e, 'a) result" where
  "ok_or x e = (case x of None \<Rightarrow> Inl e | Some a \<Rightarrow> Inr a)"

lemma ok_or_simps [simp]: "ok_or None e = Inl e" "ok_or (Some a) e = Inr a"
  by (simp_all add: ok_or_def)

lemma ok_or_Inr: "ok_or x e = Inr a \<longleftrightarrow> x = Some a"
  by (cases x) simp_all

lemma if_Inl_Inr: "(if c then Inl e else r) = Inr a \<longleftrightarrow> \<not> c \<and> r = Inr a"
  by simp

section \<open>Buffers\<close>

definition slice :: "nat \<Rightarrow> nat \<Rightarrow> 'a list \<Rightarrow> 'a list" where
  "slice off n xs = take n (drop off xs)"

definition put :: "nat \<Rightarrow> 'a list \<Rightarrow> 'a list \<Rightarrow> 'a list" where
  "put off src buf = take off buf @ src @ drop (off + length src) buf"

lemma length_slice [simp, len_simps]:
  "off + n \<le> length xs \<Longrightarrow> length (slice off n xs) = n"
  by (simp add: slice_def)

lemma length_put [simp, len_simps]:
  "off + length src \<le> length buf \<Longrightarrow> length (put off src buf) = length buf"
  by (simp add: put_def)

lemma drop_slice: "drop k xs = slice k n xs @ drop (k + n) xs"
  by (metis append_take_drop_id drop_drop add.commute slice_def)

lemma slice_put_same [buf_simps]:
  "off + n \<le> length buf \<Longrightarrow> length src = n \<Longrightarrow> slice off n (put off src buf) = src"
  by (simp add: slice_def put_def)

lemma slice_put_before [buf_simps]:
  assumes "a + n \<le> off" and "off + length src \<le> length buf"
  shows "slice a n (put off src buf) = slice a n buf"
proof -
  have "take n (drop a (take off buf)) = take n (drop a buf)"
    using assms(1) by (simp add: drop_take min_def)
  with assms show ?thesis by (simp add: slice_def put_def)
qed

lemma slice_put_after [buf_simps]:
  assumes "off + length src \<le> a" and "off + length src \<le> length buf"
  shows "slice a n (put off src buf) = slice a n buf"
  using assms by (simp add: slice_def put_def)

lemma slice_nth: "i < n \<Longrightarrow> off + n \<le> length xs \<Longrightarrow> slice off n xs ! i = xs ! (off + i)"
  by (simp add: slice_def)

lemma slice_replicate [buf_simps]:
  "off + n \<le> m \<Longrightarrow> slice off n (replicate m x) = replicate n x"
  by (simp add: slice_def min_def)

lemma slice_all [simp]: "slice 0 (length xs) xs = xs"
  by (simp add: slice_def)

lemma slice_whole: "length xs = n \<Longrightarrow> slice 0 n xs = xs"
  by (simp add: slice_def)

lemma slice_append_slice:
  "slice a n xs @ slice (a + n) m xs = slice a (n + m) xs"
proof -
  have "take n (drop a xs) @ take m (drop n (drop a xs)) = take (n + m) (drop a xs)"
    by (simp only: take_add)
  then show ?thesis by (simp add: slice_def add.commute)
qed

lemma slice_slice:
  "b + m \<le> n \<Longrightarrow> slice b m (slice a n xs) = slice (a + b) m xs"
  by (simp add: slice_def drop_take add.commute)

lemma put_nth:
  assumes "off + length src \<le> length buf" "i < length buf"
  shows "put off src buf ! i =
    (if off \<le> i \<and> i < off + length src then src ! (i - off) else buf ! i)"
  using assms by (auto simp: put_def nth_append)

lemma put_whole: "length src = length buf \<Longrightarrow> put 0 src buf = src"
  by (simp add: put_def)

lemma put_slice_self: "off + n \<le> length buf \<Longrightarrow> put off (slice off n buf) buf = buf"
  by (rule nth_equalityI) (auto simp: put_nth slice_nth)

lemma put_put_same:
  "off + length s \<le> length buf \<Longrightarrow> length s' = length s \<Longrightarrow> put off s (put off s' buf) = put off s buf"
  by (simp add: put_def)

lemma take_add_append: "length h = m \<Longrightarrow> take (m + n) (h @ xs) = h @ take n xs"
  by simp

text \<open>A buffer of equal slots, updated slot by slot.\<close>

definition slot_update :: "nat \<Rightarrow> (nat \<Rightarrow> 'a list \<Rightarrow> 'a list) \<Rightarrow> nat \<Rightarrow> 'a list \<Rightarrow> 'a list" where
  "slot_update m f i b = put (i * m) (f i (slice (i * m) m b)) b"

lemma slot_inside: "i < n \<Longrightarrow> n * m \<le> l \<Longrightarrow> i * m + m \<le> (l::nat)"
  by (metis Suc_leI add.commute le_trans mult_Suc mult_le_mono1)

lemma slot_update_facts:
  assumes "i < n" "n * m \<le> length b" "\<And>s. length s = m \<Longrightarrow> length (f i s) = m"
  shows "length (slot_update m f i b) = length b"
    "j < n \<Longrightarrow> slice (j * m) m (slot_update m f i b)
       = (if j = i then f i (slice (i * m) m b) else slice (j * m) m b)"
    "n * m \<le> a \<Longrightarrow> drop a (slot_update m f i b) = drop a b"
proof -
  have inside: "i * m + m \<le> length b" using slot_inside assms(1,2) by blast
  have len: "length (f i (slice (i * m) m b)) = m" using inside by (intro assms(3)) simp
  show "length (slot_update m f i b) = length b"
    using inside len by (simp add: slot_update_def)
  show "n * m \<le> a \<Longrightarrow> drop a (slot_update m f i b) = drop a b"
    using inside len slot_inside[OF assms(1) order_refl, of m]
    by (simp add: slot_update_def put_def)
  show "slice (j * m) m (slot_update m f i b)
       = (if j = i then f i (slice (i * m) m b) else slice (j * m) m b)" if "j < n"
  proof (cases j i rule: linorder_cases)
    case less
    then have "j * m + m \<le> i * m" using slot_inside[of j i m] by simp
    then show ?thesis using less inside len by (simp add: slot_update_def slice_put_before)
  next
    case equal
    then show ?thesis using inside len by (simp add: slot_update_def slice_put_same)
  next
    case greater
    then have "i * m + m \<le> j * m" using slot_inside[of i j m] by simp
    then show ?thesis using greater inside len by (simp add: slot_update_def slice_put_after)
  qed
qed

lemma slot_fold_facts:
  assumes "distinct is" "\<forall>i \<in> set is. i < n" "n * m \<le> length b"
    and f: "\<And>i s. i < n \<Longrightarrow> length s = m \<Longrightarrow> length (f i s) = m"
  shows "length (fold (slot_update m f) is b) = length b
    \<and> (\<forall>j < n. slice (j * m) m (fold (slot_update m f) is b)
         = (if j \<in> set is then f j (slice (j * m) m b) else slice (j * m) m b))
    \<and> (\<forall>a \<ge> n * m. drop a (fold (slot_update m f) is b) = drop a b)"
  using assms(1-3)
proof (induction "is" arbitrary: b)
  case Nil
  then show ?case by simp
next
  case (Cons i "is")
  have i: "i < n" using Cons.prems by simp
  note u = slot_update_facts[where f = f, OF i Cons.prems(3) f[OF i]]
  have "n * m \<le> length (slot_update m f i b)" using u(1) Cons.prems(3) by simp
  then show ?case
    using Cons.IH[of "slot_update m f i b"] Cons.prems u by auto
qed

lemma slots_eqI:
  assumes "length a = length b" "n * m \<le> length a" "drop (n * m) a = drop (n * m) b"
    and "\<And>j. j < n \<Longrightarrow> slice (j * m) m a = slice (j * m) m b"
  shows "a = b"
proof -
  have "take (k * m) a = take (k * m) b" if "k \<le> n" for k
    using that
  proof (induction k)
    case 0
    then show ?case by simp
  next
    case (Suc k)
    have "take (Suc k * m) a = take (k * m) a @ slice (k * m) m a"
      by (metis add.commute mult_Suc slice_def take_add)
    also have "\<dots> = take (k * m) b @ slice (k * m) m b"
      using Suc assms(4)[of k] by simp
    also have "\<dots> = take (Suc k * m) b" by (metis add.commute mult_Suc slice_def take_add)
    finally show ?case .
  qed
  then show ?thesis using assms(3) by (metis append_take_drop_id order_refl)
qed

lemma drop_slot: "drop (j * m) xs = slice (j * m) m xs @ drop (Suc j * m) xs"
  by (simp add: slice_def) (metis add.commute append_take_drop_id drop_drop)

section \<open>Little-endian integers\<close>

fun nat_to_le :: "nat \<Rightarrow> nat \<Rightarrow> bytes" where
  "nat_to_le 0 k = []"
| "nat_to_le (Suc n) k = of_nat (k mod 256) # nat_to_le n (k div 256)"

fun le_to_nat :: "bytes \<Rightarrow> nat" where
  "le_to_nat [] = 0"
| "le_to_nat (b # bs) = unat b + 256 * le_to_nat bs"

lemma length_nat_to_le [simp, len_simps]: "length (nat_to_le n k) = n"
  by (induction n arbitrary: k) auto

lemma unat_of_nat_byte: "unat (of_nat (k mod 256) :: byte) = k mod 256"
  by (simp add: unat_of_nat)

lemma le_to_nat_to_le: "k < 256 ^ n \<Longrightarrow> le_to_nat (nat_to_le n k) = k"
proof (induction n arbitrary: k)
  case 0
  then show ?case by simp
next
  case (Suc n)
  have "k div 256 < 256 ^ n"
    using Suc.prems by (simp add: div_less_iff_less_mult mult.commute)
  then show ?case using Suc.IH by (simp add: unat_of_nat_byte)
qed

lemma le_to_nat_bound: "le_to_nat bs < 256 ^ length bs"
proof (induction bs)
  case Nil
  then show ?case by simp
next
  case (Cons b bs)
  have "unat b < 256" using unsigned_less[of b, where ?'a = nat] by simp
  with Cons.IH show ?case by simp
qed

lemma nat_to_le_to_nat: "length bs = n \<Longrightarrow> nat_to_le n (le_to_nat bs) = bs"
proof (induction bs arbitrary: n)
  case Nil
  then show ?case by simp
next
  case (Cons b bs)
  have b: "unat b < 256" using unsigned_less[of b, where ?'a = nat] by simp
  have "(unat b + 256 * le_to_nat bs) mod 256 = unat b"
    using b by simp
  moreover have "(unat b + 256 * le_to_nat bs) div 256 = le_to_nat bs"
    using b by simp
  ultimately show ?case using Cons by auto
qed

text \<open>\<open>u64::to_le_bytes\<close> and \<open>u64::from_le_bytes\<close>.\<close>

definition u64_to_le :: "u64 \<Rightarrow> bytes" where
  "u64_to_le w = nat_to_le 8 (unat w)"

definition u64_from_le :: "bytes \<Rightarrow> u64" where
  "u64_from_le bs = of_nat (le_to_nat bs)"

lemma length_u64_to_le [simp, len_simps]: "length (u64_to_le w) = 8"
  by (simp add: u64_to_le_def)

lemma u64_from_to_le [simp, buf_simps]: "u64_from_le (u64_to_le w) = w"
proof -
  have "unat w < 256 ^ 8" using unsigned_less[of w, where ?'a = nat] by simp
  then show ?thesis by (simp add: u64_from_le_def u64_to_le_def le_to_nat_to_le)
qed

lemma u64_to_from_le: "length bs = 8 \<Longrightarrow> u64_to_le (u64_from_le bs) = bs"
proof -
  assume l: "length bs = 8"
  have "le_to_nat bs < 2 ^ 64" using le_to_nat_bound[of bs] l by simp
  then have "unat (of_nat (le_to_nat bs) :: u64) = le_to_nat bs"
    by (simp add: unat_of_nat)
  then show ?thesis by (simp add: u64_from_le_def u64_to_le_def nat_to_le_to_nat l)
qed

lemma u64_to_le_inj: "u64_to_le a = u64_to_le b \<longleftrightarrow> a = b"
  by (metis u64_from_to_le)

definition u32_to_le :: "u32 \<Rightarrow> bytes" where
  "u32_to_le w = nat_to_le 4 (unat w)"

lemma length_u32_to_le [simp, len_simps]: "length (u32_to_le w) = 4"
  by (simp add: u32_to_le_def)

definition u32_from_le :: "bytes \<Rightarrow> u32" where
  "u32_from_le bs = of_nat (le_to_nat bs)"

lemma u32_from_to_le: "u32_from_le (u32_to_le w) = w"
proof -
  have "unat w < 256 ^ 4" using unsigned_less[of w] by simp
  then show ?thesis by (simp add: u32_from_le_def u32_to_le_def le_to_nat_to_le)
qed

lemma u32_to_from_le:
  assumes "length bs = 4"
  shows "u32_to_le (u32_from_le bs) = bs"
proof -
  have "le_to_nat bs < 256 ^ length bs" by (rule le_to_nat_bound)
  then have "unat (of_nat (le_to_nat bs) :: u32) = le_to_nat bs" using assms by (simp add: unat_of_nat)
  then show ?thesis using assms by (simp add: u32_from_le_def u32_to_le_def nat_to_le_to_nat)
qed

section \<open>Saturating integers\<close>

definition sat_add64 :: "u64 \<Rightarrow> u64 \<Rightarrow> u64" where
  "sat_add64 a b = (if unat a + unat b < 2 ^ 64 then a + b else - 1)"

definition sat_sub64 :: "u64 \<Rightarrow> u64 \<Rightarrow> u64" where
  "sat_sub64 a b = (if b \<le> a then a - b else 0)"

definition sat_mul64 :: "u64 \<Rightarrow> u64 \<Rightarrow> u64" where
  "sat_mul64 a b = (if unat a * unat b < 2 ^ 64 then a * b else - 1)"

lemma unat_max_word64: "unat (- 1 :: u64) = 2 ^ 64 - 1"
  by (simp add: unsigned_minus_1_eq_mask mask_eq_exp_minus_1)

lemma unat_sat_add64: "unat (sat_add64 a b) = min (unat a + unat b) (2 ^ 64 - 1)"
  by (auto simp: sat_add64_def unat_word_ariths unat_max_word64)

lemma unat_sat_sub64: "unat (sat_sub64 a b) = unat a - unat b"
  by (auto simp: sat_sub64_def unat_sub word_le_nat_alt)

lemma unat_sat_mul64: "unat (sat_mul64 a b) = min (unat a * unat b) (2 ^ 64 - 1)"
  by (auto simp: sat_mul64_def unat_word_ariths unat_max_word64)

section \<open>Lists\<close>

lemma map_upt_nth [simp]: "map (\<lambda>i. xs ! i) [0..<length xs] = xs"
  by (rule map_nth)

lemma filter_length_mono: "(\<And>x. P x \<Longrightarrow> Q x) \<Longrightarrow> length (filter P xs) \<le> length (filter Q xs)"
  by (induction xs) auto

lemma distinct_filter_count_le:
  "distinct xs \<Longrightarrow> length (filter P xs) = card {x \<in> set xs. P x}"
  by (metis distinct_card distinct_filter set_filter)

end
