(* ===== verification/Cell.thy ===== *)
theory Cell
  imports Aegis_Prelude
begin

text \<open>
  The link cell of \<^verbatim>\<open>crates/aegis-crypto/src/cell.rs\<close>: a 512-byte buffer whose first byte
  is a command.
\<close>

definition CELL_LEN :: nat where
  "CELL_LEN = 512"

datatype Command = Create | Extend | Data | DropCell | LoopToSelf | SphinxFragment | PeerHealthAdvert

text \<open>\<open>Command as u8\<close>: the discriminants of the enum.\<close>

fun command_byte :: "Command \<Rightarrow> byte" where
  "command_byte Create = 0x01"
| "command_byte Extend = 0x02"
| "command_byte Data = 0x03"
| "command_byte DropCell = 0x04"
| "command_byte LoopToSelf = 0x05"
| "command_byte SphinxFragment = 0x06"
| "command_byte PeerHealthAdvert = 0x07"

definition command_from_u8 :: "byte \<Rightarrow> Command option" where
  "command_from_u8 b =
     (if b = 0x01 then Some Create
      else if b = 0x02 then Some Extend
      else if b = 0x03 then Some Data
      else if b = 0x04 then Some DropCell
      else if b = 0x05 then Some LoopToSelf
      else if b = 0x06 then Some SphinxFragment
      else if b = 0x07 then Some PeerHealthAdvert
      else None)"

lemma command_from_to [simp]: "command_from_u8 (command_byte c) = Some c"
  by (cases c) (simp_all add: command_from_u8_def)

lemma command_from_Some_iff: "command_from_u8 b = Some c \<longleftrightarrow> b = command_byte c"
  by (cases c) (auto simp: command_from_u8_def split: if_splits)

type_synonym Cell = bytes

definition cell_zeroed :: Cell where
  "cell_zeroed = replicate CELL_LEN 0"

text \<open>\<open>Cell(pub [u8; CELL_LEN])\<close>: the type fixes the length.\<close>

definition wf_cell :: "Cell \<Rightarrow> bool" where
  "wf_cell c \<longleftrightarrow> length c = CELL_LEN"

lemma wf_cell_zeroed [simp]: "wf_cell cell_zeroed"
  by (simp add: wf_cell_def cell_zeroed_def)

end
