(* ===== verification/Packet.thy ===== *)
theory Packet
  imports Cell
begin

text \<open>
  The fixed layout of a Sphinx packet: the constants of \<^verbatim>\<open>crates/aegis-crypto/src/kem.rs\<close>
  and \<^verbatim>\<open>crates/aegis-crypto/src/sphinx.rs\<close> and the packet type.
  A packet is \<open>alpha | beta | gamma | delta\<close>, 8512 bytes for every path length.
\<close>

definition MLKEM768_CT_LEN :: nat where
  "MLKEM768_CT_LEN = 1088"

definition KEM_HEADER_LEN :: nat where
  "KEM_HEADER_LEN = 32 + MLKEM768_CT_LEN"

definition MAX_HOPS :: nat where
  "MAX_HOPS = 6"

definition ROUTING_SLOT_LEN :: nat where
  "ROUTING_SLOT_LEN = 32 + KEM_HEADER_LEN + 32"

definition ALPHA_LEN :: nat where
  "ALPHA_LEN = KEM_HEADER_LEN"

definition BETA_LEN :: nat where
  "BETA_LEN = MAX_HOPS * ROUTING_SLOT_LEN"

definition GAMMA_LEN :: nat where
  "GAMMA_LEN = 32"

definition DELTA_LEN :: nat where
  "DELTA_LEN = 256"

definition SPHINX_PACKET_LEN :: nat where
  "SPHINX_PACKET_LEN = ALPHA_LEN + BETA_LEN + GAMMA_LEN + DELTA_LEN"

definition OFF_ALPHA :: nat where
  "OFF_ALPHA = 0"

definition OFF_BETA :: nat where
  "OFF_BETA = ALPHA_LEN"

definition OFF_GAMMA :: nat where
  "OFF_GAMMA = OFF_BETA + BETA_LEN"

definition OFF_DELTA :: nat where
  "OFF_DELTA = OFF_GAMMA + GAMMA_LEN"

text \<open>The values, as the module documentation states them.\<close>

lemma layout_values:
  "MLKEM768_CT_LEN = 1088" "KEM_HEADER_LEN = 1120" "MAX_HOPS = 6" "ROUTING_SLOT_LEN = 1184"
  "ALPHA_LEN = 1120" "BETA_LEN = 7104" "GAMMA_LEN = 32" "DELTA_LEN = 256"
  "SPHINX_PACKET_LEN = 8512"
  "OFF_ALPHA = 0" "OFF_BETA = 1120" "OFF_GAMMA = 8224" "OFF_DELTA = 8256"
  by (simp_all add: MLKEM768_CT_LEN_def KEM_HEADER_LEN_def MAX_HOPS_def ROUTING_SLOT_LEN_def
      ALPHA_LEN_def BETA_LEN_def GAMMA_LEN_def DELTA_LEN_def SPHINX_PACKET_LEN_def
      OFF_ALPHA_def OFF_BETA_def OFF_GAMMA_def OFF_DELTA_def)

type_synonym SphinxPacket = bytes

definition wf_packet :: "SphinxPacket \<Rightarrow> bool" where
  "wf_packet p \<longleftrightarrow> length p = SPHINX_PACKET_LEN"

end
