(* ===== verification/Fragment.thy ===== *)
theory Fragment
  imports Packet
begin

text \<open>
  \<^verbatim>\<open>crates/aegis-crypto/src/fragment.rs\<close>: splitting a Sphinx packet into 18 equal link cells
  and the in-order reassembler. The reassembler's \<open>push\<close> is a state transformer: it returns
  the result and the new state, and keeps the mutations the code makes before an error return.
\<close>

definition FRAGMENT_HEADER_LEN :: nat where
  "FRAGMENT_HEADER_LEN = 12"

definition FRAGMENT_PAYLOAD_LEN :: nat where
  "FRAGMENT_PAYLOAD_LEN = CELL_LEN - FRAGMENT_HEADER_LEN"

definition SPHINX_FRAGMENT_COUNT :: nat where
  "SPHINX_FRAGMENT_COUNT = (SPHINX_PACKET_LEN - 1) div FRAGMENT_PAYLOAD_LEN + 1"

definition LAST_FRAGMENT_DATA_LEN :: nat where
  "LAST_FRAGMENT_DATA_LEN =
     SPHINX_PACKET_LEN - (SPHINX_FRAGMENT_COUNT - 1) * FRAGMENT_PAYLOAD_LEN"

definition FR_OFF_COMMAND :: nat where "FR_OFF_COMMAND = 0"
definition FR_OFF_FRAG_IDX :: nat where "FR_OFF_FRAG_IDX = 1"
definition FR_OFF_PACKET_ID :: nat where "FR_OFF_PACKET_ID = 2"
definition FR_OFF_RESERVED :: nat where "FR_OFF_RESERVED = 10"
definition FR_OFF_PAYLOAD :: nat where "FR_OFF_PAYLOAD = FRAGMENT_HEADER_LEN"

lemma fragment_values:
  "CELL_LEN = 512" "FRAGMENT_HEADER_LEN = 12" "FRAGMENT_PAYLOAD_LEN = 500"
  "SPHINX_FRAGMENT_COUNT = 18" "LAST_FRAGMENT_DATA_LEN = 12"
  "FR_OFF_COMMAND = 0" "FR_OFF_FRAG_IDX = 1" "FR_OFF_PACKET_ID = 2" "FR_OFF_RESERVED = 10"
  "FR_OFF_PAYLOAD = 12"
  by (simp_all add: CELL_LEN_def FRAGMENT_HEADER_LEN_def FRAGMENT_PAYLOAD_LEN_def
      SPHINX_FRAGMENT_COUNT_def LAST_FRAGMENT_DATA_LEN_def FR_OFF_COMMAND_def FR_OFF_FRAG_IDX_def
      FR_OFF_PACKET_ID_def FR_OFF_RESERVED_def FR_OFF_PAYLOAD_def layout_values)

type_synonym PacketId = bytes

datatype FragmentError =
    FrMalformed string
  | Incomplete nat nat
  | OutOfOrder byte byte
  | PacketIdMismatch

section \<open>Encoding and decoding one cell\<close>

definition fragment_copy_len :: "byte \<Rightarrow> nat" where
  "fragment_copy_len index =
     (if unat index = SPHINX_FRAGMENT_COUNT - 1 then LAST_FRAGMENT_DATA_LEN
      else FRAGMENT_PAYLOAD_LEN)"

definition encode_fragment_cell :: "PacketId \<Rightarrow> byte \<Rightarrow> SphinxPacket \<Rightarrow> Cell" where
  "encode_fragment_cell packet_id index packet =
     (let buf = replicate CELL_LEN 0;
          buf = buf[FR_OFF_COMMAND := command_byte SphinxFragment];
          buf = buf[FR_OFF_FRAG_IDX := index];
          buf = put FR_OFF_PACKET_ID packet_id buf;
          src_off = unat index * FRAGMENT_PAYLOAD_LEN;
          copy_len = fragment_copy_len index
      in put FR_OFF_PAYLOAD (slice src_off copy_len packet) buf)"

definition decode_fragment_cell :: "Cell \<Rightarrow> (FragmentError, PacketId \<times> byte \<times> bytes) result" where
  "decode_fragment_cell b =
     bind_result (ok_or (command_from_u8 (b ! FR_OFF_COMMAND)) (FrMalformed ''command'')) (\<lambda>cmd.
     if cmd \<noteq> SphinxFragment then Inl (FrMalformed ''not a sphinx fragment'')
     else let index = b ! FR_OFF_FRAG_IDX in
     if unat index \<ge> SPHINX_FRAGMENT_COUNT then Inl (FrMalformed ''fragment index'')
     else if slice FR_OFF_RESERVED (FR_OFF_PAYLOAD - FR_OFF_RESERVED) b
               \<noteq> replicate (FR_OFF_PAYLOAD - FR_OFF_RESERVED) 0
     then Inl (FrMalformed ''reserved bytes'')
     else Inr (slice FR_OFF_PACKET_ID 8 b, index, slice FR_OFF_PAYLOAD FRAGMENT_PAYLOAD_LEN b))"

definition fragment :: "SphinxPacket \<Rightarrow> PacketId \<Rightarrow> Cell list" where
  "fragment packet packet_id =
     map (\<lambda>i. encode_fragment_cell packet_id (of_nat i) packet) [0..<SPHINX_FRAGMENT_COUNT]"

text \<open>\<open>fragment_with_random_id\<close>: \<open>fill_bytes\<close> is the CSPRNG, given the number of bytes.\<close>

definition fragment_with_random_id ::
    "('r \<Rightarrow> nat \<Rightarrow> bytes \<times> 'r) \<Rightarrow> SphinxPacket \<Rightarrow> 'r \<Rightarrow> (Cell list \<times> PacketId) \<times> 'r" where
  "fragment_with_random_id fill_bytes packet rng =
     (let (packet_id, rng') = fill_bytes rng 8 in ((fragment packet packet_id, packet_id), rng'))"

section \<open>The reassembler\<close>

record SphinxReassembler =
  expected_index :: byte
  packet_id :: "PacketId option"
  buf :: bytes

definition reassembler_new :: SphinxReassembler where
  "reassembler_new =
     \<lparr>expected_index = 0, packet_id = None, buf = replicate SPHINX_PACKET_LEN 0\<rparr>"

definition reassembler_reset :: "SphinxReassembler \<Rightarrow> SphinxReassembler" where
  "reassembler_reset s =
     s\<lparr>expected_index := 0, packet_id := None, buf := replicate SPHINX_PACKET_LEN 0\<rparr>"

definition push ::
    "SphinxReassembler \<Rightarrow> Cell \<Rightarrow> (FragmentError, SphinxPacket option) result \<times> SphinxReassembler"
  where
  "push s cell =
     (case decode_fragment_cell cell of
        Inl e \<Rightarrow> (Inl e, s)
      | Inr (pid, index, payload) \<Rightarrow>
          if (case packet_id s of Some expected_id \<Rightarrow> expected_id \<noteq> pid | None \<Rightarrow> False)
          then (Inl PacketIdMismatch, s)
          else let s = s\<lparr>packet_id := Some pid\<rparr> in
          if index \<noteq> expected_index s then (Inl (OutOfOrder (expected_index s) index), s)
          else let dest_off = unat index * FRAGMENT_PAYLOAD_LEN;
                   copy_len = fragment_copy_len index;
                   s = s\<lparr>buf := put dest_off (take copy_len payload) (buf s)\<rparr>;
                   s = s\<lparr>expected_index := expected_index s + 1\<rparr>
          in if unat (expected_index s) = SPHINX_FRAGMENT_COUNT
             then (Inr (Some (buf s)), reassembler_reset s)
             else (Inr None, s))"

text \<open>The loop of \<open>reassemble\<close>: it stops at the first error or at the first packet.\<close>

fun reassemble_loop ::
    "nat \<Rightarrow> SphinxReassembler \<Rightarrow> Cell list \<Rightarrow> (FragmentError, SphinxPacket) result" where
  "reassemble_loop n s [] = Inl (Incomplete SPHINX_FRAGMENT_COUNT n)"
| "reassemble_loop n s (c # cs) =
     (case push s c of
        (Inl e, _) \<Rightarrow> Inl e
      | (Inr (Some p), _) \<Rightarrow> Inr p
      | (Inr None, s') \<Rightarrow> reassemble_loop n s' cs)"

definition reassemble :: "Cell list \<Rightarrow> (FragmentError, SphinxPacket) result" where
  "reassemble cells =
     (if length cells \<noteq> SPHINX_FRAGMENT_COUNT
      then Inl (Incomplete SPHINX_FRAGMENT_COUNT (length cells))
      else reassemble_loop (length cells) reassembler_new cells)"

text \<open>A link stream: cells pushed one after the other, the packets that come out in order.\<close>

fun push_stream ::
    "SphinxReassembler \<Rightarrow> Cell list \<Rightarrow> (FragmentError, SphinxPacket list) result \<times> SphinxReassembler"
  where
  "push_stream s [] = (Inr [], s)"
| "push_stream s (c # cs) =
     (case push s c of
        (Inl e, s') \<Rightarrow> (Inl e, s')
      | (Inr out, s') \<Rightarrow>
          (case push_stream s' cs of
             (Inl e, s'') \<Rightarrow> (Inl e, s'')
           | (Inr ps, s'') \<Rightarrow> (Inr ((case out of None \<Rightarrow> [] | Some p \<Rightarrow> [p]) @ ps), s'')))"


section \<open>Wire format\<close>

lemma fragment_copy_len_le: "fragment_copy_len i \<le> 500"
  by (simp add: fragment_copy_len_def fragment_values)

lemma fragment_copy_len_inside:
  "unat i < 18 \<Longrightarrow> unat i * 500 + fragment_copy_len i \<le> 8512"
  by (auto simp: fragment_copy_len_def fragment_values)

text \<open>The cell as the concatenation the module documentation draws.\<close>

lemma encode_layout:
  assumes "length pid = 8"
  shows "encode_fragment_cell pid i p =
    [command_byte SphinxFragment, i] @ pid @ [0, 0]
    @ slice (unat i * 500) (fragment_copy_len i) p
    @ replicate (500 - length (slice (unat i * 500) (fragment_copy_len i) p)) 0"
proof -
  let ?d = "slice (unat i * 500) (fragment_copy_len i) p"
  have le: "length ?d \<le> 500"
    using fragment_copy_len_le[of i] by (simp add: slice_def)
  have r: "(replicate 512 (0::byte))[0 := x, 1 := y] = x # y # replicate 510 0" for x y
    by (simp add: numeral_eq_Suc)
  have p1: "put 2 pid (x # y # replicate 510 0) = x # y # pid @ replicate 502 (0::byte)" for x y
    using assms by (simp add: put_def take_Cons' drop_Cons')
  have p2: "put 12 d (x # y # pid @ replicate 502 (0::byte))
      = x # y # pid @ [0, 0] @ d @ replicate (500 - length d) 0" if "length d \<le> 500" for x y d
    using assms that by (simp add: put_def take_Cons' drop_Cons' numeral_2_eq_2)
  show ?thesis
    using p2[OF le, of "command_byte SphinxFragment" i]
    by (simp add: encode_fragment_cell_def Let_def fragment_values r[simplified] p1)
qed

lemma wf_encode:
  assumes "length pid = 8"
  shows "wf_cell (encode_fragment_cell pid i p)"
proof -
  have "length (slice (unat i * 500) (fragment_copy_len i) p) \<le> 500"
    using fragment_copy_len_le[of i] by (simp add: slice_def)
  with assms show ?thesis by (simp add: encode_layout wf_cell_def fragment_values)
qed

definition fragment_payload :: "byte \<Rightarrow> SphinxPacket \<Rightarrow> bytes" where
  "fragment_payload i p =
     slice (unat i * 500) (fragment_copy_len i) p @ replicate (500 - fragment_copy_len i) 0"

lemma decode_encode:
  assumes "length pid = 8" "wf_packet p" "unat i < SPHINX_FRAGMENT_COUNT"
  shows "decode_fragment_cell (encode_fragment_cell pid i p) = Inr (pid, i, fragment_payload i p)"
proof -
  let ?d = "slice (unat i * 500) (fragment_copy_len i) p"
  have d: "length ?d = fragment_copy_len i"
    using assms fragment_copy_len_inside[of i]
    by (simp add: wf_packet_def layout_values fragment_values)
  have le: "fragment_copy_len i \<le> 500" by (rule fragment_copy_len_le)
  show ?thesis
    using assms d le
    by (simp add: encode_layout decode_fragment_cell_def fragment_values Let_def slice_def
        fragment_payload_def numeral_2_eq_2 nth_append del: command_byte.simps)
qed

text \<open>What \<open>decode\<close> accepts, and that header and payload determine the cell.\<close>

lemma decode_InrD:
  assumes "decode_fragment_cell c = Inr (pid, i, pl)" "wf_cell c"
  shows "unat i < 18" "length pid = 8" "length pl = 500"
    "c = [command_byte SphinxFragment, i] @ pid @ [0, 0] @ pl"
proof -
  have len: "length c = 512" using assms(2) by (simp add: wf_cell_def fragment_values)
  have facts: "c ! 0 = command_byte SphinxFragment" "i = c ! 1" "unat i < 18"
      "slice 10 2 c = replicate 2 0" "pid = slice 2 8 c" "pl = slice 12 500 c"
    using assms(1)
    by (auto simp: decode_fragment_cell_def fragment_values bind_result_Inr_iff Let_def
        command_from_Some_iff ok_or_def split: if_splits option.splits)
  then show "unat i < 18" "length pid = 8" "length pl = 500"
    using len by simp_all
  have h: "slice 0 2 c = [c ! 0, c ! 1]"
    using len by (simp add: list_eq_iff_nth_eq slice_nth less_Suc_eq numeral_2_eq_2)
  have z: "replicate 2 0 = [0, 0::byte]" by (simp add: numeral_2_eq_2)
  have "slice 0 2 c @ slice 2 8 c = slice 0 10 c"
    using slice_append_slice[of 0 2 c 8] by (simp add: numeral_2_eq_2)
  moreover have "slice 0 10 c @ slice 10 2 c = slice 0 12 c"
    using slice_append_slice[of 0 10 c 2] by simp
  moreover have "slice 0 12 c @ slice 12 500 c = c"
    using slice_append_slice[of 0 12 c 500] slice_whole[OF len] by simp
  ultimately have "c = slice 0 2 c @ slice 2 8 c @ slice 10 2 c @ slice 12 500 c"
    by (metis append_assoc)
  with facts h z show "c = [command_byte SphinxFragment, i] @ pid @ [0, 0] @ pl" by simp
qed

lemma decode_Inl:
  assumes "decode_fragment_cell c = Inl e"
  shows "\<exists>msg. e = FrMalformed msg"
  using assms
  by (auto simp: decode_fragment_cell_def bind_result_Inl_iff Let_def ok_or_def
      split: if_splits option.splits)

section \<open>The reassembler's invariant\<close>

definition reassembler_inv :: "SphinxReassembler \<Rightarrow> bool" where
  "reassembler_inv s \<longleftrightarrow>
     unat (expected_index s) < SPHINX_FRAGMENT_COUNT \<and> length (buf s) = SPHINX_PACKET_LEN
     \<and> (expected_index s \<noteq> 0 \<longrightarrow> packet_id s \<noteq> None)"

lemma reassembler_inv_new: "reassembler_inv reassembler_new"
  by (simp add: reassembler_inv_def reassembler_new_def fragment_values)

lemma reassembler_reset_eq [simp]: "reassembler_reset s = reassembler_new"
  by (cases s) (simp add: reassembler_reset_def reassembler_new_def)

lemma unat_Suc_byte: "unat (i::byte) < 18 \<Longrightarrow> unat (i + 1) = Suc (unat i)"
  by (simp add: unat_word_ariths)

text \<open>The step the code takes on an accepted cell.\<close>

lemma push_accept:
  assumes "decode_fragment_cell c = Inr (pid, expected_index s, pl)"
    and "packet_id s = None \<or> packet_id s = Some pid"
  shows "push s c =
    (let buf' = put (unat (expected_index s) * 500)
           (take (fragment_copy_len (expected_index s)) pl) (buf s) in
     if unat (expected_index s + 1) = 18 then (Inr (Some buf'), reassembler_new)
     else (Inr None,
       s\<lparr>packet_id := Some pid, buf := buf', expected_index := expected_index s + 1\<rparr>))"
  using assms by (auto simp: push_def Let_def fragment_values)

lemma push_InrD:
  assumes "push s c = (Inr out, s')"
  obtains pid pl where "decode_fragment_cell c = Inr (pid, expected_index s, pl)"
    "packet_id s = None \<or> packet_id s = Some pid"
  using assms
  by (auto simp: push_def Let_def split: sum.splits prod.splits if_splits option.splits)

lemma push_cases:
  "(\<exists>msg. push s c = (Inl (FrMalformed msg), s))
   \<or> push s c = (Inl PacketIdMismatch, s)
   \<or> (\<exists>pid i. i \<noteq> expected_index s \<and>
        push s c = (Inl (OutOfOrder (expected_index s) i), s\<lparr>packet_id := Some pid\<rparr>))
   \<or> (\<exists>pid pl. decode_fragment_cell c = Inr (pid, expected_index s, pl) \<and>
        (packet_id s = None \<or> packet_id s = Some pid))"
proof (cases "decode_fragment_cell c")
  case (Inl e)
  then show ?thesis using decode_Inl[OF Inl] by (auto simp: push_def)
next
  case (Inr r)
  obtain pid i pl where r: "r = (pid, i, pl)" by (cases r)
  show ?thesis
  proof (cases "packet_id s = None \<or> packet_id s = Some pid")
    case True
    then show ?thesis using Inr r by (cases "i = expected_index s") (auto simp: push_def Let_def)
  next
    case False
    then show ?thesis using Inr r by (auto simp: push_def)
  qed
qed

lemma push_inv:
  assumes "reassembler_inv s" "wf_cell c"
  shows "reassembler_inv (snd (push s c))"
proof -
  consider (mal) msg where "push s c = (Inl (FrMalformed msg), s)"
    | (mism) "push s c = (Inl PacketIdMismatch, s)"
    | (ooo) pid i where "push s c = (Inl (OutOfOrder (expected_index s) i), s\<lparr>packet_id := Some pid\<rparr>)"
    | (acc) pid pl where "decode_fragment_cell c = Inr (pid, expected_index s, pl)"
        "packet_id s = None \<or> packet_id s = Some pid"
    using push_cases[of s c] by blast
  then show ?thesis
  proof cases
    case acc
    have i: "unat (expected_index s) < 18"
      using assms(1) by (simp add: reassembler_inv_def fragment_values)
    have pl: "length pl = 500" using decode_InrD[OF acc(1) assms(2)] by simp
    have "length (put (unat (expected_index s) * 500)
        (take (fragment_copy_len (expected_index s)) pl) (buf s)) = 8512"
      using assms(1) i pl fragment_copy_len_inside[OF i] fragment_copy_len_le[of "expected_index s"]
      by (simp add: reassembler_inv_def layout_values min_def)
    then show ?thesis
      using i reassembler_inv_new
      by (auto simp: push_accept[OF acc] Let_def reassembler_inv_def fragment_values layout_values
          unat_Suc_byte)
  qed (use assms(1) in \<open>auto simp: reassembler_inv_def\<close>)
qed


section \<open>In-order streams\<close>

text \<open>
  A cell carries fragment \<open>i\<close> of \<open>p\<close> under \<open>pid\<close> when it agrees with the emitted cell on
  header and packet bytes; the padding after the packet bytes is free.
\<close>

definition carries :: "PacketId \<Rightarrow> SphinxPacket \<Rightarrow> nat \<Rightarrow> Cell \<Rightarrow> bool" where
  "carries pid p i c \<longleftrightarrow>
     (let n = 12 + fragment_copy_len (of_nat i) in
      take n c = take n (encode_fragment_cell pid (of_nat i) p))"

lemma carries_iff_decode:
  assumes "wf_cell c" "length pid = 8" "wf_packet p" "i < 18"
  shows "carries pid p i c \<longleftrightarrow>
    (\<exists>pl. decode_fragment_cell c = Inr (pid, of_nat i, pl)
      \<and> take (fragment_copy_len (of_nat i)) pl
          = slice (i * 500) (fragment_copy_len (of_nat i)) p)"
    (is "?L \<longleftrightarrow> ?R")
proof -
  let ?i = "of_nat i :: byte"
  let ?n = "fragment_copy_len ?i"
  have i: "unat ?i = i" using assms(4) by (simp add: unat_of_nat)
  have le: "?n \<le> 500" by (rule fragment_copy_len_le)
  have d: "length (slice (i * 500) ?n p) = ?n"
    using assms fragment_copy_len_inside[of ?i] i by (simp add: wf_packet_def layout_values)
  have enc: "take (12 + ?n) (encode_fragment_cell pid ?i p)
      = [command_byte SphinxFragment, ?i] @ pid @ [0, 0] @ slice (i * 500) ?n p"
  proof -
    let ?h = "[command_byte SphinxFragment, ?i] @ pid @ [0, 0] @ slice (i * 500) ?n p"
    have "encode_fragment_cell pid ?i p = ?h @ replicate (500 - ?n) 0"
      using assms(2) d i by (simp add: encode_layout del: command_byte.simps)
    moreover have "length ?h = 12 + ?n" using assms(2) d by simp
    ultimately show ?thesis by (metis append_eq_conv_conj)
  qed
  show ?thesis
  proof
    assume ?L
    then have t: "take (12 + ?n) c
        = [command_byte SphinxFragment, ?i] @ pid @ [0, 0] @ slice (i * 500) ?n p"
      using enc by (simp add: carries_def Let_def)
    define pl where "pl = drop 12 c"
    have "take 12 c = [command_byte SphinxFragment, ?i] @ pid @ [0, 0]"
      using arg_cong[OF t, of "take 12"] assms(2) by (simp add: min_def take_Cons')
    then have c: "c = ([command_byte SphinxFragment, ?i] @ pid @ [0, 0]) @ pl"
      unfolding pl_def by (metis append_take_drop_id)
    have pl: "length pl = 500"
      using assms(1) by (simp add: pl_def wf_cell_def fragment_values)
    have "decode_fragment_cell c = Inr (pid, ?i, pl)"
      unfolding c using assms(2,4) pl i
      by (simp add: decode_fragment_cell_def fragment_values Let_def slice_def numeral_2_eq_2
          nth_append del: command_byte.simps)
    moreover have "take ?n pl = slice (i * 500) ?n p"
      using arg_cong[OF t, of "drop 12"] assms(2) d pl
      by (simp add: c drop_take drop_Cons' del: command_byte.simps)
    ultimately show ?R by blast
  next
    assume ?R
    then obtain pl where pl: "decode_fragment_cell c = Inr (pid, ?i, pl)"
        "take ?n pl = slice (i * 500) ?n p" by blast
    let ?h = "[command_byte SphinxFragment, ?i] @ pid @ [0, 0]"
    have "take (12 + ?n) (?h @ pl) = ?h @ take ?n pl"
      using assms(2) by (intro take_add_append) simp
    with decode_InrD(4)[OF pl(1) assms(1)] enc pl(2) show ?L
      by (simp add: carries_def Let_def del: command_byte.simps)
  qed
qed

lemma carries_encode: "carries pid p i (encode_fragment_cell pid (of_nat i) p)"
  by (simp add: carries_def Let_def)

text \<open>The reassembler after the first \<open>k\<close> fragments of \<open>p\<close>.\<close>

definition after_fragments :: "PacketId \<Rightarrow> SphinxPacket \<Rightarrow> nat \<Rightarrow> SphinxReassembler" where
  "after_fragments pid p k =
     \<lparr>expected_index = of_nat k, packet_id = (if k = 0 then None else Some pid),
      buf = take (k * 500) p @ replicate (8512 - k * 500) 0\<rparr>"

lemma after_fragments_0: "after_fragments pid p 0 = reassembler_new"
  by (simp add: after_fragments_def reassembler_new_def layout_values)

lemma put_next:
  assumes "m + n \<le> length p"
  shows "put m (slice m n p) (take m p @ replicate (length p - m) x)
    = take (m + n) p @ replicate (length p - (m + n)) x"
proof -
  have "length (slice m n p) = n" using assms by simp
  then show ?thesis using assms by (simp add: put_def take_add slice_def)
qed

lemma push_next:
  assumes "wf_cell c" "length pid = 8" "wf_packet p" "k < 18" "carries pid p k c"
  shows "push (after_fragments pid p k) c =
    (if k = 17 then (Inr (Some p), reassembler_new)
     else (Inr None, after_fragments pid p (Suc k)))"
proof -
  let ?k = "of_nat k :: byte"
  let ?n = "fragment_copy_len ?k"
  have k: "unat ?k = k" using assms(4) by (simp add: unat_of_nat)
  obtain pl where pl: "decode_fragment_cell c = Inr (pid, ?k, pl)"
      "take ?n pl = slice (k * 500) ?n p"
    using carries_iff_decode[OF assms(1-4)] assms(5) by blast
  have e: "expected_index (after_fragments pid p k) = ?k" by (simp add: after_fragments_def)
  have p: "length p = 8512" using assms(3) by (simp add: wf_packet_def layout_values)
  have inside: "k * 500 + ?n \<le> length p" using fragment_copy_len_inside[of ?k] k assms(4) p by simp
  have buf: "put (k * 500) (take ?n pl) (buf (after_fragments pid p k))
      = take (k * 500 + ?n) p @ replicate (8512 - (k * 500 + ?n)) 0"
    using put_next[OF inside, of 0] p pl(2) by (simp add: after_fragments_def)
  have n: "?n = (if k = 17 then 12 else 500)"
    using k by (simp add: fragment_copy_len_def fragment_values)
  have suc: "unat (?k + 1) = Suc k" using unat_Suc_byte[of ?k] k assms(4) by simp
  have "push (after_fragments pid p k) c =
    (let buf' = put (unat ?k * 500) (take ?n pl) (buf (after_fragments pid p k)) in
     if unat (?k + 1) = 18 then (Inr (Some buf'), reassembler_new)
     else (Inr None, (after_fragments pid p k)
       \<lparr>packet_id := Some pid, buf := buf', expected_index := ?k + 1\<rparr>))"
    using push_accept[of c pid "after_fragments pid p k" pl, unfolded e] pl(1)
    by (simp add: after_fragments_def)
  then show ?thesis
    using k suc buf n p assms(4) by (auto simp: after_fragments_def add.commute)
qed

lemma reassemble_loop_carries:
  assumes "length pid = 8" "wf_packet p" "\<forall>c \<in> set cs. wf_cell c"
    and "length cs = 18 - k" "k < 18" "\<forall>j < 18 - k. carries pid p (k + j) (cs ! j)"
  shows "reassemble_loop n (after_fragments pid p k) cs = Inr p"
  using assms
proof (induction cs arbitrary: k)
  case Nil
  then show ?case by simp
next
  case (Cons c cs)
  have c: "carries pid p k c" using Cons.prems(5,6) by (force dest: spec[of _ 0])
  have step: "push (after_fragments pid p k) c =
    (if k = 17 then (Inr (Some p), reassembler_new)
     else (Inr None, after_fragments pid p (Suc k)))"
    using Cons.prems c by (intro push_next) auto
  show ?case
  proof (cases "k = 17")
    case True
    then show ?thesis using step by simp
  next
    case False
    have "carries pid p (Suc k + j) (cs ! j)" if "j < 18 - Suc k" for j
      using Cons.prems(6)[rule_format, of "Suc j"] that by simp
    then have "reassemble_loop n (after_fragments pid p (Suc k)) cs = Inr p"
      using Cons.prems False by (intro Cons.IH) auto
    then show ?thesis using step False by simp
  qed
qed

text \<open>Conversely, whatever the loop returns was carried, fragment by fragment, under one id.\<close>

lemma reassemble_loop_sound:
  assumes "reassemble_loop n s cs = Inr p" "reassembler_inv s" "\<forall>c \<in> set cs. wf_cell c"
  shows "wf_packet p \<and> take (unat (expected_index s) * 500) p = take (unat (expected_index s) * 500) (buf s)
    \<and> 18 - unat (expected_index s) \<le> length cs
    \<and> (\<exists>pid. length pid = 8 \<and> (packet_id s = None \<or> packet_id s = Some pid)
        \<and> (\<forall>j < 18 - unat (expected_index s). carries pid p (unat (expected_index s) + j) (cs ! j)))"
  using assms
proof (induction cs arbitrary: s)
  case Nil
  then show ?case by simp
next
  case (Cons c cs)
  let ?k = "unat (expected_index s)"
  let ?n = "fragment_copy_len (expected_index s)"
  have wf: "wf_cell c" using Cons.prems(3) by simp
  obtain pid pl where acc: "decode_fragment_cell c = Inr (pid, expected_index s, pl)"
      "packet_id s = None \<or> packet_id s = Some pid"
    using Cons.prems(1) push_cases[of s c] by (auto split: prod.splits sum.splits option.splits)
  note dec = decode_InrD[OF acc(1) wf]
  have k: "?k < 18" by (rule dec(1))
  have buf: "length (buf s) = 8512" using Cons.prems(2) by (simp add: reassembler_inv_def layout_values)
  have n: "?k * 500 + ?n \<le> 8512" "?n \<le> 500"
    using fragment_copy_len_inside[OF k] fragment_copy_len_le by auto
  define buf' where "buf' = put (?k * 500) (take ?n pl) (buf s)"
  have len': "length buf' = 8512"
    unfolding buf'_def using n buf dec(3) by simp
  have pre: "take (?k * 500) buf' = take (?k * 500) (buf s)"
    unfolding buf'_def using n buf by (simp add: put_def)
  have sl: "slice (?k * 500) ?n buf' = take ?n pl"
    unfolding buf'_def using n buf dec(3) by (intro slice_put_same) auto
  have carr: "carries pid q ?k c" if "wf_packet q" "slice (?k * 500) ?n q = take ?n pl" for q
    using carries_iff_decode[OF wf dec(2) that(1) k] acc(1) that(2) by simp
  show ?case
  proof (cases "unat (expected_index s + 1) = 18")
    case True
    then have k17: "?k = 17" using unat_Suc_byte[OF k] by simp
    then have n12: "?n = 12" by (simp add: fragment_copy_len_def fragment_values)
    have "p = buf'"
      using Cons.prems(1) True push_accept[OF acc] by (simp add: buf'_def Let_def)
    then show ?thesis
      using len' pre sl carr[of buf'] acc(2) dec(2) k17
      by (auto simp: wf_packet_def layout_values)
  next
    case False
    define s' where "s' = s\<lparr>packet_id := Some pid, buf := buf', expected_index := expected_index s + 1\<rparr>"
    have step: "push s c = (Inr None, s')"
      using False push_accept[OF acc] by (simp add: buf'_def s'_def Let_def)
    have k': "unat (expected_index s') = Suc ?k" using unat_Suc_byte[OF k] by (simp add: s'_def)
    have "?k \<noteq> 17" using False unat_Suc_byte[OF k] by simp
    then have n500: "?n = 500" by (simp add: fragment_copy_len_def fragment_values)
    have inv': "reassembler_inv s'" using push_inv[OF Cons.prems(2) wf] step by simp
    have IH: "wf_packet p" "take (Suc ?k * 500) p = take (Suc ?k * 500) buf'"
        "18 - Suc ?k \<le> length cs"
        "\<forall>j < 18 - Suc ?k. carries pid p (Suc ?k + j) (cs ! j)"
      using Cons.IH[of s'] Cons.prems(1,3) step inv' k' by (auto simp: s'_def)
    have eq: "slice (?k * 500) ?n p = slice (?k * 500) ?n buf'"
    proof -
      have "drop (?k * 500) (take (Suc ?k * 500) p) = drop (?k * 500) (take (Suc ?k * 500) buf')"
        using IH(2) by simp
      then show ?thesis by (simp add: slice_def drop_take n500)
    qed
    have "take (?k * 500) (take (Suc ?k * 500) p) = take (?k * 500) (take (Suc ?k * 500) buf')"
      using IH(2) by simp
    then have "take (?k * 500) p = take (?k * 500) (buf s)" using pre by (simp add: min_def)
    moreover have "carries pid p (?k + j) ((c # cs) ! j)" if "j < 18 - ?k" for j
      using that IH(4) carr[OF IH(1)] eq sl by (cases j) auto
    moreover have "18 - ?k \<le> length (c # cs)" using IH(3) by simp
    ultimately show ?thesis using IH(1) dec(2) acc(2) by blast
  qed
qed

section \<open>Whole packets\<close>

lemma fragment_nth: "i < 18 \<Longrightarrow> fragment p pid ! i = encode_fragment_cell pid (of_nat i) p"
  by (simp add: fragment_def fragment_values)

lemma length_fragment [simp, len_simps]: "length (fragment p pid) = SPHINX_FRAGMENT_COUNT"
  by (simp add: fragment_def)

lemma wf_fragment: "length pid = 8 \<Longrightarrow> c \<in> set (fragment p pid) \<Longrightarrow> wf_cell c"
  by (auto simp: fragment_def wf_encode)

lemma reassemble_iff_carries:
  assumes "\<forall>c \<in> set cells. wf_cell c"
  shows "reassemble cells = Inr p \<longleftrightarrow>
    length cells = 18 \<and> wf_packet p \<and>
    (\<exists>pid. length pid = 8 \<and> (\<forall>i < 18. carries pid p i (cells ! i)))"
proof
  assume L: "reassemble cells = Inr p"
  then have len: "length cells = 18" and loop: "reassemble_loop 18 reassembler_new cells = Inr p"
    by (auto simp: reassemble_def fragment_values split: if_splits)
  from reassemble_loop_sound[OF loop reassembler_inv_new assms] len
  show "length cells = 18 \<and> wf_packet p \<and>
    (\<exists>pid. length pid = 8 \<and> (\<forall>i < 18. carries pid p i (cells ! i)))"
    by (simp add: reassembler_new_def)
next
  assume R: "length cells = 18 \<and> wf_packet p \<and>
    (\<exists>pid. length pid = 8 \<and> (\<forall>i < 18. carries pid p i (cells ! i)))"
  then obtain pid where "length pid = 8" "\<forall>i < 18. carries pid p i (cells ! i)" by blast
  with R assms show "reassemble cells = Inr p"
    using reassemble_loop_carries[of pid p cells 0]
    by (simp add: reassemble_def fragment_values after_fragments_0)
qed

lemma push_stream_fragments:
  assumes "length pid = 8" "wf_packet p" "k < 18"
  shows "push_stream (after_fragments pid p k) (drop k (fragment p pid) @ rest) =
    (case push_stream reassembler_new rest of
       (Inl e, s) \<Rightarrow> (Inl e, s) | (Inr ps, s) \<Rightarrow> (Inr (p # ps), s))"
  using assms
proof (induction "17 - k" arbitrary: k)
  case (0 k)
  then have k: "k = 17" by simp
  have d: "drop 17 (fragment p pid) = [encode_fragment_cell pid (of_nat 17) p]"
    using Cons_nth_drop_Suc[of 17 "fragment p pid"] by (simp add: fragment_nth fragment_values)
  show ?case
    using push_next[OF wf_encode[OF 0(2)] 0(2,3) _ carries_encode, of 17] d k
    by (simp split: prod.splits sum.splits)
next
  case (Suc x)
  have d: "drop k (fragment p pid) = encode_fragment_cell pid (of_nat k) p # drop (Suc k) (fragment p pid)"
    using Cons_nth_drop_Suc[of k "fragment p pid"] Suc.prems by (simp add: fragment_nth fragment_values)
  have "push (after_fragments pid p k) (encode_fragment_cell pid (of_nat k) p)
      = (Inr None, after_fragments pid p (Suc k))"
    using push_next[OF wf_encode[OF Suc.prems(1)] Suc.prems(1,2) _ carries_encode, of k] Suc by simp
  moreover have "push_stream (after_fragments pid p (Suc k)) (drop (Suc k) (fragment p pid) @ rest) =
    (case push_stream reassembler_new rest of
       (Inl e, s) \<Rightarrow> (Inl e, s) | (Inr ps, s) \<Rightarrow> (Inr (p # ps), s))"
    using Suc by (intro Suc.hyps) auto
  ultimately show ?case by (simp add: d split: prod.splits sum.splits)
qed


lemma fragment_reassembles:
  assumes "wf_packet p" "length pid = 8"
  shows "length (fragment p pid) = 18 \<and> (\<forall>c \<in> set (fragment p pid). length c = 512)
    \<and> reassemble (fragment p pid) = Inr p"
proof -
  have wf: "\<forall>c \<in> set (fragment p pid). wf_cell c" using wf_fragment[OF assms(2)] by blast
  have "\<forall>i < 18. carries pid p i (fragment p pid ! i)"
    by (simp add: fragment_nth carries_encode)
  then show ?thesis
    using wf assms reassemble_iff_carries[OF wf, of p]
    by (auto simp: wf_cell_def fragment_values)
qed

text \<open>Packets fragmented one after the other on one link come out of a single reassembler unchanged and in order.\<close>

lemma stream_delivers:
  assumes "\<forall>(p, pid) \<in> set ps. wf_packet p \<and> length pid = 8"
  shows "push_stream reassembler_new (concat (map (\<lambda>(p, pid). fragment p pid) ps))
    = (Inr (map fst ps), reassembler_new)"
  using assms
proof (induction ps)
  case Nil
  then show ?case by simp
next
  case (Cons x ps)
  obtain p pid where x: "x = (p, pid)" by (cases x)
  have "wf_packet p" "length pid = 8" using Cons.prems x by auto
  then show ?case
    using push_stream_fragments[of pid p 0] Cons x by (simp add: after_fragments_0)
qed

section \<open>Properties\<close>

text \<open>C8. Round trip: a packet is emitted as 18 cells of 512 bytes each, and reassembling them
  gives the packet back.\<close>

theorem fragment_reassemble_roundtrip:
  assumes "wf_packet p" "length pid = 8"
  shows "length (fragment p pid) = 18 \<and> (\<forall>c \<in> set (fragment p pid). length c = 512)
    \<and> reassemble (fragment p pid) = Inr p"
  using fragment_reassembles[OF assms] .

theorem fragment_reassemble_roundtrip_witness:
  "reassemble (fragment (replicate 8512 5) [1, 2, 3, 4, 5, 6, 7, 8]) = Inr (replicate 8512 5)"
  using fragment_reassemble_roundtrip[of "replicate 8512 5" "[1, 2, 3, 4, 5, 6, 7, 8]"]
  by (simp add: wf_packet_def layout_values)

text \<open>C9. Exact acceptance: a list of cells reassembles to \<open>p\<close> if and only if it is 18 cells that
  agree, in order and under one packet id, with the emitted fragments of \<open>p\<close> on header and packet
  bytes (the padding of the last cell is not checked).\<close>

theorem reassemble_accepts_exactly:
  assumes "\<forall>c \<in> set cells. wf_cell c"
  shows "reassemble cells = Inr p \<longleftrightarrow>
    length cells = 18 \<and> wf_packet p \<and>
    (\<exists>pid. length pid = 8 \<and>
      (\<forall>i < 17. cells ! i = fragment p pid ! i) \<and> take 24 (cells ! 17) = take 24 (fragment p pid ! 17))"
proof -
  have *: "(\<forall>i < 18. carries pid p i (cells ! i)) \<longleftrightarrow>
      (\<forall>i < 17. cells ! i = fragment p pid ! i) \<and> take 24 (cells ! 17) = take 24 (fragment p pid ! 17)"
    if len: "length cells = 18" and pid: "length pid = 8" for pid
  proof -
    have full: "carries pid p i (cells ! i) \<longleftrightarrow> cells ! i = fragment p pid ! i" if "i < 17" for i
    proof -
      have "unat (of_nat i :: byte) = i" using that by (simp add: unat_of_nat)
      then have n: "fragment_copy_len (of_nat i) = 500"
        using that by (simp add: fragment_copy_len_def fragment_values)
      have "length (cells ! i) = 512" "length (encode_fragment_cell pid (of_nat i) p) = 512"
        using assms len that wf_encode[OF pid] by (auto simp: wf_cell_def fragment_values)
      then show ?thesis using that n by (simp add: carries_def Let_def fragment_nth)
    qed
    have last: "carries pid p 17 (cells ! 17) \<longleftrightarrow> take 24 (cells ! 17) = take 24 (fragment p pid ! 17)"
      by (simp add: carries_def Let_def fragment_nth fragment_copy_len_def fragment_values)
    have "i < 18 \<longleftrightarrow> i < 17 \<or> i = 17" for i :: nat by auto
    then have split: "(\<forall>i < 18. P i) \<longleftrightarrow> (\<forall>i < 17. P i) \<and> P (17 :: nat)" for P by auto
    show ?thesis unfolding split[of "\<lambda>i. carries pid p i (cells ! i)"] using full last by blast
  qed
  show ?thesis unfolding reassemble_iff_carries[OF assms] using * by blast
qed

text \<open>The padding of the last cell is free: 488 bytes of ones are accepted.\<close>

theorem reassemble_accepts_exactly_witness:
  "reassemble (take 17 (fragment (replicate 8512 5) (replicate 8 1))
     @ [take 24 (fragment (replicate 8512 5) (replicate 8 1) ! 17) @ replicate 488 1])
   = Inr (replicate 8512 5)"
proof -
  let ?p = "replicate 8512 (5::byte)" and ?id = "replicate 8 (1::byte)"
  let ?f = "fragment ?p ?id"
  let ?cells = "take 17 ?f @ [take 24 (?f ! 17) @ replicate 488 1]"
  have id: "length ?id = 8" by simp
  have len: "length ?f = 18" by (simp add: fragment_values)
  have wf: "wf_cell c" if "c \<in> set ?f" for c using wf_fragment[OF id that] .
  have l17: "length (?f ! 17) = 512"
    using wf[of "?f ! 17"] len by (simp add: wf_cell_def fragment_values)
  have "\<forall>c \<in> set ?cells. wf_cell c"
    using wf l17 by (auto simp: wf_cell_def fragment_values dest: in_set_takeD)
  moreover have "length ?cells = 18" using len by simp
  moreover have "wf_packet ?p" by (simp add: wf_packet_def layout_values)
  moreover have "\<forall>i < 17. ?cells ! i = ?f ! i" using len by (simp add: nth_append)
  moreover have "take 24 (?cells ! 17) = take 24 (?f ! 17)" using len l17 by (simp add: nth_append)
  ultimately show ?thesis using reassemble_accepts_exactly[of ?cells ?p] id by blast
qed

end
