(* ===== verification/Kem.thy ===== *)
theory Kem
  imports Packet
begin

text \<open>
  The hybrid onion KEM of \<^verbatim>\<open>crates/aegis-crypto/src/kem.rs\<close>. X25519, ML-KEM-768, SHA3-256 and
  the random generator are third-party crates: they are the fields of a \<open>crypto_lib\<close>, an
  argument of every definition that calls them. The type variables are the opaque types of
  those crates: X25519 secrets, ML-KEM decapsulation and encapsulation keys, the generator state.
\<close>

record ('xs, 'ms, 'mp, 'r) crypto_lib =
  lib_sha3_256 :: "bytes \<Rightarrow> bytes"
  lib_fill_bytes :: "'r \<Rightarrow> nat \<Rightarrow> bytes \<times> 'r"
  lib_x25519_random :: "'r \<Rightarrow> 'xs \<times> 'r"
  lib_x25519_public :: "'xs \<Rightarrow> bytes"
  lib_x25519_dh :: "'xs \<Rightarrow> bytes \<Rightarrow> bytes"
  lib_mlkem_generate :: "'r \<Rightarrow> ('ms \<times> 'mp) \<times> 'r"
  lib_mlkem_ek_bytes :: "'mp \<Rightarrow> bytes"
  lib_mlkem_ciphertext :: "bytes \<Rightarrow> bytes option"
  lib_mlkem_encapsulate :: "'mp \<Rightarrow> 'r \<Rightarrow> (bytes \<times> bytes) option \<times> 'r"
  lib_mlkem_decapsulate :: "'ms \<Rightarrow> bytes \<Rightarrow> bytes option"

text \<open>
  Documented behaviour of the crates: SHA3-256 digests and X25519 public keys have 32 bytes,
  \<open>fill_bytes\<close> fills the buffer, Diffie-Hellman commutes, ML-KEM-768 ciphertexts have 1088 bytes
  and decapsulate to the encapsulated secret under the matching key.
\<close>

definition lib_lengths :: "('xs, 'ms, 'mp, 'r) crypto_lib \<Rightarrow> bool" where
  "lib_lengths L \<longleftrightarrow>
     (\<forall>m. length (lib_sha3_256 L m) = 32)
     \<and> (\<forall>r n. length (fst (lib_fill_bytes L r n)) = n)
     \<and> (\<forall>s. length (lib_x25519_public L s) = 32)
     \<and> (\<forall>pk r ct ss r'. lib_mlkem_encapsulate L pk r = (Some (ct, ss), r')
          \<longrightarrow> length ct = MLKEM768_CT_LEN)"

definition lib_dh_commutes :: "('xs, 'ms, 'mp, 'r) crypto_lib \<Rightarrow> bool" where
  "lib_dh_commutes L \<longleftrightarrow>
     (\<forall>a b. lib_x25519_dh L a (lib_x25519_public L b) = lib_x25519_dh L b (lib_x25519_public L a))"

definition lib_mlkem_correct :: "('xs, 'ms, 'mp, 'r) crypto_lib \<Rightarrow> bool" where
  "lib_mlkem_correct L \<longleftrightarrow>
     (\<forall>r sk pk r1 r2 ct ss r3. lib_mlkem_generate L r = ((sk, pk), r1)
        \<longrightarrow> lib_mlkem_encapsulate L pk r2 = (Some (ct, ss), r3)
        \<longrightarrow> lib_mlkem_ciphertext L ct = Some ct \<and> lib_mlkem_decapsulate L sk ct = Some ss)"

lemma lib_lengthsD:
  assumes "lib_lengths L"
  shows "length (lib_sha3_256 L m) = 32" "length (fst (lib_fill_bytes L r n)) = n"
    "length (lib_x25519_public L s) = 32"
    "lib_mlkem_encapsulate L pk r = (Some (ct, ss), r') \<Longrightarrow> length ct = 1088"
  using assms unfolding lib_lengths_def layout_values(1) by blast+

section \<open>Errors, headers and keys\<close>

datatype CryptoError = IntegrityFailure | ReplayError | CryptoMalformed string | KemError

type_synonym SharedSecret = bytes

record KemHeader =
  x25519_point :: bytes
  mlkem_ct :: bytes

definition wf_header :: "KemHeader \<Rightarrow> bool" where
  "wf_header h \<longleftrightarrow> length (x25519_point h) = 32 \<and> length (mlkem_ct h) = MLKEM768_CT_LEN"

text \<open>\<open>write_to\<close> fills the slice \<open>out\<close> it is given.\<close>

definition header_write_to :: "KemHeader \<Rightarrow> bytes \<Rightarrow> bytes" where
  "header_write_to h out = put 32 (mlkem_ct h) (put 0 (x25519_point h) out)"

definition header_read_from :: "bytes \<Rightarrow> (CryptoError, KemHeader) result" where
  "header_read_from bs =
     (if length bs < KEM_HEADER_LEN then Inl (CryptoMalformed ''kem header too short'')
      else Inr \<lparr>x25519_point = take 32 bs, mlkem_ct = slice 32 (KEM_HEADER_LEN - 32) bs\<rparr>)"

record ('xs, 'ms) RelayKemSecret =
  secret_x25519 :: 'xs
  secret_mlkem :: 'ms

record 'mp RelayKemPublic =
  public_x25519 :: bytes
  public_mlkem :: 'mp

text \<open>Byte-string literals \<open>b"..."\<close>.\<close>

definition ascii :: "string \<Rightarrow> bytes" where
  "ascii s = map of_char s"

definition RELAY_KEM_CANONICAL_PREFIX :: bytes where
  "RELAY_KEM_CANONICAL_PREFIX = ascii ''aegis-relay-kem-v1''"

definition canonical_bytes :: "('xs, 'ms, 'mp, 'r) crypto_lib \<Rightarrow> 'mp RelayKemPublic \<Rightarrow> bytes" where
  "canonical_bytes L pk =
     RELAY_KEM_CANONICAL_PREFIX @ public_x25519 pk @ lib_mlkem_ek_bytes L (public_mlkem pk)"

definition kem_public_commitment ::
    "('xs, 'ms, 'mp, 'r) crypto_lib \<Rightarrow> 'mp RelayKemPublic \<Rightarrow> bytes" where
  "kem_public_commitment L pk = lib_sha3_256 L (canonical_bytes L pk)"

definition relay_generate ::
    "('xs, 'ms, 'mp, 'r) crypto_lib \<Rightarrow> 'r
      \<Rightarrow> (('xs, 'ms) RelayKemSecret \<times> 'mp RelayKemPublic) \<times> 'r" where
  "relay_generate L rng =
     (let (x25519, rng) = lib_x25519_random L rng;
          ((mlkem, mlkem_pub), rng) = lib_mlkem_generate L rng;
          public = \<lparr>public_x25519 = lib_x25519_public L x25519, public_mlkem = mlkem_pub\<rparr>
      in ((\<lparr>secret_x25519 = x25519, secret_mlkem = mlkem\<rparr>, public), rng))"

definition hybrid_kdf :: "('xs, 'ms, 'mp, 'r) crypto_lib \<Rightarrow> bytes \<Rightarrow> bytes \<Rightarrow> SharedSecret" where
  "hybrid_kdf L ss_x ss_pq = lib_sha3_256 L (ss_x @ ss_pq)"

definition decapsulate ::
    "('xs, 'ms, 'mp, 'r) crypto_lib \<Rightarrow> ('xs, 'ms) RelayKemSecret \<Rightarrow> KemHeader
      \<Rightarrow> (CryptoError, SharedSecret) result" where
  "decapsulate L sk header =
     (let ss_x = lib_x25519_dh L (secret_x25519 sk) (x25519_point header) in
      bind_result (ok_or (lib_mlkem_ciphertext L (mlkem_ct header)) (CryptoMalformed ''ml-kem ct''))
        (\<lambda>ct. bind_result (ok_or (lib_mlkem_decapsulate L (secret_mlkem sk) ct) KemError)
        (\<lambda>ss_pq. Inr (hybrid_kdf L ss_x ss_pq))))"

definition encapsulate ::
    "('xs, 'ms, 'mp, 'r) crypto_lib \<Rightarrow> 'mp RelayKemPublic \<Rightarrow> 'r
      \<Rightarrow> (CryptoError, KemHeader \<times> SharedSecret) result \<times> 'r" where
  "encapsulate L pk rng =
     (let (ephemeral, rng) = lib_x25519_random L rng;
          eph_pub = lib_x25519_public L ephemeral;
          ss_x = lib_x25519_dh L ephemeral (public_x25519 pk)
      in case lib_mlkem_encapsulate L (public_mlkem pk) rng of
           (None, rng) \<Rightarrow> (Inl KemError, rng)
         | (Some (ct, ss_pq), rng) \<Rightarrow>
             (Inr (\<lparr>x25519_point = eph_pub, mlkem_ct = ct\<rparr>, hybrid_kdf L ss_x ss_pq), rng))"

section \<open>Correctness\<close>

text \<open>The pair a relay generated: secret and advertised public key belong together.\<close>

definition key_pair ::
    "('xs, 'ms, 'mp, 'r) crypto_lib \<Rightarrow> ('xs, 'ms) RelayKemSecret \<Rightarrow> 'mp RelayKemPublic \<Rightarrow> bool" where
  "key_pair L sk pk \<longleftrightarrow> (\<exists>r. fst (relay_generate L r) = (sk, pk))"

lemma header_write_to_eq:
  "wf_header h \<Longrightarrow> length out = KEM_HEADER_LEN \<Longrightarrow> header_write_to h out = x25519_point h @ mlkem_ct h"
  by (simp add: header_write_to_def wf_header_def put_def layout_values)

lemma header_read_write:
  assumes "wf_header h"
  shows "header_read_from (x25519_point h @ mlkem_ct h) = Inr h"
  using assms by (simp add: header_read_from_def wf_header_def slice_def layout_values)

lemma header_read_Inr:
  "length bs = KEM_HEADER_LEN \<Longrightarrow> \<exists>h. header_read_from bs = Inr h \<and> wf_header h \<and> x25519_point h @ mlkem_ct h = bs"
proof -
  assume l: "length bs = KEM_HEADER_LEN"
  let ?h = "\<lparr>x25519_point = take 32 bs, mlkem_ct = slice 32 1088 bs\<rparr>"
  have "header_read_from bs = Inr ?h" "wf_header ?h" "x25519_point ?h @ mlkem_ct ?h = bs"
    using l by (simp_all add: header_read_from_def wf_header_def layout_values slice_def)
  then show ?thesis by blast
qed

lemma encapsulate_decapsulate:
  assumes "lib_lengths L" "lib_dh_commutes L" "lib_mlkem_correct L" "key_pair L sk pk"
    and "encapsulate L pk rng = (Inr (h, ss), rng')"
  shows "decapsulate L sk h = Inr ss" "wf_header h" "length ss = 32"
proof -
  obtain r x r1 m mp r2 where gen: "lib_x25519_random L r = (x, r1)"
      "lib_mlkem_generate L r1 = ((m, mp), r2)"
      "sk = \<lparr>secret_x25519 = x, secret_mlkem = m\<rparr>"
      "pk = \<lparr>public_x25519 = lib_x25519_public L x, public_mlkem = mp\<rparr>"
  proof -
    from assms(4) obtain r where r: "fst (relay_generate L r) = (sk, pk)"
      by (auto simp: key_pair_def)
    obtain x r1 where x: "lib_x25519_random L r = (x, r1)" by (cases "lib_x25519_random L r")
    obtain m mp r2 where m: "lib_mlkem_generate L r1 = ((m, mp), r2)"
      by (metis surj_pair)
    show thesis using that[OF x m] r by (simp add: relay_generate_def Let_def x m)
  qed
  obtain e r3 ct ss_pq where enc: "lib_x25519_random L rng = (e, r3)"
      "lib_mlkem_encapsulate L mp r3 = (Some (ct, ss_pq), rng')"
      "h = \<lparr>x25519_point = lib_x25519_public L e, mlkem_ct = ct\<rparr>"
      "ss = hybrid_kdf L (lib_x25519_dh L e (lib_x25519_public L x)) ss_pq"
    using assms(5) gen(4) by (auto simp: encapsulate_def Let_def split: prod.splits option.splits)
  have dh: "lib_x25519_dh L e (lib_x25519_public L x) = lib_x25519_dh L x (lib_x25519_public L e)"
    using assms(2) by (simp add: lib_dh_commutes_def)
  have ml: "lib_mlkem_ciphertext L ct = Some ct" "lib_mlkem_decapsulate L m ct = Some ss_pq"
    using assms(3) gen(2) enc(2) unfolding lib_mlkem_correct_def by blast+
  show "decapsulate L sk h = Inr ss"
    by (simp add: decapsulate_def gen(3) enc(3,4) ml dh Let_def)
  show "wf_header h" "length ss = 32"
    using lib_lengthsD[OF assms(1)] enc by (auto simp: wf_header_def layout_values hybrid_kdf_def)
qed

end
