(* ===== verification/Filter_Interfaces.thy ===== *)
theory Filter_Interfaces
  imports Aegis_Prelude
begin

text \<open>
  The contract of the once-only registers of the system: the replay cache of a mix
  (\<^verbatim>\<open>aegis-crypto/src/replay.rs\<close>) and the nullifier registry of a verifier
  (\<^verbatim>\<open>aegis-trust/src/nullifier.rs\<close>). A client offers a key and learns whether it was fresh.
  \<open>dup_filter\<close> is what one offer promises; \<open>windowed_filter\<close> adds how many further offers are
  guaranteed to forget nothing; \<open>persistent_filter\<close> never forgets, and so is a windowed filter
  with an unlimited window.
\<close>

fun offer_all :: "('s \<Rightarrow> 'k \<Rightarrow> bool \<times> 's) \<Rightarrow> 's \<Rightarrow> 'k list \<Rightarrow> bool list \<times> 's" where
  "offer_all offer s [] = ([], s)"
| "offer_all offer s (k # ks) =
     (let (b, s') = offer s k; (bs, s'') = offer_all offer s' ks in (b # bs, s''))"

text \<open>The ideal answers: a key is fresh at its first use, if it was not known before.\<close>

fun first_uses :: "('k \<Rightarrow> bool) \<Rightarrow> 'k list \<Rightarrow> bool list" where
  "first_uses known [] = []"
| "first_uses known (k # ks) = (\<not> known k) # first_uses (\<lambda>j. known j \<or> j = k) ks"

lemma length_first_uses [simp, len_simps]: "length (first_uses known ks) = length ks"
  by (induction ks arbitrary: known) auto

lemma first_uses_nth:
  "i < length ks \<Longrightarrow> first_uses known ks ! i \<longleftrightarrow> \<not> known (ks ! i) \<and> ks ! i \<notin> set (take i ks)"
proof (induction ks arbitrary: known i)
  case Nil
  then show ?case by simp
next
  case (Cons k ks)
  then show ?case by (cases i) auto
qed

locale dup_filter =
  fixes holds :: "'s \<Rightarrow> 'k \<Rightarrow> bool"
    and offer :: "'s \<Rightarrow> 'k \<Rightarrow> bool \<times> 's"
    and inv :: "'s \<Rightarrow> bool"
  assumes offer_inv: "inv s \<Longrightarrow> inv (snd (offer s k))"
    and offer_fresh: "inv s \<Longrightarrow> fst (offer s k) \<longleftrightarrow> \<not> holds s k"
    and offer_holds: "inv s \<Longrightarrow> holds (snd (offer s k)) k"
    and offer_reject: "inv s \<Longrightarrow> holds s k \<Longrightarrow> snd (offer s k) = s"
begin

lemma offer_again: "inv s \<Longrightarrow> offer (snd (offer s k)) k = (False, snd (offer s k))"
  using offer_inv[of s k] offer_holds[of s k] offer_fresh[of "snd (offer s k)" k]
    offer_reject[of "snd (offer s k)" k]
  by (simp add: prod_eq_iff)

lemma offer_known: "inv s \<Longrightarrow> holds s k \<Longrightarrow> offer s k = (False, s)"
  using offer_fresh offer_reject by (simp add: prod_eq_iff)

lemma offer_all_inv: "inv s \<Longrightarrow> inv (snd (offer_all offer s ks))"
proof (induction ks arbitrary: s)
  case Nil
  then show ?case by simp
next
  case (Cons k ks)
  from Cons.IH[OF offer_inv[OF Cons.prems, of k]] show ?case
    by (simp add: case_prod_beta Let_def)
qed

end

locale windowed_filter = dup_filter +
  fixes keeps :: "'a \<Rightarrow> nat \<Rightarrow> bool"
  assumes keeps_holds:
      "inv s \<Longrightarrow> keeps s (Suc n) \<Longrightarrow> holds (snd (offer s k)) j \<longleftrightarrow> holds s j \<or> j = k"
    and keeps_step: "inv s \<Longrightarrow> keeps s (Suc n) \<Longrightarrow> keeps (snd (offer s k)) n"
begin

lemma offer_all_first_uses:
  assumes "inv s" "keeps s (length ks)"
  shows "fst (offer_all offer s ks) = first_uses (holds s) ks"
  using assms
proof (induction ks arbitrary: s)
  case Nil
  then show ?case by simp
next
  case (Cons k ks)
  let ?s = "snd (offer s k)"
  have keeps: "keeps s (Suc (length ks))" using Cons.prems(2) by simp
  have "holds ?s = (\<lambda>j. holds s j \<or> j = k)"
    using keeps_holds[OF Cons.prems(1) keeps] by blast
  then have "fst (offer_all offer ?s ks) = first_uses (\<lambda>j. holds s j \<or> j = k) ks"
    using Cons.IH[OF offer_inv[OF Cons.prems(1)] keeps_step[OF Cons.prems(1) keeps]] by simp
  then show ?case
    using offer_fresh[OF Cons.prems(1), of k] by (simp add: case_prod_beta Let_def)
qed

lemma offer_all_holds:
  assumes "inv s" "keeps s (length ks)"
  shows "holds (snd (offer_all offer s ks)) j \<longleftrightarrow> holds s j \<or> j \<in> set ks"
  using assms
proof (induction ks arbitrary: s)
  case Nil
  then show ?case by simp
next
  case (Cons k ks)
  have keeps: "keeps s (Suc (length ks))" using Cons.prems(2) by simp
  show ?case
    using Cons.IH[OF offer_inv[OF Cons.prems(1), of k] keeps_step[OF Cons.prems(1) keeps]]
      keeps_holds[OF Cons.prems(1) keeps]
    by (auto simp: case_prod_beta Let_def)
qed

end

locale persistent_filter = dup_filter +
  assumes never_forgets: "inv s \<Longrightarrow> holds (snd (offer s k)) j \<longleftrightarrow> holds s j \<or> j = k"

sublocale persistent_filter \<subseteq> windowed_filter holds offer inv "\<lambda>_ _. True"
  by unfold_locales (simp_all add: never_forgets)

end
