(* ===== verification/Float64.thy ===== *)
theory Float64
  imports Complex_Main Aegis_Prelude
begin

text \<open>
  Rust's \<open>f64\<close>: IEEE 754 binary64 with round to nearest, ties to even. A finite value is
  its rational value; the sign of zero is not kept, since no code modelled here
  distinguishes \<open>-0.0\<close> from \<open>0.0\<close>. Every arithmetic operation is the exact rational
  operation followed by one rounding, so rounding errors are in the model. The two facts that
  carry the component proofs are that rounding is monotone and that it fixes every
  representable number.
\<close>

section \<open>Powers of two and the binary exponent\<close>

definition pow2 :: "int \<Rightarrow> rat" where
  "pow2 e = (if 0 \<le> e then 2 ^ nat e else 1 / 2 ^ nat (- e))"

lemma pow2_pos [simp]: "0 < pow2 e"
  by (simp add: pow2_def)

lemma pow2_nonneg [simp]: "0 \<le> pow2 e"
  using pow2_pos[of e] by linarith

lemma pow2_neq0 [simp]: "pow2 e \<noteq> 0"
  using pow2_pos[of e] by linarith

lemma pow2_eq_powi: "pow2 e = 2 powi e"
  by (simp add: pow2_def power_int_def field_simps)

lemma pow2_add: "pow2 (a + b) = pow2 a * pow2 b"
  by (simp add: pow2_eq_powi power_int_add)

lemma pow2_0 [simp]: "pow2 0 = 1"
  by (simp add: pow2_def)

lemma pow2_Suc: "pow2 (e + 1) = 2 * pow2 e"
  by (simp add: pow2_eq_powi power_int_add)

lemma pow2_of_nat: "pow2 (int n) = of_nat (2 ^ n)"
  by (simp add: pow2_def)

lemma pow2_53: "pow2 (e + 53) = 2 ^ 53 * pow2 e"
proof -
  have "pow2 53 = 2 ^ 53" by (simp add: pow2_def)
  then show ?thesis unfolding pow2_add by simp
qed

lemma pow2_mono: "a \<le> b \<Longrightarrow> pow2 a \<le> pow2 b"
  by (simp add: pow2_eq_powi power_int_increasing)

lemma pow2_strict_mono: "a < b \<Longrightarrow> pow2 a < pow2 b"
  by (simp add: pow2_eq_powi power_int_strict_increasing)

text \<open>The number of binary digits of a positive integer.\<close>

function bit_len :: "int \<Rightarrow> int" where
  "bit_len n = (if n \<le> 0 then 0 else 1 + bit_len (n div 2))"
  by pat_completeness auto
termination
  by (relation "measure nat") auto

declare bit_len.simps [simp del]

lemma bit_len_bounds:
  "0 < n \<Longrightarrow> 0 < bit_len n \<and> pow2 (bit_len n - 1) \<le> of_int n \<and> of_int n < pow2 (bit_len n)"
proof (induction n rule: bit_len.induct)
  case (1 n)
  have e: "bit_len n = 1 + bit_len (n div 2)" using "1.prems" by (simp add: bit_len.simps[of n])
  have n: "of_int n = 2 * of_int (n div 2) + (of_int (n mod 2) :: rat)"
    by (metis mult_div_mod_eq of_int_add of_int_mult of_int_numeral)
  show ?case
  proof (cases "n = 1")
    case True
    then have "bit_len n = 1" by (simp add: bit_len.simps[of 1] bit_len.simps[of 0])
    then show ?thesis using True by (simp add: pow2_def)
  next
    case False
    then have pos: "0 < n div 2" using "1.prems" by auto
    then have IH: "0 < bit_len (n div 2)" "pow2 (bit_len (n div 2) - 1) \<le> of_int (n div 2)"
        "of_int (n div 2) < pow2 (bit_len (n div 2))"
      using "1.IH" "1.prems" by auto
    have "pow2 (bit_len (n div 2) - 1 + 1) \<le> of_int n"
      unfolding pow2_Suc n using IH(2) by (simp add: add_increasing2)
    moreover have "of_int n < pow2 (bit_len (n div 2) + 1)"
    proof -
      let ?b = "bit_len (n div 2)"
      have p: "pow2 ?b = of_int (2 ^ nat ?b)" using IH(1) by (simp add: pow2_def)
      have "n div 2 < 2 ^ nat ?b" using IH(3) unfolding p by (simp only: of_int_less_iff)
      then have "n < 2 * 2 ^ nat ?b" by linarith
      then have "(of_int n :: rat) < of_int (2 * 2 ^ nat ?b)" by (simp only: of_int_less_iff)
      then show ?thesis unfolding pow2_Suc p by simp
    qed
    ultimately show ?thesis using IH(1) by (simp add: e add.commute)
  qed
qed

text \<open>The exponent \<open>e\<close> with \<open>2^e \<le> q < 2^(e+1)\<close>, for \<open>q > 0\<close>.\<close>

definition ilog2 :: "rat \<Rightarrow> int" where
  "ilog2 q =
     (let (n, d) = quotient_of q; k = bit_len n - bit_len d
      in if pow2 k \<le> q then k else k - 1)"

lemma ilog2_bounds:
  assumes "0 < q"
  shows "pow2 (ilog2 q) \<le> q" "q < pow2 (ilog2 q + 1)"
proof -
  obtain n d where nd: "quotient_of q = (n, d)" by (cases "quotient_of q")
  have d: "0 < d" using nd by (rule quotient_of_denom_pos)
  have q: "q = of_int n / of_int d" using nd by (rule quotient_of_div)
  have n: "0 < n" using assms d q by (simp add: zero_less_divide_iff)
  let ?a = "bit_len n" and ?b = "bit_len d"
  let ?k = "?a - ?b"
  have A: "pow2 (?a - 1) \<le> of_int n" "of_int n < pow2 ?a" using bit_len_bounds[OF n] by auto
  have B: "pow2 (?b - 1) \<le> of_int d" "of_int d < pow2 ?b" using bit_len_bounds[OF d] by auto
  have dp: "0 < (of_int d :: rat)" using d by simp
  have lo: "pow2 (?k - 1) \<le> q"
  proof -
    have "pow2 (?k - 1) * of_int d \<le> pow2 (?k - 1) * pow2 ?b"
      using B(2) by (intro mult_left_mono) auto
    also have "\<dots> = pow2 (?a - 1)" by (simp flip: pow2_add)
    also have "\<dots> \<le> of_int n" by (rule A(1))
    finally show ?thesis using dp by (simp add: q le_divide_eq)
  qed
  have hi: "q < pow2 (?k + 1)"
  proof -
    have "of_int n < pow2 (?k + 1) * pow2 (?b - 1)"
      using A(2) by (simp flip: pow2_add)
    also have "\<dots> \<le> pow2 (?k + 1) * of_int d"
      using B(1) by (intro mult_left_mono) auto
    finally show ?thesis using dp by (simp add: q divide_less_eq)
  qed
  show "pow2 (ilog2 q) \<le> q" "q < pow2 (ilog2 q + 1)"
    using lo hi by (auto simp: ilog2_def nd Let_def)
qed

lemma ilog2_unique:
  assumes "pow2 e \<le> q" "q < pow2 (e + 1)"
  shows "ilog2 q = e"
proof -
  have q: "0 < q" using assms(1) pow2_pos[of e] by linarith
  note b = ilog2_bounds[OF q]
  have "\<not> e + 1 \<le> ilog2 q" using assms b pow2_mono[of "e + 1" "ilog2 q"] by linarith
  moreover have "\<not> ilog2 q + 1 \<le> e" using assms b pow2_mono[of "ilog2 q + 1" e] by linarith
  ultimately show ?thesis by linarith
qed

lemma ilog2_mono: "0 < p \<Longrightarrow> p \<le> q \<Longrightarrow> ilog2 p \<le> ilog2 q"
proof -
  assume a: "0 < p" "p \<le> q"
  have "\<not> ilog2 q + 1 \<le> ilog2 p"
    using pow2_mono[of "ilog2 q + 1" "ilog2 p"] ilog2_bounds[of p] ilog2_bounds[of q] a by linarith
  then show ?thesis by linarith
qed

section \<open>Rounding\<close>

text \<open>Round to the nearest integer, ties to even.\<close>

definition round_even :: "rat \<Rightarrow> int" where
  "round_even q =
     (let f = floor q; r = q - of_int f
      in if r < 1 / 2 then f else if 1 / 2 < r then f + 1 else if even f then f else f + 1)"

lemma round_even_int [simp]: "round_even (of_int k) = k"
  by (simp add: round_even_def)

lemma round_even_floor: "round_even q = floor q \<or> round_even q = floor q + 1"
  by (auto simp: round_even_def Let_def)

lemma round_even_mono:
  assumes "p \<le> q"
  shows "round_even p \<le> round_even q"
proof (cases "floor p = floor q")
  case True
  then show ?thesis using assms by (auto simp: round_even_def Let_def)
next
  case False
  then have "floor p + 1 \<le> floor q" using floor_mono[OF assms] by linarith
  then show ?thesis using round_even_floor[of p] round_even_floor[of q] by linarith
qed

text \<open>The unit in the last place of \<open>q\<close>: 53 significant bits, at least \<open>2^-1074\<close>.\<close>

definition ulp_exp :: "rat \<Rightarrow> int" where
  "ulp_exp q = (if q = 0 then - 1074 else max (ilog2 \<bar>q\<bar> - 52) (- 1074))"

definition fl :: "rat \<Rightarrow> rat" where
  "fl q = of_int (round_even (q / pow2 (ulp_exp q))) * pow2 (ulp_exp q)"

definition representable :: "rat \<Rightarrow> bool" where
  "representable q \<longleftrightarrow> (\<exists>m e. q = of_int m * pow2 e \<and> \<bar>m\<bar> \<le> 2 ^ 53 \<and> - 1074 \<le> e)"

lemma fl_on_grid:
  assumes "q = of_int k * pow2 e" "ulp_exp q \<le> e"
  shows "fl q = q"
proof -
  have "q / pow2 (ulp_exp q) = of_int k * pow2 (e - ulp_exp q)"
    using pow2_add[of "ulp_exp q" "e - ulp_exp q"] assms(1) by (simp add: field_simps)
  also have "\<dots> = of_int (k * 2 ^ nat (e - ulp_exp q))"
    using assms(2) by (simp add: pow2_def)
  finally have q: "q / pow2 (ulp_exp q) = of_int (k * 2 ^ nat (e - ulp_exp q))" .
  then have "fl q = of_int (k * 2 ^ nat (e - ulp_exp q)) * pow2 (ulp_exp q)"
    by (simp only: fl_def round_even_int)
  also have "\<dots> = q" unfolding q[symmetric] by simp
  finally show ?thesis .
qed

text \<open>A certificate for the rounding of a concrete positive number.\<close>

lemma round_even_near:
  assumes "\<bar>q - of_int k\<bar> < 1 / 2"
  shows "round_even q = k"
proof (cases "of_int k \<le> q")
  case True
  then have "floor q = k" using assms by (intro floor_unique) auto
  then show ?thesis using assms True by (simp add: round_even_def Let_def)
next
  case False
  then have "floor q = k - 1" using assms by (intro floor_unique) auto
  then show ?thesis using assms False by (simp add: round_even_def Let_def)
qed

lemma fl_cert:
  assumes "pow2 (e + 52) \<le> q" "q < pow2 (e + 53)" "- 1074 \<le> e"
    and "\<bar>q - of_int k * pow2 e\<bar> < pow2 e / 2"
  shows "fl q = of_int k * pow2 e"
proof -
  have q: "0 < q" using assms(1) pow2_pos[of "e + 52"] by linarith
  have "ilog2 q = e + 52" using assms(1,2) by (intro ilog2_unique) (auto simp: add.assoc)
  then have u: "ulp_exp q = e" using assms(3) q by (simp add: ulp_exp_def)
  have "q / pow2 e - of_int k = (q - of_int k * pow2 e) / pow2 e" by (simp add: field_simps)
  then have "\<bar>q / pow2 e - of_int k\<bar> = \<bar>q - of_int k * pow2 e\<bar> / pow2 e" by simp
  also have "\<dots> < 1 / 2" using assms(4) by (simp add: divide_less_eq)
  finally show ?thesis by (simp add: fl_def u round_even_near)
qed

lemma fl_0 [simp]: "fl 0 = 0"
  by (simp add: fl_def round_even_def)


text \<open>Rounding to the grid of a fixed exponent.\<close>

definition fl_at :: "int \<Rightarrow> rat \<Rightarrow> rat" where
  "fl_at e q = of_int (round_even (q / pow2 e)) * pow2 e"

lemma fl_eq_fl_at: "fl q = fl_at (ulp_exp q) q"
  by (simp add: fl_def fl_at_def)

lemma fl_at_mono: "p \<le> q \<Longrightarrow> fl_at e p \<le> fl_at e q"
  unfolding fl_at_def
  by (intro mult_right_mono) (auto intro!: round_even_mono divide_right_mono)

lemma fl_at_pow2: "e \<le> t \<Longrightarrow> fl_at e (pow2 t) = pow2 t"
proof -
  assume "e \<le> t"
  have "pow2 t / pow2 e = pow2 (t - e)"
    using pow2_add[of e "t - e"] by (simp add: field_simps)
  also have "\<dots> = of_int (2 ^ nat (t - e))" using \<open>e \<le> t\<close> by (simp add: pow2_def)
  finally have q: "pow2 t / pow2 e = of_int (2 ^ nat (t - e))" .
  have "fl_at e (pow2 t) = of_int (2 ^ nat (t - e)) * pow2 e"
    unfolding fl_at_def q by (simp only: round_even_int)
  also have "\<dots> = pow2 t" unfolding q[symmetric] by simp
  finally show ?thesis .
qed

lemma round_even_minus: "round_even (- q) = - round_even q"
proof (cases "q = of_int (floor q)")
  case True
  then obtain k where q: "q = of_int k" by blast
  have "- q = of_int (- k)" using q by simp
  then show ?thesis unfolding q by (simp only: round_even_int)
next
  case False
  have f: "floor (- q) = - floor q - 1"
    using False by (auto simp: floor_minus ceiling_altdef)
  show ?thesis by (auto simp: round_even_def Let_def f)
qed

lemma fl_minus: "fl (- q) = - fl q"
  by (simp add: fl_def ulp_exp_def round_even_minus)

lemma fl_nonneg: "0 \<le> q \<Longrightarrow> 0 \<le> fl q"
proof -
  assume "0 \<le> q"
  then have "round_even 0 \<le> round_even (q / pow2 (ulp_exp q))"
    by (intro round_even_mono) simp
  then show ?thesis by (simp add: fl_def round_even_def[of 0])
qed

lemma ulp_exp_mono: "0 < p \<Longrightarrow> p \<le> q \<Longrightarrow> ulp_exp p \<le> ulp_exp q"
  using ilog2_mono[of p q] by (auto simp: ulp_exp_def)

lemma fl_mono_pos:
  assumes "0 < p" "p \<le> q"
  shows "fl p \<le> fl q"
proof (cases "ulp_exp p = ulp_exp q")
  case True
  then show ?thesis using assms by (simp add: fl_eq_fl_at fl_at_mono)
next
  case False
  then have lt: "ulp_exp p < ulp_exp q" using ulp_exp_mono[OF assms] by simp
  let ?t = "ilog2 q"
  have uq: "ulp_exp q = ?t - 52" and ip: "ilog2 p < ?t"
    using lt assms by (auto simp: ulp_exp_def)
  have "p < pow2 (ilog2 p + 1)" using ilog2_bounds assms by simp
  also have "\<dots> \<le> pow2 ?t" using ip by (intro pow2_mono) simp
  finally have "fl_at (ulp_exp p) p \<le> fl_at (ulp_exp p) (pow2 ?t)" by (intro fl_at_mono) simp
  also have "\<dots> = pow2 ?t" using lt uq by (intro fl_at_pow2) simp
  also have "\<dots> = fl_at (ulp_exp q) (pow2 ?t)" using uq by (intro fl_at_pow2[symmetric]) simp
  also have "\<dots> \<le> fl_at (ulp_exp q) q" using ilog2_bounds[of q] assms by (intro fl_at_mono) simp
  finally show ?thesis by (simp add: fl_eq_fl_at)
qed

lemma fl_mono: "p \<le> q \<Longrightarrow> fl p \<le> fl q"
proof -
  assume pq: "p \<le> q"
  consider "0 < p" | "q < 0" | "p \<le> 0" "0 \<le> q" by linarith
  then show ?thesis
  proof cases
    case 1
    then show ?thesis using fl_mono_pos pq by simp
  next
    case 2
    then show ?thesis using fl_mono_pos[of "- q" "- p"] pq by (simp add: fl_minus)
  next
    case 3
    have "fl p \<le> 0" using fl_nonneg[of "- p"] 3 by (simp add: fl_minus)
    then show ?thesis using fl_nonneg[of q] 3 by linarith
  qed
qed

section \<open>Representable numbers\<close>

lemma representable_pos_ulp:
  assumes "q = of_int m * pow2 e" "0 < m" "m < 2 ^ 53" "- 1074 \<le> e"
  shows "ulp_exp q \<le> e"
proof -
  have q: "0 < q" using assms by simp
  have "q < of_int (2 ^ 53) * pow2 e"
    unfolding assms(1) using assms(3) by (intro mult_strict_right_mono) (simp_all only: of_int_less_iff pow2_pos)
  also have "\<dots> = pow2 (e + 53)" by (simp add: pow2_53)
  finally have "\<not> e + 53 \<le> ilog2 q"
    using ilog2_bounds(1)[OF q] pow2_mono[of "e + 53" "ilog2 q"] by linarith
  then show ?thesis using assms(4) q by (simp add: ulp_exp_def)
qed

lemma fl_representable:
  assumes "representable q"
  shows "fl q = q"
proof -
  have pos: "fl q = q" if q: "q = of_int m * pow2 e" and m: "0 < m" "m \<le> 2 ^ 53" and e: "- 1074 \<le> e" for q m e
  proof (cases "m = 2 ^ 53")
    case True
    have "q = of_int 1 * pow2 (e + 53)" using q True by (simp add: pow2_53)
    then show ?thesis using representable_pos_ulp[of q 1 "e + 53"] e by (intro fl_on_grid[of q 1 "e + 53"]) auto
  next
    case False
    then show ?thesis using representable_pos_ulp[OF q m(1) _ e] m by (intro fl_on_grid[OF q]) auto
  qed
  obtain m e where me: "q = of_int m * pow2 e" "\<bar>m\<bar> \<le> 2 ^ 53" "- 1074 \<le> e"
    using assms by (auto simp: representable_def)
  consider "m = 0" | "0 < m" | "m < 0" by linarith
  then show ?thesis
  proof cases
    case 1
    then show ?thesis using me by simp
  next
    case 2
    then show ?thesis using pos me by auto
  next
    case 3
    have "fl (- q) = - q" using pos[of "- q" "- m" e] me 3 by simp
    then show ?thesis by (simp add: fl_minus)
  qed
qed

lemma representable_int: "\<bar>k\<bar> \<le> 2 ^ 53 \<Longrightarrow> representable (of_int k)"
  unfolding representable_def by (intro exI[of _ k] exI[of _ 0]) simp

lemma representable_nat: "n \<le> 2 ^ 53 \<Longrightarrow> representable (of_nat n)"
  using representable_int[of "int n"] by simp

lemma representable_0_1 [simp]: "representable 0" "representable 1"
  using representable_int[of 0] representable_int[of 1] by auto

text \<open>A rounded result stays inside representable bounds.\<close>

lemma fl_bounds:
  assumes "representable a" "representable b" "a \<le> q" "q \<le> b"
  shows "a \<le> fl q" "fl q \<le> b"
  using fl_mono[OF assms(3)] fl_mono[OF assms(4)] fl_representable assms(1,2) by auto

lemma fl_01: "0 \<le> q \<Longrightarrow> q \<le> 1 \<Longrightarrow> 0 \<le> fl q \<and> fl q \<le> 1"
  using fl_bounds[of 0 1 q] by simp


section \<open>The type and its operations\<close>

datatype f64 = Fin rat | Inf bool | NaN

text \<open>\<open>Inf True\<close> is \<open>-inf\<close>. Rounding overflows to an infinity at \<open>2^1024\<close>.\<close>

definition f64_of_rat :: "rat \<Rightarrow> f64" where
  "f64_of_rat q = (let r = fl q in if r = 0 \<or> ilog2 \<bar>r\<bar> < 1024 then Fin r else Inf (r < 0))"

text \<open>\<open>n as f64\<close> for an unsigned integer.\<close>

definition f64_of_nat :: "nat \<Rightarrow> f64" where
  "f64_of_nat n = f64_of_rat (of_nat n)"

fun f64_neg :: "f64 \<Rightarrow> f64" where
  "f64_neg (Fin a) = Fin (- a)"
| "f64_neg (Inf s) = Inf (\<not> s)"
| "f64_neg NaN = NaN"

fun f64_add :: "f64 \<Rightarrow> f64 \<Rightarrow> f64" where
  "f64_add (Fin a) (Fin b) = f64_of_rat (a + b)"
| "f64_add NaN y = NaN"
| "f64_add x NaN = NaN"
| "f64_add (Inf s) (Inf t) = (if s = t then Inf s else NaN)"
| "f64_add (Inf s) (Fin b) = Inf s"
| "f64_add (Fin a) (Inf t) = Inf t"

definition f64_sub :: "f64 \<Rightarrow> f64 \<Rightarrow> f64" where
  "f64_sub x y = f64_add x (f64_neg y)"

fun f64_mul :: "f64 \<Rightarrow> f64 \<Rightarrow> f64" where
  "f64_mul (Fin a) (Fin b) = f64_of_rat (a * b)"
| "f64_mul NaN y = NaN"
| "f64_mul x NaN = NaN"
| "f64_mul (Inf s) (Inf t) = Inf (s \<noteq> t)"
| "f64_mul (Inf s) (Fin b) = (if b = 0 then NaN else Inf (s \<noteq> (b < 0)))"
| "f64_mul (Fin a) (Inf t) = (if a = 0 then NaN else Inf ((a < 0) \<noteq> t))"

text \<open>A zero divisor counts as \<open>+0.0\<close>.\<close>

fun f64_div :: "f64 \<Rightarrow> f64 \<Rightarrow> f64" where
  "f64_div (Fin a) (Fin b) =
     (if b = 0 then (if a = 0 then NaN else Inf (a < 0)) else f64_of_rat (a / b))"
| "f64_div NaN y = NaN"
| "f64_div x NaN = NaN"
| "f64_div (Inf s) (Inf t) = NaN"
| "f64_div (Inf s) (Fin b) = Inf (s \<noteq> (b < 0))"
| "f64_div (Fin a) (Inf t) = Fin 0"

text \<open>Comparisons: every comparison with a NaN is false.\<close>

fun f64_le :: "f64 \<Rightarrow> f64 \<Rightarrow> bool" where
  "f64_le (Fin a) (Fin b) = (a \<le> b)"
| "f64_le NaN y = False"
| "f64_le x NaN = False"
| "f64_le (Inf s) (Inf t) = (s \<or> \<not> t)"
| "f64_le (Inf s) (Fin b) = s"
| "f64_le (Fin a) (Inf t) = (\<not> t)"

fun f64_lt :: "f64 \<Rightarrow> f64 \<Rightarrow> bool" where
  "f64_lt (Fin a) (Fin b) = (a < b)"
| "f64_lt NaN y = False"
| "f64_lt x NaN = False"
| "f64_lt (Inf s) (Inf t) = (s \<and> \<not> t)"
| "f64_lt (Inf s) (Fin b) = s"
| "f64_lt (Fin a) (Inf t) = (\<not> t)"

fun f64_is_finite :: "f64 \<Rightarrow> bool" where
  "f64_is_finite (Fin a) = True"
| "f64_is_finite x = False"

text \<open>\<open>f64::abs\<close>, \<open>f64::max\<close> (a NaN argument is ignored) and \<open>f64::clamp\<close>.\<close>

fun f64_abs :: "f64 \<Rightarrow> f64" where
  "f64_abs (Fin a) = Fin \<bar>a\<bar>"
| "f64_abs (Inf s) = Inf False"
| "f64_abs NaN = NaN"

definition f64_max :: "f64 \<Rightarrow> f64 \<Rightarrow> f64" where
  "f64_max x y = (if x = NaN then y else if y = NaN then x else if f64_lt x y then y else x)"

definition f64_min :: "f64 \<Rightarrow> f64 \<Rightarrow> f64" where
  "f64_min x y = (if x = NaN then y else if y = NaN then x else if f64_lt y x then y else x)"

definition f64_clamp :: "f64 \<Rightarrow> f64 \<Rightarrow> f64 \<Rightarrow> f64" where
  "f64_clamp lo hi x = (if f64_lt x lo then lo else if f64_lt hi x then hi else x)"

text \<open>\<open>floor\<close> is exact; \<open>round\<close> goes to the nearest integer, halves away from zero.\<close>

fun f64_floor :: "f64 \<Rightarrow> f64" where
  "f64_floor (Fin a) = Fin (of_int (floor a))"
| "f64_floor x = x"

definition round_half_away :: "rat \<Rightarrow> int" where
  "round_half_away q = (if 0 \<le> q then floor (q + 1 / 2) else - floor (- q + 1 / 2))"

fun f64_round :: "f64 \<Rightarrow> f64" where
  "f64_round (Fin a) = Fin (of_int (round_half_away a))"
| "f64_round x = x"

text \<open>\<open>x as u64\<close> (and \<open>as usize\<close>): truncation, saturating at both ends, NaN to 0.\<close>

fun f64_to_u64 :: "f64 \<Rightarrow> nat" where
  "f64_to_u64 (Fin a) = (if a \<le> 0 then 0 else min (nat (floor a)) (2 ^ 64 - 1))"
| "f64_to_u64 (Inf s) = (if s then 0 else 2 ^ 64 - 1)"
| "f64_to_u64 NaN = 0"

text \<open>Small arguments never overflow.\<close>

lemma f64_of_rat_small:
  assumes "representable b" "\<bar>q\<bar> \<le> b" "b < 2 ^ 1024"
  shows "f64_of_rat q = Fin (fl q)"
proof -
  have "fl q \<le> b" using fl_mono[of q b] fl_representable[OF assms(1)] assms(2) by linarith
  moreover have "- b \<le> fl q"
    using fl_mono[of "- b" q] fl_representable[OF assms(1)] assms(2) by (simp add: fl_minus)
  ultimately have "\<bar>fl q\<bar> < pow2 1024" using assms(3) by (simp add: pow2_def)
  then have "fl q = 0 \<or> ilog2 \<bar>fl q\<bar> < 1024"
    using ilog2_bounds(1)[of "\<bar>fl q\<bar>"] pow2_mono[of 1024 "ilog2 \<bar>fl q\<bar>"] by force
  then show ?thesis by (simp add: f64_of_rat_def Let_def)
qed

lemma small_lt_overflow: "(2::rat) ^ 53 < 2 ^ 1024" "(1::rat) < 2 ^ 1024"
  by simp_all

lemma f64_of_rat_01:
  assumes "0 \<le> q" "q \<le> 1"
  shows "f64_of_rat q = Fin (fl q) \<and> 0 \<le> fl q \<and> fl q \<le> 1"
  using f64_of_rat_small[of 1 q] fl_01[OF assms] assms by simp

lemma f64_of_nat_exact: "n \<le> 2 ^ 53 \<Longrightarrow> f64_of_nat n = Fin (of_nat n)"
proof -
  assume n: "n \<le> 2 ^ 53"
  have "of_nat n \<le> (of_nat (2 ^ 53) :: rat)" using n by (simp only: of_nat_le_iff)
  then have "of_nat n < (2::rat) ^ 1024" using small_lt_overflow(1) by simp
  then show ?thesis using f64_of_rat_small[OF representable_nat[OF n], of "of_nat n"]
      fl_representable[OF representable_nat[OF n]]
    by (simp add: f64_of_nat_def)
qed

text \<open>\<open>as f64\<close> is monotone, and dividing a part by its whole stays in \<open>[0, 1]\<close>.\<close>

lemma f64_of_nat_u64:
  assumes "n < 2 ^ 64"
  shows "\<exists>a. f64_of_nat n = Fin a \<and> a = fl (of_nat n) \<and> 0 \<le> a"
proof -
  have r: "representable (2 ^ 64)"
    unfolding representable_def by (intro exI[of _ 1] exI[of _ 64]) (simp add: pow2_def)
  have "of_nat n \<le> (of_nat (2 ^ 64) :: rat)" using assms by (simp only: of_nat_le_iff)
  then show ?thesis using f64_of_rat_small[OF r, of "of_nat n"] fl_nonneg[of "of_nat n"]
    by (simp add: f64_of_nat_def)
qed

lemma fl_pos_of_ge1: "1 \<le> q \<Longrightarrow> 1 \<le> fl q"
  using fl_mono[of 1 q] fl_representable[of 1] by simp

lemma f64_ratio_01:
  assumes "part \<le> whole" "0 < whole" "whole < 2 ^ 64"
  shows "\<exists>r. f64_div (f64_of_nat part) (f64_of_nat whole) = Fin r \<and> 0 \<le> r \<and> r \<le> 1"
proof -
  obtain a where a: "f64_of_nat part = Fin a" "a = fl (of_nat part)" "0 \<le> a"
    using f64_of_nat_u64[of part] assms by auto
  obtain b where b: "f64_of_nat whole = Fin b" "b = fl (of_nat whole)" "0 \<le> b"
    using f64_of_nat_u64[of whole] assms by auto
  have ab: "a \<le> b" unfolding a(2) b(2) using assms(1) by (intro fl_mono) simp
  have b1: "1 \<le> b" unfolding b(2) using assms(2) by (intro fl_pos_of_ge1) simp
  have "0 \<le> a / b" "a / b \<le> 1" using ab b1 a(3) by auto
  then show ?thesis using f64_of_rat_01[of "a / b"] a b b1 by auto
qed

section \<open>Relative error\<close>

lemma round_even_error: "\<bar>of_int (round_even x) - x\<bar> \<le> 1 / 2"
proof -
  have "of_int (floor x) \<le> x" "x < of_int (floor x) + 1" by linarith+
  then show ?thesis by (simp add: round_even_def Let_def abs_le_iff field_simps)
qed

text \<open>In the normal range one rounding changes a number by a factor of at most \<open>1 \<plusminus> 2^-53\<close>.\<close>

lemma fl_error:
  assumes "pow2 (- 1022) \<le> q"
  shows "\<bar>fl q - q\<bar> \<le> q * pow2 (- 53)"
proof -
  have q: "0 < q" using assms pow2_pos[of "- 1022"] by linarith
  have "pow2 (- 1022) < pow2 (ilog2 q + 1)" using ilog2_bounds(2)[OF q] assms by linarith
  then have "\<not> ilog2 q + 1 \<le> - 1022" using pow2_mono[of "ilog2 q + 1" "- 1022"] by linarith
  then have e: "ulp_exp q = ilog2 q - 52" using q by (simp add: ulp_exp_def)
  let ?e = "ulp_exp q"
  have "fl q - q = (of_int (round_even (q / pow2 ?e)) - q / pow2 ?e) * pow2 ?e"
    by (simp add: fl_def field_simps)
  then have "\<bar>fl q - q\<bar> = \<bar>of_int (round_even (q / pow2 ?e)) - q / pow2 ?e\<bar> * pow2 ?e"
    by (simp add: abs_mult)
  also have "\<dots> \<le> 1 / 2 * pow2 ?e"
    by (rule mult_right_mono[OF round_even_error]) simp
  also have "\<dots> = pow2 (ilog2 q) * pow2 (- 53)"
  proof -
    have "pow2 ?e = pow2 (ilog2 q) * pow2 (- 52)" unfolding e by (simp flip: pow2_add)
    moreover have "pow2 (- 53) = pow2 (- 52) / 2" using pow2_Suc[of "- 53"] by simp
    ultimately show ?thesis by simp
  qed
  also have "\<dots> \<le> q * pow2 (- 53)" by (rule mult_right_mono[OF ilog2_bounds(1)[OF q]]) simp
  finally show ?thesis .
qed

lemma fl_idem: "fl (fl q) = fl q"
proof -
  have pos: "fl (fl q) = fl q" if q: "0 < q" for q
  proof -
    let ?e = "ulp_exp q" and ?m = "round_even (q / pow2 (ulp_exp q))"
    have "q / pow2 ?e \<le> of_int (2 ^ 53)"
    proof -
      have "q < pow2 (ilog2 q + 1)" by (rule ilog2_bounds(2)[OF q])
      also have "\<dots> \<le> pow2 (?e + 53)" using q by (intro pow2_mono) (simp add: ulp_exp_def)
      also have "\<dots> = 2 ^ 53 * pow2 ?e" by (rule pow2_53)
      finally show ?thesis by (simp add: field_simps)
    qed
    then have "?m \<le> 2 ^ 53" using round_even_mono[of "q / pow2 ?e" "of_int (2 ^ 53)"] by (simp only: round_even_int)
    moreover have "0 \<le> ?m" using round_even_mono[of 0 "q / pow2 ?e"] q by (simp add: round_even_def[of 0])
    moreover have "- 1074 \<le> ?e" by (simp add: ulp_exp_def)
    ultimately have "representable (fl q)"
      unfolding representable_def by (intro exI[of _ ?m] exI[of _ ?e]) (simp add: fl_def)
    then show ?thesis by (rule fl_representable)
  qed
  consider "0 < q" | "q = 0" | "0 < - q" by linarith
  then show ?thesis
  proof cases
    case 3
    then have "fl (fl (- q)) = fl (- q)" by (rule pos)
    then show ?thesis by (simp add: fl_minus)
  qed (simp_all add: pos)
qed

section \<open>Square roots and bit patterns\<close>

text \<open>\<open>f64::sqrt\<close> rounds the exact root to nearest; the root of a number with a 53-bit significand is
  never half way between two neighbours, so comparing squares decides the rounding.\<close>

fun isqrt :: "nat \<Rightarrow> nat" where
  "isqrt n = (if n = 0 then 0 else let r = 2 * isqrt (n div 4) in if (r + 1) ^ 2 \<le> n then r + 1 else r)"

declare isqrt.simps [simp del]

definition sqrt_round :: "rat \<Rightarrow> rat" where
  "sqrt_round q =
     (let e = (ilog2 q) div 2 - 52;
          x = q / pow2 (2 * e);
          m = isqrt (nat (floor x))
      in if (of_nat m + 1 / 2) ^ 2 < x then of_nat (m + 1) * pow2 e else of_nat m * pow2 e)"

fun f64_sqrt :: "f64 \<Rightarrow> f64" where
  "f64_sqrt (Fin a) = (if a < 0 then NaN else if a = 0 then Fin 0 else Fin (sqrt_round a))"
| "f64_sqrt (Inf s) = (if s then NaN else Inf False)"
| "f64_sqrt NaN = NaN"

text \<open>\<open>f64::to_bits\<close>. The model has one zero: the sign of \<open>-0.0\<close> is not represented.\<close>

definition f64_to_bits :: "f64 \<Rightarrow> u64" where
  "f64_to_bits x = (case x of
      Fin q \<Rightarrow>
        (let e = ulp_exp q; m = nat (floor (\<bar>q\<bar> / pow2 e));
             magnitude = (if m < 2 ^ 52 then m else nat (e + 1075) * 2 ^ 52 + (m - 2 ^ 52))
         in of_nat (magnitude + (if q < 0 then 2 ^ 63 else 0)))
    | Inf s \<Rightarrow> of_nat (2047 * 2 ^ 52 + (if s then 2 ^ 63 else 0))
    | NaN \<Rightarrow> of_nat (4095 * 2 ^ 51))"

section \<open>Durations\<close>

text \<open>\<open>Duration::as_secs_f64\<close>; a duration is a number of nanoseconds.\<close>

definition as_secs_f64 :: "nat \<Rightarrow> f64" where
  "as_secs_f64 d = f64_add (f64_of_nat (d div 10 ^ 9)) (f64_div (f64_of_nat (d mod 10 ^ 9)) (Fin (10 ^ 9)))"

end
