(* ===== verification/Replay.thy ===== *)
theory Replay
  imports Filter_Interfaces Float64
begin

text \<open>
  The per-epoch replay cache of \<^verbatim>\<open>crates/aegis-crypto/src/replay.rs\<close>: a FIFO window with a
  constant-time membership scan, a set for bookkeeping, and generation batches.
  \<open>HashSet\<close> and \<open>HashMap\<close> are sets and maps, the two \<open>VecDeque\<close>s are lists (front first).
\<close>

type_synonym ReplayTag = bytes

definition DEFAULT_REPLAY_CACHE_CAPACITY :: nat where
  "DEFAULT_REPLAY_CACHE_CAPACITY = 1000000"

definition DEFAULT_AUTO_ADVANCE_FILL_RATIO :: f64 where
  "DEFAULT_AUTO_ADVANCE_FILL_RATIO = f64_of_rat (85 / 100)"

definition DEFAULT_MAX_GENERATIONS :: nat where
  "DEFAULT_MAX_GENERATIONS = 4"

definition MIN_CAPACITY_FOR_PRESSURE_ADVANCE :: nat where
  "MIN_CAPACITY_FOR_PRESSURE_ADVANCE = 1024"

definition CT_SCAN_DUMMY :: ReplayTag where
  "CT_SCAN_DUMMY = replicate 32 0"

record ReplayCache =
  seen :: "ReplayTag set"
  order :: "(u32 \<times> ReplayTag) list"
  by_generation :: "u32 \<rightharpoonup> ReplayTag set"
  active_generations :: "u32 list"
  capacity :: nat
  generation :: u32
  max_generations :: nat
  auto_advance_fill_ratio :: f64

section \<open>Operations\<close>

definition with_capacity :: "nat \<Rightarrow> ReplayCache" where
  "with_capacity cap =
     \<lparr>seen = {}, order = [], by_generation = Map.empty, active_generations = [],
      capacity = cap, generation = 0, max_generations = DEFAULT_MAX_GENERATIONS,
      auto_advance_fill_ratio = DEFAULT_AUTO_ADVANCE_FILL_RATIO\<rparr>"

definition replay_new :: ReplayCache where
  "replay_new = with_capacity DEFAULT_REPLAY_CACHE_CAPACITY"

definition replay_len :: "ReplayCache \<Rightarrow> nat" where
  "replay_len c = card (seen c)"

definition replay_is_empty :: "ReplayCache \<Rightarrow> bool" where
  "replay_is_empty c \<longleftrightarrow> replay_len c = 0"

text \<open>The scan always visits \<open>capacity\<close> slots and never stops early.\<close>

definition ct_contains :: "ReplayCache \<Rightarrow> ReplayTag \<Rightarrow> bool" where
  "ct_contains c tag =
     fold (\<lambda>i found.
         let active = i < length (order c);
             candidate = (if i < length (order c) then snd (order c ! i) else CT_SCAN_DUMMY)
         in found \<or> (tag = candidate \<and> active))
       [0..<capacity c] False"

definition contains_ct :: "ReplayCache \<Rightarrow> ReplayTag \<Rightarrow> bool" where
  "contains_ct c tag = ct_contains c tag"

definition insert_tag :: "ReplayCache \<Rightarrow> ReplayTag \<Rightarrow> ReplayCache" where
  "insert_tag c tag =
     (let c = (if active_generations c = []
               then c\<lparr>active_generations := [generation c]\<rparr> else c);
          c = c\<lparr>seen := insert tag (seen c)\<rparr>;
          c = c\<lparr>order := order c @ [(generation c, tag)]\<rparr>;
          gen_set = (case by_generation c (generation c) of None \<Rightarrow> {} | Some s \<Rightarrow> s)
      in c\<lparr>by_generation := (by_generation c)(generation c \<mapsto> insert tag gen_set)\<rparr>)"

definition remove_tag_from_generation :: "ReplayCache \<Rightarrow> u32 \<Rightarrow> ReplayTag \<Rightarrow> ReplayCache" where
  "remove_tag_from_generation c gen tag =
     (let c = c\<lparr>seen := seen c - {tag}\<rparr> in
      case by_generation c gen of
        None \<Rightarrow> c
      | Some gen_set \<Rightarrow>
          let gen_set = gen_set - {tag} in
          if gen_set = {}
          then c\<lparr>by_generation := (by_generation c)(gen := None),
                 active_generations := filter (\<lambda>g. g \<noteq> gen) (active_generations c)\<rparr>
          else c\<lparr>by_generation := (by_generation c)(gen \<mapsto> gen_set)\<rparr>)"

definition drop_generation :: "ReplayCache \<Rightarrow> u32 \<Rightarrow> ReplayCache" where
  "drop_generation c gen =
     (let c = (case by_generation c gen of
                 None \<Rightarrow> c
               | Some tags \<Rightarrow> c\<lparr>by_generation := (by_generation c)(gen := None),
                                seen := seen c - tags\<rparr>);
          c = c\<lparr>order := filter (\<lambda>(g, _). g \<noteq> gen) (order c)\<rparr>
      in c\<lparr>active_generations := filter (\<lambda>g. g \<noteq> gen) (active_generations c)\<rparr>)"

text \<open>The \<open>while\<close> loop of \<open>advance_epoch\<close>: every round shortens \<open>active_generations\<close>.\<close>

lemma drop_generation_active [simp]:
  "active_generations (drop_generation c gen) = filter (\<lambda>g. g \<noteq> gen) (active_generations c)"
  by (auto simp: drop_generation_def Let_def split: option.splits)

function trim_generations :: "ReplayCache \<Rightarrow> ReplayCache" where
  "trim_generations c =
     (if length (active_generations c) > max_generations c
      then (case active_generations c of
              [] \<Rightarrow> c
            | old_gen # rest \<Rightarrow>
                trim_generations (drop_generation (c\<lparr>active_generations := rest\<rparr>) old_gen))
      else c)"
  by pat_completeness auto
termination
  by (relation "measure (\<lambda>c. length (active_generations c))")
     (auto simp: le_less_trans[OF length_filter_le])

declare trim_generations.simps [simp del]

definition advance_epoch :: "ReplayCache \<Rightarrow> ReplayCache" where
  "advance_epoch c =
     (let c = (case active_generations c of
                 [] \<Rightarrow> c
               | old_gen # rest \<Rightarrow> drop_generation (c\<lparr>active_generations := rest\<rparr>) old_gen);
          c = c\<lparr>generation := generation c + 1\<rparr>;
          c = c\<lparr>active_generations := active_generations c @ [generation c]\<rparr>
      in trim_generations c)"

definition replay_clear :: "ReplayCache \<Rightarrow> ReplayCache" where
  "replay_clear c =
     c\<lparr>seen := {}, order := [], by_generation := Map.empty, active_generations := [],
       generation := 0\<rparr>"

definition advance_threshold :: "ReplayCache \<Rightarrow> nat" where
  "advance_threshold c =
     f64_to_u64 (f64_mul (f64_of_nat (capacity c)) (auto_advance_fill_ratio c))"

definition check_and_insert :: "ReplayCache \<Rightarrow> ReplayTag \<Rightarrow> bool \<times> ReplayCache" where
  "check_and_insert c tag =
     (if ct_contains c tag then (False, c)
      else
       let c = (if capacity c > 0 \<and> capacity c \<ge> MIN_CAPACITY_FOR_PRESSURE_ADVANCE
                   \<and> replay_len c \<ge> advance_threshold c
                then advance_epoch c else c);
           c = (if capacity c > 0 \<and> replay_len c \<ge> capacity c
                then
                  let c = (if capacity c \<ge> MIN_CAPACITY_FOR_PRESSURE_ADVANCE
                           then advance_epoch c else c)
                  in if replay_len c \<ge> capacity c
                     then (case order c of
                             [] \<Rightarrow> c
                           | (gen, oldest) # rest \<Rightarrow>
                               remove_tag_from_generation (c\<lparr>order := rest\<rparr>) gen oldest)
                     else c
                else c)
       in (True, insert_tag c tag))"


section \<open>The constant-time scan is set membership\<close>

lemma fold_or: "fold (\<lambda>i found. found \<or> P i) xs b \<longleftrightarrow> b \<or> (\<exists>i \<in> set xs. P i)"
  by (induction xs arbitrary: b) auto

lemma ct_contains_take: "ct_contains c tag \<longleftrightarrow> tag \<in> snd ` set (take (capacity c) (order c))"
proof -
  have "ct_contains c tag \<longleftrightarrow> (\<exists>i \<in> set [0..<capacity c].
      tag = (if i < length (order c) then snd (order c ! i) else CT_SCAN_DUMMY) \<and> i < length (order c))"
    unfolding ct_contains_def Let_def by (subst fold_or) simp
  also have "\<dots> \<longleftrightarrow> (\<exists>i < length (take (capacity c) (order c)). tag = snd (take (capacity c) (order c) ! i))"
    by auto
  also have "\<dots> \<longleftrightarrow> tag \<in> snd ` set (take (capacity c) (order c))"
    unfolding set_conv_nth by blast
  finally show ?thesis .
qed

section \<open>Invariant\<close>

text \<open>
  The index structures agree, at most one generation is active, every tag belongs to it,
  and the window is bounded by the capacity.
\<close>

definition replay_inv :: "ReplayCache \<Rightarrow> bool" where
  "replay_inv c \<longleftrightarrow>
     seen c = snd ` set (order c) \<and> distinct (map snd (order c))
     \<and> (\<forall>g t. (g, t) \<in> set (order c) \<longrightarrow> g = generation c)
     \<and> by_generation c = (if order c = [] then Map.empty else [generation c \<mapsto> seen c])
     \<and> active_generations c \<in> {[], [generation c]}
     \<and> (order c \<noteq> [] \<longrightarrow> active_generations c = [generation c])
     \<and> max_generations c = DEFAULT_MAX_GENERATIONS
     \<and> auto_advance_fill_ratio c = DEFAULT_AUTO_ADVANCE_FILL_RATIO
     \<and> 0 < capacity c \<and> length (order c) \<le> capacity c"

lemma replay_invD:
  assumes "replay_inv c"
  shows "seen c = snd ` set (order c)" "distinct (map snd (order c))"
    "(g, t) \<in> set (order c) \<Longrightarrow> g = generation c"
    "by_generation c = (if order c = [] then Map.empty else [generation c \<mapsto> seen c])"
    "active_generations c = [] \<or> active_generations c = [generation c]"
    "order c \<noteq> [] \<Longrightarrow> active_generations c = [generation c]"
    "max_generations c = 4"
    "0 < capacity c" "length (order c) \<le> capacity c"
  using assms by (auto simp: replay_inv_def DEFAULT_MAX_GENERATIONS_def)

lemma replay_len_order: "replay_inv c \<Longrightarrow> replay_len c = length (order c)"
  using distinct_card[of "map snd (order c)"] replay_invD(1,2)[of c] by (simp add: replay_len_def)

lemma ct_contains_iff:
  "replay_inv c \<Longrightarrow> ct_contains c tag \<longleftrightarrow> tag \<in> seen c"
  using replay_invD(1,9)[of c] by (simp add: ct_contains_take)

lemma replay_inv_with_capacity: "0 < cap \<Longrightarrow> replay_inv (with_capacity cap)"
  by (simp add: replay_inv_def with_capacity_def)

lemma replay_inv_clear: "replay_inv c \<Longrightarrow> replay_inv (replay_clear c)"
  by (simp add: replay_inv_def replay_clear_def)

text \<open>In every consistent cache an advance drops everything: the one active generation.\<close>

definition wiped :: "ReplayCache \<Rightarrow> ReplayCache" where
  "wiped c = c\<lparr>seen := {}, order := [], by_generation := Map.empty,
     active_generations := [generation c + 1], generation := generation c + 1\<rparr>"

lemma wiped_simps [simp]:
  "seen (wiped c) = {}" "order (wiped c) = []" "capacity (wiped c) = capacity c"
  "replay_len (wiped c) = 0" "auto_advance_fill_ratio (wiped c) = auto_advance_fill_ratio c"
  by (simp_all add: wiped_def replay_len_def)

lemma advance_epoch_wipes:
  assumes "replay_inv c"
  shows "advance_epoch c = wiped c"
proof -
  note i = replay_invD[OF assms]
  have flt: "filter (\<lambda>(g, _). g \<noteq> generation c) (order c) = []"
    using i(3) by (auto simp: filter_empty_conv)
  have trim: "trim_generations c' = c'" if "length (active_generations c') \<le> 4" "max_generations c' = 4"
    for c' using that by (simp add: trim_generations.simps[of c'])
  show ?thesis
  proof (cases "order c = []")
    case True
    then have "seen c = {}" "by_generation c = Map.empty" using i by auto
    with True i(5,7) show ?thesis
      by (auto simp: advance_epoch_def wiped_def Let_def drop_generation_def trim)
  next
    case False
    then have "active_generations c = [generation c]" "by_generation c = [generation c \<mapsto> seen c]"
      using i by auto
    with flt i(7) show ?thesis
      by (auto simp: advance_epoch_def wiped_def Let_def drop_generation_def trim)
  qed
qed

lemma replay_inv_wiped: "replay_inv c \<Longrightarrow> replay_inv (wiped c)"
  by (simp add: replay_inv_def wiped_def)

lemma replay_inv_advance: "replay_inv c \<Longrightarrow> replay_inv (advance_epoch c)"
  by (simp add: advance_epoch_wipes replay_inv_wiped)

text \<open>Eviction of the front of the window.\<close>

definition evicted :: "ReplayCache \<Rightarrow> ReplayCache" where
  "evicted c =
     (case order c of [] \<Rightarrow> c
      | (gen, oldest) # rest \<Rightarrow> remove_tag_from_generation (c\<lparr>order := rest\<rparr>) gen oldest)"

lemma evicted_facts:
  assumes "replay_inv c"
  shows "replay_inv (evicted c)" "order (evicted c) = tl (order c)"
    "seen (evicted c) = snd ` set (tl (order c))" "capacity (evicted c) = capacity c"
proof -
  note i = replay_invD[OF assms]
  have "replay_inv (evicted c) \<and> order (evicted c) = tl (order c)
      \<and> seen (evicted c) = snd ` set (tl (order c)) \<and> capacity (evicted c) = capacity c"
  proof (cases "order c")
    case Nil
    then show ?thesis using assms i(1) by (simp add: evicted_def)
  next
    case (Cons e rest)
    obtain g t where e: "e = (g, t)" by (cases e)
    have g: "g = generation c" using i(3)[of g t] Cons e by simp
    have by_gen: "by_generation c = [generation c \<mapsto> seen c]"
      and act: "active_generations c = [generation c]" using i(4,6) Cons by auto
    have t: "t \<notin> snd ` set rest" using i(2) Cons e by simp
    have s: "seen c - {t} = snd ` set rest" using i(1) Cons e t by auto
    have rest: "distinct (map snd rest)" "\<forall>g t. (g, t) \<in> set rest \<longrightarrow> g = generation c"
      using i(2,3) Cons by auto
    have cap: "length rest \<le> capacity c" using i(9) Cons by auto
    show ?thesis
      using Cons e g by_gen act s rest cap assms
      by (cases "rest = []")
         (auto simp: evicted_def remove_tag_from_generation_def Let_def replay_inv_def)
  qed
  then show "replay_inv (evicted c)" "order (evicted c) = tl (order c)"
    "seen (evicted c) = snd ` set (tl (order c))" "capacity (evicted c) = capacity c" by auto
qed

lemma insert_tag_facts:
  assumes "replay_inv c" "tag \<notin> seen c" "length (order c) < capacity c"
  shows "replay_inv (insert_tag c tag)" "seen (insert_tag c tag) = insert tag (seen c)"
    "order (insert_tag c tag) = order c @ [(generation c, tag)]"
    "capacity (insert_tag c tag) = capacity c"
proof -
  note i = replay_invD[OF assms(1)]
  have t: "tag \<notin> snd ` set (order c)" using assms(2) i(1) by simp
  have facts: "seen (insert_tag c tag) = insert tag (seen c)"
    "order (insert_tag c tag) = order c @ [(generation c, tag)]"
    "capacity (insert_tag c tag) = capacity c" "generation (insert_tag c tag) = generation c"
    "active_generations (insert_tag c tag) = [generation c]"
    "by_generation (insert_tag c tag) = [generation c \<mapsto> insert tag (seen c)]"
    "max_generations (insert_tag c tag) = max_generations c"
    "auto_advance_fill_ratio (insert_tag c tag) = auto_advance_fill_ratio c"
    using i(1,4,5,6) by (auto simp: insert_tag_def Let_def)
  show "replay_inv (insert_tag c tag)"
    using assms t facts by (auto simp: replay_inv_def)
  show "seen (insert_tag c tag) = insert tag (seen c)"
    "order (insert_tag c tag) = order c @ [(generation c, tag)]"
    "capacity (insert_tag c tag) = capacity c" by (fact facts)+
qed

text \<open>What \<open>check_and_insert\<close> does to a fresh tag, in terms of the two evictions.\<close>

definition make_room :: "ReplayCache \<Rightarrow> ReplayCache" where
  "make_room c =
     (let c = (if capacity c \<ge> 1024 \<and> replay_len c \<ge> advance_threshold c then wiped c else c)
      in if capacity c > 0 \<and> replay_len c \<ge> capacity c
         then (if capacity c \<ge> 1024 then wiped c else evicted c) else c)"

lemma check_and_insert_eq:
  assumes "replay_inv c"
  shows "check_and_insert c tag =
    (if ct_contains c tag then (False, c) else (True, insert_tag (make_room c) tag))"
proof -
  have w: "replay_inv (wiped c)" "advance_epoch c = wiped c" "advance_epoch (wiped c) = wiped (wiped c)"
    using replay_inv_wiped[OF assms] advance_epoch_wipes[OF assms] advance_epoch_wipes by auto
  have ev: "(case order c of [] \<Rightarrow> c | (gen, oldest) # rest \<Rightarrow>
      remove_tag_from_generation (c\<lparr>order := rest\<rparr>) gen oldest) = evicted c"
    by (simp add: evicted_def)
  show ?thesis
    by (simp add: check_and_insert_def make_room_def MIN_CAPACITY_FOR_PRESSURE_ADVANCE_def w
        ev[simplified] Let_def)
qed

lemma make_room_facts:
  assumes "replay_inv c"
  shows "replay_inv (make_room c)" "seen (make_room c) \<subseteq> seen c"
    "capacity (make_room c) = capacity c"
    "length (order (make_room c)) < capacity c"
  using assms replay_inv_wiped[OF assms] replay_inv_wiped[OF replay_inv_wiped[OF assms]]
    evicted_facts[OF assms] replay_invD(1,8,9)[OF assms] replay_len_order[OF assms]
  by (auto simp: make_room_def Let_def dest: list.set_sel(2)[rotated] split: if_splits)

lemma check_and_insert_inv:
  assumes "replay_inv c"
  shows "replay_inv (snd (check_and_insert c tag))"
    "capacity (snd (check_and_insert c tag)) = capacity c"
proof -
  note m = make_room_facts[OF assms]
  have "replay_inv (snd (check_and_insert c tag)) \<and> capacity (snd (check_and_insert c tag)) = capacity c"
  proof (cases "ct_contains c tag")
    case True
    then show ?thesis using assms by (simp add: check_and_insert_eq)
  next
    case False
    then have "tag \<notin> seen (make_room c)" using m(2) ct_contains_iff[OF assms] by auto
    then show ?thesis
      using insert_tag_facts[of "make_room c" tag] m False by (simp add: check_and_insert_eq[OF assms])
  qed
  then show "replay_inv (snd (check_and_insert c tag))"
    "capacity (snd (check_and_insert c tag)) = capacity c" by auto
qed


section \<open>The guaranteed window\<close>

text \<open>How many tags fit before the cache forgets any of them.\<close>

definition replay_window :: "ReplayCache \<Rightarrow> nat" where
  "replay_window c =
     (if capacity c \<ge> MIN_CAPACITY_FOR_PRESSURE_ADVANCE
      then min (advance_threshold c) (capacity c) else capacity c)"

definition replay_keeps :: "ReplayCache \<Rightarrow> nat \<Rightarrow> bool" where
  "replay_keeps c n \<longleftrightarrow> replay_len c + n \<le> replay_window c"

lemma fill_ratio_01: "\<exists>r. DEFAULT_AUTO_ADVANCE_FILL_RATIO = Fin r \<and> 0 \<le> r \<and> r \<le> 1"
  using f64_of_rat_01[of "85 / 100"] by (auto simp: DEFAULT_AUTO_ADVANCE_FILL_RATIO_def)

text \<open>The float product never rounds above the capacity.\<close>

lemma advance_threshold_le:
  assumes "auto_advance_fill_ratio c = DEFAULT_AUTO_ADVANCE_FILL_RATIO" "capacity c \<le> 2 ^ 53"
  shows "advance_threshold c \<le> capacity c"
proof -
  let ?n = "of_nat (capacity c) :: rat"
  obtain r where r: "DEFAULT_AUTO_ADVANCE_FILL_RATIO = Fin r" "0 \<le> r" "r \<le> 1"
    using fill_ratio_01 by blast
  have rep: "representable ?n" using assms(2) by (rule representable_nat)
  have le: "?n * r \<le> ?n" using r(2,3) by (simp add: mult_left_le)
  have "\<bar>?n * r\<bar> \<le> ?n" using le r by simp
  moreover have "?n \<le> of_nat (2 ^ 53)" using assms(2) by (simp only: of_nat_le_iff)
  then have "?n < 2 ^ 1024" using small_lt_overflow(1) by simp
  ultimately have "f64_of_rat (?n * r) = Fin (fl (?n * r))" using rep by (intro f64_of_rat_small)
  moreover have "fl (?n * r) \<le> ?n" using fl_mono[OF le] fl_representable[OF rep] by simp
  then have "nat (floor (fl (?n * r))) \<le> capacity c"
    by (metis floor_mono floor_of_nat nat_int nat_mono)
  ultimately show ?thesis
    using assms by (simp add: advance_threshold_def f64_of_nat_exact r(1) min_def)
qed

lemma make_room_keeps:
  assumes "replay_inv c" "replay_keeps c (Suc n)"
  shows "make_room c = c"
  using assms(2)
  by (auto simp: make_room_def replay_keeps_def replay_window_def
      MIN_CAPACITY_FOR_PRESSURE_ADVANCE_def split: if_splits)

lemma replay_fresh_step:
  assumes "replay_inv c" "tag \<notin> seen c"
  shows "check_and_insert c tag = (True, insert_tag (make_room c) tag)"
    "seen (snd (check_and_insert c tag)) = insert tag (seen (make_room c))"
    "order (snd (check_and_insert c tag))
      = order (make_room c) @ [(generation (make_room c), tag)]"
proof -
  note m = make_room_facts[OF assms(1)]
  show *: "check_and_insert c tag = (True, insert_tag (make_room c) tag)"
    using assms by (simp add: check_and_insert_eq ct_contains_iff)
  show "seen (snd (check_and_insert c tag)) = insert tag (seen (make_room c))"
    "order (snd (check_and_insert c tag))
      = order (make_room c) @ [(generation (make_room c), tag)]"
    using insert_tag_facts[of "make_room c" tag] m assms(2) by (auto simp: *)
qed

lemma replay_known_step:
  "replay_inv c \<Longrightarrow> tag \<in> seen c \<Longrightarrow> check_and_insert c tag = (False, c)"
  by (simp add: check_and_insert_eq ct_contains_iff)

lemma advance_threshold_cong:
  "capacity c = capacity d \<Longrightarrow> auto_advance_fill_ratio c = auto_advance_fill_ratio d
   \<Longrightarrow> advance_threshold c = advance_threshold d"
  by (simp add: advance_threshold_def)

lemma check_and_insert_window:
  "replay_inv c \<Longrightarrow> replay_window (snd (check_and_insert c tag)) = replay_window c"
  using check_and_insert_inv[of c tag]
    advance_threshold_cong[of "snd (check_and_insert c tag)" c]
  by (simp add: replay_window_def replay_inv_def)

text \<open>The cache as a provider of the windowed filter contract.\<close>

interpretation rc: windowed_filter "\<lambda>c t. t \<in> seen c" check_and_insert replay_inv replay_keeps
proof unfold_locales
  fix c :: ReplayCache and t j :: ReplayTag and n :: nat
  assume inv: "replay_inv c"
  show "replay_inv (snd (check_and_insert c t))" by (rule check_and_insert_inv(1)[OF inv])
  show "fst (check_and_insert c t) \<longleftrightarrow> t \<notin> seen c"
    using replay_fresh_step(1)[OF inv] replay_known_step[OF inv] by fastforce
  show "t \<in> seen (snd (check_and_insert c t))"
    using replay_fresh_step(2)[OF inv, of t] replay_known_step[OF inv, of t] by (cases "t \<in> seen c") auto
  show "t \<in> seen c \<Longrightarrow> snd (check_and_insert c t) = c"
    using replay_known_step[OF inv] by simp
  assume k: "replay_keeps c (Suc n)"
  note room = make_room_keeps[OF inv k]
  show "j \<in> seen (snd (check_and_insert c t)) \<longleftrightarrow> j \<in> seen c \<or> j = t"
    using replay_fresh_step(2)[OF inv, of t] replay_known_step[OF inv, of t] room
    by (cases "t \<in> seen c") auto
  have "replay_len (snd (check_and_insert c t)) \<le> Suc (replay_len c)"
    using replay_fresh_step(3)[OF inv, of t] replay_known_step[OF inv, of t] room
      replay_len_order[OF inv] replay_len_order[OF check_and_insert_inv(1)[OF inv]]
    by (cases "t \<in> seen c") auto
  then show "replay_keeps (snd (check_and_insert c t)) n"
    using k check_and_insert_window[OF inv] by (simp add: replay_keeps_def)
qed

lemma offer_all_capacity:
  "replay_inv c \<Longrightarrow> capacity (snd (offer_all check_and_insert c ts)) = capacity c"
  by (induction ts arbitrary: c) (simp_all add: case_prod_beta Let_def check_and_insert_inv)

section \<open>Reachable caches\<close>

inductive replay_reachable :: "nat \<Rightarrow> ReplayCache \<Rightarrow> bool" for cap where
  reach_new: "replay_reachable cap (with_capacity cap)"
| reach_check: "replay_reachable cap c \<Longrightarrow> replay_reachable cap (snd (check_and_insert c tag))"
| reach_advance: "replay_reachable cap c \<Longrightarrow> replay_reachable cap (advance_epoch c)"
| reach_clear: "replay_reachable cap c \<Longrightarrow> replay_reachable cap (replay_clear c)"

lemma reachable_inv:
  "replay_reachable cap c \<Longrightarrow> 0 < cap \<Longrightarrow> replay_inv c \<and> capacity c = cap"
proof (induction rule: replay_reachable.induct)
  case reach_new
  then show ?case by (simp add: replay_inv_with_capacity) (simp add: with_capacity_def)
next
  case (reach_check c tag)
  then show ?case by (simp add: check_and_insert_inv)
next
  case (reach_advance c)
  then show ?case by (simp add: advance_epoch_wipes replay_inv_wiped)
next
  case (reach_clear c)
  then show ?case by (simp add: replay_inv_clear) (simp add: replay_clear_def)
qed

section \<open>The reference window\<close>

text \<open>
  What the cache promises, over nothing but the list of the tags it holds, oldest first: a tag
  it holds is refused, a fresh one is appended; when \<open>n\<close> tags are held already, a
  \<open>batched\<close> window first drops all of them and another one its oldest.
\<close>

definition window_offer :: "nat \<Rightarrow> bool \<Rightarrow> ReplayTag list \<Rightarrow> ReplayTag \<Rightarrow> bool \<times> ReplayTag list" where
  "window_offer n batched w t =
     (if t \<in> set w then (False, w)
      else (True, (if length w < n then w else if batched then [] else tl w) @ [t]))"

definition replay_tags :: "ReplayCache \<Rightarrow> ReplayTag list" where
  "replay_tags c = map snd (order c)"

lemma replay_tags_new [simp]: "replay_tags (with_capacity cap) = []"
  by (simp add: replay_tags_def with_capacity_def)

lemma make_room_tags:
  assumes "replay_inv c"
  shows "replay_tags (make_room c)
    = (if length (replay_tags c) < replay_window c then replay_tags c
       else if 1024 \<le> capacity c then [] else tl (replay_tags c))"
  using replay_invD(8)[OF assms] replay_len_order[OF assms] evicted_facts(2)[OF assms]
  by (auto simp: replay_tags_def make_room_def replay_window_def Let_def map_tl
      MIN_CAPACITY_FOR_PRESSURE_ADVANCE_def)

lemma check_and_insert_refines:
  assumes "replay_inv c"
  defines "w \<equiv> window_offer (replay_window c) (1024 \<le> capacity c) (replay_tags c)"
  shows "fst (check_and_insert c t) = fst (w t)"
    "replay_tags (snd (check_and_insert c t)) = snd (w t)"
proof -
  have held: "t \<in> set (replay_tags c) \<longleftrightarrow> t \<in> seen c"
    using replay_invD(1)[OF assms(1)] by (simp add: replay_tags_def)
  show "fst (check_and_insert c t) = fst (w t)"
    using rc.offer_fresh[OF assms(1), of t] held by (simp add: w_def window_offer_def)
  show "replay_tags (snd (check_and_insert c t)) = snd (w t)"
    using replay_fresh_step(3)[OF assms(1), of t] replay_known_step[OF assms(1), of t] held
      make_room_tags[OF assms(1)]
    by (cases "t \<in> seen c") (simp_all add: w_def window_offer_def replay_tags_def)
qed

lemma offer_all_refines:
  assumes "replay_inv c"
  shows "fst (offer_all check_and_insert c ts)
      = fst (offer_all (window_offer (replay_window c) (1024 \<le> capacity c)) (replay_tags c) ts)
    \<and> replay_tags (snd (offer_all check_and_insert c ts))
      = snd (offer_all (window_offer (replay_window c) (1024 \<le> capacity c)) (replay_tags c) ts)"
  using assms
proof (induction ts arbitrary: c)
  case Nil
  then show ?case by simp
next
  case (Cons t ts)
  note inv' = check_and_insert_inv[OF Cons.prems, of t]
  from Cons.IH[OF inv'(1)] inv'(2) check_and_insert_refines[OF Cons.prems, of t]
    check_and_insert_window[OF Cons.prems, of t]
  show ?case by (simp add: case_prod_beta Let_def)
qed

lemma reachable_window:
  assumes "replay_reachable cap c" "0 < cap"
  shows "replay_window c = replay_window (with_capacity cap)"
proof -
  have c: "replay_inv c" "capacity c = cap" using reachable_inv[OF assms] by auto
  have "auto_advance_fill_ratio c = DEFAULT_AUTO_ADVANCE_FILL_RATIO"
    using c(1) by (simp add: replay_inv_def)
  with c(2) show ?thesis
    using advance_threshold_cong[of c "with_capacity cap"]
    by (simp add: replay_window_def) (simp add: with_capacity_def)
qed


section \<open>Concrete thresholds\<close>

lemma fl_ratio: "fl (85 / 100) = 7656119366529843 / 9007199254740992"
  using fl_cert[of "-53" "85 / 100" 7656119366529843] by (simp add: pow2_def)

lemma fill_ratio_value:
  "DEFAULT_AUTO_ADVANCE_FILL_RATIO = Fin (7656119366529843 / 9007199254740992)"
  using f64_of_rat_small[of 1 "85 / 100"] small_lt_overflow(2)
  by (simp add: DEFAULT_AUTO_ADVANCE_FILL_RATIO_def fl_ratio[simplified])

lemma threshold_from_product:
  assumes "fl (of_nat cap * (7656119366529843 / 9007199254740992)) = q" "cap \<le> 2 ^ 53" "0 \<le> q"
  shows "advance_threshold (with_capacity cap) = min (nat (floor q)) (2 ^ 64 - 1)"
proof -
  let ?p = "of_nat cap * (7656119366529843 / 9007199254740992) :: rat"
  have "\<bar>?p\<bar> \<le> of_nat cap" by simp
  moreover have "of_nat cap \<le> (of_nat (2 ^ 53) :: rat)" using assms(2) by (simp only: of_nat_le_iff)
  then have "(of_nat cap :: rat) < 2 ^ 1024" using small_lt_overflow(1) by simp
  ultimately have "f64_of_rat ?p = Fin (fl ?p)"
    using representable_nat[OF assms(2)] by (intro f64_of_rat_small)
  then show ?thesis
    using assms
    by (simp add: advance_threshold_def with_capacity_def f64_of_nat_exact fill_ratio_value)
qed

text \<open>The default cache keeps 850 000 tags; a cache of 1024 keeps 870.\<close>

lemma default_threshold: "advance_threshold replay_new = 850000"
proof -
  have "fl (of_nat 1000000 * (7656119366529843 / 9007199254740992)) = 850000"
    using fl_cert[of "-33" "of_nat 1000000 * (7656119366529843 / 9007199254740992)" 7301444403200000]
    by (simp add: pow2_def)
  from threshold_from_product[OF this] show ?thesis
    by (simp add: replay_new_def DEFAULT_REPLAY_CACHE_CAPACITY_def)
qed

lemma default_window: "replay_window replay_new = 850000"
  using default_threshold
  by (simp add: replay_window_def replay_new_def with_capacity_def
      DEFAULT_REPLAY_CACHE_CAPACITY_def MIN_CAPACITY_FOR_PRESSURE_ADVANCE_def)

lemma threshold_1024: "advance_threshold (with_capacity 1024) = 870"
proof -
  have "fl (of_nat 1024 * (7656119366529843 / 9007199254740992)) = 7656119366529843 / 8796093022208"
    using fl_cert[of "-43" "of_nat 1024 * (7656119366529843 / 9007199254740992)" 7656119366529843]
    by (simp add: pow2_def)
  from threshold_from_product[OF this]
  have "advance_threshold (with_capacity 1024)
      = min (nat (floor (7656119366529843 / 8796093022208 :: rat))) (2 ^ 64 - 1)" by simp
  moreover have "floor (7656119366529843 / 8796093022208 :: rat) = 870"
    by (intro floor_unique) simp_all
  ultimately show ?thesis by simp
qed

section \<open>Properties\<close>

text \<open>C10. Invariant of every reachable cache (any mix of insertions, epoch advances and clears
  from a fresh cache of positive capacity): it never holds more than its capacity, the set, the
  FIFO window and the constant-time scan agree, no tag is stored twice, and at most one
  generation is active.\<close>

theorem replay_reachable_consistent:
  assumes "replay_reachable cap c" "0 < cap"
  shows "replay_len c \<le> cap \<and> capacity c = cap \<and> seen c = set (replay_tags c)
    \<and> distinct (replay_tags c) \<and> length (active_generations c) \<le> 1
    \<and> (\<forall>t. contains_ct c t \<longleftrightarrow> t \<in> seen c)"
proof -
  have inv: "replay_inv c" "capacity c = cap" using reachable_inv[OF assms] by auto
  note i = replay_invD[OF inv(1)]
  have "length (active_generations c) \<le> 1" using i(5) by auto
  then show ?thesis
    using i(1,2,9) inv replay_len_order ct_contains_iff
    by (simp add: replay_tags_def contains_ct_def)
qed

theorem replay_reachable_consistent_witness:
  "replay_len (snd (check_and_insert (with_capacity 2) [7])) \<le> 2"
proof -
  have "replay_reachable 2 (snd (check_and_insert (with_capacity 2) [7]))"
    by (intro replay_reachable.intros)
  from replay_reachable_consistent[OF this] show ?thesis by simp
qed

text \<open>Once a tag has been offered to a reachable cache it is rejected when it comes again
  immediately, and the rejection changes nothing.\<close>

theorem replay_rejects_repeat:
  assumes "replay_reachable cap c" "0 < cap"
  shows "check_and_insert (snd (check_and_insert c tag)) tag
    = (False, snd (check_and_insert c tag))"
  using rc.offer_again reachable_inv[OF assms] by blast

theorem replay_rejects_repeat_witness:
  "fst (check_and_insert (snd (check_and_insert (with_capacity 2) [7])) [7]) = False"
  using replay_rejects_repeat[OF reach_new[of 2], of "[7]"] by simp

text \<open>The default cache answers exactly for its first 850 000 packets: the answer to packet
  \<open>i\<close> is \<open>fresh\<close> if and only if its tag did not occur before.\<close>

theorem replay_default_window_exact:
  assumes "length tags \<le> 850000" "i < length tags"
  shows "fst (offer_all check_and_insert replay_new tags) ! i \<longleftrightarrow> tags ! i \<notin> set (take i tags)"
proof -
  have inv: "replay_inv replay_new"
    by (simp add: replay_new_def replay_inv_with_capacity DEFAULT_REPLAY_CACHE_CAPACITY_def)
  have "seen replay_new = {}" by (simp add: replay_new_def with_capacity_def)
  moreover have "replay_keeps replay_new (length tags)"
    using assms(1) calculation by (simp add: replay_keeps_def default_window replay_len_def)
  ultimately have "fst (offer_all check_and_insert replay_new tags) = first_uses (\<lambda>_. False) tags"
    using rc.offer_all_first_uses[OF inv] by simp
  then show ?thesis using assms(2) by (simp add: first_uses_nth)
qed

theorem replay_default_window_exact_witness:
  "\<not> fst (offer_all check_and_insert replay_new [[1], [2], [1]]) ! 2"
  using replay_default_window_exact[of "[[1], [2], [1]]" 2] by simp

text \<open>Pressure forgets the whole window: when a cache of capacity at least 1024 has reached
  its fill threshold, the next fresh tag makes it drop every tag it held (the oldest generation
  is always the only one), so each of them is accepted a second time.\<close>

theorem replay_pressure_forgets_all:
  assumes "1024 \<le> cap" "cap \<le> 2 ^ 53"
    and "distinct ts" "length ts = advance_threshold (with_capacity cap)"
    and "x \<notin> set ts" "t \<in> set ts" "2 \<le> advance_threshold (with_capacity cap)"
  shows "fst (offer_all check_and_insert (with_capacity cap) ts) = replicate (length ts) True
    \<and> (let c = snd (offer_all check_and_insert (with_capacity cap) ts);
           c' = snd (check_and_insert c x) in
       seen c = set ts \<and> seen c' = {x} \<and> fst (check_and_insert c' t))"
proof -
  let ?n = "with_capacity cap"
  define c where "c = snd (offer_all check_and_insert ?n ts)"
  have inv0: "replay_inv ?n" using assms(1) by (intro replay_inv_with_capacity) simp
  have n: "seen ?n = {}" "capacity ?n = cap"
      "auto_advance_fill_ratio ?n = DEFAULT_AUTO_ADVANCE_FILL_RATIO"
    by (simp_all add: with_capacity_def)
  have keeps: "replay_keeps ?n (length ts)"
    using assms(1,2,4) advance_threshold_le[OF n(3)] n
    by (simp add: replay_keeps_def replay_window_def replay_len_def)
  have all: "fst (offer_all check_and_insert ?n ts) = replicate (length ts) True"
  proof (rule nth_equalityI)
    show "length (fst (offer_all check_and_insert ?n ts)) = length (replicate (length ts) True)"
      using rc.offer_all_first_uses[OF inv0 keeps] by simp
    fix i assume "i < length (fst (offer_all check_and_insert ?n ts))"
    then have i: "i < length ts" using rc.offer_all_first_uses[OF inv0 keeps] by simp
    then have "ts ! i \<notin> set (take i ts)"
      using assms(3) by (auto simp: in_set_conv_nth nth_eq_iff_index_eq)
    then show "fst (offer_all check_and_insert ?n ts) ! i = replicate (length ts) True ! i"
      using rc.offer_all_first_uses[OF inv0 keeps] n i by (simp add: first_uses_nth)
  qed
  have inv: "replay_inv c" unfolding c_def by (rule rc.offer_all_inv[OF inv0])
  have seen: "seen c = set ts"
    unfolding c_def using rc.offer_all_holds[OF inv0 keeps] n by auto
  have "capacity c = cap"
    unfolding c_def using offer_all_capacity[OF inv0] n by simp
  then have cap: "capacity c = cap" "auto_advance_fill_ratio c = DEFAULT_AUTO_ADVANCE_FILL_RATIO"
    using inv by (simp_all add: replay_inv_def)
  have thr: "advance_threshold c = advance_threshold ?n"
    using cap n by (intro advance_threshold_cong) simp_all
  have len: "replay_len c = advance_threshold c"
    using distinct_card[OF assms(3)] assms(4) seen thr by (simp add: replay_len_def)
  have room: "make_room c = wiped c"
    using len assms(1) cap by (simp add: make_room_def Let_def)
  let ?c' = "snd (check_and_insert c x)"
  have c': "seen ?c' = {x}"
    using replay_fresh_step(2)[OF inv, of x] assms(5) seen room by simp
  have "fst (check_and_insert ?c' t)"
    using rc.offer_fresh[OF check_and_insert_inv(1)[OF inv, of x], of t] c' assms(5,6) by auto
  with all seen c' show ?thesis by (simp add: c_def Let_def)
qed

theorem replay_pressure_forgets_all_witness:
  "fst (check_and_insert
     (snd (check_and_insert
        (snd (offer_all check_and_insert (with_capacity 1024) (map (\<lambda>i. nat_to_le 32 i) [0..<870])))
        (nat_to_le 32 870)))
     (nat_to_le 32 0))"
proof -
  have big: "(870::nat) < 256 ^ 32" by simp
  have inj: "nat_to_le 32 i = nat_to_le 32 j \<longleftrightarrow> i = j" if "i \<le> 870" "j \<le> 870" for i j
    by (metis le_to_nat_to_le le_less_trans[OF that(1) big] le_less_trans[OF that(2) big])
  define f where "f = nat_to_le 32"
  have inj': "f i = f j \<longleftrightarrow> i = j" if "i \<le> 870" "j \<le> 870" for i j
    unfolding f_def using inj[OF that] .
  have d: "distinct (map f [0..<870])"
    unfolding distinct_map by (auto intro!: inj_onI simp: inj')
  have x: "f 870 \<notin> set (map f [0..<870])" by (auto simp: inj')
  have z: "f 0 \<in> set (map f [0..<870])" by simp
  have len: "length (map f [0..<870]) = advance_threshold (with_capacity 1024)"
    unfolding threshold_1024 length_map length_upt by simp
  have cap: "(1024::nat) \<le> 1024" "(1024::nat) \<le> 2 ^ 53" by simp_all
  have two: "2 \<le> advance_threshold (with_capacity 1024)" unfolding threshold_1024 by simp
  from replay_pressure_forgets_all[OF cap d len x z two] show ?thesis
    unfolding Let_def f_def by (elim conjE)
qed

text \<open>C11. At every positive capacity the cache is exactly the reference window. From any
  reachable cache and on any sequence of tags it gives the same answers and keeps the same tags
  in the same order as the list that refuses what it holds and appends what is fresh, and an
  epoch advance or a clear empties it. Below 1024 entries the window is the capacity and a full
  one drops its oldest tag (a first-in-first-out window); from 1024 entries on it is the smaller
  of the capacity and the fill threshold, and a full one drops every tag at once. The default
  cache of 1 000 000 entries is such a batch of 850 000 tags.\<close>

theorem replay_refines_window:
  assumes "replay_reachable cap c" "0 < cap"
  defines "n \<equiv> (if cap < 1024 then cap else min (advance_threshold (with_capacity cap)) cap)"
  shows "fst (offer_all check_and_insert c ts)
      = fst (offer_all (window_offer n (1024 \<le> cap)) (replay_tags c) ts)
    \<and> replay_tags (snd (offer_all check_and_insert c ts))
      = snd (offer_all (window_offer n (1024 \<le> cap)) (replay_tags c) ts)
    \<and> replay_tags (with_capacity cap) = []
    \<and> replay_tags (advance_epoch c) = [] \<and> replay_tags (replay_clear c) = []
    \<and> replay_new = with_capacity 1000000 \<and> advance_threshold replay_new = 850000"
proof -
  have inv: "replay_inv c" "capacity c = cap" using reachable_inv[OF assms(1,2)] by auto
  have "capacity (with_capacity cap) = cap" by (simp add: with_capacity_def)
  then have n: "replay_window c = n"
    unfolding reachable_window[OF assms(1,2)] n_def
    by (simp add: replay_window_def MIN_CAPACITY_FOR_PRESSURE_ADVANCE_def)
  have empty: "replay_tags (advance_epoch c) = []" "replay_tags (replay_clear c) = []"
    by (simp_all add: replay_tags_def advance_epoch_wipes[OF inv(1)] replay_clear_def)
  show ?thesis
    using offer_all_refines[OF inv(1), of ts] empty default_threshold
    by (simp add: n inv(2) replay_new_def DEFAULT_REPLAY_CACHE_CAPACITY_def)
qed

theorem replay_refines_window_witness:
  "fst (offer_all check_and_insert (with_capacity 2) [[1], [2], [3], [1], [3]])
    = [True, True, True, True, False]"
  using replay_refines_window[OF reach_new[of 2], of "[[1], [2], [3], [1], [3]]"]
  by (simp add: window_offer_def)

end
