(* ===== verification/Sphinx.thy ===== *)
theory Sphinx
  imports Kem Replay
begin

text \<open>
  \<^verbatim>\<open>crates/aegis-crypto/src/sphinx.rs\<close>: building a packet along a path and processing it at a
  mix. SHA3-256, the KEM and the generator come from the \<open>crypto_lib\<close> of theory Kem.
\<close>

definition STREAM_BETA :: bytes where "STREAM_BETA = ascii ''aegis-beta-stream-v1''"
definition STREAM_DELTA :: bytes where "STREAM_DELTA = ascii ''aegis-delta-stream-v1''"
definition MAC_DOMAIN :: bytes where "MAC_DOMAIN = ascii ''aegis-gamma-mac-v1''"
definition REPLAY_DOMAIN :: bytes where "REPLAY_DOMAIN = ascii ''aegis-replay-tag-v1''"
definition PEEL_PAD_DOMAIN :: bytes where "PEEL_PAD_DOMAIN = ascii ''aegis-beta-peel-pad-v1''"

record 'mp PathHop =
  hop_id :: bytes
  hop_pk :: "'mp RelayKemPublic"

datatype Processed = Forward bytes SphinxPacket | LoopReturned | ProcDrop

section \<open>The stream cipher\<close>

text \<open>A digest is a \<open>[u8; 32]\<close>: its type fixes the length.\<close>

definition digest32 :: "('xs, 'ms, 'mp, 'r) crypto_lib \<Rightarrow> bytes \<Rightarrow> bytes" where
  "digest32 L m = take 32 (lib_sha3_256 L m @ replicate 32 0)"

lemma length_digest32 [simp, len_simps]: "length (digest32 L m) = 32"
  by (simp add: digest32_def)

text \<open>The inner loop \<open>for byte in block\<close>, with its early exit at \<open>end\<close>.\<close>

fun xor_block :: "bytes \<Rightarrow> nat \<Rightarrow> nat \<Rightarrow> bytes \<Rightarrow> bytes \<times> nat" where
  "xor_block [] pos stop buf = (buf, pos)"
| "xor_block (b # bs) pos stop buf =
     (if pos \<ge> stop then (buf, pos)
      else xor_block bs (pos + 1) stop (buf[pos := xor (buf ! pos) b]))"

fun copy_block :: "bytes \<Rightarrow> nat \<Rightarrow> nat \<Rightarrow> bytes \<Rightarrow> bytes \<times> nat" where
  "copy_block [] pos stop buf = (buf, pos)"
| "copy_block (b # bs) pos stop buf =
     (if pos \<ge> stop then (buf, pos) else copy_block bs (pos + 1) stop (buf[pos := b]))"

lemma xor_block_pos: "snd (xor_block bs pos stop buf) = (if pos \<le> stop then min (pos + length bs) stop else pos)"
  by (induction bs pos stop buf rule: xor_block.induct) auto

lemma copy_block_pos: "snd (copy_block bs pos stop buf) = (if pos \<le> stop then min (pos + length bs) stop else pos)"
  by (induction bs pos stop buf rule: copy_block.induct) auto

function stream_loop ::
    "('xs, 'ms, 'mp, 'r) crypto_lib \<Rightarrow> bytes \<Rightarrow> SharedSecret \<Rightarrow> u64 \<Rightarrow> nat \<Rightarrow> nat \<Rightarrow> bytes \<Rightarrow> bytes" where
  "stream_loop L domain secret counter pos stop buf =
     (if pos < stop
      then let block = digest32 L (domain @ secret @ u64_to_le counter);
               (buf, pos) = xor_block block pos stop buf
           in stream_loop L domain secret (counter + 1) pos stop buf
      else buf)"
  by pat_completeness auto
termination
  by (relation "measure (\<lambda>(L, domain, secret, counter, pos, stop, buf). stop - pos)")
     (auto dest!: arg_cong[of _ _ snd] simp: xor_block_pos)

declare stream_loop.simps [simp del]

definition stream_xor_range ::
    "('xs, 'ms, 'mp, 'r) crypto_lib \<Rightarrow> bytes \<Rightarrow> nat \<Rightarrow> nat \<Rightarrow> SharedSecret \<Rightarrow> bytes \<Rightarrow> bytes" where
  "stream_xor_range L buf start stop secret domain = stream_loop L domain secret 0 start stop buf"

function pad_loop ::
    "('xs, 'ms, 'mp, 'r) crypto_lib \<Rightarrow> SharedSecret \<Rightarrow> u64 \<Rightarrow> nat \<Rightarrow> nat \<Rightarrow> bytes \<Rightarrow> bytes" where
  "pad_loop L secret counter pos len out =
     (if pos < len
      then let block = digest32 L (PEEL_PAD_DOMAIN @ secret @ u64_to_le counter);
               (out, pos) = copy_block block pos len out
           in pad_loop L secret (counter + 1) pos len out
      else out)"
  by pat_completeness auto
termination
  by (relation "measure (\<lambda>(L, secret, counter, pos, len, out). len - pos)")
     (auto dest!: arg_cong[of _ _ snd] simp: copy_block_pos)

declare pad_loop.simps [simp del]

definition peel_pad :: "('xs, 'ms, 'mp, 'r) crypto_lib \<Rightarrow> SharedSecret \<Rightarrow> nat \<Rightarrow> bytes" where
  "peel_pad L secret len = pad_loop L secret 0 0 len (replicate len 0)"

section \<open>MACs and tags\<close>

definition compute_mac :: "('xs, 'ms, 'mp, 'r) crypto_lib \<Rightarrow> SharedSecret \<Rightarrow> bytes \<Rightarrow> bytes" where
  "compute_mac L secret beta = digest32 L (MAC_DOMAIN @ secret @ beta)"

definition replay_tag :: "('xs, 'ms, 'mp, 'r) crypto_lib \<Rightarrow> SharedSecret \<Rightarrow> ReplayTag" where
  "replay_tag L secret = digest32 L (REPLAY_DOMAIN @ secret)"

definition beta_slice :: "SphinxPacket \<Rightarrow> bytes" where
  "beta_slice packet = slice OFF_BETA BETA_LEN packet"

definition verify_mac :: "('xs, 'ms, 'mp, 'r) crypto_lib \<Rightarrow> SharedSecret \<Rightarrow> SphinxPacket \<Rightarrow> bool" where
  "verify_mac L secret packet \<longleftrightarrow>
     compute_mac L secret (beta_slice packet) = slice OFF_GAMMA GAMMA_LEN packet"

section \<open>Routing slots\<close>

text \<open>\<open>encrypt_slots\<close> and \<open>decrypt_slots\<close> are the same loop.\<close>

definition encrypt_slots ::
    "('xs, 'ms, 'mp, 'r) crypto_lib \<Rightarrow> bytes \<Rightarrow> nat \<Rightarrow> SharedSecret list \<Rightarrow> bytes" where
  "encrypt_slots L beta layers secrets =
     fold (\<lambda>i beta. let off = i * ROUTING_SLOT_LEN in
        stream_xor_range L beta off (off + ROUTING_SLOT_LEN) (secrets ! i) STREAM_BETA)
       [0..<layers] beta"

definition decrypt_slots ::
    "('xs, 'ms, 'mp, 'r) crypto_lib \<Rightarrow> bytes \<Rightarrow> nat \<Rightarrow> SharedSecret list \<Rightarrow> bytes" where
  "decrypt_slots L beta layers secrets =
     fold (\<lambda>i beta. let off = i * ROUTING_SLOT_LEN in
        stream_xor_range L beta off (off + ROUTING_SLOT_LEN) (secrets ! i) STREAM_BETA)
       [0..<layers] beta"

definition peel_step :: "('xs, 'ms, 'mp, 'r) crypto_lib \<Rightarrow> SharedSecret \<Rightarrow> bytes \<Rightarrow> bytes" where
  "peel_step L secret work =
     (let work = stream_xor_range L work 0 ROUTING_SLOT_LEN secret STREAM_BETA;
          work = put 0 (slice ROUTING_SLOT_LEN (BETA_LEN - ROUTING_SLOT_LEN) work) work;
          pad = peel_pad L secret ROUTING_SLOT_LEN
      in put (BETA_LEN - ROUTING_SLOT_LEN) pad work)"

definition mac_after_peels ::
    "('xs, 'ms, 'mp, 'r) crypto_lib \<Rightarrow> bytes \<Rightarrow> SharedSecret list \<Rightarrow> nat \<Rightarrow> bytes" where
  "mac_after_peels L beta secrets peels =
     compute_mac L (secrets ! peels) (fold (\<lambda>h. peel_step L (secrets ! h)) [0..<peels] beta)"

section \<open>Building a packet\<close>

text \<open>The encapsulation loop: it stops at the first error.\<close>

fun encapsulate_all ::
    "('xs, 'ms, 'mp, 'r) crypto_lib \<Rightarrow> 'mp PathHop list \<Rightarrow> 'r
      \<Rightarrow> (CryptoError, KemHeader list \<times> SharedSecret list) result \<times> 'r" where
  "encapsulate_all L [] rng = (Inr ([], []), rng)"
| "encapsulate_all L (hop # hops) rng =
     (case encapsulate L (hop_pk hop) rng of
        (Inl e, rng) \<Rightarrow> (Inl e, rng)
      | (Inr (hdr, sec), rng) \<Rightarrow>
          (case encapsulate_all L hops rng of
             (Inl e, rng) \<Rightarrow> (Inl e, rng)
           | (Inr (headers, secrets), rng) \<Rightarrow> (Inr (hdr # headers, sec # secrets), rng)))"

text \<open>Pass 1: next-hop id and next-hop header of every routing slot.\<close>

definition fill_slots :: "'mp PathHop list \<Rightarrow> KemHeader list \<Rightarrow> nat \<Rightarrow> bytes \<Rightarrow> bytes" where
  "fill_slots path headers layers beta =
     fold (\<lambda>i beta.
         let off = i * ROUTING_SLOT_LEN;
             beta = put off (hop_id (path ! (i + 1))) beta
         in put (off + 32)
              (header_write_to (headers ! (i + 1)) (slice (off + 32) KEM_HEADER_LEN beta)) beta)
       [0..<layers] beta"

text \<open>Writing the MACs of the slots \<open>js\<close> into their gamma fields.\<close>

definition put_gammas :: "bytes list \<Rightarrow> nat list \<Rightarrow> bytes \<Rightarrow> bytes" where
  "put_gammas gammas js beta =
     fold (\<lambda>j beta. put (j * ROUTING_SLOT_LEN + 32 + KEM_HEADER_LEN) (gammas ! j) beta) js beta"

text \<open>Pass 2, inside out: one round of \<open>for i in (0..layers).rev()\<close>.\<close>

definition gamma_round ::
    "('xs, 'ms, 'mp, 'r) crypto_lib \<Rightarrow> SharedSecret list \<Rightarrow> nat \<Rightarrow> nat
      \<Rightarrow> bytes \<times> bytes list \<Rightarrow> bytes \<times> bytes list" where
  "gamma_round L secrets layers i st =
     (let (beta, next_gammas) = st;
          beta = put_gammas next_gammas [i + 1..<layers] beta;
          beta = encrypt_slots L beta layers (take layers secrets);
          next_gammas = next_gammas[i := mac_after_peels L beta secrets (i + 1)];
          beta = decrypt_slots L beta layers (take layers secrets)
      in (beta, next_gammas))"

definition build_beta ::
    "('xs, 'ms, 'mp, 'r) crypto_lib \<Rightarrow> 'mp PathHop list \<Rightarrow> KemHeader list \<Rightarrow> SharedSecret list
      \<Rightarrow> bytes \<Rightarrow> bytes" where
  "build_beta L path headers secrets beta =
     (let layers = length path - 1;
          beta = fill_slots path headers layers beta;
          beta = encrypt_slots L beta layers (take layers secrets);
          beta = decrypt_slots L beta layers (take layers secrets);
          (beta, next_gammas) =
            fold (gamma_round L secrets layers) (rev [0..<layers])
              (beta, replicate layers (replicate GAMMA_LEN 0));
          beta = put_gammas next_gammas [0..<layers] beta
      in encrypt_slots L beta layers (take layers secrets))"

definition build_delta ::
    "('xs, 'ms, 'mp, 'r) crypto_lib \<Rightarrow> SharedSecret list \<Rightarrow> bytes \<Rightarrow> bytes \<Rightarrow> bytes" where
  "build_delta L secrets payload filler =
     (let delta = replicate DELTA_LEN 0;
          delta = put 0 payload delta;
          delta = put (length payload) filler delta
      in fold (\<lambda>sec delta. stream_xor_range L delta 0 DELTA_LEN sec STREAM_DELTA) secrets delta)"

definition build ::
    "('xs, 'ms, 'mp, 'r) crypto_lib \<Rightarrow> 'mp PathHop list \<Rightarrow> bytes \<Rightarrow> 'r
      \<Rightarrow> (CryptoError, SphinxPacket) result \<times> 'r" where
  "build L path payload rng =
     (if length path < 2 \<or> length path > MAX_HOPS then (Inl (CryptoMalformed ''path length''), rng)
      else if length payload > DELTA_LEN then (Inl (CryptoMalformed ''payload too long''), rng)
      else case encapsulate_all L path rng of
        (Inl e, rng) \<Rightarrow> (Inl e, rng)
      | (Inr (headers, secrets), rng) \<Rightarrow>
          let (beta, rng) = lib_fill_bytes L rng BETA_LEN;
              beta = build_beta L path headers secrets beta;
              gamma = compute_mac L (secrets ! 0) beta;
              (filler, rng) = lib_fill_bytes L rng (DELTA_LEN - length payload);
              delta = build_delta L secrets payload filler;
              packet = replicate SPHINX_PACKET_LEN 0;
              packet = put OFF_ALPHA
                (header_write_to (headers ! 0) (slice OFF_ALPHA ALPHA_LEN packet)) packet;
              packet = put OFF_BETA beta packet;
              packet = put OFF_GAMMA gamma packet;
              packet = put OFF_DELTA delta packet
          in (Inr packet, rng))"

section \<open>Processing a packet at a mix\<close>

definition extract_kem_header :: "SphinxPacket \<Rightarrow> (CryptoError, KemHeader) result" where
  "extract_kem_header packet = header_read_from (slice OFF_ALPHA ALPHA_LEN packet)"

definition peel ::
    "('xs, 'ms, 'mp, 'r) crypto_lib \<Rightarrow> SphinxPacket \<Rightarrow> SharedSecret \<Rightarrow> (CryptoError, Processed) result" where
  "peel L packet secret =
     (let out = stream_xor_range L packet OFF_BETA (OFF_BETA + ROUTING_SLOT_LEN) secret STREAM_BETA;
          next_hop = slice OFF_BETA 32 out
      in bind_result (header_read_from (slice (OFF_BETA + 32) KEM_HEADER_LEN out)) (\<lambda>next_header.
      let next_gamma = slice (OFF_BETA + 32 + KEM_HEADER_LEN) GAMMA_LEN out;
          tail_start = OFF_BETA + ROUTING_SLOT_LEN;
          out = put OFF_BETA (slice tail_start (OFF_BETA + BETA_LEN - tail_start) out) out;
          pad = peel_pad L secret ROUTING_SLOT_LEN;
          out = put (OFF_BETA + BETA_LEN - ROUTING_SLOT_LEN) pad out;
          out = put OFF_ALPHA (header_write_to next_header (slice OFF_ALPHA ALPHA_LEN out)) out;
          out = put OFF_GAMMA next_gamma out;
          out = stream_xor_range L out OFF_DELTA (OFF_DELTA + DELTA_LEN) secret STREAM_DELTA
      in Inr (Forward next_hop out)))"

definition process ::
    "('xs, 'ms, 'mp, 'r) crypto_lib \<Rightarrow> SphinxPacket \<Rightarrow> ('xs, 'ms) RelayKemSecret \<Rightarrow> ReplayCache
      \<Rightarrow> (CryptoError, Processed) result \<times> ReplayCache" where
  "process L packet relay_secret replay =
     (case extract_kem_header packet of
        Inl e \<Rightarrow> (Inl e, replay)
      | Inr header \<Rightarrow>
          (case decapsulate L relay_secret header of
             Inl e \<Rightarrow> (Inl e, replay)
           | Inr secret \<Rightarrow>
               if \<not> verify_mac L secret packet then (Inl IntegrityFailure, replay)
               else let (fresh, replay) = check_and_insert replay (replay_tag L secret) in
               if \<not> fresh then (Inl ReplayError, replay)
               else (peel L packet secret, replay)))"

definition tamper_beta_byte :: "SphinxPacket \<Rightarrow> nat \<Rightarrow> SphinxPacket" where
  "tamper_beta_byte packet offset =
     packet[OFF_BETA + offset := xor (packet ! (OFF_BETA + offset)) 0x01]"

definition process_cell ::
    "Cell \<Rightarrow> ('xs, 'ms) RelayKemSecret \<Rightarrow> ReplayCache \<Rightarrow> (CryptoError, Processed) result \<times> ReplayCache" where
  "process_cell packet relay_secret replay =
     (Inl (CryptoMalformed ''expected SphinxPacket, not Cell''), replay)"

end
