(* ===== verification/Sphinx_Lemmas.thy ===== *)
theory Sphinx_Lemmas
  imports Sphinx
begin

text \<open>
  The proof library of the Sphinx model: the stream cipher as a keystream, the slot-wise view of
  the routing onion, the reference onion that \<open>build\<close> computes, and the packet a hop sees.
\<close>

section \<open>The keystream\<close>

definition keystream :: "('xs, 'ms, 'mp, 'r) crypto_lib \<Rightarrow> SharedSecret \<Rightarrow> bytes \<Rightarrow> nat \<Rightarrow> byte" where
  "keystream L secret domain i =
     digest32 L (domain @ secret @ u64_to_le (of_nat (i div 32))) ! (i mod 32)"

definition ks_bytes :: "('xs, 'ms, 'mp, 'r) crypto_lib \<Rightarrow> SharedSecret \<Rightarrow> bytes \<Rightarrow> nat \<Rightarrow> bytes" where
  "ks_bytes L secret domain n = map (keystream L secret domain) [0..<n]"

definition xor_bytes :: "bytes \<Rightarrow> bytes \<Rightarrow> bytes" where
  "xor_bytes a b = map2 xor a b"

lemma length_ks_bytes [simp, len_simps]: "length (ks_bytes L secret domain n) = n"
  by (simp add: ks_bytes_def)

lemma length_xor_bytes [simp, len_simps]: "length (xor_bytes a b) = min (length a) (length b)"
  by (simp add: xor_bytes_def)

lemma xor_bytes_twice: "length a = length k \<Longrightarrow> xor_bytes (xor_bytes a k) k = a"
  by (rule nth_equalityI) (simp_all add: xor_bytes_def xor.assoc)

lemma xor_block_spec:
  assumes "pos \<le> stop" "stop \<le> length buf"
  shows "length (fst (xor_block bs pos stop buf)) = length buf
    \<and> (\<forall>j < length buf. fst (xor_block bs pos stop buf) ! j =
        (if pos \<le> j \<and> j < min (pos + length bs) stop then xor (buf ! j) (bs ! (j - pos)) else buf ! j))"
  using assms
proof (induction bs pos stop buf rule: xor_block.induct)
  case (1 pos stop buf)
  then show ?case by auto
next
  case (2 b bs pos stop buf)
  show ?case
  proof (cases "stop \<le> pos")
    case True
    then show ?thesis by auto
  next
    case False
    then have pre: "pos + 1 \<le> stop" "stop \<le> length (buf[pos := xor (buf ! pos) b])"
      using "2.prems" by simp_all
    note IH = conjunct1[OF "2.IH"[OF False pre]] conjunct2[OF "2.IH"[OF False pre]]
    show ?thesis
    proof (intro conjI allI impI)
      show "length (fst (xor_block (b # bs) pos stop buf)) = length buf" using IH False by simp
      fix j assume j: "j < length buf"
      show "fst (xor_block (b # bs) pos stop buf) ! j =
        (if pos \<le> j \<and> j < min (pos + length (b # bs)) stop then xor (buf ! j) ((b # bs) ! (j - pos)) else buf ! j)"
      proof (cases "pos < j")
        case True
        then obtain d where d: "j = pos + 1 + d" by (metis Suc_eq_plus1 less_iff_Suc_add add_Suc)
        then show ?thesis using IH(2)[rule_format, of j] False j by simp
      next
        case le: False
        then show ?thesis using IH(2)[rule_format, of j] False j by (cases "j = pos") simp_all
      qed
    qed
  qed
qed

lemma stream_loop_spec:
  assumes "pos = start + 32 * c \<or> stop \<le> pos" "stop \<le> length buf"
  shows "length (stream_loop L domain secret (of_nat c) pos stop buf) = length buf
    \<and> (\<forall>j < length buf. stream_loop L domain secret (of_nat c) pos stop buf ! j =
        (if pos \<le> j \<and> j < stop then xor (buf ! j) (keystream L secret domain (j - start)) else buf ! j))"
  using assms
proof (induction "stop - pos" arbitrary: pos c buf rule: less_induct)
  case less
  show ?case
  proof (cases "pos < stop")
    case False
    then show ?thesis by (auto simp: stream_loop.simps)
  next
    case True
    then have pos: "pos = start + 32 * c" using less.prems by simp
    let ?block = "digest32 L (domain @ secret @ u64_to_le (of_nat c))"
    obtain buf' pos' where b: "xor_block ?block pos stop buf = (buf', pos')" by (cases "xor_block ?block pos stop buf")
    have pos': "pos' = min (pos + 32) stop"
      using xor_block_pos[of ?block pos stop buf] b True by simp
    have spec: "length buf' = length buf" "\<And>j. j < length buf \<Longrightarrow> buf' ! j =
        (if pos \<le> j \<and> j < min (pos + 32) stop then xor (buf ! j) (?block ! (j - pos)) else buf ! j)"
      using xor_block_spec[of pos stop buf ?block] b True less.prems by auto
    have step: "stream_loop L domain secret (of_nat c) pos stop buf
        = stream_loop L domain secret (of_nat (Suc c)) pos' stop buf'"
      using True b by (simp add: stream_loop.simps[of L domain secret "of_nat c"] add.commute)
    have IHpre: "stop - pos' < stop - pos" "pos' = start + 32 * Suc c \<or> stop \<le> pos'" "stop \<le> length buf'"
      using True pos pos' spec(1) less.prems by auto
    note IHraw = less.hyps[OF IHpre]
    have IH: "length (stream_loop L domain secret (of_nat (Suc c)) pos' stop buf') = length buf'"
      "\<forall>j < length buf'. stream_loop L domain secret (of_nat (Suc c)) pos' stop buf' ! j =
        (if pos' \<le> j \<and> j < stop then xor (buf' ! j) (keystream L secret domain (j - start)) else buf' ! j)"
      using IHraw by blast+
    show ?thesis
    proof (intro conjI allI impI)
      show "length (stream_loop L domain secret (of_nat c) pos stop buf) = length buf"
        using step IH(1) spec(1) by simp
      fix j assume j: "j < length buf"
      have key: "keystream L secret domain (j - start) = ?block ! (j - pos)"
        if "pos \<le> j" "j < pos + 32"
      proof -
        have "j - start = 32 * c + (j - pos)" using that pos by simp
        moreover have "j - pos < 32" using that by simp
        ultimately show ?thesis by (simp add: keystream_def)
      qed
      show "stream_loop L domain secret (of_nat c) pos stop buf ! j =
        (if pos \<le> j \<and> j < stop then xor (buf ! j) (keystream L secret domain (j - start)) else buf ! j)"
        using IH(2)[rule_format, of j] spec(1) spec(2)[OF j] j pos' key
        by (auto simp: step)
    qed
  qed
qed

text \<open>One call of the cipher: the range is XORed with the keystream, the rest is untouched.\<close>

lemma stream_xor_range_put:
  assumes "start + n \<le> length buf"
  shows "stream_xor_range L buf start (start + n) secret domain
    = put start (xor_bytes (slice start n buf) (ks_bytes L secret domain n)) buf"
proof (rule nth_equalityI)
  note spec = stream_loop_spec[of start start 0 "start + n" buf L domain secret]
  let ?x = "xor_bytes (slice start n buf) (ks_bytes L secret domain n)"
  have x: "length ?x = n" using assms by simp
  show "length (stream_xor_range L buf start (start + n) secret domain) = length (put start ?x buf)"
    using spec assms x by (simp add: stream_xor_range_def)
  fix j assume "j < length (stream_xor_range L buf start (start + n) secret domain)"
  then have j: "j < length buf" using spec assms by (simp add: stream_xor_range_def)
  show "stream_xor_range L buf start (start + n) secret domain ! j = put start ?x buf ! j"
    using spec assms j x
    by (auto simp: stream_xor_range_def put_nth xor_bytes_def ks_bytes_def slice_nth)
qed

lemma stream_xor_range_length [simp, len_simps]:
  "stop \<le> length buf \<Longrightarrow> start \<le> stop \<Longrightarrow>
   length (stream_xor_range L buf start stop secret domain) = length buf"
  using stream_loop_spec[of start start 0 stop buf L domain secret]
  by (simp add: stream_xor_range_def)

text \<open>The pad of a peeled slot has the length asked for.\<close>

lemma copy_block_length [simp]: "length (fst (copy_block bs pos stop buf)) = length buf"
  by (induction bs pos stop buf rule: copy_block.induct) auto

lemma pad_loop_length: "length (pad_loop L secret counter pos len out) = length out"
proof (induction L secret counter pos len out rule: pad_loop.induct)
  case (1 L secret counter pos len out)
  show ?case
  proof (cases "pos < len")
    case True
    let ?block = "digest32 L (PEEL_PAD_DOMAIN @ secret @ u64_to_le counter)"
    obtain out' pos' where b: "copy_block ?block pos len out = (out', pos')"
      by (cases "copy_block ?block pos len out")
    have "length out' = length out" using copy_block_length[of ?block pos len out] b by simp
    then show ?thesis
      using "1.IH"[OF True refl b[symmetric]] True b by (simp add: pad_loop.simps[of L secret counter pos])
  next
    case False
    then show ?thesis by (simp add: pad_loop.simps)
  qed
qed

lemma length_peel_pad [simp, len_simps]: "length (peel_pad L secret len) = len"
  by (simp add: peel_pad_def pad_loop_length)

section \<open>The slot view of the routing onion\<close>

definition slot :: "nat \<Rightarrow> bytes \<Rightarrow> bytes" where
  "slot j b = slice (j * ROUTING_SLOT_LEN) ROUTING_SLOT_LEN b"

text \<open>A loop over slots that touches slot \<open>i\<close> in round \<open>i\<close> only.\<close>

lemma slot_loop:
  assumes f: "\<And>i b. i < n \<Longrightarrow> length b = l \<Longrightarrow> F i b = slot_update ROUTING_SLOT_LEN f i b"
    and len: "\<And>i s. i < n \<Longrightarrow> length s = ROUTING_SLOT_LEN \<Longrightarrow> length (f i s) = ROUTING_SLOT_LEN"
    and n: "n * ROUTING_SLOT_LEN \<le> l"
    and js: "distinct js" "\<forall>i \<in> set js. i < n" and b: "length b = l"
  shows "length (fold F js b) = l"
    "\<And>j. j < n \<Longrightarrow> slot j (fold F js b) = (if j \<in> set js then f j (slot j b) else slot j b)"
    "drop (n * ROUTING_SLOT_LEN) (fold F js b) = drop (n * ROUTING_SLOT_LEN) b"
proof -
  have eq: "fold F js b = fold (slot_update ROUTING_SLOT_LEN f) js b"
    using js b
  proof (induction js arbitrary: b)
    case Nil
    then show ?case by simp
  next
    case (Cons i js)
    have i: "i < n" using Cons.prems by simp
    have "length (slot_update ROUTING_SLOT_LEN f i b) = l"
      using slot_update_facts(1)[where f = f, OF i _ len[OF i]] n Cons.prems by simp
    then show ?case using Cons f[OF i] by simp
  qed
  have nb: "n * ROUTING_SLOT_LEN \<le> length b" using n b by (simp only:)
  note facts = slot_fold_facts[where f = f and m = ROUTING_SLOT_LEN, OF js nb len]
  show "length (fold F js b) = l"
    "drop (n * ROUTING_SLOT_LEN) (fold F js b) = drop (n * ROUTING_SLOT_LEN) b"
    unfolding eq using facts b by (metis, metis order_refl)
  show "slot j (fold F js b) = (if j \<in> set js then f j (slot j b) else slot j b)" if "j < n" for j
    unfolding eq slot_def using facts that by metis
qed

text \<open>Buffers that agree on the slots from \<open>k\<close> on agree from slot \<open>k\<close> on.\<close>

lemma drop_slots_eqI:
  assumes "\<And>j. k \<le> j \<Longrightarrow> j < n \<Longrightarrow> slot j a = slot j b" "k \<le> n"
    and "drop (n * ROUTING_SLOT_LEN) a = drop (n * ROUTING_SLOT_LEN) b"
  shows "drop (k * ROUTING_SLOT_LEN) a = drop (k * ROUTING_SLOT_LEN) b"
  using assms(2) assms(1,3)
proof (induction k rule: inc_induct)
  case base
  then show ?case by simp
next
  case (step k)
  have "drop (k * ROUTING_SLOT_LEN) a = slot k a @ drop (Suc k * ROUTING_SLOT_LEN) a"
    unfolding slot_def by (rule drop_slot)
  also have "\<dots> = slot k b @ drop (Suc k * ROUTING_SLOT_LEN) b"
    using step by simp
  also have "\<dots> = drop (k * ROUTING_SLOT_LEN) b"
    unfolding slot_def by (rule drop_slot[symmetric])
  finally show ?case .
qed

lemma layers_fit: "i < layers \<Longrightarrow> layers \<le> 5 \<Longrightarrow> i * ROUTING_SLOT_LEN + ROUTING_SLOT_LEN \<le> BETA_LEN"
  "layers \<le> 5 \<Longrightarrow> layers * ROUTING_SLOT_LEN \<le> BETA_LEN"
  by (simp_all add: layout_values)

lemma encrypt_slots_facts:
  assumes "layers \<le> 5" "length b = BETA_LEN"
  shows "length (encrypt_slots L b layers secrets) = BETA_LEN"
    "\<And>j. j < layers \<Longrightarrow> slot j (encrypt_slots L b layers secrets)
        = xor_bytes (slot j b) (ks_bytes L (secrets ! j) STREAM_BETA ROUTING_SLOT_LEN)"
    "drop (layers * ROUTING_SLOT_LEN) (encrypt_slots L b layers secrets)
        = drop (layers * ROUTING_SLOT_LEN) b"
proof -
  let ?f = "\<lambda>i s. xor_bytes s (ks_bytes L (secrets ! i) STREAM_BETA ROUTING_SLOT_LEN)"
  note loop = slot_loop[where n = layers and l = BETA_LEN and f = ?f and js = "[0..<layers]" and b = b
      and F = "\<lambda>i beta. let off = i * ROUTING_SLOT_LEN in
        stream_xor_range L beta off (off + ROUTING_SLOT_LEN) (secrets ! i) STREAM_BETA",
      OF _ _ layers_fit(2)[OF assms(1)] _ _ assms(2)]
  have F: "(let off = i * ROUTING_SLOT_LEN in
        stream_xor_range L beta off (off + ROUTING_SLOT_LEN) (secrets ! i) STREAM_BETA)
      = slot_update ROUTING_SLOT_LEN ?f i beta" if "i < layers" "length beta = BETA_LEN" for i beta
    using stream_xor_range_put[of "i * ROUTING_SLOT_LEN" ROUTING_SLOT_LEN beta] layers_fit(1)[OF that(1) assms(1)] that
    by (simp add: slot_update_def Let_def)
  show "length (encrypt_slots L b layers secrets) = BETA_LEN"
    unfolding encrypt_slots_def by (rule loop(1)) (auto simp: F)
  show "drop (layers * ROUTING_SLOT_LEN) (encrypt_slots L b layers secrets)
        = drop (layers * ROUTING_SLOT_LEN) b"
    unfolding encrypt_slots_def by (rule loop(3)) (auto simp: F)
  show "slot j (encrypt_slots L b layers secrets)
        = xor_bytes (slot j b) (ks_bytes L (secrets ! j) STREAM_BETA ROUTING_SLOT_LEN)"
    if "j < layers" for j
    unfolding encrypt_slots_def by (subst loop(2)) (auto simp: F that)
qed

lemma decrypt_is_encrypt: "decrypt_slots = encrypt_slots"
  by (simp add: decrypt_slots_def encrypt_slots_def fun_eq_iff)

lemma slot_length: "j < layers \<Longrightarrow> layers \<le> 5 \<Longrightarrow> length b = BETA_LEN \<Longrightarrow> length (slot j b) = ROUTING_SLOT_LEN"
  using layers_fit(1)[of j layers] by (simp add: slot_def)

lemma buffers_eqI:
  assumes "layers \<le> 5" "length a = BETA_LEN" "length b = BETA_LEN"
    and "\<And>j. j < layers \<Longrightarrow> slot j a = slot j b"
    and "drop (layers * ROUTING_SLOT_LEN) a = drop (layers * ROUTING_SLOT_LEN) b"
  shows "a = b"
  using drop_slots_eqI[of 0 layers a b] assms by simp

lemma decrypt_encrypt_slots:
  assumes "layers \<le> 5" "length b = BETA_LEN"
  shows "decrypt_slots L (encrypt_slots L b layers secrets) layers secrets = b"
proof (rule buffers_eqI[OF assms(1)])
  note e = encrypt_slots_facts[OF assms, where L = L and secrets = secrets]
  note d = encrypt_slots_facts[OF assms(1) e(1), where L = L and secrets = secrets]
  show "length (decrypt_slots L (encrypt_slots L b layers secrets) layers secrets) = BETA_LEN"
    by (simp add: decrypt_is_encrypt d)
  show "length b = BETA_LEN" by fact
  show "slot j (decrypt_slots L (encrypt_slots L b layers secrets) layers secrets) = slot j b"
    if "j < layers" for j
    using slot_length[OF that assms] that by (simp add: decrypt_is_encrypt d e xor_bytes_twice)
  show "drop (layers * ROUTING_SLOT_LEN) (decrypt_slots L (encrypt_slots L b layers secrets) layers secrets)
      = drop (layers * ROUTING_SLOT_LEN) b"
    by (simp add: decrypt_is_encrypt d e)
qed

lemma put_gammas_facts:
  assumes "layers \<le> 5" "length b = BETA_LEN" "distinct js" "\<forall>j \<in> set js. j < layers"
    and g: "\<And>j. j < layers \<Longrightarrow> length (g ! j) = GAMMA_LEN"
  shows "length (put_gammas g js b) = BETA_LEN"
    "\<And>j. j < layers \<Longrightarrow> slot j (put_gammas g js b)
        = (if j \<in> set js then take (32 + KEM_HEADER_LEN) (slot j b) @ g ! j else slot j b)"
    "drop (layers * ROUTING_SLOT_LEN) (put_gammas g js b) = drop (layers * ROUTING_SLOT_LEN) b"
proof -
  let ?f = "\<lambda>i s. take (32 + KEM_HEADER_LEN) s @ g ! i"
  let ?F = "\<lambda>j beta. put (j * ROUTING_SLOT_LEN + 32 + KEM_HEADER_LEN) (g ! j) beta"
  note loop = slot_loop[where n = layers and l = BETA_LEN and f = ?f and js = js and b = b
      and F = ?F, OF _ _ layers_fit(2)[OF assms(1)] assms(3,4,2)]
  have F: "?F i beta = slot_update ROUTING_SLOT_LEN ?f i beta"
    if i: "i < layers" "length beta = BETA_LEN" for i and beta :: bytes
  proof -
    have "take (i * 1184 + 1152) beta = take (i * 1184) beta @ take 1152 (drop (i * 1184) beta)"
      by (rule take_add)
    moreover have "i * 1184 + 1184 \<le> length beta"
      using layers_fit(1)[OF i(1) assms(1)] i(2) by (simp add: layout_values)
    ultimately show ?thesis
      using g[OF i(1)]
      by (simp add: slot_update_def put_def layout_values slice_def min_def add.commute)
  qed
  have len: "length (?f i s) = ROUTING_SLOT_LEN" if "i < layers" "length s = ROUTING_SLOT_LEN"
    for i and s :: bytes
    using that g by (simp add: layout_values)
  show "length (put_gammas g js b) = BETA_LEN"
    unfolding put_gammas_def by (rule loop(1)) (use F len in blast)+
  show "drop (layers * ROUTING_SLOT_LEN) (put_gammas g js b) = drop (layers * ROUTING_SLOT_LEN) b"
    unfolding put_gammas_def by (rule loop(3)) (use F len in blast)+
  show "slot j (put_gammas g js b)
        = (if j \<in> set js then take (32 + KEM_HEADER_LEN) (slot j b) @ g ! j else slot j b)"
    if "j < layers" for j
    unfolding put_gammas_def by (rule loop(2)) (use F len that in blast)+
qed

section \<open>Peeling\<close>

text \<open>The pads that the first \<open>h\<close> hops append.\<close>

definition pads :: "('xs, 'ms, 'mp, 'r) crypto_lib \<Rightarrow> SharedSecret list \<Rightarrow> nat \<Rightarrow> bytes" where
  "pads L secrets h = concat (map (\<lambda>i. peel_pad L (secrets ! i) ROUTING_SLOT_LEN) [0..<h])"

lemma pads_Suc: "pads L secrets (Suc h) = pads L secrets h @ peel_pad L (secrets ! h) ROUTING_SLOT_LEN"
  by (simp add: pads_def)

lemma pads_0 [simp]: "pads L secrets 0 = []"
  by (simp add: pads_def)

lemma length_pads [simp, len_simps]: "length (pads L secrets h) = h * ROUTING_SLOT_LEN"
  by (induction h) (simp_all add: pads_Suc pads_def)

lemma peel_step_eq:
  assumes "length b = BETA_LEN"
  shows "peel_step L sec b = drop ROUTING_SLOT_LEN b @ peel_pad L sec ROUTING_SLOT_LEN"
proof -
  let ?x = "stream_xor_range L b 0 ROUTING_SLOT_LEN sec STREAM_BETA"
  have x: "?x = put 0 (xor_bytes (slice 0 ROUTING_SLOT_LEN b) (ks_bytes L sec STREAM_BETA ROUTING_SLOT_LEN)) b"
    using stream_xor_range_put[of 0 ROUTING_SLOT_LEN b L sec STREAM_BETA] assms by (simp add: layout_values)
  have "length ?x = BETA_LEN" "drop ROUTING_SLOT_LEN ?x = drop ROUTING_SLOT_LEN b"
    unfolding x using assms by (simp_all add: put_def layout_values)
  then show ?thesis
    using assms unfolding peel_step_def Let_def
    by (simp add: put_def slice_def layout_values)
qed

lemma peel_steps_eq:
  assumes "length b = BETA_LEN" "h \<le> 5"
  shows "fold (\<lambda>i. peel_step L (secrets ! i)) [0..<h] b
    = drop (h * ROUTING_SLOT_LEN) b @ pads L secrets h"
  using assms(2)
proof (induction h)
  case 0
  then show ?case by simp
next
  case (Suc h)
  have "length (drop (h * ROUTING_SLOT_LEN) b @ pads L secrets h) = BETA_LEN"
    using assms(1) Suc.prems by (simp add: layout_values)
  moreover have "ROUTING_SLOT_LEN \<le> length b - h * ROUTING_SLOT_LEN"
    using assms(1) Suc.prems by (simp add: layout_values)
  ultimately show ?case
    using Suc by (simp add: peel_step_eq pads_Suc add.commute)
qed

lemma mac_after_peels_eq:
  "length b = BETA_LEN \<Longrightarrow> h \<le> 5 \<Longrightarrow> mac_after_peels L b secrets h
    = compute_mac L (secrets ! h) (drop (h * ROUTING_SLOT_LEN) b @ pads L secrets h)"
  by (simp add: mac_after_peels_def peel_steps_eq)

section \<open>The onion that \<open>build\<close> computes\<close>

lemma put_header_slot:
  assumes "length a = 32" "length h = KEM_HEADER_LEN" "off + ROUTING_SLOT_LEN \<le> length beta"
  shows "put (off + 32) h (put off a beta)
    = put off (a @ h @ drop (32 + KEM_HEADER_LEN) (slice off ROUTING_SLOT_LEN beta)) beta"
proof -
  have "take 32 (drop (off + 1152) beta) @ drop (off + 1184) beta = drop (off + 1152) beta"
    using append_take_drop_id[of 32 "drop (off + 1152) beta"] by (simp add: add.commute)
  then show ?thesis
    using assms by (simp add: put_def slice_def layout_values drop_take add.commute)
qed

lemma fill_slots_facts:
  assumes "layers \<le> 5" "length b = BETA_LEN" "\<And>i. i < layers \<Longrightarrow> length (hop_id (path ! (i + 1))) = 32"
    and "\<And>i. i < layers \<Longrightarrow> wf_header (headers ! (i + 1))"
  shows "length (fill_slots path headers layers b) = BETA_LEN"
    "\<And>j. j < layers \<Longrightarrow> take (32 + KEM_HEADER_LEN) (slot j (fill_slots path headers layers b))
        = hop_id (path ! (j + 1)) @ x25519_point (headers ! (j + 1)) @ mlkem_ct (headers ! (j + 1))"
    "drop (layers * ROUTING_SLOT_LEN) (fill_slots path headers layers b) = drop (layers * ROUTING_SLOT_LEN) b"
proof -
  let ?f = "\<lambda>i s. hop_id (path ! (i + 1)) @ x25519_point (headers ! (i + 1)) @ mlkem_ct (headers ! (i + 1))
      @ drop (32 + KEM_HEADER_LEN) s"
  let ?F = "\<lambda>i beta.
         let off = i * ROUTING_SLOT_LEN;
             beta = put off (hop_id (path ! (i + 1))) beta
         in put (off + 32)
              (header_write_to (headers ! (i + 1)) (slice (off + 32) KEM_HEADER_LEN beta)) beta"
  note loop = slot_loop[where n = layers and l = BETA_LEN and f = ?f and js = "[0..<layers]" and b = b
      and F = ?F, OF _ _ layers_fit(2)[OF assms(1)] _ _ assms(2)]
  have hlen: "length (x25519_point (headers ! (i + 1))) = 32" "length (mlkem_ct (headers ! (i + 1))) = 1088"
    if "i < layers" for i
    using assms(4)[OF that] by (simp_all add: wf_header_def layout_values)
  have F: "?F i beta = slot_update ROUTING_SLOT_LEN ?f i beta"
    if i: "i < layers" "length beta = BETA_LEN" for i and beta :: bytes
  proof -
    have fit: "i * 1184 + 1184 \<le> length beta"
      using layers_fit(1)[OF i(1) assms(1)] i(2) by (simp add: layout_values)
    let ?b1 = "put (i * 1184) (hop_id (path ! (i + 1))) beta"
    have b1: "length ?b1 = length beta" using fit assms(3)[OF i(1)] by simp
    have "header_write_to (headers ! (i + 1)) (slice (i * 1184 + 32) 1120 ?b1)
        = x25519_point (headers ! (i + 1)) @ mlkem_ct (headers ! (i + 1))"
      using assms(4)[OF i(1)] b1 fit by (intro header_write_to_eq) (simp_all add: layout_values)
    then have "?F i beta = put (i * 1184 + 32)
        (x25519_point (headers ! (i + 1)) @ mlkem_ct (headers ! (i + 1))) ?b1"
      by (simp only: Let_def layout_values)
    then show ?thesis
      using put_header_slot[of "hop_id (path ! (i + 1))"
          "x25519_point (headers ! (i + 1)) @ mlkem_ct (headers ! (i + 1))" "i * 1184" beta]
        fit assms(3)[OF i(1)] hlen[OF i(1)]
      by (simp add: slot_update_def layout_values)
  qed
  have len: "length (?f i s) = ROUTING_SLOT_LEN" if "i < layers" "length s = ROUTING_SLOT_LEN"
    for i and s :: bytes
    using that assms(3) hlen by (simp add: layout_values)
  show "length (fill_slots path headers layers b) = BETA_LEN"
    unfolding fill_slots_def by (rule loop(1)) (use F len in auto)
  show "drop (layers * ROUTING_SLOT_LEN) (fill_slots path headers layers b) = drop (layers * ROUTING_SLOT_LEN) b"
    unfolding fill_slots_def by (rule loop(3)) (use F len in auto)
  show "take (32 + KEM_HEADER_LEN) (slot j (fill_slots path headers layers b))
        = hop_id (path ! (j + 1)) @ x25519_point (headers ! (j + 1)) @ mlkem_ct (headers ! (j + 1))"
    if "j < layers" for j
  proof -
    have "slot j (fill_slots path headers layers b) = ?f j (slot j b)"
      unfolding fill_slots_def by (subst loop(2)) (use F len that in auto)
    then show ?thesis using assms(3)[OF that] hlen[OF that] by (simp add: layout_values)
  qed
qed

text \<open>The encrypted onion for a choice \<open>g\<close> of gamma fields over the plain slots \<open>base\<close>.\<close>

definition onion ::
    "('xs, 'ms, 'mp, 'r) crypto_lib \<Rightarrow> SharedSecret list \<Rightarrow> nat \<Rightarrow> bytes \<Rightarrow> bytes list \<Rightarrow> bytes" where
  "onion L secrets layers base g =
     encrypt_slots L (put_gammas g [0..<layers] base) layers (take layers secrets)"

definition gammas_ok :: "nat \<Rightarrow> bytes list \<Rightarrow> bool" where
  "gammas_ok layers g \<longleftrightarrow> length g = layers \<and> (\<forall>j < layers. length (g ! j) = GAMMA_LEN)"

lemma gammas_okD: "gammas_ok layers g \<Longrightarrow> j < layers \<Longrightarrow> length (g ! j) = GAMMA_LEN"
  by (simp add: gammas_ok_def)

lemma onion_facts:
  assumes "layers \<le> 5" "length base = BETA_LEN" "gammas_ok layers g"
  shows "length (onion L secrets layers base g) = BETA_LEN"
    "j < layers \<Longrightarrow> slot j (onion L secrets layers base g)
      = xor_bytes (take (32 + KEM_HEADER_LEN) (slot j base) @ g ! j)
          (ks_bytes L (secrets ! j) STREAM_BETA ROUTING_SLOT_LEN)"
    "drop (layers * ROUTING_SLOT_LEN) (onion L secrets layers base g) = drop (layers * ROUTING_SLOT_LEN) base"
proof -
  note p = put_gammas_facts[OF assms(1,2), of "[0..<layers]" g, OF _ _ gammas_okD[OF assms(3)]]
  have len: "length (put_gammas g [0..<layers] base) = BETA_LEN" by (rule p(1)) auto
  note e = encrypt_slots_facts[OF assms(1) len, where L = L and secrets = "take layers secrets"]
  show "length (onion L secrets layers base g) = BETA_LEN" by (simp add: onion_def e(1))
  show "slot j (onion L secrets layers base g)
      = xor_bytes (take (32 + KEM_HEADER_LEN) (slot j base) @ g ! j)
          (ks_bytes L (secrets ! j) STREAM_BETA ROUTING_SLOT_LEN)" if "j < layers"
    using that p(2)[of j] by (simp add: onion_def e(2))
  have "drop (layers * ROUTING_SLOT_LEN) (put_gammas g [0..<layers] base) = drop (layers * ROUTING_SLOT_LEN) base"
    by (rule p(3)) auto
  then show "drop (layers * ROUTING_SLOT_LEN) (onion L secrets layers base g) = drop (layers * ROUTING_SLOT_LEN) base"
    by (simp add: onion_def e(3))
qed

lemma onion_agree:
  assumes "layers \<le> 5" "length base = BETA_LEN" "gammas_ok layers g" "gammas_ok layers g'" "k \<le> layers"
    and "\<And>j. k \<le> j \<Longrightarrow> j < layers \<Longrightarrow> g ! j = g' ! j"
  shows "drop (k * ROUTING_SLOT_LEN) (onion L secrets layers base g)
    = drop (k * ROUTING_SLOT_LEN) (onion L secrets layers base g')"
  by (rule drop_slots_eqI[of k layers])
     (simp_all add: onion_facts[OF assms(1,2,3)] onion_facts[OF assms(1,2,4)] assms(5,6))

text \<open>What the rounds \<open>layers - 1, ..., k\<close> of the second pass have established.\<close>

definition rounds_inv ::
    "('xs, 'ms, 'mp, 'r) crypto_lib \<Rightarrow> SharedSecret list \<Rightarrow> nat \<Rightarrow> bytes \<Rightarrow> nat \<Rightarrow> bytes \<times> bytes list \<Rightarrow> bool" where
  "rounds_inv L secrets layers base k st \<longleftrightarrow>
     (let (beta, g) = st in
        length beta = BETA_LEN \<and> gammas_ok layers g
        \<and> (\<forall>j < layers. take (32 + KEM_HEADER_LEN) (slot j beta) = take (32 + KEM_HEADER_LEN) (slot j base))
        \<and> drop (layers * ROUTING_SLOT_LEN) beta = drop (layers * ROUTING_SLOT_LEN) base
        \<and> (\<forall>i. k \<le> i \<and> i < layers \<longrightarrow> g ! i = compute_mac L (secrets ! (i + 1))
             (drop ((i + 1) * ROUTING_SLOT_LEN) (onion L secrets layers base g) @ pads L secrets (i + 1))))"

lemma rounds_inv_step:
  assumes "layers \<le> 5" "length base = BETA_LEN" "Suc k \<le> layers"
    and inv: "rounds_inv L secrets layers base (Suc k) (beta, g)"
  shows "rounds_inv L secrets layers base k (gamma_round L secrets layers k (beta, g))"
proof -
  have b: "length beta = BETA_LEN" and g: "gammas_ok layers g"
    and same: "\<And>j. j < layers \<Longrightarrow> take (32 + KEM_HEADER_LEN) (slot j beta) = take (32 + KEM_HEADER_LEN) (slot j base)"
    and tail: "drop (layers * ROUTING_SLOT_LEN) beta = drop (layers * ROUTING_SLOT_LEN) base"
    and known: "\<And>i. Suc k \<le> i \<Longrightarrow> i < layers \<Longrightarrow> g ! i = compute_mac L (secrets ! (i + 1))
             (drop ((i + 1) * ROUTING_SLOT_LEN) (onion L secrets layers base g) @ pads L secrets (i + 1))"
    using inv by (auto simp: rounds_inv_def)
  let ?b1 = "put_gammas g [Suc k..<layers] beta"
  let ?b2 = "encrypt_slots L ?b1 layers (take layers secrets)"
  let ?v = "mac_after_peels L ?b2 secrets (k + 1)"
  let ?g = "g[k := ?v]"
  note p = put_gammas_facts[OF assms(1) b, of "[Suc k..<layers]" g, OF _ _ gammas_okD[OF g]]
  have b1: "length ?b1 = BETA_LEN" by (rule p(1)) auto
  have b1_slot: "slot j ?b1 = (if k < j then take (32 + KEM_HEADER_LEN) (slot j beta) @ g ! j else slot j beta)"
    if "j < layers" for j using p(2)[of j] that by auto
  have b1_tail: "drop (layers * ROUTING_SLOT_LEN) ?b1 = drop (layers * ROUTING_SLOT_LEN) base"
    using p(3) tail by auto
  note e = encrypt_slots_facts[OF assms(1) b1, where L = L and secrets = "take layers secrets"]
  have now: "drop (Suc k * ROUTING_SLOT_LEN) ?b2 = drop (Suc k * ROUTING_SLOT_LEN) (onion L secrets layers base g)"
    by (rule drop_slots_eqI[of _ layers])
       (simp_all add: e b1_slot b1_tail same onion_facts[OF assms(1,2) g] assms(3))
  have v: "?v = compute_mac L (secrets ! (k + 1))
      (drop ((k + 1) * ROUTING_SLOT_LEN) ?b2 @ pads L secrets (k + 1))"
    using assms by (intro mac_after_peels_eq e(1)) simp
  have g': "gammas_ok layers ?g"
    using g assms(3) unfolding v by (auto simp: gammas_ok_def nth_list_update compute_mac_def layout_values)
  have keep: "drop (Suc i * ROUTING_SLOT_LEN) (onion L secrets layers base ?g)
      = drop (Suc i * ROUTING_SLOT_LEN) (onion L secrets layers base g)" if "k \<le> i" "i < layers" for i
    by (rule onion_agree[OF assms(1,2) g' g]) (use that in auto)
  have "?g ! i = compute_mac L (secrets ! (i + 1))
      (drop ((i + 1) * ROUTING_SLOT_LEN) (onion L secrets layers base ?g) @ pads L secrets (i + 1))"
    if i: "k \<le> i" "i < layers" for i
  proof (cases "i = k")
    case True
    have "?g ! k = ?v" using g i True by (simp add: gammas_ok_def)
    also note v
    also have "drop ((k + 1) * ROUTING_SLOT_LEN) ?b2
        = drop ((k + 1) * ROUTING_SLOT_LEN) (onion L secrets layers base ?g)"
      using now keep[of k] i True by (simp only: Suc_eq_plus1 order_refl simp_thms)
    finally show ?thesis by (simp only: True)
  next
    case False
    then have "?g ! i = g ! i" "Suc k \<le> i" using i by simp_all
    then show ?thesis using known[of i] i keep[OF i] by (simp only: Suc_eq_plus1)
  qed
  moreover have "take (32 + KEM_HEADER_LEN) (slot j ?b1) = take (32 + KEM_HEADER_LEN) (slot j base)"
    if "j < layers" for j
    using that same[OF that] slot_length[OF that assms(1) b] slot_length[OF that assms(1,2)] by (simp add: b1_slot layout_values)
  moreover have "gamma_round L secrets layers k (beta, g) = (?b1, ?g)"
    by (simp add: gamma_round_def Let_def decrypt_encrypt_slots[OF assms(1) b1])
  ultimately show ?thesis
    using b1 g' b1_tail by (simp add: rounds_inv_def)
qed

lemma rounds_inv_all:
  assumes "layers \<le> 5" "length base = BETA_LEN"
  shows "rounds_inv L secrets layers base 0
    (fold (gamma_round L secrets layers) (rev [0..<layers]) (base, replicate layers (replicate GAMMA_LEN 0)))"
proof -
  have "rounds_inv L secrets layers base k
    (fold (gamma_round L secrets layers) (rev [k..<layers]) (base, replicate layers (replicate GAMMA_LEN 0)))"
    if "k \<le> layers" for k
    using that
  proof (induction k rule: inc_induct)
    case base
    then show ?case using assms by (auto simp: rounds_inv_def gammas_ok_def)
  next
    case (step k)
    let ?st = "fold (gamma_round L secrets layers) (rev [Suc k..<layers])
        (base, replicate layers (replicate GAMMA_LEN 0))"
    have "rounds_inv L secrets layers base k (gamma_round L secrets layers k (fst ?st, snd ?st))"
      using step by (intro rounds_inv_step[OF assms]) simp_all
    then show ?case using step by (simp add: upt_rec[of k])
  qed
  then show ?thesis by blast
qed

text \<open>
  The result of \<open>build_beta\<close>: slot \<open>j\<close>, decrypted, holds the next hop's id, its KEM header and the
  MAC that hop will compute over what it sees; after the last slot come the random bytes it started from.
\<close>

lemma build_beta_spec:
  fixes L :: "('xs, 'ms, 'mp, 'r) crypto_lib" and path :: "'mp PathHop list"
    and secrets :: "SharedSecret list"
  assumes "2 \<le> length path" "length path \<le> MAX_HOPS" "length beta = BETA_LEN"
    and "\<And>hop. hop \<in> set path \<Longrightarrow> length (hop_id hop) = 32"
    and "length headers = length path" "\<And>h. h \<in> set headers \<Longrightarrow> wf_header h"
  defines "B \<equiv> build_beta L path headers secrets beta"
  shows "length B = BETA_LEN"
    "\<And>j. j + 1 < length path \<Longrightarrow> slot j B = xor_bytes
        (hop_id (path ! (j + 1)) @ x25519_point (headers ! (j + 1)) @ mlkem_ct (headers ! (j + 1))
          @ compute_mac L (secrets ! (j + 1)) (drop ((j + 1) * ROUTING_SLOT_LEN) B @ pads L secrets (j + 1)))
        (ks_bytes L (secrets ! j) STREAM_BETA ROUTING_SLOT_LEN)"
    "drop ((length path - 1) * ROUTING_SLOT_LEN) B = drop ((length path - 1) * ROUTING_SLOT_LEN) beta"
proof -
  let ?n = "length path - 1"
  let ?base = "fill_slots path headers ?n beta"
  have n: "?n \<le> 5" using assms(2) by (simp add: layout_values)
  have ids: "length (hop_id (path ! (i + 1))) = 32" if "i < ?n" for i
    using that by (intro assms(4)) simp
  have hs: "wf_header (headers ! (i + 1))" if "i < ?n" for i
    using that assms(5) by (intro assms(6)) simp
  note f = fill_slots_facts[OF n assms(3), where path = path and headers = headers, OF ids hs]
  have base: "length ?base = BETA_LEN" by (rule f(1))
  obtain b1 g where r: "fold (gamma_round L secrets ?n) (rev [0..<?n])
      (?base, replicate ?n (replicate GAMMA_LEN 0)) = (b1, g)" by (metis surj_pair)
  have inv: "rounds_inv L secrets ?n ?base 0 (b1, g)"
    using rounds_inv_all[OF n base, of L secrets] r by simp
  have b1: "length b1 = BETA_LEN" and g: "gammas_ok ?n g" using inv by (simp_all add: rounds_inv_def)
  have dec: "decrypt_slots L (encrypt_slots L ?base ?n (take ?n secrets)) ?n (take ?n secrets) = ?base"
    by (rule decrypt_encrypt_slots[OF n base])
  have "put_gammas g [0..<?n] b1 = put_gammas g [0..<?n] ?base"
  proof (rule buffers_eqI[OF n])
    note p1 = put_gammas_facts[OF n b1, of "[0..<?n]" g, OF _ _ gammas_okD[OF g]]
    note p2 = put_gammas_facts[OF n base, of "[0..<?n]" g, OF _ _ gammas_okD[OF g]]
    show "length (put_gammas g [0..<?n] b1) = BETA_LEN" by (rule p1(1)) auto
    show "length (put_gammas g [0..<?n] ?base) = BETA_LEN" by (rule p2(1)) auto
    show "slot j (put_gammas g [0..<?n] b1) = slot j (put_gammas g [0..<?n] ?base)" if "j < ?n" for j
      using p1(2)[of j] p2(2)[of j] that inv by (simp add: rounds_inv_def)
    show "drop (?n * ROUTING_SLOT_LEN) (put_gammas g [0..<?n] b1)
        = drop (?n * ROUTING_SLOT_LEN) (put_gammas g [0..<?n] ?base)"
      using p1(3) p2(3) inv by (simp add: rounds_inv_def)
  qed
  then have B: "B = onion L secrets ?n ?base g"
    by (simp only: B_def build_beta_def Let_def dec r prod.case onion_def)
  show "length B = BETA_LEN" unfolding B by (rule onion_facts(1)[OF n base g])
  show "drop (?n * ROUTING_SLOT_LEN) B = drop (?n * ROUTING_SLOT_LEN) beta"
    unfolding B onion_facts(3)[OF n base g] by (rule f(3))
  show "slot j B = xor_bytes
        (hop_id (path ! (j + 1)) @ x25519_point (headers ! (j + 1)) @ mlkem_ct (headers ! (j + 1))
          @ compute_mac L (secrets ! (j + 1)) (drop ((j + 1) * ROUTING_SLOT_LEN) B @ pads L secrets (j + 1)))
        (ks_bytes L (secrets ! j) STREAM_BETA ROUTING_SLOT_LEN)" if "j + 1 < length path" for j
  proof -
    have j: "j < ?n" using that by simp
    have "g ! j = compute_mac L (secrets ! (j + 1)) (drop ((j + 1) * ROUTING_SLOT_LEN) B @ pads L secrets (j + 1))"
      using inv j unfolding rounds_inv_def B by simp
    then show ?thesis
      using onion_facts(2)[OF n base g j, of L secrets] f(2)[OF _ _ j] unfolding B by simp
  qed
qed

section \<open>One hop\<close>

lemma packet_parts:
  assumes "length a = ALPHA_LEN" "length b = BETA_LEN" "length g = GAMMA_LEN" "length d = DELTA_LEN"
  shows "slice OFF_ALPHA ALPHA_LEN (a @ b @ g @ d) = a" "beta_slice (a @ b @ g @ d) = b"
    "slice OFF_GAMMA GAMMA_LEN (a @ b @ g @ d) = g" "slice OFF_DELTA DELTA_LEN (a @ b @ g @ d) = d"
    "length (a @ b @ g @ d) = SPHINX_PACKET_LEN"
  using assms by (simp_all add: beta_slice_def slice_def layout_values)

lemma packet_split:
  assumes "wf_packet p"
  obtains a b g d where "p = a @ b @ g @ d" "length a = ALPHA_LEN" "length b = BETA_LEN"
    "length g = GAMMA_LEN" "length d = DELTA_LEN"
proof -
  let ?a = "take 1120 p" and ?b = "take 7104 (drop 1120 p)"
  let ?g = "take 32 (drop 8224 p)" and ?d = "drop 8256 p"
  have "?g @ ?d = drop 8224 p" using append_take_drop_id[of 32 "drop 8224 p"] by simp
  moreover have "?b @ drop 8224 p = drop 1120 p" using append_take_drop_id[of 7104 "drop 1120 p"] by simp
  ultimately have "p = ?a @ ?b @ ?g @ ?d" by simp
  then show thesis
    using assms by (intro that[of ?a ?b ?g ?d]) (simp_all add: wf_packet_def layout_values)
qed

text \<open>The plain routing slot a hop finds at the front of beta.\<close>

definition open_slot :: "('xs, 'ms, 'mp, 'r) crypto_lib \<Rightarrow> SharedSecret \<Rightarrow> bytes \<Rightarrow> bytes" where
  "open_slot L sec b = xor_bytes (take ROUTING_SLOT_LEN b) (ks_bytes L sec STREAM_BETA ROUTING_SLOT_LEN)"

lemma length_open_slot [simp, len_simps]:
  "length b = BETA_LEN \<Longrightarrow> length (open_slot L sec b) = ROUTING_SLOT_LEN"
  by (simp add: open_slot_def layout_values)

lemma stream_whole:
  "length d = n \<Longrightarrow> stream_xor_range L d 0 n sec domain = xor_bytes d (ks_bytes L sec domain n)"
  using stream_xor_range_put[of 0 n d L sec domain] by (simp add: slice_whole put_whole)

lemma stream_middle:
  assumes "length x = start" "length y = n"
  shows "stream_xor_range L (x @ y @ z) start (start + n) sec domain = x @ xor_bytes y (ks_bytes L sec domain n) @ z"
  using stream_xor_range_put[of start n "x @ y @ z" L sec domain] assms
  by (simp add: slice_def put_def)

lemma peel_parts:
  assumes "length a = ALPHA_LEN" "length b = BETA_LEN" "length g = GAMMA_LEN" "length d = DELTA_LEN"
  shows "peel L (a @ b @ g @ d) sec = Inr (Forward (take 32 (open_slot L sec b))
    (slice 32 KEM_HEADER_LEN (open_slot L sec b)
     @ (drop ROUTING_SLOT_LEN b @ peel_pad L sec ROUTING_SLOT_LEN)
     @ drop (32 + KEM_HEADER_LEN) (open_slot L sec b)
     @ xor_bytes d (ks_bytes L sec STREAM_DELTA DELTA_LEN)))"
proof -
  let ?s = "open_slot L sec b"
  note len = assms[unfolded layout_values]
  have s: "length ?s = 1184" using assms(2) by (simp add: layout_values)
  have b: "b = take 1184 b @ drop 1184 b" by simp
  let ?o = "a @ ?s @ drop 1184 b @ g @ d"
  have o: "stream_xor_range L (a @ b @ g @ d) OFF_BETA (OFF_BETA + ROUTING_SLOT_LEN) sec STREAM_BETA = ?o"
    using stream_middle[of a 1120 "take 1184 b" 1184 L "drop 1184 b @ g @ d" sec STREAM_BETA] len
    by (simp add: open_slot_def layout_values del: append_assoc) (simp add: append_assoc[symmetric] del: append_assoc)
  have hb: "slice (OFF_BETA + 32) KEM_HEADER_LEN ?o = slice 32 KEM_HEADER_LEN ?s"
    using len s by (simp add: slice_def layout_values)
  have nh: "slice OFF_BETA 32 ?o = take 32 ?s"
    using len s by (simp add: slice_def layout_values)
  have ng: "slice (OFF_BETA + 32 + KEM_HEADER_LEN) GAMMA_LEN ?o = drop (32 + KEM_HEADER_LEN) ?s"
    using len s by (simp add: slice_def layout_values)
  obtain h where h: "header_read_from (slice 32 KEM_HEADER_LEN ?s) = Inr h" "wf_header h"
      "x25519_point h @ mlkem_ct h = slice 32 KEM_HEADER_LEN ?s"
    using header_read_Inr[of "slice 32 KEM_HEADER_LEN ?s"] s by (auto simp: layout_values)
  let ?pad = "peel_pad L sec ROUTING_SLOT_LEN"
  let ?o1 = "put OFF_BETA (slice (OFF_BETA + ROUTING_SLOT_LEN)
      (OFF_BETA + BETA_LEN - (OFF_BETA + ROUTING_SLOT_LEN)) ?o) ?o"
  have o1: "?o1 = a @ drop 1184 b @ drop 5920 b @ g @ d"
    using len s by (simp add: put_def slice_def layout_values)
  let ?o2 = "put (OFF_BETA + BETA_LEN - ROUTING_SLOT_LEN) ?pad ?o1"
  have o2: "?o2 = a @ drop 1184 b @ ?pad @ g @ d"
    unfolding o1 using len by (simp add: put_def layout_values)
  let ?o3 = "put OFF_ALPHA (header_write_to h (slice OFF_ALPHA ALPHA_LEN ?o2)) ?o2"
  have o3: "?o3 = slice 32 KEM_HEADER_LEN ?s @ drop 1184 b @ ?pad @ g @ d"
    unfolding o2 using len h(2,3) s
    by (simp add: put_def slice_def layout_values header_write_to_eq)
  let ?o4 = "put OFF_GAMMA (drop (32 + KEM_HEADER_LEN) ?s) ?o3"
  have o4: "?o4 = slice 32 KEM_HEADER_LEN ?s @ drop 1184 b @ ?pad @ drop (32 + KEM_HEADER_LEN) ?s @ d"
    unfolding o3 using len s by (simp add: put_def layout_values)
  have o5: "stream_xor_range L ?o4 OFF_DELTA (OFF_DELTA + DELTA_LEN) sec STREAM_DELTA
      = slice 32 KEM_HEADER_LEN ?s @ drop 1184 b @ ?pad @ drop (32 + KEM_HEADER_LEN) ?s
        @ xor_bytes d (ks_bytes L sec STREAM_DELTA DELTA_LEN)"
    unfolding o4
    using stream_middle[of "slice 32 KEM_HEADER_LEN ?s @ drop 1184 b @ ?pad @ drop (32 + KEM_HEADER_LEN) ?s"
        OFF_DELTA d DELTA_LEN L "[]" sec STREAM_DELTA] len s
    by (simp add: layout_values)
  show ?thesis
    unfolding peel_def Let_def o hb nh ng h(1) bind_result_simps o5
    by (simp add: layout_values)
qed

lemma process_parts:
  assumes "wf_header h" "length b = BETA_LEN" "length g = GAMMA_LEN" "length d = DELTA_LEN"
    and "decapsulate L sk h = Inr sec"
  shows "process L (x25519_point h @ mlkem_ct h @ b @ g @ d) sk rc =
    (if compute_mac L sec b \<noteq> g then (Inl IntegrityFailure, rc)
     else if fst (check_and_insert rc (replay_tag L sec))
       then (peel L ((x25519_point h @ mlkem_ct h) @ b @ g @ d) sec, snd (check_and_insert rc (replay_tag L sec)))
       else (Inl ReplayError, snd (check_and_insert rc (replay_tag L sec))))"
proof -
  let ?a = "x25519_point h @ mlkem_ct h"
  have a: "length ?a = ALPHA_LEN" using assms(1) by (simp add: wf_header_def layout_values)
  note parts = packet_parts[OF a assms(2-4)]
  have "extract_kem_header (?a @ b @ g @ d) = Inr h"
    unfolding extract_kem_header_def parts(1) by (rule header_read_write[OF assms(1)])
  then show ?thesis
    using parts assms(5) by (simp add: process_def verify_mac_def case_prod_beta Let_def)
qed

end
