(* ===== verification/Sphinx_Correct.thy ===== *)
theory Sphinx_Correct
  imports Sphinx_Lemmas
begin

text \<open>
  The proof of the Sphinx format: what \<open>build\<close> returns is opened layer by layer by \<open>process\<close>,
  and the theorems about tampering, replays and packet length.
\<close>

section \<open>The packet a hop receives\<close>

definition onion_view :: "('xs, 'ms, 'mp, 'r) crypto_lib \<Rightarrow> SharedSecret list \<Rightarrow> bytes \<Rightarrow> nat \<Rightarrow> bytes" where
  "onion_view L secrets B i = drop (i * ROUTING_SLOT_LEN) B @ pads L secrets i"

definition delta_view :: "('xs, 'ms, 'mp, 'r) crypto_lib \<Rightarrow> SharedSecret list \<Rightarrow> bytes \<Rightarrow> nat \<Rightarrow> bytes" where
  "delta_view L secrets d i =
     fold (\<lambda>sec d. xor_bytes d (ks_bytes L sec STREAM_DELTA DELTA_LEN)) (drop i secrets) d"

definition packet_view ::
    "('xs, 'ms, 'mp, 'r) crypto_lib \<Rightarrow> KemHeader list \<Rightarrow> SharedSecret list \<Rightarrow> bytes \<Rightarrow> bytes \<Rightarrow> nat \<Rightarrow> SphinxPacket" where
  "packet_view L headers secrets B d i =
     x25519_point (headers ! i) @ mlkem_ct (headers ! i) @ onion_view L secrets B i
       @ compute_mac L (secrets ! i) (onion_view L secrets B i) @ delta_view L secrets d i"

lemma length_compute_mac [simp, len_simps]: "length (compute_mac L s b) = GAMMA_LEN"
  by (simp add: compute_mac_def layout_values)

lemma length_onion_view: "length B = BETA_LEN \<Longrightarrow> i \<le> MAX_HOPS \<Longrightarrow> length (onion_view L secrets B i) = BETA_LEN"
  by (simp add: onion_view_def layout_values)

lemma length_delta_fold:
  "length d = DELTA_LEN \<Longrightarrow>
   length (fold (\<lambda>sec d. xor_bytes d (ks_bytes L sec STREAM_DELTA DELTA_LEN)) ss d) = DELTA_LEN"
  by (induction ss arbitrary: d) simp_all

lemma length_delta_view: "length d = DELTA_LEN \<Longrightarrow> length (delta_view L secrets d i) = DELTA_LEN"
  unfolding delta_view_def by (rule length_delta_fold)

lemma xor_bytes_right_comm: "xor_bytes (xor_bytes d k) k' = xor_bytes (xor_bytes d k') k"
  by (rule nth_equalityI) (auto simp: xor_bytes_def xor.assoc xor.left_commute xor.commute)

lemma delta_fold_comm:
  "fold (\<lambda>sec d. xor_bytes d (ks_bytes L sec STREAM_DELTA n)) ss (xor_bytes d k)
    = xor_bytes (fold (\<lambda>sec d. xor_bytes d (ks_bytes L sec STREAM_DELTA n)) ss d) k"
  by (induction ss arbitrary: d) (simp_all add: xor_bytes_right_comm[of _ k])

lemma delta_view_step:
  assumes "length d = DELTA_LEN" "i < length secrets"
  shows "xor_bytes (delta_view L secrets d i) (ks_bytes L (secrets ! i) STREAM_DELTA DELTA_LEN)
    = delta_view L secrets d (Suc i)"
proof -
  have "drop i secrets = secrets ! i # drop (Suc i) secrets" using assms(2) by (rule Cons_nth_drop_Suc[symmetric])
  then have "delta_view L secrets d i
      = xor_bytes (delta_view L secrets d (Suc i)) (ks_bytes L (secrets ! i) STREAM_DELTA DELTA_LEN)"
    by (simp add: delta_view_def delta_fold_comm)
  then show ?thesis
    using length_delta_view[OF assms(1), of L secrets "Suc i"] by (simp add: xor_bytes_twice)
qed

section \<open>What \<open>build\<close> returns\<close>

lemma encapsulate_all_Inr:
  assumes "lib_lengths L" "lib_dh_commutes L" "lib_mlkem_correct L"
    and "encapsulate_all L path rng = (Inr (headers, secrets), rng')"
  shows "length headers = length path \<and> length secrets = length path
    \<and> (\<forall>h \<in> set headers. wf_header h)
    \<and> (\<forall>i < length path. \<forall>sk. key_pair L sk (hop_pk (path ! i))
          \<longrightarrow> decapsulate L sk (headers ! i) = Inr (secrets ! i))"
  using assms(4)
proof (induction path arbitrary: rng headers secrets)
  case Nil
  then show ?case by simp
next
  case (Cons hop path)
  obtain hdr sec rng1 hs ss where e: "encapsulate L (hop_pk hop) rng = (Inr (hdr, sec), rng1)"
      "encapsulate_all L path rng1 = (Inr (hs, ss), rng')" "headers = hdr # hs" "secrets = sec # ss"
    using Cons.prems by (auto split: prod.splits sum.splits)
  have "length (x25519_point hdr) = 32 \<and> length (mlkem_ct hdr) = MLKEM768_CT_LEN"
    using e(1) lib_lengthsD[OF assms(1)] 
    by (auto simp: encapsulate_def Let_def layout_values split: prod.splits option.splits)
  then have "wf_header hdr" by (simp add: wf_header_def)
  moreover have "decapsulate L sk hdr = Inr sec" if "key_pair L sk (hop_pk hop)" for sk
    using encapsulate_decapsulate(1)[OF assms(1-3) that e(1)] .
  ultimately show ?case
    using Cons.IH[OF e(2)] by (auto simp: e(3,4) nth_Cons' less_Suc_eq_0_disj)
qed

lemma build_Inr:
  assumes "lib_lengths L" "lib_dh_commutes L" "lib_mlkem_correct L"
    and "\<And>hop. hop \<in> set path \<Longrightarrow> length (hop_id hop) = 32"
    and "build L path payload rng = (Inr p, rng')"
  obtains headers secrets B d r1 where
    "2 \<le> length path" "length path \<le> MAX_HOPS" "length payload \<le> DELTA_LEN"
    "length headers = length path" "length secrets = length path" "\<And>h. h \<in> set headers \<Longrightarrow> wf_header h"
    "\<And>i sk. i < length path \<Longrightarrow> key_pair L sk (hop_pk (path ! i))
       \<Longrightarrow> decapsulate L sk (headers ! i) = Inr (secrets ! i)"
    "length B = BETA_LEN" "length d = DELTA_LEN" "take (length payload) d = payload"
    "p = packet_view L headers secrets B d 0"
    "\<And>j. j + 1 < length path \<Longrightarrow> open_slot L (secrets ! j) (onion_view L secrets B j)
       = hop_id (path ! (j + 1)) @ x25519_point (headers ! (j + 1)) @ mlkem_ct (headers ! (j + 1))
         @ compute_mac L (secrets ! (j + 1)) (onion_view L secrets B (j + 1))"
    "drop ((length path - 1) * ROUTING_SLOT_LEN) B = drop ((length path - 1) * ROUTING_SLOT_LEN) (fst (lib_fill_bytes L r1 BETA_LEN))"
proof -
  have bounds: "2 \<le> length path" "length path \<le> MAX_HOPS" "length payload \<le> DELTA_LEN"
    using assms(5) by (auto simp: build_def split: if_splits)
  obtain headers secrets rng1 where enc: "encapsulate_all L path rng = (Inr (headers, secrets), rng1)"
    using assms(5) bounds by (auto simp: build_def split: if_splits prod.splits sum.splits)
  obtain beta rng2 where beta: "lib_fill_bytes L rng1 BETA_LEN = (beta, rng2)"
    by (cases "lib_fill_bytes L rng1 BETA_LEN")
  obtain filler rng3 where filler: "lib_fill_bytes L rng2 (DELTA_LEN - length payload) = (filler, rng3)"
    by (cases "lib_fill_bytes L rng2 (DELTA_LEN - length payload)")
  note hs = encapsulate_all_Inr[OF assms(1-3) enc]
  have blen: "length beta = BETA_LEN" using lib_lengthsD(2)[OF assms(1), of rng1 BETA_LEN] beta by simp
  have flen: "length filler = DELTA_LEN - length payload"
    using lib_lengthsD(2)[OF assms(1), of rng2] filler by (metis fst_conv)
  let ?B = "build_beta L path headers secrets beta"
  have hl: "length headers = length path" and wfh: "\<And>h. h \<in> set headers \<Longrightarrow> wf_header h" using hs by auto
  note B = build_beta_spec[OF bounds(1,2) blen assms(4) hl wfh, where L = L and secrets = secrets]
  have Blen: "length ?B = BETA_LEN" using B(1) by blast
  let ?d = "payload @ filler"
  have dlen: "length ?d = DELTA_LEN" using flen bounds(3) by simp
  have delta: "build_delta L secrets payload filler = delta_view L secrets ?d 0"
  proof -
    have "put (length payload) filler (put 0 payload (replicate DELTA_LEN 0)) = ?d"
      using flen bounds(3) by (simp add: put_def)
    moreover have "fold (\<lambda>sec d. stream_xor_range L d 0 DELTA_LEN sec STREAM_DELTA) ss d
        = fold (\<lambda>sec d. xor_bytes d (ks_bytes L sec STREAM_DELTA DELTA_LEN)) ss d"
      if "length d = DELTA_LEN" for ss d
      using that by (induction ss arbitrary: d) (simp_all add: stream_whole)
    ultimately show ?thesis using dlen by (simp add: build_delta_def Let_def delta_view_def)
  qed
  have h0: "wf_header (headers ! 0)" using wfh hl bounds(1) by (intro wfh nth_mem) linarith
  then have h0': "length (x25519_point (headers ! 0)) = 32" "length (mlkem_ct (headers ! 0)) = 1088"
    by (simp_all add: wf_header_def layout_values)
  have p: "p = packet_view L headers secrets ?B ?d 0"
  proof -
    have "p = put OFF_DELTA (delta_view L secrets ?d 0) (put OFF_GAMMA (compute_mac L (secrets ! 0) ?B)
       (put OFF_BETA ?B (put OFF_ALPHA (header_write_to (headers ! 0)
          (slice OFF_ALPHA ALPHA_LEN (replicate SPHINX_PACKET_LEN 0))) (replicate SPHINX_PACKET_LEN 0))))"
      using assms(5) bounds by (simp add: build_def enc beta filler Let_def delta)
    also have "header_write_to (headers ! 0) (slice OFF_ALPHA ALPHA_LEN (replicate SPHINX_PACKET_LEN 0))
        = x25519_point (headers ! 0) @ mlkem_ct (headers ! 0)"
      by (rule header_write_to_eq[OF h0]) (simp add: layout_values)
    finally show ?thesis
      using h0' Blen length_delta_view[OF dlen, of L secrets 0]
      by (simp add: packet_view_def onion_view_def put_def layout_values del: append_assoc)
  qed
  show thesis
  proof (rule that[OF bounds hl _ wfh _ Blen dlen _ p])
    show "length secrets = length path" using hs by simp
    show "decapsulate L sk (headers ! i) = Inr (secrets ! i)"
      if "i < length path" "key_pair L sk (hop_pk (path ! i))" for i sk using hs that by blast
    show "take (length payload) ?d = payload" by simp
    show "drop ((length path - 1) * ROUTING_SLOT_LEN) ?B = drop ((length path - 1) * ROUTING_SLOT_LEN) (fst (lib_fill_bytes L rng1 BETA_LEN))"
      using B(3) beta by simp
    show "open_slot L (secrets ! j) (onion_view L secrets ?B j)
       = hop_id (path ! (j + 1)) @ x25519_point (headers ! (j + 1)) @ mlkem_ct (headers ! (j + 1))
         @ compute_mac L (secrets ! (j + 1)) (onion_view L secrets ?B (j + 1))"
      if j: "j + 1 < length path" for j
    proof -
      have jm: "j + 1 < MAX_HOPS" using j bounds(2) by simp
      have "take ROUTING_SLOT_LEN (onion_view L secrets ?B j) = slot j ?B"
        using jm Blen by (simp add: onion_view_def slot_def slice_def layout_values)
      moreover have "wf_header (headers ! (j + 1))" using j hl by (intro wfh nth_mem) simp
      moreover have "length (hop_id (path ! (j + 1))) = 32" using j by (intro assms(4) nth_mem)
      ultimately show ?thesis
        using B(2)[OF _ _ j] assms(4) hl wfh
        by (simp add: open_slot_def onion_view_def xor_bytes_twice wf_header_def layout_values)
    qed
  qed auto
qed

section \<open>A packet along its path\<close>

text \<open>The packet handed from mix to mix, each with its own secret and replay cache.\<close>

fun traverse ::
    "('xs, 'ms, 'mp, 'r) crypto_lib \<Rightarrow> SphinxPacket \<Rightarrow> (('xs, 'ms) RelayKemSecret \<times> ReplayCache) list
      \<Rightarrow> (CryptoError, bytes list \<times> SphinxPacket) result" where
  "traverse L p [] = Inr ([], p)"
| "traverse L p ((sk, rc) # nodes) =
     bind_result (fst (process L p sk rc)) (\<lambda>r. case r of
        Forward next_hop p' \<Rightarrow> bind_result (traverse L p' nodes) (\<lambda>(hops, q). Inr (next_hop # hops, q))
      | _ \<Rightarrow> Inl (CryptoMalformed ''not forwarded''))"

definition fresh_cache :: "ReplayCache \<Rightarrow> bool" where
  "fresh_cache rc \<longleftrightarrow> replay_inv rc \<and> seen rc = {}"

lemma fresh_cache_accepts: "fresh_cache rc \<Longrightarrow> fst (check_and_insert rc tag)"
  by (simp add: fresh_cache_def replay_fresh_step)

lemma process_view:
  assumes "wf_header (headers ! i)" "length B = BETA_LEN" "length d = DELTA_LEN" "i < length secrets"
    "length secrets \<le> MAX_HOPS" "decapsulate L sk (headers ! i) = Inr (secrets ! i)" "fresh_cache rc"
  shows "fst (process L (packet_view L headers secrets B d i) sk rc) =
    Inr (Forward (take 32 (open_slot L (secrets ! i) (onion_view L secrets B i)))
      (slice 32 KEM_HEADER_LEN (open_slot L (secrets ! i) (onion_view L secrets B i))
       @ onion_view L secrets B (Suc i)
       @ drop (32 + KEM_HEADER_LEN) (open_slot L (secrets ! i) (onion_view L secrets B i))
       @ delta_view L secrets d (Suc i)))"
proof -
  let ?v = "onion_view L secrets B i"
  have v: "length ?v = BETA_LEN" using assms by (intro length_onion_view) simp_all
  have shift: "drop ROUTING_SLOT_LEN ?v @ peel_pad L (secrets ! i) ROUTING_SLOT_LEN = onion_view L secrets B (Suc i)"
    using assms(2,4,5) by (simp add: onion_view_def pads_Suc layout_values add.commute)
  note dl = length_delta_view[OF assms(3), of L secrets i]
  have "length (x25519_point (headers ! i) @ mlkem_ct (headers ! i)) = ALPHA_LEN"
    using assms(1) by (simp add: wf_header_def layout_values)
  note peel = peel_parts[OF this v length_compute_mac dl, where L = L and sec = "secrets ! i"]
  show ?thesis
    unfolding packet_view_def
      process_parts[OF assms(1) v length_compute_mac dl assms(6)] peel
    using fresh_cache_accepts[OF assms(7)]
    by (simp add: shift delta_view_step[OF assms(3,4)])
qed

lemma fresh_with_capacity: "0 < cap \<Longrightarrow> fresh_cache (with_capacity cap)"
  by (simp add: fresh_cache_def replay_inv_with_capacity) (simp add: with_capacity_def)

lemma traverse_from:
  assumes hyps: "\<And>h. h \<in> set headers \<Longrightarrow> wf_header h" "length headers = length path"
      "length secrets = length path" "length path \<le> MAX_HOPS" "length B = BETA_LEN" "length d = DELTA_LEN"
      "\<And>i sk. i < length path \<Longrightarrow> key_pair L sk (hop_pk (path ! i))
         \<Longrightarrow> decapsulate L sk (headers ! i) = Inr (secrets ! i)"
      "\<And>j. j + 1 < length path \<Longrightarrow> open_slot L (secrets ! j) (onion_view L secrets B j)
         = hop_id (path ! (j + 1)) @ x25519_point (headers ! (j + 1)) @ mlkem_ct (headers ! (j + 1))
           @ compute_mac L (secrets ! (j + 1)) (onion_view L secrets B (j + 1))"
      "\<And>hop. hop \<in> set path \<Longrightarrow> length (hop_id hop) = 32"
    and nodes: "length nodes = length path"
      "\<And>i. i < length path \<Longrightarrow> key_pair L (fst (nodes ! i)) (hop_pk (path ! i)) \<and> fresh_cache (snd (nodes ! i))"
    and i: "i < length path"
  shows "\<exists>last q. traverse L (packet_view L headers secrets B d i) (drop i nodes)
      = Inr (map hop_id (drop (Suc i) path) @ [last], q) \<and> wf_packet q \<and> drop OFF_DELTA q = d
    \<and> last = take 32 (open_slot L (secrets ! (length path - 1)) (onion_view L secrets B (length path - 1)))"
  using i
proof (induction "length path - i" arbitrary: i)
  case 0
  then show ?case by simp
next
  case (Suc k)
  obtain sk rc where n: "nodes ! i = (sk, rc)" by (cases "nodes ! i")
  have drop_n: "drop i nodes = (sk, rc) # drop (Suc i) nodes"
    using Cons_nth_drop_Suc[of i nodes] n Suc.prems nodes(1) by simp
  have wfh: "wf_header (headers ! i)" using hyps(1,2) Suc.prems by simp
  let ?s = "open_slot L (secrets ! i) (onion_view L secrets B i)"
  have proc: "fst (process L (packet_view L headers secrets B d i) sk rc) =
    Inr (Forward (take 32 ?s) (slice 32 KEM_HEADER_LEN ?s @ onion_view L secrets B (Suc i)
       @ drop (32 + KEM_HEADER_LEN) ?s @ delta_view L secrets d (Suc i)))"
    using hyps(3,4) nodes(2)[OF Suc.prems] n Suc.prems
    by (intro process_view[OF wfh hyps(5,6)] hyps(7)) simp_all
  show ?case
  proof (cases "Suc i < length path")
    case True
    have h': "wf_header (headers ! Suc i)" using hyps(1,2) True by simp
    have id': "length (hop_id (path ! Suc i)) = 32" using True by (intro hyps(9) nth_mem)
    have s: "?s = hop_id (path ! Suc i) @ x25519_point (headers ! Suc i) @ mlkem_ct (headers ! Suc i)
           @ compute_mac L (secrets ! Suc i) (onion_view L secrets B (Suc i))"
      using hyps(8)[of i] True by simp
    have fwd: "fst (process L (packet_view L headers secrets B d i) sk rc)
        = Inr (Forward (hop_id (path ! Suc i)) (packet_view L headers secrets B d (Suc i)))"
      unfolding proc s using h' id'
      by (simp add: packet_view_def slice_def wf_header_def layout_values)
    obtain last q where IH: "traverse L (packet_view L headers secrets B d (Suc i)) (drop (Suc i) nodes)
        = Inr (map hop_id (drop (Suc (Suc i)) path) @ [last], q)" "wf_packet q" "drop OFF_DELTA q = d"
      "last = take 32 (open_slot L (secrets ! (length path - 1)) (onion_view L secrets B (length path - 1)))"
    proof -
      have "k = length path - Suc i" using Suc.hyps(2) by simp
      then show thesis using Suc.hyps(1)[of "Suc i"] True that by blast
    qed
    have "drop (Suc i) path = path ! Suc i # drop (Suc (Suc i)) path"
      using True by (rule Cons_nth_drop_Suc[symmetric])
    then show ?thesis using IH by (simp add: drop_n fwd)
  next
    case False
    then have last: "Suc i = length path" using Suc.prems by simp
    have v: "length (onion_view L secrets B i) = BETA_LEN" "length (onion_view L secrets B (Suc i)) = BETA_LEN"
      using hyps(4,5) Suc.prems by (simp_all add: length_onion_view)
    have d: "delta_view L secrets d (Suc i) = d" using hyps(3) last by (simp add: delta_view_def)
    have i: "length path - Suc 0 = i" using last by simp
    have "length ?s = ROUTING_SLOT_LEN" using v(1) by simp
    then show ?thesis
      using v d last nodes(1) hyps(6)
      by (simp add: drop_n proc wf_packet_def layout_values i)
  qed
qed

text \<open>
  The packet of a path is a full packet, and it passes the mixes of the path. The id that the last of them finds is the sender's
  random filler under that mix's key stream.
\<close>

lemma take_xor_bytes: "take n (xor_bytes a b) = xor_bytes (take n a) (take n b)"
  by (simp add: xor_bytes_def take_map take_zip)

lemma take_ks_bytes: "n \<le> m \<Longrightarrow> take n (ks_bytes L sec domain m) = ks_bytes L sec domain n"
  by (simp add: ks_bytes_def take_map)

lemma built_packet_route:
  assumes "lib_lengths L" "lib_dh_commutes L" "lib_mlkem_correct L"
    and "\<And>hop. hop \<in> set path \<Longrightarrow> length (hop_id hop) = 32"
    and "build L path payload rng = (Inr p, rng')"
    and "length nodes = length path"
    and "\<And>i. i < length path \<Longrightarrow> key_pair L (fst (nodes ! i)) (hop_pk (path ! i)) \<and> fresh_cache (snd (nodes ! i))"
  shows "\<exists>last q sec r1. traverse L p nodes = Inr (map hop_id (tl path) @ [last], q)
    \<and> wf_packet q \<and> take (length payload) (drop OFF_DELTA q) = payload
    \<and> last = xor_bytes (take 32 (drop ((length path - 1) * ROUTING_SLOT_LEN) (fst (lib_fill_bytes L r1 BETA_LEN)))) (ks_bytes L sec STREAM_BETA 32)"
proof -
  obtain headers secrets B d r1 where b:
    "2 \<le> length path" "length path \<le> MAX_HOPS" "length payload \<le> DELTA_LEN"
    "length headers = length path" "length secrets = length path" "\<And>h. h \<in> set headers \<Longrightarrow> wf_header h"
    "\<And>i sk. i < length path \<Longrightarrow> key_pair L sk (hop_pk (path ! i))
       \<Longrightarrow> decapsulate L sk (headers ! i) = Inr (secrets ! i)"
    "length B = BETA_LEN" "length d = DELTA_LEN" "take (length payload) d = payload"
    "p = packet_view L headers secrets B d 0"
    "\<And>j. j + 1 < length path \<Longrightarrow> open_slot L (secrets ! j) (onion_view L secrets B j)
       = hop_id (path ! (j + 1)) @ x25519_point (headers ! (j + 1)) @ mlkem_ct (headers ! (j + 1))
         @ compute_mac L (secrets ! (j + 1)) (onion_view L secrets B (j + 1))"
    "drop ((length path - 1) * ROUTING_SLOT_LEN) B = drop ((length path - 1) * ROUTING_SLOT_LEN) (fst (lib_fill_bytes L r1 BETA_LEN))"
    using build_Inr[OF assms(1-5)] by blast
  have "0 < length path" using b(1) by linarith
  from traverse_from[OF b(6,4,5,2,8,9,7,12) assms(4,6,7) this]
  obtain last q where t: "traverse L p nodes = Inr (map hop_id (tl path) @ [last], q)" "wf_packet q" "drop OFF_DELTA q = d"
    "last = take 32 (open_slot L (secrets ! (length path - 1)) (onion_view L secrets B (length path - 1)))"
    using b(11) by (auto simp: drop_Suc)
  have "(length path - 1) * ROUTING_SLOT_LEN + 32 \<le> length B" using b(1,2,8) by (simp add: layout_values)
  then have "take 32 (take ROUTING_SLOT_LEN (onion_view L secrets B (length path - 1))) = take 32 (drop ((length path - 1) * ROUTING_SLOT_LEN) B)"
    by (simp add: onion_view_def layout_values)
  then have "last = xor_bytes (take 32 (drop ((length path - 1) * ROUTING_SLOT_LEN) (fst (lib_fill_bytes L r1 BETA_LEN))))
      (ks_bytes L (secrets ! (length path - 1)) STREAM_BETA 32)"
    unfolding t(4) open_slot_def take_xor_bytes b(13) by (simp add: take_ks_bytes layout_values)
  then show ?thesis using t(1-3) b(10) by blast
qed

lemma built_packet_travels:
  assumes "lib_lengths L" "lib_dh_commutes L" "lib_mlkem_correct L"
    and "\<And>hop. hop \<in> set path \<Longrightarrow> length (hop_id hop) = 32"
    and "build L path payload rng = (Inr p, rng')"
    and "length nodes = length path"
    and "\<And>i. i < length path \<Longrightarrow> key_pair L (fst (nodes ! i)) (hop_pk (path ! i)) \<and> fresh_cache (snd (nodes ! i))"
  shows "\<exists>last q. traverse L p nodes = Inr (map hop_id (tl path) @ [last], q)
    \<and> wf_packet q \<and> take (length payload) (drop OFF_DELTA q) = payload"
  using built_packet_route[OF assms] by blast

lemma build_wf:
  assumes "lib_lengths L" "lib_dh_commutes L" "lib_mlkem_correct L"
    and "\<And>hop. hop \<in> set path \<Longrightarrow> length (hop_id hop) = 32" "build L path payload rng = (Inr p, rng')"
  shows "wf_packet p" "2 \<le> length path"
proof -
  obtain headers secrets B d r1 where b:
    "2 \<le> length path" "length path \<le> MAX_HOPS" "length payload \<le> DELTA_LEN"
    "length headers = length path" "length secrets = length path" "\<And>h. h \<in> set headers \<Longrightarrow> wf_header h"
    "\<And>i sk. i < length path \<Longrightarrow> key_pair L sk (hop_pk (path ! i))
       \<Longrightarrow> decapsulate L sk (headers ! i) = Inr (secrets ! i)"
    "length B = BETA_LEN" "length d = DELTA_LEN" "take (length payload) d = payload"
    "p = packet_view L headers secrets B d 0"
    "\<And>j. j + 1 < length path \<Longrightarrow> open_slot L (secrets ! j) (onion_view L secrets B j)
       = hop_id (path ! (j + 1)) @ x25519_point (headers ! (j + 1)) @ mlkem_ct (headers ! (j + 1))
         @ compute_mac L (secrets ! (j + 1)) (onion_view L secrets B (j + 1))"
    "drop ((length path - 1) * ROUTING_SLOT_LEN) B = drop ((length path - 1) * ROUTING_SLOT_LEN) (fst (lib_fill_bytes L r1 BETA_LEN))"
    using build_Inr[OF assms] by blast
  have "headers ! 0 \<in> set headers" using b(1,4) by (intro nth_mem) linarith
  then have "wf_header (headers ! 0)" by (rule b(6))
  moreover have "length (onion_view L secrets B 0) = BETA_LEN" using b(8) by (intro length_onion_view) simp_all
  moreover have "length (delta_view L secrets d 0) = DELTA_LEN" using b(9) by (simp add: length_delta_view)
  ultimately show "wf_packet p"
    by (simp add: b(11) packet_view_def wf_packet_def wf_header_def length_compute_mac layout_values)
  show "2 \<le> length path" by (rule b(1))
qed

section \<open>Theorems\<close>

text \<open>C1. Delivery: a packet built for a path, handed to the mixes of the path in order, each with
  its own key and an empty replay cache, names at every mix the id of the next hop, and leaves the
  last mix with the payload in the clear at the front of delta.\<close>

theorem sphinx_delivers:
  assumes "lib_lengths L" "lib_dh_commutes L" "lib_mlkem_correct L"
    and "\<And>hop. hop \<in> set path \<Longrightarrow> length (hop_id hop) = 32"
    and "build L path payload rng = (Inr p, rng')"
    and "length nodes = length path"
    and "\<And>i. i < length path \<Longrightarrow> key_pair L (fst (nodes ! i)) (hop_pk (path ! i)) \<and> fresh_cache (snd (nodes ! i))"
  shows "\<exists>last q. traverse L p nodes = Inr (map hop_id (tl path) @ [last], q)
    \<and> wf_packet q \<and> take (length payload) (drop OFF_DELTA q) = payload"
  using built_packet_travels[OF assms] .

lemma encapsulate_all_ok:
  assumes "\<And>hop r. hop \<in> set path \<Longrightarrow> fst (lib_mlkem_encapsulate L (public_mlkem (hop_pk hop)) r) \<noteq> None"
  shows "\<exists>hs ss rng'. encapsulate_all L path rng = (Inr (hs, ss), rng')"
  using assms
proof (induction path arbitrary: rng)
  case Nil
  then show ?case by simp
next
  case (Cons hop path)
  obtain e r1 where e: "lib_x25519_random L rng = (e, r1)" by (metis surj_pair)
  obtain ct ss r2 where m: "lib_mlkem_encapsulate L (public_mlkem (hop_pk hop)) r1 = (Some (ct, ss), r2)"
    using Cons.prems[of hop r1] by (metis fst_conv list.set_intros(1) not_Some_eq surj_pair)
  obtain hdr sec where enc: "encapsulate L (hop_pk hop) rng = (Inr (hdr, sec), r2)"
    by (simp add: encapsulate_def Let_def e m)
  obtain hs ss r3 where "encapsulate_all L path r2 = (Inr (hs, ss), r3)"
    using Cons.IH[of r2] Cons.prems by (meson list.set_intros(2))
  then show ?case using enc by simp
qed

lemma build_ok:
  assumes "\<And>hop r. hop \<in> set path \<Longrightarrow> fst (lib_mlkem_encapsulate L (public_mlkem (hop_pk hop)) r) \<noteq> None"
    and "2 \<le> length path" "length path \<le> MAX_HOPS" "length payload \<le> DELTA_LEN"
  shows "\<exists>p rng'. build L path payload rng = (Inr p, rng')"
proof -
  obtain hs ss r1 where "encapsulate_all L path rng = (Inr (hs, ss), r1)"
    using encapsulate_all_ok[OF assms(1), where rng = rng] by blast
  then show ?thesis using assms(2-4) by (simp add: build_def Let_def not_less case_prod_beta)
qed

section \<open>A concrete library\<close>

text \<open>
  A tiny instance of the cryptographic interface that has all the documented laws: it shows that
  the laws can hold together, and it is where the theorems are applied below.
\<close>

definition toy_lib :: "(nat, unit, unit, nat) crypto_lib" where
  "toy_lib = \<lparr>lib_sha3_256 = (\<lambda>m. sum_list m # replicate 31 7),
     lib_fill_bytes = (\<lambda>r n. (replicate n (of_nat r), r + 1)),
     lib_x25519_random = (\<lambda>r. (r, r + 1)),
     lib_x25519_public = (\<lambda>s. replicate 32 (of_nat s)),
     lib_x25519_dh = (\<lambda>s pk. replicate 32 (of_nat s * hd pk)),
     lib_mlkem_generate = (\<lambda>r. (((), ()), r)),
     lib_mlkem_ek_bytes = (\<lambda>_. replicate 1184 3),
     lib_mlkem_ciphertext = (\<lambda>bs. if length bs = 1088 then Some bs else None),
     lib_mlkem_encapsulate = (\<lambda>_ r. (Some (replicate 1088 5, replicate 32 9), r)),
     lib_mlkem_decapsulate = (\<lambda>_ _. Some (replicate 32 9))\<rparr>"

lemma toy_laws: "lib_lengths toy_lib" "lib_dh_commutes toy_lib" "lib_mlkem_correct toy_lib"
proof -
  show "lib_lengths toy_lib" unfolding lib_lengths_def toy_lib_def by (simp add: layout_values)
  show "lib_dh_commutes toy_lib"
  proof -
    have "hd (replicate 32 x) = (x :: byte)" for x by (simp add: numeral_eq_Suc)
    then show ?thesis unfolding lib_dh_commutes_def toy_lib_def by (simp add: mult.commute)
  qed
  show "lib_mlkem_correct toy_lib" unfolding lib_mlkem_correct_def toy_lib_def by simp
qed

definition toy_key :: "nat \<Rightarrow> (nat, unit) RelayKemSecret" where
  "toy_key s = \<lparr>secret_x25519 = s, secret_mlkem = ()\<rparr>"

definition toy_hop :: "nat \<Rightarrow> unit PathHop" where
  "toy_hop s = \<lparr>hop_id = replicate 32 (of_nat s),
     hop_pk = \<lparr>public_x25519 = replicate 32 (of_nat s), public_mlkem = ()\<rparr>\<rparr>"

definition toy_path :: "unit PathHop list" where
  "toy_path = map toy_hop [1, 2, 3]"

definition toy_packet :: SphinxPacket where
  "toy_packet = projr (fst (build toy_lib toy_path [72, 105] 10))"

lemma toy_hop_id [simp]: "hop_id (toy_hop s) = replicate 32 (of_nat s)"
  by (simp add: toy_hop_def)

lemma toy_key_pair: "key_pair toy_lib (toy_key s) (hop_pk (toy_hop s))"
  unfolding key_pair_def by (rule exI[of _ s]) (simp add: relay_generate_def toy_lib_def toy_key_def toy_hop_def)

lemma toy_build: "\<exists>rng'. build toy_lib toy_path [72, 105] 10 = (Inr toy_packet, rng')"
proof -
  have "\<exists>p rng'. build toy_lib toy_path [72, 105] 10 = (Inr p, rng')"
    by (rule build_ok) (simp_all add: toy_lib_def toy_path_def layout_values)
  then show ?thesis by (auto simp: toy_packet_def)
qed

theorem sphinx_delivers_witness:
  "\<exists>last q. traverse toy_lib toy_packet (map (\<lambda>s. (toy_key s, with_capacity 5)) [1, 2, 3])
      = Inr ([replicate 32 2, replicate 32 3, last], q) \<and> take 2 (drop OFF_DELTA q) = [72, 105]"
proof -
  obtain rng' where b: "build toy_lib toy_path [72, 105] 10 = (Inr toy_packet, rng')"
    using toy_build by blast
  have "\<exists>last q. traverse toy_lib toy_packet (map (\<lambda>s. (toy_key s, with_capacity 5)) [1, 2, 3])
      = Inr (map hop_id (tl toy_path) @ [last], q)
    \<and> wf_packet q \<and> take (length [72, 105 :: byte]) (drop OFF_DELTA q) = [72, 105]"
  proof (rule sphinx_delivers[OF toy_laws _ b])
    fix i assume "i < length toy_path"
    then have "i < length [1, 2, 3 :: nat]" by (simp add: toy_path_def)
    then show "key_pair toy_lib (fst (map (\<lambda>s. (toy_key s, with_capacity 5)) [1, 2, 3] ! i)) (hop_pk (toy_path ! i))
        \<and> fresh_cache (snd (map (\<lambda>s. (toy_key s, with_capacity 5)) [1, 2, 3] ! i))"
      unfolding toy_path_def by (simp only: nth_map fst_conv snd_conv toy_key_pair fresh_with_capacity)
  qed (auto simp: toy_path_def)
  then show ?thesis by (auto simp: toy_path_def numeral_2_eq_2 simp del: traverse.simps)
qed

lemma toy_packet_facts:
  "wf_packet toy_packet"
  "\<exists>r rc'. process toy_lib toy_packet (toy_key 1) (with_capacity 5) = (Inr r, rc')"
proof -
  obtain rng' where b: "build toy_lib toy_path [72, 105] 10 = (Inr toy_packet, rng')"
    using toy_build by blast
  obtain headers secrets B d where p:
    "2 \<le> length toy_path" "length toy_path \<le> MAX_HOPS" "length [72, 105 :: byte] \<le> DELTA_LEN"
    "length headers = length toy_path" "length secrets = length toy_path"
    "\<And>h. h \<in> set headers \<Longrightarrow> wf_header h"
    "\<And>i sk. i < length toy_path \<Longrightarrow> key_pair toy_lib sk (hop_pk (toy_path ! i))
       \<Longrightarrow> decapsulate toy_lib sk (headers ! i) = Inr (secrets ! i)"
    "length B = BETA_LEN" "length d = DELTA_LEN" "take (length [72, 105 :: byte]) d = [72, 105]"
    "toy_packet = packet_view toy_lib headers secrets B d 0"
    by (rule build_Inr[OF toy_laws _ b]) (auto simp: toy_path_def)
  have h: "wf_header (headers ! 0)" using p(4) by (intro p(6) nth_mem) (simp add: toy_path_def)
  have "decapsulate toy_lib (toy_key 1) (headers ! 0) = Inr (secrets ! 0)"
    by (rule p(7)) (simp_all add: toy_path_def toy_key_pair)
  note view = process_view[OF h p(8,9) _ _ this fresh_with_capacity[of 5]]
  have "0 < length secrets" "length secrets \<le> MAX_HOPS" using p(5) by (simp_all add: toy_path_def layout_values)
  from view[OF this] show "\<exists>r rc'. process toy_lib toy_packet (toy_key 1) (with_capacity 5) = (Inr r, rc')"
    unfolding p(11) by (metis prod.collapse zero_less_numeral)
  show "wf_packet toy_packet"
    using h length_onion_view[OF p(8), of 0 toy_lib secrets] length_delta_view[OF p(9), of toy_lib secrets 0]
    by (simp add: p(11) packet_view_def wf_packet_def wf_header_def layout_values)
qed

section \<open>Outcomes, replays and tampering\<close>

lemma process_wf:
  assumes "wf_packet p"
  obtains h b g d where "wf_header h" "length b = BETA_LEN" "length g = GAMMA_LEN" "length d = DELTA_LEN"
    "p = x25519_point h @ mlkem_ct h @ b @ g @ d"
    "\<And>L sk rc e. decapsulate L sk h = Inl e \<Longrightarrow> process L p sk rc = (Inl e, rc)"
proof -
  obtain a b g d where p: "p = a @ b @ g @ d" "length a = ALPHA_LEN" "length b = BETA_LEN"
    "length g = GAMMA_LEN" "length d = DELTA_LEN" using packet_split[OF assms] .
  obtain h where h: "header_read_from a = Inr h" "wf_header h" "x25519_point h @ mlkem_ct h = a"
    using header_read_Inr[of a] p(2) by (auto simp: layout_values)
  have "extract_kem_header p = Inr h"
    unfolding extract_kem_header_def p(1) packet_parts(1)[OF p(2-5)] by (rule h(1))
  then show thesis using h p by (intro that[of h b g d]) (auto simp: process_def)
qed

lemma process_result:
  assumes "wf_packet p"
  shows "(case fst (process L p sk rc) of
      Inr (Forward next_hop p') \<Rightarrow> length next_hop = 32 \<and> wf_packet p'
    | Inr LoopReturned \<Rightarrow> False
    | Inr ProcDrop \<Rightarrow> False
    | Inl e \<Rightarrow> e \<in> {KemError, CryptoMalformed ''ml-kem ct'', IntegrityFailure, ReplayError})
    \<and> (snd (process L p sk rc) = rc
      \<or> (\<exists>h sec. extract_kem_header p = Inr h \<and> decapsulate L sk h = Inr sec \<and> verify_mac L sec p
          \<and> snd (process L p sk rc) = snd (check_and_insert rc (replay_tag L sec))))"
proof -
  obtain h b g d where w: "wf_header h" "length b = BETA_LEN" "length g = GAMMA_LEN" "length d = DELTA_LEN"
    "p = x25519_point h @ mlkem_ct h @ b @ g @ d"
    and err: "\<And>e. decapsulate L sk h = Inl e \<Longrightarrow> process L p sk rc = (Inl e, rc)"
    using process_wf[OF assms] by metis
  have a: "length (x25519_point h @ mlkem_ct h) = ALPHA_LEN"
    using w(1) by (simp add: wf_header_def layout_values)
  note parts = packet_parts[OF a w(2-4)]
  have hdr: "extract_kem_header p = Inr h"
    using parts(1) header_read_write[OF w(1)] by (simp add: extract_kem_header_def w(5))
  show ?thesis
  proof (cases "decapsulate L sk h")
    case (Inl e)
    then have "e \<in> {KemError, CryptoMalformed ''ml-kem ct''}"
      by (auto simp: decapsulate_def Let_def bind_result_def ok_or_def split: sum.splits option.splits)
    then show ?thesis using err[OF Inl] by auto
  next
    case (Inr sec)
    let ?s = "open_slot L sec b"
    have s: "length ?s = ROUTING_SLOT_LEN" using w(2) by simp
    have mac: "verify_mac L sec p \<longleftrightarrow> compute_mac L sec b = g"
      using parts by (simp add: verify_mac_def w(5))
    show ?thesis
      unfolding w(5) process_parts[OF w(1-4) Inr] peel_parts[OF a w(2-4)]
      using s w mac hdr Inr by (auto simp: wf_packet_def layout_values)
  qed
qed

text \<open>C2. Processing is total and size-preserving: on a full-length packet \<open>process\<close> either
  forwards a packet of the same length to a 32-byte id, or returns an error; it never returns the
  loop or drop variants, and the replay cache is touched only after the MAC has been verified.\<close>

theorem process_outcome:
  assumes "wf_packet p"
  shows "(case fst (process L p sk rc) of
      Inr (Forward next_hop p') \<Rightarrow> length next_hop = 32 \<and> wf_packet p'
    | Inr LoopReturned \<Rightarrow> False
    | Inr ProcDrop \<Rightarrow> False
    | Inl e \<Rightarrow> e \<in> {KemError, CryptoMalformed ''ml-kem ct'', IntegrityFailure, ReplayError})
    \<and> (snd (process L p sk rc) = rc
      \<or> (\<exists>h sec. extract_kem_header p = Inr h \<and> decapsulate L sk h = Inr sec \<and> verify_mac L sec p
          \<and> snd (process L p sk rc) = snd (check_and_insert rc (replay_tag L sec))))"
  using process_result[OF assms] .

theorem process_outcome_witness:
  "fst (process toy_lib toy_packet (toy_key 4) (with_capacity 5)) \<noteq> Inr ProcDrop"
  using process_outcome[OF toy_packet_facts(1), of toy_lib "toy_key 4" "with_capacity 5"] by auto

text \<open>What \<open>process\<close> does to the cache is one offer of the packet's tag, or nothing.\<close>

lemma process_cache:
  "snd (process L p sk rc) = rc \<or> (\<exists>t. snd (process L p sk rc) = snd (check_and_insert rc t))"
  by (auto simp: process_def Let_def case_prod_beta split: sum.splits)

lemma process_accepted_tag:
  assumes "process L p sk rc = (Inr r, rc')"
  obtains h sec where "extract_kem_header p = Inr h" "decapsulate L sk h = Inr sec" "verify_mac L sec p"
    "rc' = snd (check_and_insert rc (replay_tag L sec))"
  using assms by (auto simp: process_def Let_def split: sum.splits if_splits prod.splits)

text \<open>The cache of a mix after it has processed the packets \<open>qs\<close>, whatever came out of each.\<close>

definition cache_after ::
    "('xs, 'ms, 'mp, 'r) crypto_lib \<Rightarrow> ('xs, 'ms) RelayKemSecret \<Rightarrow> ReplayCache \<Rightarrow> SphinxPacket list \<Rightarrow> ReplayCache" where
  "cache_after L sk rc qs = fold (\<lambda>q c. snd (process L q sk c)) qs rc"

lemma replay_keeps_mono: "replay_keeps c n \<Longrightarrow> m \<le> n \<Longrightarrow> replay_keeps c m"
  by (simp add: replay_keeps_def)

lemma cache_after_holds:
  assumes "replay_inv c" "t \<in> seen c" "qs = [] \<or> replay_keeps c (length qs)"
  shows "replay_inv (cache_after L sk c qs) \<and> t \<in> seen (cache_after L sk c qs)"
  using assms
proof (induction qs arbitrary: c)
  case Nil
  then show ?case by (simp add: cache_after_def)
next
  case (Cons q qs)
  let ?c = "snd (process L q sk c)"
  have k: "replay_keeps c (Suc (length qs))" using Cons.prems(3) by simp
  have "replay_inv ?c \<and> t \<in> seen ?c \<and> replay_keeps ?c (length qs)"
    using process_cache[of L q sk c]
  proof
    assume "?c = c"
    with Cons.prems(1,2) replay_keeps_mono[OF k, of "length qs"] show ?thesis by simp
  next
    assume "\<exists>u. ?c = snd (check_and_insert c u)"
    then obtain u where u: "?c = snd (check_and_insert c u)" by blast
    show ?thesis unfolding u
      using rc.offer_inv[OF Cons.prems(1), of u] rc.keeps_holds[OF Cons.prems(1) k, of t u]
        rc.keeps_step[OF Cons.prems(1) k, of u] Cons.prems(2) by blast
  qed
  with Cons.IH[of ?c] show ?case by (simp add: cache_after_def)
qed

text \<open>C3. Replays: once a mix has accepted a packet, the same packet is refused with a replay
  error, and the cache does not change, when it comes back immediately, and also after any other
  packets in between, accepted or not, as long as they are no more than the room that the
  acceptance left in the replay window (the capacity below 1024 entries, else the fill
  threshold: 850 000 tags in the default cache). Beyond the window the cache forgets.\<close>

theorem sphinx_replay_rejected:
  assumes "replay_reachable cap rc" "0 < cap" "process L p sk rc = (Inr r, rc')"
    and "qs = [] \<or> replay_len rc' + length qs \<le> replay_window rc'"
  shows "process L p sk (cache_after L sk rc' qs) = (Inl ReplayError, cache_after L sk rc' qs)"
proof -
  obtain h sec where h: "extract_kem_header p = Inr h" "decapsulate L sk h = Inr sec" "verify_mac L sec p"
      "rc' = snd (check_and_insert rc (replay_tag L sec))"
    using process_accepted_tag[OF assms(3)] .
  have inv: "replay_inv rc" using reachable_inv[OF assms(1,2)] by blast
  have "replay_inv rc'" "replay_tag L sec \<in> seen rc'"
    using rc.offer_inv[OF inv] rc.offer_holds[OF inv] by (simp_all add: h(4))
  from cache_after_holds[OF this, of qs L sk] assms(4)
  have "check_and_insert (cache_after L sk rc' qs) (replay_tag L sec) = (False, cache_after L sk rc' qs)"
    using rc.offer_known by (auto simp: replay_keeps_def)
  then show ?thesis using h by (simp add: process_def)
qed

theorem sphinx_replay_rejected_witness:
  "process toy_lib toy_packet (toy_key 1)
     (cache_after toy_lib (toy_key 1) (snd (process toy_lib toy_packet (toy_key 1) (with_capacity 5)))
        [toy_packet, tamper_beta_byte toy_packet 3])
    = (Inl ReplayError,
       cache_after toy_lib (toy_key 1) (snd (process toy_lib toy_packet (toy_key 1) (with_capacity 5)))
        [toy_packet, tamper_beta_byte toy_packet 3])"
proof -
  obtain r rc' where p: "process toy_lib toy_packet (toy_key 1) (with_capacity 5) = (Inr r, rc')"
    using toy_packet_facts(2) by blast
  obtain t where t: "rc' = snd (check_and_insert (with_capacity 5) t)"
    using process_accepted_tag[OF p] by metis
  have "replay_len rc' \<le> 1 \<and> replay_window rc' = 5"
    unfolding t by (simp add: check_and_insert_def with_capacity_def insert_tag_def replay_len_def
        ct_contains_take replay_window_def MIN_CAPACITY_FOR_PRESSURE_ADVANCE_def)
  from sphinx_replay_rejected[OF reach_new _ p, of "[toy_packet, tamper_beta_byte toy_packet 3]"] this p
  show ?thesis by simp
qed

text \<open>C4. Tampering: if a mix accepts a packet and also the packet with one byte of beta changed,
  then the digest maps the two MAC inputs, under the packet's own secret, to one value although they differ: the accepted
  change is a collision of SHA3-256 at inputs that the two packets exhibit.\<close>

theorem accepted_tamper_is_collision:
  assumes "wf_packet p" "offset < BETA_LEN"
    and "process L p sk rc = (Inr r, rc')"
    and "process L (tamper_beta_byte p offset) sk rc2 = (Inr r2, rc2')"
  shows "\<exists>h secret. extract_kem_header p = Inr h \<and> decapsulate L sk h = Inr secret
    \<and> beta_slice p \<noteq> beta_slice (tamper_beta_byte p offset)
    \<and> digest32 L (MAC_DOMAIN @ secret @ beta_slice p) = digest32 L (MAC_DOMAIN @ secret @ beta_slice (tamper_beta_byte p offset))"
proof -
  let ?t = "tamper_beta_byte p offset"
  have len: "length p = 8512" using assms(1) by (simp add: wf_packet_def layout_values)
  obtain h sec where h: "extract_kem_header p = Inr h" "decapsulate L sk h = Inr sec" "verify_mac L sec p"
    using assms(3) by (auto simp: process_def split: sum.splits if_splits)
  obtain h2 sec2 where h2: "extract_kem_header ?t = Inr h2" "decapsulate L sk h2 = Inr sec2" "verify_mac L sec2 ?t"
    using assms(4) by (auto simp: process_def split: sum.splits if_splits)
  have "slice OFF_ALPHA ALPHA_LEN ?t = slice OFF_ALPHA ALPHA_LEN p"
    by (simp add: tamper_beta_byte_def slice_def layout_values)
  then have "sec2 = sec" using h h2 by (simp add: extract_kem_header_def)
  moreover have "slice OFF_GAMMA GAMMA_LEN ?t = slice OFF_GAMMA GAMMA_LEN p"
    using assms(2) by (simp add: tamper_beta_byte_def slice_def layout_values drop_update_cancel)
  ultimately have "compute_mac L sec (beta_slice p) = compute_mac L sec (beta_slice ?t)"
    using h(3) h2(3) by (simp add: verify_mac_def)
  then have "digest32 L (MAC_DOMAIN @ sec @ beta_slice p) = digest32 L (MAC_DOMAIN @ sec @ beta_slice ?t)"
    by (simp add: compute_mac_def)
  moreover have "beta_slice p \<noteq> beta_slice ?t"
  proof
    assume "beta_slice p = beta_slice ?t"
    then have "beta_slice p ! offset = beta_slice ?t ! offset" by simp
    then have "p ! (1120 + offset) = xor (p ! (1120 + offset)) 1"
      using assms(2) len by (simp add: beta_slice_def slice_nth tamper_beta_byte_def layout_values)
    then have "xor (p ! (1120 + offset)) (p ! (1120 + offset)) = (1::byte)"
      by (metis xor.assoc xor.left_neutral xor_self_eq)
    then show False by simp
  qed
  ultimately show ?thesis using h(1,2) by blast
qed

text \<open>A library whose digest is constant accepts the changed packet.\<close>

definition weak_lib :: "(nat, unit, unit, nat) crypto_lib" where
  "weak_lib = toy_lib\<lparr>lib_sha3_256 := \<lambda>_. replicate 32 0\<rparr>"

definition zero_packet :: SphinxPacket where
  "zero_packet = replicate SPHINX_PACKET_LEN 0"

lemma weak_accepts:
  assumes "length b = BETA_LEN"
  shows "\<exists>r rc'. process weak_lib (replicate 32 0 @ replicate 1088 0 @ b @ replicate 32 0 @ replicate 256 0)
    (toy_key 1) (with_capacity 5) = (Inr r, rc')"
proof -
  let ?h = "\<lparr>x25519_point = replicate 32 0, mlkem_ct = replicate 1088 0\<rparr>"
  have h: "wf_header ?h" by (simp add: wf_header_def layout_values)
  obtain sec where dec: "decapsulate weak_lib (toy_key 1) ?h = Inr sec"
    by (simp add: decapsulate_def weak_lib_def toy_lib_def Let_def)
  have mac: "compute_mac weak_lib sec b = replicate 32 0"
    by (simp add: compute_mac_def digest32_def weak_lib_def)
  have g: "length (replicate 32 (0::byte)) = GAMMA_LEN" and d: "length (replicate 256 (0::byte)) = DELTA_LEN"
    by (simp_all add: layout_values)
  have a: "length (x25519_point ?h @ mlkem_ct ?h) = ALPHA_LEN" by (simp add: layout_values)
  show ?thesis
    using process_parts[OF h assms g d dec] mac fresh_cache_accepts[OF fresh_with_capacity[of 5]]
      peel_parts[OF a assms g d, where L = weak_lib and sec = sec]
    by simp
qed

theorem accepted_tamper_is_collision_witness:
  "\<exists>h secret. extract_kem_header zero_packet = Inr h \<and> decapsulate weak_lib (toy_key 1) h = Inr secret
    \<and> beta_slice zero_packet \<noteq> beta_slice (tamper_beta_byte zero_packet 3)
    \<and> digest32 weak_lib (MAC_DOMAIN @ secret @ beta_slice zero_packet) = digest32 weak_lib (MAC_DOMAIN @ secret @ beta_slice (tamper_beta_byte zero_packet 3))"
proof -
  have z: "zero_packet = replicate 32 0 @ replicate 1088 0 @ replicate 7104 0 @ replicate 32 0 @ replicate 256 0"
    by (simp add: zero_packet_def layout_values replicate_add[symmetric])
  have t: "tamper_beta_byte zero_packet 3
      = replicate 32 0 @ replicate 1088 0 @ (replicate 7104 0)[3 := 1] @ replicate 32 0 @ replicate 256 0"
    unfolding z by (simp add: tamper_beta_byte_def layout_values list_update_append nth_append)
  have wf: "wf_packet zero_packet" by (simp add: wf_packet_def zero_packet_def)
  have off: "3 < BETA_LEN" by (simp add: layout_values)
  obtain r rc where p: "process weak_lib zero_packet (toy_key 1) (with_capacity 5) = (Inr r, rc)"
    using weak_accepts[of "replicate 7104 0"] unfolding z by (auto simp: layout_values)
  obtain r2 rc2 where p2: "process weak_lib (tamper_beta_byte zero_packet 3) (toy_key 1) (with_capacity 5) = (Inr r2, rc2)"
    using weak_accepts[of "(replicate 7104 0)[3 := 1]"] unfolding t by (auto simp: layout_values)
  show ?thesis by (rule accepted_tamper_is_collision[OF wf off p p2])
qed

end
