(* ===== verification/Text_Codec.thy ===== *)
theory Text_Codec
  imports Aegis_Prelude "HOL-Library.Char_ord"
begin

text \<open>
  The text formats of the Rust standard library that the code uses: \<open>format!("{b:02x}")\<close>,
  \<open>u8::from_str_radix(_, 16)\<close>, \<open>u64::to_string\<close>, \<open>str::parse::<u64>\<close> and \<open>str::trim\<close>.
  A Rust string is a list of characters below 128: the formats are ASCII, and the Unicode
  white space that \<open>trim\<close> also removes lies outside the model.
\<close>

section \<open>Digits\<close>

definition hex_digit :: "nat \<Rightarrow> char" where
  "hex_digit n = ''0123456789abcdef'' ! n"

definition hex_byte :: "byte \<Rightarrow> string" where
  "hex_byte b = [hex_digit (unat b div 16), hex_digit (unat b mod 16)]"

definition digit_value :: "char \<Rightarrow> nat option" where
  "digit_value c = (let n = of_char c :: nat in
     if 48 \<le> n \<and> n \<le> 57 then Some (n - 48)
     else if 97 \<le> n \<and> n \<le> 102 then Some (n - 97 + 10)
     else if 65 \<le> n \<and> n \<le> 70 then Some (n - 65 + 10)
     else None)"

lemma less_16_cases: "n < 16 \<Longrightarrow> n \<in> {0, 1, 2, 3, 4, 5, 6, 7, 8, 9, 10, 11, 12, 13, 14, 15 :: nat}"
  by simp presburger

lemma digit_value_hex_digit [simp]: "n < 16 \<Longrightarrow> digit_value (hex_digit n) = Some n"
  by (drule less_16_cases) (auto simp: hex_digit_def digit_value_def numeral_eq_Suc)

lemma digit_value_bound: "digit_value c = Some n \<Longrightarrow> n < 16"
  by (auto simp: digit_value_def Let_def split: if_splits)

text \<open>The only spellings of a digit: its lower case and its upper case form.\<close>

lemma hex_digit_inj: "m < 16 \<Longrightarrow> n < 16 \<Longrightarrow> hex_digit m = hex_digit n \<longleftrightarrow> m = n"
  by (metis digit_value_hex_digit option.inject)

lemma unat_byte_bound [simp]: "unat (b :: byte) < 256"
  using unsigned_less[of b, where ?'a = nat] by simp

lemma hex_byte_inj: "hex_byte a = hex_byte b \<longleftrightarrow> a = b"
proof
  assume "hex_byte a = hex_byte b"
  then have "unat a div 16 = unat b div 16" "unat a mod 16 = unat b mod 16"
    by (simp_all add: hex_byte_def hex_digit_inj div_less_iff_less_mult)
  then have "unat a = unat b" by (metis div_mult_mod_eq)
  then show "a = b" by (simp add: word_unat_eq_iff)
qed simp

lemma length_hex_byte [simp, len_simps]: "length (hex_byte b) = 2"
  by (simp add: hex_byte_def)

lemma hex_byte_nonempty [simp]: "hex_byte b \<noteq> []"
  by (simp add: hex_byte_def)

definition hex_encode :: "bytes \<Rightarrow> string" where
  "hex_encode bs = concat (map hex_byte bs)"

lemma length_hex_encode [simp, len_simps]: "length (hex_encode bs) = 2 * length bs"
  by (induction bs) (simp_all add: hex_encode_def)

lemma hex_encode_inj: "hex_encode a = hex_encode b \<longleftrightarrow> a = b"
proof (induction a arbitrary: b)
  case Nil
  have "hex_encode [] = hex_encode b \<Longrightarrow> b = []"
    by (cases b) (simp_all add: hex_encode_def)
  then show ?case by blast
next
  case (Cons x a)
  show ?case
  proof (cases b)
    case Nil
    then show ?thesis by (simp add: hex_encode_def)
  next
    case (Cons y b')
    have "hex_encode (x # a) = hex_encode (y # b') \<longleftrightarrow> hex_byte x = hex_byte y \<and> hex_encode a = hex_encode b'"
      by (simp add: hex_encode_def)
    then show ?thesis by (simp add: Cons Cons.IH hex_byte_inj)
  qed
qed

text \<open>The hand-written nibble parsers of the trust crate, and their loop over two-character chunks.\<close>

definition hex_nibble :: "char \<Rightarrow> byte option" where
  "hex_nibble c = (let b = of_char c :: nat in
     if 48 \<le> b \<and> b \<le> 57 then Some (of_nat (b - 48))
     else if 97 \<le> b \<and> b \<le> 102 then Some (of_nat (b - 97 + 10))
     else if 65 \<le> b \<and> b \<le> 70 then Some (of_nat (b - 65 + 10))
     else None)"

fun parse_chunks :: "string \<Rightarrow> bytes option" where
  "parse_chunks (c1 # c2 # cs) =
     (case hex_nibble c1 of None \<Rightarrow> None | Some hi \<Rightarrow>
      case hex_nibble c2 of None \<Rightarrow> None | Some lo \<Rightarrow>
      map_option (\<lambda>out. (or (push_bit 4 hi) lo) # out) (parse_chunks cs))"
| "parse_chunks [] = Some []"
| "parse_chunks [c] = None"

lemma hex_nibble_digit: "hex_nibble c = map_option of_nat (digit_value c)"
  by (simp add: hex_nibble_def digit_value_def Let_def)

lemma nibbles_join: "or (push_bit 4 (of_nat (unat b div 16))) (of_nat (unat b mod 16)) = (b :: byte)"
proof (rule bit_word_eqI)
  fix n assume n: "n < LENGTH(8)"
  have hi: "(of_nat (unat b div 16) :: byte) = drop_bit 4 b"
    by (simp add: drop_bit_eq_div word_arith_nat_div)
  have lo: "(of_nat (unat b mod 16) :: byte) = take_bit 4 b"
    by (simp add: take_bit_eq_mod word_arith_nat_mod)
  show "bit (or (push_bit 4 (of_nat (unat b div 16))) (of_nat (unat b mod 16) :: byte)) n = bit b n"
    unfolding hi lo using n
    by (auto simp: bit_or_iff bit_push_bit_iff bit_drop_bit_eq bit_take_bit_iff)
qed

lemma parse_chunks_encode: "parse_chunks (hex_encode bs) = Some bs"
proof (induction bs)
  case Nil
  then show ?case by (simp add: hex_encode_def)
next
  case (Cons b bs)
  have "parse_chunks (hex_digit (unat b div 16) # hex_digit (unat b mod 16) # hex_encode bs) = Some (b # bs)"
    using Cons.IH by (simp add: hex_nibble_digit div_less_iff_less_mult nibbles_join)
  then show ?case by (simp add: hex_encode_def hex_byte_def)
qed

section \<open>White space\<close>

definition is_whitespace :: "char \<Rightarrow> bool" where
  "is_whitespace c = (let n = of_char c :: nat in n = 32 \<or> (9 \<le> n \<and> n \<le> 13))"

definition trim :: "string \<Rightarrow> string" where
  "trim s = rev (dropWhile is_whitespace (rev (dropWhile is_whitespace s)))"

lemma dropWhile_none: "(\<forall>c \<in> set s. \<not> P c) \<Longrightarrow> dropWhile P s = s"
  by (cases s) auto

lemma trim_id: "(\<forall>c \<in> set s. \<not> is_whitespace c) \<Longrightarrow> trim s = s"
  by (simp add: trim_def dropWhile_none)

lemma hex_digit_no_space: "n < 16 \<Longrightarrow> \<not> is_whitespace (hex_digit n)"
  by (drule less_16_cases) (auto simp: hex_digit_def is_whitespace_def numeral_eq_Suc)

lemma hex_encode_no_space: "c \<in> set (hex_encode bs) \<Longrightarrow> \<not> is_whitespace c"
  by (auto simp: hex_encode_def hex_byte_def hex_digit_no_space div_less_iff_less_mult)

lemma trim_hex_encode [simp]: "trim (hex_encode bs) = hex_encode bs"
  using hex_encode_no_space by (blast intro: trim_id)

section \<open>Decimal numbers\<close>

fun dec_string :: "nat \<Rightarrow> string" where
  "dec_string n = (if n < 10 then [hex_digit n] else dec_string (n div 10) @ [hex_digit (n mod 10)])"

declare dec_string.simps [simp del]

text \<open>\<open>u64::to_string\<close>\<close>

definition u64_to_string :: "u64 \<Rightarrow> string" where
  "u64_to_string w = dec_string (unat w)"

definition dec_value :: "char \<Rightarrow> nat option" where
  "dec_value c = (let n = of_char c :: nat in if 48 \<le> n \<and> n \<le> 57 then Some (n - 48) else None)"

text \<open>
  \<open>str::parse::<u64>\<close>: an optional plus sign, then at least one digit, leading zeros allowed,
  and no overflow.
\<close>

fun dec_digits :: "nat \<Rightarrow> string \<Rightarrow> nat option" where
  "dec_digits acc [] = Some acc"
| "dec_digits acc (c # cs) = (case dec_value c of None \<Rightarrow> None | Some d \<Rightarrow> dec_digits (acc * 10 + d) cs)"

definition parse_u64 :: "string \<Rightarrow> u64 option" where
  "parse_u64 s =
     (let ds = (case s of c # cs \<Rightarrow> if c = CHR ''+'' then cs else s | [] \<Rightarrow> s) in
      if ds = [] then None
      else case dec_digits 0 ds of
        None \<Rightarrow> None
      | Some n \<Rightarrow> if n < 2 ^ 64 then Some (of_nat n) else None)"

lemma dec_value_hex_digit [simp]: "n < 10 \<Longrightarrow> dec_value (hex_digit n) = Some n"
proof -
  assume "n < 10"
  then have "n \<in> {0, 1, 2, 3, 4, 5, 6, 7, 8, 9 :: nat}" by simp presburger
  then show ?thesis by (auto simp: hex_digit_def dec_value_def numeral_eq_Suc)
qed

lemma dec_digits_append:
  "dec_digits acc (s @ t) = (case dec_digits acc s of None \<Rightarrow> None | Some a \<Rightarrow> dec_digits a t)"
  by (induction acc s rule: dec_digits.induct) (auto split: option.splits)

lemma dec_digits_string: "dec_digits 0 (dec_string n) = Some n"
proof (induction n rule: dec_string.induct)
  case (1 n)
  show ?case
  proof (cases "n < 10")
    case True
    then show ?thesis by (simp add: dec_string.simps)
  next
    case False
    then show ?thesis using 1 by (subst dec_string.simps) (simp add: dec_digits_append)
  qed
qed

lemma dec_string_head: "\<exists>c cs. dec_string n = c # cs \<and> c \<noteq> CHR ''+''"
proof (induction n rule: dec_string.induct)
  case (1 n)
  have plus: "hex_digit n \<noteq> CHR ''+''" if "n < 10" for n
  proof
    assume "hex_digit n = CHR ''+''"
    then have "dec_value (CHR ''+'') = Some n" using dec_value_hex_digit[OF that] by simp
    then show False by (simp add: dec_value_def)
  qed
  show ?case
  proof (cases "n < 10")
    case True
    then show ?thesis using plus by (simp add: dec_string.simps)
  next
    case False
    then show ?thesis using 1 by (subst dec_string.simps) auto
  qed
qed

lemma parse_u64_to_string [simp]: "parse_u64 (u64_to_string w) = Some w"
proof -
  have "unat w < 2 ^ 64" using unsigned_less[of w, where ?'a = nat] by simp
  then show ?thesis
    using dec_digits_string[of "unat w"] dec_string_head[of "unat w"]
    by (auto simp: parse_u64_def u64_to_string_def)
qed

lemma u64_to_string_inj: "u64_to_string a = u64_to_string b \<longleftrightarrow> a = b"
  by (metis parse_u64_to_string option.inject)

section \<open>Case\<close>

text \<open>\<open>to_ascii_lowercase\<close>, character by character.\<close>

definition ascii_lower :: "char \<Rightarrow> char" where
  "ascii_lower c = (let n = of_char c :: nat in if 65 \<le> n \<and> n \<le> 90 then char_of (n + 32) else c)"

end
