(* ===== verification/Assoc_Lists.thy ===== *)
theory Assoc_Lists
  imports Aegis_Prelude "HOL-Library.AList"
begin

text \<open>
  Lemmas about association lists: a \<open>HashMap\<close> of the code is modelled as the list of its entries in
  iteration order, \<open>insert\<close> as \<open>AList.update\<close> and \<open>remove\<close> as \<open>AList.delete\<close>.
\<close>

section \<open>One update\<close>

lemma set_alist_update: "(k, v) \<in> set (AList.update a b xs) \<Longrightarrow> (k = a \<and> v = b) \<or> (k, v) \<in> set xs"
  by (induction xs) (auto split: if_splits)

lemma set_alist_update': "x \<in> set (AList.update a b xs) \<Longrightarrow> x = (a, b) \<or> x \<in> set xs"
  by (cases x) (auto dest: set_alist_update)

lemma set_alist_delete: "x \<in> set (AList.delete a xs) \<Longrightarrow> x \<in> set xs"
  by (induction xs) (auto split: if_splits)

lemma alist_update_same: "map_of us e = Some v \<Longrightarrow> AList.update e v us = us"
  by (induction us) (auto split: if_splits)

lemma alist_update_new: "a \<notin> fst ` set xs \<Longrightarrow> AList.update a b xs = xs @ [(a, b)]"
  by (induction xs) auto

section \<open>Maps built by inserting in a loop\<close>

lemma map_of_fold_update:
  "map_of (fold (\<lambda>pk m. AList.update (f pk) pk m) ks m) i = Some v
    \<Longrightarrow> (v \<in> set ks \<and> f v = i) \<or> map_of m i = Some v"
proof (induction ks arbitrary: m)
  case (Cons k ks)
  from Cons.IH[of "AList.update (f k) k m"] Cons.prems show ?case
    by (auto simp: update_conv' split: if_splits)
qed simp

lemma fst_fold_update:
  "fst ` set (fold (\<lambda>pk m. AList.update (f pk) pk m) ks m) = fst ` set m \<union> f ` set ks"
  by (induction ks arbitrary: m) (auto simp: dom_update)

lemma distinct_fold_update:
  "distinct (map fst m) \<Longrightarrow> distinct (map fst (fold (\<lambda>pk m. AList.update (f pk) pk m) ks m))"
  by (induction ks arbitrary: m) (simp_all add: distinct_update)

lemma fold_update_new:
  "distinct (map fst m @ map f es) \<Longrightarrow> fold (\<lambda>e. AList.update (f e) e) es m = m @ map (\<lambda>e. (f e, e)) es"
proof (induction es arbitrary: m)
  case (Cons e es)
  have "f e \<notin> fst ` set m" using Cons.prems by auto
  then show ?case using Cons.IH[of "m @ [(f e, e)]"] Cons.prems by (simp add: alist_update_new)
qed simp

end
