(* ===== verification/Nullifier.thy ===== *)
theory Nullifier
  imports Filter_Interfaces Text_Codec Assoc_Lists "HOL-Library.Multiset"
begin

text \<open>
  \<^verbatim>\<open>crates/aegis-trust/src/nullifier.rs\<close>: the registry of spent reputation nullifiers.
  A \<open>HashMap\<close> or \<open>HashSet\<close> is a list in the order an iteration visits it, so that what is proved
  for every list holds for every iteration order. The registry file is modelled as the value
  that is serialised: JSON (serde) and the file system are outside the model.
\<close>

type_synonym ReputationNullifier = bytes

datatype NullifierError =
    AlreadyUsed u64
  | MergeConflict u64 string
  | NullifierIo
  | NullifierJson
  | UnsupportedVersion u32
  | InvalidNullifierHex string

definition REGISTRY_FILE_VERSION :: u32 where
  "REGISTRY_FILE_VERSION = 1"

record NullifierRegistryFile =
  file_version :: u32
  file_epochs :: "(string \<times> string list) list"

record NullifierRegistry =
  used :: "(u64 \<times> ReputationNullifier list) list"

record NullifierMergeReport =
  added :: nat
  already_present :: nat

definition registry_new :: NullifierRegistry where
  "registry_new = \<lparr>used = []\<rparr>"

definition is_spent :: "NullifierRegistry \<Rightarrow> u64 \<Rightarrow> ReputationNullifier \<Rightarrow> bool" where
  "is_spent r epoch nullifier =
     (case map_of (used r) epoch of None \<Rightarrow> False | Some ns \<Rightarrow> nullifier \<in> set ns)"

definition epoch_len :: "NullifierRegistry \<Rightarrow> u64 \<Rightarrow> nat" where
  "epoch_len r epoch = (case map_of (used r) epoch of None \<Rightarrow> 0 | Some ns \<Rightarrow> length ns)"

definition registry_len :: "NullifierRegistry \<Rightarrow> nat" where
  "registry_len r = sum_list (map (\<lambda>(e, ns). length ns) (used r))"

definition registry_is_empty :: "NullifierRegistry \<Rightarrow> bool" where
  "registry_is_empty r \<longleftrightarrow> registry_len r = 0"

definition try_register ::
    "NullifierRegistry \<Rightarrow> u64 \<Rightarrow> ReputationNullifier \<Rightarrow> (NullifierError, unit) result \<times> NullifierRegistry" where
  "try_register r epoch nullifier =
     (let ns = (case map_of (used r) epoch of None \<Rightarrow> [] | Some ns \<Rightarrow> ns) in
      if nullifier \<in> set ns
      then (Inl (AlreadyUsed epoch), r\<lparr>used := AList.update epoch ns (used r)\<rparr>)
      else (Inr (), r\<lparr>used := AList.update epoch (nullifier # ns) (used r)\<rparr>))"

definition forget_epoch :: "NullifierRegistry \<Rightarrow> u64 \<Rightarrow> NullifierRegistry" where
  "forget_epoch r epoch = r\<lparr>used := AList.delete epoch (used r)\<rparr>"

section \<open>Files\<close>

definition export_registry :: "NullifierRegistry \<Rightarrow> NullifierRegistryFile" where
  "export_registry r =
     \<lparr>file_version = REGISTRY_FILE_VERSION,
      file_epochs = map (\<lambda>(epoch, ns). (u64_to_string epoch, sort (map hex_encode ns))) (used r)\<rparr>"

definition parse_hex_32 :: "string \<Rightarrow> (NullifierError, bytes) result" where
  "parse_hex_32 s =
     (let s = trim s in
      if length s \<noteq> 64 then Inl (InvalidNullifierHex s)
      else ok_or (parse_chunks s) (InvalidNullifierHex s))"

fun load_hexes :: "u64 \<Rightarrow> string list \<Rightarrow> ReputationNullifier list
      \<Rightarrow> (NullifierError, ReputationNullifier list) result" where
  "load_hexes epoch [] ns = Inr ns"
| "load_hexes epoch (hex # hexes) ns =
     bind_result (parse_hex_32 hex) (\<lambda>parsed.
       if parsed \<in> set ns then Inl (MergeConflict epoch hex)
       else load_hexes epoch hexes (parsed # ns))"

fun load_epochs :: "(string \<times> string list) list \<Rightarrow> (u64 \<times> ReputationNullifier list) list
      \<Rightarrow> (NullifierError, (u64 \<times> ReputationNullifier list) list) result" where
  "load_epochs [] us = Inr us"
| "load_epochs ((epoch_str, hexes) # rest) us =
     bind_result (ok_or (parse_u64 epoch_str) (InvalidNullifierHex epoch_str)) (\<lambda>epoch.
     bind_result (load_hexes epoch hexes []) (\<lambda>ns.
     load_epochs rest (AList.update epoch ns us)))"

definition load_registry :: "NullifierRegistryFile \<Rightarrow> (NullifierError, NullifierRegistry) result" where
  "load_registry file =
     (if file_version file \<noteq> REGISTRY_FILE_VERSION then Inl (UnsupportedVersion (file_version file))
      else bind_result (load_epochs (file_epochs file) []) (\<lambda>us. Inr \<lparr>used = us\<rparr>))"

section \<open>Merging\<close>

fun merge_set :: "u64 \<Rightarrow> ReputationNullifier list \<Rightarrow> NullifierMergeReport \<Rightarrow> NullifierRegistry
      \<Rightarrow> (NullifierError, NullifierMergeReport) result \<times> NullifierRegistry" where
  "merge_set epoch [] report r = (Inr report, r)"
| "merge_set epoch (nullifier # ns) report r =
     (if is_spent r epoch nullifier
      then merge_set epoch ns (report\<lparr>already_present := already_present report + 1\<rparr>) r
      else case try_register r epoch nullifier of
        (Inl e, r) \<Rightarrow> (Inl e, r)
      | (Inr _, r) \<Rightarrow> merge_set epoch ns (report\<lparr>added := added report + 1\<rparr>) r)"

fun merge_epochs :: "(u64 \<times> ReputationNullifier list) list \<Rightarrow> NullifierMergeReport \<Rightarrow> NullifierRegistry
      \<Rightarrow> (NullifierError, NullifierMergeReport) result \<times> NullifierRegistry" where
  "merge_epochs [] report r = (Inr report, r)"
| "merge_epochs ((epoch, ns) # rest) report r =
     (case merge_set epoch ns report r of
        (Inl e, r) \<Rightarrow> (Inl e, r)
      | (Inr report, r) \<Rightarrow> merge_epochs rest report r)"

definition registry_merge :: "NullifierRegistry \<Rightarrow> NullifierRegistry
      \<Rightarrow> (NullifierError, NullifierMergeReport) result \<times> NullifierRegistry" where
  "registry_merge r other = merge_epochs (used other) \<lparr>added = 0, already_present = 0\<rparr> r"

definition merge_from_file :: "NullifierRegistry \<Rightarrow> NullifierRegistryFile
      \<Rightarrow> (NullifierError, NullifierMergeReport) result \<times> NullifierRegistry" where
  "merge_from_file r file =
     (case load_registry file of Inl e \<Rightarrow> (Inl e, r) | Inr other \<Rightarrow> registry_merge r other)"

section \<open>Consistency and the spent set\<close>

text \<open>A \<open>HashMap\<close> has one entry per key, a \<open>HashSet\<close> no duplicates.\<close>

definition registry_wf :: "NullifierRegistry \<Rightarrow> bool" where
  "registry_wf r \<longleftrightarrow> distinct (map fst (used r)) \<and> (\<forall>(e, ns) \<in> set (used r). distinct ns)"

text \<open>The type \<open>[u8; 32]\<close> of a nullifier.\<close>

definition nullifiers_32 :: "NullifierRegistry \<Rightarrow> bool" where
  "nullifiers_32 r \<longleftrightarrow> (\<forall>(e, ns) \<in> set (used r). \<forall>n \<in> set ns. length n = 32)"

definition spends :: "NullifierRegistry \<Rightarrow> (u64 \<times> ReputationNullifier) list" where
  "spends r = concat (map (\<lambda>(e, ns). map (Pair e) ns) (used r))"

lemma spends_length: "length (spends r) = registry_len r"
proof -
  have "length (concat (map (\<lambda>(e, ns). map (Pair e) ns) us)) = sum_list (map (\<lambda>(e, ns). length ns) us)"
    for us :: "(u64 \<times> bytes list) list"
    by (induction us) auto
  then show ?thesis by (simp add: spends_def registry_len_def)
qed

lemma is_spent_iff:
  "registry_wf r \<Longrightarrow> is_spent r e n \<longleftrightarrow> (\<exists>ns. (e, ns) \<in> set (used r) \<and> n \<in> set ns)"
  by (auto simp: is_spent_def registry_wf_def split: option.splits dest: map_of_SomeD)
     (metis map_of_eq_Some_iff option.inject)

lemma set_spends: "registry_wf r \<Longrightarrow> set (spends r) = {(e, n). is_spent r e n}"
  by (auto simp: spends_def is_spent_iff)

lemma distinct_spends: "registry_wf r \<Longrightarrow> distinct (spends r)"
proof -
  have "distinct (concat (map (\<lambda>(e, ns). map (Pair e) ns) us))"
    if "distinct (map fst us)" "\<forall>(e, ns) \<in> set us. distinct ns" for us :: "(u64 \<times> bytes list) list"
    using that by (induction us) (auto simp: distinct_map inj_on_def image_iff)
  then show "registry_wf r \<Longrightarrow> distinct (spends r)" by (auto simp: spends_def registry_wf_def)
qed

lemma registry_wf_new [simp]: "registry_wf registry_new"
  by (simp add: registry_wf_def registry_new_def)

lemma registry_wf_update:
  "registry_wf r \<Longrightarrow> distinct ns \<Longrightarrow> registry_wf (r\<lparr>used := AList.update e ns (used r)\<rparr>)"
  using set_alist_update[of _ _ e ns "used r"]
  by (fastforce simp: registry_wf_def distinct_update)

text \<open>One registration, whether fresh or refused.\<close>

lemma try_register_facts:
  assumes "registry_wf r"
  shows "fst (try_register r e n) = (if is_spent r e n then Inl (AlreadyUsed e) else Inr ())"
    "is_spent (snd (try_register r e n)) e' n' \<longleftrightarrow> is_spent r e' n' \<or> (e' = e \<and> n' = n)"
    "registry_wf (snd (try_register r e n))"
    "is_spent r e n \<Longrightarrow> snd (try_register r e n) = r"
proof -
  let ?ns = "case map_of (used r) e of None \<Rightarrow> [] | Some ns \<Rightarrow> ns"
  have ns: "distinct ?ns"
    using assms by (auto simp: registry_wf_def split: option.splits dest!: map_of_SomeD)
  show "fst (try_register r e n) = (if is_spent r e n then Inl (AlreadyUsed e) else Inr ())"
    "is_spent (snd (try_register r e n)) e' n' \<longleftrightarrow> is_spent r e' n' \<or> (e' = e \<and> n' = n)"
    by (auto simp: try_register_def is_spent_def update_conv' split: option.splits)
  show "registry_wf (snd (try_register r e n))"
    using registry_wf_update[OF assms, of ?ns e] registry_wf_update[OF assms, of "n # ?ns" e] ns
    by (simp add: try_register_def Let_def)
  show "snd (try_register r e n) = r" if "is_spent r e n"
    using that by (auto simp: try_register_def is_spent_def alist_update_same split: option.splits)
qed

text \<open>The registry keeps the contract of a filter that never forgets.\<close>

definition offer_nullifier ::
    "NullifierRegistry \<Rightarrow> u64 \<times> ReputationNullifier \<Rightarrow> bool \<times> NullifierRegistry" where
  "offer_nullifier r k = (case try_register r (fst k) (snd k) of
     (Inl _, r') \<Rightarrow> (False, r') | (Inr _, r') \<Rightarrow> (True, r'))"

lemma offer_nullifier_facts:
  "fst (offer_nullifier r k) = (\<not> isl (fst (try_register r (fst k) (snd k))))"
  "snd (offer_nullifier r k) = snd (try_register r (fst k) (snd k))"
  by (auto simp: offer_nullifier_def split: prod.splits sum.splits)

interpretation nullifiers: persistent_filter "\<lambda>r k. is_spent r (fst k) (snd k)" offer_nullifier registry_wf
  by unfold_locales (auto simp: offer_nullifier_facts try_register_facts)

section \<open>Merging is union\<close>

text \<open>The two nested loops visit the spends of the other registry one by one.\<close>

fun merge_spends :: "(u64 \<times> ReputationNullifier) list \<Rightarrow> NullifierMergeReport \<Rightarrow> NullifierRegistry
      \<Rightarrow> (NullifierError, NullifierMergeReport) result \<times> NullifierRegistry" where
  "merge_spends [] report r = (Inr report, r)"
| "merge_spends ((e, n) # ps) report r =
     (if is_spent r e n then merge_spends ps (report\<lparr>already_present := already_present report + 1\<rparr>) r
      else case try_register r e n of
        (Inl err, r) \<Rightarrow> (Inl err, r)
      | (Inr _, r) \<Rightarrow> merge_spends ps (report\<lparr>added := added report + 1\<rparr>) r)"

lemma merge_spends_append:
  "merge_spends (ps @ qs) report r = (case merge_spends ps report r of
     (Inl e, r) \<Rightarrow> (Inl e, r) | (Inr report, r) \<Rightarrow> merge_spends qs report r)"
  by (induction ps report r rule: merge_spends.induct) (auto split: prod.splits sum.splits)

lemma merge_set_spends: "merge_set e ns report r = merge_spends (map (Pair e) ns) report r"
  by (induction e ns report r rule: merge_set.induct) (auto split: prod.splits sum.splits)

lemma merge_epochs_spends:
  "merge_epochs us report r = merge_spends (concat (map (\<lambda>(e, ns). map (Pair e) ns) us)) report r"
  by (induction us report r rule: merge_epochs.induct)
     (auto simp: merge_spends_append merge_set_spends split: prod.splits sum.splits)

lemma merge_spends_result:
  assumes "registry_wf r" "distinct ps"
  shows "\<exists>r'. merge_spends ps report r = (Inr (report
        \<lparr>added := added report + length (filter (\<lambda>p. \<not> is_spent r (fst p) (snd p)) ps),
         already_present := already_present report + length (filter (\<lambda>p. is_spent r (fst p) (snd p)) ps)\<rparr>), r')
    \<and> registry_wf r' \<and> (\<forall>e n. is_spent r' e n \<longleftrightarrow> is_spent r e n \<or> (e, n) \<in> set ps)"
  using assms
proof (induction ps arbitrary: report r)
  case Nil
  then show ?case by simp
next
  case (Cons p ps)
  obtain e n where p: "p = (e, n)" by (cases p)
  note reg = try_register_facts[OF Cons.prems(1), where e = e and n = n]
  show ?case
  proof (cases "is_spent r e n")
    case True
    then show ?thesis
      using Cons.IH[OF Cons.prems(1), of "report\<lparr>already_present := already_present report + 1\<rparr>"] Cons.prems(2)
      by (auto simp: p)
  next
    case False
    let ?r = "snd (try_register r e n)"
    have step: "merge_spends (p # ps) report r = merge_spends ps (report\<lparr>added := added report + 1\<rparr>) ?r"
      using False reg(1) by (auto simp: p split: prod.splits)
    have "filter (\<lambda>p. \<not> is_spent ?r (fst p) (snd p)) ps = filter (\<lambda>p. \<not> is_spent r (fst p) (snd p)) ps"
      "filter (\<lambda>p. is_spent ?r (fst p) (snd p)) ps = filter (\<lambda>p. is_spent r (fst p) (snd p)) ps"
      using Cons.prems(2) p by (auto intro!: filter_cong simp: reg(2))
    then show ?thesis
      using Cons.IH[OF reg(3), of "report\<lparr>added := added report + 1\<rparr>"] Cons.prems(2) False
      unfolding step by (auto simp: p reg(2))
  qed
qed

section \<open>The file round trip\<close>

lemma parse_hex_encode: "length bs = 32 \<Longrightarrow> parse_hex_32 (hex_encode bs) = Inr bs"
  by (simp add: parse_hex_32_def parse_chunks_encode)

lemma load_hexes_encode:
  assumes "distinct (xs @ acc)" "\<forall>n \<in> set xs. length n = 32"
  shows "load_hexes e (map hex_encode xs) acc = Inr (rev xs @ acc)"
  using assms by (induction xs arbitrary: acc) (auto simp: parse_hex_encode)

lemma sort_map_hex: "sort (map hex_encode ns) = map hex_encode (sort_key hex_encode ns)"
  by (rule properties_for_sort) simp_all

lemma load_epochs_export:
  assumes "distinct (map fst (us @ acc))" "\<forall>(e, ns) \<in> set us. distinct ns \<and> (\<forall>n \<in> set ns. length n = 32)"
  shows "\<exists>vs. load_epochs (map (\<lambda>(epoch, ns). (u64_to_string epoch, sort (map hex_encode ns))) us) acc
      = Inr (acc @ vs) \<and> map fst vs = map fst us
      \<and> list_all2 (\<lambda>v u. set (snd v) = set (snd u) \<and> length (snd v) = length (snd u)) vs us"
  using assms
proof (induction us arbitrary: acc)
  case Nil
  then show ?case by simp
next
  case (Cons u us)
  obtain e ns where u: "u = (e, ns)" by (cases u)
  let ?xs = "sort_key hex_encode ns"
  have xs: "distinct ?xs" "\<forall>n \<in> set ?xs. length n = 32" using Cons.prems(2) u by simp_all
  have hexes: "load_hexes e (map hex_encode ?xs) [] = Inr (rev ?xs)"
    using load_hexes_encode[of ?xs "[]" e] xs by simp
  have "e \<notin> fst ` set acc" using Cons.prems(1) u by auto
  then have upd: "AList.update e (rev ?xs) acc = acc @ [(e, rev ?xs)]"
    by (induction acc) auto
  obtain vs where vs: "load_epochs (map (\<lambda>(epoch, ns). (u64_to_string epoch, sort (map hex_encode ns))) us)
      (acc @ [(e, rev ?xs)]) = Inr ((acc @ [(e, rev ?xs)]) @ vs)" "map fst vs = map fst us"
    "list_all2 (\<lambda>v u. set (snd v) = set (snd u) \<and> length (snd v) = length (snd u)) vs us"
    using Cons.IH[of "acc @ [(e, rev ?xs)]"] Cons.prems u by auto
  have "load_epochs (map (\<lambda>(epoch, ns). (u64_to_string epoch, sort (map hex_encode ns))) (u # us)) acc
      = Inr (acc @ (e, rev ?xs) # vs)"
    using vs(1) hexes upd by (simp add: u sort_map_hex)
  then show ?case
    using vs(2,3) u by (intro exI[of _ "(e, rev ?xs) # vs"]) simp
qed

lemma map_of_pointwise:
  assumes "list_all2 (\<lambda>v u. R (snd v) (snd u)) vs us" "map fst vs = map fst us"
  shows "rel_option R (map_of vs k) (map_of us k)"
  using assms by (induction vs us rule: list_all2_induct) auto

lemma load_export:
  assumes "registry_wf r" "nullifiers_32 r"
  shows "\<exists>r'. load_registry (export_registry r) = Inr r' \<and> (\<forall>e n. is_spent r' e n \<longleftrightarrow> is_spent r e n)
    \<and> registry_len r' = registry_len r \<and> registry_wf r'"
proof -
  obtain vs where vs: "load_epochs (file_epochs (export_registry r)) [] = Inr vs" "map fst vs = map fst (used r)"
    "list_all2 (\<lambda>v u. set (snd v) = set (snd u) \<and> length (snd v) = length (snd u)) vs (used r)"
    using load_epochs_export[of "used r" "[]"] assms
    by (auto simp: export_registry_def registry_wf_def nullifiers_32_def case_prod_beta)
  have "is_spent \<lparr>used = vs\<rparr> e n \<longleftrightarrow> is_spent r e n" for e n
    using map_of_pointwise[of "\<lambda>a b. set a = set b" vs "used r" e] vs(2,3)
    by (auto simp: is_spent_def list_all2_conv_all_nth rel_option_iff split: option.splits)
  moreover have "registry_len \<lparr>used = vs\<rparr> = registry_len r"
  proof -
    have "map (\<lambda>(e, ns). length ns) vs = map (\<lambda>(e, ns). length ns) (used r)"
      using vs(3) by (auto simp: list_all2_conv_all_nth case_prod_beta intro: nth_equalityI)
    then show ?thesis by (simp add: registry_len_def)
  qed
  moreover have "registry_wf \<lparr>used = vs\<rparr>"
  proof -
    have "distinct (snd v)" if "v \<in> set vs" for v
    proof -
      obtain i where i: "i < length vs" "v = vs ! i" using \<open>v \<in> set vs\<close> by (auto simp: in_set_conv_nth)
      then have "set (snd v) = set (snd (used r ! i))" "length (snd v) = length (snd (used r ! i))"
        "used r ! i \<in> set (used r)"
        using vs(3) by (auto simp: list_all2_conv_all_nth)
      moreover have "distinct (snd (used r ! i))"
        using calculation(3) assms(1) by (auto simp: registry_wf_def case_prod_beta)
      ultimately show ?thesis by (metis card_distinct distinct_card)
    qed
    then show ?thesis using vs(2) assms(1) by (auto simp: registry_wf_def)
  qed
  ultimately show ?thesis
    using vs(1) by (auto simp: load_registry_def) (simp add: export_registry_def)
qed

section \<open>Theorems\<close>

text \<open>C13. Once only: a verifier that registers any sequence of (epoch, nullifier) pairs accepts exactly
  the first use of each pair that was not spent before, whatever the sequence and however long.\<close>

theorem nullifier_first_uses:
  assumes "registry_wf r"
  shows "fst (offer_all offer_nullifier r ks) = first_uses (\<lambda>k. is_spent r (fst k) (snd k)) ks"
  by (rule nullifiers.offer_all_first_uses[OF assms TrueI])

theorem nullifier_first_uses_witness:
  "fst (offer_all offer_nullifier registry_new [(1, [5]), (2, [5]), (1, [5])]) = [True, True, False]"
  using nullifier_first_uses[OF registry_wf_new, of "[(1, [5]), (2, [5]), (1, [5])]"]
  by (simp add: is_spent_def registry_new_def)

text \<open>Merging a peer's registry never fails, yields the union of the spent sets, and reports how many
  spends were new and how many were already known, for every order of iteration.\<close>

theorem merge_is_union:
  assumes "registry_wf r" "registry_wf other"
  shows "\<exists>report r'. registry_merge r other = (Inr report, r')
    \<and> registry_wf r'
    \<and> (\<forall>e n. is_spent r' e n \<longleftrightarrow> is_spent r e n \<or> is_spent other e n)
    \<and> added report = card {(e, n). is_spent other e n \<and> \<not> is_spent r e n}
    \<and> already_present report = card {(e, n). is_spent other e n \<and> is_spent r e n}
    \<and> added report + already_present report = registry_len other"
proof -
  let ?report = "\<lparr>added = length (filter (\<lambda>p. \<not> is_spent r (fst p) (snd p)) (spends other)),
      already_present = length (filter (\<lambda>p. is_spent r (fst p) (snd p)) (spends other))\<rparr>"
  obtain r' where r': "registry_merge r other = (Inr ?report, r')" "registry_wf r'"
      "\<forall>e n. is_spent r' e n \<longleftrightarrow> is_spent r e n \<or> (e, n) \<in> set (spends other)"
    using merge_spends_result[OF assms(1) distinct_spends[OF assms(2)], of "\<lparr>added = 0, already_present = 0\<rparr>"]
    by (auto simp: registry_merge_def merge_epochs_spends spends_def)
  have "length (filter P (spends other)) = card {(e, n). is_spent other e n \<and> P (e, n)}" for P
    using distinct_filter_count_le[OF distinct_spends[OF assms(2)], of P] set_spends[OF assms(2)]
    by (simp add: case_prod_beta' prod_eq_iff)
  moreover have "length (filter (\<lambda>p. \<not> is_spent r (fst p) (snd p)) (spends other))
      + length (filter (\<lambda>p. is_spent r (fst p) (snd p)) (spends other)) = registry_len other"
    using sum_length_filter_compl[of "\<lambda>p. is_spent r (fst p) (snd p)" "spends other"] spends_length[of other]
    by simp
  ultimately show ?thesis
    using r' set_spends[OF assms(2)] by (intro exI[of _ ?report] exI[of _ r']) auto
qed

theorem merge_is_union_witness:
  "fst (registry_merge \<lparr>used = [(1, [[5]])]\<rparr> \<lparr>used = [(1, [[5], [6]]), (2, [[5]])]\<rparr>)
    = Inr \<lparr>added = 2, already_present = 1\<rparr>
   \<and> (\<exists>r'. snd (registry_merge \<lparr>used = [(1, [[5]])]\<rparr> \<lparr>used = [(1, [[5], [6]]), (2, [[5]])]\<rparr>) = r' \<and> is_spent r' 2 [5])"
  using merge_is_union[of "\<lparr>used = [(1, [[5]])]\<rparr>" "\<lparr>used = [(1, [[5], [6]]), (2, [[5]])]\<rparr>"]
  by (auto simp: registry_wf_def is_spent_def registry_merge_def try_register_def)

text \<open>Export and load are inverse: what one process writes another reads back with the same spent
  set, so a peer that merges the file learns every spend.\<close>

theorem registry_file_roundtrip:
  assumes "registry_wf r" "nullifiers_32 r"
  shows "\<exists>r'. load_registry (export_registry r) = Inr r' \<and> (\<forall>e n. is_spent r' e n \<longleftrightarrow> is_spent r e n)
    \<and> registry_len r' = registry_len r"
  using load_export[OF assms] by blast

theorem registry_file_roundtrip_witness:
  "\<exists>r'. load_registry (export_registry \<lparr>used = [(7, [replicate 32 1])]\<rparr>) = Inr r' \<and> is_spent r' 7 (replicate 32 1)"
  using registry_file_roundtrip[of "\<lparr>used = [(7, [replicate 32 1])]\<rparr>"]
  by (auto simp: registry_wf_def nullifiers_32_def is_spent_def)

text \<open>A registry file may spell one epoch twice (\<open>"7"\<close> and \<open>"07"\<close>): the second entry overwrites the
  first instead of joining it, so the spends of the first are forgotten.\<close>

theorem load_forgets_respelled_epoch:
  assumes "parse_u64 s = Some e" "parse_u64 t = Some e" "length a = 32" "length b = 32" "a \<noteq> b"
  shows "\<exists>r. load_registry \<lparr>file_version = 1, file_epochs = [(s, [hex_encode a]), (t, [hex_encode b])]\<rparr> = Inr r
    \<and> is_spent r e b \<and> \<not> is_spent r e a"
  using assms by (simp add: load_registry_def REGISTRY_FILE_VERSION_def parse_hex_encode is_spent_def)

theorem load_forgets_respelled_epoch_witness:
  "\<exists>r. load_registry \<lparr>file_version = 1, file_epochs =
      [(''7'', [hex_encode (replicate 32 1)]), (''07'', [hex_encode (replicate 32 2)])]\<rparr> = Inr r
    \<and> \<not> is_spent r 7 (replicate 32 1)"
proof -
  have "parse_u64 ''7'' = Some 7" "parse_u64 ''07'' = Some 7"
    by (simp_all add: parse_u64_def dec_value_def)
  moreover have "replicate 32 (1::byte) \<noteq> replicate 32 2" by (simp add: numeral_eq_Suc)
  ultimately show ?thesis
    using load_forgets_respelled_epoch[of "''7''" 7 "''07''" "replicate 32 1" "replicate 32 2"] by auto
qed

end
