(* ===== verification/Gf256.thy ===== *)
theory Gf256
  imports Aegis_Prelude
begin

text \<open>
  The field GF(256) of \<^verbatim>\<open>crates/aegis-topology/src/shamir.rs\<close>: the byte operations \<open>gf_add\<close>,
  \<open>gf_mul\<close> and \<open>gf_inv\<close> as the code computes them, and the proof that they form a field
  (the instance \<open>gf256 :: field\<close>).
\<close>

section \<open>The byte operations\<close>

definition IRRED :: "16 word" where
  "IRRED = 0x11b"

definition gf_add :: "byte \<Rightarrow> byte \<Rightarrow> byte" where
  "gf_add a b = xor a b"

text \<open>The loop body of \<open>gf_mul\<close>, \<open>n\<close> rounds of it.\<close>

fun gf_mul_loop :: "nat \<Rightarrow> byte \<Rightarrow> byte \<Rightarrow> byte \<Rightarrow> byte" where
  "gf_mul_loop 0 a b p = p"
| "gf_mul_loop (Suc n) a b p =
     (let p = (if and b 1 \<noteq> 0 then xor p a else p);
          hi = and a 0x80;
          a = push_bit 1 a;
          a = (if hi \<noteq> 0 then xor a (ucast IRRED) else a);
          b = drop_bit 1 b
      in gf_mul_loop n a b p)"

definition gf_mul :: "byte \<Rightarrow> byte \<Rightarrow> byte" where
  "gf_mul a b = gf_mul_loop 8 a b 0"

function gf_inv_loop :: "byte \<Rightarrow> byte \<Rightarrow> nat \<Rightarrow> byte" where
  "gf_inv_loop acc x e =
     (if e > 0
      then let acc = (if odd e then gf_mul acc x else acc);
               x = gf_mul x x
           in gf_inv_loop acc x (e div 2)
      else acc)"
  by pat_completeness auto
termination by (relation "measure (\<lambda>(acc, x, e). e)") auto

declare gf_inv_loop.simps [simp del]

definition gf_inv :: "byte \<Rightarrow> byte" where
  "gf_inv a = gf_inv_loop 1 a 254"

section \<open>Multiplication by \<open>x\<close>\<close>

definition xtime :: "byte \<Rightarrow> byte" where
  "xtime a = (if and a 0x80 \<noteq> 0 then xor (push_bit 1 a) 0x1b else push_bit 1 a)"

lemma and_top: "and (a :: byte) 0x80 \<noteq> 0 \<longleftrightarrow> bit a 7"
  using bit_iff_and_push_bit_not_eq_0[of a 7] by simp

lemma and_low: "and (b :: byte) 1 \<noteq> 0 \<longleftrightarrow> bit b 0"
  using bit_iff_and_push_bit_not_eq_0[of b 0] by simp

lemma ucast_IRRED: "ucast IRRED = (0x1b :: byte)"
  by (simp add: IRRED_def unsigned_ucast_eq)

lemma gf_mul_loop_Suc:
  "gf_mul_loop (Suc n) a b p = gf_mul_loop n (xtime a) (drop_bit 1 b) (if bit b 0 then xor p a else p)"
  by (simp add: xtime_def ucast_IRRED Let_def and_low[unfolded One_nat_def] and_low)

lemma xtime_linear: "xtime (xor a b) = xor (xtime a) (xtime b)"
proof (rule bit_word_eqI)
  fix n assume "n < LENGTH(8)"
  then show "bit (xtime (xor a b)) n = bit (xor (xtime a) (xtime b)) n"
    unfolding xtime_def and_top by (auto simp: bit_simps)
qed

lemma xtime_0 [simp]: "xtime 0 = 0"
  by (simp add: xtime_def)

lemma xtime_pow_linear: "(xtime ^^ k) (xor a b) = xor ((xtime ^^ k) a) ((xtime ^^ k) b)"
  by (induction k) (simp_all add: xtime_linear)

lemma xtime_pow_0 [simp]: "(xtime ^^ k) 0 = 0"
  by (induction k) simp_all

text \<open>The product as a sum over the bits of the second factor.\<close>

fun xsum :: "nat \<Rightarrow> (nat \<Rightarrow> byte) \<Rightarrow> byte" where
  "xsum 0 f = 0"
| "xsum (Suc n) f = xor (f 0) (xsum n (\<lambda>k. f (Suc k)))"

lemma xsum_xor: "xsum n (\<lambda>k. xor (f k) (g k)) = xor (xsum n f) (xsum n g)"
  by (induction n arbitrary: f g) (simp_all add: ac_simps)

lemma xsum_cong: "(\<And>k. k < n \<Longrightarrow> f k = g k) \<Longrightarrow> xsum n f = xsum n g"
proof (induction n arbitrary: f g)
  case 0
  then show ?case by simp
next
  case (Suc n)
  have "xsum n (\<lambda>k. f (Suc k)) = xsum n (\<lambda>k. g (Suc k))" by (rule Suc.IH) (simp add: Suc.prems)
  then show ?case using Suc.prems[of 0] by (simp only: xsum.simps zero_less_Suc)
qed

lemma xsum_map: "h 0 = 0 \<Longrightarrow> (\<And>a b. h (xor a b) = xor (h a) (h b)) \<Longrightarrow> h (xsum n f) = xsum n (\<lambda>k. h (f k))"
  by (induction n arbitrary: f) simp_all

lemma gf_mul_loop_sum:
  "gf_mul_loop n a b p = xor p (xsum n (\<lambda>k. if bit b k then (xtime ^^ k) a else 0))"
proof (induction n arbitrary: a b p)
  case 0
  then show ?case by simp
next
  case (Suc n)
  have "xsum n (\<lambda>k. if bit (drop_bit 1 b) k then (xtime ^^ k) (xtime a) else 0)
      = xsum n (\<lambda>k. if bit b (Suc k) then (xtime ^^ Suc k) a else 0)"
    by (rule xsum_cong) (simp add: bit_simps funpow_swap1)
  then show ?case
    unfolding gf_mul_loop_Suc Suc by (simp add: ac_simps)
qed

lemma gf_mul_sum: "gf_mul a b = xsum 8 (\<lambda>k. if bit b k then (xtime ^^ k) a else 0)"
  by (simp add: gf_mul_def gf_mul_loop_sum)

lemma gf_mul_add_left: "gf_mul (xor a b) c = xor (gf_mul a c) (gf_mul b c)"
  unfolding gf_mul_sum xsum_xor[symmetric]
  by (rule xsum_cong) (simp add: xtime_pow_linear)

lemma gf_mul_add_right: "gf_mul a (xor b c) = xor (gf_mul a b) (gf_mul a c)"
  unfolding gf_mul_sum xsum_xor[symmetric]
  by (rule xsum_cong) (auto simp: bit_xor_iff)

lemma gf_mul_0 [simp]: "gf_mul 0 b = 0" "gf_mul a 0 = 0"
  using gf_mul_add_left[of 0 0 b] gf_mul_add_right[of a 0 0] by simp_all

lemma gf_mul_xtime_left: "gf_mul (xtime a) b = xtime (gf_mul a b)"
  unfolding gf_mul_sum xsum_map[of xtime, OF xtime_0 xtime_linear]
  by (rule xsum_cong) (simp add: funpow_swap1)

lemma gf_mul_xtime_pow_left: "gf_mul ((xtime ^^ k) a) b = (xtime ^^ k) (gf_mul a b)"
  by (induction k) (simp_all add: gf_mul_xtime_left)

text \<open>Every byte is the sum of the powers of \<open>x\<close> at its bits.\<close>

lemma xtime_basis:
  "xtime 1 = 2" "xtime 2 = 4" "xtime 4 = 8" "xtime 8 = 16" "xtime 16 = 32" "xtime 32 = 64"
  "xtime 64 = 128" "xtime 128 = 27"
  by (simp_all add: xtime_def)

lemma byte_bits: "xsum 8 (\<lambda>k. if bit b k then (xtime ^^ k) 1 else 0) = b"
proof -
  have "xsum 8 (\<lambda>k. if bit b k then (xtime ^^ k) 1 else 0) =
    xor (if bit b 0 then 1 else 0) (xor (if bit b 1 then 2 else 0) (xor (if bit b 2 then 4 else 0)
    (xor (if bit b 3 then 8 else 0) (xor (if bit b 4 then 16 else 0) (xor (if bit b 5 then 32 else 0)
    (xor (if bit b 6 then 64 else 0) (if bit b 7 then 128 else 0)))))))"
    by (simp add: eval_nat_numeral xtime_basis[unfolded eval_nat_numeral One_nat_def] xtime_basis)
  also have "\<dots> = b"
  proof (rule bit_word_eqI)
    fix n assume "n < LENGTH(8)"
    then have "n = 0 \<or> n = 1 \<or> n = 2 \<or> n = 3 \<or> n = 4 \<or> n = 5 \<or> n = 6 \<or> n = 7" by auto
    then show "bit (xor (if bit b 0 then 1 else 0) (xor (if bit b 1 then 2 else 0) (xor (if bit b 2 then 4 else 0)
    (xor (if bit b 3 then 8 else 0) (xor (if bit b 4 then 16 else 0) (xor (if bit b 5 then 32 else 0)
    (xor (if bit b 6 then 64 else 0) (if bit b 7 then 128 else (0::byte))))))))) n = bit b n"
      by (elim disjE) (simp_all add: bit_xor_iff if_distrib[of "\<lambda>w. bit w _"] cong: if_cong)
  qed
  finally show ?thesis .
qed

lemma gf_mul_1 [simp]: "gf_mul 1 b = b"
  by (simp add: gf_mul_sum byte_bits)

lemma gf_mul_commute: "gf_mul a b = gf_mul b a"
proof -
  have "gf_mul a b = gf_mul (xsum 8 (\<lambda>k. if bit a k then (xtime ^^ k) 1 else 0)) b"
    by (simp add: byte_bits)
  also have "\<dots> = xsum 8 (\<lambda>k. gf_mul (if bit a k then (xtime ^^ k) 1 else 0) b)"
    by (rule xsum_map) (simp_all add: gf_mul_add_left)
  also have "\<dots> = xsum 8 (\<lambda>k. if bit a k then (xtime ^^ k) b else 0)"
    by (rule xsum_cong) (simp add: gf_mul_xtime_pow_left)
  finally show ?thesis by (simp add: gf_mul_sum)
qed

lemma gf_mul_assoc: "gf_mul (gf_mul a b) c = gf_mul a (gf_mul b c)"
proof -
  have "gf_mul (gf_mul a b) c = xsum 8 (\<lambda>k. if bit c k then (xtime ^^ k) (gf_mul b a) else 0)"
    by (simp only: gf_mul_commute[of a b] gf_mul_sum[of "gf_mul b a" c])
  also have "\<dots> = xsum 8 (\<lambda>k. gf_mul (if bit c k then (xtime ^^ k) b else 0) a)"
    by (rule xsum_cong) (simp add: gf_mul_xtime_pow_left)
  also have "\<dots> = gf_mul (xsum 8 (\<lambda>k. if bit c k then (xtime ^^ k) b else 0)) a"
    by (rule xsum_map[where h = "\<lambda>x. gf_mul x a", symmetric]) (simp_all add: gf_mul_add_left)
  also have "\<dots> = gf_mul a (gf_mul b c)"
    by (simp only: gf_mul_sum[of b c, symmetric] gf_mul_commute[of _ a])
  finally show ?thesis .
qed

section \<open>The ring\<close>

datatype gf256 = GF (gf_byte: byte)

instantiation gf256 :: comm_ring_1
begin
definition "0 = GF 0"
definition "1 = GF 1"
definition "a + b = GF (gf_add (gf_byte a) (gf_byte b))"
definition "a - b = GF (gf_add (gf_byte a) (gf_byte b))"
definition "- (a :: gf256) = a"
definition "a * b = GF (gf_mul (gf_byte a) (gf_byte b))"
instance
proof
  fix a b c :: gf256
  show "a + b + c = a + (b + c)" by (simp add: plus_gf256_def gf_add_def ac_simps)
  show "a + b = b + a" by (simp add: plus_gf256_def gf_add_def ac_simps)
  show "0 + a = a" by (simp add: plus_gf256_def zero_gf256_def gf_add_def)
  show "- a + a = 0" by (simp add: plus_gf256_def zero_gf256_def uminus_gf256_def gf_add_def)
  show "a - b = a + - b" by (simp add: plus_gf256_def minus_gf256_def uminus_gf256_def)
  show "a * b * c = a * (b * c)" by (simp add: times_gf256_def gf_mul_assoc)
  show "a * b = b * a" by (simp add: times_gf256_def gf_mul_commute)
  show "1 * a = a" by (simp add: times_gf256_def one_gf256_def)
  show "(a + b) * c = a * c + b * c"
    by (simp add: times_gf256_def plus_gf256_def gf_add_def gf_mul_add_left)
  show "(0::gf256) \<noteq> 1" by (simp add: zero_gf256_def one_gf256_def)
qed
end

lemma GF_add: "GF (gf_add a b) = GF a + GF b"
  by (simp add: plus_gf256_def)

lemma GF_mul: "GF (gf_mul a b) = GF a * GF b"
  by (simp add: times_gf256_def)

lemma GF_0: "GF 0 = 0" and GF_1: "GF 1 = 1"
  by (simp_all add: zero_gf256_def one_gf256_def)

lemma gf_double [simp]: "(a :: gf256) + a = 0"
  by (simp add: plus_gf256_def zero_gf256_def gf_add_def)

lemma gf_two: "(2 :: gf256) = 0"
  by (metis gf_double one_add_one)

lemma gf_minus: "(a :: gf256) - b = a + b"
  by (simp add: plus_gf256_def minus_gf256_def)

lemma frobenius: "((a :: gf256) + b) ^ 2 ^ n = a ^ 2 ^ n + b ^ 2 ^ n"
proof (induction n)
  case 0
  then show ?case by simp
next
  case (Suc n)
  have sq: "(u + v) ^ 2 = u ^ 2 + v ^ 2" for u v :: gf256
  proof -
    show ?thesis by (simp add: power2_eq_square algebra_simps gf_two)
  qed
  have "(a + b) ^ 2 ^ Suc n = ((a + b) ^ 2 ^ n) ^ 2" by (simp add: power_mult[symmetric] mult.commute)
  also have "\<dots> = (a ^ 2 ^ n) ^ 2 + (b ^ 2 ^ n) ^ 2" by (simp only: Suc sq)
  finally show ?case by (simp add: power_mult[symmetric] mult.commute)
qed

lemma frobenius_sum: "(\<Sum>k<(m::nat). f k :: gf256) ^ 2 ^ n = (\<Sum>k<m. f k ^ 2 ^ n)"
  by (induction m) (simp_all add: frobenius zero_power)

text \<open>Bytes as polynomials in \<open>x\<close>.\<close>

lemma GF_xsum: "GF (xsum m f) = (\<Sum>k<m. GF (f k))"
proof -
  have "GF (xsum m f) = (\<Sum>k=0..<m. GF (f k))"
  proof (induction m arbitrary: f)
    case 0
    then show ?case by (simp add: GF_0)
  next
    case (Suc m)
    then show ?case
      by (simp add: GF_add[unfolded gf_add_def] sum.atLeast0_lessThan_Suc_shift del: sum.op_ivl_Suc)
  qed
  then show ?thesis by (simp add: atLeast0LessThan)
qed

lemma xtime_is_mult: "xtime a = gf_mul 2 a"
proof -
  have "gf_mul (xtime 1) a = xtime (gf_mul 1 a)" by (rule gf_mul_xtime_left)
  then show ?thesis by (simp only: xtime_basis gf_mul_1)
qed

lemma GF_xtime_pow: "GF ((xtime ^^ k) 1) = GF 2 ^ k"
  by (induction k) (simp_all add: GF_1 xtime_is_mult GF_mul)

lemma GF_bits: "GF b = (\<Sum>k<8. if bit b k then GF 2 ^ k else 0)"
proof -
  have "GF b = (\<Sum>k<8. GF (if bit b k then (xtime ^^ k) 1 else 0))"
    by (simp only: GF_xsum[symmetric] byte_bits)
  also have "\<dots> = (\<Sum>k<8. if bit b k then GF 2 ^ k else 0)"
    by (rule sum.cong) (simp_all add: GF_0 GF_xtime_pow)
  finally show ?thesis .
qed

section \<open>Inverses\<close>

lemma xtime_more:
  "xtime 27 = 54" "xtime 54 = 108" "xtime 108 = 216" "xtime 216 = 171" "xtime 171 = 77" "xtime 77 = 154"
  by (simp_all add: xtime_def)

text \<open>The squares of the basis; eight squarings lead \<open>x\<close> back to itself.\<close>

lemma gf_squares:
  "gf_mul 2 2 = 4" "gf_mul 4 4 = 16" "gf_mul 16 16 = 0x1b" "gf_mul 0x1b 0x1b = 0x5e"
  "gf_mul 0x5e 0x5e = 0xe4" "gf_mul 0xe4 0xe4 = 0x4d" "gf_mul 0x4d 0x4d = 0xfa" "gf_mul 0xfa 0xfa = 2"
  by code_simp+

lemma x_256: "GF 2 ^ 256 = GF 2"
proof -
  have sq: "GF a ^ (2 * n) = (GF a ^ n) * (GF a ^ n)" for a n by (simp add: power_add mult_2)
  have "GF 2 ^ 2 = GF 4" using sq[of 2 1] by (simp add: GF_mul[symmetric] gf_squares)
  then have "GF 2 ^ 4 = GF 16" using sq[of 2 2] by (simp add: GF_mul[symmetric] gf_squares)
  then have "GF 2 ^ 8 = GF 0x1b" using sq[of 2 4] by (simp add: GF_mul[symmetric] gf_squares)
  then have "GF 2 ^ 16 = GF 0x5e" using sq[of 2 8] by (simp add: GF_mul[symmetric] gf_squares)
  then have "GF 2 ^ 32 = GF 0xe4" using sq[of 2 16] by (simp add: GF_mul[symmetric] gf_squares)
  then have "GF 2 ^ 64 = GF 0x4d" using sq[of 2 32] by (simp add: GF_mul[symmetric] gf_squares)
  then have "GF 2 ^ 128 = GF 0xfa" using sq[of 2 64] by (simp add: GF_mul[symmetric] gf_squares)
  then show ?thesis using sq[of 2 128] by (simp add: GF_mul[symmetric] gf_squares)
qed

lemma gf_fermat: "(a :: gf256) ^ 256 = a"
proof -
  obtain b where a: "a = GF b" by (cases a)
  have "a ^ 2 ^ 8 = (\<Sum>k<8. (if bit b k then GF 2 ^ k else 0) ^ 2 ^ 8)"
    unfolding a GF_bits[of b] by (rule frobenius_sum)
  also have "\<dots> = (\<Sum>k<8. if bit b k then GF 2 ^ k else 0)"
  proof (rule sum.cong)
    fix k :: nat
    have "(GF 2 ^ k) ^ 256 = (GF 2 ^ 256) ^ k" by (simp only: power_mult[symmetric] mult.commute)
    then show "(if bit b k then GF 2 ^ k else 0) ^ 2 ^ 8 = (if bit b k then GF 2 ^ k else 0)"
      by (simp add: x_256 zero_power)
  qed simp
  finally show ?thesis by (simp add: a GF_bits[of b])
qed

text \<open>The only idempotents are 0 and 1, so the ring is a field.\<close>

lemma bit_if: "bit (if c then w else (0 :: byte)) j \<longleftrightarrow> c \<and> bit w j"
  by simp

lemma gf_idempotent:
  assumes "gf_mul e e = e"
  shows "e = 0 \<or> e = 1"
proof -
  have "GF e ^ 2 ^ 1 = (\<Sum>k<8. (if bit e k then GF 2 ^ k else 0) ^ 2 ^ 1)"
    by (subst GF_bits) (rule frobenius_sum)
  also have "\<dots> = (\<Sum>k<8. GF (if bit e k then (xtime ^^ (2 * k)) 1 else 0))"
    by (rule sum.cong) (simp_all add: GF_xtime_pow power_mult[symmetric] mult.commute GF_0)
  also have "\<dots> = GF (xsum 8 (\<lambda>k. if bit e k then (xtime ^^ (2 * k)) 1 else 0))"
    by (simp only: GF_xsum)
  finally have "gf_mul e e = xsum 8 (\<lambda>k. if bit e k then (xtime ^^ (2 * k)) 1 else 0)"
    by (simp add: power2_eq_square GF_mul[symmetric])
  also have "\<dots> = xor (if bit e 0 then 1 else 0) (xor (if bit e 1 then 4 else 0) (xor (if bit e 2 then 16 else 0)
    (xor (if bit e 3 then 64 else 0) (xor (if bit e 4 then 0x1b else 0) (xor (if bit e 5 then 0x6c else 0)
    (xor (if bit e 6 then 0xab else 0) (if bit e 7 then 0x9a else 0)))))))"
    by (simp add: eval_nat_numeral xtime_basis[unfolded eval_nat_numeral One_nat_def] xtime_basis xtime_more)
  finally have e: "e = \<dots>" using assms by simp
  have "bit e j = bit (xor (if bit e 0 then 1 else 0) (xor (if bit e 1 then 4 else 0) (xor (if bit e 2 then 16 else 0)
    (xor (if bit e 3 then 64 else 0) (xor (if bit e 4 then 0x1b else 0) (xor (if bit e 5 then 0x6c else 0)
    (xor (if bit e 6 then 0xab else 0) (if bit e 7 then 0x9a else (0::byte))))))))) j" for j
    using e by (rule arg_cong)
  note eqs = this[of 0] this[of 1] this[of 2] this[of 3] this[of 4] this[of 5] this[of 6] this[of 7]
  have zero: "\<not> bit e 1 \<and> \<not> bit e 2 \<and> \<not> bit e 3 \<and> \<not> bit e 4 \<and> \<not> bit e 5 \<and> \<not> bit e 6 \<and> \<not> bit e 7"
    using eqs unfolding bit_xor_iff bit_if
    by (cases "bit e 4"; cases "bit e 5"; cases "bit e 7"; simp)
  have "e = (if bit e 0 then 1 else 0)"
  proof (rule bit_word_eqI)
    fix n assume "n < LENGTH(8)"
    then have "n = 0 \<or> n = 1 \<or> n = 2 \<or> n = 3 \<or> n = 4 \<or> n = 5 \<or> n = 6 \<or> n = 7" by auto
    then show "bit e n = bit (if bit e 0 then 1 else (0::byte)) n"
      using zero by (elim disjE) (simp_all add: if_distrib[of "\<lambda>w. bit w _"] cong: if_cong)
  qed
  then show ?thesis by (metis (full_types))
qed

lemma gf_inv_loop_power: "GF (gf_inv_loop acc x e) = GF acc * GF x ^ e"
proof (induction acc x e rule: gf_inv_loop.induct)
  case (1 acc x e)
  show ?case
  proof (cases "e > 0")
    case True
    have "GF (gf_inv_loop acc x e)
        = GF (if odd e then gf_mul acc x else acc) * GF (gf_mul x x) ^ (e div 2)"
      using 1 True by (subst gf_inv_loop.simps) (simp add: Let_def)
    also have "\<dots> = GF acc * (if odd e then GF x else 1) * GF x ^ (2 * (e div 2))"
      by (simp add: GF_mul power_mult power2_eq_square)
    also have "\<dots> = GF acc * GF x ^ e"
      by (cases "odd e") (auto simp: mult.assoc elim!: oddE evenE)
    finally show ?thesis .
  next
    case False
    then show ?thesis by (simp add: gf_inv_loop.simps)
  qed
qed

lemma gf_inv_power: "GF (gf_inv a) = GF a ^ 254"
  by (simp add: gf_inv_def gf_inv_loop_power GF_1)

lemma gf_mul_inverse: "(a :: gf256) \<noteq> 0 \<Longrightarrow> a ^ 254 * a = 1"
proof -
  assume "a \<noteq> 0"
  obtain e where e: "a ^ 255 = GF e" by (cases "a ^ 255")
  have "a ^ 255 * a ^ 255 = a ^ 254 * a ^ 256" by (simp flip: power_add)
  also have "\<dots> = a ^ 254 * a" by (simp only: gf_fermat)
  also have "\<dots> = a ^ 255" by (simp flip: power_Suc2)
  finally have "gf_mul e e = e" by (simp add: e GF_mul[symmetric])
  then have "a ^ 255 = 0 \<or> a ^ 255 = 1" using gf_idempotent[of e] e by (auto simp: GF_0 GF_1)
  moreover have "a ^ 255 * a = a" using gf_fermat[of a] by (simp flip: power_Suc2)
  ultimately have "a ^ 255 = 1" using \<open>a \<noteq> 0\<close> by auto
  then show ?thesis by (simp flip: power_Suc2)
qed

instantiation gf256 :: field
begin
definition "inverse (a :: gf256) = GF (gf_inv (gf_byte a))"
definition "(a :: gf256) div b = a * inverse b"
instance
proof
  fix a b :: gf256
  show "a div b = a * inverse b" by (rule divide_gf256_def)
  have inv: "inverse a = a ^ 254" for a :: gf256 by (cases a) (simp add: inverse_gf256_def gf_inv_power)
  show "inverse 0 = (0 :: gf256)" by (simp add: inv)
  show "a \<noteq> 0 \<Longrightarrow> inverse a * a = 1" by (simp add: inv gf_mul_inverse)
qed
end

lemma GF_inv: "GF (gf_inv a) = inverse (GF a)"
  by (simp add: inverse_gf256_def)

end
