(* ===== verification/Interpolation.thy ===== *)
theory Interpolation
  imports Main
begin

text \<open>
  Lagrange interpolation over a field, with polynomials as coefficient lists (constant term
  first): the algebra behind the Shamir shares of \<^verbatim>\<open>crates/aegis-topology/src/shamir.rs\<close>.
\<close>

section \<open>Coefficient lists\<close>

fun ev :: "'a :: field list \<Rightarrow> 'a \<Rightarrow> 'a" where
  "ev [] x = 0"
| "ev (c # cs) x = c + x * ev cs x"

lemma ev_append: "ev (as @ bs) x = ev as x + x ^ length as * ev bs x"
  by (induction as) (simp_all add: algebra_simps)

text \<open>Synthetic division by \<open>x - r\<close>; the leading coefficient stays.\<close>

lemma divide_linear:
  "cs \<noteq> [] \<Longrightarrow> \<exists>qs. length qs + 1 = length cs \<and> (\<forall>x. ev cs x = ev cs r + (x - r) * ev qs x)
     \<and> (qs \<noteq> [] \<longrightarrow> last qs = last cs)"
proof (induction cs)
  case Nil
  then show ?case by simp
next
  case (Cons c cs)
  show ?case
  proof (cases "cs = []")
    case True
    then show ?thesis by (intro exI[of _ "[]"]) simp
  next
    case False
    then obtain qs where qs: "length qs + 1 = length cs" "\<And>x. ev cs x = ev cs r + (x - r) * ev qs x"
        "qs \<noteq> [] \<longrightarrow> last qs = last cs" using Cons.IH by blast
    have last: "last (ev cs r # qs) = last cs"
    proof (cases "qs = []")
      case True
      then obtain d where "cs = [d]" using qs(1) by (cases cs) auto
      then show ?thesis using True by simp
    qed (use qs(3) in simp)
    have eq: "ev (c # cs) x = ev (c # cs) r + (x - r) * ev (ev cs r # qs) x" for x
    proof -
      have "c + x * ev cs x = c + x * (ev cs r + (x - r) * ev qs x)"
        using qs(2)[of x] by metis
      also have "\<dots> = (c + r * ev cs r) + (x - r) * (ev cs r + x * ev qs x)" by (simp add: algebra_simps)
      finally show ?thesis by simp
    qed
    show ?thesis
    proof (intro exI[of _ "ev cs r # qs"] conjI allI impI)
      show "length (ev cs r # qs) + 1 = length (c # cs)" using qs(1) by simp
      show "ev (c # cs) x = ev (c # cs) r + (x - r) * ev (ev cs r # qs) x" for x by (rule eq)
      show "last (ev cs r # qs) = last (c # cs)" using last False by simp
    qed
  qed
qed

text \<open>A list with one coefficient more than roots is determined by them and its leading coefficient.\<close>

lemma factor_roots:
  assumes "length cs = length rs + 1" "distinct rs" "\<And>r. r \<in> set rs \<Longrightarrow> ev cs r = 0"
  shows "ev cs x = last cs * (\<Prod>r\<leftarrow>rs. x - r)"
  using assms
proof (induction rs arbitrary: cs)
  case Nil
  then obtain c where "cs = [c]" by (cases cs) auto
  then show ?case by simp
next
  case (Cons r rs)
  then have "cs \<noteq> []" by auto
  then obtain qs where qs: "length qs + 1 = length cs" "\<And>x. ev cs x = ev cs r + (x - r) * ev qs x"
      "qs \<noteq> [] \<longrightarrow> last qs = last cs" using divide_linear by blast
  have r: "ev cs x = (x - r) * ev qs x" for x using qs(2)[of x] Cons.prems(3)[of r] by simp
  have "qs \<noteq> []" using qs(1) Cons.prems(1) by auto
  then have last: "last qs = last cs" using qs(3) by simp
  have "ev qs s = 0" if "s \<in> set rs" for s
    using r[of s] Cons.prems(2,3) that by auto
  then have "ev qs x = last qs * (\<Prod>r\<leftarrow>rs. x - r)"
    using Cons.IH[of qs] qs(1) Cons.prems(1,2) by simp
  then show ?case using r last by simp
qed

lemma too_many_roots:
  assumes "length cs \<le> length rs" "distinct rs" "\<And>r. r \<in> set rs \<Longrightarrow> ev cs r = 0"
  shows "ev cs x = 0"
  using assms(1,3)
proof (induction cs rule: rev_induct)
  case Nil
  then show ?case by simp
next
  case (snoc c cs)
  let ?ss = "take (length cs) rs"
  have len: "length (cs @ [c]) = length ?ss + 1" using snoc.prems(1) by simp
  have ss: "distinct ?ss" "\<And>r. r \<in> set ?ss \<Longrightarrow> ev (cs @ [c]) r = 0"
    using assms(2) snoc.prems(2) by (auto dest: in_set_takeD)
  have f: "ev (cs @ [c]) y = c * (\<Prod>r\<leftarrow>?ss. y - r)" for y
    using factor_roots[OF len ss, of y] by simp
  let ?t = "rs ! length cs"
  have t: "?t \<in> set rs" "?t \<notin> set ?ss"
    using snoc.prems(1) assms(2) by (simp, auto simp: in_set_conv_nth nth_eq_iff_index_eq)
  have "(\<Prod>r\<leftarrow>?ss. ?t - r) \<noteq> 0"
    using t(2) by (auto simp: prod_list_zero_iff)
  then have "c = 0" using f[of ?t] snoc.prems(2)[OF t(1)] by simp
  then show ?case using f[of x] by simp
qed

section \<open>Functions given by few coefficients\<close>

definition poly_of :: "nat \<Rightarrow> ('a :: field \<Rightarrow> 'a) \<Rightarrow> bool" where
  "poly_of n f \<longleftrightarrow> (\<exists>cs. length cs = n \<and> f = ev cs)"

lemma ev_map2_add: "length as = length bs \<Longrightarrow> ev (map2 (+) as bs) x = ev as x + ev bs x"
  by (induction as bs rule: list_induct2) (simp_all add: algebra_simps)

lemma ev_map_mult: "ev (map ((*) k) cs) x = k * ev cs x"
  by (induction cs) (simp_all add: algebra_simps)

lemma ev_replicate_0: "ev (replicate n 0) x = 0"
  by (induction n) simp_all

lemma poly_of_zero: "poly_of n (\<lambda>_. 0)"
  unfolding poly_of_def by (rule exI[of _ "replicate n 0"]) (simp add: ev_replicate_0 fun_eq_iff)

lemma poly_of_add: "poly_of n f \<Longrightarrow> poly_of n g \<Longrightarrow> poly_of n (\<lambda>x. f x + g x)"
proof -
  assume "poly_of n f" "poly_of n g"
  then obtain as bs where "length as = n" "f = ev as" "length bs = n" "g = ev bs" by (auto simp: poly_of_def)
  then show ?thesis
    unfolding poly_of_def by (intro exI[of _ "map2 (+) as bs"]) (simp add: ev_map2_add fun_eq_iff)
qed

lemma poly_of_scale: "poly_of n f \<Longrightarrow> poly_of n (\<lambda>x. k * f x)"
proof -
  assume "poly_of n f"
  then obtain cs where "length cs = n" "f = ev cs" by (auto simp: poly_of_def)
  then show ?thesis
    unfolding poly_of_def by (intro exI[of _ "map ((*) k) cs"]) (simp add: ev_map_mult fun_eq_iff)
qed

lemma poly_of_linear: "poly_of n f \<Longrightarrow> poly_of (Suc n) (\<lambda>x. (x - r) * f x)"
proof -
  assume "poly_of n f"
  then obtain cs where cs: "length cs = n" "f = ev cs" by (auto simp: poly_of_def)
  let ?ds = "map2 (+) (0 # cs) (map ((*) (- r)) cs @ [0])"
  have "ev ?ds x = (x - r) * f x" for x
    using ev_map2_add[of "0 # cs" "map ((*) (- r)) cs @ [0]" x]
    by (simp add: ev_append ev_map_mult cs(2) algebra_simps)
  moreover have "length ?ds = Suc n" using cs(1) by simp
  ultimately show ?thesis unfolding poly_of_def by (intro exI[of _ ?ds]) auto
qed

lemma poly_of_prod: "poly_of (Suc (length rs)) (\<lambda>x. \<Prod>r\<leftarrow>rs. x - r)"
proof (induction rs)
  case Nil
  show ?case unfolding poly_of_def by (rule exI[of _ "[1]"]) (simp add: fun_eq_iff)
next
  case (Cons r rs)
  then show ?case using poly_of_linear[of _ _ r] by simp
qed

lemma poly_of_sum: "(\<And>i. i < (m :: nat) \<Longrightarrow> poly_of n (f i)) \<Longrightarrow> poly_of n (\<lambda>x. \<Sum>i<m. f i x)"
  by (induction m) (simp_all add: poly_of_zero poly_of_add)

section \<open>Lagrange interpolation\<close>

text \<open>The abscissas other than the \<open>i\<close>-th.\<close>

definition others :: "nat \<Rightarrow> 'a list \<Rightarrow> 'a list" where
  "others i xs = take i xs @ drop (Suc i) xs"

lemma length_others: "i < length xs \<Longrightarrow> length (others i xs) = length xs - 1"
  by (simp add: others_def)

lemma set_others: "distinct xs \<Longrightarrow> i < length xs \<Longrightarrow> set (others i xs) = set xs - {xs ! i}"
proof -
  assume d: "distinct xs" and i: "i < length xs"
  obtain as bs x where "xs = as @ x # bs" "length as = i"
    using id_take_nth_drop[OF i] i that[of "take i xs" "xs ! i" "drop (Suc i) xs"] by (simp only: length_take)
  then show ?thesis using d by (auto simp: others_def)
qed

definition basis :: "'a :: field list \<Rightarrow> nat \<Rightarrow> 'a \<Rightarrow> 'a" where
  "basis xs i x = (\<Prod>r\<leftarrow>others i xs. (x - r)) / (\<Prod>r\<leftarrow>others i xs. (xs ! i - r))"

definition interpolant :: "'a :: field list \<Rightarrow> 'a list \<Rightarrow> 'a \<Rightarrow> 'a" where
  "interpolant xs ys x = (\<Sum>i<length xs. ys ! i * basis xs i x)"

lemma basis_at:
  assumes "distinct xs" "i < length xs" "j < length xs"
  shows "basis xs i (xs ! j) = (if i = j then 1 else 0)"
proof (cases "i = j")
  case True
  have "xs ! i \<notin> set (others i xs)" by (simp add: set_others[OF assms(1,2)])
  then have "(\<Prod>r\<leftarrow>others i xs. (xs ! i - r)) \<noteq> 0"
    by (simp add: prod_list_zero_iff image_iff)
  then show ?thesis using True by (simp add: basis_def)
next
  case False
  then have "xs ! j \<in> set (others i xs)"
    using set_others[OF assms(1,2)] assms by (auto simp: nth_eq_iff_index_eq)
  then have "(\<Prod>r\<leftarrow>others i xs. (xs ! j - r)) = 0" by (auto simp: prod_list_zero_iff)
  then show ?thesis using False by (simp add: basis_def)
qed

lemma interpolant_at:
  assumes "distinct xs" "j < length xs"
  shows "interpolant xs ys (xs ! j) = ys ! j"
proof -
  have "interpolant xs ys (xs ! j) = (\<Sum>i<length xs. if i = j then ys ! i else 0)"
    unfolding interpolant_def by (rule sum.cong) (use assms in \<open>auto simp: basis_at\<close>)
  then show ?thesis using assms(2) by simp
qed

lemma interpolant_poly:
  assumes "distinct xs" "xs \<noteq> []"
  shows "poly_of (length xs) (interpolant xs ys)"
proof -
  have "poly_of (length xs) (\<lambda>x. ys ! i * basis xs i x)" if "i < length xs" for i
  proof -
    have "poly_of (length xs) (\<lambda>x. \<Prod>r\<leftarrow>others i xs. x - r)"
      using poly_of_prod[of "others i xs"] length_others[OF that] assms(2) by simp
    from poly_of_scale[OF this, of "ys ! i / (\<Prod>r\<leftarrow>others i xs. (xs ! i - r))"]
    show ?thesis by (simp add: basis_def)
  qed
  from poly_of_sum[of "length xs" "length xs" "\<lambda>i x. ys ! i * basis xs i x", OF this]
  show ?thesis unfolding interpolant_def by simp
qed

text \<open>Enough points determine the polynomial.\<close>

lemma interpolant_unique:
  assumes "distinct xs" "xs \<noteq> []" "length cs \<le> length xs" "\<And>j. j < length xs \<Longrightarrow> ys ! j = ev cs (xs ! j)"
  shows "interpolant xs ys x = ev cs x"
proof -
  obtain ds where ds: "length ds = length xs" "interpolant xs ys = ev ds"
    using interpolant_poly[OF assms(1,2)] by (auto simp: poly_of_def)
  let ?cs = "cs @ replicate (length xs - length cs) 0"
  let ?d = "map2 (+) ds (map ((*) (- 1)) ?cs)"
  have d: "ev ?d y = interpolant xs ys y - ev cs y" for y
    using ev_map2_add[of ds "map ((*) (- 1)) ?cs" y] ds assms(3)
    by (simp add: ev_append ev_map_mult ev_replicate_0 del: map_append)
  have "ev ?d r = 0" if "r \<in> set xs" for r
    using that d assms(1,4) by (auto simp: in_set_conv_nth interpolant_at)
  moreover have "length ?d \<le> length xs" using ds(1) assms(3) by simp
  ultimately have "ev ?d x = 0" using too_many_roots[of ?d xs x] assms(1) by blast
  then show ?thesis using d by simp
qed

text \<open>One point too few: the interpolant misses by the leading coefficient times the product.\<close>

lemma interpolant_short:
  assumes "distinct xs" "xs \<noteq> []" "length cs = length xs + 1" "\<And>j. j < length xs \<Longrightarrow> ys ! j = ev cs (xs ! j)"
  shows "ev cs x - interpolant xs ys x = last cs * (\<Prod>r\<leftarrow>xs. x - r)"
proof -
  obtain ds where ds: "length ds = length xs" "interpolant xs ys = ev ds"
    using interpolant_poly[OF assms(1,2)] by (auto simp: poly_of_def)
  let ?d = "map2 (+) cs (map ((*) (- 1)) (ds @ [0]))"
  have len: "length ?d = length xs + 1" using ds assms(3) by simp
  have d: "ev ?d y = ev cs y - interpolant xs ys y" for y
    using ev_map2_add[of cs "map ((*) (- 1)) (ds @ [0])" y] ds assms(3)
    by (simp add: ev_append ev_map_mult del: map_append)
  have "ev ?d r = 0" if "r \<in> set xs" for r
    using that d assms(1,4) by (auto simp: in_set_conv_nth interpolant_at)
  from factor_roots[OF len assms(1) this]
  have "ev ?d x = last ?d * (\<Prod>r\<leftarrow>xs. x - r)" by blast
  moreover have "last ?d = last cs"
  proof -
    have "cs \<noteq> []" using assms(3) by auto
    then have "last cs = cs ! length xs" using assms(3) by (simp add: last_conv_nth)
    moreover have "?d ! length xs = cs ! length xs" using assms(3) ds(1) by (simp add: nth_append)
    moreover have "last ?d = ?d ! length xs" using len by (subst last_conv_nth) auto
    ultimately show ?thesis by simp
  qed
  ultimately show ?thesis using d by simp
qed

end
