(* ===== verification/Shamir.thy ===== *)
theory Shamir
  imports Gf256 Interpolation Text_Codec
begin

text \<open>
  \<^verbatim>\<open>crates/aegis-topology/src/shamir.rs\<close>: threshold sharing of the 32-byte ceremony seeds. The
  generator is an argument: \<open>fill r n\<close> is \<open>rng.fill_bytes\<close> on a buffer of \<open>n\<close> bytes. The loop that
  redraws a zero leading coefficient may run for ever on a bad generator, so splitting is partial.
\<close>

record SeedShare =
  share_x :: byte
  share_y :: bytes

datatype ShamirError = BadParams string | TooFewShares | DuplicateX | InvalidX

definition eval_poly :: "bytes \<Rightarrow> byte \<Rightarrow> byte" where
  "eval_poly coeffs x = fold (\<lambda>c y. gf_add (gf_mul y x) c) (rev coeffs) 0"

section \<open>Splitting\<close>

definition draw_byte :: "('r \<Rightarrow> nat \<Rightarrow> bytes \<times> 'r) \<Rightarrow> 'r \<Rightarrow> byte \<times> 'r" where
  "draw_byte fill rng = (let (b, rng) = fill rng 1 in (b ! 0, rng))"

text \<open>The coefficients after the first, one byte each.\<close>

fun draw_coeffs :: "('r \<Rightarrow> nat \<Rightarrow> bytes \<times> 'r) \<Rightarrow> nat \<Rightarrow> 'r \<Rightarrow> bytes \<times> 'r" where
  "draw_coeffs fill 0 rng = ([], rng)"
| "draw_coeffs fill (Suc n) rng =
     (let (b, rng) = draw_byte fill rng; (cs, rng) = draw_coeffs fill n rng in (b # cs, rng))"

text \<open>\<open>while coeffs[threshold - 1] == 0\<close>\<close>

partial_function (option) force_nonzero ::
    "('r \<Rightarrow> nat \<Rightarrow> bytes \<times> 'r) \<Rightarrow> nat \<Rightarrow> bytes \<Rightarrow> 'r \<Rightarrow> (bytes \<times> 'r) option" where
  "force_nonzero fill i coeffs rng =
     (if coeffs ! i = 0
      then let (b, rng) = draw_byte fill rng in force_nonzero fill i (coeffs[i := b]) rng
      else Some (coeffs, rng))"

fun split_loop ::
    "('r \<Rightarrow> nat \<Rightarrow> bytes \<times> 'r) \<Rightarrow> bytes \<Rightarrow> nat \<Rightarrow> nat list \<Rightarrow> SeedShare list \<Rightarrow> 'r
      \<Rightarrow> (SeedShare list \<times> 'r) option" where
  "split_loop fill secret threshold [] shares rng = Some (shares, rng)"
| "split_loop fill secret threshold (byte_idx # idxs) shares rng =
     (let (cs, rng) = draw_coeffs fill (threshold - 1) rng;
          coeffs = (secret ! byte_idx) # cs
      in case (if threshold > 1 then force_nonzero fill (threshold - 1) coeffs rng else Some (coeffs, rng)) of
           None \<Rightarrow> None
         | Some (coeffs, rng) \<Rightarrow>
             split_loop fill secret threshold idxs
               (map (\<lambda>s. s\<lparr>share_y := (share_y s)[byte_idx := eval_poly coeffs (share_x s)]\<rparr>) shares) rng)"

definition split_seed ::
    "('r \<Rightarrow> nat \<Rightarrow> bytes \<times> 'r) \<Rightarrow> bytes \<Rightarrow> nat \<Rightarrow> nat \<Rightarrow> 'r
      \<Rightarrow> ((ShamirError, SeedShare list) result \<times> 'r) option" where
  "split_seed fill secret threshold n rng =
     (if threshold = 0 \<or> threshold > n then Some (Inl (BadParams ''threshold must be in 1..=n''), rng)
      else if n = 0 \<or> n > 255 then Some (Inl (BadParams ''n must be in 1..=255''), rng)
      else let shares = map (\<lambda>x. \<lparr>share_x = of_nat x, share_y = replicate 32 0\<rparr>) [1..<n + 1]
           in map_option (\<lambda>(shares, rng). (Inr shares, rng))
                (split_loop fill secret threshold [0..<32] shares rng))"

section \<open>Reconstruction\<close>

definition lagrange_fraction :: "SeedShare list \<Rightarrow> nat \<Rightarrow> SeedShare \<Rightarrow> byte \<times> byte" where
  "lagrange_fraction shares i si =
     fold (\<lambda>(j, sj) (num, den).
         if i = j then (num, den)
         else (gf_mul num (share_x sj), gf_mul den (gf_add (share_x si) (share_x sj))))
       (enumerate 0 shares) (1, 1)"

fun lagrange_loop :: "SeedShare list \<Rightarrow> nat \<Rightarrow> (nat \<times> SeedShare) list \<Rightarrow> byte \<Rightarrow> (ShamirError, byte) result" where
  "lagrange_loop shares byte_idx [] acc = Inr acc"
| "lagrange_loop shares byte_idx ((i, si) # rest) acc =
     (let (num, den) = lagrange_fraction shares i si in
      if den = 0 then Inl DuplicateX
      else let li = gf_mul num (gf_inv den)
           in lagrange_loop shares byte_idx rest (gf_add acc (gf_mul (share_y si ! byte_idx) li)))"

definition lagrange_at_zero :: "SeedShare list \<Rightarrow> nat \<Rightarrow> (ShamirError, byte) result" where
  "lagrange_at_zero shares byte_idx = lagrange_loop shares byte_idx (enumerate 0 shares) 0"

text \<open>The validation loop, with the table \<open>seen : [bool; 256]\<close>.\<close>

fun check_shares :: "bool list \<Rightarrow> SeedShare list \<Rightarrow> (ShamirError, unit) result" where
  "check_shares seen [] = Inr ()"
| "check_shares seen (s # ss) =
     (if share_x s = 0 then Inl InvalidX
      else if seen ! unat (share_x s) then Inl DuplicateX
      else check_shares (seen[unat (share_x s) := True]) ss)"

fun reconstruct_loop :: "SeedShare list \<Rightarrow> nat list \<Rightarrow> bytes \<Rightarrow> (ShamirError, bytes) result" where
  "reconstruct_loop shares [] secret = Inr secret"
| "reconstruct_loop shares (byte_idx # idxs) secret =
     bind_result (lagrange_at_zero shares byte_idx) (\<lambda>b.
       reconstruct_loop shares idxs (secret[byte_idx := b]))"

definition reconstruct_seed :: "SeedShare list \<Rightarrow> (ShamirError, bytes) result" where
  "reconstruct_seed shares =
     (if shares = [] then Inl TooFewShares
      else bind_result (check_shares (replicate 256 False) shares) (\<lambda>_.
        reconstruct_loop shares [0..<32] (replicate 32 0)))"

section \<open>Hex encoding of shares\<close>

definition encode_share_hex :: "SeedShare \<Rightarrow> string" where
  "encode_share_hex share = hex_byte (share_x share) @ hex_encode (share_y share)"

text \<open>\<open>u8::from_str_radix(_, 16)\<close> on two characters: a leading plus sign is accepted.\<close>

definition u8_from_hex2 :: "char \<Rightarrow> char \<Rightarrow> (string, byte) result" where
  "u8_from_hex2 c1 c2 =
     (case (if c1 = CHR ''+'' then Some 0 else digit_value c1) of
        None \<Rightarrow> Inl ''invalid digit found in string''
      | Some hi \<Rightarrow> (case digit_value c2 of
          None \<Rightarrow> Inl ''invalid digit found in string''
        | Some lo \<Rightarrow> Inr (of_nat (hi * 16 + lo))))"

fun hex_pairs :: "string \<Rightarrow> (string, bytes) result" where
  "hex_pairs (c1 # c2 # cs) =
     bind_result (u8_from_hex2 c1 c2) (\<lambda>b. bind_result (hex_pairs cs) (\<lambda>bs. Inr (b # bs)))"
| "hex_pairs _ = Inr []"

definition hex_decode :: "string \<Rightarrow> (string, bytes) result" where
  "hex_decode hex = (if length hex mod 2 \<noteq> 0 then Inl ''odd hex length'' else hex_pairs hex)"

definition decode_share_hex :: "string \<Rightarrow> (string, SeedShare) result" where
  "decode_share_hex hex =
     (let hex = trim hex in
      if length hex \<noteq> 66
      then Inl (''share hex must be 66 chars (1-byte x + 32-byte y), got '' @ dec_string (length hex))
      else bind_result (hex_decode hex) (\<lambda>bs.
        let x = bs ! 0 in
        if x = 0 then Inl ''share x must be in 1..=255''
        else Inr \<lparr>share_x = x, share_y = slice 1 32 bs\<rparr>))"

section \<open>The code computes in the field\<close>

lemma GF_eval_poly: "GF (eval_poly coeffs x) = ev (map GF coeffs) (GF x)"
proof -
  have "GF (fold (\<lambda>c y. gf_add (gf_mul y x) c) (rev coeffs) 0) = ev (map GF coeffs) (GF x)"
    by (induction coeffs) (simp_all add: GF_0 GF_add GF_mul algebra_simps)
  then show ?thesis by (simp add: eval_poly_def)
qed

lemma gf_prod_list: "GF (fold (\<lambda>s p. gf_mul p (f s)) ss p) = GF p * prod_list (map (\<lambda>s. GF (f s)) ss)"
  by (induction ss arbitrary: p) (simp_all add: GF_mul algebra_simps)

lemma enumerate_split:
  "i < length xs \<Longrightarrow> enumerate k xs = enumerate k (take i xs) @ (k + i, xs ! i) # enumerate (k + Suc i) (drop (Suc i) xs)"
proof (induction xs arbitrary: k i)
  case Nil
  then show ?case by simp
next
  case (Cons x xs)
  then show ?case by (cases i) simp_all
qed

lemma fraction_fold:
  assumes "i < k \<or> k + length ss \<le> i"
  shows "fold (\<lambda>(j, sj) (num, den).
         if i = j then (num, den)
         else (gf_mul num (share_x sj), gf_mul den (gf_add x (share_x sj)))) (enumerate k ss) (n, d)
    = (fold (\<lambda>s p. gf_mul p (share_x s)) ss n, fold (\<lambda>s p. gf_mul p (gf_add x (share_x s))) ss d)"
  using assms by (induction ss arbitrary: k n d) auto

definition gf_xs :: "SeedShare list \<Rightarrow> gf256 list" where
  "gf_xs shares = map (\<lambda>s. GF (share_x s)) shares"

definition gf_ys :: "SeedShare list \<Rightarrow> nat \<Rightarrow> gf256 list" where
  "gf_ys shares b = map (\<lambda>s. GF (share_y s ! b)) shares"

lemma lagrange_fraction_field:
  assumes "i < length shares"
  shows "GF (fst (lagrange_fraction shares i (shares ! i))) = (\<Prod>r\<leftarrow>others i (gf_xs shares). 0 - r)"
    "GF (snd (lagrange_fraction shares i (shares ! i)))
      = (\<Prod>r\<leftarrow>others i (gf_xs shares). gf_xs shares ! i - r)"
proof -
  let ?x = "share_x (shares ! i)"
  let ?os = "take i shares @ drop (Suc i) shares"
  have "lagrange_fraction shares i (shares ! i) =
    (fold (\<lambda>s p. gf_mul p (share_x s)) ?os 1, fold (\<lambda>s p. gf_mul p (gf_add ?x (share_x s))) ?os 1)"
    unfolding lagrange_fraction_def enumerate_split[OF assms, of 0]
    using assms by (simp add: fraction_fold)
  moreover have "others i (gf_xs shares) = map (\<lambda>s. GF (share_x s)) ?os"
    by (simp add: others_def gf_xs_def take_map drop_map)
  ultimately show "GF (fst (lagrange_fraction shares i (shares ! i))) = (\<Prod>r\<leftarrow>others i (gf_xs shares). 0 - r)"
    "GF (snd (lagrange_fraction shares i (shares ! i)))
      = (\<Prod>r\<leftarrow>others i (gf_xs shares). gf_xs shares ! i - r)"
    using assms
    by (simp_all only: fst_conv snd_conv gf_prod_list GF_1 GF_add map_map comp_def gf_minus add_0_left mult_1_left)
       (simp add: gf_xs_def)
qed

lemma lagrange_loop_sum:
  assumes "distinct (gf_xs shares)" "k \<le> length shares"
  shows "\<exists>b. lagrange_loop shares bi (enumerate k (drop k shares)) acc = Inr b
    \<and> GF b = GF acc + (\<Sum>i=k..<length shares. gf_ys shares bi ! i * basis (gf_xs shares) i 0)"
  using assms(2)
proof (induction "length shares - k" arbitrary: k acc)
  case 0
  then show ?case by simp
next
  case (Suc n)
  then have k: "k < length shares" by simp
  obtain num den where nd: "lagrange_fraction shares k (shares ! k) = (num, den)"
    by (cases "lagrange_fraction shares k (shares ! k)")
  have num: "GF num = (\<Prod>r\<leftarrow>others k (gf_xs shares). 0 - r)"
    and den: "GF den = (\<Prod>r\<leftarrow>others k (gf_xs shares). gf_xs shares ! k - r)"
    using lagrange_fraction_field[OF k] nd by simp_all
  have "gf_xs shares ! k \<notin> set (others k (gf_xs shares))"
    using set_others[OF assms(1), of k] k by (simp add: gf_xs_def)
  then have "GF den \<noteq> 0" unfolding den by (simp add: prod_list_zero_iff image_iff)
  then have "den \<noteq> 0" using GF_0 by auto
  moreover have "drop k shares = shares ! k # drop (Suc k) shares"
    using k by (rule Cons_nth_drop_Suc[symmetric])
  ultimately have step: "lagrange_loop shares bi (enumerate k (drop k shares)) acc
      = lagrange_loop shares bi (enumerate (Suc k) (drop (Suc k) shares))
          (gf_add acc (gf_mul (share_y (shares ! k) ! bi) (gf_mul num (gf_inv den))))"
    by (simp add: nd)
  have summand: "GF (gf_mul (share_y (shares ! k) ! bi) (gf_mul num (gf_inv den)))
      = gf_ys shares bi ! k * basis (gf_xs shares) k 0"
    using k by (simp add: GF_mul GF_inv num den basis_def gf_ys_def divide_inverse)
  have "n = length shares - Suc k" "Suc k \<le> length shares" using Suc.hyps(2) k by simp_all
  from Suc.hyps(1)[OF this, of "gf_add acc (gf_mul (share_y (shares ! k) ! bi) (gf_mul num (gf_inv den)))"]
  show ?case
    unfolding step GF_add summand using k by (auto simp: sum.atLeast_Suc_lessThan add.assoc)
qed

lemma lagrange_at_zero_field:
  assumes "distinct (gf_xs shares)"
  shows "\<exists>b. lagrange_at_zero shares bi = Inr b \<and> GF b = interpolant (gf_xs shares) (gf_ys shares bi) 0"
  using lagrange_loop_sum[OF assms, of 0 bi 0]
  by (simp add: lagrange_at_zero_def interpolant_def GF_0 gf_xs_def atLeast0LessThan)

section \<open>Validation and reconstruction\<close>

lemma check_shares_table:
  assumes "length seen = 256"
  shows "check_shares seen ss = Inr () \<longleftrightarrow> 0 \<notin> share_x ` set ss
    \<and> (\<forall>x \<in> share_x ` set ss. \<not> seen ! unat x) \<and> distinct (map share_x ss)"
  using assms
proof (induction ss arbitrary: seen)
  case Nil
  then show ?case by simp
next
  case (Cons s ss)
  let ?seen = "seen[unat (share_x s) := True]"
  show ?case
  proof (cases "share_x s = 0 \<or> seen ! unat (share_x s)")
    case True
    then show ?thesis by auto
  next
    case False
    have "?seen ! unat x \<longleftrightarrow> seen ! unat x \<or> x = share_x s" for x
      using Cons.prems by (auto simp: nth_list_update word_unat_eq_iff)
    then have "(\<forall>x \<in> A. \<not> ?seen ! unat x) \<longleftrightarrow> (\<forall>x \<in> A. \<not> seen ! unat x) \<and> share_x s \<notin> A" for A
      by blast
    moreover have "check_shares seen (s # ss) = check_shares ?seen ss" using False by simp
    moreover have "length ?seen = 256" using Cons.prems by simp
    ultimately show ?thesis using Cons.IH[of ?seen] False by auto
  qed
qed

lemma check_shares_ok:
  "check_shares (replicate 256 False) ss = Inr () \<longleftrightarrow> 0 \<notin> share_x ` set ss \<and> distinct (map share_x ss)"
  by (subst check_shares_table) auto

lemma distinct_gf_xs: "distinct (gf_xs ss) \<longleftrightarrow> distinct (map share_x ss)"
proof -
  have "gf_xs ss = map GF (map share_x ss)" by (simp add: gf_xs_def)
  moreover have "inj_on GF A" for A by (simp add: inj_on_def)
  ultimately show ?thesis by (simp only: distinct_map simp_thms)
qed

lemma reconstruct_loop_spec:
  assumes "distinct (gf_xs ss)" "distinct idxs" "\<forall>b \<in> set idxs. b < length secret"
  shows "\<exists>bs. reconstruct_loop ss idxs secret = Inr bs \<and> length bs = length secret
    \<and> (\<forall>b < length secret. if b \<in> set idxs then GF (bs ! b) = interpolant (gf_xs ss) (gf_ys ss b) 0
        else bs ! b = secret ! b)"
  using assms(2,3)
proof (induction idxs arbitrary: secret)
  case Nil
  then show ?case by simp
next
  case (Cons i idxs)
  obtain v where v: "lagrange_at_zero ss i = Inr v" "GF v = interpolant (gf_xs ss) (gf_ys ss i) 0"
    using lagrange_at_zero_field[OF assms(1)] by blast
  obtain bs where bs: "reconstruct_loop ss idxs (secret[i := v]) = Inr bs" "length bs = length secret"
    "\<And>b. b < length secret \<Longrightarrow> if b \<in> set idxs then GF (bs ! b) = interpolant (gf_xs ss) (gf_ys ss b) 0
        else bs ! b = secret[i := v] ! b"
    using Cons.IH[of "secret[i := v]"] Cons.prems by auto
  have "if b \<in> set (i # idxs) then GF (bs ! b) = interpolant (gf_xs ss) (gf_ys ss b) 0 else bs ! b = secret ! b"
    if "b < length secret" for b
    using bs(3)[OF that] v(2) Cons.prems that by (cases "b = i") (auto split: if_splits)
  then show ?case using bs v(1) by auto
qed

lemma reconstruct_valid:
  assumes "ss \<noteq> []" "0 \<notin> share_x ` set ss" "distinct (map share_x ss)"
  shows "\<exists>bs. reconstruct_seed ss = Inr bs \<and> length bs = 32
    \<and> (\<forall>b < 32. GF (bs ! b) = interpolant (gf_xs ss) (gf_ys ss b) 0)"
  using reconstruct_loop_spec[of ss "[0..<32]" "replicate 32 0"] assms check_shares_ok[of ss]
  by (simp add: reconstruct_seed_def distinct_gf_xs)

section \<open>What splitting produces\<close>

lemma length_draw_coeffs: "length (fst (draw_coeffs fill n rng)) = n"
  by (induction n arbitrary: rng) (simp_all add: case_prod_beta Let_def)

text \<open>The byte the generator yields after \<open>n\<close> earlier one-byte draws.\<close>

fun nth_draw :: "('r \<Rightarrow> nat \<Rightarrow> bytes \<times> 'r) \<Rightarrow> 'r \<Rightarrow> nat \<Rightarrow> byte" where
  "nth_draw fill rng 0 = fst (draw_byte fill rng)"
| "nth_draw fill rng (Suc n) = nth_draw fill (snd (draw_byte fill rng)) n"

definition lively :: "('r \<Rightarrow> nat \<Rightarrow> bytes \<times> 'r) \<Rightarrow> bool" where
  "lively fill \<longleftrightarrow> (\<forall>rng. \<exists>n. nth_draw fill rng n \<noteq> 0)"

lemma force_nonzero_returns:
  assumes "lively fill" "i < length coeffs"
  shows "\<exists>cs rng'. force_nonzero fill i coeffs rng = Some (cs, rng')
    \<and> length cs = length coeffs \<and> cs ! i \<noteq> 0 \<and> (\<forall>j. j \<noteq> i \<longrightarrow> cs ! j = coeffs ! j)"
proof -
  have "\<exists>cs rng'. force_nonzero fill i coeffs rng = Some (cs, rng')
    \<and> length cs = length coeffs \<and> cs ! i \<noteq> 0 \<and> (\<forall>j. j \<noteq> i \<longrightarrow> cs ! j = coeffs ! j)"
    if "nth_draw fill rng n \<noteq> 0" "i < length coeffs" for n coeffs rng
    using that
  proof (induction n arbitrary: coeffs rng)
    case 0
    then show ?case
      by (subst force_nonzero.simps) (auto simp: case_prod_beta force_nonzero.simps[of fill i "coeffs[i := _]"])
  next
    case (Suc n)
    show ?case
    proof (cases "coeffs ! i = 0")
      case True
      let ?b = "fst (draw_byte fill rng)" and ?r = "snd (draw_byte fill rng)"
      have "force_nonzero fill i coeffs rng = force_nonzero fill i (coeffs[i := ?b]) ?r"
        using True by (subst force_nonzero.simps) (simp add: case_prod_beta)
      moreover have "\<exists>cs rng'. force_nonzero fill i (coeffs[i := ?b]) ?r = Some (cs, rng')
          \<and> length cs = length (coeffs[i := ?b]) \<and> cs ! i \<noteq> 0
          \<and> (\<forall>j. j \<noteq> i \<longrightarrow> cs ! j = coeffs[i := ?b] ! j)"
        using Suc.prems by (intro Suc.IH) simp_all
      ultimately show ?thesis by auto
    next
      case False
      then show ?thesis by (subst force_nonzero.simps) auto
    qed
  qed
  then show ?thesis using assms unfolding lively_def by blast
qed

text \<open>One secret byte: the polynomial behind it.\<close>

definition shares_poly :: "SeedShare list \<Rightarrow> nat \<Rightarrow> nat \<Rightarrow> byte \<Rightarrow> bytes \<Rightarrow> bool" where
  "shares_poly shares b t sb coeffs \<longleftrightarrow> length coeffs = t \<and> coeffs ! 0 = sb \<and> (1 < t \<longrightarrow> last coeffs \<noteq> 0)
     \<and> (\<forall>s \<in> set shares. share_y s ! b = eval_poly coeffs (share_x s))"

lemma split_loop_spec:
  assumes "lively fill" "0 < t" "distinct idxs" "\<forall>b \<in> set idxs. b < 32" "\<forall>s \<in> set shares. length (share_y s) = 32"
    and "\<And>b. b < 32 \<Longrightarrow> b \<notin> set idxs \<Longrightarrow> \<exists>cs. shares_poly shares b t (secret ! b) cs"
  shows "\<exists>out rng'. split_loop fill secret t idxs shares rng = Some (out, rng')
    \<and> map share_x out = map share_x shares \<and> (\<forall>s \<in> set out. length (share_y s) = 32)
    \<and> (\<forall>b < 32. \<exists>cs. shares_poly out b t (secret ! b) cs)"
  using assms(3-6)
proof (induction idxs arbitrary: shares rng)
  case Nil
  then show ?case by auto
next
  case (Cons i idxs)
  obtain cs rng1 where draw: "draw_coeffs fill (t - 1) rng = (cs, rng1)" by (metis surj_pair)
  have lcs: "length cs = t - 1" using length_draw_coeffs[of fill "t - 1" rng] draw by simp
  let ?c = "(secret ! i) # cs"
  obtain c rng2 where c: "(if t > 1 then force_nonzero fill (t - 1) ?c rng1 else Some (?c, rng1)) = Some (c, rng2)"
    and cspec: "length c = t" "c ! 0 = secret ! i" "1 < t \<longrightarrow> last c \<noteq> 0"
  proof (cases "t > 1")
    case True
    then have "t - 1 < length ?c" using lcs by simp
    then obtain c rng2 where f: "force_nonzero fill (t - 1) ?c rng1 = Some (c, rng2)"
      "length c = length ?c" "c ! (t - 1) \<noteq> 0" "\<forall>j. j \<noteq> t - 1 \<longrightarrow> c ! j = ?c ! j"
      using force_nonzero_returns[OF assms(1), of "t - 1" ?c rng1] by blast
    have "c \<noteq> []" "length c = t" using f(2) lcs True by auto
    moreover have "c ! 0 = secret ! i" using f(4) True by simp
    ultimately show thesis using that[of c rng2] f(1,3) True by (simp add: last_conv_nth)
  next
    case False
    then show thesis using that[of ?c rng1] lcs assms(2) by simp
  qed
  let ?sh = "map (\<lambda>s. s\<lparr>share_y := (share_y s)[i := eval_poly c (share_x s)]\<rparr>) shares"
  have step: "split_loop fill secret t (i # idxs) shares rng = split_loop fill secret t idxs ?sh rng2"
    using c draw by (simp add: Let_def)
  have ex: "\<exists>cs. shares_poly ?sh b t (secret ! b) cs" if b: "b < 32" "b \<notin> set idxs" for b
  proof (cases "b = i")
    case True
    have "shares_poly ?sh i t (secret ! i) c"
      using cspec Cons.prems(2,3) by (auto simp: shares_poly_def)
    then show ?thesis using True by blast
  next
    case False
    then obtain d where "shares_poly shares b t (secret ! b) d" using Cons.prems(4)[of b] b by auto
    then have "shares_poly ?sh b t (secret ! b) d" using False by (auto simp: shares_poly_def)
    then show ?thesis by blast
  qed
  have "map share_x ?sh = map share_x shares" by simp
  then show ?case
    unfolding step using Cons.IH[of ?sh rng2, OF _ _ _ ex] Cons.prems(1-3) by auto
qed

lemma split_seed_spec:
  assumes "lively fill" "0 < t" "t \<le> n" "n \<le> 255"
  obtains shares rng' where "split_seed fill secret t n rng = Some (Inr shares, rng')"
    "map share_x shares = map of_nat [1..<n + 1]" "\<forall>s \<in> set shares. length (share_y s) = 32"
    "\<And>b. b < 32 \<Longrightarrow> \<exists>cs. shares_poly shares b t (secret ! b) cs"
proof -
  let ?sh = "map (\<lambda>x. \<lparr>share_x = of_nat x, share_y = replicate 32 0\<rparr>) [1..<n + 1]"
  have "\<exists>out rng'. split_loop fill secret t [0..<32] ?sh rng = Some (out, rng')
    \<and> map share_x out = map share_x ?sh \<and> (\<forall>s \<in> set out. length (share_y s) = 32)
    \<and> (\<forall>b < 32. \<exists>cs. shares_poly out b t (secret ! b) cs)"
    by (rule split_loop_spec[OF assms(1,2)]) auto
  then show thesis using that assms(2-4) by (auto simp: split_seed_def comp_def simp del: upt_Suc)
qed

lemma indices_distinct_nonzero:
  assumes "n \<le> 255"
  shows "distinct (map of_nat [1..<n + 1] :: byte list)" "(0 :: byte) \<notin> of_nat ` set [1..<n + 1]"
proof -
  have u: "unat (of_nat k :: byte) = k" if "k < n + 1" for k
    using that assms by (simp add: unat_of_nat)
  have "inj_on (of_nat :: nat \<Rightarrow> byte) (set [1..<n + 1])"
    by (rule inj_onI) (metis atLeastLessThan_iff set_upt u)
  then show "distinct (map of_nat [1..<n + 1] :: byte list)" by (simp add: distinct_map)
  show "(0 :: byte) \<notin> of_nat ` set [1..<n + 1]"
  proof
    assume "(0 :: byte) \<in> of_nat ` set [1..<n + 1]"
    then obtain k where "(of_nat k :: byte) = 0" "1 \<le> k" "k < n + 1" by auto
    then show False using u[of k] by simp
  qed
qed

lemma poly_points:
  assumes "shares_poly shares b t sb cs" "set sub \<subseteq> set shares"
  shows "j < length sub \<Longrightarrow> gf_ys sub b ! j = ev (map GF cs) (gf_xs sub ! j)"
proof -
  assume j: "j < length sub"
  then have "sub ! j \<in> set shares" using assms(2) nth_mem by blast
  then have "share_y (sub ! j) ! b = eval_poly cs (share_x (sub ! j))" using assms(1) by (simp add: shares_poly_def)
  then show ?thesis using j by (simp add: gf_ys_def gf_xs_def GF_eval_poly[symmetric])
qed

text \<open>Any sub-list of the shares of a split is valid input.\<close>

lemma sub_shares_valid:
  assumes "map share_x shares = map of_nat [1..<n + 1]" "n \<le> 255" "set sub \<subseteq> set shares" "distinct sub"
  shows "0 \<notin> share_x ` set sub" "distinct (map share_x sub)"
proof -
  have d: "distinct (map share_x shares)" unfolding assms(1) by (rule indices_distinct_nonzero[OF assms(2)])
  have "share_x ` set shares = of_nat ` set [1..<n + 1]" by (metis assms(1) set_map)
  then have "0 \<notin> share_x ` set shares" using indices_distinct_nonzero(2)[OF assms(2)] by (simp only:) blast
  then show "0 \<notin> share_x ` set sub" using assms(3) by blast
  show "distinct (map share_x sub)"
    using d assms(3,4) by (auto simp: distinct_map intro: inj_on_subset)
qed

lemma enough_shares_reconstruct:
  assumes "length secret = 32" "0 < t" "n \<le> 255" "map share_x shares = map of_nat [1..<n + 1]"
    and poly: "\<And>b. b < 32 \<Longrightarrow> \<exists>cs. shares_poly shares b t (secret ! b) cs"
    and sub: "set sub \<subseteq> set shares" "distinct sub" "t \<le> length sub"
  shows "reconstruct_seed sub = Inr secret"
proof -
  note valid = sub_shares_valid[OF assms(4,3) sub(1,2)]
  have ne: "sub \<noteq> []" using sub(3) assms(2) by auto
  obtain bs where bs: "reconstruct_seed sub = Inr bs" "length bs = 32"
    "\<And>b. b < 32 \<Longrightarrow> GF (bs ! b) = interpolant (gf_xs sub) (gf_ys sub b) 0"
    using reconstruct_valid[OF ne valid] by blast
  have "bs ! b = secret ! b" if b: "b < 32" for b
  proof -
    obtain cs where cs: "shares_poly shares b t (secret ! b) cs" using poly[OF b] by blast
    have "interpolant (gf_xs sub) (gf_ys sub b) 0 = ev (map GF cs) 0"
    proof (rule interpolant_unique)
      show "distinct (gf_xs sub)" using valid(2) by (simp only: distinct_gf_xs)
      show "gf_xs sub \<noteq> []" using ne by (simp add: gf_xs_def)
      show "length (map GF cs) \<le> length (gf_xs sub)" using cs sub(3) by (simp add: shares_poly_def gf_xs_def)
      show "gf_ys sub b ! j = ev (map GF cs) (gf_xs sub ! j)" if "j < length (gf_xs sub)" for j
        using poly_points[OF cs sub(1), of j] that by (simp add: gf_xs_def)
    qed
    also have "\<dots> = GF (secret ! b)"
      using cs assms(2) by (cases cs) (auto simp: shares_poly_def)
    finally show ?thesis using bs(3)[OF b] by simp
  qed
  then have "bs = secret" using bs(2) assms(1) by (intro nth_equalityI) auto
  then show ?thesis using bs(1) by simp
qed

lemma split_then_reconstruct:
  assumes "lively fill" "length secret = 32" "0 < t" "t \<le> n" "n \<le> 255"
  obtains shares rng' where "split_seed fill secret t n rng = Some (Inr shares, rng')"
    "length shares = n" "distinct (map share_x shares)" "\<forall>s \<in> set shares. share_x s \<noteq> 0 \<and> length (share_y s) = 32"
    "\<forall>sub. set sub \<subseteq> set shares \<longrightarrow> distinct sub \<longrightarrow> t \<le> length sub \<longrightarrow> reconstruct_seed sub = Inr secret"
proof -
  obtain shares rng' where sh: "split_seed fill secret t n rng = Some (Inr shares, rng')"
    "map share_x shares = map of_nat [1..<n + 1]" "\<forall>s \<in> set shares. length (share_y s) = 32"
    and poly: "\<And>b. b < 32 \<Longrightarrow> \<exists>cs. shares_poly shares b t (secret ! b) cs"
    using split_seed_spec[OF assms(1,3-5), of secret rng] by metis
  show thesis
  proof
    show "split_seed fill secret t n rng = Some (Inr shares, rng')" by (rule sh(1))
    show "length shares = n" using arg_cong[OF sh(2), of length] by simp
    show "distinct (map share_x shares)" unfolding sh(2) by (rule indices_distinct_nonzero(1)[OF assms(5)])
    have "share_x ` set shares = of_nat ` set [1..<n + 1]" by (metis sh(2) set_map)
    then have "0 \<notin> share_x ` set shares" using indices_distinct_nonzero(2)[OF assms(5)] by (simp only:) blast
    then show "\<forall>s \<in> set shares. share_x s \<noteq> 0 \<and> length (share_y s) = 32" using sh(3) by (metis imageI)
    show "\<forall>sub. set sub \<subseteq> set shares \<longrightarrow> distinct sub \<longrightarrow> t \<le> length sub \<longrightarrow> reconstruct_seed sub = Inr secret"
      using enough_shares_reconstruct[OF assms(2,3,5) sh(2) poly] by blast
  qed
qed

section \<open>Theorems\<close>

text \<open>C12. Threshold sharing works: with a generator that does not return zeros for ever, splitting
  succeeds for every \<open>1 \<le> t \<le> n \<le> 255\<close>, and any \<open>t\<close> or more of the shares, in any order, give
  the secret back.\<close>

theorem shamir_reconstructs:
  assumes "lively fill" "length secret = 32" "0 < t" "t \<le> n" "n \<le> 255"
  shows "\<exists>shares rng'. split_seed fill secret t n rng = Some (Inr shares, rng')
    \<and> length shares = n \<and> distinct (map share_x shares)
    \<and> (\<forall>sub. set sub \<subseteq> set shares \<longrightarrow> distinct sub \<longrightarrow> t \<le> length sub \<longrightarrow> reconstruct_seed sub = Inr secret)"
  using split_then_reconstruct[OF assms, of rng] by metis

text \<open>A generator for the witnesses.\<close>

definition sevens :: "unit \<Rightarrow> nat \<Rightarrow> bytes \<times> unit" where
  "sevens rng n = (replicate n 7, rng)"

lemma lively_sevens: "lively sevens"
  unfolding lively_def by (intro allI exI[of _ 0]) (simp add: draw_byte_def sevens_def)

theorem shamir_reconstructs_witness:
  "\<exists>shares rng'. split_seed sevens (replicate 32 42) 2 3 () = Some (Inr shares, rng')
    \<and> reconstruct_seed [shares ! 2, shares ! 0] = Inr (replicate 32 42)"
proof -
  obtain shares rng' where sh: "split_seed sevens (replicate 32 42) 2 3 () = Some (Inr shares, rng')"
    "length shares = 3" "distinct (map share_x shares)"
    "\<forall>sub. set sub \<subseteq> set shares \<longrightarrow> distinct sub \<longrightarrow> 2 \<le> length sub \<longrightarrow> reconstruct_seed sub = Inr (replicate 32 42)"
    using shamir_reconstructs[OF lively_sevens, of "replicate 32 42" 2 3 "()"] by auto
  have "shares ! 2 \<noteq> shares ! 0" using sh(2,3) by (simp add: distinct_map nth_eq_iff_index_eq)
  then have "reconstruct_seed [shares ! 2, shares ! 0] = Inr (replicate 32 42)"
    using sh(2,4) by simp
  then show ?thesis using sh(1) by blast
qed

text \<open>One share too few: reconstruction from \<open>t - 1\<close> shares succeeds without a warning, and every
  byte of its result differs from the secret's, because the leading coefficient is forced to be
  nonzero. So \<open>t - 1\<close> shares rule out one value of every secret byte.\<close>

theorem shamir_one_share_short:
  assumes "lively fill" "length secret = 32" "1 < t" "t \<le> n" "n \<le> 255"
  shows "\<exists>shares rng'. split_seed fill secret t n rng = Some (Inr shares, rng')
    \<and> (\<forall>sub. set sub \<subseteq> set shares \<longrightarrow> distinct sub \<longrightarrow> length sub = t - 1
        \<longrightarrow> (\<exists>bs. reconstruct_seed sub = Inr bs \<and> (\<forall>b < 32. bs ! b \<noteq> secret ! b)))"
proof -
  have "0 < t" using assms(3) by simp
  then obtain shares rng' where sh: "split_seed fill secret t n rng = Some (Inr shares, rng')"
    "map share_x shares = map of_nat [1..<n + 1]" "\<forall>s \<in> set shares. length (share_y s) = 32"
    and poly: "\<And>b. b < 32 \<Longrightarrow> \<exists>cs. shares_poly shares b t (secret ! b) cs"
    using split_seed_spec[OF assms(1) _ assms(4,5), of secret rng] by metis
  have "\<exists>bs. reconstruct_seed sub = Inr bs \<and> (\<forall>b < 32. bs ! b \<noteq> secret ! b)"
    if sub: "set sub \<subseteq> set shares" "distinct sub" "length sub = t - 1" for sub
  proof -
    note valid = sub_shares_valid[OF sh(2) assms(5) sub(1,2)]
    have ne: "sub \<noteq> []" using sub(3) assms(3) by auto
    obtain bs where bs: "reconstruct_seed sub = Inr bs" "length bs = 32"
      "\<And>b. b < 32 \<Longrightarrow> GF (bs ! b) = interpolant (gf_xs sub) (gf_ys sub b) 0"
      using reconstruct_valid[OF ne valid] by blast
    have "bs ! b \<noteq> secret ! b" if b: "b < 32" for b
    proof
      assume eq: "bs ! b = secret ! b"
      obtain cs where cs: "shares_poly shares b t (secret ! b) cs" using poly[OF b] by blast
      have len: "length (map GF cs) = length (gf_xs sub) + 1"
        using cs sub(3) assms(3) by (simp add: shares_poly_def gf_xs_def)
      have xs: "distinct (gf_xs sub)" "gf_xs sub \<noteq> []"
        using valid(2) ne by (simp_all only: distinct_gf_xs) (simp add: gf_xs_def)
      have "ev (map GF cs) 0 - interpolant (gf_xs sub) (gf_ys sub b) 0
          = last (map GF cs) * (\<Prod>r\<leftarrow>gf_xs sub. 0 - r)"
        by (rule interpolant_short[OF xs len]) (simp add: poly_points[OF cs sub(1)] gf_xs_def)
      moreover have "ev (map GF cs) 0 = GF (secret ! b)"
        using cs assms(3) by (cases cs) (auto simp: shares_poly_def)
      ultimately have "last (map GF cs) * (\<Prod>r\<leftarrow>gf_xs sub. 0 - r) = 0"
        using bs(3)[OF b] eq by simp
      moreover have "last (map GF cs) \<noteq> 0"
      proof -
        have "cs \<noteq> []" "last cs \<noteq> 0" using cs assms(3) by (auto simp: shares_poly_def)
        then show ?thesis by (simp add: last_map GF_0[symmetric])
      qed
      moreover have "(\<Prod>r\<leftarrow>gf_xs sub. 0 - r) \<noteq> 0"
      proof -
        have "0 \<notin> set (map (\<lambda>r. 0 - r) (gf_xs sub))"
          using valid(1) by (auto simp: gf_xs_def gf_minus GF_0[symmetric])
        then show ?thesis by (simp add: prod_list_zero_iff)
      qed
      ultimately show False by simp
    qed
    then show ?thesis using bs(1) by blast
  qed
  then show ?thesis using sh(1) by blast
qed

theorem shamir_one_share_short_witness:
  "\<exists>shares rng' bs. split_seed sevens (replicate 32 42) 2 3 () = Some (Inr shares, rng')
    \<and> reconstruct_seed [hd shares] = Inr bs \<and> bs ! 0 \<noteq> 42"
proof -
  obtain shares rng' where sh: "split_seed sevens (replicate 32 42) 2 3 () = Some (Inr shares, rng')"
    "\<forall>sub. set sub \<subseteq> set shares \<longrightarrow> distinct sub \<longrightarrow> length sub = 2 - 1
        \<longrightarrow> (\<exists>bs. reconstruct_seed sub = Inr bs \<and> (\<forall>b < 32. bs ! b \<noteq> replicate 32 42 ! b))"
    using shamir_one_share_short[OF lively_sevens, of "replicate 32 42" 2 3 "()"] by auto
  have "shares \<noteq> []"
    using split_seed_spec[OF lively_sevens, of 2 3 "replicate 32 42" "()"] sh(1) by fastforce
  then have "\<exists>bs. reconstruct_seed [hd shares] = Inr bs \<and> (\<forall>b < 32. bs ! b \<noteq> replicate 32 42 ! b)"
    using sh(2) by simp
  then show ?thesis using sh(1) by fastforce
qed

section \<open>Hex round trip\<close>

lemma hex_pairs_encode: "hex_pairs (hex_encode bs) = Inr bs"
proof (induction bs)
  case Nil
  then show ?case by (simp add: hex_encode_def)
next
  case (Cons b bs)
  have plus: "hex_digit n \<noteq> CHR ''+''" if "n < 16" for n
    using digit_value_hex_digit[OF that] by (auto simp: digit_value_def)
  have "u8_from_hex2 (hex_digit (unat b div 16)) (hex_digit (unat b mod 16)) = Inr b"
    by (simp add: u8_from_hex2_def plus div_less_iff_less_mult)
  then have "hex_pairs (hex_digit (unat b div 16) # hex_digit (unat b mod 16) # hex_encode bs) = Inr (b # bs)"
    using Cons.IH by simp
  then show ?case by (simp add: hex_encode_def hex_byte_def)
qed

lemma share_hex_roundtrip:
  assumes "share_x s \<noteq> 0" "length (share_y s) = 32"
  shows "decode_share_hex (encode_share_hex s) = Inr s"
proof -
  have e: "encode_share_hex s = hex_encode (share_x s # share_y s)"
    by (simp add: encode_share_hex_def hex_encode_def)
  show ?thesis
    using assms by (simp add: decode_share_hex_def e hex_decode_def hex_pairs_encode slice_def)
qed

text \<open>A plus sign is accepted in place of a leading zero: one share has several spellings.\<close>

lemma decode_share_hex_plus:
  assumes "length ys = 32"
  shows "decode_share_hex (''+1'' @ hex_encode ys) = Inr \<lparr>share_x = 1, share_y = ys\<rparr>"
proof -
  have "trim (''+1'' @ hex_encode ys) = ''+1'' @ hex_encode ys"
    by (rule trim_id) (auto simp: is_whitespace_def dest: hex_encode_no_space)
  moreover have "u8_from_hex2 (CHR ''+'') (CHR ''1'') = Inr 1"
    by (simp add: u8_from_hex2_def digit_value_def)
  ultimately show ?thesis
    using assms by (simp add: decode_share_hex_def hex_decode_def hex_pairs_encode slice_def)
qed

end
