(* ===== verification/Topology_Types.thy ===== *)
theory Topology_Types
  imports Kem Float64
begin

text \<open>
  \<^verbatim>\<open>crates/aegis-topology/src/types.rs\<close> and \<^verbatim>\<open>error.rs\<close>: relay identities, the records of the
  admission roster and the error values of the topology crate. SHA3-256 is the argument \<open>H\<close>
  where nothing else of the cryptographic library is used. A Rust \<open>String\<close> that is only compared
  and hashed (the jurisdiction label) is its UTF-8 byte sequence.
\<close>

definition RELAY_ID_DOMAIN :: bytes where
  "RELAY_ID_DOMAIN = ascii ''aegis-relay-id-v1''"

datatype RelayId = RelayId (as_bytes: bytes)

text \<open>\<open>derive(PartialOrd, Ord)\<close> on \<open>[u8; 32]\<close>: lexicographic.\<close>

instantiation RelayId :: linorder
begin

definition less_eq_RelayId :: "RelayId \<Rightarrow> RelayId \<Rightarrow> bool" where
  "less_eq_RelayId a b \<longleftrightarrow> as_bytes a \<le> as_bytes b"

definition less_RelayId :: "RelayId \<Rightarrow> RelayId \<Rightarrow> bool" where
  "less_RelayId a b \<longleftrightarrow> as_bytes a < as_bytes b"

instance
  by standard (auto simp: less_eq_RelayId_def less_RelayId_def RelayId.expand)

end

definition relay_id_from_u64 :: "u64 \<Rightarrow> RelayId" where
  "relay_id_from_u64 n = RelayId (put 0 (u64_to_le n) (replicate 32 0))"

type_synonym JurisdictionId = bytes
type_synonym KemPublicCommitment = bytes

definition from_kem_commitment :: "(bytes \<Rightarrow> bytes) \<Rightarrow> KemPublicCommitment \<Rightarrow> RelayId" where
  "from_kem_commitment H commitment = RelayId (H (RELAY_ID_DOMAIN @ commitment))"

definition commitment_from_public ::
    "('xs, 'ms, 'mp, 'r) crypto_lib \<Rightarrow> 'mp RelayKemPublic \<Rightarrow> KemPublicCommitment" where
  "commitment_from_public L pk = kem_public_commitment L pk"

record RelayRecord =
  rec_id :: RelayId
  rec_jurisdiction :: JurisdictionId
  rec_commitment :: KemPublicCommitment

definition record_new ::
    "('xs, 'ms, 'mp, 'r) crypto_lib \<Rightarrow> RelayId \<Rightarrow> JurisdictionId \<Rightarrow> 'mp RelayKemPublic \<Rightarrow> RelayRecord" where
  "record_new L i j pk =
     \<lparr>rec_id = i, rec_jurisdiction = j, rec_commitment = commitment_from_public L pk\<rparr>"

definition from_kem_public ::
    "('xs, 'ms, 'mp, 'r) crypto_lib \<Rightarrow> JurisdictionId \<Rightarrow> 'mp RelayKemPublic \<Rightarrow> RelayRecord" where
  "from_kem_public L j pk =
     (let c = commitment_from_public L pk in
      \<lparr>rec_id = from_kem_commitment (lib_sha3_256 L) c, rec_jurisdiction = j, rec_commitment = c\<rparr>)"

definition binds_kem_public ::
    "('xs, 'ms, 'mp, 'r) crypto_lib \<Rightarrow> RelayRecord \<Rightarrow> 'mp RelayKemPublic \<Rightarrow> bool" where
  "binds_kem_public L r pk \<longleftrightarrow> rec_commitment r = commitment_from_public L pk"

definition id_matches_kem_commitment :: "(bytes \<Rightarrow> bytes) \<Rightarrow> RelayRecord \<Rightarrow> bool" where
  "id_matches_kem_commitment H r \<longleftrightarrow> rec_id r = from_kem_commitment H (rec_commitment r)"

lemma from_kem_public_binds [simp]:
  "binds_kem_public L (from_kem_public L j pk) pk"
  "id_matches_kem_commitment (lib_sha3_256 L) (from_kem_public L j pk)"
  by (simp_all add: binds_kem_public_def from_kem_public_def id_matches_kem_commitment_def Let_def)

record TopologyConfig =
  cfg_layer_count :: nat

definition topology_config_default :: TopologyConfig where
  "topology_config_default = \<lparr>cfg_layer_count = 4\<rparr>"

definition high_threat :: TopologyConfig where
  "high_threat = topology_config_default"

definition standard_config :: TopologyConfig where
  "standard_config = \<lparr>cfg_layer_count = 3\<rparr>"

section \<open>Errors\<close>

datatype TopologyError =
    EmptyRoster
  | InvalidLayerCount nat
  | EmptyLayer nat u64
  | NotAdmitted RelayId
  | InsufficientGuards nat nat
  | RelayNotFound RelayId
  | InsufficientReputation nat nat f64
  | ReputationPathExhausted nat

datatype RosterError =
    InvalidSignature RelayId
  | AuthorityMismatch
  | RosterIo
  | Deserialize string
  | AdmissionRateLimitExceeded nat nat u64
  | InsufficientSignatures nat nat
  | DuplicateAuthority
  | UnknownAuthority
  | AnomalyBlockedAdmission RelayId
  | RelayIdCommitmentMismatch RelayId
  | UnverifiedRosterNotAllowed
  | InvalidAuthorityPubkey

end
