(* ===== verification/Signatures.thy ===== *)
theory Signatures
  imports Aegis_Prelude
begin

text \<open>
  Ed25519 (the crate \<open>ed25519_dalek\<close>) as an argument of the definitions that sign or verify:
  the consortium admission of the roster, the operator signature of the reputation ledger, the
  beacon and the health observations. The type variables are the opaque key types.
\<close>

record ('sk, 'vk) sig_lib =
  ed_from_seed :: "bytes \<Rightarrow> 'sk"
  ed_verifying_key :: "'sk \<Rightarrow> 'vk"
  ed_sign :: "'sk \<Rightarrow> bytes \<Rightarrow> bytes"
  ed_to_bytes :: "'vk \<Rightarrow> bytes"
  ed_from_bytes :: "bytes \<Rightarrow> 'vk option"
  ed_sig_from_slice :: "bytes \<Rightarrow> bytes option"
  ed_verify :: "'vk \<Rightarrow> bytes \<Rightarrow> bytes \<Rightarrow> bool"

text \<open>Documented behaviour: sizes, and a signature verifies under the key of its signer.\<close>

definition sig_laws :: "('sk, 'vk) sig_lib \<Rightarrow> bool" where
  "sig_laws S \<longleftrightarrow>
     (\<forall>sk m. length (ed_sign S sk m) = 64
        \<and> ed_sig_from_slice S (ed_sign S sk m) = Some (ed_sign S sk m)
        \<and> ed_verify S (ed_verifying_key S sk) m (ed_sign S sk m))
     \<and> (\<forall>vk. length (ed_to_bytes S vk) = 32 \<and> ed_from_bytes S (ed_to_bytes S vk) = Some vk)"

lemma sig_lawsD:
  assumes "sig_laws S"
  shows "length (ed_sign S sk m) = 64" "ed_sig_from_slice S (ed_sign S sk m) = Some (ed_sign S sk m)"
    "ed_verify S (ed_verifying_key S sk) m (ed_sign S sk m)" "length (ed_to_bytes S vk) = 32"
    "ed_from_bytes S (ed_to_bytes S vk) = Some vk"
  using assms by (simp_all add: sig_laws_def)

lemma ed_to_bytes_inj: "sig_laws S \<Longrightarrow> ed_to_bytes S a = ed_to_bytes S b \<longleftrightarrow> a = b"
  by (metis option.inject sig_lawsD(5))

text \<open>A small instance that has the laws, for the witnesses.\<close>

definition toy_sig :: "(byte, byte) sig_lib" where
  "toy_sig = \<lparr>ed_from_seed = (\<lambda>s. s ! 0), ed_verifying_key = (\<lambda>sk. sk),
     ed_sign = (\<lambda>sk m. (sk + sum_list m) # replicate 63 0),
     ed_to_bytes = (\<lambda>vk. replicate 32 vk),
     ed_from_bytes = (\<lambda>bs. if length bs = 32 then Some (hd bs) else None),
     ed_sig_from_slice = (\<lambda>bs. if length bs = 64 then Some bs else None),
     ed_verify = (\<lambda>vk m s. s = (vk + sum_list m) # replicate 63 0)\<rparr>"

lemma toy_sig_laws: "sig_laws toy_sig"
  unfolding sig_laws_def toy_sig_def by (simp add: numeral_eq_Suc)

end
