(* ===== verification/Reputation.thy ===== *)
theory Reputation
  imports Float64 Text_Codec Signatures Assoc_Lists "HOL-Library.Multiset"
begin

text \<open>
  \<^verbatim>\<open>crates/aegis-trust/src/reputation.rs\<close>, \<^verbatim>\<open>anomaly.rs\<close> and \<^verbatim>\<open>policy.rs\<close>: the EWMA ledger of
  relay scores with its signed file, the z-score detector and the policy that demotes a relay on an
  anomaly. Scores are \<open>f64\<close> values of theory Float64, so every rounding of the code is there.
  The ledger file is the value that is serialised; JSON and the file system are outside.
\<close>

section \<open>Scores\<close>

definition LEDGER_FILE_VERSION :: u32 where "LEDGER_FILE_VERSION = 1"

text \<open>\<open>b"AEGIS-REPUTATION-LEDGER-v1"\<close>\<close>

definition LEDGER_SIG_DOMAIN :: bytes where
  "LEDGER_SIG_DOMAIN = map of_char ''AEGIS-REPUTATION-LEDGER-v1''"

datatype ReputationError =
    InvalidDecay f64
  | UnknownRelay
  | RepIo
  | RepJson
  | RepUnsupportedVersion u32
  | DecayMismatch f64 f64
  | InvalidRelayId string
  | MissingSignature
  | RepInvalidSignature
  | InvalidKey string

definition NEUTRAL :: f64 where "NEUTRAL = f64_of_rat (5 / 10)"
definition PROBATIONARY :: f64 where "PROBATIONARY = f64_of_rat (1 / 10)"

definition clamp01 :: "f64 \<Rightarrow> f64" where
  "clamp01 x = f64_clamp (Fin 0) (Fin 1) x"

text \<open>The map of scores, in the order an iteration visits it.\<close>

record ReputationLedger =
  decay :: f64
  scores :: "(bytes \<times> f64) list"

definition from_scores :: "f64 \<Rightarrow> (bytes \<times> f64) list \<Rightarrow> (ReputationError, ReputationLedger) result" where
  "from_scores d ss =
     (if \<not> (f64_lt (Fin 0) d \<and> f64_le d (Fin 1)) then Inl (InvalidDecay d)
      else Inr \<lparr>decay = d, scores = ss\<rparr>)"

definition ledger_new :: "f64 \<Rightarrow> (ReputationError, ReputationLedger) result" where
  "ledger_new d = from_scores d []"

definition score :: "ReputationLedger \<Rightarrow> bytes \<Rightarrow> f64" where
  "score l relay = (case map_of (scores l) relay of Some s \<Rightarrow> s | None \<Rightarrow> NEUTRAL)"

definition admit_new_relay :: "ReputationLedger \<Rightarrow> bytes \<Rightarrow> ReputationLedger" where
  "admit_new_relay l relay =
     (case map_of (scores l) relay of
        Some _ \<Rightarrow> l
      | None \<Rightarrow> l\<lparr>scores := AList.update relay PROBATIONARY (scores l)\<rparr>)"

definition update_score :: "ReputationLedger \<Rightarrow> bytes \<Rightarrow> f64 \<Rightarrow> ReputationLedger" where
  "update_score l relay outcome =
     (let prev = (case map_of (scores l) relay of Some s \<Rightarrow> s | None \<Rightarrow> NEUTRAL);
          nxt = clamp01 (f64_add (f64_mul (decay l) prev) (f64_mul (f64_sub (Fin 1) (decay l)) outcome))
      in l\<lparr>scores := AList.update relay nxt (scores l)\<rparr>)"

definition record_success :: "ReputationLedger \<Rightarrow> bytes \<Rightarrow> ReputationLedger" where
  "record_success l relay = update_score l relay (Fin 1)"

definition record_failure :: "ReputationLedger \<Rightarrow> bytes \<Rightarrow> ReputationLedger" where
  "record_failure l relay = update_score l relay (Fin 0)"

definition record_aggregate :: "ReputationLedger \<Rightarrow> bytes \<Rightarrow> u64 \<Rightarrow> u64 \<Rightarrow> ReputationLedger" where
  "record_aggregate l relay successes failures =
     (let total = sat_add64 successes failures in
      if total = 0 then l
      else update_score l relay (f64_div (f64_of_nat (unat successes)) (f64_of_nat (unat total))))"

definition below_threshold :: "ReputationLedger \<Rightarrow> f64 \<Rightarrow> bytes list" where
  "below_threshold l threshold = map fst (filter (\<lambda>(i, s). f64_lt s threshold) (scores l))"

section \<open>The ledger file\<close>

record ReputationLedgerFile =
  rep_version :: u32
  rep_decay :: f64
  rep_scores :: "(string \<times> f64) list"
  rep_signature :: "string option"
  rep_signer_pubkey :: "string option"

text \<open>\<open>trim_start_matches("0x")\<close> removes the prefix as often as it occurs.\<close>

fun trim_0x :: "string \<Rightarrow> string" where
  "trim_0x (a # b # s) = (if a = CHR ''0'' \<and> b = CHR ''x'' then trim_0x s else a # b # s)"
| "trim_0x s = s"

definition parse_hex32 :: "string \<Rightarrow> (ReputationError, bytes) result" where
  "parse_hex32 s =
     (let s = trim_0x (trim s) in
      if length s \<noteq> 64 then Inl (InvalidKey ''expected 64 hex chars'')
      else ok_or (parse_chunks s) (InvalidKey ''invalid hex digit''))"

definition parse_hex64 :: "string \<Rightarrow> (ReputationError, bytes) result" where
  "parse_hex64 s =
     (let s = trim_0x (trim s) in
      if length s \<noteq> 128 then Inl (InvalidKey ''expected 128 hex chars'')
      else ok_or (parse_chunks s) (InvalidKey ''invalid hex digit''))"

definition parse_hex_relay :: "string \<Rightarrow> (ReputationError, bytes) result" where
  "parse_hex_relay s =
     (case parse_hex32 s of
        Inl (InvalidKey _) \<Rightarrow> Inl (InvalidRelayId s)
      | Inl other \<Rightarrow> Inl other
      | Inr bs \<Rightarrow> Inr bs)"

definition canonical_ledger_bytes :: "u32 \<Rightarrow> f64 \<Rightarrow> (string \<times> f64) list \<Rightarrow> bytes" where
  "canonical_ledger_bytes version d ss =
     LEDGER_SIG_DOMAIN @ u32_to_le version @ u64_to_le (f64_to_bits d)
     @ concat (map (\<lambda>(hex, s). case parse_hex_relay hex of
           Inl _ \<Rightarrow> []
         | Inr relay \<Rightarrow> relay @ u64_to_le (f64_to_bits s))
         (sort_key fst ss))"

definition write_file :: "('sk, 'vk) sig_lib \<Rightarrow> ReputationLedger \<Rightarrow> 'sk option \<Rightarrow> ReputationLedgerFile" where
  "write_file S l signing_key =
     (let ss = map (\<lambda>(relay, s). (hex_encode relay, s)) (scores l);
          (sig, signer) = (case signing_key of
              Some sk \<Rightarrow>
                (Some (hex_encode (ed_sign S sk (canonical_ledger_bytes LEDGER_FILE_VERSION (decay l) ss))),
                 Some (hex_encode (ed_to_bytes S (ed_verifying_key S sk))))
            | None \<Rightarrow> (None, None))
      in \<lparr>rep_version = LEDGER_FILE_VERSION, rep_decay = decay l, rep_scores = ss,
          rep_signature = sig, rep_signer_pubkey = signer\<rparr>)"

definition verify_ledger_file ::
    "('sk, 'vk) sig_lib \<Rightarrow> ReputationLedgerFile \<Rightarrow> 'vk \<Rightarrow> (ReputationError, unit) result" where
  "verify_ledger_file S file vk =
     bind_result (ok_or (rep_signature file) MissingSignature) (\<lambda>sig_hex.
     bind_result (ok_or (rep_signer_pubkey file) MissingSignature) (\<lambda>pk_hex.
     bind_result (case parse_hex32 pk_hex of Inl _ \<Rightarrow> Inl RepInvalidSignature | Inr b \<Rightarrow> Inr b) (\<lambda>pk_bytes.
     if pk_bytes \<noteq> ed_to_bytes S vk then Inl RepInvalidSignature
     else bind_result (case parse_hex64 sig_hex of Inl _ \<Rightarrow> Inl RepInvalidSignature | Inr b \<Rightarrow> Inr b) (\<lambda>sig.
       if ed_verify S vk (canonical_ledger_bytes (rep_version file) (rep_decay file) (rep_scores file)) sig
       then Inr () else Inl RepInvalidSignature))))"

fun load_scores :: "(string \<times> f64) list \<Rightarrow> (bytes \<times> f64) list \<Rightarrow> (ReputationError, (bytes \<times> f64) list) result" where
  "load_scores [] acc = Inr acc"
| "load_scores ((hex, s) # rest) acc =
     bind_result (parse_hex_relay hex) (\<lambda>relay. load_scores rest (AList.update relay (clamp01 s) acc))"

definition F64_EPSILON :: f64 where "F64_EPSILON = Fin (1 / 2 ^ 52)"

definition load_from_file_with_verify ::
    "('sk, 'vk) sig_lib \<Rightarrow> ReputationLedgerFile \<Rightarrow> f64 \<Rightarrow> 'vk option \<Rightarrow> (ReputationError, ReputationLedger) result" where
  "load_from_file_with_verify S file expected_decay verifying_key =
     (if rep_version file \<noteq> LEDGER_FILE_VERSION then Inl (RepUnsupportedVersion (rep_version file))
      else if f64_lt F64_EPSILON (f64_abs (f64_sub (rep_decay file) expected_decay))
      then Inl (DecayMismatch (rep_decay file) expected_decay)
      else bind_result (case verifying_key of Some vk \<Rightarrow> verify_ledger_file S file vk | None \<Rightarrow> Inr ()) (\<lambda>_.
        bind_result (load_scores (rep_scores file) []) (\<lambda>ss. from_scores expected_decay ss)))"

section \<open>The anomaly detector\<close>

record AnomalyDetector =
  det_alpha :: f64
  det_mean :: f64
  det_var :: f64
  det_n :: u64
  det_z_threshold :: f64

record AnomalyVerdict =
  z_score :: f64
  is_anomalous :: bool

definition detector_new :: "f64 \<Rightarrow> f64 \<Rightarrow> AnomalyDetector" where
  "detector_new alpha z_threshold =
     \<lparr>det_alpha = f64_clamp (f64_of_rat (1 / 10 ^ 6)) (Fin 1) alpha, det_mean = Fin 0, det_var = Fin 0,
      det_n = 0, det_z_threshold = z_threshold\<rparr>"

definition observe :: "AnomalyDetector \<Rightarrow> f64 \<Rightarrow> AnomalyVerdict \<times> AnomalyDetector" where
  "observe d x =
     (let verdict =
            (if det_n d < 2 then \<lparr>z_score = Fin 0, is_anomalous = False\<rparr>
             else let std = f64_max (f64_sqrt (det_var d)) (f64_of_rat (1 / 10 ^ 9));
                      z = f64_div (f64_sub x (det_mean d)) std
                  in \<lparr>z_score = z, is_anomalous = f64_lt (det_z_threshold d) (f64_abs z)\<rparr>);
          delta = f64_sub x (det_mean d);
          mean = f64_add (det_mean d) (f64_mul (det_alpha d) delta);
          var = f64_mul (f64_sub (Fin 1) (det_alpha d))
                  (f64_add (det_var d) (f64_mul (f64_mul (det_alpha d) delta) delta))
      in (verdict, d\<lparr>det_mean := mean, det_var := var, det_n := det_n d + 1\<rparr>))"

section \<open>The pruning policy\<close>

definition DEFAULT_PATH_REPUTATION_FLOOR :: f64 where
  "DEFAULT_PATH_REPUTATION_FLOOR = f64_of_rat (3 / 10)"

definition MAX_ANOMALY_DEMOTION_STRIKES :: nat where
  "MAX_ANOMALY_DEMOTION_STRIKES = 32"

record RelayPruningPolicy =
  pol_ledger :: ReputationLedger
  pol_detectors :: "bytes \<rightharpoonup> AnomalyDetector"
  pol_alpha :: f64
  pol_z_threshold :: f64

definition with_ledger :: "ReputationLedger \<Rightarrow> f64 \<Rightarrow> f64 \<Rightarrow> RelayPruningPolicy" where
  "with_ledger l alpha z = \<lparr>pol_ledger = l, pol_detectors = Map.empty, pol_alpha = alpha, pol_z_threshold = z\<rparr>"

definition policy_new :: "f64 \<Rightarrow> f64 \<Rightarrow> f64 \<Rightarrow> (ReputationError, RelayPruningPolicy) result" where
  "policy_new d alpha z = bind_result (ledger_new d) (\<lambda>l. Inr (with_ledger l alpha z))"

text \<open>\<open>demote_relay\<close>: strikes until the score is below the floor, at most \<open>n\<close> of them.\<close>

fun demote_strikes :: "nat \<Rightarrow> ReputationLedger \<Rightarrow> bytes \<Rightarrow> f64 \<Rightarrow> ReputationLedger" where
  "demote_strikes 0 l relay flr = l"
| "demote_strikes (Suc n) l relay flr =
     (if f64_lt (score l relay) flr then l
      else demote_strikes n (record_failure l relay) relay flr)"

definition demote_relay :: "RelayPruningPolicy \<Rightarrow> bytes \<Rightarrow> f64 \<Rightarrow> RelayPruningPolicy" where
  "demote_relay p relay flr =
     p\<lparr>pol_ledger := demote_strikes MAX_ANOMALY_DEMOTION_STRIKES (pol_ledger p) relay flr\<rparr>"

definition observe_metric :: "RelayPruningPolicy \<Rightarrow> bytes \<Rightarrow> f64 \<Rightarrow> AnomalyVerdict \<times> RelayPruningPolicy" where
  "observe_metric p relay x =
     (let detector = (case pol_detectors p relay of
            Some d \<Rightarrow> d | None \<Rightarrow> detector_new (pol_alpha p) (pol_z_threshold p));
          (verdict, detector) = observe detector x;
          p = p\<lparr>pol_detectors := (pol_detectors p)(relay \<mapsto> detector)\<rparr>
      in (verdict,
          if is_anomalous verdict then demote_relay p relay DEFAULT_PATH_REPUTATION_FLOOR else p))"

definition apply_verdict :: "RelayPruningPolicy \<Rightarrow> bytes \<Rightarrow> AnomalyVerdict \<Rightarrow> RelayPruningPolicy" where
  "apply_verdict p relay verdict =
     (if is_anomalous verdict then demote_relay p relay DEFAULT_PATH_REPUTATION_FLOOR else p)"

definition is_eligible :: "RelayPruningPolicy \<Rightarrow> bytes \<Rightarrow> f64 \<Rightarrow> bool" where
  "is_eligible p relay min_reputation = f64_le min_reputation (score (pol_ledger p) relay)"

definition peer_health_spike_detected :: "RelayPruningPolicy \<Rightarrow> u32 \<Rightarrow> u32 \<Rightarrow> bool" where
  "peer_health_spike_detected p peer_anomaly_count threshold = (threshold \<le> peer_anomaly_count)"

definition feed_peer_metric :: "RelayPruningPolicy \<Rightarrow> bytes \<Rightarrow> f64 \<Rightarrow> AnomalyVerdict \<times> RelayPruningPolicy" where
  "feed_peer_metric p peer fail_rate = observe_metric p peer fail_rate"

definition feed_peer_outcomes ::
    "RelayPruningPolicy \<Rightarrow> bytes \<Rightarrow> u64 \<Rightarrow> u64 \<Rightarrow> AnomalyVerdict \<times> RelayPruningPolicy" where
  "feed_peer_outcomes p peer successes failures =
     (let total = sat_add64 successes failures;
          fail_rate = (if total = 0 then Fin 0
            else f64_div (f64_of_nat (unat failures)) (f64_of_nat (unat total)));
          (verdict, p) = observe_metric p peer fail_rate
      in (verdict, p\<lparr>pol_ledger := record_aggregate (pol_ledger p) peer successes failures\<rparr>))"

section \<open>Scores stay in the unit interval\<close>

definition in01 :: "f64 \<Rightarrow> bool" where
  "in01 x \<longleftrightarrow> (\<exists>r. x = Fin r \<and> 0 \<le> r \<and> r \<le> 1)"

definition ledger_inv :: "ReputationLedger \<Rightarrow> bool" where
  "ledger_inv l \<longleftrightarrow> (\<exists>d. decay l = Fin d \<and> 0 < d \<and> d \<le> 1)
     \<and> distinct (map fst (scores l)) \<and> (\<forall>(i, s) \<in> set (scores l). in01 s)"

lemma in01_const [simp]: "in01 (Fin 0)" "in01 (Fin 1)"
  by (simp_all add: in01_def)

lemma in01_NEUTRAL: "in01 NEUTRAL" and in01_PROBATIONARY: "in01 PROBATIONARY"
  using f64_of_rat_01[of "5 / 10"] f64_of_rat_01[of "1 / 10"]
  by (auto simp: in01_def NEUTRAL_def PROBATIONARY_def)

lemma fl_half: "fl (1 / 2) = 1 / 2"
proof (rule fl_representable)
  show "representable (1 / 2)"
    unfolding representable_def by (rule exI[of _ 1], rule exI[of _ "-1"]) (simp add: pow2_def)
qed

lemma NEUTRAL_value: "NEUTRAL = Fin (1 / 2)"
  using f64_of_rat_01[of "1 / 2"] fl_half by (simp add: NEUTRAL_def)

lemma clamp01_in01: "x \<noteq> NaN \<Longrightarrow> in01 (clamp01 x)"
  by (cases x) (auto simp: clamp01_def f64_clamp_def in01_def)

lemma clamp01_id: "0 \<le> r \<Longrightarrow> r \<le> 1 \<Longrightarrow> clamp01 (Fin r) = Fin r"
  by (simp add: clamp01_def f64_clamp_def)

text \<open>The blend of two numbers in the unit interval never overflows.\<close>

lemma ewma_finite:
  assumes "0 < d" "d \<le> 1" "0 \<le> s" "s \<le> 1" "0 \<le> q" "q \<le> 1"
  shows "f64_add (f64_mul (Fin d) (Fin s)) (f64_mul (f64_sub (Fin 1) (Fin d)) (Fin q))
    = Fin (fl (fl (d * s) + fl (fl (1 - d) * q)))" (is ?eq)
    "0 \<le> fl (d * s)" "fl (d * s) \<le> 1"
proof -
  have ds: "0 \<le> d * s" "d * s \<le> 1" using assms by (simp_all add: mult_le_one)
  note a = f64_of_rat_01[OF ds]
  have d1: "0 \<le> 1 - d" "1 - d \<le> 1" using assms by simp_all
  note b = f64_of_rat_01[OF d1]
  have dq: "0 \<le> fl (1 - d) * q" "fl (1 - d) * q \<le> 1" using b assms by (simp_all add: mult_le_one)
  note c = f64_of_rat_01[OF dq]
  have two: "representable 2" using representable_nat[of 2] by simp
  have "\<bar>fl (d * s) + fl (fl (1 - d) * q)\<bar> \<le> 2" using a c by simp
  from f64_of_rat_small[OF two this]
  show ?eq using a b c by (simp add: f64_sub_def)
  show "0 \<le> fl (d * s)" "fl (d * s) \<le> 1" using a by simp_all
qed

lemma score_in01: "ledger_inv l \<Longrightarrow> in01 (score l r)"
  using in01_NEUTRAL by (auto simp: ledger_inv_def score_def split: option.splits dest!: map_of_SomeD)

lemma ledger_inv_update:
  assumes "ledger_inv l" "in01 s"
  shows "ledger_inv (l\<lparr>scores := AList.update r s (scores l)\<rparr>)"
  using assms set_alist_update[of _ _ r s "scores l"]
  by (fastforce simp: ledger_inv_def distinct_update)

lemma update_score_inv:
  assumes "ledger_inv l" "in01 q"
  shows "ledger_inv (update_score l r q)"
proof -
  obtain d where d: "decay l = Fin d" "0 < d" "d \<le> 1" using assms(1) by (auto simp: ledger_inv_def)
  obtain s where s: "score l r = Fin s" "0 \<le> s" "s \<le> 1" using score_in01[OF assms(1), of r] by (auto simp: in01_def)
  obtain q' where q: "q = Fin q'" "0 \<le> q'" "q' \<le> 1" using assms(2) by (auto simp: in01_def)
  have "in01 (clamp01 (f64_add (f64_mul (decay l) (score l r)) (f64_mul (f64_sub (Fin 1) (decay l)) q)))"
    unfolding d(1) s(1) q(1) ewma_finite(1)[OF d(2,3) s(2,3) q(2,3)] by (rule clamp01_in01) simp
  then show ?thesis using ledger_inv_update[OF assms(1)] by (simp add: update_score_def score_def)
qed

lemma loaded_scores_in01:
  "load_scores fs acc = Inr ss \<Longrightarrow> \<forall>(h, s) \<in> set fs. s \<noteq> NaN
    \<Longrightarrow> distinct (map fst acc) \<and> (\<forall>(i, s) \<in> set acc. in01 s)
    \<Longrightarrow> distinct (map fst ss) \<and> (\<forall>(i, s) \<in> set ss. in01 s)"
proof (induction fs acc arbitrary: ss rule: load_scores.induct)
  case (1 acc)
  then show ?case by simp
next
  case (2 hex s rest acc)
  obtain r where r: "parse_hex_relay hex = Inr r" "load_scores rest (AList.update r (clamp01 s) acc) = Inr ss"
    using 2(2) by (auto simp: bind_result_Inr_iff)
  have "in01 (clamp01 s)" using 2(3) by (intro clamp01_in01) simp
  then have "distinct (map fst (AList.update r (clamp01 s) acc))
      \<and> (\<forall>(i, s) \<in> set (AList.update r (clamp01 s) acc). in01 s)"
    using 2(4) set_alist_update[of _ _ r "clamp01 s" acc] by (fastforce simp: distinct_update)
  then show ?case using 2(1)[OF r(2)] 2(3) by auto
qed

text \<open>A ledger loaded from a file is consistent; JSON has no spelling for NaN.\<close>

lemma loaded_ledger_inv:
  assumes "load_from_file_with_verify S file d vk = Inr l" "\<forall>(h, s) \<in> set (rep_scores file). s \<noteq> NaN"
  shows "ledger_inv l"
proof -
  obtain ss where ss: "load_scores (rep_scores file) [] = Inr ss" "from_scores d ss = Inr l"
    using assms(1) by (auto simp: load_from_file_with_verify_def bind_result_Inr_iff split: if_splits option.splits)
  then show ?thesis
    using loaded_scores_in01[OF ss(1) assms(2)]
    by (cases d) (auto simp: ledger_inv_def from_scores_def split: if_splits)
qed

lemma record_success_inv: "ledger_inv l \<Longrightarrow> ledger_inv (record_success l r)"
  by (simp add: record_success_def update_score_inv)

lemma record_failure_inv: "ledger_inv l \<Longrightarrow> ledger_inv (record_failure l r)"
  by (simp add: record_failure_def update_score_inv)

lemma record_aggregate_inv: "ledger_inv l \<Longrightarrow> ledger_inv (record_aggregate l r a b)"
proof -
  assume l: "ledger_inv l"
  have "in01 (f64_div (f64_of_nat (unat a)) (f64_of_nat (unat (sat_add64 a b))))" if "sat_add64 a b \<noteq> 0"
  proof -
    have "unat a < 2 ^ 64" using unsigned_less[of a, where ?'a = nat] by simp
    then have "unat a \<le> unat (sat_add64 a b)" by (simp add: unat_sat_add64)
    moreover have "0 < unat (sat_add64 a b)" using that by (simp add: unat_gt_0)
    moreover have "unat (sat_add64 a b) < 2 ^ 64"
      using unsigned_less[of "sat_add64 a b", where ?'a = nat] by simp
    ultimately show ?thesis using f64_ratio_01 by (auto simp: in01_def)
  qed
  then show ?thesis using l by (simp add: record_aggregate_def Let_def update_score_inv)
qed

lemma admit_new_relay_inv: "ledger_inv l \<Longrightarrow> ledger_inv (admit_new_relay l r)"
  using ledger_inv_update[OF _ in01_PROBATIONARY] by (auto simp: admit_new_relay_def split: option.splits)

lemma demote_strikes_inv: "ledger_inv l \<Longrightarrow> ledger_inv (demote_strikes n l r f)"
  by (induction n l r f rule: demote_strikes.induct) (simp_all add: record_failure_inv)

text \<open>Every history of a policy's ledger: outcomes, admissions and metric samples in any order.\<close>

inductive policy_reachable :: "RelayPruningPolicy \<Rightarrow> bool" where
  pol_new: "policy_new d a z = Inr p \<Longrightarrow> policy_reachable p"
| pol_load: "load_from_file_with_verify (S :: (bytes, bytes) sig_lib) file d vk = Inr l
    \<Longrightarrow> \<forall>(h, s) \<in> set (rep_scores file). s \<noteq> NaN \<Longrightarrow> policy_reachable (with_ledger l a z)"
| pol_success: "policy_reachable p \<Longrightarrow> policy_reachable (p\<lparr>pol_ledger := record_success (pol_ledger p) r\<rparr>)"
| pol_failure: "policy_reachable p \<Longrightarrow> policy_reachable (p\<lparr>pol_ledger := record_failure (pol_ledger p) r\<rparr>)"
| pol_admit: "policy_reachable p \<Longrightarrow> policy_reachable (p\<lparr>pol_ledger := admit_new_relay (pol_ledger p) r\<rparr>)"
| pol_metric: "policy_reachable p \<Longrightarrow> policy_reachable (snd (observe_metric p r x))"
| pol_verdict: "policy_reachable p \<Longrightarrow> policy_reachable (apply_verdict p r v)"
| pol_outcomes: "policy_reachable p \<Longrightarrow> policy_reachable (snd (feed_peer_outcomes p r s f))"

lemma pol_ledger_demote [simp]:
  "pol_ledger (demote_relay p r f) = demote_strikes MAX_ANOMALY_DEMOTION_STRIKES (pol_ledger p) r f"
  by (simp add: demote_relay_def)

lemma observe_metric_ledger:
  "pol_ledger (snd (observe_metric p r x)) = pol_ledger p
   \<or> pol_ledger (snd (observe_metric p r x))
      = demote_strikes MAX_ANOMALY_DEMOTION_STRIKES (pol_ledger p) r DEFAULT_PATH_REPUTATION_FLOOR"
  by (simp add: observe_metric_def Let_def case_prod_beta)

lemma policy_reachable_inv: "policy_reachable p \<Longrightarrow> ledger_inv (pol_ledger p)"
proof (induction rule: policy_reachable.induct)
  case (pol_new d a z p)
  then show ?case
    by (cases d) (auto simp: policy_new_def ledger_new_def from_scores_def with_ledger_def ledger_inv_def
        split: if_splits)
next
  case (pol_load S f d vk l a z)
  then show ?case by (simp add: with_ledger_def loaded_ledger_inv)
next
  case (pol_metric p r x)
  then show ?case using observe_metric_ledger[of p r x] by (auto simp: demote_strikes_inv)
next
  case (pol_outcomes p r s f)
  have "ledger_inv (pol_ledger (snd (observe_metric p r x)))" for x
    using observe_metric_ledger[of p r x] pol_outcomes.IH by (auto simp: demote_strikes_inv)
  then show ?case by (simp add: feed_peer_outcomes_def Let_def case_prod_beta record_aggregate_inv)
qed (simp_all add: record_success_inv record_failure_inv admit_new_relay_inv apply_verdict_def demote_strikes_inv)

section \<open>How far one anomaly demotes\<close>

lemma score_update_score:
  "score (update_score l r q) r = clamp01 (f64_add (f64_mul (decay l) (score l r)) (f64_mul (f64_sub (Fin 1) (decay l)) q))"
  "decay (update_score l r q) = decay l"
  by (simp_all add: update_score_def score_def update_conv')

text \<open>A failure multiplies the score by the decay, rounded once.\<close>

lemma failure_step:
  assumes "decay l = Fin d" "0 < d" "d \<le> 1" "score l r = Fin s" "0 \<le> s" "s \<le> 1"
  shows "score (record_failure l r) r = Fin (fl (d * s))" "decay (record_failure l r) = Fin d"
    "0 \<le> fl (d * s)" "fl (d * s) \<le> 1"
proof -
  note e = ewma_finite[OF assms(2,3,5,6), of 0]
  show b: "0 \<le> fl (d * s)" "fl (d * s) \<le> 1" using e by simp_all
  have "score (record_failure l r) r = clamp01 (Fin (fl (fl (d * s))))"
    using e(1) by (simp add: record_failure_def score_update_score assms)
  then show "score (record_failure l r) r = Fin (fl (d * s))" using b by (simp add: fl_idem clamp01_id)
  show "decay (record_failure l r) = Fin d" by (simp add: record_failure_def score_update_score assms)
qed

lemma pow2_m53: "pow2 (- 53) = 1 / 2 ^ 53"
  by (simp add: pow2_def)

lemma fl_error_bounds:
  assumes q: "pow2 (- 1022) \<le> q"
  shows "q * (1 - 1 / 2 ^ 53) \<le> fl q \<and> fl q \<le> q * (1 + 1 / 2 ^ 53)"
proof -
  have "\<bar>fl q - q\<bar> \<le> q * (1 / 2 ^ 53)" using fl_error[OF q] unfolding pow2_m53 .
  moreover have "q * (1 - 1 / 2 ^ 53) = q - q * (1 / 2 ^ 53)" "q * (1 + 1 / 2 ^ 53) = q + q * (1 / 2 ^ 53)"
    by (simp_all only: right_diff_distrib distrib_left mult_1_right)
  ultimately show ?thesis by (metis abs_diff_le_iff add.commute)
qed

lemma pow2_tiny: "(1 / 10 :: rat) \<ge> pow2 (- 1022)"
proof -
  have "pow2 (- 1022) \<le> pow2 (- 4)" by (rule pow2_mono) simp
  then show ?thesis by (simp add: pow2_def[of "- 4"])
qed

lemma demote_lower:
  assumes "decay l = Fin d" "985 / 1000 \<le> d" "d \<le> 1" "score l r = Fin s" "s \<le> 1"
    and "1 / 10 \<le> (9849 / 10000) ^ n * c" "0 < c" "c \<le> s"
  shows "\<exists>s'. score (demote_strikes n l r f) r = Fin s' \<and> (9849 / 10000) ^ n * c \<le> s'"
  using assms
proof (induction n arbitrary: l s c)
  case 0
  then show ?case by auto
next
  case (Suc n)
  have c: "0 \<le> s" using Suc.prems by simp
  have d0: "0 < d" using Suc.prems(2) by simp
  show ?case
  proof (cases "f64_lt (score l r) f")
    case True
    have "(9849 / 10000) ^ Suc n * c \<le> 1 * c"
      using power_le_one[of "9849 / 10000 :: rat" "Suc n"] Suc.prems(7) by (intro mult_right_mono) simp_all
    then show ?thesis using True Suc.prems(4,8) by auto
  next
    case False
    note st = failure_step[OF Suc.prems(1) d0 Suc.prems(3,4) c Suc.prems(5)]
    have pn: "(9849 / 10000 :: rat) ^ n \<le> 1" by (simp add: power_le_one)
    have "1 / 10 \<le> 9849 / 10000 * c"
    proof -
      have "(9849 / 10000) ^ Suc n * c \<le> 9849 / 10000 * c"
        using pn Suc.prems(7) mult_right_mono[OF pn, of "9849 / 10000 * c"] by (simp add: algebra_simps)
      then show ?thesis using Suc.prems(6) by linarith
    qed
    also have "\<dots> \<le> d * s" using Suc.prems(2,7,8) by (intro mult_mono) auto
    finally have ge: "1 / 10 \<le> d * s" .
    then have "pow2 (- 1022) \<le> d * s" using pow2_tiny by linarith
    from fl_error_bounds[OF this] have "d * s * (1 - 1 / 2 ^ 53) \<le> fl (d * s)" by blast
    moreover have "9849 / 10000 * c \<le> d * s * (1 - 1 / 2 ^ 53)"
    proof -
      have "9849 / 10000 * c \<le> (985 / 1000 * (1 - 1 / 2 ^ 53)) * c"
        by (rule mult_right_mono) (use Suc.prems(7) in simp_all)
      also have "\<dots> = 985 / 1000 * c * (1 - 1 / 2 ^ 53)" by simp
      also have "\<dots> \<le> d * s * (1 - 1 / 2 ^ 53)"
        using Suc.prems(2,7,8) by (intro mult_right_mono mult_mono) auto
      finally show ?thesis .
    qed
    ultimately have s': "9849 / 10000 * c \<le> fl (d * s)" by linarith
    have "\<exists>s'. score (demote_strikes n (record_failure l r) r f) r = Fin s'
        \<and> (9849 / 10000) ^ n * (9849 / 10000 * c) \<le> s'"
      by (rule Suc.IH[OF st(2) Suc.prems(2,3) st(1,4)])
         (use Suc.prems(6,7) s' in \<open>simp_all add: algebra_simps\<close>)
    then show ?thesis using False by (simp add: algebra_simps)
  qed
qed

lemma demote_upper:
  assumes "decay l = Fin d" "0 < d" "d \<le> 96 / 100" "score l r = Fin s" "0 \<le> s" "s \<le> c" "c \<le> 1"
    and "(961 / 1000) ^ n * c < f" "1 / 10 \<le> (961 / 1000) ^ n * c"
  shows "f64_lt (score (demote_strikes n l r (Fin f)) r) (Fin f)"
  using assms
proof (induction n arbitrary: l s c)
  case 0
  then show ?case by simp
next
  case (Suc n)
  show ?case
  proof (cases "f64_lt (score l r) (Fin f)")
    case True
    then show ?thesis by simp
  next
    case False
    have d1: "d \<le> 1" and s1: "s \<le> 1" using Suc.prems by simp_all
    note st = failure_step[OF Suc.prems(1,2) d1 Suc.prems(4,5) s1]
    have c: "0 < c"
    proof (rule ccontr)
      assume "\<not> 0 < c"
      then have "(961 / 1000) ^ Suc n * c \<le> 0" by (intro mult_nonneg_nonpos) simp_all
      then show False using Suc.prems(9) by linarith
    qed
    have pn: "(961 / 1000 :: rat) ^ n \<le> 1" by (simp add: power_le_one)
    have big: "1 / 10 \<le> 961 / 1000 * c"
    proof -
      have "(961 / 1000) ^ Suc n * c \<le> 961 / 1000 * c"
        using mult_right_mono[OF pn, of "961 / 1000 * c"] c by (simp add: algebra_simps)
      then show ?thesis using Suc.prems(9) by linarith
    qed
    have "pow2 (- 1022) \<le> 96 / 100 * c"
    proof -
      have "pow2 (- 1022) \<le> pow2 (- 5)" by (rule pow2_mono) simp
      then show ?thesis using big by (simp add: pow2_def[of "- 5"])
    qed
    from fl_error_bounds[OF this] have "fl (96 / 100 * c) \<le> 96 / 100 * c * (1 + 1 / 2 ^ 53)" by blast
    also have "\<dots> = (96 / 100 * (1 + 1 / 2 ^ 53)) * c" by simp
    also have "\<dots> \<le> 961 / 1000 * c" by (rule mult_right_mono) (use c in simp_all)
    finally have "fl (96 / 100 * c) \<le> 961 / 1000 * c" .
    moreover have "fl (d * s) \<le> fl (96 / 100 * c)"
      using Suc.prems(2,3,5,6) by (intro fl_mono mult_mono) auto
    ultimately have "fl (d * s) \<le> 961 / 1000 * c" by linarith
    then have "f64_lt (score (demote_strikes n (record_failure l r) r (Fin f)) r) (Fin f)"
      using Suc.prems(7,8,9) c
      by (intro Suc.IH[where c = "961 / 1000 * c", OF st(2) Suc.prems(2,3) st(1,3)]) (simp_all add: algebra_simps)
    then show ?thesis using False by simp
  qed
qed

lemma floor_value: "\<exists>c. DEFAULT_PATH_REPUTATION_FLOOR = Fin c \<and> 29 / 100 \<le> c \<and> c \<le> 3001 / 10000"
proof -
  have "pow2 (- 1022) \<le> (3 / 10 :: rat)" using pow2_tiny by linarith
  from fl_error_bounds[OF this]
  have "(3 / 10) * (1 - 1 / 2 ^ 53) \<le> fl (3 / 10)" "fl (3 / 10) \<le> (3 / 10) * (1 + 1 / 2 ^ 53)" by blast+
  moreover have "(29 / 100 :: rat) \<le> (3 / 10) * (1 - 1 / 2 ^ 53)" "(3 / 10 :: rat) * (1 + 1 / 2 ^ 53) \<le> 3001 / 10000"
    by (simp_all add: power_divide)
  ultimately have "29 / 100 \<le> fl (3 / 10)" "fl (3 / 10) \<le> 3001 / 10000" by (blast intro: order_trans)+
  then show ?thesis using f64_of_rat_01[of "3 / 10"] by (simp add: DEFAULT_PATH_REPUTATION_FLOOR_def)
qed

section \<open>Theorems\<close>

text \<open>C14. Whatever a policy is fed (outcomes, admissions, metric samples that may be infinite or NaN,
  verdicts), every score it reports is a number between 0 and 1: no overflow and no NaN.\<close>

theorem scores_in_unit_interval:
  assumes "policy_reachable p"
  shows "\<exists>r. score (pol_ledger p) relay = Fin r \<and> 0 \<le> r \<and> r \<le> 1"
  using score_in01[OF policy_reachable_inv[OF assms]] by (simp add: in01_def)

definition policy_example :: "rat \<Rightarrow> RelayPruningPolicy" where
  "policy_example d = with_ledger \<lparr>decay = Fin d, scores = []\<rparr> (Fin 1) (Fin 3)"

lemma policy_example_reachable: "0 < d \<Longrightarrow> d \<le> 1 \<Longrightarrow> policy_reachable (policy_example d)"
  by (rule pol_new[of "Fin d" "Fin 1" "Fin 3"])
     (simp add: policy_new_def ledger_new_def from_scores_def policy_example_def)

lemma policy_example_facts [simp]:
  "decay (pol_ledger (policy_example d)) = Fin d" "score (pol_ledger (policy_example d)) r = Fin (1 / 2)"
  by (simp_all add: policy_example_def with_ledger_def score_def NEUTRAL_value)

theorem scores_in_unit_interval_witness:
  "\<exists>r. score (pol_ledger (snd (feed_peer_outcomes
      (apply_verdict (policy_example (1 / 2)) [7] \<lparr>z_score = NaN, is_anomalous = True\<rparr>) [7] 3 4))) [7] = Fin r
     \<and> 0 \<le> r \<and> r \<le> 1"
  by (intro scores_in_unit_interval pol_outcomes pol_verdict policy_example_reachable) simp_all

text \<open>Demotion reaches the floor when the ledger forgets fast enough: with a decay of at most 0.96 a
  relay with an anomalous verdict is below the path floor afterwards, whatever its score was, and so
  is no longer eligible for paths.\<close>

theorem fast_decay_demotes:
  assumes "policy_reachable p" "decay (pol_ledger p) = Fin d" "d \<le> 96 / 100" "is_anomalous v"
  shows "\<not> is_eligible (apply_verdict p relay v) relay DEFAULT_PATH_REPUTATION_FLOOR"
proof -
  obtain c where c: "DEFAULT_PATH_REPUTATION_FLOOR = Fin c" "29 / 100 \<le> c" using floor_value by blast
  have inv: "ledger_inv (pol_ledger p)" by (rule policy_reachable_inv[OF assms(1)])
  then have d: "0 < d" using assms(2) by (auto simp: ledger_inv_def)
  obtain s where s: "score (pol_ledger p) relay = Fin s" "0 \<le> s" "s \<le> 1"
    using score_in01[OF inv] by (auto simp: in01_def)
  have num: "(961 / 1000 :: rat) ^ 32 * 1 < 29 / 100" "(1 / 10 :: rat) \<le> (961 / 1000) ^ 32 * 1"
    by (simp_all add: power_divide)
  have "f64_lt (score (demote_strikes 32 (pol_ledger p) relay (Fin c)) relay) (Fin c)"
    by (rule demote_upper[OF assms(2) d assms(3) s _ _ num(2)]) (use num c in linarith)+
  then have "\<not> f64_le (Fin c) (score (demote_strikes 32 (pol_ledger p) relay (Fin c)) relay)"
    by (cases "score (demote_strikes 32 (pol_ledger p) relay (Fin c)) relay") auto
  then show ?thesis
    using assms(4) c(1) by (simp add: apply_verdict_def is_eligible_def MAX_ANOMALY_DEMOTION_STRIKES_def)
qed

theorem fast_decay_demotes_witness:
  "\<not> is_eligible (apply_verdict (policy_example (9 / 10)) [7] \<lparr>z_score = Fin 5, is_anomalous = True\<rparr>) [7]
      DEFAULT_PATH_REPUTATION_FLOOR"
  by (rule fast_decay_demotes[where d = "9 / 10"]) (simp_all add: policy_example_reachable)

text \<open>Demotion misses the floor when the ledger forgets slowly: with a decay of at least 0.985
  (the documentation calls 0.9 to 0.99 typical) a relay nobody has a record of, or any relay scored
  0.5 or better, is still eligible for paths after an anomaly demotion with all its 32 strikes.\<close>

theorem slow_decay_keeps_eligible:
  assumes "policy_reachable p" "decay (pol_ledger p) = Fin d" "985 / 1000 \<le> d"
    and "score (pol_ledger p) relay = Fin s" "1 / 2 \<le> s"
  shows "is_eligible (apply_verdict p relay v) relay DEFAULT_PATH_REPUTATION_FLOOR"
proof -
  obtain c where c: "DEFAULT_PATH_REPUTATION_FLOOR = Fin c" "c \<le> 3001 / 10000" using floor_value by blast
  have inv: "ledger_inv (pol_ledger p)" by (rule policy_reachable_inv[OF assms(1)])
  then have d: "d \<le> 1" using assms(2) by (auto simp: ledger_inv_def)
  have s: "s \<le> 1" using score_in01[OF inv, of relay] assms(4) by (auto simp: in01_def)
  have num: "(1 / 10 :: rat) \<le> (9849 / 10000) ^ 32 * (1 / 2)" "3001 / 10000 \<le> (9849 / 10000 :: rat) ^ 32 * (1 / 2)"
    by (simp_all add: power_divide)
  obtain s' where s': "score (demote_strikes 32 (pol_ledger p) relay DEFAULT_PATH_REPUTATION_FLOOR) relay = Fin s'"
    "(9849 / 10000) ^ 32 * (1 / 2) \<le> s'"
    using demote_lower[OF assms(2,3) d assms(4) s num(1) _ assms(5)] by auto
  have "c \<le> s'" using s'(2) num(2) c(2) by linarith
  moreover have "c \<le> s" using assms(5) c(2) by linarith
  ultimately have "f64_le DEFAULT_PATH_REPUTATION_FLOOR (Fin s')" "f64_le DEFAULT_PATH_REPUTATION_FLOOR (Fin s)"
    by (simp_all add: c(1))
  then show ?thesis
    using s'(1) assms(4) by (simp add: apply_verdict_def is_eligible_def MAX_ANOMALY_DEMOTION_STRIKES_def)
qed

theorem slow_decay_keeps_eligible_witness:
  "is_eligible (apply_verdict (policy_example (99 / 100)) [7] \<lparr>z_score = Fin 5, is_anomalous = True\<rparr>) [7]
      DEFAULT_PATH_REPUTATION_FLOOR"
  by (rule slow_decay_keeps_eligible[where d = "99 / 100" and s = "1 / 2"]) (simp_all add: policy_example_reachable)

section \<open>The ledger file\<close>

lemma trim_0x_hex_encode [simp]: "trim_0x (hex_encode bs) = hex_encode bs"
proof (cases bs)
  case (Cons b bs')
  have "digit_value (hex_digit (unat b mod 16)) = Some (unat b mod 16)" by simp
  moreover have "digit_value (CHR ''x'') = None" by (simp add: digit_value_def)
  ultimately have "hex_digit (unat b mod 16) \<noteq> CHR ''x''" by force
  then show ?thesis by (simp add: Cons hex_encode_def hex_byte_def)
qed (simp add: hex_encode_def)

lemma parse_score_key_encode:
  "length bs = 32 \<Longrightarrow> parse_hex32 (hex_encode bs) = Inr bs"
  "length bs = 64 \<Longrightarrow> parse_hex64 (hex_encode bs) = Inr bs"
  "length bs = 32 \<Longrightarrow> parse_hex_relay (hex_encode bs) = Inr bs"
  by (simp_all add: parse_hex32_def parse_hex64_def parse_hex_relay_def parse_chunks_encode)

lemma load_scores_hex:
  assumes "distinct (map fst (acc @ ss))" "\<forall>(i, s) \<in> set ss. length i = 32 \<and> in01 s"
  shows "load_scores (map (\<lambda>(i, s). (hex_encode i, s)) ss) acc = Inr (acc @ ss)"
  using assms
proof (induction ss arbitrary: acc)
  case Nil
  then show ?case by simp
next
  case (Cons x ss)
  obtain i s where x: "x = (i, s)" by (cases x)
  have "clamp01 s = s" using Cons.prems(2) by (auto simp: x in01_def clamp01_id)
  moreover have "i \<notin> fst ` set acc" using Cons.prems(1) by (auto simp: x)
  ultimately show ?case
    using Cons.IH[of "acc @ [(i, s)]"] Cons.prems by (simp add: x parse_score_key_encode alist_update_new)
qed

text \<open>A ledger survives its signed file: what the operator wrote with a signing key loads, under that
  key's verifying key and the same decay, to exactly the ledger that was written.\<close>

theorem ledger_file_roundtrip:
  assumes "sig_laws S" "ledger_inv l" "\<forall>(i, s) \<in> set (scores l). length i = 32"
  shows "load_from_file_with_verify S (write_file S l (Some sk)) (decay l) (Some (ed_verifying_key S sk)) = Inr l"
proof -
  obtain d where d: "decay l = Fin d" "0 < d" "d \<le> 1" using assms(2) by (auto simp: ledger_inv_def)
  have load: "load_scores (map (\<lambda>(i, s). (hex_encode i, s)) (scores l)) [] = Inr ([] @ scores l)"
    by (rule load_scores_hex) (use assms(2,3) in \<open>auto simp: ledger_inv_def\<close>)
  have "verify_ledger_file S (write_file S l (Some sk)) (ed_verifying_key S sk) = Inr ()"
    by (simp add: verify_ledger_file_def write_file_def Let_def parse_score_key_encode sig_lawsD[OF assms(1)])
  then show ?thesis
    using load d
    by (simp add: load_from_file_with_verify_def write_file_def Let_def f64_sub_def f64_of_rat_def F64_EPSILON_def from_scores_def)
qed

theorem ledger_file_roundtrip_witness:
  "let l = \<lparr>decay = Fin (1 / 2), scores = [(replicate 32 1, Fin (1 / 2)), (replicate 32 2, Fin 0)]\<rparr> in
   load_from_file_with_verify toy_sig (write_file toy_sig l (Some 9)) (decay l) (Some (ed_verifying_key toy_sig 9)) = Inr l"
  unfolding Let_def
  by (rule ledger_file_roundtrip)
     (simp_all add: toy_sig_laws ledger_inv_def in01_def, intro conjI exI[of _ "1 / 2"], simp_all)

end
