(* ===== verification/Roster.thy ===== *)
theory Roster
  imports Topology_Types Reputation
begin

text \<open>
  \<^verbatim>\<open>crates/aegis-topology/src/roster.rs\<close> and \<^verbatim>\<open>pruning.rs\<close>: M-of-N signed admission of relays,
  the admission rate limit and the roster file. Ed25519 is the argument \<open>S\<close>, SHA3-256 the argument
  \<open>H\<close>, the system clock (\<open>now_secs\<close>) the argument \<open>now\<close>. The file is the value that is serialised:
  JSON and the file system are outside. A \<open>HashMap\<close> is a list in iteration order.
\<close>

section \<open>Pruning checks\<close>

definition relay_admission_satisfies_pruning_policy :: "RelayId \<Rightarrow> RelayPruningPolicy \<Rightarrow> f64 \<Rightarrow> bool" where
  "relay_admission_satisfies_pruning_policy relay policy min_reputation =
     is_eligible policy (as_bytes relay) min_reputation"

definition relay_satisfies_pruning_policy :: "RelayId \<Rightarrow> RelayPruningPolicy \<Rightarrow> f64 \<Rightarrow> bool" where
  "relay_satisfies_pruning_policy relay policy min_reputation =
     is_eligible policy (as_bytes relay) min_reputation"

definition path_satisfies_pruning_policy :: "RelayId list \<Rightarrow> RelayPruningPolicy \<Rightarrow> f64 \<Rightarrow> bool" where
  "path_satisfies_pruning_policy path policy min_reputation =
     list_all (\<lambda>i. relay_satisfies_pruning_policy i policy min_reputation) path"

section \<open>Admission signatures\<close>

definition canonical_record_bytes :: "RelayRecord \<Rightarrow> bytes" where
  "canonical_record_bytes r = as_bytes (rec_id r) @ rec_jurisdiction r @ rec_commitment r"

record AuthorityAdmissionSignature =
  authority_pubkey :: bytes
  auth_signature :: bytes

record ThresholdSignedRelayRecord =
  thr_record :: RelayRecord
  signatures :: "AuthorityAdmissionSignature list"

record SignedRelayRecord =
  single_record :: RelayRecord
  single_signature :: bytes
  single_authority_pubkey :: bytes

definition sign_authority :: "('sk, 'vk) sig_lib \<Rightarrow> 'sk \<Rightarrow> RelayRecord \<Rightarrow> AuthorityAdmissionSignature" where
  "sign_authority S key r =
     \<lparr>authority_pubkey = ed_to_bytes S (ed_verifying_key S key),
      auth_signature = ed_sign S key (canonical_record_bytes r)\<rparr>"

definition sign_record :: "('sk, 'vk) sig_lib \<Rightarrow> 'sk \<Rightarrow> RelayRecord \<Rightarrow> SignedRelayRecord" where
  "sign_record S key r =
     (let authority = sign_authority S key r in
      \<lparr>single_record = r, single_signature = auth_signature authority,
       single_authority_pubkey = authority_pubkey authority\<rparr>)"

definition authority_verify ::
    "('sk, 'vk) sig_lib \<Rightarrow> AuthorityAdmissionSignature \<Rightarrow> RelayRecord \<Rightarrow> 'vk \<Rightarrow> (RosterError, unit) result" where
  "authority_verify S s r authority =
     (if authority_pubkey s \<noteq> ed_to_bytes S authority then Inl AuthorityMismatch
      else case ed_sig_from_slice S (auth_signature s) of
        None \<Rightarrow> Inl (InvalidSignature (rec_id r))
      | Some sig \<Rightarrow>
          if ed_verify S authority (canonical_record_bytes r) sig then Inr ()
          else Inl (InvalidSignature (rec_id r)))"

definition threshold_new :: "RelayRecord \<Rightarrow> ThresholdSignedRelayRecord" where
  "threshold_new r = \<lparr>thr_record = r, signatures = []\<rparr>"

definition with_signature ::
    "ThresholdSignedRelayRecord \<Rightarrow> AuthorityAdmissionSignature \<Rightarrow> ThresholdSignedRelayRecord" where
  "with_signature t s = t\<lparr>signatures := signatures t @ [s]\<rparr>"

definition single_verify ::
    "('sk, 'vk) sig_lib \<Rightarrow> SignedRelayRecord \<Rightarrow> 'vk \<Rightarrow> (RosterError, unit) result" where
  "single_verify S s pubkey =
     (if single_authority_pubkey s \<noteq> ed_to_bytes S pubkey then Inl AuthorityMismatch
      else case ed_sig_from_slice S (single_signature s) of
        None \<Rightarrow> Inl (InvalidSignature (rec_id (single_record s)))
      | Some sig \<Rightarrow>
          if ed_verify S pubkey (canonical_record_bytes (single_record s)) sig then Inr ()
          else Inl (InvalidSignature (rec_id (single_record s))))"

definition into_threshold :: "SignedRelayRecord \<Rightarrow> ThresholdSignedRelayRecord" where
  "into_threshold s =
     \<lparr>thr_record = single_record s,
      signatures = [\<lparr>authority_pubkey = single_authority_pubkey s, auth_signature = single_signature s\<rparr>]\<rparr>"

section \<open>The consortium\<close>

record 'vk ThresholdConsortium =
  con_threshold :: nat
  authorities :: "'vk list"
  by_pubkey :: "(bytes \<times> 'vk) list"

definition consortium_new ::
    "('sk, 'vk) sig_lib \<Rightarrow> nat \<Rightarrow> 'vk list \<Rightarrow> (RosterError, 'vk ThresholdConsortium) result" where
  "consortium_new S threshold auths =
     (if auths = [] then Inl (InsufficientSignatures 0 (max threshold 1))
      else if threshold = 0 \<or> threshold > length auths
      then Inl (InsufficientSignatures (length auths) threshold)
      else let m = fold (\<lambda>pk m. AList.update (ed_to_bytes S pk) pk m) auths [] in
        if length m \<noteq> length auths then Inl DuplicateAuthority
        else Inr \<lparr>con_threshold = threshold, authorities = auths, by_pubkey = m\<rparr>)"

text \<open>\<open>expect\<close>: a single authority is always a valid 1-of-1 (lemma \<open>single_ok\<close>).\<close>

definition single :: "('sk, 'vk) sig_lib \<Rightarrow> 'vk \<Rightarrow> 'vk ThresholdConsortium" where
  "single S authority = projr (consortium_new S 1 [authority])"

fun raw_authorities :: "('sk, 'vk) sig_lib \<Rightarrow> bytes list \<Rightarrow> 'vk list \<Rightarrow> (RosterError, 'vk list) result" where
  "raw_authorities S [] acc = Inr acc"
| "raw_authorities S (pk # pks) acc =
     bind_result (ok_or (ed_from_bytes S pk) InvalidAuthorityPubkey) (\<lambda>vk. raw_authorities S pks (acc @ [vk]))"

definition from_raw_pubkeys ::
    "('sk, 'vk) sig_lib \<Rightarrow> nat \<Rightarrow> bytes list \<Rightarrow> (RosterError, 'vk ThresholdConsortium) result" where
  "from_raw_pubkeys S threshold pubkeys =
     bind_result (raw_authorities S pubkeys []) (\<lambda>auths. consortium_new S threshold auths)"

definition authority_for_pubkey :: "'vk ThresholdConsortium \<Rightarrow> bytes \<Rightarrow> 'vk option" where
  "authority_for_pubkey c pubkey = map_of (by_pubkey c) pubkey"

text \<open>The loop of \<open>verify_threshold\<close>: the set of authorities whose signature was valid.\<close>

fun count_authorities ::
    "('sk, 'vk) sig_lib \<Rightarrow> 'vk ThresholdConsortium \<Rightarrow> RelayRecord \<Rightarrow> AuthorityAdmissionSignature list \<Rightarrow> bytes list
      \<Rightarrow> (RosterError, bytes list) result" where
  "count_authorities S c r [] valid = Inr valid"
| "count_authorities S c r (s # sigs) valid =
     (if authority_pubkey s \<in> set valid then count_authorities S c r sigs valid
      else bind_result (ok_or (authority_for_pubkey c (authority_pubkey s)) UnknownAuthority) (\<lambda>authority.
        bind_result (authority_verify S s r authority) (\<lambda>_.
          count_authorities S c r sigs (authority_pubkey s # valid))))"

definition verify_threshold ::
    "('sk, 'vk) sig_lib \<Rightarrow> ThresholdSignedRelayRecord \<Rightarrow> 'vk ThresholdConsortium \<Rightarrow> (RosterError, unit) result" where
  "verify_threshold S t c =
     bind_result (count_authorities S c (thr_record t) (signatures t) []) (\<lambda>valid.
       if length valid < con_threshold c
       then Inl (InsufficientSignatures (length valid) (con_threshold c))
       else Inr ())"

section \<open>The roster\<close>

record RosterAdmissionPolicy =
  max_admissions_per_window :: nat
  window_secs :: u64
  require_kem_derived_id :: bool

definition admission_policy_default :: RosterAdmissionPolicy where
  "admission_policy_default =
     \<lparr>max_admissions_per_window = 5, window_secs = 24 * 60 * 60, require_kem_derived_id = True\<rparr>"

record RosterEntry =
  ent_record :: RelayRecord
  signed_admission :: "SignedRelayRecord option"
  threshold_admission :: "ThresholdSignedRelayRecord option"

definition admission :: "RosterEntry \<Rightarrow> ThresholdSignedRelayRecord option" where
  "admission e =
     (case threshold_admission e of
        Some t \<Rightarrow> Some t
      | None \<Rightarrow> map_option into_threshold (signed_admission e))"

definition set_admission :: "RosterEntry \<Rightarrow> ThresholdSignedRelayRecord \<Rightarrow> RosterEntry" where
  "set_admission e t = e\<lparr>threshold_admission := Some t, signed_admission := None\<rparr>"

record PersistedRoster =
  pr_version :: u32
  pr_entries :: "RosterEntry list"

record RelayRoster =
  relays :: "(RelayId \<times> RosterEntry) list"
  admission_policy :: RosterAdmissionPolicy
  admission_timestamps :: "u64 list"

definition roster_new :: RelayRoster where
  "roster_new = \<lparr>relays = [], admission_policy = admission_policy_default, admission_timestamps = []\<rparr>"

definition with_admission_policy :: "RosterAdmissionPolicy \<Rightarrow> RelayRoster" where
  "with_admission_policy p = roster_new\<lparr>admission_policy := p\<rparr>"

definition set_admission_policy :: "RelayRoster \<Rightarrow> RosterAdmissionPolicy \<Rightarrow> RelayRoster" where
  "set_admission_policy r p = r\<lparr>admission_policy := p\<rparr>"

definition reset_admission_rate_limit :: "RelayRoster \<Rightarrow> RelayRoster" where
  "reset_admission_rate_limit r = r\<lparr>admission_timestamps := []\<rparr>"

definition is_admitted :: "RelayRoster \<Rightarrow> RelayId \<Rightarrow> bool" where
  "is_admitted r i \<longleftrightarrow> i \<in> fst ` set (relays r)"

definition check_admission_rate_limit :: "RelayRoster \<Rightarrow> u64 \<Rightarrow> (RosterError, unit) result" where
  "check_admission_rate_limit r now =
     (let mx = max_admissions_per_window (admission_policy r);
          w = window_secs (admission_policy r);
          cutoff = sat_sub64 now w;
          recent = length (filter (\<lambda>t. cutoff \<le> t) (admission_timestamps r))
      in if mx \<le> recent then Inl (AdmissionRateLimitExceeded (recent + 1) mx w) else Inr ())"

definition record_admission :: "RelayRoster \<Rightarrow> u64 \<Rightarrow> RelayRoster" where
  "record_admission r now =
     (let cutoff = sat_sub64 now (window_secs (admission_policy r)) in
      r\<lparr>admission_timestamps := filter (\<lambda>t. cutoff \<le> t) (admission_timestamps r) @ [now]\<rparr>)"

text \<open>\<open>admit_verified\<close> only calls this one. The roster and the ledger are returned updated.\<close>

definition admit_verified_inner ::
    "(bytes \<Rightarrow> bytes) \<Rightarrow> u64 \<Rightarrow> RelayRoster \<Rightarrow> ThresholdSignedRelayRecord \<Rightarrow> ReputationLedger
      \<Rightarrow> (RosterError, unit) result \<times> RelayRoster \<times> ReputationLedger" where
  "admit_verified_inner H now r sgnd ledger =
     (let i = rec_id (thr_record sgnd);
          insert_entry = (\<lambda>r. r\<lparr>relays := AList.update i
            \<lparr>ent_record = thr_record sgnd, signed_admission = None, threshold_admission = Some sgnd\<rparr> (relays r)\<rparr>)
      in
      if require_kem_derived_id (admission_policy r) \<and> \<not> id_matches_kem_commitment H (thr_record sgnd)
      then (Inl (RelayIdCommitmentMismatch i), r, ledger)
      else if \<not> is_admitted r i then
        (case check_admission_rate_limit r now of
           Inl e \<Rightarrow> (Inl e, r, ledger)
         | Inr _ \<Rightarrow>
             let ledger = admit_new_relay ledger (as_bytes i); r = record_admission r now
             in (Inr (), insert_entry r, ledger))
      else (Inr (), insert_entry r, ledger))"

definition admit_verified_pruned ::
    "(bytes \<Rightarrow> bytes) \<Rightarrow> u64 \<Rightarrow> RelayRoster \<Rightarrow> ThresholdSignedRelayRecord \<Rightarrow> RelayPruningPolicy \<Rightarrow> f64
      \<Rightarrow> (RosterError, unit) result \<times> RelayRoster \<times> RelayPruningPolicy" where
  "admit_verified_pruned H now r sgnd policy min_reputation =
     (let i = rec_id (thr_record sgnd) in
      if \<not> is_admitted r i \<and> \<not> relay_admission_satisfies_pruning_policy i policy min_reputation
      then (Inl (AnomalyBlockedAdmission i), r, policy)
      else case admit_verified_inner H now r sgnd (pol_ledger policy) of
        (res, r, ledger) \<Rightarrow> (res, r, policy\<lparr>pol_ledger := ledger\<rparr>))"

definition admit_threshold_signed ::
    "('sk, 'vk) sig_lib \<Rightarrow> (bytes \<Rightarrow> bytes) \<Rightarrow> u64 \<Rightarrow> RelayRoster \<Rightarrow> ThresholdSignedRelayRecord
      \<Rightarrow> 'vk ThresholdConsortium \<Rightarrow> ReputationLedger
      \<Rightarrow> (RosterError, unit) result \<times> RelayRoster \<times> ReputationLedger" where
  "admit_threshold_signed S H now r sgnd c ledger =
     (case verify_threshold S sgnd c of
        Inl e \<Rightarrow> (Inl e, r, ledger)
      | Inr _ \<Rightarrow> admit_verified_inner H now r sgnd ledger)"

definition admit_threshold_signed_pruned ::
    "('sk, 'vk) sig_lib \<Rightarrow> (bytes \<Rightarrow> bytes) \<Rightarrow> u64 \<Rightarrow> RelayRoster \<Rightarrow> ThresholdSignedRelayRecord
      \<Rightarrow> 'vk ThresholdConsortium \<Rightarrow> RelayPruningPolicy \<Rightarrow> f64
      \<Rightarrow> (RosterError, unit) result \<times> RelayRoster \<times> RelayPruningPolicy" where
  "admit_threshold_signed_pruned S H now r sgnd c policy min_reputation =
     (case verify_threshold S sgnd c of
        Inl e \<Rightarrow> (Inl e, r, policy)
      | Inr _ \<Rightarrow> admit_verified_pruned H now r sgnd policy min_reputation)"

definition admit_signed ::
    "('sk, 'vk) sig_lib \<Rightarrow> (bytes \<Rightarrow> bytes) \<Rightarrow> u64 \<Rightarrow> RelayRoster \<Rightarrow> SignedRelayRecord \<Rightarrow> 'vk \<Rightarrow> ReputationLedger
      \<Rightarrow> (RosterError, unit) result \<times> RelayRoster \<times> ReputationLedger" where
  "admit_signed S H now r sgnd pubkey ledger =
     (case single_verify S sgnd pubkey of
        Inl e \<Rightarrow> (Inl e, r, ledger)
      | Inr _ \<Rightarrow> admit_threshold_signed S H now r (into_threshold sgnd) (single S pubkey) ledger)"

definition admit_signed_pruned ::
    "('sk, 'vk) sig_lib \<Rightarrow> (bytes \<Rightarrow> bytes) \<Rightarrow> u64 \<Rightarrow> RelayRoster \<Rightarrow> SignedRelayRecord \<Rightarrow> 'vk
      \<Rightarrow> RelayPruningPolicy \<Rightarrow> f64 \<Rightarrow> (RosterError, unit) result \<times> RelayRoster \<times> RelayPruningPolicy" where
  "admit_signed_pruned S H now r sgnd pubkey policy min_reputation =
     (case single_verify S sgnd pubkey of
        Inl e \<Rightarrow> (Inl e, r, policy)
      | Inr _ \<Rightarrow> admit_threshold_signed_pruned S H now r (into_threshold sgnd) (single S pubkey)
          policy min_reputation)"

definition roster_remove :: "RelayRoster \<Rightarrow> RelayId \<Rightarrow> bool \<times> RelayRoster" where
  "roster_remove r i = (is_admitted r i, r\<lparr>relays := AList.delete i (relays r)\<rparr>)"

definition roster_get :: "RelayRoster \<Rightarrow> RelayId \<Rightarrow> RelayRecord option" where
  "roster_get r i = map_option ent_record (map_of (relays r) i)"

definition get_threshold_signed :: "RelayRoster \<Rightarrow> RelayId \<Rightarrow> ThresholdSignedRelayRecord option" where
  "get_threshold_signed r i = Option.bind (map_of (relays r) i) admission"

definition get_signed :: "RelayRoster \<Rightarrow> RelayId \<Rightarrow> SignedRelayRecord option" where
  "get_signed r i = Option.bind (get_threshold_signed r i) (\<lambda>t.
     if length (signatures t) = 1
     then let s = signatures t ! 0 in
       Some \<lparr>single_record = thr_record t, single_signature = auth_signature s,
             single_authority_pubkey = authority_pubkey s\<rparr>
     else None)"

definition roster_len :: "RelayRoster \<Rightarrow> nat" where
  "roster_len r = length (relays r)"

definition roster_is_empty :: "RelayRoster \<Rightarrow> bool" where
  "roster_is_empty r \<longleftrightarrow> relays r = []"

definition admitted_sorted :: "RelayRoster \<Rightarrow> RelayRecord list" where
  "admitted_sorted r = sort_key rec_id (map (\<lambda>(i, e). ent_record e) (relays r))"

definition admitted_sorted_above_reputation :: "RelayRoster \<Rightarrow> ReputationLedger \<Rightarrow> f64 \<Rightarrow> RelayRecord list" where
  "admitted_sorted_above_reputation r ledger min_reputation =
     sort_key rec_id (filter (\<lambda>x. f64_le min_reputation (score ledger (as_bytes (rec_id x))))
       (map (\<lambda>(i, e). ent_record e) (relays r)))"

section \<open>The roster file\<close>

text \<open>The two \<open>InvalidData\<close> errors of a load.\<close>

datatype LoadError = UnsignedEntry | VerifyFailed RosterError

definition save_to_file :: "RelayRoster \<Rightarrow> PersistedRoster" where
  "save_to_file r =
     \<lparr>pr_version = 2, pr_entries = sort_key (\<lambda>e. rec_id (ent_record e)) (map snd (relays r))\<rparr>"

fun load_entries ::
    "('sk, 'vk) sig_lib \<Rightarrow> 'vk ThresholdConsortium option \<Rightarrow> RosterEntry list \<Rightarrow> RelayRoster
      \<Rightarrow> (LoadError, RelayRoster) result" where
  "load_entries S consortium [] roster = Inr roster"
| "load_entries S consortium (e # es) roster =
     bind_result (case consortium of
         None \<Rightarrow> Inr e
       | Some c \<Rightarrow>
           bind_result (ok_or (admission e) UnsignedEntry) (\<lambda>adm.
             case verify_threshold S adm c of
               Inl err \<Rightarrow> Inl (VerifyFailed err)
             | Inr _ \<Rightarrow> Inr (set_admission e adm)))
       (\<lambda>e. load_entries S consortium es
         (roster\<lparr>relays := AList.update (rec_id (ent_record e)) e (relays roster)\<rparr>))"

definition load_persisted ::
    "('sk, 'vk) sig_lib \<Rightarrow> PersistedRoster \<Rightarrow> 'vk ThresholdConsortium option \<Rightarrow> (LoadError, RelayRoster) result" where
  "load_persisted S p consortium = load_entries S consortium (pr_entries p) roster_new"

definition load_from_file_with_policy ::
    "('sk, 'vk) sig_lib \<Rightarrow> PersistedRoster \<Rightarrow> 'vk ThresholdConsortium option \<Rightarrow> bool
      \<Rightarrow> (RosterError, RelayRoster) result" where
  "load_from_file_with_policy S p consortium allow_unverified =
     (case consortium of
        Some c \<Rightarrow> (case load_persisted S p (Some c) of Inl _ \<Rightarrow> Inl RosterIo | Inr r \<Rightarrow> Inr r)
      | None \<Rightarrow>
          if allow_unverified
          then (case load_persisted S p None of Inl _ \<Rightarrow> Inl RosterIo | Inr r \<Rightarrow> Inr r)
          else Inl UnverifiedRosterNotAllowed)"

section \<open>What a consortium vouches for\<close>

definition consortium_wf :: "('sk, 'vk) sig_lib \<Rightarrow> 'vk ThresholdConsortium \<Rightarrow> bool" where
  "consortium_wf S c \<longleftrightarrow> 0 < con_threshold c \<and> con_threshold c \<le> length (authorities c)
     \<and> distinct (map (ed_to_bytes S) (authorities c))
     \<and> (\<forall>pk vk. authority_for_pubkey c pk = Some vk \<longrightarrow> vk \<in> set (authorities c) \<and> ed_to_bytes S vk = pk)"

lemma consortium_new_wf:
  assumes "consortium_new S t auths = Inr c"
  shows "consortium_wf S c" "con_threshold c = t" "authorities c = auths"
proof -
  let ?m = "fold (\<lambda>pk m. AList.update (ed_to_bytes S pk) pk m) auths []"
  from assms have c: "c = \<lparr>con_threshold = t, authorities = auths, by_pubkey = ?m\<rparr>"
    "0 < t" "t \<le> length auths" "length ?m = length auths"
    by (auto simp: consortium_new_def Let_def split: if_splits)
  have d: "distinct (map fst ?m)" by (rule distinct_fold_update) simp
  have "length ?m = card (fst ` set ?m)" using distinct_card[OF d] by simp
  then have "card (ed_to_bytes S ` set auths) = length auths"
    using c(4) fst_fold_update[of "ed_to_bytes S" auths "[]"] by simp
  then have di: "distinct (map (ed_to_bytes S) auths)" by (intro card_distinct) simp
  have "vk \<in> set auths \<and> ed_to_bytes S vk = pk" if "map_of ?m pk = Some vk" for pk vk
    using map_of_fold_update[OF that] by simp
  then show "consortium_wf S c"
    using c(2,3) di unfolding c(1) consortium_wf_def authority_for_pubkey_def ThresholdConsortium.simps by blast
  show "con_threshold c = t" "authorities c = auths" using c by simp_all
qed

lemma single_ok: "consortium_new S 1 [pk] = Inr (single S pk)"
  by (simp add: single_def consortium_new_def)

text \<open>The set of authorities that signed a record, and what a record needs to be admitted.\<close>

definition signed_by :: "('sk, 'vk) sig_lib \<Rightarrow> ThresholdSignedRelayRecord \<Rightarrow> 'vk \<Rightarrow> bool" where
  "signed_by S t vk \<longleftrightarrow> (\<exists>s \<in> set (signatures t). \<exists>sig. authority_pubkey s = ed_to_bytes S vk
     \<and> ed_sig_from_slice S (auth_signature s) = Some sig
     \<and> ed_verify S vk (canonical_record_bytes (thr_record t)) sig)"

definition vouched :: "('sk, 'vk) sig_lib \<Rightarrow> 'vk ThresholdConsortium \<Rightarrow> ThresholdSignedRelayRecord \<Rightarrow> bool" where
  "vouched S c t \<longleftrightarrow> con_threshold c \<le> card {vk \<in> set (authorities c). signed_by S t vk}"

lemma authority_verify_ok:
  "authority_verify S s r vk = Inr u \<longleftrightarrow> authority_pubkey s = ed_to_bytes S vk
     \<and> (\<exists>sig. ed_sig_from_slice S (auth_signature s) = Some sig \<and> ed_verify S vk (canonical_record_bytes r) sig)"
  by (auto simp: authority_verify_def split: option.splits)

lemma count_authorities_sound:
  assumes "consortium_wf S c" "count_authorities S c (thr_record t) sigs acc = Inr valid"
    "set sigs \<subseteq> set (signatures t)" "distinct acc"
    "\<forall>pk \<in> set acc. \<exists>vk \<in> set (authorities c). ed_to_bytes S vk = pk \<and> signed_by S t vk"
  shows "distinct valid \<and> (\<forall>pk \<in> set valid. \<exists>vk \<in> set (authorities c). ed_to_bytes S vk = pk \<and> signed_by S t vk)"
  using assms(2-)
proof (induction sigs arbitrary: acc)
  case Nil
  then show ?case by simp
next
  case (Cons s sigs)
  show ?case
  proof (cases "authority_pubkey s \<in> set acc")
    case True
    then show ?thesis using Cons by simp
  next
    case False
    obtain vk where vk: "authority_for_pubkey c (authority_pubkey s) = Some vk"
      "authority_verify S s (thr_record t) vk = Inr ()"
      "count_authorities S c (thr_record t) sigs (authority_pubkey s # acc) = Inr valid"
      using Cons.prems(1) False by (auto simp: bind_result_Inr_iff ok_or_def split: option.splits)
    have "vk \<in> set (authorities c)" "ed_to_bytes S vk = authority_pubkey s" "signed_by S t vk"
      using assms(1) vk(1,2) Cons.prems(2) by (auto simp: consortium_wf_def signed_by_def authority_verify_ok)
    then show ?thesis using Cons.IH[OF vk(3)] Cons.prems(2,3,4) False by auto
  qed
qed

lemma verify_threshold_vouched:
  assumes "consortium_wf S c" "verify_threshold S t c = Inr u"
  shows "vouched S c t"
proof -
  obtain valid where v: "count_authorities S c (thr_record t) (signatures t) [] = Inr valid"
    "con_threshold c \<le> length valid"
    using assms(2) by (auto simp: verify_threshold_def bind_result_Inr_iff split: if_splits)
  note s = count_authorities_sound[OF assms(1) v(1)]
  let ?A = "{vk \<in> set (authorities c). signed_by S t vk}"
  have "set valid \<subseteq> ed_to_bytes S ` ?A" using s by auto
  then have "card (set valid) \<le> card (ed_to_bytes S ` ?A)" by (intro card_mono) simp_all
  also have "\<dots> \<le> card ?A" by (intro card_image_le) simp
  finally have "card (set valid) \<le> card ?A" .
  then show ?thesis using s v(2) by (simp add: vouched_def distinct_card)
qed

section \<open>The roster holds only what the consortium vouched for\<close>

text \<open>
  The histories of a roster: signed admissions (pruned or not) and removals. \<open>ts\<close> lists the clock
  readings of all admission attempts and \<open>hist\<close> those of the admissions of new relays, both newest first;
  the clock is the system time, so nothing is said here about their order.
\<close>

inductive roster_run ::
    "('sk, 'vk) sig_lib \<Rightarrow> (bytes \<Rightarrow> bytes) \<Rightarrow> 'vk ThresholdConsortium \<Rightarrow> RosterAdmissionPolicy
      \<Rightarrow> u64 list \<Rightarrow> u64 list \<Rightarrow> RelayRoster \<Rightarrow> bool"
  for S H c p where
  run_new: "roster_run S H c p [] [] (with_admission_policy p)"
| run_admit: "roster_run S H c p ts hist r
    \<Longrightarrow> admit_threshold_signed S H now r adm c ledger = (res, r', ledger')
    \<Longrightarrow> roster_run S H c p (now # ts) (if res = Inr () \<and> \<not> is_admitted r (rec_id (thr_record adm)) then now # hist else hist) r'"
| run_admit_pruned: "roster_run S H c p ts hist r
    \<Longrightarrow> admit_threshold_signed_pruned S H now r adm c policy min_rep = (res, r', policy')
    \<Longrightarrow> roster_run S H c p (now # ts) (if res = Inr () \<and> \<not> is_admitted r (rec_id (thr_record adm)) then now # hist else hist) r'"
| run_remove: "roster_run S H c p ts hist r \<Longrightarrow> roster_run S H c p ts hist (snd (roster_remove r i))"

text \<open>What one admission does, whichever entry point it came through.\<close>

inductive admit_step ::
    "('sk, 'vk) sig_lib \<Rightarrow> (bytes \<Rightarrow> bytes) \<Rightarrow> 'vk ThresholdConsortium \<Rightarrow> u64 \<Rightarrow> ThresholdSignedRelayRecord
      \<Rightarrow> RelayRoster \<Rightarrow> bool \<Rightarrow> RelayRoster \<Rightarrow> bool"
  for S H c now adm where
  adm_refused: "admit_step S H c now adm r False r"
| adm_known: "verify_threshold S adm c = Inr () \<Longrightarrow> is_admitted r (rec_id (thr_record adm))
    \<Longrightarrow> require_kem_derived_id (admission_policy r) \<longrightarrow> id_matches_kem_commitment H (thr_record adm)
    \<Longrightarrow> admit_step S H c now adm r False
      (r\<lparr>relays := AList.update (rec_id (thr_record adm))
          \<lparr>ent_record = thr_record adm, signed_admission = None, threshold_admission = Some adm\<rparr> (relays r)\<rparr>)"
| adm_new: "verify_threshold S adm c = Inr () \<Longrightarrow> \<not> is_admitted r (rec_id (thr_record adm))
    \<Longrightarrow> require_kem_derived_id (admission_policy r) \<longrightarrow> id_matches_kem_commitment H (thr_record adm)
    \<Longrightarrow> check_admission_rate_limit r now = Inr ()
    \<Longrightarrow> admit_step S H c now adm r True
      ((record_admission r now)\<lparr>relays := AList.update (rec_id (thr_record adm))
          \<lparr>ent_record = thr_record adm, signed_admission = None, threshold_admission = Some adm\<rparr> (relays r)\<rparr>)"

lemma record_admission_fields [simp]:
  "relays (record_admission r now) = relays r" "admission_policy (record_admission r now) = admission_policy r"
  by (simp_all add: record_admission_def Let_def)

lemma admit_verified_inner_step:
  assumes "verify_threshold S adm c = Inr ()" "admit_verified_inner H now r adm ledger = (res, r', ledger')"
  shows "admit_step S H c now adm r (res = Inr () \<and> \<not> is_admitted r (rec_id (thr_record adm))) r'"
proof (cases "require_kem_derived_id (admission_policy r) \<and> \<not> id_matches_kem_commitment H (thr_record adm)")
  case True
  then show ?thesis using assms(2) by (auto simp: admit_verified_inner_def Let_def intro: adm_refused)
next
  case id: False
  show ?thesis
  proof (cases "is_admitted r (rec_id (thr_record adm))")
    case True
    then show ?thesis
      using assms id by (auto simp: admit_verified_inner_def Let_def intro!: adm_known)
  next
    case new: False
    show ?thesis
    proof (cases "check_admission_rate_limit r now")
      case (Inl e)
      then have "res = Inl e" "r' = r" using assms new id by (auto simp: admit_verified_inner_def Let_def)
      then show ?thesis by (simp add: adm_refused)
    next
      case (Inr u)
      then show ?thesis
        using assms new id adm_new[of S adm c r H now] by (auto simp: admit_verified_inner_def Let_def)
    qed
  qed
qed

lemma admit_threshold_signed_step:
  assumes "admit_threshold_signed S H now r adm c ledger = (res, r', ledger')"
  shows "admit_step S H c now adm r (res = Inr () \<and> \<not> is_admitted r (rec_id (thr_record adm))) r'"
proof (cases "verify_threshold S adm c")
  case (Inl e)
  then have "res = Inl e" "r' = r" using assms by (auto simp: admit_threshold_signed_def)
  then show ?thesis by (simp add: adm_refused)
next
  case (Inr u)
  then show ?thesis using assms admit_verified_inner_step[of S adm c H now r ledger res r' ledger']
    by (simp add: admit_threshold_signed_def)
qed

lemma admit_threshold_signed_pruned_step:
  assumes "admit_threshold_signed_pruned S H now r adm c policy m = (res, r', policy')"
  shows "admit_step S H c now adm r (res = Inr () \<and> \<not> is_admitted r (rec_id (thr_record adm))) r'"
proof (cases "verify_threshold S adm c")
  case (Inl e)
  then have "res = Inl e" "r' = r" using assms by (auto simp: admit_threshold_signed_pruned_def)
  then show ?thesis by (simp add: adm_refused)
next
  case (Inr u)
  obtain res1 r1 l1 where i: "admit_verified_inner H now r adm (pol_ledger policy) = (res1, r1, l1)"
    by (metis prod_cases3)
  show ?thesis
    using Inr assms i admit_verified_inner_step[of S adm c H now r "pol_ledger policy" res1 r1 l1]
    by (auto simp: admit_threshold_signed_pruned_def admit_verified_pruned_def Let_def
        intro: adm_refused split: if_splits)
qed

text \<open>So every history is made of steps.\<close>

lemma roster_run_induct [consumes 1, case_names new step remove]:
  assumes "roster_run S H c p ts hist r"
    and "P [] [] (with_admission_policy p)"
    and "\<And>ts hist r now adm b r'. P ts hist r \<Longrightarrow> admit_step S H c now adm r b r'
      \<Longrightarrow> P (now # ts) (if b then now # hist else hist) r'"
    and "\<And>ts hist r i. P ts hist r \<Longrightarrow> P ts hist (snd (roster_remove r i))"
  shows "P ts hist r"
  using assms(1)
proof (induction rule: roster_run.induct)
  case run_new
  show ?case by (rule assms(2))
next
  case (run_admit ts hist r now adm ledger res r' ledger')
  show ?case by (rule assms(3)[OF run_admit.IH admit_threshold_signed_step[OF run_admit.hyps(2)]])
next
  case (run_admit_pruned ts hist r now adm policy m res r' policy')
  show ?case
    by (rule assms(3)[OF run_admit_pruned.IH admit_threshold_signed_pruned_step[OF run_admit_pruned.hyps(2)]])
next
  case (run_remove ts hist r i)
  then show ?case using assms(4) by simp
qed

definition entry_ok ::
    "('sk, 'vk) sig_lib \<Rightarrow> (bytes \<Rightarrow> bytes) \<Rightarrow> 'vk ThresholdConsortium \<Rightarrow> RosterAdmissionPolicy
      \<Rightarrow> RelayId \<times> RosterEntry \<Rightarrow> bool" where
  "entry_ok S H c p x \<longleftrightarrow> rec_id (ent_record (snd x)) = fst x
     \<and> signed_admission (snd x) = None
     \<and> (\<exists>adm. threshold_admission (snd x) = Some adm \<and> thr_record adm = ent_record (snd x) \<and> verify_threshold S adm c = Inr ())
     \<and> (require_kem_derived_id p \<longrightarrow> id_matches_kem_commitment H (ent_record (snd x)))"

lemma roster_run_entries:
  assumes "roster_run S H c p ts hist r"
  shows "admission_policy r = p \<and> distinct (map fst (relays r)) \<and> (\<forall>x \<in> set (relays r). entry_ok S H c p x)"
  using assms
proof (induction rule: roster_run_induct)
  case new
  then show ?case by (simp add: with_admission_policy_def roster_new_def)
next
  case (step ts hist r now adm b r')
  have e: "entry_ok S H c p (rec_id (thr_record adm),
        \<lparr>ent_record = thr_record adm, signed_admission = None, threshold_admission = Some adm\<rparr>)"
    if "verify_threshold S adm c = Inr ()" "require_kem_derived_id p \<longrightarrow> id_matches_kem_commitment H (thr_record adm)"
    using that by (simp add: entry_ok_def)
  from step.hyps show ?case
    using step.IH e by cases (auto simp: distinct_update dest!: set_alist_update')
next
  case (remove ts hist r i)
  then show ?case by (auto simp: roster_remove_def distinct_delete dest: set_alist_delete)
qed

section \<open>The admission rate\<close>

lemma sat_sub64_mono: "a \<le> b \<Longrightarrow> sat_sub64 a w \<le> sat_sub64 b w"
  by (simp add: word_le_nat_alt unat_sat_sub64)

lemma filter_ge_twice: "c \<le> (d :: u64) \<Longrightarrow> filter (\<lambda>t. c \<le> t \<and> d \<le> t) xs = filter (\<lambda>t. d \<le> t) xs"
  by (induction xs) auto

text \<open>
  Newest first, every admission was within the limit at its time, and the roster still has every
  timestamp that a later check can ask for.
\<close>

fun within_rate :: "RosterAdmissionPolicy \<Rightarrow> u64 list \<Rightarrow> bool" where
  "within_rate p [] = True"
| "within_rate p (h # hist) = (within_rate p hist \<and> (\<forall>x \<in> set hist. x \<le> h)
     \<and> length (filter (\<lambda>x. sat_sub64 h (window_secs p) \<le> x) (h # hist)) \<le> max_admissions_per_window p)"

lemma check_rate_ok:
  "check_admission_rate_limit r now = Inr () \<longleftrightarrow>
     length (filter (\<lambda>t. sat_sub64 now (window_secs (admission_policy r)) \<le> t) (admission_timestamps r))
       < max_admissions_per_window (admission_policy r)"
  by (simp add: check_admission_rate_limit_def Let_def)

lemma sat_sub64_le: "sat_sub64 a w \<le> a"
  by (simp add: word_le_nat_alt unat_sat_sub64)

lemma roster_run_rate:
  assumes "roster_run S H c p ts hist r" "sorted_wrt (\<lambda>later earlier. earlier \<le> later) ts"
  shows "admission_policy r = p \<and> within_rate p hist \<and> set hist \<subseteq> set ts
    \<and> (\<forall>u. (\<forall>t \<in> set ts. t \<le> u) \<longrightarrow>
          filter (\<lambda>x. sat_sub64 u (window_secs p) \<le> x) (admission_timestamps r)
          = rev (filter (\<lambda>x. sat_sub64 u (window_secs p) \<le> x) hist))"
  using assms
proof (induction rule: roster_run_induct)
  case new
  then show ?case by (simp add: with_admission_policy_def roster_new_def)
next
  case (step ts hist r now adm b r')
  have IH: "admission_policy r = p" "within_rate p hist" "set hist \<subseteq> set ts"
    "\<And>u. \<forall>t \<in> set ts. t \<le> u \<Longrightarrow>
        filter (\<lambda>x. sat_sub64 u (window_secs p) \<le> x) (admission_timestamps r)
        = rev (filter (\<lambda>x. sat_sub64 u (window_secs p) \<le> x) hist)"
    using step.IH step.prems by auto
  have old: "\<forall>t \<in> set ts. t \<le> now" using step.prems by simp
  then have le: "h \<le> now" if "h \<in> set hist" for h using IH(3) that by blast
  have stamps: "filter (\<lambda>x. sat_sub64 u (window_secs p) \<le> x) (admission_timestamps r)
      = rev (filter (\<lambda>x. sat_sub64 u (window_secs p) \<le> x) hist)" if "now \<le> u" for u
    using IH(4)[of u] old that by force
  from step.hyps show ?case
  proof cases
    case adm_refused
    then show ?thesis using IH le stamps by auto
  next
    case adm_known
    then show ?thesis using IH le stamps by auto
  next
    case adm_new
    have lim: "length (filter (\<lambda>x. sat_sub64 now (window_secs p) \<le> x) hist) < max_admissions_per_window p"
      using adm_new(6) IH(1) stamps[of now] by (simp add: check_rate_ok)
    have "filter (\<lambda>x. sat_sub64 u (window_secs p) \<le> x) (admission_timestamps r')
        = rev (filter (\<lambda>x. sat_sub64 u (window_secs p) \<le> x) (now # hist))" if u: "now \<le> u" for u
      using adm_new(2) IH(1) stamps[OF u] sat_sub64_mono[OF u, of "window_secs p"]
      by (simp add: record_admission_def Let_def filter_ge_twice)
    then show ?thesis
      using adm_new(1,2) IH(1,2,3) le lim sat_sub64_le[of now "window_secs p"] by auto
  qed
next
  case (remove ts hist r i)
  then show ?case by (simp add: roster_remove_def)
qed

lemma within_rate_window:
  assumes "within_rate p hist"
  shows "length (filter (\<lambda>h. sat_sub64 now (window_secs p) \<le> h \<and> h \<le> now) hist) \<le> max_admissions_per_window p"
  using assms
proof (induction hist)
  case Nil
  then show ?case by simp
next
  case (Cons h hist)
  show ?case
  proof (cases "h \<le> now \<and> sat_sub64 now (window_secs p) \<le> h")
    case False
    then show ?thesis using Cons by auto
  next
    case True
    have "sat_sub64 h (window_secs p) \<le> sat_sub64 now (window_secs p)" using True sat_sub64_mono by blast
    then have "length (filter (\<lambda>x. sat_sub64 now (window_secs p) \<le> x \<and> x \<le> now) (h # hist))
        \<le> length (filter (\<lambda>x. sat_sub64 h (window_secs p) \<le> x) (h # hist))"
      by (intro filter_length_mono) auto
    then show ?thesis using Cons.prems by simp
  qed
qed

section \<open>Saving and loading\<close>

lemma load_entries_append:
  "load_entries S c (es @ fs) r = bind_result (load_entries S c es r) (load_entries S c fs)"
proof (induction es arbitrary: r)
  case (Cons e es)
  then show ?case by (cases "load_entries S c [e] r") (auto simp: bind_result_def split: sum.splits)
qed simp

lemma load_entries_ok:
  assumes "\<forall>e \<in> set es. signed_admission e = None
    \<and> (\<exists>adm. threshold_admission e = Some adm \<and> verify_threshold S adm c = Inr ())"
  shows "load_entries S (Some c) es r
    = Inr (r\<lparr>relays := fold (\<lambda>e. AList.update (rec_id (ent_record e)) e) es (relays r)\<rparr>)"
  using assms
proof (induction es arbitrary: r)
  case Nil
  then show ?case by simp
next
  case (Cons e es)
  obtain adm where adm: "threshold_admission e = Some adm" "verify_threshold S adm c = Inr ()" "signed_admission e = None"
    using Cons.prems by auto
  then have "set_admission e adm = e" by (simp add: set_admission_def)
  then show ?case using Cons adm by (simp add: admission_def)
qed

text \<open>What a verified load does guarantee: every entry comes with an admission that the consortium accepts. It need
  not be for the record of the entry (\<open>load_accepts_forged_record\<close>).\<close>

lemma load_entries_verified:
  assumes "load_entries S (Some c) es r = Inr r'"
    and "\<forall>x \<in> set (relays r). \<exists>adm. admission (snd x) = Some adm \<and> verify_threshold S adm c = Inr ()"
  shows "\<forall>x \<in> set (relays r'). \<exists>adm. admission (snd x) = Some adm \<and> verify_threshold S adm c = Inr ()"
  using assms
proof (induction es arbitrary: r)
  case (Cons e es)
  obtain adm e2 where e2: "(case verify_threshold S adm c of Inl err \<Rightarrow> Inl (VerifyFailed err)
        | Inr _ \<Rightarrow> Inr (set_admission e adm)) = Inr e2"
    and next_entries: "load_entries S (Some c) es (r\<lparr>relays := AList.update (rec_id (ent_record e2)) e2 (relays r)\<rparr>) = Inr r'"
    using Cons.prems(1) unfolding load_entries.simps option.case bind_result_Inr_iff by blast
  then have adm: "verify_threshold S adm c = Inr ()" and "e2 = set_admission e adm"
    by (cases "verify_threshold S adm c"; simp)+
  then have rest: "load_entries S (Some c) es
      (r\<lparr>relays := AList.update (rec_id (ent_record e)) (set_admission e adm) (relays r)\<rparr>) = Inr r'"
    using next_entries by (simp add: set_admission_def)
  have "admission (set_admission e adm) = Some adm" by (simp add: admission_def set_admission_def)
  with Cons.prems(2) adm show ?case
    by (intro Cons.IH[OF rest]) (auto dest!: set_alist_update')
qed simp

lemma load_persisted_verified:
  assumes "load_persisted S p (Some c) = Inr r" "is_admitted r i"
  shows "\<exists>adm. get_threshold_signed r i = Some adm \<and> verify_threshold S adm c = Inr ()"
proof -
  have all: "\<forall>x \<in> set (relays r). \<exists>adm. admission (snd x) = Some adm \<and> verify_threshold S adm c = Inr ()"
    by (rule load_entries_verified[OF assms(1)[unfolded load_persisted_def]]) (simp add: roster_new_def with_admission_policy_def)
  obtain e where e: "map_of (relays r) i = Some e"
    using assms(2) by (cases "map_of (relays r) i") (auto simp: is_admitted_def map_of_eq_None_iff)
  then show ?thesis using all map_of_SomeD[OF e] by (force simp: get_threshold_signed_def)
qed

lemma roster_run_loads:
  assumes "roster_run S H c p ts hist r"
  shows "\<exists>r'. load_persisted S (save_to_file r) (Some c) = Inr r' \<and> map_of (relays r') = map_of (relays r)"
proof -
  let ?key = "\<lambda>e. rec_id (ent_record e)"
  let ?es = "sort_key ?key (map snd (relays r))"
  have d: "distinct (map fst (relays r))" and ok: "\<forall>x \<in> set (relays r). entry_ok S H c p x"
    using roster_run_entries[OF assms] by auto
  have keys: "map ?key (map snd (relays r)) = map fst (relays r)"
    using ok by (auto simp: entry_ok_def)
  have mset: "mset (map ?key ?es) = mset (map fst (relays r))"
    using keys by (metis mset_map mset_sort)
  then have d': "distinct (map ?key ?es)" using d by (metis mset_eq_imp_distinct_iff)
  have "load_persisted S (save_to_file r) (Some c)
      = Inr (roster_new\<lparr>relays := fold (\<lambda>e. AList.update (?key e) e) ?es (relays roster_new)\<rparr>)"
    unfolding load_persisted_def save_to_file_def PersistedRoster.simps
    by (rule load_entries_ok) (use ok in \<open>auto simp: entry_ok_def\<close>)
  moreover have "fold (\<lambda>e. AList.update (?key e) e) ?es (relays roster_new) = map (\<lambda>e. (?key e, e)) ?es"
    using fold_update_new[of "[]" ?key ?es] d' by (simp add: roster_new_def)
  moreover have "map_of (map (\<lambda>e. (?key e, e)) ?es) = map_of (relays r)"
  proof (rule map_of_inject_set[THEN iffD2])
    show "distinct (map fst (map (\<lambda>e. (?key e, e)) ?es))" using d' by (simp add: comp_def)
    show "distinct (map fst (relays r))" by (rule d)
    show "set (map (\<lambda>e. (?key e, e)) ?es) = set (relays r)"
    proof -
      have "set (map (\<lambda>e. (?key e, e)) ?es) = (\<lambda>x. (?key (snd x), snd x)) ` set (relays r)" by (simp add: image_image)
      also have "\<dots> = (\<lambda>x. x) ` set (relays r)"
      proof (rule image_cong[OF refl])
        fix x assume "x \<in> set (relays r)"
        then have "?key (snd x) = fst x" using ok unfolding entry_ok_def by blast
        then show "(?key (snd x), snd x) = x" by (cases x) simp
      qed
      finally show ?thesis by simp
    qed
  qed
  ultimately show ?thesis by simp
qed

text \<open>Enough signatures of configured authorities satisfy the threshold.\<close>

lemma consortium_lookup:
  assumes "sig_laws S" "consortium_new S m auths = Inr c" "vk \<in> set auths"
  shows "authority_for_pubkey c (ed_to_bytes S vk) = Some vk"
proof -
  let ?m = "fold (\<lambda>pk m. AList.update (ed_to_bytes S pk) pk m) auths []"
  have c: "by_pubkey c = ?m" using assms(2) by (auto simp: consortium_new_def Let_def split: if_splits)
  have "ed_to_bytes S vk \<in> fst ` set ?m" using assms(3) by (simp add: fst_fold_update)
  then have "map_of ?m (ed_to_bytes S vk) \<noteq> None" unfolding map_of_eq_None_iff by blast
  then obtain v where v: "map_of ?m (ed_to_bytes S vk) = Some v" by blast
  then have "ed_to_bytes S v = ed_to_bytes S vk" using map_of_fold_update[OF v] by simp
  then have "v = vk" by (rule ed_to_bytes_inj[OF assms(1), THEN iffD1])
  then show ?thesis using v by (simp add: authority_for_pubkey_def c)
qed

lemma verify_threshold_complete:
  assumes "sig_laws S" "consortium_new S m auths = Inr c"
    "\<forall>k \<in> set ks. ed_verifying_key S k \<in> set auths" "distinct (map (ed_verifying_key S) ks)" "m \<le> length ks"
  shows "verify_threshold S \<lparr>thr_record = rec, signatures = map (\<lambda>k. sign_authority S k rec) ks\<rparr> c = Inr ()"
proof -
  have "count_authorities S c rec (map (\<lambda>k. sign_authority S k rec) ks) acc
      = Inr (rev (map (\<lambda>k. ed_to_bytes S (ed_verifying_key S k)) ks) @ acc)"
    if "\<forall>k \<in> set ks. ed_verifying_key S k \<in> set auths" "distinct (map (ed_verifying_key S) ks)"
      "\<forall>k \<in> set ks. ed_to_bytes S (ed_verifying_key S k) \<notin> set acc" for ks acc
    using that
  proof (induction ks arbitrary: acc)
    case (Cons k ks)
    have "authority_verify S (sign_authority S k rec) rec (ed_verifying_key S k) = Inr ()"
      using sig_lawsD[OF assms(1)] by (simp add: authority_verify_def sign_authority_def)
    moreover have "authority_for_pubkey c (ed_to_bytes S (ed_verifying_key S k)) = Some (ed_verifying_key S k)"
      using consortium_lookup[OF assms(1,2)] Cons.prems(1) by simp
    moreover have "\<forall>j \<in> set ks. ed_to_bytes S (ed_verifying_key S j)
        \<notin> set (ed_to_bytes S (ed_verifying_key S k) # acc)"
      using Cons.prems(2,3) ed_to_bytes_inj[OF assms(1)] by (auto simp: image_iff)
    ultimately show ?case
      using Cons.IH[of "ed_to_bytes S (ed_verifying_key S k) # acc"] Cons.prems
      by (simp add: sign_authority_def)
  qed simp
  from this[of ks "[]"] assms(3,4,5) consortium_new_wf(2)[OF assms(2)] show ?thesis
    by (simp add: verify_threshold_def)
qed

section \<open>Theorems\<close>

text \<open>C15. Whatever signed admissions and removals a roster has been through, every relay on it is there under its
  own id, with the very record that at least m distinct authorities of the m-of-n consortium signed,
  and (under the default policy) with an id derived from its KEM commitment.\<close>

theorem roster_only_vouched:
  assumes "consortium_new S m auths = Inr c" "roster_run S H c p ts hist r" "roster_get r i = Some rec"
  shows "rec_id rec = i \<and> (\<exists>adm. get_threshold_signed r i = Some adm \<and> thr_record adm = rec
      \<and> m \<le> card {vk \<in> set auths. signed_by S adm vk})
    \<and> (require_kem_derived_id p \<longrightarrow> id_matches_kem_commitment H rec)"
proof -
  obtain e where e: "map_of (relays r) i = Some e" "ent_record e = rec"
    using assms(3) by (auto simp: roster_get_def)
  have "entry_ok S H c p (i, e)" using roster_run_entries[OF assms(2)] map_of_SomeD[OF e(1)] by blast
  then show ?thesis
    using e verify_threshold_vouched[of S c] consortium_new_wf[OF assms(1)]
    by (auto simp: entry_ok_def get_threshold_signed_def admission_def vouched_def)
qed

definition roster_example_consortium :: "byte ThresholdConsortium" where
  "roster_example_consortium = \<lparr>con_threshold = 2, authorities = [1, 2, 3],
     by_pubkey = [(replicate 32 1, 1), (replicate 32 2, 2), (replicate 32 3, 3)]\<rparr>"

definition roster_example_record :: RelayRecord where
  "roster_example_record = \<lparr>rec_id = from_kem_commitment id (replicate 32 5), rec_jurisdiction = [68, 69],
     rec_commitment = replicate 32 5\<rparr>"

definition roster_example_admission :: ThresholdSignedRelayRecord where
  "roster_example_admission = \<lparr>thr_record = roster_example_record,
     signatures = map (\<lambda>k. sign_authority toy_sig k roster_example_record) [1, 3]\<rparr>"

definition roster_example :: RelayRoster where
  "roster_example = \<lparr>relays = [(rec_id roster_example_record, \<lparr>ent_record = roster_example_record,
       signed_admission = None, threshold_admission = Some roster_example_admission\<rparr>)],
     admission_policy = admission_policy_default, admission_timestamps = [100]\<rparr>"

lemma roster_example_consortium_new:
  "consortium_new toy_sig 2 [1, 2, 3] = Inr roster_example_consortium"
  by (simp add: consortium_new_def toy_sig_def roster_example_consortium_def replicate_eq_replicate)

lemma roster_example_verified:
  "verify_threshold toy_sig roster_example_admission roster_example_consortium = Inr ()"
  unfolding roster_example_admission_def
  by (rule verify_threshold_complete[OF toy_sig_laws roster_example_consortium_new]) (simp_all add: toy_sig_def)

lemma roster_example_record_id: "id_matches_kem_commitment id roster_example_record"
  by (simp add: id_matches_kem_commitment_def roster_example_record_def)

lemma roster_example_value:
  "admit_threshold_signed toy_sig id 100 (with_admission_policy admission_policy_default) roster_example_admission
     roster_example_consortium \<lparr>decay = Fin 1, scores = []\<rparr>
   = (Inr (), roster_example, \<lparr>decay = Fin 1, scores = [(as_bytes (rec_id roster_example_record), PROBATIONARY)]\<rparr>)"
proof -
  have "thr_record roster_example_admission = roster_example_record" by (simp add: roster_example_admission_def)
  then show ?thesis
    by (simp add: roster_example_def admit_threshold_signed_def roster_example_verified roster_example_record_id
        admit_verified_inner_def Let_def with_admission_policy_def roster_new_def is_admitted_def
        check_admission_rate_limit_def record_admission_def admission_policy_default_def admit_new_relay_def)
qed

lemma roster_example_get: "roster_get roster_example (rec_id roster_example_record) = Some roster_example_record"
  by (simp add: roster_get_def roster_example_def)

lemma roster_example_run:
  "roster_run toy_sig id roster_example_consortium admission_policy_default [100] [100] roster_example"
  using run_admit[OF run_new roster_example_value]
  by (simp add: is_admitted_def with_admission_policy_def roster_new_def)

theorem roster_only_vouched_witness:
  "2 \<le> card {vk \<in> set [1, 2, 3 :: byte].
      signed_by toy_sig (the (get_threshold_signed roster_example (rec_id roster_example_record))) vk}"
  using roster_only_vouched[OF roster_example_consortium_new roster_example_run roster_example_get] by auto

text \<open>C16. The rate limit bounds the admissions of new relays, as long as the clock does not go back between
  admission attempts: in every window of the policy's length, wherever it ends, a roster has admitted at most
  the policy's maximum, removals and re-admissions included. A roster that is reset or loaded again starts with
  no admissions counted.\<close>

theorem admission_rate_bounded:
  assumes "roster_run S H c p ts hist r" "sorted_wrt (\<lambda>later earlier. earlier \<le> later) ts"
  shows "length (filter (\<lambda>h. sat_sub64 now (window_secs p) \<le> h \<and> h \<le> now) hist) \<le> max_admissions_per_window p"
  using within_rate_window roster_run_rate[OF assms] by blast

theorem admission_rate_bounded_witness:
  "length (filter (\<lambda>h. sat_sub64 200 (window_secs admission_policy_default) \<le> h \<and> h \<le> 200) [100 :: u64])
     \<le> max_admissions_per_window admission_policy_default"
  by (rule admission_rate_bounded[OF roster_example_run]) simp

text \<open>The clock is the system time, and one jump forward and back lets more through: the admission after the
  jump forgets the older ones, so that after the jump back a third admission passes in a window of two.\<close>

theorem clock_jump_exceeds_rate:
  assumes "admission_policy r = p" "max_admissions_per_window p = 2" "window_secs p = 60"
    "admission_timestamps r = []"
  defines "r1 \<equiv> record_admission r 100"
  defines "r2 \<equiv> record_admission r1 100"
  defines "r3 \<equiv> record_admission r2 1000"
  shows "check_admission_rate_limit r 100 = Inr () \<and> check_admission_rate_limit r1 100 = Inr ()
    \<and> check_admission_rate_limit r2 1000 = Inr () \<and> check_admission_rate_limit r3 101 = Inr ()"
  using assms(1-4)
  by (simp add: r1_def r2_def r3_def check_admission_rate_limit_def record_admission_def Let_def sat_sub64_def)

text \<open>A saved roster loads, every admission verified again by the consortium, to the same relays.\<close>

theorem roster_file_roundtrip:
  assumes "roster_run S H c p ts hist r"
  shows "\<exists>r'. load_from_file_with_policy S (save_to_file r) (Some c) allow = Inr r'
    \<and> (\<forall>i. roster_get r' i = roster_get r i \<and> get_threshold_signed r' i = get_threshold_signed r i)"
  using roster_run_loads[OF assms]
  by (auto simp: load_from_file_with_policy_def roster_get_def get_threshold_signed_def)

theorem roster_file_roundtrip_witness:
  "\<exists>r'. load_from_file_with_policy toy_sig (save_to_file roster_example) (Some roster_example_consortium) False = Inr r'
    \<and> (\<forall>i. roster_get r' i = roster_get roster_example i
         \<and> get_threshold_signed r' i = get_threshold_signed roster_example i)"
  by (rule roster_file_roundtrip[OF roster_example_run])

text \<open>A verified load checks the signed record of an entry and keeps its unsigned one: whatever record is
  written over the outer record of the last entry of a file that loads, the file still loads under the same
  consortium, and the roster then holds the forged record.\<close>

theorem load_accepts_forged_record:
  assumes "load_persisted S \<lparr>pr_version = v, pr_entries = es @ [e]\<rparr> (Some c) = Inr r"
  shows "\<exists>r'. load_persisted S \<lparr>pr_version = v, pr_entries = es @ [e\<lparr>ent_record := forged\<rparr>]\<rparr> (Some c) = Inr r'
    \<and> roster_get r' (rec_id forged) = Some forged"
proof -
  obtain r1 where r1: "load_entries S (Some c) es roster_new = Inr r1" "load_entries S (Some c) [e] r1 = Inr r"
    using assms by (auto simp: load_persisted_def load_entries_append bind_result_Inr_iff)
  have "admission (e\<lparr>ent_record := forged\<rparr>) = admission e" by (cases e) (simp add: admission_def split: option.split)
  then show ?thesis
    using r1 by (auto simp: load_persisted_def load_entries_append bind_result_Inr_iff ok_or_def roster_get_def
        set_admission_def update_conv' split: option.splits sum.splits)
qed

theorem load_accepts_forged_record_witness:
  "\<exists>r'. load_persisted toy_sig \<lparr>pr_version = 2, pr_entries = [(snd (relays roster_example ! 0))\<lparr>ent_record :=
        \<lparr>rec_id = RelayId (replicate 32 9), rec_jurisdiction = [], rec_commitment = replicate 32 9\<rparr>\<rparr>]\<rparr>
      (Some roster_example_consortium) = Inr r'
    \<and> roster_get r' (RelayId (replicate 32 9))
      = Some \<lparr>rec_id = RelayId (replicate 32 9), rec_jurisdiction = [], rec_commitment = replicate 32 9\<rparr>"
proof -
  obtain x where x: "relays roster_example = [x]" by (simp add: roster_example_def)
  obtain r' where "load_persisted toy_sig \<lparr>pr_version = 2, pr_entries = [] @ [snd x]\<rparr> (Some roster_example_consortium) = Inr r'"
    using roster_run_loads[OF roster_example_run] x by (auto simp: save_to_file_def)
  from load_accepts_forged_record[OF this,
      of "\<lparr>rec_id = RelayId (replicate 32 9), rec_jurisdiction = [], rec_commitment = replicate 32 9\<rparr>"]
  show ?thesis by (simp add: x)
qed

end
