(* ===== verification/Layers.thy ===== *)
theory Layers
  imports Roster
begin

text \<open>
  \<^verbatim>\<open>crates/aegis-topology/src/layers.rs\<close>: the stratified topology of an epoch. The generator
  (\<open>StdRng\<close> of the \<open>rand\<close> crate) is the argument \<open>R\<close>: seeding and \<open>gen_range\<close> over a half-open range.
\<close>

section \<open>Random draws\<close>

record 'r rand_lib =
  seed_from_u64 :: "u64 \<Rightarrow> 'r"
  gen_range :: "'r \<Rightarrow> nat \<Rightarrow> nat \<Rightarrow> nat \<times> 'r"

text \<open>Documented behaviour: a draw from a non-empty range lies in it (an empty range panics).\<close>

definition rand_ok :: "'r rand_lib \<Rightarrow> bool" where
  "rand_ok R \<longleftrightarrow> (\<forall>rng a b. a < b \<longrightarrow> a \<le> fst (gen_range R rng a b) \<and> fst (gen_range R rng a b) < b)"

lemma rand_okD: "rand_ok R \<Longrightarrow> a < b \<Longrightarrow> gen_range R rng a b = (j, rng') \<Longrightarrow> a \<le> j \<and> j < b"
  by (metis fst_conv rand_ok_def)

text \<open>A counter as generator, for the witnesses.\<close>

definition counter_rand :: "u64 rand_lib" where
  "counter_rand = \<lparr>seed_from_u64 = (\<lambda>s. s), gen_range = (\<lambda>r a b. (a + unat r mod (b - a), r + 1))\<rparr>"

lemma counter_rand_ok [simp]: "rand_ok counter_rand"
proof -
  have "a + unat r mod (b - a) < b" if "a < b" for a b and r :: u64
    using mod_less_divisor[of "b - a" "unat r"] that by linarith
  then show ?thesis by (simp add: rand_ok_def counter_rand_def)
qed

definition swap :: "'a list \<Rightarrow> nat \<Rightarrow> nat \<Rightarrow> 'a list" where
  "swap xs i j = xs[i := xs ! j, j := xs ! i]"

lemma length_swap [simp]: "length (swap xs i j) = length xs"
  by (simp add: swap_def)

lemma mset_swap [simp]: "i < length xs \<Longrightarrow> j < length xs \<Longrightarrow> mset (swap xs i j) = mset xs"
  by (simp add: swap_def mset_swap)

section \<open>The topology of an epoch\<close>

record Topology =
  topo_epoch :: u64
  layer_count :: nat
  layers :: "RelayId list list"

definition layer :: "Topology \<Rightarrow> nat \<Rightarrow> RelayId list option" where
  "layer t i = (if i < length (layers t) then Some (layers t ! i) else None)"

text \<open>\<open>for i in (1..ids.len()).rev()\<close>: \<open>i\<close> counts down to 1.\<close>

fun shuffle_loop :: "'r rand_lib \<Rightarrow> nat \<Rightarrow> 'a list \<Rightarrow> 'r \<Rightarrow> 'a list" where
  "shuffle_loop R 0 ids rng = ids"
| "shuffle_loop R (Suc i) ids rng =
     (let (j, rng) = gen_range R rng 0 (Suc i + 1)
      in shuffle_loop R i (swap ids (Suc i) j) rng)"

fun assign_layers :: "nat \<Rightarrow> nat \<Rightarrow> 'a list \<Rightarrow> 'a list list \<Rightarrow> 'a list list" where
  "assign_layers n i [] ls = ls"
| "assign_layers n i (x # ids) ls = assign_layers n (i + 1) ids (ls[i mod n := ls ! (i mod n) @ [x]])"

definition epoch_rng_seed :: "u64 \<Rightarrow> u64 \<Rightarrow> u64" where
  "epoch_rng_seed epoch_seed epoch = epoch_seed * 0x9E3779B97F4A7C15 + epoch"

definition build_topology ::
    "'r rand_lib \<Rightarrow> RelayRoster \<Rightarrow> u64 \<Rightarrow> TopologyConfig \<Rightarrow> u64 \<Rightarrow> (TopologyError, Topology) result" where
  "build_topology R roster epoch config epoch_seed =
     (let n = cfg_layer_count config in
      if n = 0 then Inl (InvalidLayerCount 0)
      else let rs = admitted_sorted roster in
        if rs = [] then Inl EmptyRoster
        else let ids = map rec_id rs;
                 ids = shuffle_loop R (length ids - 1) ids (seed_from_u64 R (epoch_rng_seed epoch_seed epoch))
             in Inr \<lparr>topo_epoch = epoch, layer_count = n,
                  layers = assign_layers n 0 ids (replicate n [])\<rparr>)"

definition build_topology_reputation_filtered ::
    "'r rand_lib \<Rightarrow> RelayRoster \<Rightarrow> u64 \<Rightarrow> TopologyConfig \<Rightarrow> u64 \<Rightarrow> ReputationLedger \<Rightarrow> f64
      \<Rightarrow> (TopologyError, Topology) result" where
  "build_topology_reputation_filtered R roster epoch config epoch_seed ledger min_reputation =
     (let n = cfg_layer_count config in
      if n = 0 then Inl (InvalidLayerCount 0)
      else let rs = admitted_sorted_above_reputation roster ledger min_reputation in
        if rs = [] then Inl EmptyRoster
        else let ids = map rec_id rs;
                 ids = shuffle_loop R (length ids - 1) ids (seed_from_u64 R (epoch_rng_seed epoch_seed epoch))
             in Inr \<lparr>topo_epoch = epoch, layer_count = n,
                  layers = assign_layers n 0 ids (replicate n [])\<rparr>)"

section \<open>The layers partition the relays\<close>

lemma mset_shuffle_loop:
  "rand_ok R \<Longrightarrow> i < length ids \<or> i = 0 \<Longrightarrow> mset (shuffle_loop R i ids rng) = mset ids"
proof (induction R i ids rng rule: shuffle_loop.induct)
  case (1 R ids rng)
  then show ?case by simp
next
  case (2 R i ids rng)
  obtain j rng' where j: "gen_range R rng 0 (Suc i + 1) = (j, rng')" by fastforce
  have "j < Suc i + 1" using rand_okD[OF 2(2) _ j] by simp
  then have "j < length ids" "Suc i < length ids" using 2(3) by auto
  then show ?case using 2(1)[OF j[symmetric] refl 2(2)] j by simp
qed

lemma length_assign_layers [simp]: "length (assign_layers n i ids ls) = length ls"
  by (induction n i ids ls rule: assign_layers.induct) simp_all

text \<open>Layer \<open>k\<close> holds the elements whose index is congruent to \<open>k\<close>, in order.\<close>

lemma assign_layers_nth:
  assumes "k < n" "length ls = n"
  shows "assign_layers n i ids ls ! k
    = ls ! k @ map (\<lambda>j. ids ! j) (filter (\<lambda>j. (i + j) mod n = k) [0..<length ids])"
  using assms
proof (induction ids arbitrary: i ls)
  case Nil
  then show ?case by simp
next
  case (Cons x ids)
  have up: "[0..<length (x # ids)] = 0 # map Suc [0..<length ids]"
    by (simp add: map_Suc_upt upt_conv_Cons del: upt_Suc)
  have "i mod n < n" using Cons.prems(1) by simp
  then show ?case
    unfolding up using Cons.IH[of "ls[i mod n := ls ! (i mod n) @ [x]]" "i + 1"] Cons.prems
    by (auto simp: filter_map comp_def nth_list_update)
qed

lemma mset_concat_update:
  "k < length ls \<Longrightarrow> mset (concat (ls[k := ls ! k @ [x]])) = mset (concat ls) + {#x#}"
  by (induction ls arbitrary: k) (auto simp: nth_Cons split: nat.splits)

lemma mset_concat_assign_layers:
  "0 < n \<Longrightarrow> length ls = n \<Longrightarrow> mset (concat (assign_layers n i ids ls)) = mset (concat ls) + mset ids"
proof (induction ids arbitrary: i ls)
  case (Cons x ids)
  then show ?case by (simp add: mset_concat_update)
qed simp

lemma residue_count:
  assumes "k < n"
  shows "length (filter (\<lambda>j. j mod n = k) [0..<m]) = (m + (n - 1 - k)) div n"
proof (induction m)
  case 0
  then show ?case using assms by simp
next
  case (Suc m)
  let ?s = "m + (n - 1 - k)"
  have n: "0 < n" using assms by simp
  have "(Suc ?s) div n = (if Suc ?s mod n = 0 then Suc (?s div n) else ?s div n)" by (rule div_Suc)
  moreover have "Suc ?s mod n = 0 \<longleftrightarrow> m mod n = k"
  proof -
    have s: "Suc ?s = m + (n - k)" using assms by simp
    have "Suc ?s mod n = (m mod n + (n - k)) mod n" unfolding s by (simp add: mod_add_left_eq)
    moreover have "m mod n < n" using n by simp
    moreover have "(r + (n - k)) mod n = 0 \<longleftrightarrow> r = k" if "r < n" for r
    proof (cases "r < k")
      case True
      then have "(r + (n - k)) mod n = r + (n - k)" using assms by (intro mod_less) linarith
      then show ?thesis using True assms by linarith
    next
      case False
      then have "r + (n - k) = (r - k) + n" using assms by linarith
      then have "(r + (n - k)) mod n = (r - k) mod n" by (metis mod_add_self2)
      then have "(r + (n - k)) mod n = r - k" using that by simp
      then show ?thesis using False by linarith
    qed
    ultimately show ?thesis by presburger
  qed
  ultimately show ?case using Suc.IH by simp
qed

text \<open>Round robin: the layer sizes differ by at most one.\<close>

lemma assign_layers_size:
  assumes "k < n"
  shows "length (assign_layers n 0 ids (replicate n []) ! k) = (length ids + (n - 1 - k)) div n"
  using assms by (simp add: assign_layers_nth residue_count)

lemma build_topology_parts:
  assumes "rand_ok R" "build_topology R roster epoch config seed = Inr t"
  shows "topo_epoch t = epoch" "layer_count t = cfg_layer_count config" "length (layers t) = cfg_layer_count config"
    "0 < cfg_layer_count config" "mset (concat (layers t)) = mset (map rec_id (admitted_sorted roster))"
    "k < cfg_layer_count config \<Longrightarrow> length (layers t ! k)
       = (length (admitted_sorted roster) + (cfg_layer_count config - 1 - k)) div cfg_layer_count config"
  using assms
  by (auto simp: build_topology_def Let_def mset_concat_assign_layers mset_shuffle_loop assign_layers_size
      mset_eq_length[OF mset_shuffle_loop] split: if_splits)

lemma build_filtered_parts:
  assumes "rand_ok R" "build_topology_reputation_filtered R roster epoch config seed ledger m = Inr t"
  shows "topo_epoch t = epoch" "layer_count t = cfg_layer_count config" "length (layers t) = cfg_layer_count config"
    "0 < cfg_layer_count config"
    "mset (concat (layers t)) = mset (map rec_id (admitted_sorted_above_reputation roster ledger m))"
    "k < cfg_layer_count config \<Longrightarrow> length (layers t ! k)
       = (length (admitted_sorted_above_reputation roster ledger m) + (cfg_layer_count config - 1 - k))
          div cfg_layer_count config"
  using assms
  by (auto simp: build_topology_reputation_filtered_def Let_def mset_concat_assign_layers mset_shuffle_loop
      assign_layers_size mset_eq_length[OF mset_shuffle_loop] split: if_splits)

end
