(* ===== verification/Guards.thy ===== *)
theory Guards
  imports Layers
begin

text \<open>
  \<^verbatim>\<open>crates/aegis-topology/src/guards.rs\<close> and \<^verbatim>\<open>guard_mitigation.rs\<close>: the guard set a client
  holds for an epoch and the policy that decides when it is sampled again.
\<close>

definition GUARD_SET_SIZE :: u32 where "GUARD_SET_SIZE = 3"

datatype GuardPinMode = StickyPrimary | Rotate

record GuardConfig =
  guard_count :: u32
  cfg_pin_mode :: GuardPinMode

definition guard_config_default :: GuardConfig where
  "guard_config_default = \<lparr>guard_count = GUARD_SET_SIZE, cfg_pin_mode = StickyPrimary\<rparr>"

record GuardSelector =
  guard_epoch :: u64
  guards :: "RelayId list"
  pin_mode :: GuardPinMode

text \<open>The partial Fisher-Yates loop: \<open>for i in 0..needed\<close>, counted by the number of rounds left.\<close>

fun pick_guards :: "'r rand_lib \<Rightarrow> nat \<Rightarrow> nat \<Rightarrow> RelayId list \<Rightarrow> 'r \<Rightarrow> RelayId list" where
  "pick_guards R i 0 candidates rng = candidates"
| "pick_guards R i (Suc left) candidates rng =
     (let (j, rng) = gen_range R rng i (length candidates)
      in pick_guards R (i + 1) left (swap candidates i j) rng)"

definition guard_rng_seed :: "u64 \<Rightarrow> u64 \<Rightarrow> u64" where
  "guard_rng_seed client_seed epoch = client_seed * 0x517cc1b727220a95 + epoch"

definition guards_new_for_tests ::
    "'r rand_lib \<Rightarrow> Topology \<Rightarrow> GuardConfig \<Rightarrow> u64 \<Rightarrow> (TopologyError, GuardSelector) result" where
  "guards_new_for_tests R t config client_seed =
     bind_result (ok_or (layer t 0) (EmptyLayer 1 (topo_epoch t))) (\<lambda>layer1.
       let needed = unat (guard_count config) in
       if length layer1 < needed then Inl (InsufficientGuards (length layer1) needed)
       else Inr \<lparr>guard_epoch = topo_epoch t,
              guards = take needed (pick_guards R 0 needed layer1
                (seed_from_u64 R (guard_rng_seed client_seed (topo_epoch t)))),
              pin_mode = cfg_pin_mode config\<rparr>)"

definition new_reputation_weighted ::
    "'r rand_lib \<Rightarrow> Topology \<Rightarrow> GuardConfig \<Rightarrow> u64 \<Rightarrow> ReputationLedger \<Rightarrow> f64
      \<Rightarrow> (TopologyError, GuardSelector) result" where
  "new_reputation_weighted R t config client_seed ledger min_reputation =
     bind_result (ok_or (layer t 0) (EmptyLayer 1 (topo_epoch t))) (\<lambda>layer1.
       let needed = unat (guard_count config);
           candidates = filter (\<lambda>i. f64_le min_reputation (score ledger (as_bytes i))) layer1 in
       if length candidates < needed
       then Inl (InsufficientReputation (length candidates) needed min_reputation)
       else Inr \<lparr>guard_epoch = topo_epoch t,
              guards = take needed (pick_guards R 0 needed candidates
                (seed_from_u64 R (guard_rng_seed client_seed (topo_epoch t)))),
              pin_mode = cfg_pin_mode config\<rparr>)"

definition new_reputation_weighted_pruned ::
    "'r rand_lib \<Rightarrow> Topology \<Rightarrow> GuardConfig \<Rightarrow> u64 \<Rightarrow> RelayPruningPolicy \<Rightarrow> f64
      \<Rightarrow> (TopologyError, GuardSelector) result" where
  "new_reputation_weighted_pruned R t config client_seed policy min_reputation =
     bind_result (ok_or (layer t 0) (EmptyLayer 1 (topo_epoch t))) (\<lambda>layer1.
       let needed = unat (guard_count config);
           candidates = filter (\<lambda>i. relay_satisfies_pruning_policy i policy min_reputation) layer1 in
       if length candidates < needed
       then Inl (InsufficientReputation (length candidates) needed min_reputation)
       else Inr \<lparr>guard_epoch = topo_epoch t,
              guards = take needed (pick_guards R 0 needed candidates
                (seed_from_u64 R (guard_rng_seed client_seed (topo_epoch t)))),
              pin_mode = cfg_pin_mode config\<rparr>)"

text \<open>
  Indexing an empty guard set panics: \<open>None\<close>. \<open>packet_index as usize\<close> keeps the value on the
  64-bit targets of the code.
\<close>

definition primary_guard :: "GuardSelector \<Rightarrow> RelayId option" where
  "primary_guard g = (case guards g of [] \<Rightarrow> None | i # _ \<Rightarrow> Some i)"

definition primary_and_backups :: "GuardSelector \<Rightarrow> (RelayId \<times> RelayId list) option" where
  "primary_and_backups g = (case guards g of [] \<Rightarrow> None | i # rest \<Rightarrow> Some (i, rest))"

definition entry_guard_for_packet :: "GuardSelector \<Rightarrow> u64 \<Rightarrow> RelayId option" where
  "entry_guard_for_packet g packet_index =
     (case pin_mode g of
        StickyPrimary \<Rightarrow> primary_guard g
      | Rotate \<Rightarrow>
          let n = max (length (guards g)) 1; k = unat packet_index mod n in
          if k < length (guards g) then Some (guards g ! k) else None)"

definition any_guard_compromised :: "GuardSelector \<Rightarrow> RelayId list \<Rightarrow> bool" where
  "any_guard_compromised g adversary \<longleftrightarrow> list_ex (\<lambda>i. i \<in> set adversary) (guards g)"

section \<open>Mitigation\<close>

record GuardMitigationPolicy =
  max_sticky_epochs :: u64
  soft_sticky_epochs :: u64
  rotate_on_anomaly :: bool
  rotate_on_peer_health_spike :: bool
  peer_health_spike_threshold :: u32

definition mitigation_disabled :: GuardMitigationPolicy where
  "mitigation_disabled = \<lparr>max_sticky_epochs = - 1, soft_sticky_epochs = - 1, rotate_on_anomaly = False,
     rotate_on_peer_health_spike = False, peer_health_spike_threshold = 3\<rparr>"

definition adaptive_first :: GuardMitigationPolicy where
  "adaptive_first = \<lparr>max_sticky_epochs = 12, soft_sticky_epochs = 12, rotate_on_anomaly = True,
     rotate_on_peer_health_spike = True, peer_health_spike_threshold = 2\<rparr>"

definition adaptive_v2 :: GuardMitigationPolicy where
  "adaptive_v2 = \<lparr>max_sticky_epochs = 8, soft_sticky_epochs = 8, rotate_on_anomaly = True,
     rotate_on_peer_health_spike = True, peer_health_spike_threshold = 1\<rparr>"

definition adaptive_v3 :: GuardMitigationPolicy where
  "adaptive_v3 = \<lparr>max_sticky_epochs = 4, soft_sticky_epochs = 2, rotate_on_anomaly = True,
     rotate_on_peer_health_spike = True, peer_health_spike_threshold = 1\<rparr>"

definition adaptive_v4 :: GuardMitigationPolicy where
  "adaptive_v4 = \<lparr>max_sticky_epochs = 2, soft_sticky_epochs = 1, rotate_on_anomaly = True,
     rotate_on_peer_health_spike = True, peer_health_spike_threshold = 1\<rparr>"

record GuardMitigationSignals =
  epoch_age :: u64
  anomaly_demotion_flag :: bool
  peer_anomaly_count :: u32

definition signals_default :: GuardMitigationSignals where
  "signals_default = \<lparr>epoch_age = 0, anomaly_demotion_flag = False, peer_anomaly_count = 0\<rparr>"

text \<open>
  \<open>span + 1\<close> does not overflow unless the soft age is 0 and the hard cap \<open>u64::MAX\<close>, which no preset has.
\<close>

definition soft_sticky_resample :: "GuardMitigationPolicy \<Rightarrow> u64 \<Rightarrow> bool" where
  "soft_sticky_resample p age =
     (if max_sticky_epochs p \<le> soft_sticky_epochs p then False
      else if age < soft_sticky_epochs p then False
      else let into = age - soft_sticky_epochs p + 1;
               span = max (sat_sub64 (max_sticky_epochs p) (soft_sticky_epochs p)) 1;
               threshold = sat_mul64 into 100 div (span + 1);
               roll = (age * 0x9E3779B97F4A7C15) mod 100
           in roll < threshold)"

definition should_resample_guards :: "GuardMitigationPolicy \<Rightarrow> u64 \<Rightarrow> bool \<Rightarrow> u32 \<Rightarrow> bool" where
  "should_resample_guards p age anomaly peer_count =
     (if max_sticky_epochs p \<le> age then True
      else if soft_sticky_resample p age then True
      else if rotate_on_anomaly p \<and> anomaly then True
      else if rotate_on_peer_health_spike p \<and> peer_health_spike_threshold p \<le> peer_count then True
      else False)"

definition pin_mode_for_epoch ::
    "GuardMitigationPolicy \<Rightarrow> GuardPinMode \<Rightarrow> u64 \<Rightarrow> bool \<Rightarrow> u32 \<Rightarrow> GuardPinMode" where
  "pin_mode_for_epoch p base age anomaly peer_count =
     (if should_resample_guards p age anomaly peer_count then Rotate else base)"

definition apply_to_config ::
    "GuardMitigationPolicy \<Rightarrow> GuardConfig \<Rightarrow> u64 \<Rightarrow> bool \<Rightarrow> u32 \<Rightarrow> GuardConfig" where
  "apply_to_config p base age anomaly peer_count =
     base\<lparr>cfg_pin_mode := pin_mode_for_epoch p (cfg_pin_mode base) age anomaly peer_count\<rparr>"

definition apply_to_config_with_signals ::
    "GuardMitigationPolicy \<Rightarrow> GuardConfig \<Rightarrow> GuardMitigationSignals \<Rightarrow> GuardConfig" where
  "apply_to_config_with_signals p base s =
     apply_to_config p base (epoch_age s) (anomaly_demotion_flag s) (peer_anomaly_count s)"

definition resample_guard_client_seed :: "u64 \<Rightarrow> GuardMitigationSignals \<Rightarrow> u64" where
  "resample_guard_client_seed base_seed s =
     base_seed * 0x5851f42d4c957f2d + epoch_age s * 0x14057b7ef767814f
       + ucast (peer_anomaly_count s) + (if anomaly_demotion_flag s then 1 else 0)"

definition client_seed_for_guards :: "GuardMitigationPolicy \<Rightarrow> u64 \<Rightarrow> GuardMitigationSignals \<Rightarrow> u64" where
  "client_seed_for_guards p base_seed s =
     (if should_resample_guards p (epoch_age s) (anomaly_demotion_flag s) (peer_anomaly_count s)
      then resample_guard_client_seed base_seed s else base_seed)"

record GuardMitigationFileConfig =
  preset :: "string option"
  file_adaptive_first :: bool

definition resolve_policy :: "GuardMitigationFileConfig \<Rightarrow> GuardMitigationPolicy" where
  "resolve_policy c =
     (case preset c of
        Some name \<Rightarrow>
          if name = ''adaptive_first'' then adaptive_first
          else if name = ''adaptive_v2'' then adaptive_v2
          else if name = ''adaptive_v3'' then adaptive_v3
          else if name = ''adaptive_v4'' then adaptive_v4
          else mitigation_disabled
      | None \<Rightarrow> if file_adaptive_first c then adaptive_first else mitigation_disabled)"

section \<open>Facts about the guard set\<close>

lemma mset_pick_guards:
  "rand_ok R \<Longrightarrow> i + n \<le> length c \<Longrightarrow> mset (pick_guards R i n c rng) = mset c"
proof (induction R i n c rng rule: pick_guards.induct)
  case (1 R i c rng)
  then show ?case by simp
next
  case (2 R i n c rng)
  obtain j rng' where j: "gen_range R rng i (length c) = (j, rng')" by fastforce
  have "j < length c" "i < length c" using rand_okD[OF 2(2) _ j] 2(3) by auto
  then show ?case using 2(1)[OF j[symmetric] refl 2(2)] j 2(3) by simp
qed

text \<open>What a guard set drawn from the candidates \<open>c\<close> is.\<close>

definition guard_set_of :: "RelayId list \<Rightarrow> nat \<Rightarrow> RelayId list \<Rightarrow> bool" where
  "guard_set_of c n gs \<longleftrightarrow> length gs = n \<and> set gs \<subseteq> set c \<and> (distinct c \<longrightarrow> distinct gs)"

lemma pick_guards_set:
  assumes "rand_ok R" "n \<le> length c"
  shows "guard_set_of c n (take n (pick_guards R 0 n c rng))"
proof -
  have m: "mset (pick_guards R 0 n c rng) = mset c" using assms by (simp add: mset_pick_guards)
  then have "length (pick_guards R 0 n c rng) = length c" "set (pick_guards R 0 n c rng) = set c"
    "distinct (pick_guards R 0 n c rng) = distinct c"
    by (auto dest: mset_eq_length mset_eq_setD mset_eq_imp_distinct_iff)
  then show ?thesis using assms(2) by (auto simp: guard_set_of_def dest: in_set_takeD)
qed

lemma new_pruned_ok:
  assumes "rand_ok R" "new_reputation_weighted_pruned R t config seed policy m = Inr g"
  shows "\<exists>layer1. layer t 0 = Some layer1 \<and> guard_set_of layer1 (unat (guard_count config)) (guards g)"
    "\<forall>i \<in> set (guards g). is_eligible policy (as_bytes i) m" "guard_epoch g = topo_epoch t"
    "pin_mode g = cfg_pin_mode config"
proof -
  from assms(2) obtain layer1 where l: "layer t 0 = Some layer1"
    by (auto simp: new_reputation_weighted_pruned_def bind_result_Inr_iff ok_or_def split: option.splits)
  let ?c = "filter (\<lambda>i. relay_satisfies_pruning_policy i policy m) layer1"
  have n: "unat (guard_count config) \<le> length ?c"
    and g: "guards g = take (unat (guard_count config)) (pick_guards R 0 (unat (guard_count config)) ?c
        (seed_from_u64 R (guard_rng_seed seed (topo_epoch t))))"
    and rest: "guard_epoch g = topo_epoch t" "pin_mode g = cfg_pin_mode config"
    using assms(2) l by (auto simp: new_reputation_weighted_pruned_def Let_def split: if_splits)
  have set: "guard_set_of ?c (unat (guard_count config)) (guards g)"
    unfolding g by (rule pick_guards_set[OF assms(1) n])
  show "\<exists>layer1. layer t 0 = Some layer1 \<and> guard_set_of layer1 (unat (guard_count config)) (guards g)"
    using set l by (auto simp: guard_set_of_def)
  show "\<forall>i \<in> set (guards g). is_eligible policy (as_bytes i) m"
    using set by (auto simp: guard_set_of_def relay_satisfies_pruning_policy_def)
  show "guard_epoch g = topo_epoch t" "pin_mode g = cfg_pin_mode config" using rest .
qed

section \<open>When the presets sample again\<close>

lemma resample_cases:
  "should_resample_guards p age anomaly n \<longleftrightarrow> max_sticky_epochs p \<le> age \<or> soft_sticky_resample p age
     \<or> rotate_on_anomaly p \<and> anomaly \<or> rotate_on_peer_health_spike p \<and> peer_health_spike_threshold p \<le> n"
  by (simp add: should_resample_guards_def)

lemma v3_soft: "soft_sticky_resample adaptive_v3 age \<Longrightarrow> age < 4 \<Longrightarrow> age = 3"
proof -
  assume s: "soft_sticky_resample adaptive_v3 age" and l: "age < 4"
  have "2 \<le> age" using s by (simp add: soft_sticky_resample_def adaptive_v3_def split: if_splits)
  then have "age = 2 \<or> age = 3" using l by unat_arith
  moreover have "\<not> soft_sticky_resample adaptive_v3 2"
    by (simp add: soft_sticky_resample_def adaptive_v3_def sat_sub64_def sat_mul64_def Let_def)
  ultimately show "age = 3" using s by auto
qed

lemma v3_soft_3: "soft_sticky_resample adaptive_v3 3"
  by (simp add: soft_sticky_resample_def adaptive_v3_def sat_sub64_def sat_mul64_def Let_def)

lemma v4_soft: "soft_sticky_resample adaptive_v4 age \<Longrightarrow> 2 \<le> age"
proof (rule ccontr)
  assume s: "soft_sticky_resample adaptive_v4 age" and l: "\<not> 2 \<le> age"
  have "age \<noteq> 0" using s by (auto simp: soft_sticky_resample_def adaptive_v4_def word_le_nat_alt word_less_nat_alt)
  then have "age = 1" using l by unat_arith
  moreover have "\<not> soft_sticky_resample adaptive_v4 1"
    by (simp add: soft_sticky_resample_def adaptive_v4_def sat_sub64_def sat_mul64_def Let_def)
  ultimately show False using s by auto
qed

text \<open>When the adaptive presets sample the guards again, at every age and under all signals: v2 at its hard
  cap or on a signal; v3 from age 3, never at age 2 where its soft band begins; v4 only at its hard cap or
  on a signal, its soft band from age 1 never fires.\<close>

theorem adaptive_presets_exact:
  "(should_resample_guards adaptive_v2 age anomaly n \<longleftrightarrow> 8 \<le> age \<or> anomaly \<or> 1 \<le> n)
   \<and> (should_resample_guards adaptive_v3 age anomaly n \<longleftrightarrow> 3 \<le> age \<or> anomaly \<or> 1 \<le> n)
   \<and> (should_resample_guards adaptive_v4 age anomaly n \<longleftrightarrow> 2 \<le> age \<or> anomaly \<or> 1 \<le> n)"
proof (intro conjI)
  show "should_resample_guards adaptive_v2 age anomaly n \<longleftrightarrow> 8 \<le> age \<or> anomaly \<or> 1 \<le> n"
    by (simp add: resample_cases adaptive_v2_def soft_sticky_resample_def)
  have "4 \<le> age \<or> soft_sticky_resample adaptive_v3 age \<longleftrightarrow> 3 \<le> age"
  proof (cases "4 \<le> age")
    case True
    then have "3 \<le> age" by unat_arith
    then show ?thesis using True by simp
  next
    case False
    then have "3 \<le> age \<longleftrightarrow> age = 3" "age < 4" by unat_arith+
    then show ?thesis using False v3_soft[of age] v3_soft_3 by auto
  qed
  then show "should_resample_guards adaptive_v3 age anomaly n \<longleftrightarrow> 3 \<le> age \<or> anomaly \<or> 1 \<le> n"
    unfolding resample_cases by (auto simp: adaptive_v3_def)
  show "should_resample_guards adaptive_v4 age anomaly n \<longleftrightarrow> 2 \<le> age \<or> anomaly \<or> 1 \<le> n"
    using v4_soft[of age] unfolding resample_cases by (auto simp: adaptive_v4_def)
qed

end
