(* ===== verification/Paths.thy ===== *)
theory Paths
  imports Guards
begin

text \<open>
  \<^verbatim>\<open>crates/aegis-topology/src/path.rs\<close>: one relay per layer for every packet, filtered by
  reputation, anomaly demotion and jurisdiction, with bounded retries. \<open>OsRng\<close> is a second generator
  \<open>Os\<close> whose state is threaded through the calls. An outcome is \<open>None\<close> when the code panics.
\<close>

type_synonym 'a outcome = "(TopologyError, 'a) result option"

section \<open>Policies\<close>

record JurisdictionPolicy =
  max_per_jurisdiction :: nat

definition jurisdiction_policy_default :: JurisdictionPolicy where
  "jurisdiction_policy_default = \<lparr>max_per_jurisdiction = 1\<rparr>"

fun jurisdiction_loop ::
    "RelayRoster \<Rightarrow> JurisdictionPolicy \<Rightarrow> RelayId list \<Rightarrow> (JurisdictionId \<Rightarrow> nat) \<Rightarrow> (TopologyError, bool) result" where
  "jurisdiction_loop roster policy [] counts = Inr True"
| "jurisdiction_loop roster policy (i # path) counts =
     bind_result (ok_or (roster_get roster i) (RelayNotFound i)) (\<lambda>r.
       let j = rec_jurisdiction r; count = counts j + 1 in
       if max_per_jurisdiction policy < count then Inr False
       else jurisdiction_loop roster policy path (counts(j := count)))"

definition path_satisfies_jurisdiction ::
    "RelayId list \<Rightarrow> RelayRoster \<Rightarrow> JurisdictionPolicy \<Rightarrow> (TopologyError, bool) result" where
  "path_satisfies_jurisdiction path roster policy = jurisdiction_loop roster policy path (\<lambda>_. 0)"

definition path_satisfies_reputation :: "RelayId list \<Rightarrow> ReputationLedger \<Rightarrow> f64 \<Rightarrow> bool" where
  "path_satisfies_reputation path ledger min_reputation =
     list_all (\<lambda>i. f64_le min_reputation (score ledger (as_bytes i))) path"

section \<open>One draw\<close>

fun select_layers ::
    "'o rand_lib \<Rightarrow> u64 \<Rightarrow> GuardSelector option \<Rightarrow> u64 \<Rightarrow> nat \<Rightarrow> RelayId list list \<Rightarrow> 'o
      \<Rightarrow> RelayId list outcome \<times> 'o" where
  "select_layers Os epoch g packet_index idx [] rng = (Some (Inr []), rng)"
| "select_layers Os epoch g packet_index idx (l # ls) rng =
     (if l = [] then (Some (Inl (EmptyLayer (idx + 1) epoch)), rng)
      else let (relay, rng) = (case (idx = 0, g) of
            (True, Some sel) \<Rightarrow> (entry_guard_for_packet sel packet_index, rng)
          | _ \<Rightarrow> (let (k, rng) = gen_range Os rng 0 (length l) in (Some (l ! k), rng)))
        in case relay of
          None \<Rightarrow> (None, rng)
        | Some i \<Rightarrow>
            (case select_layers Os epoch g packet_index (idx + 1) ls rng of
               (Some (Inr path), rng) \<Rightarrow> (Some (Inr (i # path)), rng)
             | other \<Rightarrow> other))"

definition select_path_indexed_impl ::
    "'o rand_lib \<Rightarrow> Topology \<Rightarrow> GuardSelector option \<Rightarrow> u64 \<Rightarrow> 'o \<Rightarrow> RelayId list outcome \<times> 'o" where
  "select_path_indexed_impl Os t g packet_index rng =
     select_layers Os (topo_epoch t) g packet_index 0 (layers t) rng"

section \<open>Bounded retries\<close>

text \<open>
  The loop \<open>for _ in 0..max_attempts\<close> that the selectors share: draw, leave on an error of the draw or of
  the check, return a path that passes, give up with the last error otherwise.
\<close>

fun retry_path ::
    "nat \<Rightarrow> ('o \<Rightarrow> RelayId list outcome \<times> 'o) \<Rightarrow> (RelayId list \<Rightarrow> (TopologyError, bool) result)
      \<Rightarrow> TopologyError \<Rightarrow> 'o \<Rightarrow> RelayId list outcome \<times> 'o" where
  "retry_path 0 draw check exhausted rng = (Some (Inl exhausted), rng)"
| "retry_path (Suc n) draw check exhausted rng =
     (case draw rng of
        (None, rng) \<Rightarrow> (None, rng)
      | (Some (Inl e), rng) \<Rightarrow> (Some (Inl e), rng)
      | (Some (Inr path), rng) \<Rightarrow>
          (case check path of
             Inl e \<Rightarrow> (Some (Inl e), rng)
           | Inr True \<Rightarrow> (Some (Inr path), rng)
           | Inr False \<Rightarrow> retry_path n draw check exhausted rng))"

text \<open>The loop that looks every hop up in the roster.\<close>

fun check_present :: "RelayRoster \<Rightarrow> RelayId list \<Rightarrow> (TopologyError, unit) result" where
  "check_present roster [] = Inr ()"
| "check_present roster (i # path) =
     bind_result (ok_or (roster_get roster i) (RelayNotFound i)) (\<lambda>_. check_present roster path)"

definition select_diverse_path ::
    "'o rand_lib \<Rightarrow> Topology \<Rightarrow> RelayRoster \<Rightarrow> GuardSelector option \<Rightarrow> JurisdictionPolicy \<Rightarrow> nat \<Rightarrow> 'o
      \<Rightarrow> RelayId list outcome \<times> 'o" where
  "select_diverse_path Os t roster g policy max_attempts =
     retry_path max_attempts (select_path_indexed_impl Os t g 0)
       (\<lambda>path. path_satisfies_jurisdiction path roster policy)
       (EmptyLayer 0 (topo_epoch t))"

definition select_path_reputation_weighted ::
    "'o rand_lib \<Rightarrow> Topology \<Rightarrow> RelayRoster \<Rightarrow> GuardSelector option \<Rightarrow> ReputationLedger \<Rightarrow> f64 \<Rightarrow> nat \<Rightarrow> 'o
      \<Rightarrow> RelayId list outcome \<times> 'o" where
  "select_path_reputation_weighted Os t roster g ledger min_reputation max_attempts =
     retry_path max_attempts (select_path_indexed_impl Os t g 0)
       (\<lambda>path. bind_result (check_present roster path) (\<lambda>_. Inr (path_satisfies_reputation path ledger min_reputation)))
       (ReputationPathExhausted max_attempts)"

definition select_diverse_reputation_path ::
    "'o rand_lib \<Rightarrow> Topology \<Rightarrow> RelayRoster \<Rightarrow> GuardSelector option \<Rightarrow> JurisdictionPolicy \<Rightarrow> ReputationLedger
      \<Rightarrow> f64 \<Rightarrow> nat \<Rightarrow> 'o \<Rightarrow> RelayId list outcome \<times> 'o" where
  "select_diverse_reputation_path Os t roster g policy ledger min_reputation max_attempts =
     retry_path max_attempts (select_path_indexed_impl Os t g 0)
       (\<lambda>path. if \<not> path_satisfies_reputation path ledger min_reputation then Inr False
         else path_satisfies_jurisdiction path roster policy)
       (ReputationPathExhausted max_attempts)"

definition select_path_reputation_weighted_pruned ::
    "'o rand_lib \<Rightarrow> Topology \<Rightarrow> RelayRoster \<Rightarrow> GuardSelector option \<Rightarrow> RelayPruningPolicy \<Rightarrow> f64 \<Rightarrow> nat \<Rightarrow> 'o
      \<Rightarrow> RelayId list outcome \<times> 'o" where
  "select_path_reputation_weighted_pruned Os t roster g policy min_reputation max_attempts =
     retry_path max_attempts (select_path_indexed_impl Os t g 0)
       (\<lambda>path. bind_result (check_present roster path)
          (\<lambda>_. Inr (path_satisfies_pruning_policy path policy min_reputation)))
       (ReputationPathExhausted max_attempts)"

definition select_diverse_reputation_path_pruned ::
    "'o rand_lib \<Rightarrow> Topology \<Rightarrow> RelayRoster \<Rightarrow> GuardSelector option \<Rightarrow> JurisdictionPolicy \<Rightarrow> RelayPruningPolicy
      \<Rightarrow> f64 \<Rightarrow> nat \<Rightarrow> 'o \<Rightarrow> RelayId list outcome \<times> 'o" where
  "select_diverse_reputation_path_pruned Os t roster g jurisdiction policy min_reputation max_attempts =
     retry_path max_attempts (select_path_indexed_impl Os t g 0)
       (\<lambda>path. if \<not> path_satisfies_pruning_policy path policy min_reputation then Inr False
         else path_satisfies_jurisdiction path roster jurisdiction)
       (ReputationPathExhausted max_attempts)"

section \<open>Bound paths\<close>

fun relay_records_for_path :: "RelayId list \<Rightarrow> RelayRoster \<Rightarrow> (TopologyError, RelayRecord list) result" where
  "relay_records_for_path [] roster = Inr []"
| "relay_records_for_path (i # path) roster =
     bind_result (ok_or (roster_get roster i) (RelayNotFound i)) (\<lambda>r.
     bind_result (relay_records_for_path path roster) (\<lambda>rs. Inr (r # rs)))"

text \<open>The operator \<open>?\<close> on an outcome with a threaded generator, followed by a pure step.\<close>

definition then_pure :: "'a outcome \<times> 'o \<Rightarrow> ('a \<Rightarrow> (TopologyError, 'b) result) \<Rightarrow> 'b outcome \<times> 'o" where
  "then_pure x f = (map_option (\<lambda>r. bind_result r f) (fst x), snd x)"

definition build_bound_path_pruned ::
    "'o rand_lib \<Rightarrow> Topology \<Rightarrow> RelayRoster \<Rightarrow> GuardSelector option \<Rightarrow> RelayPruningPolicy \<Rightarrow> f64 \<Rightarrow> nat \<Rightarrow> 'o
      \<Rightarrow> RelayRecord list outcome \<times> 'o" where
  "build_bound_path_pruned Os t roster g policy min_reputation max_attempts rng =
     then_pure (select_path_reputation_weighted_pruned Os t roster g policy min_reputation max_attempts rng)
       (\<lambda>path. relay_records_for_path path roster)"

definition build_bound_path_diverse_pruned ::
    "'o rand_lib \<Rightarrow> Topology \<Rightarrow> RelayRoster \<Rightarrow> GuardSelector option \<Rightarrow> JurisdictionPolicy \<Rightarrow> RelayPruningPolicy
      \<Rightarrow> f64 \<Rightarrow> nat \<Rightarrow> 'o \<Rightarrow> RelayRecord list outcome \<times> 'o" where
  "build_bound_path_diverse_pruned Os t roster g jurisdiction policy min_reputation max_attempts rng =
     then_pure (select_diverse_reputation_path_pruned Os t roster g jurisdiction policy min_reputation max_attempts rng)
       (\<lambda>path. relay_records_for_path path roster)"

definition build_bound_path_pruned_with_guards ::
    "'r rand_lib \<Rightarrow> 'o rand_lib \<Rightarrow> Topology \<Rightarrow> RelayRoster \<Rightarrow> u64 \<Rightarrow> RelayPruningPolicy \<Rightarrow> f64 \<Rightarrow> nat \<Rightarrow> 'o
      \<Rightarrow> (GuardSelector \<times> RelayRecord list) outcome \<times> 'o" where
  "build_bound_path_pruned_with_guards R Os t roster client_seed policy min_reputation max_attempts rng =
     (case new_reputation_weighted_pruned R t guard_config_default client_seed policy min_reputation of
        Inl e \<Rightarrow> (Some (Inl e), rng)
      | Inr g \<Rightarrow>
          then_pure (build_bound_path_pruned Os t roster (Some g) policy min_reputation max_attempts rng)
            (\<lambda>records. Inr (g, records)))"

definition build_bound_path_pruned_with_guards_mitigated ::
    "'r rand_lib \<Rightarrow> 'o rand_lib \<Rightarrow> Topology \<Rightarrow> RelayRoster \<Rightarrow> GuardConfig \<Rightarrow> u64 \<Rightarrow> GuardMitigationPolicy
      \<Rightarrow> GuardMitigationSignals \<Rightarrow> RelayPruningPolicy \<Rightarrow> f64 \<Rightarrow> nat \<Rightarrow> 'o
      \<Rightarrow> (GuardSelector \<times> RelayRecord list) outcome \<times> 'o" where
  "build_bound_path_pruned_with_guards_mitigated R Os t roster base client_seed mitigation s policy
      min_reputation max_attempts rng =
     (let config = apply_to_config_with_signals mitigation base s;
          effective_seed = client_seed_for_guards mitigation client_seed s in
      case new_reputation_weighted_pruned R t config effective_seed policy min_reputation of
        Inl e \<Rightarrow> (Some (Inl e), rng)
      | Inr g \<Rightarrow>
          then_pure (build_bound_path_pruned Os t roster (Some g) policy min_reputation max_attempts rng)
            (\<lambda>records. Inr (g, records)))"

definition build_bound_path_diverse_pruned_with_guards_mitigated ::
    "'r rand_lib \<Rightarrow> 'o rand_lib \<Rightarrow> Topology \<Rightarrow> RelayRoster \<Rightarrow> GuardConfig \<Rightarrow> u64 \<Rightarrow> GuardMitigationPolicy
      \<Rightarrow> GuardMitigationSignals \<Rightarrow> JurisdictionPolicy \<Rightarrow> RelayPruningPolicy \<Rightarrow> f64 \<Rightarrow> nat \<Rightarrow> 'o
      \<Rightarrow> (GuardSelector \<times> RelayRecord list) outcome \<times> 'o" where
  "build_bound_path_diverse_pruned_with_guards_mitigated R Os t roster base client_seed mitigation s
      jurisdiction policy min_reputation max_attempts rng =
     (let config = apply_to_config_with_signals mitigation base s;
          effective_seed = client_seed_for_guards mitigation client_seed s in
      case new_reputation_weighted_pruned R t config effective_seed policy min_reputation of
        Inl e \<Rightarrow> (Some (Inl e), rng)
      | Inr g \<Rightarrow>
          then_pure (build_bound_path_diverse_pruned Os t roster (Some g) jurisdiction policy min_reputation
              max_attempts rng)
            (\<lambda>records. Inr (g, records)))"

section \<open>What a retry loop returns\<close>

text \<open>
  The contract between a draw and the retry loop: in a good environment a draw only returns paths of the
  right shape, and in a live one it always returns a path.
\<close>

locale path_source =
  fixes draw :: "'o \<Rightarrow> RelayId list outcome \<times> 'o"
    and good :: bool
    and shape :: "RelayId list \<Rightarrow> bool"
  assumes draw_shape: "good \<Longrightarrow> draw rng = (Some (Inr path), rng') \<Longrightarrow> shape path"
begin

lemma retry_sound:
  assumes "good" "retry_path n draw check exhausted rng = (Some (Inr path), rng')"
  shows "shape path \<and> check path = Inr True"
  using assms(2)
proof (induction n arbitrary: rng)
  case 0
  then show ?case by simp
next
  case (Suc n)
  then obtain q rng1 where q: "draw rng = (Some (Inr q), rng1)"
    by (auto split: prod.splits option.splits sum.splits)
  show ?case
  proof (cases "check q = Inr True")
    case True
    then show ?thesis using Suc.prems q draw_shape[OF assms(1) q] by simp
  next
    case False
    then show ?thesis using Suc q by (auto split: sum.splits bool.splits)
  qed
qed

end

locale live_path_source = path_source +
  fixes live :: bool
  assumes draw_live: "live \<Longrightarrow> \<exists>path rng'. draw rng = (Some (Inr path), rng')"
begin

lemma retry_never_panics: "live \<Longrightarrow> fst (retry_path n draw check exhausted rng) \<noteq> None"
proof (induction n arbitrary: rng)
  case (Suc n)
  obtain path rng' where "draw rng = (Some (Inr path), rng')" using draw_live[OF Suc.prems] by blast
  then show ?case using Suc by (auto split: sum.split bool.split)
qed simp

lemma retry_finds:
  assumes "good" "live" "0 < n" "\<And>path. shape path \<Longrightarrow> check path = Inr True"
  shows "\<exists>path rng'. retry_path n draw check exhausted rng = (Some (Inr path), rng') \<and> shape path"
proof -
  obtain path rng' where d: "draw rng = (Some (Inr path), rng')" using draw_live[OF assms(2)] by blast
  then have "shape path" using draw_shape[OF assms(1)] by blast
  then show ?thesis using assms(3,4) d by (cases n) auto
qed

end

text \<open>One draw takes the entry guard, or any relay of layer 1 without guards, and a relay of every other layer.\<close>

definition layered_from :: "nat \<Rightarrow> RelayId list list \<Rightarrow> GuardSelector option \<Rightarrow> u64 \<Rightarrow> RelayId list \<Rightarrow> bool" where
  "layered_from idx ls g k path \<longleftrightarrow> length path = length ls
     \<and> (\<forall>i < length path. case g of
          Some sel \<Rightarrow> if idx + i = 0 then entry_guard_for_packet sel k = Some (path ! i) else path ! i \<in> set (ls ! i)
        | None \<Rightarrow> path ! i \<in> set (ls ! i))"

lemma layered_from_Cons:
  "layered_from idx (l # ls) g k (i # path) \<longleftrightarrow>
     (case g of Some sel \<Rightarrow> if idx = 0 then entry_guard_for_packet sel k = Some i else i \<in> set l
      | None \<Rightarrow> i \<in> set l) \<and> layered_from (idx + 1) ls g k path"
  by (auto simp: layered_from_def less_Suc_eq_0_disj split: option.splits)

lemma select_layers_shape:
  assumes "rand_ok Os" "select_layers Os epoch g k idx ls rng = (Some (Inr path), rng')"
  shows "layered_from idx ls g k path"
  using assms(2)
proof (induction ls arbitrary: idx rng path rng')
  case Nil
  then show ?case by (simp add: layered_from_def)
next
  case (Cons l ls)
  have l: "l \<noteq> []" using Cons.prems by auto
  obtain j rng1 where j: "gen_range Os rng 0 (length l) = (j, rng1)" by fastforce
  have jl: "l ! j \<in> set l" using rand_okD[OF assms(1) _ j] l by simp
  show ?case
  proof (cases "idx = 0 \<and> g \<noteq> None")
    case True
    then obtain sel where sel: "idx = 0" "g = Some sel" by auto
    then obtain i q rng2 where q: "entry_guard_for_packet sel k = Some i" "path = i # q"
      "select_layers Os epoch g k (idx + 1) ls rng = (Some (Inr q), rng2)"
      using Cons.prems l by (auto split: option.splits prod.splits sum.splits)
    show ?thesis using Cons.IH[OF q(3)] q(1,2) sel by (simp add: layered_from_Cons)
  next
    case False
    then obtain q rng2 where q: "path = l ! j # q"
      "select_layers Os epoch g k (idx + 1) ls rng1 = (Some (Inr q), rng2)"
      using Cons.prems l j by (cases "idx = 0"; cases g) (auto split: option.splits prod.splits sum.splits)
    show ?thesis using Cons.IH[OF q(2)] q(1) jl False by (auto simp: layered_from_Cons split: option.splits)
  qed
qed

lemma select_layers_live:
  assumes "\<forall>l \<in> set ls. l \<noteq> []" "\<forall>sel. g = Some sel \<longrightarrow> entry_guard_for_packet sel k \<noteq> None"
  shows "\<exists>path rng'. select_layers Os epoch g k idx ls rng = (Some (Inr path), rng')"
  using assms(1)
proof (induction ls arbitrary: idx rng)
  case Nil
  then show ?case by simp
next
  case (Cons l ls)
  obtain j rng1 where j: "gen_range Os rng 0 (length l) = (j, rng1)" by fastforce
  have "\<exists>path rng'. select_layers Os epoch g k (idx + 1) ls r = (Some (Inr path), rng')" for r
    using Cons by simp
  then obtain q rng2 q' rng3 where q: "select_layers Os epoch g k (idx + 1) ls rng1 = (Some (Inr q), rng2)"
    "select_layers Os epoch g k (idx + 1) ls rng = (Some (Inr q'), rng3)" by metis
  show ?case
    using Cons.prems q j assms(2) by (cases "idx = 0"; cases g) (auto split: option.splits)
qed

interpretation draws: live_path_source "select_path_indexed_impl Os t g k" "rand_ok Os"
  "layered_from 0 (layers t) g k"
  "(\<forall>l \<in> set (layers t). l \<noteq> []) \<and> (\<forall>sel. g = Some sel \<longrightarrow> entry_guard_for_packet sel k \<noteq> None)"
  for Os t g k
  by unfold_locales (auto simp: select_path_indexed_impl_def select_layers_shape intro: select_layers_live)

section \<open>Lookups and jurisdictions\<close>

lemma check_present_iff: "check_present roster path = Inr () \<longleftrightarrow> (\<forall>i \<in> set path. roster_get roster i \<noteq> None)"
  by (induction path) (auto simp: bind_result_Inr_iff ok_or_def split: option.splits)

lemma records_iff: "relay_records_for_path path roster = Inr rs \<longleftrightarrow> map (roster_get roster) path = map Some rs"
proof (induction path arbitrary: rs)
  case Nil
  then show ?case by auto
next
  case (Cons i path)
  then show ?case
    by (cases rs) (auto simp: bind_result_Inr_iff ok_or_def split: option.splits)
qed

lemma jurisdiction_loop_sound:
  assumes "jurisdiction_loop roster policy path counts = Inr True" "\<forall>j. counts j \<le> max_per_jurisdiction policy"
    "map (roster_get roster) path = map Some rs"
  shows "counts j + length (filter (\<lambda>r. rec_jurisdiction r = j) rs) \<le> max_per_jurisdiction policy"
  using assms
proof (induction path arbitrary: counts rs)
  case Nil
  then show ?case by simp
next
  case (Cons i path)
  then obtain r rs' where rs: "rs = r # rs'" "roster_get roster i = Some r" "map (roster_get roster) path = map Some rs'"
    by (cases rs) auto
  let ?j = "rec_jurisdiction r"
  have le: "counts ?j + 1 \<le> max_per_jurisdiction policy"
    and rest: "jurisdiction_loop roster policy path (counts(?j := counts ?j + 1)) = Inr True"
    using Cons.prems(1) rs(2) by (auto simp: Let_def split: if_splits)
  have "(counts(?j := counts ?j + 1)) j + length (filter (\<lambda>r. rec_jurisdiction r = j) rs') \<le> max_per_jurisdiction policy"
    by (rule Cons.IH[OF rest _ rs(3)]) (use Cons.prems(2) le in auto)
  then show ?case using rs(1) by (auto split: if_splits)
qed

lemma entry_guard_zero: "entry_guard_for_packet g 0 = primary_guard g"
  by (cases "guards g") (auto simp: entry_guard_for_packet_def primary_guard_def Let_def split: GuardPinMode.split)

lemma primary_guard_in: "primary_guard g = Some i \<Longrightarrow> i \<in> set (guards g)"
  by (auto simp: primary_guard_def split: list.splits)

section \<open>Theorems\<close>

text \<open>C17. The layers of an epoch partition the admitted relays, each relay in exactly one layer, as evenly as
  possible: layer k of L (counting from 0) has the ceiling of (n - k) / L relays, whatever the shuffle did.\<close>

theorem build_topology_partitions:
  assumes "rand_ok R" "roster_run S H c p ts hist roster"
    "build_topology R roster epoch config seed = Inr t"
  shows "length (layers t) = cfg_layer_count config
    \<and> distinct (concat (layers t)) \<and> set (concat (layers t)) = {i. is_admitted roster i}
    \<and> (\<forall>k < cfg_layer_count config.
      length (layers t ! k) = (roster_len roster + (cfg_layer_count config - 1 - k)) div cfg_layer_count config)"
proof (intro conjI)
  note parts = build_topology_parts[OF assms(1,3)]
  have ok: "distinct (map fst (relays roster))" "\<forall>x \<in> set (relays roster). entry_ok S H c p x"
    using roster_run_entries[OF assms(2)] by auto
  have "map rec_id (map (\<lambda>(i, e). ent_record e) (relays roster)) = map fst (relays roster)"
    using ok(2) by (auto simp: entry_ok_def)
  then have "mset (map rec_id (admitted_sorted roster)) = mset (map fst (relays roster))"
    unfolding admitted_sorted_def by (metis mset_map mset_sort)
  then have m: "mset (concat (layers t)) = mset (map fst (relays roster))" using parts(5) by simp
  show "distinct (concat (layers t))" using mset_eq_imp_distinct_iff[OF m] ok(1) by simp
  show "set (concat (layers t)) = {i. is_admitted roster i}"
    using mset_eq_setD[OF m] by (auto simp: is_admitted_def)
  show "length (layers t) = cfg_layer_count config" by (rule parts(3))
  show "\<forall>k < cfg_layer_count config.
      length (layers t ! k) = (roster_len roster + (cfg_layer_count config - 1 - k)) div cfg_layer_count config"
    using parts(6) by (simp add: admitted_sorted_def roster_len_def)
qed

lemma topology_example:
  "build_topology counter_rand roster_example 7 standard_config 3 = Inr \<lparr>topo_epoch = 7, layer_count = 3,
     layers = [[rec_id roster_example_record], [], []]\<rparr>"
proof -
  have "replicate 3 [] = [[], [], [] :: RelayId list]" by (simp add: numeral_eq_Suc)
  then show ?thesis
    by (simp add: build_topology_def standard_config_def admitted_sorted_def roster_example_def Let_def)
qed

theorem build_topology_partitions_witness:
  "distinct (concat [[rec_id roster_example_record], [], []])
     \<and> set (concat [[rec_id roster_example_record], [], []]) = {i. is_admitted roster_example i}"
  using build_topology_partitions[OF counter_rand_ok roster_example_run topology_example] by simp

text \<open>C18. A bound path of the strictest builder (guards, anomaly pruning, jurisdictions, any mitigation) has one
  relay of every layer, entering through the primary guard; every hop is admitted, in the record that
  is returned, and eligible under the pruning policy; no jurisdiction occurs more often than allowed.\<close>

theorem diverse_path_safe:
  assumes "rand_ok R" "rand_ok Os"
    "build_bound_path_diverse_pruned_with_guards_mitigated R Os t roster base seed mitigation s jurisdiction policy
       m attempts rng = (Some (Inr (g, records)), rng')"
  shows "\<exists>path. map (roster_get roster) path = map Some records
    \<and> length path = length (layers t) \<and> (\<forall>i < length path. path ! i \<in> set (layers t ! i))
    \<and> (path \<noteq> [] \<longrightarrow> primary_guard g = Some (path ! 0))
    \<and> (\<forall>i \<in> set path. is_eligible policy (as_bytes i) m)
    \<and> (\<forall>j. length (filter (\<lambda>r. rec_jurisdiction r = j) records) \<le> max_per_jurisdiction jurisdiction)"
proof -
  let ?draw = "select_path_indexed_impl Os t (Some g) 0"
  let ?check = "\<lambda>path. if \<not> path_satisfies_pruning_policy path policy m then Inr False
      else path_satisfies_jurisdiction path roster jurisdiction"
  from assms(3) obtain config eseed path where g: "new_reputation_weighted_pruned R t config eseed policy m = Inr g"
    and retry: "retry_path attempts ?draw ?check (ReputationPathExhausted attempts) rng = (Some (Inr path), rng')"
    and recs: "relay_records_for_path path roster = Inr records"
    by (auto simp: build_bound_path_diverse_pruned_with_guards_mitigated_def Let_def then_pure_def
        build_bound_path_diverse_pruned_def select_diverse_reputation_path_pruned_def bind_result_Inr_iff prod_eq_iff
        split: sum.splits)
  have shape: "layered_from 0 (layers t) (Some g) 0 path" and check: "?check path = Inr True"
    using draws.retry_sound[OF assms(2) retry] by auto
  obtain layer1 where l1: "layer t 0 = Some layer1" "guard_set_of layer1 (unat (guard_count config)) (guards g)"
    using new_pruned_ok(1)[OF assms(1) g] by blast
  have len: "length path = length (layers t)" using shape by (simp add: layered_from_def)
  have entry: "primary_guard g = Some (path ! 0)" if "path \<noteq> []"
    using shape that by (auto simp: layered_from_def entry_guard_zero)
  have inl: "path ! i \<in> set (layers t ! i)" if "i < length path" for i
  proof (cases i)
    case 0
    then have "path ! 0 \<in> set (guards g)" using entry that by (intro primary_guard_in) auto
    then show ?thesis using l1 0 by (auto simp: guard_set_of_def layer_def split: if_splits)
  next
    case (Suc n)
    then show ?thesis using shape that by (auto simp: layered_from_def)
  qed
  have pol: "path_satisfies_pruning_policy path policy m" and jur: "path_satisfies_jurisdiction path roster jurisdiction = Inr True"
    using check by (auto split: if_splits)
  have rs: "map (roster_get roster) path = map Some records" using recs by (simp add: records_iff)
  have "length (filter (\<lambda>r. rec_jurisdiction r = j) records) \<le> max_per_jurisdiction jurisdiction" for j
    using jurisdiction_loop_sound[OF jur[unfolded path_satisfies_jurisdiction_def] _ rs, of j] by simp
  then show ?thesis
    using rs len inl entry pol
    by (intro exI[of _ path])
       (auto simp: path_satisfies_pruning_policy_def relay_satisfies_pruning_policy_def list_all_iff)
qed

text \<open>A topology of one layer, small enough to evaluate.\<close>

definition one_layer :: Topology where
  "one_layer = \<lparr>topo_epoch = 7, layer_count = 1, layers = [[rec_id roster_example_record]]\<rparr>"

lemma one_layer_path:
  "build_bound_path_diverse_pruned_with_guards_mitigated counter_rand counter_rand one_layer roster_example
     \<lparr>guard_count = 1, cfg_pin_mode = StickyPrimary\<rparr> 11 adaptive_v2 \<lparr>epoch_age = 9, anomaly_demotion_flag = False,
       peer_anomaly_count = 0\<rparr> jurisdiction_policy_default (policy_example (1 / 2)) (Fin (1 / 10)) 1 5
   = (Some (Inr (\<lparr>guard_epoch = 7, guards = [rec_id roster_example_record], pin_mode = Rotate\<rparr>, [roster_example_record])), 5)"
proof -
  have elig: "is_eligible (policy_example (1 / 2)) i (Fin (1 / 10))" for i by (simp add: is_eligible_def)
  have resample: "should_resample_guards adaptive_v2 9 False 0"
    by (simp add: should_resample_guards_def adaptive_v2_def)
  have config: "apply_to_config_with_signals adaptive_v2 \<lparr>guard_count = 1, cfg_pin_mode = StickyPrimary\<rparr>
      \<lparr>epoch_age = 9, anomaly_demotion_flag = False, peer_anomaly_count = 0\<rparr> = \<lparr>guard_count = 1, cfg_pin_mode = Rotate\<rparr>"
    by (simp add: apply_to_config_with_signals_def apply_to_config_def pin_mode_for_epoch_def resample)
  have g: "new_reputation_weighted_pruned counter_rand one_layer \<lparr>guard_count = 1, cfg_pin_mode = Rotate\<rparr> s
      (policy_example (1 / 2)) (Fin (1 / 10))
    = Inr \<lparr>guard_epoch = 7, guards = [rec_id roster_example_record], pin_mode = Rotate\<rparr>" for s
    by (simp add: new_reputation_weighted_pruned_def layer_def one_layer_def relay_satisfies_pruning_policy_def
        elig counter_rand_def swap_def)
  have draw: "select_path_indexed_impl counter_rand one_layer
      (Some \<lparr>guard_epoch = 7, guards = [rec_id roster_example_record], pin_mode = Rotate\<rparr>) 0 5
    = (Some (Inr [rec_id roster_example_record]), 5)"
    by (simp add: select_path_indexed_impl_def one_layer_def entry_guard_zero primary_guard_def)
  have jur: "path_satisfies_jurisdiction [rec_id roster_example_record] roster_example jurisdiction_policy_default = Inr True"
    by (simp add: path_satisfies_jurisdiction_def roster_example_get jurisdiction_policy_default_def)
  show ?thesis
    by (simp add: build_bound_path_diverse_pruned_with_guards_mitigated_def config g
        build_bound_path_diverse_pruned_def select_diverse_reputation_path_pruned_def then_pure_def draw jur
        path_satisfies_pruning_policy_def relay_satisfies_pruning_policy_def elig roster_example_get)
qed

theorem diverse_path_safe_witness:
  "\<exists>path. map (roster_get roster_example) path = map Some [roster_example_record] \<and> length path = length (layers one_layer)
     \<and> (\<forall>i \<in> set path. is_eligible (policy_example (1 / 2)) (as_bytes i) (Fin (1 / 10)))"
  using diverse_path_safe[OF counter_rand_ok counter_rand_ok one_layer_path] by blast

text \<open>C19. Roster, topology, guards and paths fit together: when more than 2 L admitted relays are above the
  reputation floor, the filtered topology of L layers exists and on its first attempt the production builder
  returns a bound path with one relay per layer and a full guard set. No draw of the generators can make
  it fail, panic or run out of attempts.\<close>

theorem pruned_path_always_found:
  assumes "rand_ok R" "rand_ok Os" "roster_run S H c p ts hist roster" "0 < cfg_layer_count config"
    "2 * cfg_layer_count config < length (admitted_sorted_above_reputation roster (pol_ledger policy) m)"
    "0 < attempts"
  shows "\<exists>t g records rng'.
      build_topology_reputation_filtered R roster epoch config seed (pol_ledger policy) m = Inr t
    \<and> build_bound_path_pruned_with_guards R Os t roster client_seed policy m attempts rng
        = (Some (Inr (g, records)), rng')
    \<and> length records = cfg_layer_count config \<and> length (guards g) = 3"
proof -
  let ?L = "cfg_layer_count config"
  let ?rs = "admitted_sorted_above_reputation roster (pol_ledger policy) m"
  obtain t where t: "build_topology_reputation_filtered R roster epoch config seed (pol_ledger policy) m = Inr t"
  proof -
    have "?rs \<noteq> []" using assms(5) by auto
    then show ?thesis using assms(4) that by (simp add: build_topology_reputation_filtered_def Let_def)
  qed
  note parts = build_filtered_parts[OF assms(1) t]
  have mem: "roster_get roster i \<noteq> None \<and> relay_satisfies_pruning_policy i policy m"
    if "l \<in> set (layers t)" "i \<in> set l" for l i
  proof -
    have "i \<in> set (map rec_id ?rs)" using that mset_eq_setD[OF parts(5)] by auto
    then obtain k e where e: "(k, e) \<in> set (relays roster)" "i = rec_id (ent_record e)"
      "f64_le m (score (pol_ledger policy) (as_bytes i))"
      by (auto simp: admitted_sorted_above_reputation_def)
    moreover have "rec_id (ent_record e) = k"
      using roster_run_entries[OF assms(3)] e(1) by (auto simp: entry_ok_def)
    ultimately have k: "(i, e) \<in> set (relays roster)" by simp
    then have "i \<in> fst ` set (relays roster)" by force
    then have "map_of (relays roster) i \<noteq> None" unfolding map_of_eq_None_iff by blast
    then show ?thesis using e(3) by (simp add: roster_get_def relay_satisfies_pruning_policy_def is_eligible_def)
  qed
  have size: "length (layers t ! k) = (length ?rs + (?L - 1 - k)) div ?L" if "k < ?L" for k using parts(6)[OF that] .
  have ne: "l \<noteq> []" if "l \<in> set (layers t)" for l
  proof -
    obtain k where "k < length (layers t)" "layers t ! k = l" using \<open>l \<in> set (layers t)\<close> unfolding in_set_conv_nth by blast
    then have k: "k < ?L" "layers t ! k = l" using parts(3) by simp_all
    have "1 \<le> (length ?rs + (?L - 1 - k)) div ?L" using assms(4,5) by (simp add: less_eq_div_iff_mult_less_eq)
    then show ?thesis using size[OF k(1)] k(2) by auto
  qed
  have l0: "layers t ! 0 \<in> set (layers t)" "layer t 0 = Some (layers t ! 0)"
    using parts(3) assms(4) by (simp_all add: layer_def)
  have "3 \<le> (length ?rs + (?L - 1 - 0)) div ?L" using assms(4,5) by (simp add: less_eq_div_iff_mult_less_eq)
  then have three: "3 \<le> length (layers t ! 0)" using size[OF assms(4)] by simp
  have "filter (\<lambda>i. relay_satisfies_pruning_policy i policy m) (layers t ! 0) = layers t ! 0"
    using mem[OF l0(1)] by (simp add: filter_id_conv)
  then obtain g where g: "new_reputation_weighted_pruned R t guard_config_default client_seed policy m = Inr g"
    using l0(2) three by (auto simp: new_reputation_weighted_pruned_def Let_def guard_config_default_def GUARD_SET_SIZE_def)
  have g3: "length (guards g) = 3" "set (guards g) \<subseteq> set (layers t ! 0)"
    using new_pruned_ok(1)[OF assms(1) g] l0(2)
    by (auto simp: guard_set_of_def guard_config_default_def GUARD_SET_SIZE_def)
  have live: "(\<forall>l \<in> set (layers t). l \<noteq> []) \<and> (\<forall>sel. Some g = Some sel \<longrightarrow> entry_guard_for_packet sel 0 \<noteq> None)"
    using ne g3(1) by (auto simp: entry_guard_zero primary_guard_def split: list.split)
  have hops: "\<forall>i \<in> set path. roster_get roster i \<noteq> None \<and> relay_satisfies_pruning_policy i policy m"
    if "layered_from 0 (layers t) (Some g) 0 path" for path
  proof
    fix i assume "i \<in> set path"
    then obtain k where k: "k < length path" "path ! k = i" by (auto simp: in_set_conv_nth)
    have "i \<in> set (layers t ! k)"
    proof (cases k)
      case 0
      have "entry_guard_for_packet g 0 = Some (path ! 0)" using that k(1) 0 by (auto simp: layered_from_def)
      then have "path ! 0 \<in> set (guards g)" by (simp add: entry_guard_zero primary_guard_in)
      then show ?thesis using g3(2) k(2) 0 by auto
    next
      case (Suc n)
      then show ?thesis using that k by (auto simp: layered_from_def)
    qed
    then show "roster_get roster i \<noteq> None \<and> relay_satisfies_pruning_policy i policy m"
      using mem[of "layers t ! k" i] k(1) that by (simp add: layered_from_def)
  qed
  let ?check = "\<lambda>path. bind_result (check_present roster path) (\<lambda>_. Inr (path_satisfies_pruning_policy path policy m))"
  have check: "?check path = Inr True" if "layered_from 0 (layers t) (Some g) 0 path" for path
  proof -
    have "check_present roster path = Inr ()" using hops[OF that] by (simp add: check_present_iff)
    moreover have "path_satisfies_pruning_policy path policy m"
      using hops[OF that] by (simp add: path_satisfies_pruning_policy_def list_all_iff)
    ultimately show ?thesis by simp
  qed
  obtain path rng' where path: "select_path_reputation_weighted_pruned Os t roster (Some g) policy m attempts rng
      = (Some (Inr path), rng')" "layered_from 0 (layers t) (Some g) 0 path"
    unfolding select_path_reputation_weighted_pruned_def
    using draws.retry_finds[where check = ?check, OF assms(2) live assms(6) check] by blast
  let ?out = "map (\<lambda>i. the (roster_get roster i)) path"
  have rs: "map (roster_get roster) path = map Some ?out"
    using hops[OF path(2)] by auto
  then have "relay_records_for_path path roster = Inr ?out" unfolding records_iff .
  then have "build_bound_path_pruned_with_guards R Os t roster client_seed policy m attempts rng
        = (Some (Inr (g, ?out)), rng')"
    using path(1) g by (simp add: build_bound_path_pruned_with_guards_def build_bound_path_pruned_def then_pure_def)
  moreover have "length ?out = ?L" using path(2) parts(3) by (simp add: layered_from_def)
  ultimately show ?thesis using t g3(1) by blast
qed

text \<open>A roster of three relays, admitted one after the other.\<close>

definition example_record :: "byte \<Rightarrow> RelayRecord" where
  "example_record b = \<lparr>rec_id = from_kem_commitment id (replicate 32 b), rec_jurisdiction = [b], rec_commitment = replicate 32 b\<rparr>"

definition example_admission :: "byte \<Rightarrow> ThresholdSignedRelayRecord" where
  "example_admission b = \<lparr>thr_record = example_record b,
     signatures = map (\<lambda>k. sign_authority toy_sig k (example_record b)) [1, 3]\<rparr>"

definition example_entry :: "byte \<Rightarrow> RelayId \<times> RosterEntry" where
  "example_entry b = (rec_id (example_record b), \<lparr>ent_record = example_record b, signed_admission = None,
     threshold_admission = Some (example_admission b)\<rparr>)"

definition roster_of :: "byte list \<Rightarrow> RelayRoster" where
  "roster_of bs = \<lparr>relays = map example_entry bs, admission_policy = admission_policy_default,
     admission_timestamps = replicate (length bs) 100\<rparr>"

lemma example_record_id_inj: "rec_id (example_record a) = rec_id (example_record b) \<longleftrightarrow> a = b"
  by (simp add: example_record_def from_kem_commitment_def replicate_eq_replicate)

lemma roster_of_admitted: "is_admitted (roster_of bs) (rec_id (example_record b)) \<longleftrightarrow> b \<in> set bs"
  by (auto simp: is_admitted_def roster_of_def example_entry_def example_record_id_inj image_iff)

lemma roster_of_snoc:
  assumes "b \<notin> set bs" "length bs < 5"
  shows "admit_threshold_signed toy_sig id 100 (roster_of bs) (example_admission b) roster_example_consortium
      \<lparr>decay = Fin 1, scores = []\<rparr>
    = (Inr (), roster_of (bs @ [b]), admit_new_relay \<lparr>decay = Fin 1, scores = []\<rparr> (as_bytes (rec_id (example_record b))))"
proof -
  have v: "verify_threshold toy_sig (example_admission b) roster_example_consortium = Inr ()"
    unfolding example_admission_def
    by (rule verify_threshold_complete[OF toy_sig_laws roster_example_consortium_new]) (simp_all add: toy_sig_def)
  have i: "id_matches_kem_commitment id (example_record b)"
    by (simp add: id_matches_kem_commitment_def example_record_def)
  have r: "thr_record (example_admission b) = example_record b" by (simp add: example_admission_def)
  have n: "rec_id (example_record b) \<notin> fst ` set (map example_entry bs)"
    using assms(1) roster_of_admitted[of bs b] by (simp add: is_admitted_def roster_of_def)
  have c: "check_admission_rate_limit (roster_of bs) 100 = Inr ()"
    using assms(2) le_less_trans[OF length_filter_le, of "replicate (length bs) 100" 5]
    by (simp add: check_rate_ok roster_of_def admission_policy_default_def)
  have rate: "record_admission (roster_of bs) 100 = (roster_of bs)\<lparr>admission_timestamps := replicate (Suc (length bs)) 100\<rparr>"
    by (simp add: record_admission_def roster_of_def admission_policy_default_def sat_sub64_def replicate_append_same)
  show ?thesis
    using assms(1) n
    by (simp add: admit_threshold_signed_def v admit_verified_inner_def r i roster_of_admitted c rate)
       (simp add: roster_of_def alist_update_new example_entry_def Let_def)
qed

lemma roster_of_run:
  "distinct bs \<Longrightarrow> length bs \<le> 5
    \<Longrightarrow> roster_run toy_sig id roster_example_consortium admission_policy_default (replicate (length bs) 100)
      (replicate (length bs) 100) (roster_of bs)"
proof (induction bs rule: rev_induct)
  case Nil
  have "roster_of [] = with_admission_policy admission_policy_default"
    by (simp add: roster_of_def with_admission_policy_def roster_new_def)
  then show ?case using run_new by simp
next
  case (snoc b bs)
  have n: "b \<notin> set bs" "length bs < 5" using snoc.prems by auto
  have r: "thr_record (example_admission b) = example_record b" by (simp add: example_admission_def)
  have base: "roster_run toy_sig id roster_example_consortium admission_policy_default (replicate (length bs) 100)
      (replicate (length bs) 100) (roster_of bs)"
    by (rule snoc.IH) (use snoc.prems in simp_all)
  have e: "is_admitted (roster_of bs) (rec_id (thr_record (example_admission b))) \<longleftrightarrow> False"
    using n(1) by (simp add: r roster_of_admitted)
  have len: "replicate (length (bs @ [b])) (100 :: u64) = 100 # replicate (length bs) 100" by simp
  show ?case
    using run_admit[OF base roster_of_snoc[OF n]] unfolding len e by (simp only: simp_thms if_True)
qed

theorem pruned_path_always_found_witness:
  "\<exists>t g records rng'.
      build_topology_reputation_filtered counter_rand (roster_of [1, 2, 3]) 5 \<lparr>cfg_layer_count = 1\<rparr> 77
        (pol_ledger (policy_example (1 / 2))) DEFAULT_PATH_REPUTATION_FLOOR = Inr t
    \<and> build_bound_path_pruned_with_guards counter_rand counter_rand t (roster_of [1, 2, 3]) 8 (policy_example (1 / 2))
        DEFAULT_PATH_REPUTATION_FLOOR 1 4 = (Some (Inr (g, records)), rng')
    \<and> length records = cfg_layer_count \<lparr>cfg_layer_count = 1\<rparr> \<and> length (guards g) = 3"
proof (rule pruned_path_always_found[OF counter_rand_ok counter_rand_ok])
  show "roster_run toy_sig id roster_example_consortium admission_policy_default (replicate 3 100) (replicate 3 100) (roster_of [1, 2, 3])"
    using roster_of_run[of "[1, 2, 3]"] by (simp add: numeral_eq_Suc)
  obtain c where c: "DEFAULT_PATH_REPUTATION_FLOOR = Fin c" "c \<le> 3001 / 10000" using floor_value by blast
  have "f64_le DEFAULT_PATH_REPUTATION_FLOOR (Fin (1 / 2))" unfolding c(1) using c(2) by simp
  then show "2 * cfg_layer_count \<lparr>cfg_layer_count = 1\<rparr> < length (admitted_sorted_above_reputation (roster_of [1, 2, 3])
      (pol_ledger (policy_example (1 / 2))) DEFAULT_PATH_REPUTATION_FLOOR)"
    by (simp add: admitted_sorted_above_reputation_def roster_of_def)
qed simp_all

end
