(* ===== verification/Peer_Health.thy ===== *)
theory Peer_Health
  imports Reputation
begin

text \<open>
  \<^verbatim>\<open>crates/aegis-relay/src/peer_health.rs\<close>: local success and failure windows per peer, and the
  merge of signed observations of neighbours (K distinct reporters, distinct organisations, median failure
  rate at half weight, eclipse quarantine). The two mutexes of the tracker are taken once per operation and
  never nested, so each operation is one step on the state. A \<open>HashMap\<close> is a list in iteration order.
\<close>

section \<open>Policy\<close>

definition DEFAULT_GOSSIP_MAJORITY_K :: nat where "DEFAULT_GOSSIP_MAJORITY_K = 4"
definition DEFAULT_GOSSIP_MIN_ORGS :: nat where "DEFAULT_GOSSIP_MIN_ORGS = 2"
definition DEFAULT_ECLIPSE_DETECT :: bool where "DEFAULT_ECLIPSE_DETECT = True"
definition DEFAULT_ECLIPSE_MEDIAN_GAP :: f64 where "DEFAULT_ECLIPSE_MEDIAN_GAP = f64_of_rat (45 / 100)"
definition DEFAULT_ECLIPSE_LOCAL_MIN_SAMPLES :: u64 where "DEFAULT_ECLIPSE_LOCAL_MIN_SAMPLES = 8"
definition DEFAULT_ECLIPSE_HONEST_BASELINE :: f64 where "DEFAULT_ECLIPSE_HONEST_BASELINE = f64_of_rat (10 / 100)"
definition GOSSIP_WEIGHT_NUM :: u64 where "GOSSIP_WEIGHT_NUM = 1"
definition GOSSIP_WEIGHT_DEN :: u64 where "GOSSIP_WEIGHT_DEN = 2"
definition DEFAULT_MIN_SAMPLES :: u64 where "DEFAULT_MIN_SAMPLES = 4"

record GossipMergePolicy =
  majority_k :: nat
  min_orgs :: nat
  eclipse_detect :: bool
  eclipse_median_gap :: f64
  eclipse_local_min_samples :: u64
  eclipse_honest_baseline :: f64

definition stacked :: GossipMergePolicy where
  "stacked = \<lparr>majority_k = DEFAULT_GOSSIP_MAJORITY_K, min_orgs = DEFAULT_GOSSIP_MIN_ORGS,
     eclipse_detect = DEFAULT_ECLIPSE_DETECT, eclipse_median_gap = DEFAULT_ECLIPSE_MEDIAN_GAP,
     eclipse_local_min_samples = DEFAULT_ECLIPSE_LOCAL_MIN_SAMPLES,
     eclipse_honest_baseline = DEFAULT_ECLIPSE_HONEST_BASELINE\<rparr>"

definition legacy_majority :: "nat \<Rightarrow> GossipMergePolicy" where
  "legacy_majority k = \<lparr>majority_k = max k 1, min_orgs = 1,
     eclipse_detect = False, eclipse_median_gap = DEFAULT_ECLIPSE_MEDIAN_GAP,
     eclipse_local_min_samples = DEFAULT_ECLIPSE_LOCAL_MIN_SAMPLES,
     eclipse_honest_baseline = DEFAULT_ECLIPSE_HONEST_BASELINE\<rparr>"

definition sanitize :: "GossipMergePolicy \<Rightarrow> GossipMergePolicy" where
  "sanitize p =
     (let p = p\<lparr>majority_k := max (majority_k p) 1\<rparr>;
          p = p\<lparr>min_orgs := max (min_orgs p) 1\<rparr>;
          p = (if \<not> f64_is_finite (eclipse_median_gap p) \<or> f64_lt (eclipse_median_gap p) (Fin 0)
               then p\<lparr>eclipse_median_gap := DEFAULT_ECLIPSE_MEDIAN_GAP\<rparr> else p);
          p = (if \<not> f64_is_finite (eclipse_honest_baseline p)
               then p\<lparr>eclipse_honest_baseline := DEFAULT_ECLIPSE_HONEST_BASELINE\<rparr> else p)
      in p\<lparr>eclipse_honest_baseline := f64_clamp (Fin 0) (Fin 1) (eclipse_honest_baseline p)\<rparr>)"

datatype GossipMergeOutcome =
    GossipBuffered nat nat
  | GossipWaitingDiversity nat nat nat
  | GossipApplied nat nat
  | GossipQuarantined nat nat

section \<open>Diversity keys\<close>

definition hex32 :: "bytes \<Rightarrow> string" where
  "hex32 bs = concat (map hex_byte bs)"

definition gossip_diversity_key :: "string option \<Rightarrow> string option \<Rightarrow> bytes \<Rightarrow> string" where
  "gossip_diversity_key org_id jurisdiction reporter =
     (case org_id of
        Some org \<Rightarrow> if trim org \<noteq> [] then ''org:'' @ trim org
          else (case jurisdiction of
              Some jur \<Rightarrow> if trim jur \<noteq> [] then ''jur:'' @ trim jur else ''rid:'' @ hex32 reporter
            | None \<Rightarrow> ''rid:'' @ hex32 reporter)
      | None \<Rightarrow> (case jurisdiction of
              Some jur \<Rightarrow> if trim jur \<noteq> [] then ''jur:'' @ trim jur else ''rid:'' @ hex32 reporter
            | None \<Rightarrow> ''rid:'' @ hex32 reporter))"

definition normalize_diversity_key :: "string \<Rightarrow> bytes \<Rightarrow> string" where
  "normalize_diversity_key key reporter =
     (if trim key = [] then ''rid:'' @ hex32 reporter else trim key)"

definition distinct_diversity_count :: "string list \<Rightarrow> nat" where
  "distinct_diversity_count keys = length (remdups keys)"

section \<open>The median\<close>

text \<open>\<open>sort_by(partial_cmp)\<close>: the rates are finite, so their order is total.\<close>

fun insert_rate :: "f64 \<Rightarrow> f64 list \<Rightarrow> f64 list" where
  "insert_rate x [] = [x]"
| "insert_rate x (y # ys) = (if f64_le x y then x # y # ys else y # insert_rate x ys)"

definition sort_rates :: "f64 list \<Rightarrow> f64 list" where
  "sort_rates rs = foldr insert_rate rs []"

definition median_of_sorted :: "f64 list \<Rightarrow> f64" where
  "median_of_sorted rates =
     (let mid = length rates div 2 in
      if length rates mod 2 = 1 then rates ! mid
      else f64_div (f64_add (rates ! (mid - 1)) (rates ! mid)) (Fin 2))"

text \<open>The observations with at least one sample, as the loop collects them: their rates and totals.\<close>

definition observation_totals :: "(u64 \<times> u64) list \<Rightarrow> u64 list" where
  "observation_totals obs = filter (\<lambda>t. t \<noteq> 0) (map (\<lambda>(good, bad). sat_add64 good bad) obs)"

definition observation_rates :: "(u64 \<times> u64) list \<Rightarrow> f64 list" where
  "observation_rates obs =
     map (\<lambda>(good, bad). f64_div (f64_of_nat (unat bad)) (f64_of_nat (unat (sat_add64 good bad))))
       (filter (\<lambda>(good, bad). sat_add64 good bad \<noteq> 0) obs)"

text \<open>
  \<open>totals.iter().sum::<u64>()\<close> is the sum of the words: it wraps around in a release build, and
  panics where overflow checks are on.
\<close>

definition median_outcome_counts :: "(u64 \<times> u64) list \<Rightarrow> (u64 \<times> u64) option" where
  "median_outcome_counts obs =
     (let rates = observation_rates obs; totals = observation_totals obs in
      if rates = [] then None
      else let rates = sort_rates rates;
               median_rate = median_of_sorted rates;
               avg_total = f64_div (f64_of_nat (unat (sum_list totals))) (f64_of_nat (length totals));
               sample_total = of_nat (f64_to_u64 (f64_max (f64_round avg_total) (Fin 1))) :: u64;
               fail = min (of_nat (f64_to_u64 (f64_round (f64_mul median_rate (f64_of_nat (unat sample_total)))))) sample_total;
               good = sat_sub64 sample_total fail
        in if good = 0 \<and> fail = 0 then None else Some (good, fail))"

section \<open>The tracker\<close>

record PeerHealthTracker =
  ph_inner :: "(bytes \<times> (u64 \<times> u64)) list"
  gossip_pending :: "(bytes \<times> (bytes \<times> (u64 \<times> u64 \<times> string)) list) list"
  ph_policy :: GossipMergePolicy

definition tracker_with_policy :: "GossipMergePolicy \<Rightarrow> PeerHealthTracker" where
  "tracker_with_policy p = \<lparr>ph_inner = [], gossip_pending = [], ph_policy = sanitize p\<rparr>"

definition tracker_new :: PeerHealthTracker where
  "tracker_new = tracker_with_policy stacked"

definition with_gossip_majority_k :: "nat \<Rightarrow> PeerHealthTracker" where
  "with_gossip_majority_k k = tracker_with_policy (legacy_majority k)"

definition window :: "PeerHealthTracker \<Rightarrow> bytes \<Rightarrow> u64 \<times> u64" where
  "window t peer = (case map_of (ph_inner t) peer of Some w \<Rightarrow> w | None \<Rightarrow> (0, 0))"

definition ph_record_success :: "PeerHealthTracker \<Rightarrow> bytes \<Rightarrow> PeerHealthTracker" where
  "ph_record_success t peer =
     (let (good, bad) = window t peer in
      t\<lparr>ph_inner := AList.update peer (sat_add64 good 1, bad) (ph_inner t)\<rparr>)"

definition ph_record_failure :: "PeerHealthTracker \<Rightarrow> bytes \<Rightarrow> PeerHealthTracker" where
  "ph_record_failure t peer =
     (let (good, bad) = window t peer in
      t\<lparr>ph_inner := AList.update peer (good, sat_add64 bad 1) (ph_inner t)\<rparr>)"

definition apply_gossip_outcomes ::
    "PeerHealthTracker \<Rightarrow> bytes \<Rightarrow> u64 \<Rightarrow> u64 \<Rightarrow> u64 \<Rightarrow> u64 \<Rightarrow> PeerHealthTracker" where
  "apply_gossip_outcomes t peer successes failures weight_num weight_den =
     (if weight_den = 0 then t
      else let good = sat_mul64 successes weight_num div weight_den;
               fail = sat_mul64 failures weight_num div weight_den in
        if good = 0 \<and> fail = 0 then t
        else let (g0, f0) = window t peer in
          t\<lparr>ph_inner := AList.update peer (sat_add64 g0 good, sat_add64 f0 fail) (ph_inner t)\<rparr>)"

definition eclipse_heuristic_quarantine :: "PeerHealthTracker \<Rightarrow> bytes \<Rightarrow> f64 \<Rightarrow> bool" where
  "eclipse_heuristic_quarantine t subject median_rate =
     (let (local_rate, local_samples) = (case map_of (ph_inner t) subject of
            Some (good, bad) \<Rightarrow>
              let samples = sat_add64 good bad in
              if samples = 0 then (None, 0)
              else (Some (f64_div (f64_of_nat (unat bad)) (f64_of_nat (unat samples))), samples)
          | None \<Rightarrow> (None, 0 :: u64));
          baseline = (case local_rate of
            Some r \<Rightarrow> if eclipse_local_min_samples (ph_policy t) \<le> local_samples then r
              else eclipse_honest_baseline (ph_policy t)
          | None \<Rightarrow> eclipse_honest_baseline (ph_policy t))
      in f64_le (f64_add baseline (eclipse_median_gap (ph_policy t))) median_rate)"

definition finish_median_merge ::
    "PeerHealthTracker \<Rightarrow> bytes \<Rightarrow> (u64 \<times> u64) list \<Rightarrow> nat \<Rightarrow> nat \<Rightarrow> GossipMergeOutcome \<times> PeerHealthTracker" where
  "finish_median_merge t subject observations reporters distinct_orgs =
     (case median_outcome_counts observations of
        None \<Rightarrow> (GossipApplied reporters distinct_orgs, t)
      | Some (good, fail) \<Rightarrow>
          let total = max (sat_add64 good fail) 1;
              median_rate = f64_div (f64_of_nat (unat fail)) (f64_of_nat (unat total)) in
          if eclipse_detect (ph_policy t) \<and> eclipse_heuristic_quarantine t subject median_rate
          then (GossipQuarantined reporters distinct_orgs, t)
          else (GossipApplied reporters distinct_orgs,
                apply_gossip_outcomes t subject good fail GOSSIP_WEIGHT_NUM GOSSIP_WEIGHT_DEN))"

definition ingest_gossip_observation ::
    "PeerHealthTracker \<Rightarrow> bytes \<Rightarrow> bytes \<Rightarrow> u64 \<Rightarrow> u64 \<Rightarrow> string \<Rightarrow> GossipMergeOutcome \<times> PeerHealthTracker" where
  "ingest_gossip_observation t reporter subject successes failures diversity_key =
     (let key = normalize_diversity_key diversity_key reporter;
          k = majority_k (ph_policy t);
          by_reporter = (case map_of (gossip_pending t) subject of Some m \<Rightarrow> m | None \<Rightarrow> []);
          by_reporter = AList.update reporter (successes, failures, key) by_reporter;
          have_n = length by_reporter;
          distinct_orgs = distinct_diversity_count (map (\<lambda>(_, _, _, d). d) by_reporter);
          buffered = t\<lparr>gossip_pending := AList.update subject by_reporter (gossip_pending t)\<rparr>
      in if have_n < k then (GossipBuffered have_n k, buffered)
         else if distinct_orgs < min_orgs (ph_policy t)
         then (GossipWaitingDiversity have_n distinct_orgs (min_orgs (ph_policy t)), buffered)
         else finish_median_merge (t\<lparr>gossip_pending := AList.update subject [] (gossip_pending t)\<rparr>) subject
                (map (\<lambda>(_, good, fail, _). (good, fail)) by_reporter) have_n distinct_orgs)"

definition apply_quorum_median ::
    "PeerHealthTracker \<Rightarrow> bytes \<Rightarrow> (u64 \<times> u64) list \<Rightarrow> string list \<Rightarrow> GossipMergeOutcome \<times> PeerHealthTracker" where
  "apply_quorum_median t subject observations diversity_keys =
     (let reporters = length observations;
          distinct_orgs = distinct_diversity_count diversity_keys in
      if distinct_orgs < min_orgs (ph_policy t)
      then (GossipWaitingDiversity reporters distinct_orgs (min_orgs (ph_policy t)), t)
      else finish_median_merge t subject observations reporters distinct_orgs)"

definition pending_gossip_reporters :: "PeerHealthTracker \<Rightarrow> bytes \<Rightarrow> nat" where
  "pending_gossip_reporters t subject = (case map_of (gossip_pending t) subject of Some m \<Rightarrow> length m | None \<Rightarrow> 0)"

definition pending_gossip_orgs :: "PeerHealthTracker \<Rightarrow> bytes \<Rightarrow> nat" where
  "pending_gossip_orgs t subject = (case map_of (gossip_pending t) subject of
     Some m \<Rightarrow> distinct_diversity_count (map (\<lambda>(_, _, _, d). d) m) | None \<Rightarrow> 0)"

definition snapshot :: "PeerHealthTracker \<Rightarrow> (bytes \<times> u64 \<times> u64) list" where
  "snapshot t = map (\<lambda>(peer, good, bad). (peer, good, bad)) (ph_inner t)"

definition failure_rate :: "PeerHealthTracker \<Rightarrow> bytes \<Rightarrow> f64 option" where
  "failure_rate t peer = (case map_of (ph_inner t) peer of
       None \<Rightarrow> None
     | Some (good, bad) \<Rightarrow>
         let total = sat_add64 good bad in
         if total = 0 then None else Some (f64_div (f64_of_nat (unat bad)) (f64_of_nat (unat total))))"

definition success_rate :: "PeerHealthTracker \<Rightarrow> bytes \<Rightarrow> f64 option" where
  "success_rate t peer = map_option (\<lambda>fail. f64_sub (Fin 1) fail) (failure_rate t peer)"

fun drain_loop ::
    "u64 \<Rightarrow> (bytes \<times> (u64 \<times> u64)) list \<Rightarrow> RelayPruningPolicy \<Rightarrow> nat
      \<Rightarrow> (bytes \<times> (u64 \<times> u64)) list \<times> RelayPruningPolicy \<times> nat" where
  "drain_loop min_samples [] policy fed = ([], policy, fed)"
| "drain_loop min_samples ((peer, good, bad) # rest) policy fed =
     (if sat_add64 good bad < min_samples
      then (let (rest', policy, fed) = drain_loop min_samples rest policy fed
            in ((peer, good, bad) # rest', policy, fed))
      else (let (rest', policy, fed) =
                  drain_loop min_samples rest (snd (feed_peer_outcomes policy peer good bad)) (fed + 1)
            in ((peer, 0, 0) # rest', policy, fed)))"

definition drain_into_policy ::
    "PeerHealthTracker \<Rightarrow> RelayPruningPolicy \<Rightarrow> u64 \<Rightarrow> nat \<times> PeerHealthTracker \<times> RelayPruningPolicy" where
  "drain_into_policy t policy min_samples =
     (let (inner, policy, fed) = drain_loop min_samples (ph_inner t) policy 0
      in (fed, t\<lparr>ph_inner := inner\<rparr>, policy))"

section \<open>A minority of reporters cannot move the median\<close>

lemma sort_rates_Fin: "sort_rates (map Fin qs) = map Fin (sort qs)"
proof -
  have "insert_rate (Fin x) (map Fin ys) = map Fin (insort x ys)" for x ys
    by (induction ys) auto
  then show ?thesis by (induction qs) (simp_all add: sort_rates_def sort_key_def)
qed

lemma sorted_above:
  assumes "sorted xs" "i < length xs" "length (filter (\<lambda>x. x < lo) xs) \<le> i"
  shows "lo \<le> (xs ! i :: 'a :: linorder)"
proof (rule ccontr)
  assume c: "\<not> lo \<le> xs ! i"
  have "\<forall>x \<in> set (take (Suc i) xs). x < lo"
  proof
    fix x assume "x \<in> set (take (Suc i) xs)"
    then obtain j where "j < length (take (Suc i) xs)" "take (Suc i) xs ! j = x" unfolding in_set_conv_nth by blast
    then have "j \<le> i" "x = xs ! j" by auto
    then show "x < lo" using sorted_nth_mono[OF assms(1), of j i] assms(2) c by auto
  qed
  then have "filter (\<lambda>x. x < lo) (take (Suc i) xs) = take (Suc i) xs" by (simp add: filter_id_conv)
  then have "Suc i \<le> length (filter (\<lambda>x. x < lo) (take (Suc i) xs @ drop (Suc i) xs))"
    using assms(2) unfolding filter_append by simp
  then show False using assms(3) unfolding append_take_drop_id by linarith
qed

lemma sorted_below:
  assumes "sorted xs" "i < length xs" "i + length (filter (\<lambda>x. hi < x) xs) < length xs"
  shows "xs ! i \<le> (hi :: 'a :: linorder)"
proof (rule ccontr)
  assume c: "\<not> xs ! i \<le> hi"
  have "\<forall>x \<in> set (drop i xs). hi < x"
  proof
    fix x assume "x \<in> set (drop i xs)"
    then obtain j where "j < length (drop i xs)" "drop i xs ! j = x" unfolding in_set_conv_nth by blast
    then have "i + j < length xs" "x = xs ! (i + j)" by auto
    then show "hi < x" using sorted_nth_mono[OF assms(1), of i "i + j"] c by auto
  qed
  then have "filter (\<lambda>x. hi < x) (drop i xs) = drop i xs" by (simp add: filter_id_conv)
  then have "length xs - i \<le> length (filter (\<lambda>x. hi < x) (take i xs @ drop i xs))"
    unfolding filter_append by simp
  then show False using assms(2,3) unfolding append_take_drop_id by linarith
qed

lemma representable_double:
  assumes "representable q"
  shows "representable (2 * q)"
proof -
  obtain m e where m: "q = of_int m * pow2 e" "\<bar>m\<bar> \<le> 2 ^ 53" "- 1074 \<le> e"
    using assms unfolding representable_def by blast
  then have "2 * q = of_int m * pow2 (e + 1)" by (simp add: pow2_Suc)
  then show ?thesis using m unfolding representable_def by (intro exI[of _ m] exI[of _ "e + 1"]) simp
qed

text \<open>The mean of two numbers of an interval of the unit interval stays in the interval.\<close>

lemma mean_between:
  assumes "representable lo" "representable hi" "0 \<le> lo" "hi \<le> 1" "lo \<le> a" "a \<le> hi" "lo \<le> b" "b \<le> hi"
  shows "\<exists>q. f64_div (f64_add (Fin a) (Fin b)) (Fin 2) = Fin q \<and> lo \<le> q \<and> q \<le> hi"
proof -
  have s: "2 * lo \<le> a + b" "a + b \<le> 2 * hi" using assms by linarith+
  note bs = fl_bounds[OF representable_double[OF assms(1)] representable_double[OF assms(2)] s]
  have two: "representable 2" using representable_nat[of 2] by simp
  have "\<bar>a + b\<bar> \<le> 2" using assms by linarith
  from f64_of_rat_small[OF two this] have add: "f64_add (Fin a) (Fin b) = Fin (fl (a + b))" by simp
  have h: "lo \<le> fl (a + b) / 2" "fl (a + b) / 2 \<le> hi" using bs by linarith+
  have "0 \<le> fl (a + b) / 2" "fl (a + b) / 2 \<le> 1" using h assms by linarith+
  from f64_of_rat_01[OF this] have "f64_div (f64_add (Fin a) (Fin b)) (Fin 2) = Fin (fl (fl (a + b) / 2))"
    unfolding add by simp
  then show ?thesis using fl_bounds[OF assms(1,2) h] by auto
qed

lemma median_between:
  assumes "representable lo" "representable hi" "0 \<le> lo" "hi \<le> 1" "qs \<noteq> []"
    and "2 * length (filter (\<lambda>q. q < lo) qs) < length qs" "2 * length (filter (\<lambda>q. hi < q) qs) < length qs"
  shows "\<exists>q. median_of_sorted (sort_rates (map Fin qs)) = Fin q \<and> lo \<le> q \<and> q \<le> hi"
proof -
  let ?s = "sort qs" and ?n = "length qs"
  have count: "length (filter P ?s) = length (filter P qs)" for P by (metis mset_filter mset_sort size_mset)
  have bound: "lo \<le> ?s ! i \<and> ?s ! i \<le> hi"
    if "i < ?n" "length (filter (\<lambda>q. q < lo) qs) \<le> i" "i + length (filter (\<lambda>q. hi < q) qs) < ?n" for i
    using sorted_above[of ?s i lo] sorted_below[of ?s i hi] that by (simp add: count)
  show ?thesis
  proof (cases "?n mod 2 = 1")
    case True
    have "lo \<le> ?s ! (?n div 2) \<and> ?s ! (?n div 2) \<le> hi" by (rule bound) (use assms(5,6,7) True in presburger)+
    then show ?thesis using True assms(5) by (simp add: median_of_sorted_def sort_rates_Fin)
  next
    case False
    have n: "0 < ?n" using assms(5) by simp
    have a: "lo \<le> ?s ! (?n div 2 - 1) \<and> ?s ! (?n div 2 - 1) \<le> hi"
      by (rule bound) (use assms(6,7) n False in presburger)+
    have b: "lo \<le> ?s ! (?n div 2) \<and> ?s ! (?n div 2) \<le> hi" by (rule bound) (use assms(6,7) n False in presburger)+
    have len: "?n div 2 < ?n" "?n div 2 - 1 < ?n" using n by linarith+
    show ?thesis
      using mean_between[OF assms(1-4)] a b False len
      by (simp add: median_of_sorted_def sort_rates_Fin Let_def)
  qed
qed

lemma f64_fun_mono:
  "0 \<le> a \<Longrightarrow> a \<le> b \<Longrightarrow> f64_to_u64 (f64_round (Fin a)) \<le> f64_to_u64 (f64_round (Fin b))"
proof -
  assume ab: "0 \<le> a" "a \<le> b"
  have "round_half_away a \<le> round_half_away b" using ab by (simp add: round_half_away_def floor_mono)
  moreover have "0 \<le> round_half_away a" using ab(1) by (simp add: round_half_away_def)
  ultimately show ?thesis by (auto simp: min_def nat_le_eq_zle)
qed

lemma mul_mono_to_u64:
  assumes "0 \<le> p" "p \<le> q" "q \<le> 1" "n < 2 ^ 64"
  shows "f64_to_u64 (f64_round (f64_mul (Fin p) (f64_of_nat n)))
    \<le> f64_to_u64 (f64_round (f64_mul (Fin q) (f64_of_nat n)))"
proof -
  obtain a where a: "f64_of_nat n = Fin a" "a = fl (of_nat n)" "0 \<le> a" using f64_of_nat_u64[OF assms(4)] by blast
  have r: "representable (2 ^ 64)"
    unfolding representable_def by (intro exI[of _ 1] exI[of _ 64]) (simp add: pow2_def)
  have "of_nat n \<le> (of_nat (2 ^ 64) :: rat)" using assms(4) by (simp only: of_nat_le_iff)
  then have a64: "a \<le> 2 ^ 64" unfolding a(2) using fl_bounds(2)[OF representable_0_1(1) r, of "of_nat n"] by simp
  have m: "f64_mul (Fin x) (Fin a) = Fin (fl (x * a))" if "0 \<le> x" "x \<le> 1" for x
  proof -
    have "\<bar>x * a\<bar> \<le> 2 ^ 64" using mult_mono[of x 1 a "2 ^ 64"] that a(3) a64 by simp
    then show ?thesis using f64_of_rat_small[OF r] by simp
  qed
  have "fl (p * a) \<le> fl (q * a)" using assms(1,2) a(3) by (intro fl_mono mult_right_mono)
  moreover have "0 \<le> fl (p * a)" using assms(1) a(3) by (intro fl_nonneg) simp
  ultimately show ?thesis using f64_fun_mono m assms by (simp add: a(1))
qed

section \<open>Theorems\<close>

lemma observation_rates_Fin:
  "\<exists>qs. observation_rates obs = map Fin qs \<and> (\<forall>q \<in> set qs. 0 \<le> q \<and> q \<le> 1)"
proof -
  have "\<forall>r \<in> set (observation_rates obs). \<exists>q. r = Fin q \<and> 0 \<le> q \<and> q \<le> 1"
  proof
    fix r assume "r \<in> set (observation_rates obs)"
    then obtain a b where ab: "sat_add64 a b \<noteq> 0"
      "r = f64_div (f64_of_nat (unat b)) (f64_of_nat (unat (sat_add64 a b)))"
      by (auto simp: observation_rates_def)
    have "unat b < 2 ^ 64" "unat (sat_add64 a b) < 2 ^ 64"
      using unsigned_less[of b, where ?'a = nat] unsigned_less[of "sat_add64 a b", where ?'a = nat] by simp_all
    moreover from this have "unat b \<le> unat (sat_add64 a b)" by (simp add: unat_sat_add64)
    moreover have "0 < unat (sat_add64 a b)" using ab(1) by (simp add: unat_gt_0)
    ultimately show "\<exists>q. r = Fin q \<and> 0 \<le> q \<and> q \<le> 1" unfolding ab(2) using f64_ratio_01 by blast
  qed
  then have "\<forall>r \<in> set (observation_rates obs). Fin (case r of Fin q \<Rightarrow> q | _ \<Rightarrow> 0) = r \<and>
      0 \<le> (case r of Fin q \<Rightarrow> q | _ \<Rightarrow> 0) \<and> (case r of Fin q \<Rightarrow> q | _ \<Rightarrow> 0) \<le> 1" by auto
  then show ?thesis
    by (intro exI[of _ "map (\<lambda>r. case r of Fin q \<Rightarrow> q | _ \<Rightarrow> 0) (observation_rates obs)"])
       (auto simp: map_idI)
qed

text \<open>The median merge resists a minority: when fewer than half of the reports are below lo and fewer than half
  above hi, the failures of the merged observation are between those that the rates lo and hi themselves
  give on the same number of samples, whatever the minority reported (as long as the totals do not overflow
  their sum, nothing is assumed about it).\<close>

theorem median_resists_minority:
  assumes "median_outcome_counts obs = Some (good, bad)"
    and "representable lo" "representable hi" "0 \<le> lo" "hi \<le> 1"
    and "2 * length (filter (\<lambda>r. f64_lt r (Fin lo)) (observation_rates obs)) < length (observation_rates obs)"
    and "2 * length (filter (\<lambda>r. f64_lt (Fin hi) r) (observation_rates obs)) < length (observation_rates obs)"
  shows "min (f64_to_u64 (f64_round (f64_mul (Fin lo) (f64_of_nat (unat good + unat bad))))) (unat good + unat bad)
      \<le> unat bad
    \<and> unat bad \<le> f64_to_u64 (f64_round (f64_mul (Fin hi) (f64_of_nat (unat good + unat bad))))"
proof -
  obtain qs where qs: "observation_rates obs = map Fin qs" using observation_rates_Fin by blast
  have ne: "qs \<noteq> []" using assms(1) by (auto simp: median_outcome_counts_def qs)
  have "length (filter (\<lambda>r. f64_lt r (Fin lo)) (map Fin qs)) = length (filter (\<lambda>q. q < lo) qs)"
    "length (filter (\<lambda>r. f64_lt (Fin hi) r) (map Fin qs)) = length (filter (\<lambda>q. hi < q) qs)"
    by (simp_all add: filter_map comp_def)
  then obtain q where q: "median_of_sorted (sort_rates (map Fin qs)) = Fin q" "lo \<le> q" "q \<le> hi"
    using median_between[OF assms(2-5) ne] assms(6,7) qs by auto
  obtain N :: u64 where N: "bad = min (of_nat (f64_to_u64 (f64_round (f64_mul (Fin q) (f64_of_nat (unat N)))))) N"
    "good = sat_sub64 N bad"
    using assms(1) ne q(1) by (auto simp: median_outcome_counts_def qs Let_def split: if_splits)
  have n64: "unat N < 2 ^ 64" using unsigned_less[of N, where ?'a = nat] by simp
  let ?F = "\<lambda>x. f64_to_u64 (f64_round (f64_mul (Fin x) (f64_of_nat (unat N))))"
  have F64: "?F x < 2 ^ 64" for x by (cases "f64_round (f64_mul (Fin x) (f64_of_nat (unat N)))") auto
  have le: "bad \<le> N" using N(1) by simp
  then have sum: "unat good + unat bad = unat N" using N(2) by (simp add: unat_sat_sub64 word_le_nat_alt)
  have bad: "unat bad = min (?F q) (unat N)"
    using F64[of q] unfolding N(1) by (auto simp: min_def word_le_nat_alt unat_of_nat)
  have "?F lo \<le> ?F q" "?F q \<le> ?F hi"
    using mul_mono_to_u64[OF assms(4) q(2) _ n64] mul_mono_to_u64[of q hi, OF _ q(3) assms(5) n64] q assms(4,5)
    by (auto intro: order_trans)
  then show ?thesis unfolding sum using bad by linarith
qed

lemma f64_of_rat_rep:
  assumes "representable q" "\<bar>q\<bar> \<le> 2 ^ 53"
  shows "f64_of_rat q = Fin q"
proof -
  have "representable (2 ^ 53)" using representable_int[of "2 ^ 53"] by simp
  from f64_of_rat_small[OF this assms(2) small_lt_overflow(1)] show ?thesis
    using fl_representable[OF assms(1)] by simp
qed

lemma quarter: "representable (1 / 4)"
  unfolding representable_def by (intro exI[of _ 1] exI[of _ "- 2"]) (simp add: pow2_def)

text \<open>Two honest reports of one failure in four samples, and a liar who reports only failures.\<close>

lemma rates_example:
  "f64_of_nat (Suc 0) = Fin 1" "f64_of_nat 3 = Fin 3" "f64_of_nat 4 = Fin 4" "f64_of_nat 12 = Fin 12"
  "f64_of_rat (1 / 4) = Fin (1 / 4)" "f64_of_rat 1 = Fin 1" "f64_of_rat 4 = Fin 4"
  using f64_of_nat_exact[of 1] f64_of_nat_exact[of 3] f64_of_nat_exact[of 4] f64_of_nat_exact[of 12]
    f64_of_rat_rep[OF quarter] f64_of_rat_rep[OF representable_nat[of 1]] f64_of_rat_rep[OF representable_nat[of 4]]
  by simp_all

lemma observation_example: "observation_rates [(3, 1), (3, 1), (0, 4)] = map Fin [1 / 4, 1 / 4, 1]"
  by (simp add: observation_rates_def sat_add64_def rates_example)

lemma median_example: "median_outcome_counts [(3, 1), (3, 1), (0, 4)] = Some (3, 1)"
proof -
  have totals: "observation_totals [(3, 1), (3, 1), (0, 4)] = [4, 4, 4]"
    by (simp add: observation_totals_def sat_add64_def)
  have median: "median_of_sorted (sort_rates (map Fin [1 / 4, 1 / 4, 1])) = Fin (1 / 4)"
    unfolding sort_rates_Fin by (simp add: median_of_sorted_def)
  have half: "floor (9 / 2 :: rat) = 4" "floor (3 / 2 :: rat) = 1" by (rule floor_unique; simp)+
  have avg: "f64_max (f64_round (f64_div (Fin 12) (Fin 3))) (Fin 1) = Fin 4"
    by (simp add: rates_example round_half_away_def f64_max_def half)
  have fail: "f64_to_u64 (f64_round (f64_mul (Fin (1 / 4)) (Fin 4))) = 1"
    by (simp add: rates_example round_half_away_def half)
  show ?thesis
    unfolding median_outcome_counts_def observation_example totals
    using median avg fail rates_example(2)[unfolded numeral_3_eq_3] by (simp add: rates_example sat_sub64_def Let_def)
qed

theorem median_resists_minority_witness:
  "unat (1 :: u64) \<le> f64_to_u64 (f64_round (f64_mul (Fin (1 / 4)) (f64_of_nat (unat (3 :: u64) + unat (1 :: u64)))))"
  using median_resists_minority[OF median_example quarter quarter] by (simp add: observation_example)

section \<open>Organisations\<close>

lemma distinct_diversity_card: "distinct_diversity_count keys = card (set keys)"
  by (simp add: distinct_diversity_count_def length_remdups_card_conv)

type_synonym gossip_reports = "(bytes \<times> (u64 \<times> u64 \<times> string)) list"

definition labels :: "gossip_reports \<Rightarrow> string set" where
  "labels m = (\<lambda>(_, _, _, d). d) ` set m"

definition pending_labels :: "PeerHealthTracker \<Rightarrow> string set" where
  "pending_labels t = \<Union> (labels ` snd ` set (gossip_pending t))"

definition ingest_all :: "(bytes \<times> bytes \<times> u64 \<times> u64 \<times> string) list \<Rightarrow> PeerHealthTracker \<Rightarrow> PeerHealthTracker" where
  "ingest_all obs t = fold (\<lambda>(r, subject, good, bad, k) t. snd (ingest_gossip_observation t r subject good bad k)) obs t"

lemma labels_update: "labels (AList.update r (good, bad, d) m) \<subseteq> insert d (labels m)"
  by (force simp: labels_def dest!: set_alist_update')

lemma pending_labels_update:
  "pending_labels (t\<lparr>gossip_pending := AList.update subject m (gossip_pending t)\<rparr>) \<subseteq> pending_labels t \<union> labels m"
  by (force simp: pending_labels_def dest!: set_alist_update')

lemma pending_labels_lookup:
  "map_of (gossip_pending t) subject = Some m \<Longrightarrow> labels m \<subseteq> pending_labels t"
  by (force simp: pending_labels_def dest!: map_of_SomeD)

text \<open>One ingestion whose label, like all pending labels, is from too small a set: it is only buffered.\<close>

lemma ingest_one_org:
  assumes "pending_labels t \<subseteq> D" "normalize_diversity_key k r \<in> D" "finite D" "card D < min_orgs (ph_policy t)"
    and "t' = snd (ingest_gossip_observation t r subject good bad k)"
  shows "ph_inner t' = ph_inner t" "ph_policy t' = ph_policy t" "pending_labels t' \<subseteq> D"
proof -
  let ?old = "case map_of (gossip_pending t) subject of Some m \<Rightarrow> m | None \<Rightarrow> []"
  let ?m = "AList.update r (good, bad, normalize_diversity_key k r) ?old"
  have "labels ?old \<subseteq> D"
  proof (cases "map_of (gossip_pending t) subject")
    case None
    then show ?thesis by (simp add: labels_def)
  next
    case (Some m)
    then show ?thesis using pending_labels_lookup[OF Some] assms(1) by simp
  qed
  then have m: "labels ?m \<subseteq> D" using assms(2) labels_update[of r good bad "normalize_diversity_key k r" ?old] by blast
  have "set (map (\<lambda>(_, _, _, d). d) ?m) = labels ?m" by (simp add: labels_def)
  then have "card (set (map (\<lambda>(_, _, _, d). d) ?m)) < min_orgs (ph_policy t)"
    using card_mono[OF assms(3) m] assms(4) by simp
  then have t': "t' = t\<lparr>gossip_pending := AList.update subject ?m (gossip_pending t)\<rparr>"
    unfolding assms(5) ingest_gossip_observation_def Let_def distinct_diversity_card by simp
  show "ph_inner t' = ph_inner t" "ph_policy t' = ph_policy t" by (simp_all add: t')
  show "pending_labels t' \<subseteq> D" using pending_labels_update[where t = t and subject = subject and m = ?m] m assms(1) unfolding t' by blast
qed

text \<open>One organisation, however many reporters it runs, never changes the local health windows by gossip
  alone: a run of observations whose labels (after normalisation) are fewer than the required number of
  organisations leaves every success and failure count as it was.\<close>

theorem few_orgs_never_merge:
  assumes "pending_labels t \<subseteq> D" "finite D" "card D < min_orgs (ph_policy t)"
    and "\<forall>(r, subject, good, bad, k) \<in> set obs. normalize_diversity_key k r \<in> D"
  shows "ph_inner (ingest_all obs t) = ph_inner t"
  using assms
proof (induction obs arbitrary: t)
  case Nil
  then show ?case by (simp add: ingest_all_def)
next
  case (Cons x obs)
  obtain r subject good bad k where x: "x = (r, subject, good, bad, k)" by (cases x)
  let ?t = "snd (ingest_gossip_observation t r subject good bad k)"
  have k: "normalize_diversity_key k r \<in> D" using Cons.prems(4) x by simp
  note one = ingest_one_org[OF Cons.prems(1) k Cons.prems(2,3) refl]
  have "ph_inner (ingest_all obs ?t) = ph_inner ?t"
    by (rule Cons.IH) (use one Cons.prems in auto)
  then show ?case using one(1) by (simp add: ingest_all_def x)
qed

theorem few_orgs_never_merge_witness:
  "ph_inner (ingest_all [([1], [9], 0, 50, ''org:evil''), ([2], [9], 0, 50, ''org:evil''), ([3], [9], 0, 50, '' org:evil ''),
      ([4], [9], 0, 50, ''org:evil'')] tracker_new) = ph_inner tracker_new"
proof (rule few_orgs_never_merge[where D = "{''org:evil''}"])
  show "card {''org:evil''} < min_orgs (ph_policy tracker_new)"
    by (simp add: tracker_new_def tracker_with_policy_def sanitize_def stacked_def DEFAULT_GOSSIP_MIN_ORGS_def Let_def)
qed (simp_all add: pending_labels_def tracker_new_def tracker_with_policy_def normalize_diversity_key_def trim_def
      is_whitespace_def)

end
