(* ===== verification/Health_Gossip.thy ===== *)
theory Health_Gossip
  imports Peer_Health Cell
begin

text \<open>
  \<^verbatim>\<open>crates/aegis-relay/src/health_gossip.rs\<close> and \<^verbatim>\<open>health_quorum_log.rs\<close>: the signed
  health observations of neighbours on the wire, and the append-only log that applies a median once K
  authorities of an epoch agree. The log file is a byte sequence; whether a write succeeds is the argument
  \<open>io\<close> (\<open>Some (e, n)\<close>: the write fails with \<open>e\<close> after its first \<open>n\<close> bytes).
\<close>

section \<open>The advert\<close>

definition ADVERT_BODY_LEN :: nat where "ADVERT_BODY_LEN = 32 + 32 + 8 + 8 + 8"
definition ADVERT_SIG_LEN :: nat where "ADVERT_SIG_LEN = 64"
definition ADVERT_WIRE_LEN :: nat where "ADVERT_WIRE_LEN = ADVERT_BODY_LEN + ADVERT_SIG_LEN"
definition DEFAULT_MAX_ADVERT_AGE_SECS :: u64 where "DEFAULT_MAX_ADVERT_AGE_SECS = 3600"

datatype HealthGossipError =
    GossipMalformed
  | GossipBadSignature
  | UnknownReporter
  | ReporterMismatch
  | StaleTimestamp
  | MissingVerifyingKey
  | GossipEquivocation

record PeerHealthAdvert =
  reporter :: bytes
  subject :: bytes
  successes :: u64
  failures :: u64
  timestamp_secs :: u64
  adv_signature :: bytes

definition wf_advert :: "PeerHealthAdvert \<Rightarrow> bool" where
  "wf_advert a \<longleftrightarrow> length (reporter a) = 32 \<and> length (subject a) = 32 \<and> length (adv_signature a) = ADVERT_SIG_LEN"

definition signable_bytes :: "PeerHealthAdvert \<Rightarrow> bytes" where
  "signable_bytes a =
     (let out = replicate ADVERT_BODY_LEN 0;
          out = put 0 (reporter a) out;
          out = put 32 (subject a) out;
          out = put 64 (u64_to_le (successes a)) out;
          out = put 72 (u64_to_le (failures a)) out
      in put 80 (u64_to_le (timestamp_secs a)) out)"

definition advert_sign ::
    "('sk, 'vk) sig_lib \<Rightarrow> 'sk \<Rightarrow> bytes \<Rightarrow> bytes \<Rightarrow> u64 \<Rightarrow> u64 \<Rightarrow> u64 \<Rightarrow> PeerHealthAdvert" where
  "advert_sign S key r s good bad ts =
     (let a = \<lparr>reporter = r, subject = s, successes = good, failures = bad, timestamp_secs = ts,
               adv_signature = replicate ADVERT_SIG_LEN 0\<rparr>
      in a\<lparr>adv_signature := ed_sign S key (signable_bytes a)\<rparr>)"

definition advert_verify :: "('sk, 'vk) sig_lib \<Rightarrow> PeerHealthAdvert \<Rightarrow> 'vk \<Rightarrow> (HealthGossipError, unit) result" where
  "advert_verify S a vk =
     (if ed_verify S vk (signable_bytes a) (adv_signature a) then Inr () else Inl GossipBadSignature)"

definition to_cell :: "PeerHealthAdvert \<Rightarrow> Cell" where
  "to_cell a =
     (let buf = replicate CELL_LEN 0;
          buf = buf[0 := command_byte Command.PeerHealthAdvert];
          buf = put 1 (signable_bytes a) buf
      in put (1 + ADVERT_BODY_LEN) (adv_signature a) buf)"

definition from_cell :: "Cell \<Rightarrow> (HealthGossipError, PeerHealthAdvert) result" where
  "from_cell b =
     (if command_from_u8 (b ! 0) \<noteq> Some Command.PeerHealthAdvert then Inl GossipMalformed
      else Inr \<lparr>reporter = slice 1 32 b, subject = slice 33 32 b, successes = u64_from_le (slice 65 8 b),
             failures = u64_from_le (slice 73 8 b), timestamp_secs = u64_from_le (slice 81 8 b),
             adv_signature = slice 89 ADVERT_SIG_LEN b\<rparr>)"

definition advert_failure_rate :: "PeerHealthAdvert \<Rightarrow> f64 option" where
  "advert_failure_rate a =
     (let total = sat_add64 (successes a) (failures a) in
      if total = 0 then None
      else Some (f64_div (f64_of_nat (unat (failures a))) (f64_of_nat (unat total))))"

section \<open>The quorum log\<close>

definition QUORUM_LOG_RECORD_LEN :: nat where "QUORUM_LOG_RECORD_LEN = 8 + 32 + 32 + 8 + 8 + 64"

definition EPOCH_CHECKPOINT_DOMAIN :: bytes where
  "EPOCH_CHECKPOINT_DOMAIN = map of_char ''aegis-health-epoch-checkpoint-v1''"

datatype QuorumLogError = LogMalformed | LogBadSignature | NotAuthority | LogEquivocation | LogIo string

record HealthQuorumLogEntry =
  ent_epoch :: u64
  ent_advert :: PeerHealthAdvert

definition record_bytes :: "HealthQuorumLogEntry \<Rightarrow> bytes" where
  "record_bytes e =
     (let out = replicate QUORUM_LOG_RECORD_LEN 0;
          out = put 0 (u64_to_le (ent_epoch e)) out;
          out = put 8 (reporter (ent_advert e)) out;
          out = put 40 (subject (ent_advert e)) out;
          out = put 72 (u64_to_le (successes (ent_advert e))) out;
          out = put 80 (u64_to_le (failures (ent_advert e))) out
      in put 88 (adv_signature (ent_advert e)) out)"

definition from_record_bytes :: "bytes \<Rightarrow> (QuorumLogError, HealthQuorumLogEntry) result" where
  "from_record_bytes buf =
     (if length buf \<noteq> QUORUM_LOG_RECORD_LEN then Inl LogMalformed
      else Inr \<lparr>ent_epoch = u64_from_le (slice 0 8 buf),
             ent_advert = \<lparr>reporter = slice 8 32 buf, subject = slice 40 32 buf,
               successes = u64_from_le (slice 72 8 buf), failures = u64_from_le (slice 80 8 buf),
               timestamp_secs = 0, adv_signature = slice 88 64 buf\<rparr>\<rparr>)"

definition payload_key :: "HealthQuorumLogEntry \<Rightarrow> bytes \<times> bytes \<times> u64 \<times> u64" where
  "payload_key e = (reporter (ent_advert e), subject (ent_advert e), successes (ent_advert e), failures (ent_advert e))"

record HealthEpochMedianSummary =
  sum_subject :: bytes
  sum_successes :: u64
  sum_failures :: u64

record HealthEpochCheckpoint =
  chk_epoch :: u64
  chk_summaries :: "HealthEpochMedianSummary list"
  chk_signer_pubkey :: bytes
  chk_signature :: bytes

definition canonical_checkpoint_bytes :: "u64 \<Rightarrow> HealthEpochMedianSummary list \<Rightarrow> bytes" where
  "canonical_checkpoint_bytes epoch summaries =
     EPOCH_CHECKPOINT_DOMAIN @ u64_to_le epoch
     @ concat (map (\<lambda>s. sum_subject s @ u64_to_le (sum_successes s) @ u64_to_le (sum_failures s)) summaries)"

definition checkpoint_verify :: "('sk, 'vk) sig_lib \<Rightarrow> HealthEpochCheckpoint \<Rightarrow> 'vk \<Rightarrow> (QuorumLogError, unit) result" where
  "checkpoint_verify S c vk =
     (let msg = canonical_checkpoint_bytes (chk_epoch c) (chk_summaries c) in
      if length (chk_signature c) \<noteq> 64 then Inl LogBadSignature
      else if ed_verify S vk msg (chk_signature c) then Inr () else Inl LogBadSignature)"

datatype QuorumAppendOutcome =
    LogBuffered nat nat
  | LogWaitingDiversity nat nat nat
  | LogApplied nat nat
  | LogQuarantined nat nat
  | LogDuplicate

record HealthQuorumLog =
  has_path :: bool
  log_majority_k :: nat
  authority_set :: "bytes list"
  seen :: "((u64 \<times> bytes \<times> bytes) \<times> (u64 \<times> u64)) list"
  pending :: "((u64 \<times> bytes) \<times> gossip_reports) list"
  applied :: "(u64 \<times> bytes) list"
  applied_medians :: "((u64 \<times> bytes) \<times> (u64 \<times> u64)) list"
  log_entries :: "HealthQuorumLogEntry list"

definition log_new :: "nat \<Rightarrow> bytes list \<Rightarrow> HealthQuorumLog" where
  "log_new k auths = \<lparr>has_path = False, log_majority_k = max k 1, authority_set = auths, seen = [], pending = [],
     applied = [], applied_medians = [], log_entries = []\<rparr>"

definition with_persist_path :: "HealthQuorumLog \<Rightarrow> HealthQuorumLog" where
  "with_persist_path l = l\<lparr>has_path := True\<rparr>"

definition entry_count :: "HealthQuorumLog \<Rightarrow> nat" where
  "entry_count l = length (log_entries l)"

definition epoch_subject_applied :: "HealthQuorumLog \<Rightarrow> u64 \<Rightarrow> bytes \<Rightarrow> bool" where
  "epoch_subject_applied l epoch s \<longleftrightarrow> (epoch, s) \<in> set (applied l)"

definition applied_summaries_for_epoch :: "HealthQuorumLog \<Rightarrow> u64 \<Rightarrow> HealthEpochMedianSummary list" where
  "applied_summaries_for_epoch l epoch =
     sort_key sum_subject
       (map (\<lambda>((e, s), good, bad). \<lparr>sum_subject = s, sum_successes = good, sum_failures = bad\<rparr>)
         (filter (\<lambda>((e, s), _). e = epoch) (applied_medians l)))"

definition sign_epoch_checkpoint :: "('sk, 'vk) sig_lib \<Rightarrow> HealthQuorumLog \<Rightarrow> u64 \<Rightarrow> 'sk \<Rightarrow> HealthEpochCheckpoint" where
  "sign_epoch_checkpoint S l epoch key =
     (let summaries = applied_summaries_for_epoch l epoch in
      \<lparr>chk_epoch = epoch, chk_summaries = summaries, chk_signer_pubkey = ed_to_bytes S (ed_verifying_key S key),
       chk_signature = ed_sign S key (canonical_checkpoint_bytes epoch summaries)\<rparr>)"

definition hash_insert :: "'a \<Rightarrow> 'a list \<Rightarrow> 'a list" where
  "hash_insert x xs = (if x \<in> set xs then xs else x # xs)"

text \<open>The observations of one pending quorum.\<close>

definition report_counts :: "gossip_reports \<Rightarrow> (u64 \<times> u64) list" where
  "report_counts m = map (\<lambda>(_, good, bad, _). (good, bad)) m"

definition reports_of :: "HealthQuorumLog \<Rightarrow> u64 \<Rightarrow> bytes \<Rightarrow> gossip_reports" where
  "reports_of l epoch s = (case map_of (pending l) (epoch, s) of Some m \<Rightarrow> m | None \<Rightarrow> [])"

fun finalize_loop :: "(u64 \<times> bytes) list \<Rightarrow> HealthQuorumLog \<Rightarrow> HealthQuorumLog" where
  "finalize_loop [] l = l"
| "finalize_loop ((epoch, s) # ready) l =
     (let l = (case map_of (pending l) (epoch, s) of
            None \<Rightarrow> l
          | Some m \<Rightarrow>
              (case median_outcome_counts (report_counts m) of
                 None \<Rightarrow> l
               | Some med \<Rightarrow> l\<lparr>applied_medians := AList.update (epoch, s) med (applied_medians l)\<rparr>))
      in finalize_loop ready
           (l\<lparr>applied := hash_insert (epoch, s) (applied l), pending := AList.delete (epoch, s) (pending l)\<rparr>))"

definition finalize_replayed_quorums :: "HealthQuorumLog \<Rightarrow> HealthQuorumLog" where
  "finalize_replayed_quorums l =
     finalize_loop (map fst (filter (\<lambda>(key, m). log_majority_k l \<le> length m) (pending l))) l"

definition replay_entry :: "HealthQuorumLog \<Rightarrow> HealthQuorumLogEntry \<Rightarrow> (QuorumLogError, HealthQuorumLog) result" where
  "replay_entry l e =
     (let a = ent_advert e;
          key = (ent_epoch e, reporter a, subject a);
          payload = (successes a, failures a) in
      if (case map_of (seen l) key of Some prev \<Rightarrow> prev \<noteq> payload | None \<Rightarrow> False) then Inl LogEquivocation
      else let l = (case map_of (seen l) key of Some _ \<Rightarrow> l | None \<Rightarrow> l\<lparr>seen := AList.update key payload (seen l)\<rparr>);
               l = l\<lparr>log_entries := log_entries l @ [e]\<rparr>
        in if (ent_epoch e, subject a) \<in> set (applied l) then Inr l
           else if authority_set l \<noteq> [] \<and> reporter a \<notin> set (authority_set l) then Inr l
           else Inr (l\<lparr>pending := AList.update (ent_epoch e, subject a)
                  (AList.update (reporter a) (fst payload, snd payload, gossip_diversity_key None None (reporter a))
                    (reports_of l (ent_epoch e) (subject a)))
                  (pending l)\<rparr>))"

text \<open>\<open>read_exact\<close> in a loop: whole records; a shorter rest at the end of the file ends the loop.\<close>

function replay_records :: "HealthQuorumLog \<Rightarrow> bytes \<Rightarrow> (QuorumLogError, HealthQuorumLog) result" where
  "replay_records l disk =
     (if length disk < QUORUM_LOG_RECORD_LEN then Inr l
      else bind_result (from_record_bytes (take QUORUM_LOG_RECORD_LEN disk)) (\<lambda>e.
           bind_result (replay_entry l e) (\<lambda>l. replay_records l (drop QUORUM_LOG_RECORD_LEN disk))))"
  by pat_completeness auto

termination
  by (relation "measure (\<lambda>(l, disk). length disk)") (auto simp: QUORUM_LOG_RECORD_LEN_def)

declare replay_records.simps [simp del]

definition replay_from_disk :: "HealthQuorumLog \<Rightarrow> bytes \<Rightarrow> (QuorumLogError, HealthQuorumLog) result" where
  "replay_from_disk l disk = bind_result (replay_records l disk) (\<lambda>l. Inr (finalize_replayed_quorums l))"

text \<open>The file: missing, there but unreadable (the error of \<open>open\<close>), or its content.\<close>

definition load_or_create :: "(string + bytes) option \<Rightarrow> nat \<Rightarrow> bytes list \<Rightarrow> (QuorumLogError, HealthQuorumLog) result" where
  "load_or_create file k auths =
     (let l = with_persist_path (log_new k auths) in
      case file of
        Some (Inl err) \<Rightarrow> Inl (LogIo err)
      | Some (Inr disk) \<Rightarrow> replay_from_disk l disk
      | None \<Rightarrow> Inr l)"

definition persist_entry ::
    "HealthQuorumLog \<Rightarrow> HealthQuorumLogEntry \<Rightarrow> (string \<times> nat) option \<Rightarrow> bytes \<Rightarrow> (QuorumLogError, unit) result \<times> bytes" where
  "persist_entry l e io disk =
     (if \<not> has_path l then (Inr (), disk)
      else case io of Some (err, n) \<Rightarrow> (Inl (LogIo err), disk @ take n (record_bytes e)) | None \<Rightarrow> (Inr (), disk @ record_bytes e))"

text \<open>\<open>append_verified\<close> once the entry is stored: buffer the report, and merge when enough reporters are there.\<close>

definition append_pending ::
    "HealthQuorumLog \<Rightarrow> u64 \<Rightarrow> PeerHealthAdvert \<Rightarrow> PeerHealthTracker \<Rightarrow> string
      \<Rightarrow> QuorumAppendOutcome \<times> HealthQuorumLog \<times> PeerHealthTracker" where
  "append_pending l epoch a t diversity_key =
     (if (epoch, subject a) \<in> set (applied l) then (LogDuplicate, l, t)
      else let diver = (if trim diversity_key = [] then gossip_diversity_key None None (reporter a)
             else trim diversity_key);
               key = (epoch, subject a);
               by_reporter = AList.update (reporter a) (successes a, failures a, diver) (reports_of l epoch (subject a));
               l = l\<lparr>pending := AList.update key by_reporter (pending l)\<rparr> in
        if length by_reporter < log_majority_k l
        then (LogBuffered (length by_reporter) (log_majority_k l), l, t)
        else case apply_quorum_median t (subject a) (report_counts by_reporter) (map (\<lambda>(_, _, _, d). d) by_reporter) of
          (GossipWaitingDiversity n orgs need, t) \<Rightarrow> (LogWaitingDiversity n orgs need, l, t)
        | (GossipQuarantined n orgs, t) \<Rightarrow>
            (LogQuarantined n orgs,
             l\<lparr>pending := AList.delete key (pending l), applied := hash_insert key (applied l)\<rparr>, t)
        | (GossipApplied n orgs, t) \<Rightarrow>
            let l = (case median_outcome_counts (report_counts by_reporter) of
                  Some med \<Rightarrow> l\<lparr>applied_medians := AList.update key med (applied_medians l)\<rparr>
                | None \<Rightarrow> l)
            in (LogApplied n orgs,
                l\<lparr>pending := AList.delete key (pending l), applied := hash_insert key (applied l)\<rparr>, t)
        | (GossipBuffered n need, t) \<Rightarrow> (LogBuffered n need, l, t))"

definition append_verified ::
    "('sk, 'vk) sig_lib \<Rightarrow> (string \<times> nat) option \<Rightarrow> HealthQuorumLog \<Rightarrow> u64 \<Rightarrow> PeerHealthAdvert \<Rightarrow> 'vk \<Rightarrow> PeerHealthTracker
      \<Rightarrow> string \<Rightarrow> bytes \<Rightarrow> (QuorumLogError, QuorumAppendOutcome) result \<times> HealthQuorumLog \<times> PeerHealthTracker \<times> bytes" where
  "append_verified S io l epoch a vk t diversity_key disk =
     (if advert_verify S a vk \<noteq> Inr () then (Inl LogBadSignature, l, t, disk)
      else if authority_set l \<noteq> [] \<and> reporter a \<notin> set (authority_set l) then (Inl NotAuthority, l, t, disk)
      else let dedup_key = (epoch, reporter a, subject a); payload = (successes a, failures a) in
        case map_of (seen l) dedup_key of
          Some prev \<Rightarrow> if prev \<noteq> payload then (Inl LogEquivocation, l, t, disk) else (Inr LogDuplicate, l, t, disk)
        | None \<Rightarrow>
            let e = \<lparr>ent_epoch = epoch, ent_advert = a\<rparr>;
                l = l\<lparr>seen := AList.update dedup_key payload (seen l), log_entries := log_entries l @ [e]\<rparr> in
            (case persist_entry l e io disk of
               (Inl err, disk) \<Rightarrow> (Inl err, l, t, disk)
             | (Inr _, disk) \<Rightarrow>
                 let (out, l, t) = append_pending l epoch a t diversity_key in (Inr out, l, t, disk)))"

definition advert_epoch :: "u64 \<Rightarrow> u64 \<Rightarrow> u64" where
  "advert_epoch ts epoch_secs = ts div max epoch_secs 1"

section \<open>Accepting an advert from a link\<close>

record PeerInfo =
  peer_addr :: string
  link_key_bytes :: bytes
  peer_kem_commitment :: "bytes option"
  gossip_verifying_key :: "bytes option"
  noise_static_public :: "bytes option"
  org_id :: "string option"
  peer_jurisdiction :: "string option"

definition timestamp_ok :: "u64 \<Rightarrow> u64 \<Rightarrow> u64 \<Rightarrow> bool" where
  "timestamp_ok now max_age ts = (if ts \<le> now then now - ts \<le> max_age else ts - now \<le> 120)"

definition accept_advert ::
    "('sk, 'vk) sig_lib \<Rightarrow> PeerHealthAdvert \<Rightarrow> bytes \<Rightarrow> (bytes \<times> PeerInfo) list \<Rightarrow> u64 \<Rightarrow> u64 \<Rightarrow> PeerHealthTracker
      \<Rightarrow> (HealthGossipError, GossipMergeOutcome) result \<times> PeerHealthTracker" where
  "accept_advert S a link_peer peer_table now max_age t =
     (if link_peer \<noteq> reporter a then (Inl ReporterMismatch, t)
      else case map_of peer_table link_peer of
        None \<Rightarrow> (Inl UnknownReporter, t)
      | Some peer \<Rightarrow>
          (case Option.bind (gossip_verifying_key peer) (ed_from_bytes S) of
             None \<Rightarrow> (Inl MissingVerifyingKey, t)
           | Some vk \<Rightarrow>
               (case advert_verify S a vk of
                  Inl e \<Rightarrow> (Inl e, t)
                | Inr _ \<Rightarrow>
                    if \<not> timestamp_ok now max_age (timestamp_secs a) then (Inl StaleTimestamp, t)
                    else let diver = gossip_diversity_key (org_id peer) (peer_jurisdiction peer) (reporter a);
                             (out, t) = ingest_gossip_observation t (reporter a) (subject a) (successes a) (failures a) diver
                         in (Inr out, t))))"

fun log_error_to_gossip :: "QuorumLogError \<Rightarrow> HealthGossipError" where
  "log_error_to_gossip LogBadSignature = GossipBadSignature"
| "log_error_to_gossip LogEquivocation = GossipEquivocation"
| "log_error_to_gossip NotAuthority = UnknownReporter"
| "log_error_to_gossip LogMalformed = GossipMalformed"
| "log_error_to_gossip (LogIo _) = GossipMalformed"

fun log_outcome_to_gossip :: "nat \<Rightarrow> QuorumAppendOutcome \<Rightarrow> GossipMergeOutcome" where
  "log_outcome_to_gossip k (LogBuffered n need) = GossipBuffered n need"
| "log_outcome_to_gossip k (LogWaitingDiversity n orgs need) = GossipWaitingDiversity n orgs need"
| "log_outcome_to_gossip k (LogApplied n orgs) = GossipApplied n orgs"
| "log_outcome_to_gossip k (LogQuarantined n orgs) = GossipQuarantined n orgs"
| "log_outcome_to_gossip k LogDuplicate = GossipBuffered k k"

definition accept_advert_quorum ::
    "('sk, 'vk) sig_lib \<Rightarrow> (string \<times> nat) option \<Rightarrow> PeerHealthAdvert \<Rightarrow> bytes \<Rightarrow> (bytes \<times> PeerInfo) list \<Rightarrow> u64 \<Rightarrow> u64 \<Rightarrow> u64
      \<Rightarrow> PeerHealthTracker \<Rightarrow> HealthQuorumLog option \<Rightarrow> bytes
      \<Rightarrow> (HealthGossipError, GossipMergeOutcome) result \<times> PeerHealthTracker \<times> HealthQuorumLog option \<times> bytes" where
  "accept_advert_quorum S io a link_peer peer_table now max_age epoch_secs t qlog disk =
     (if link_peer \<noteq> reporter a then (Inl ReporterMismatch, t, qlog, disk)
      else case map_of peer_table link_peer of
        None \<Rightarrow> (Inl UnknownReporter, t, qlog, disk)
      | Some peer \<Rightarrow>
          (case Option.bind (gossip_verifying_key peer) (ed_from_bytes S) of
             None \<Rightarrow> (Inl MissingVerifyingKey, t, qlog, disk)
           | Some vk \<Rightarrow>
               if \<not> timestamp_ok now max_age (timestamp_secs a) then (Inl StaleTimestamp, t, qlog, disk)
               else let diver = gossip_diversity_key (org_id peer) (peer_jurisdiction peer) (reporter a) in
                 (case qlog of
                    None \<Rightarrow>
                      (case advert_verify S a vk of
                         Inl e \<Rightarrow> (Inl e, t, qlog, disk)
                       | Inr _ \<Rightarrow>
                           let (out, t) = ingest_gossip_observation t (reporter a) (subject a) (successes a) (failures a) diver
                           in (Inr out, t, qlog, disk))
                  | Some l \<Rightarrow>
                      (case append_verified S io l (advert_epoch (timestamp_secs a) epoch_secs) a vk t diver disk of
                         (Inl e, l, t, disk) \<Rightarrow> (Inl (log_error_to_gossip e), t, Some l, disk)
                       | (Inr out, l, t, disk) \<Rightarrow>
                           (Inr (log_outcome_to_gossip (log_majority_k l) out), t, Some l, disk)))))"

end
