(* ===== verification/Quorum_Log.thy ===== *)
theory Quorum_Log
  imports Health_Gossip "HOL-Library.Sublist"
begin

text \<open>
  What the health adverts and the quorum log promise: both byte formats round trip; whatever adverts arrive
  and however often the relay restarts, a median is only applied on the signed word of enough distinct
  authorities; and what exactly a restart keeps.
\<close>

section \<open>The byte formats\<close>

lemma u64_slices [simp]: "length (u64_to_le w) = 8" by simp

lemma length_signable: "wf_advert a \<Longrightarrow> length (signable_bytes a) = ADVERT_BODY_LEN"
  by (simp add: signable_bytes_def wf_advert_def ADVERT_BODY_LEN_def Let_def)

lemma signable_slices:
  assumes "wf_advert a"
  shows "slice 0 32 (signable_bytes a) = reporter a" "slice 32 32 (signable_bytes a) = subject a"
    "slice 64 8 (signable_bytes a) = u64_to_le (successes a)" "slice 72 8 (signable_bytes a) = u64_to_le (failures a)"
    "slice 80 8 (signable_bytes a) = u64_to_le (timestamp_secs a)"
  using assms by (simp_all add: signable_bytes_def wf_advert_def ADVERT_BODY_LEN_def Let_def buf_simps)

lemma slice_inner: "i + k \<le> n \<Longrightarrow> slice (off + i) k xs = slice i k (slice off n xs)"
  by (simp add: slice_slice)

lemma to_cell_slices:
  assumes "wf_advert a"
  shows "to_cell a ! 0 = command_byte Command.PeerHealthAdvert" "length (to_cell a) = CELL_LEN"
    "slice 1 ADVERT_BODY_LEN (to_cell a) = signable_bytes a" "slice 89 ADVERT_SIG_LEN (to_cell a) = adv_signature a"
  using assms length_signable[OF assms]
  by (simp_all add: to_cell_def wf_advert_def ADVERT_BODY_LEN_def ADVERT_SIG_LEN_def CELL_LEN_def Let_def buf_simps put_nth)

lemma from_to_cell:
  assumes "wf_advert a"
  shows "from_cell (to_cell a) = Inr a"
proof -
  have body: "slice 1 88 (to_cell a) = signable_bytes a"
    using to_cell_slices(3)[OF assms] by (simp add: ADVERT_BODY_LEN_def)
  have in_body: "slice (1 + i) k (to_cell a) = slice i k (signable_bytes a)" if "i + k \<le> 88" for i k
    unfolding slice_inner[OF that] body ..
  show ?thesis
    using in_body[of 0 32] in_body[of 32 32] in_body[of 64 8] in_body[of 72 8] in_body[of 80 8]
      signable_slices[OF assms] to_cell_slices(1,4)[OF assms]
    by (simp add: from_cell_def command_from_u8_def)
qed

lemma slice_append_halves:
  "slice off (m + n) xs = slice off m xs @ slice (off + m) n xs"
  by (simp add: slice_def take_add ac_simps drop_drop[symmetric] del: drop_drop)

lemma from_cell_Inr:
  assumes "wf_cell b" "from_cell b = Inr a"
  shows "wf_advert a" "b ! 0 = command_byte Command.PeerHealthAdvert"
    "slice 1 ADVERT_BODY_LEN b = signable_bytes a" "slice 89 ADVERT_SIG_LEN b = adv_signature a"
proof -
  have a: "a = \<lparr>reporter = slice 1 32 b, subject = slice 33 32 b, successes = u64_from_le (slice 65 8 b),
      failures = u64_from_le (slice 73 8 b), timestamp_secs = u64_from_le (slice 81 8 b), adv_signature = slice 89 ADVERT_SIG_LEN b\<rparr>"
    and b: "b ! 0 = command_byte Command.PeerHealthAdvert"
    using assms(2) by (auto simp: from_cell_def command_from_Some_iff split: if_splits)
  show "b ! 0 = command_byte Command.PeerHealthAdvert" "slice 89 ADVERT_SIG_LEN b = adv_signature a"
    using a b by simp_all
  show wf: "wf_advert a" using assms(1) by (simp add: a wf_advert_def wf_cell_def CELL_LEN_def ADVERT_SIG_LEN_def)
  have split: "slice off 88 xs = slice off 32 xs @ slice (off + 32) 32 xs @ slice (off + 64) 8 xs @ slice (off + 72) 8 xs
      @ slice (off + 80) 8 xs" for off and xs :: bytes
    using slice_append_halves[of off 32 56 xs] slice_append_halves[of "off + 32" 32 24 xs]
      slice_append_halves[of "off + 64" 8 16 xs] slice_append_halves[of "off + 72" 8 8 xs] by (simp add: ac_simps)
  have len: "length (slice (Suc off) 8 b) = 8" if "off < 500" for off
    using that assms(1) by (simp add: wf_cell_def CELL_LEN_def)
  have "slice 0 88 (signable_bytes a) = slice 1 88 b"
    unfolding split[of 0] split[of 1]
    using signable_slices[OF wf] len[of 64] len[of 72] len[of 80] by (simp add: a u64_to_from_le)
  then show "slice 1 ADVERT_BODY_LEN b = signable_bytes a"
    using length_signable[OF wf] slice_all[of "signable_bytes a"] by (simp add: ADVERT_BODY_LEN_def)
qed

lemma length_record: "wf_advert (ent_advert x) \<Longrightarrow> length (record_bytes x) = QUORUM_LOG_RECORD_LEN"
  by (simp add: record_bytes_def wf_advert_def QUORUM_LOG_RECORD_LEN_def ADVERT_SIG_LEN_def Let_def)

definition erase_timestamp :: "HealthQuorumLogEntry \<Rightarrow> HealthQuorumLogEntry" where
  "erase_timestamp x = x\<lparr>ent_advert := (ent_advert x)\<lparr>timestamp_secs := 0\<rparr>\<rparr>"

lemma from_to_record:
  assumes "wf_advert (ent_advert x)"
  shows "from_record_bytes (record_bytes x) = Inr (erase_timestamp x)"
  using assms length_record[OF assms]
  by (simp add: from_record_bytes_def record_bytes_def wf_advert_def QUORUM_LOG_RECORD_LEN_def ADVERT_SIG_LEN_def Let_def
      buf_simps erase_timestamp_def)

text \<open>The health observations survive their two encodings: a cell built from an advert is a full cell that parses
  back to the advert; a full cell that parses was built from the parsed advert, up to its unused tail; and
  a record of the log file reads back to the entry, except that its timestamp is zero.\<close>

theorem advert_roundtrip:
  "(wf_advert a \<longrightarrow> wf_cell (to_cell a) \<and> from_cell (to_cell a) = Inr a)
   \<and> (wf_cell b \<and> from_cell b = Inr a' \<longrightarrow> wf_advert a' \<and> slice 0 (1 + ADVERT_WIRE_LEN) (to_cell a') = slice 0 (1 + ADVERT_WIRE_LEN) b)
   \<and> (wf_advert (ent_advert x) \<longrightarrow> from_record_bytes (record_bytes x) = Inr (erase_timestamp x))"
proof (intro conjI impI)
  show "wf_cell (to_cell a)" "from_cell (to_cell a) = Inr a" if "wf_advert a"
    using to_cell_slices(2)[OF that] from_to_cell[OF that] by (simp_all add: wf_cell_def)
  show "wf_advert a'" if "wf_cell b \<and> from_cell b = Inr a'" using from_cell_Inr(1) that by blast
  show "from_record_bytes (record_bytes x) = Inr (erase_timestamp x)" if "wf_advert (ent_advert x)"
    using from_to_record[OF that] .
  assume b: "wf_cell b \<and> from_cell b = Inr a'"
  note parts = from_cell_Inr[OF conjunct1[OF b] conjunct2[OF b]]
  have wire: "slice 0 (1 + ADVERT_WIRE_LEN) xs = xs ! 0 # slice 1 ADVERT_BODY_LEN xs @ slice 89 ADVERT_SIG_LEN xs"
    if "length xs = CELL_LEN" for xs :: bytes
    using slice_append_halves[of 1 88 64 xs] slice_append_halves[of 0 1 152 xs] that
    by (cases xs) (simp_all add: slice_def ADVERT_WIRE_LEN_def ADVERT_BODY_LEN_def ADVERT_SIG_LEN_def CELL_LEN_def)
  show "slice 0 (1 + ADVERT_WIRE_LEN) (to_cell a') = slice 0 (1 + ADVERT_WIRE_LEN) b"
    using parts to_cell_slices[OF parts(1)] b wire[of b] wire[of "to_cell a'"] by (simp add: wf_cell_def)
qed

definition example_advert :: "byte \<Rightarrow> PeerHealthAdvert" where
  "example_advert r = advert_sign toy_sig r (replicate 32 r) (replicate 32 9) 3 1 7200"

lemma wf_example_advert: "wf_advert (example_advert r)"
  by (simp add: example_advert_def advert_sign_def wf_advert_def ADVERT_SIG_LEN_def Let_def sig_lawsD[OF toy_sig_laws])

theorem advert_roundtrip_witness:
  "from_cell (to_cell (example_advert 5)) = Inr (example_advert 5)
   \<and> from_record_bytes (record_bytes \<lparr>ent_epoch = 2, ent_advert = example_advert 5\<rparr>)
       = Inr (erase_timestamp \<lparr>ent_epoch = 2, ent_advert = example_advert 5\<rparr>)
   \<and> slice 0 (1 + ADVERT_WIRE_LEN) (to_cell (example_advert 5)) = slice 0 (1 + ADVERT_WIRE_LEN) (to_cell (example_advert 5))"
  using advert_roundtrip[of "example_advert 5" "to_cell (example_advert 5)" "example_advert 5"
      "\<lparr>ent_epoch = 2, ent_advert = example_advert 5\<rparr>"] wf_example_advert by simp

section \<open>Reachable logs\<close>

definition entry_key :: "HealthQuorumLogEntry \<Rightarrow> u64 \<times> bytes \<times> bytes" where
  "entry_key x = (ent_epoch x, reporter (ent_advert x), subject (ent_advert x))"

definition entry_payload :: "HealthQuorumLogEntry \<Rightarrow> u64 \<times> u64" where
  "entry_payload x = (successes (ent_advert x), failures (ent_advert x))"

definition reporters_for :: "HealthQuorumLogEntry list \<Rightarrow> u64 \<Rightarrow> bytes \<Rightarrow> bytes list" where
  "reporters_for es epoch s =
     map (\<lambda>x. reporter (ent_advert x)) (filter (\<lambda>x. ent_epoch x = epoch \<and> subject (ent_advert x) = s) es)"

text \<open>
  The logs of a relay that starts with no file, handles any adverts (with any tracker, on any link and at any
  time), whose writes succeed or fail at any byte, and which restarts, under the same K and authority set.
  The flag says that the file is still a sequence of whole records with at most one torn record at its very
  end: it is lost by a write behind a torn record, and by one that fails although the whole record was
  written. Only such a file is restarted from here.
\<close>

definition keeps_records :: "(string \<times> nat) option \<Rightarrow> bytes \<Rightarrow> bytes \<Rightarrow> bool" where
  "keeps_records io disk disk' \<longleftrightarrow> disk' = disk
     \<or> (QUORUM_LOG_RECORD_LEN dvd length disk \<and> (\<forall>err n. io = Some (err, n) \<longrightarrow> n < QUORUM_LOG_RECORD_LEN))"

inductive log_reach ::
    "('sk, 'vk) sig_lib \<Rightarrow> (bytes \<times> PeerInfo) list \<Rightarrow> nat \<Rightarrow> bytes list \<Rightarrow> u64
      \<Rightarrow> bool \<Rightarrow> HealthQuorumLog \<Rightarrow> bytes \<Rightarrow> bool"
  for S peer_table k auths epoch_secs where
  log_start: "load_or_create None k auths = Inr l \<Longrightarrow> log_reach S peer_table k auths epoch_secs True l []"
| log_advert: "log_reach S peer_table k auths epoch_secs w l disk \<Longrightarrow> wf_advert a \<Longrightarrow>
    accept_advert_quorum S io a link_peer peer_table now max_age epoch_secs t (Some l) disk = (res, t', Some l', disk') \<Longrightarrow>
    log_reach S peer_table k auths epoch_secs (w \<and> keeps_records io disk disk') l' disk'"
| log_restart: "log_reach S peer_table k auths epoch_secs True l disk \<Longrightarrow> load_or_create (Some (Inr disk)) k auths = Inr l' \<Longrightarrow>
    log_reach S peer_table k auths epoch_secs True l' disk"

text \<open>An entry somebody of the table vouched for: its signature verifies under the key of its reporter, over some
  timestamp of its epoch.\<close>

definition vouched ::
    "('sk, 'vk) sig_lib \<Rightarrow> (bytes \<times> PeerInfo) list \<Rightarrow> bytes list \<Rightarrow> u64 \<Rightarrow> HealthQuorumLogEntry \<Rightarrow> bool" where
  "vouched S peer_table auths epoch_secs x \<longleftrightarrow>
     (auths = [] \<or> reporter (ent_advert x) \<in> set auths)
     \<and> (\<exists>peer vk ts. map_of peer_table (reporter (ent_advert x)) = Some peer
          \<and> Option.bind (gossip_verifying_key peer) (ed_from_bytes S) = Some vk
          \<and> advert_epoch ts epoch_secs = ent_epoch x
          \<and> advert_verify S ((ent_advert x)\<lparr>timestamp_secs := ts\<rparr>) vk = Inr ())"

text \<open>\<open>es\<close> are the entries that count: those whose write succeeded. The others are remembered
  only so that they are not taken again.\<close>

definition log_inv :: "HealthQuorumLogEntry list \<Rightarrow> bytes list \<Rightarrow> nat \<Rightarrow> HealthQuorumLog \<Rightarrow> bool" where
  "log_inv es auths k l \<longleftrightarrow>
     authority_set l = auths \<and> log_majority_k l = max k 1 \<and> has_path l
     \<and> distinct (map entry_key (log_entries l))
     \<and> map_of (seen l) = map_of (map (\<lambda>x. (entry_key x, entry_payload x)) (log_entries l))
     \<and> distinct (map fst (pending l)) \<and> subseq es (log_entries l)
     \<and> (\<forall>epoch s. map fst (reports_of l epoch s)
          = (if (epoch, s) \<in> set (applied l) then [] else reporters_for es epoch s))
     \<and> (\<forall>epoch s. (epoch, s) \<in> set (applied l) \<longrightarrow> max k 1 \<le> length (reporters_for es epoch s))"

section \<open>The operations keep the invariant\<close>

lemma log_invD:
  assumes "log_inv es auths k l"
  shows "authority_set l = auths" "log_majority_k l = max k 1" "has_path l" "distinct (map entry_key (log_entries l))"
    "map_of (seen l) = map_of (map (\<lambda>x. (entry_key x, entry_payload x)) (log_entries l))" "distinct (map fst (pending l))"
    "subseq es (log_entries l)"
    "map fst (reports_of l epoch s) = (if (epoch, s) \<in> set (applied l) then [] else reporters_for es epoch s)"
    "(epoch, s) \<in> set (applied l) \<Longrightarrow> max k 1 \<le> length (reporters_for es epoch s)"
  using assms by (simp_all only: log_inv_def)

lemma log_invI:
  assumes "authority_set l = auths" "log_majority_k l = max k 1" "has_path l" "distinct (map entry_key (log_entries l))"
    "map_of (seen l) = map_of (map (\<lambda>x. (entry_key x, entry_payload x)) (log_entries l))" "distinct (map fst (pending l))"
    "subseq es (log_entries l)"
    "\<And>epoch s. map fst (reports_of l epoch s) = (if (epoch, s) \<in> set (applied l) then [] else reporters_for es epoch s)"
    "\<And>epoch s. (epoch, s) \<in> set (applied l) \<Longrightarrow> max k 1 \<le> length (reporters_for es epoch s)"
  shows "log_inv es auths k l"
  unfolding log_inv_def using assms by blast

lemma counted_subset: "log_inv es auths k l \<Longrightarrow> set es \<subseteq> set (log_entries l)"
  using log_invD(7)[of es auths k l] set_nths_subset by (fastforce simp: subseq_conv_nths)

lemma counted_distinct:
  assumes "log_inv es auths k l"
  shows "distinct (map entry_key es)"
proof -
  obtain N where "es = nths (log_entries l) N"
    using log_invD(7)[OF assms] by (auto simp: subseq_conv_nths)
  then have "map entry_key es = nths (map entry_key (log_entries l)) N" by (simp add: nths_map)
  then show ?thesis using distinct_nthsI[OF log_invD(4)[OF assms]] by simp
qed

lemma log_inv_medians [simp]: "log_inv es auths k (l\<lparr>applied_medians := m\<rparr>) = log_inv es auths k l"
  by (simp add: log_inv_def reports_of_def)

lemma seen_iff:
  assumes "log_inv es auths k l"
  shows "map_of (seen l) key = None \<longleftrightarrow> key \<notin> entry_key ` set (log_entries l)"
  unfolding log_invD(5)[OF assms] by (force simp: map_of_eq_None_iff)

lemma reporters_for_append:
  "reporters_for (es @ [x]) epoch s =
     reporters_for es epoch s @ (if ent_epoch x = epoch \<and> subject (ent_advert x) = s then [reporter (ent_advert x)] else [])"
  by (simp add: reporters_for_def)

lemma reporters_for_mem: "r \<in> set (reporters_for es epoch s) \<longleftrightarrow> (epoch, r, s) \<in> entry_key ` set es"
  by (auto simp: reporters_for_def entry_key_def image_iff)

lemma map_of_snoc_new:
  assumes "map_of m = map_of xs" "key \<notin> fst ` set xs"
  shows "map_of (AList.update key v m) = map_of (xs @ [(key, v)])"
proof
  fix j
  have "map_of xs key = None" using assms(2) by (simp add: map_of_eq_None_iff)
  then show "map_of (AList.update key v m) j = map_of (xs @ [(key, v)]) j"
    by (auto simp: update_conv' assms(1) map_add_def split: option.splits)
qed

definition add_seen :: "HealthQuorumLogEntry \<Rightarrow> HealthQuorumLog \<Rightarrow> HealthQuorumLog" where
  "add_seen x l = l\<lparr>seen := AList.update (entry_key x) (entry_payload x) (seen l), log_entries := log_entries l @ [x]\<rparr>"

definition add_report :: "HealthQuorumLogEntry \<Rightarrow> string \<Rightarrow> HealthQuorumLog \<Rightarrow> HealthQuorumLog" where
  "add_report x d l = l\<lparr>pending := AList.update (ent_epoch x, subject (ent_advert x))
     (AList.update (reporter (ent_advert x)) (fst (entry_payload x), snd (entry_payload x), d)
       (reports_of l (ent_epoch x) (subject (ent_advert x)))) (pending l)\<rparr>"

definition close_quorum :: "u64 \<times> bytes \<Rightarrow> HealthQuorumLog \<Rightarrow> HealthQuorumLog" where
  "close_quorum key l = l\<lparr>pending := AList.delete key (pending l), applied := hash_insert key (applied l)\<rparr>"

lemma add_seen_inv:
  assumes inv: "log_inv es auths k l" and "entry_key x \<notin> entry_key ` set (log_entries l)"
    and "(ent_epoch x, subject (ent_advert x)) \<in> set (applied l)"
  shows "log_inv (es @ [x]) auths k (add_seen x l)"
proof (rule log_invI)
  show "map_of (seen (add_seen x l)) = map_of (map (\<lambda>x. (entry_key x, entry_payload x)) (log_entries (add_seen x l)))"
    using map_of_snoc_new[OF log_invD(5)[OF inv], of "entry_key x"] assms(2) by (simp add: add_seen_def image_image)
  show "map fst (reports_of (add_seen x l) epoch s) = (if (epoch, s) \<in> set (applied (add_seen x l)) then []
      else reporters_for (es @ [x]) epoch s)" for epoch s
    using log_invD(8)[OF inv, of epoch s] assms(3) by (auto simp: add_seen_def reports_of_def reporters_for_append)
  show "max k 1 \<le> length (reporters_for (es @ [x]) epoch s)"
    if "(epoch, s) \<in> set (applied (add_seen x l))" for epoch s
    using log_invD(9)[OF inv, of epoch s] that by (auto simp: add_seen_def reporters_for_append)
qed (use log_invD(1-7)[OF inv] assms(2) in \<open>simp_all add: add_seen_def\<close>)

lemma reports_of_add:
  "map fst (reports_of (add_report x d l) epoch s) =
     (if epoch = ent_epoch x \<and> s = subject (ent_advert x)
      then map fst (AList.update (reporter (ent_advert x)) (fst (entry_payload x), snd (entry_payload x), d) (reports_of l epoch s))
      else map fst (reports_of l epoch s))"
  by (auto simp: add_report_def reports_of_def update_conv')

lemma add_report_inv:
  assumes inv: "log_inv es auths k l" and new: "entry_key x \<notin> entry_key ` set (log_entries l)"
    and "(ent_epoch x, subject (ent_advert x)) \<notin> set (applied l)"
  shows "log_inv (es @ [x]) auths k (add_report x d (add_seen x l))"
proof -
  let ?l = "add_report x d (add_seen x l)"
  have seen: "map_of (seen ?l) = map_of (map (\<lambda>x. (entry_key x, entry_payload x)) (log_entries ?l))"
    using map_of_snoc_new[OF log_invD(5)[OF inv], of "entry_key x"] new by (simp add: add_report_def add_seen_def image_image)
  have same: "reports_of (add_seen x l) epoch s = reports_of l epoch s" for epoch s by (simp add: add_seen_def reports_of_def)
  have "reporter (ent_advert x) \<notin> set (reporters_for es (ent_epoch x) (subject (ent_advert x)))"
    using new counted_subset[OF inv] by (auto simp: reporters_for_mem entry_key_def)
  then have "reporter (ent_advert x) \<notin> fst ` set (reports_of l (ent_epoch x) (subject (ent_advert x)))"
    using log_invD(8)[OF inv, of "ent_epoch x" "subject (ent_advert x)"] assms(3) by (metis list.set_map)
  then have reports: "map fst (reports_of ?l epoch s)
      = (if (epoch, s) \<in> set (applied ?l) then [] else reporters_for (es @ [x]) epoch s)" for epoch s
    unfolding reports_of_add same using log_invD(8)[OF inv, of epoch s] assms(3)
    by (auto simp: add_report_def add_seen_def reporters_for_append alist_update_new)
  show ?thesis
  proof (rule log_invI)
    show "max k 1 \<le> length (reporters_for (es @ [x]) epoch s)" if "(epoch, s) \<in> set (applied ?l)" for epoch s
      using log_invD(9)[OF inv, of epoch s] that by (auto simp: add_report_def add_seen_def reporters_for_append)
  qed (use log_invD(1-7)[OF inv] new seen reports in \<open>simp_all add: add_report_def add_seen_def distinct_update\<close>)
qed

text \<open>An entry whose write failed is remembered and counts for nothing.\<close>

lemma add_unstored_inv:
  assumes inv: "log_inv es auths k l" and "entry_key x \<notin> entry_key ` set (log_entries l)"
  shows "log_inv es auths k (add_seen x l)"
proof (rule log_invI)
  show "map_of (seen (add_seen x l)) = map_of (map (\<lambda>x. (entry_key x, entry_payload x)) (log_entries (add_seen x l)))"
    using map_of_snoc_new[OF log_invD(5)[OF inv], of "entry_key x"] assms(2) by (simp add: add_seen_def image_image)
  show "map fst (reports_of (add_seen x l) epoch s) = (if (epoch, s) \<in> set (applied (add_seen x l)) then []
      else reporters_for es epoch s)" for epoch s
    using log_invD(8)[OF inv, of epoch s] by (simp add: add_seen_def reports_of_def)
  show "max k 1 \<le> length (reporters_for es epoch s)" if "(epoch, s) \<in> set (applied (add_seen x l))" for epoch s
    using log_invD(9)[OF inv, of epoch s] that by (simp add: add_seen_def)
qed (use log_invD(1-7)[OF inv] assms(2) in \<open>simp_all add: add_seen_def subseq_rev_drop_many\<close>)

lemma close_quorum_inv:
  assumes inv: "log_inv es auths k l" and "max k 1 \<le> length (reports_of l epoch s)"
  shows "log_inv es auths k (close_quorum (epoch, s) l)"
proof -
  let ?l = "close_quorum (epoch, s) l"
  have reports: "reports_of ?l e u = (if (e, u) = (epoch, s) then [] else reports_of l e u)" for e u
    by (simp add: close_quorum_def reports_of_def delete_conv')
  have app: "set (applied ?l) = insert (epoch, s) (set (applied l))" by (auto simp: close_quorum_def hash_insert_def)
  have same: "log_entries ?l = log_entries l" "authority_set ?l = authority_set l" "log_majority_k ?l = log_majority_k l"
    "has_path ?l = has_path l" "seen ?l = seen l" "pending ?l = AList.delete (epoch, s) (pending l)"
    by (simp_all add: close_quorum_def)
  have "map fst (reports_of l epoch s) \<noteq> []" using assms(2) by auto
  then have here: "max k 1 \<le> length (reporters_for es epoch s)"
    using assms(2) log_invD(8)[OF inv, of epoch s] by (metis length_map)
  show ?thesis
  proof (rule log_invI)
    show "map fst (reports_of ?l e u) = (if (e, u) \<in> set (applied ?l) then [] else reporters_for es e u)" for e u
      using log_invD(8)[OF inv, of e u] by (simp only: reports app same) auto
    show "max k 1 \<le> length (reporters_for es e u)" if "(e, u) \<in> set (applied ?l)" for e u
      using log_invD(9)[OF inv, of e u] that here unfolding app same by blast
  qed (use log_invD(1-7)[OF inv] in \<open>simp_all add: same distinct_delete\<close>)
qed

section \<open>Live appends\<close>

definition appended :: "HealthQuorumLogEntry \<Rightarrow> HealthQuorumLog \<Rightarrow> HealthQuorumLog \<Rightarrow> bool" where
  "appended x l l' \<longleftrightarrow>
     (let key = (ent_epoch x, subject (ent_advert x)) in
      if key \<in> set (applied l) then l' = add_seen x l
      else \<exists>d. let m = add_report x d (add_seen x l) in
        l' = m \<or> (log_majority_k m \<le> length (reports_of m (fst key) (snd key)) \<and>
                  (\<exists>med. l' = (close_quorum key m)\<lparr>applied_medians := med\<rparr>)))"

lemma append_pending_shape:
  assumes step: "append_pending (add_seen \<lparr>ent_epoch = epoch, ent_advert = a\<rparr> l) epoch a t d = (out, l', t')"
  shows "appended \<lparr>ent_epoch = epoch, ent_advert = a\<rparr> l l'"
proof -
  let ?x = "\<lparr>ent_epoch = epoch, ent_advert = a\<rparr>" and ?l = "add_seen \<lparr>ent_epoch = epoch, ent_advert = a\<rparr> l"
  have app: "applied ?l = applied l" by (simp add: add_seen_def)
  show ?thesis
  proof (cases "(epoch, subject a) \<in> set (applied l)")
    case True
    then show ?thesis using step app by (simp add: append_pending_def appended_def)
  next
    case False
    define diver where "diver = (if trim d = [] then gossip_diversity_key None None (reporter a) else trim d)"
    let ?m = "add_report ?x diver ?l"
    define reps where "reps = AList.update (reporter a) (successes a, failures a, diver) (reports_of ?l epoch (subject a))"
    have m: "?l\<lparr>pending := AList.update (epoch, subject a) reps (pending ?l)\<rparr> = ?m"
      by (simp add: add_report_def entry_payload_def reps_def)
    have reps: "reports_of ?m epoch (subject a) = reps"
      by (simp add: add_report_def reports_of_def update_conv' entry_payload_def reps_def)
    have med: "(if b then u\<lparr>applied_medians := v\<rparr> else u) = u\<lparr>applied_medians := if b then v else applied_medians u\<rparr>"
      for b v and u :: HealthQuorumLog by simp
    have "l' = ?m \<or> (log_majority_k ?m \<le> length reps \<and>
          (\<exists>med. l' = (close_quorum (epoch, subject a) ?m)\<lparr>applied_medians := med\<rparr>))"
    proof (cases "length reps < log_majority_k ?m")
      case True
      then show ?thesis
        using step False app unfolding append_pending_def Let_def diver_def[symmetric] reps_def[symmetric] m by simp
    next
      case full: False
      obtain o2 t2 where o2: "apply_quorum_median t (subject a) (report_counts reps) (map (\<lambda>(_, _, _, d). d) reps) = (o2, t2)"
        by fastforce
      note st = step[unfolded append_pending_def Let_def diver_def[symmetric] reps_def[symmetric] m o2]
      have "\<exists>u. l' = ?m \<or> l' = close_quorum (epoch, subject a) (?m\<lparr>applied_medians := u\<rparr>)"
      proof (cases o2)
        case (GossipApplied n orgs)
        define u where "u = (case median_outcome_counts (report_counts reps) of
          Some med \<Rightarrow> AList.update (epoch, subject a) med (applied_medians ?m) | None \<Rightarrow> applied_medians ?m)"
        have "(case median_outcome_counts (report_counts reps) of
                  Some med \<Rightarrow> ?m\<lparr>applied_medians := AList.update (epoch, subject a) med (applied_medians ?m)\<rparr>
                | None \<Rightarrow> ?m) = ?m\<lparr>applied_medians := u\<rparr>" by (simp add: u_def split: option.split)
        then have "l' = close_quorum (epoch, subject a) (?m\<lparr>applied_medians := u\<rparr>)"
          using st False app full GossipApplied by (simp add: close_quorum_def)
        then show ?thesis by blast
      next
        case (GossipQuarantined n orgs)
        have "l' = close_quorum (epoch, subject a) (?m\<lparr>applied_medians := applied_medians ?m\<rparr>)"
          using st False app full GossipQuarantined by (simp add: close_quorum_def)
        then show ?thesis by blast
      next
        case (GossipBuffered n need)
        then show ?thesis using st False app full by simp
      next
        case (GossipWaitingDiversity n orgs need)
        then show ?thesis using st False app full by simp
      qed
      moreover have "close_quorum key (?m\<lparr>applied_medians := u\<rparr>) = (close_quorum key ?m)\<lparr>applied_medians := u\<rparr>" for key u
        by (simp add: close_quorum_def)
      ultimately show ?thesis using full by auto
    qed
    then show ?thesis using False reps by (auto simp: appended_def Let_def)
  qed
qed

lemma append_verified_shape:
  assumes inv: "log_inv es auths k l" and step: "append_verified S io l epoch a vk t d disk = (res, l', t', disk')"
  shows "(l' = l \<and> disk' = disk) \<or>
    (advert_verify S a vk = Inr () \<and> (auths = [] \<or> reporter a \<in> set auths)
     \<and> entry_key \<lparr>ent_epoch = epoch, ent_advert = a\<rparr> \<notin> entry_key ` set (log_entries l)
     \<and> (case io of
          None \<Rightarrow> disk' = disk @ record_bytes \<lparr>ent_epoch = epoch, ent_advert = a\<rparr>
            \<and> appended \<lparr>ent_epoch = epoch, ent_advert = a\<rparr> l l'
        | Some (err, n) \<Rightarrow> disk' = disk @ take n (record_bytes \<lparr>ent_epoch = epoch, ent_advert = a\<rparr>)
            \<and> l' = add_seen \<lparr>ent_epoch = epoch, ent_advert = a\<rparr> l))"
proof -
  let ?x = "\<lparr>ent_epoch = epoch, ent_advert = a\<rparr>"
  let ?key = "(epoch, reporter a, subject a)"
  show ?thesis
  proof (cases "advert_verify S a vk = Inr () \<and> (auths = [] \<or> reporter a \<in> set auths) \<and> map_of (seen l) ?key = None")
    case False
    then show ?thesis
      using step by (auto simp: append_verified_def log_invD(1)[OF inv] split: if_splits option.splits)
  next
    case True
    then have new: "entry_key ?x \<notin> entry_key ` set (log_entries l)"
      using seen_iff[OF inv] by (simp add: entry_key_def)
    have l: "l\<lparr>seen := AList.update ?key (successes a, failures a) (seen l), log_entries := log_entries l @ [?x]\<rparr> = add_seen ?x l"
      by (simp add: add_seen_def entry_key_def entry_payload_def)
    have path: "has_path (add_seen ?x l)" using log_invD(3)[OF inv] by (simp add: add_seen_def)
    show ?thesis
    proof (cases io)
      case None
      have persist: "persist_entry (add_seen ?x l) ?x io disk = (Inr (), disk @ record_bytes ?x)"
        using path None by (simp add: persist_entry_def)
      obtain out l2 t2 where o: "append_pending (add_seen ?x l) epoch a t d = (out, l2, t2)" by (metis prod_cases3)
      have "l' = l2 \<and> disk' = disk @ record_bytes ?x"
        using step True unfolding append_verified_def Let_def log_invD(1)[OF inv] l persist o by auto
      then show ?thesis using True new None append_pending_shape[OF o] by simp
    next
      case (Some f)
      obtain err n where f: "io = Some (err, n)" using Some by (cases f) simp
      have persist: "persist_entry (add_seen ?x l) ?x io disk = (Inl (LogIo err), disk @ take n (record_bytes ?x))"
        using path f by (simp add: persist_entry_def)
      have "l' = add_seen ?x l \<and> disk' = disk @ take n (record_bytes ?x)"
        using step True unfolding append_verified_def Let_def log_invD(1)[OF inv] l persist by auto
      then show ?thesis using True new f by simp
    qed
  qed
qed

lemma appended_inv:
  assumes inv: "log_inv es auths k l" and new: "entry_key x \<notin> entry_key ` set (log_entries l)" and app: "appended x l l'"
  shows "log_inv (es @ [x]) auths k l' \<and> log_entries l' = log_entries l @ [x]"
proof (cases "(ent_epoch x, subject (ent_advert x)) \<in> set (applied l)")
  case True
  then show ?thesis using app add_seen_inv[OF inv new] by (simp add: appended_def add_seen_def)
next
  case False
  then obtain d where d: "l' = add_report x d (add_seen x l) \<or>
      (log_majority_k (add_report x d (add_seen x l)) \<le> length (reports_of (add_report x d (add_seen x l)) (ent_epoch x) (subject (ent_advert x)))
       \<and> (\<exists>med. l' = (close_quorum (ent_epoch x, subject (ent_advert x)) (add_report x d (add_seen x l)))\<lparr>applied_medians := med\<rparr>))"
    using app by (auto simp: appended_def Let_def)
  have m: "log_inv (es @ [x]) auths k (add_report x d (add_seen x l))" by (rule add_report_inv[OF inv new False])
  have e: "log_entries (add_report x d (add_seen x l)) = log_entries l @ [x]"
    "log_entries (close_quorum key (add_report x d (add_seen x l))) = log_entries l @ [x]" for key
    by (simp_all add: add_report_def add_seen_def close_quorum_def)
  show ?thesis
    using d m e close_quorum_inv[OF m, of "ent_epoch x" "subject (ent_advert x)"] log_invD(2)[OF m] by auto
qed

section \<open>Replaying the file\<close>

lemma erase_timestamp_simps [simp]:
  "entry_key (erase_timestamp x) = entry_key x" "entry_payload (erase_timestamp x) = entry_payload x"
  "record_bytes (erase_timestamp x) = record_bytes x" "wf_advert (ent_advert (erase_timestamp x)) = wf_advert (ent_advert x)"
  "reporter (ent_advert (erase_timestamp x)) = reporter (ent_advert x)" "ent_epoch (erase_timestamp x) = ent_epoch x"
  "subject (ent_advert (erase_timestamp x)) = subject (ent_advert x)"
  by (simp_all add: erase_timestamp_def entry_key_def entry_payload_def record_bytes_def wf_advert_def)

lemma reporters_for_erase [simp]: "reporters_for (map erase_timestamp es) epoch s = reporters_for es epoch s"
  by (simp add: reporters_for_def filter_map comp_def)

lemma replay_entry_new:
  assumes inv: "log_inv es auths k l" and "applied l = []" "entry_key x \<notin> entry_key ` set (log_entries l)"
    and "auths = [] \<or> reporter (ent_advert x) \<in> set auths"
  shows "\<exists>d. replay_entry l x = Inr (add_report x d (add_seen x l))"
proof -
  have "map_of (seen l) (ent_epoch x, reporter (ent_advert x), subject (ent_advert x)) = None"
    using seen_iff[OF inv] assms(3) by (simp add: entry_key_def)
  then show ?thesis
    using assms(2,4) log_invD(1)[OF inv]
    by (auto simp: replay_entry_def Let_def add_report_def add_seen_def entry_key_def entry_payload_def reports_of_def)
qed

lemma replay_records_ok:
  assumes "log_inv cs auths k l" "applied l = []" "distinct (map entry_key (log_entries l @ es))"
    and "\<forall>x \<in> set es. wf_advert (ent_advert x) \<and> (auths = [] \<or> reporter (ent_advert x) \<in> set auths)"
    and "length rest < QUORUM_LOG_RECORD_LEN"
  shows "\<exists>l'. replay_records l (concat (map record_bytes es) @ rest) = Inr l'
    \<and> log_inv (cs @ map erase_timestamp es) auths k l' \<and> applied l' = []
    \<and> log_entries l' = log_entries l @ map erase_timestamp es"
  using assms(1-4)
proof (induction es arbitrary: l cs)
  case Nil
  then show ?case using assms(5) by (simp add: replay_records.simps)
next
  case (Cons x es)
  let ?x = "erase_timestamp x"
  have wf: "wf_advert (ent_advert x)" using Cons.prems(4) by simp
  have new: "entry_key ?x \<notin> entry_key ` set (log_entries l)" using Cons.prems(3) by auto
  obtain d where d: "replay_entry l ?x = Inr (add_report ?x d (add_seen ?x l))"
    using replay_entry_new[OF Cons.prems(1,2) new] Cons.prems(4) by auto
  let ?l = "add_report ?x d (add_seen ?x l)"
  have inv: "log_inv (cs @ [?x]) auths k ?l" by (rule add_report_inv[OF Cons.prems(1) new]) (simp add: Cons.prems(2))
  have l: "applied ?l = []" "log_entries ?l = log_entries l @ [?x]"
    using Cons.prems(2) by (simp_all add: add_report_def add_seen_def)
  have step: "replay_records l (concat (map record_bytes (x # es)) @ rest)
      = replay_records ?l (concat (map record_bytes es) @ rest)"
    by (subst replay_records.simps) (simp add: length_record[OF wf] from_to_record[OF wf] d)
  show ?case
    using Cons.IH[OF inv l(1)] Cons.prems(3,4) unfolding step l(2) by (auto simp: image_Un)
qed

lemma finalize_loop_ok:
  assumes "log_inv es auths k l" "distinct ready" "\<forall>(epoch, s) \<in> set ready. max k 1 \<le> length (reports_of l epoch s)"
  shows "log_inv es auths k (finalize_loop ready l) \<and> set (applied (finalize_loop ready l)) = set ready \<union> set (applied l)
    \<and> log_entries (finalize_loop ready l) = log_entries l"
  using assms
proof (induction ready arbitrary: l)
  case (Cons key ready)
  obtain epoch s where key: "key = (epoch, s)" by fastforce
  obtain u where u: "finalize_loop (key # ready) l = finalize_loop ready (close_quorum key (l\<lparr>applied_medians := u\<rparr>))"
  proof -
    have "\<exists>u. (case map_of (pending l) (epoch, s) of None \<Rightarrow> l
        | Some m \<Rightarrow> (case median_outcome_counts (report_counts m) of None \<Rightarrow> l
             | Some med \<Rightarrow> l\<lparr>applied_medians := AList.update (epoch, s) med (applied_medians l)\<rparr>))
        = l\<lparr>applied_medians := u\<rparr>"
      by (rule exI[of _ "case map_of (pending l) (epoch, s) of None \<Rightarrow> applied_medians l
        | Some m \<Rightarrow> (case median_outcome_counts (report_counts m) of None \<Rightarrow> applied_medians l
             | Some med \<Rightarrow> AList.update (epoch, s) med (applied_medians l))"]) (simp split: option.split)
    then obtain u where u: "(case map_of (pending l) (epoch, s) of None \<Rightarrow> l
        | Some m \<Rightarrow> (case median_outcome_counts (report_counts m) of None \<Rightarrow> l
             | Some med \<Rightarrow> l\<lparr>applied_medians := AList.update (epoch, s) med (applied_medians l)\<rparr>))
        = l\<lparr>applied_medians := u\<rparr>" ..
    have "finalize_loop (key # ready) l = finalize_loop ready (close_quorum key (l\<lparr>applied_medians := u\<rparr>))"
      unfolding key finalize_loop.simps u Let_def by (cases l) (simp add: close_quorum_def)
    then show ?thesis by (rule that)
  qed
  let ?l = "close_quorum key (l\<lparr>applied_medians := u\<rparr>)"
  have reports: "reports_of (l\<lparr>applied_medians := u\<rparr>) e t = reports_of l e t" for e t by (simp add: reports_of_def)
  have inv: "log_inv es auths k ?l"
    unfolding key
  proof (rule close_quorum_inv)
    show "log_inv es auths k (l\<lparr>applied_medians := u\<rparr>)" using Cons.prems(1) by simp
    show "max k 1 \<le> length (reports_of (l\<lparr>applied_medians := u\<rparr>) epoch s)"
      unfolding reports using Cons.prems(3) key by simp
  qed
  have other: "reports_of ?l e t = reports_of l e t" if "(e, t) \<noteq> key" for e t
    using that by (auto simp: close_quorum_def reports_of_def delete_conv')
  have ready: "\<forall>(epoch, s) \<in> set ready. max k 1 \<le> length (reports_of ?l epoch s)"
  proof (intro ballI, split prod.split, intro allI impI)
    fix x e t assume x: "x \<in> set ready" "x = (e, t)"
    then have "(e, t) \<noteq> key" using Cons.prems(2) by auto
    moreover have "max k 1 \<le> length (reports_of l e t)" using bspec[OF Cons.prems(3), of "(e, t)"] x by simp
    ultimately show "max k 1 \<le> length (reports_of ?l e t)" by (subst other)
  qed
  show ?case
  proof -
    have app: "set (applied ?l) = insert key (set (applied l))" "log_entries ?l = log_entries l"
      by (auto simp: close_quorum_def hash_insert_def)
    show ?thesis using Cons.IH[OF inv _ ready] Cons.prems(2) unfolding u app by simp
  qed
qed simp

lemma ready_iff:
  assumes inv: "log_inv es auths k l"
  shows "key \<in> set (map fst (filter (\<lambda>(key, m). log_majority_k l \<le> length m) (pending l)))
    \<longleftrightarrow> max k 1 \<le> length (reports_of l (fst key) (snd key))"
proof -
  have "key \<in> set (map fst (filter (\<lambda>(key, m). log_majority_k l \<le> length m) (pending l)))
      \<longleftrightarrow> (\<exists>m. map_of (pending l) key = Some m \<and> max k 1 \<le> length m)"
    using log_invD(2,6)[OF inv] by (force simp: map_of_eq_Some_iff)
  also have "\<dots> \<longleftrightarrow> max k 1 \<le> length (reports_of l (fst key) (snd key))"
    by (cases "map_of (pending l) key") (simp_all add: reports_of_def)
  finally show ?thesis .
qed

lemma load_ok:
  assumes "distinct (map entry_key es)"
    and "\<forall>x \<in> set es. wf_advert (ent_advert x) \<and> (auths = [] \<or> reporter (ent_advert x) \<in> set auths)"
    and "length rest < QUORUM_LOG_RECORD_LEN"
  shows "\<exists>l'. load_or_create (Some (Inr (concat (map record_bytes es) @ rest))) k auths = Inr l'
    \<and> log_inv (map erase_timestamp es) auths k l'
    \<and> log_entries l' = map erase_timestamp es \<and> set (applied l') = {(epoch, s). max k 1 \<le> length (reporters_for es epoch s)}"
proof -
  let ?l0 = "with_persist_path (log_new k auths)"
  have l0: "log_inv [] auths k ?l0" "applied ?l0 = []" "log_entries ?l0 = []"
    by (auto simp: log_inv_def with_persist_path_def log_new_def reports_of_def reporters_for_def)
  obtain l where l: "replay_records ?l0 (concat (map record_bytes es) @ rest) = Inr l"
    "log_inv (map erase_timestamp es) auths k l" "applied l = []" "log_entries l = map erase_timestamp es"
    using replay_records_ok[OF l0(1,2), of es rest] l0(3) assms by auto
  let ?ready = "map fst (filter (\<lambda>(key, m). log_majority_k l \<le> length m) (pending l))"
  have dist: "distinct ?ready" using log_invD(6)[OF l(2)] by (rule distinct_map_filter)
  have "\<forall>(epoch, s) \<in> set ?ready. max k 1 \<le> length (reports_of l epoch s)" using ready_iff[OF l(2)] by fastforce
  note fin = finalize_loop_ok[OF l(2) dist this]
  have "map fst (reports_of l epoch s) = reporters_for es epoch s" for epoch s
    using log_invD(8)[OF l(2), of epoch s] l(3) by simp
  then have len: "length (reports_of l epoch s) = length (reporters_for es epoch s)" for epoch s by (metis length_map)
  have "set ?ready = {(epoch, s). max k 1 \<le> length (reporters_for es epoch s)}"
    using ready_iff[OF l(2)] len by (auto simp del: set_map)
  then show ?thesis
    using fin l by (simp add: load_or_create_def Let_def replay_from_disk_def finalize_replayed_quorums_def)
qed

section \<open>Quorums over reachable logs\<close>

lemma accept_advert_append:
  assumes "accept_advert_quorum S io a link_peer peer_table now max_age epoch_secs t (Some l) disk = (res, t', Some l', disk')"
  shows "(l' = l \<and> disk' = disk) \<or> (\<exists>peer vk d res2. map_of peer_table (reporter a) = Some peer
    \<and> Option.bind (gossip_verifying_key peer) (ed_from_bytes S) = Some vk
    \<and> append_verified S io l (advert_epoch (timestamp_secs a) epoch_secs) a vk t d disk = (res2, l', t', disk'))"
  using assms
  by (fastforce simp: accept_advert_quorum_def Let_def split: if_splits option.splits prod.splits sum.splits)

lemma length_records:
  "\<forall>x \<in> set es. wf_advert (ent_advert x) \<Longrightarrow> length (concat (map record_bytes es)) = QUORUM_LOG_RECORD_LEN * length es"
  by (induction es) (simp_all add: length_record)

text \<open>What the flag of \<open>log_reach\<close> is about.\<close>

definition file_holds :: "HealthQuorumLogEntry list \<Rightarrow> bytes \<Rightarrow> bool" where
  "file_holds es disk \<longleftrightarrow> (\<exists>rest. disk = concat (map record_bytes es) @ rest \<and> length rest < QUORUM_LOG_RECORD_LEN)"

lemma file_holds_append:
  assumes "file_holds es disk" "keeps_records io disk disk'" "disk' \<noteq> disk"
    and "\<forall>x \<in> set es. wf_advert (ent_advert x)"
    and "case io of None \<Rightarrow> disk' = disk @ record_bytes x | Some (err, n) \<Rightarrow> disk' = disk @ take n (record_bytes x)"
  shows "case io of None \<Rightarrow> file_holds (es @ [x]) disk' | Some _ \<Rightarrow> file_holds es disk'"
proof -
  obtain rest where rest: "disk = concat (map record_bytes es) @ rest" "length rest < QUORUM_LOG_RECORD_LEN"
    using assms(1) by (auto simp: file_holds_def)
  have dvd: "QUORUM_LOG_RECORD_LEN dvd length disk"
    and n: "\<forall>err n. io = Some (err, n) \<longrightarrow> n < QUORUM_LOG_RECORD_LEN"
    using assms(2,3) by (auto simp: keeps_records_def)
  have "QUORUM_LOG_RECORD_LEN dvd length rest"
    using dvd rest(1) length_records[OF assms(4)] by (simp add: dvd_add_right_iff)
  then have "rest = []" using rest(2) by (auto dest: dvd_imp_le)
  then show ?thesis
    using rest(1) n assms(5) by (auto simp: file_holds_def QUORUM_LOG_RECORD_LEN_def split: option.splits)
qed

lemma reach_inv:
  assumes "log_reach S peer_table k auths epoch_secs w l disk"
  shows "\<exists>es. log_inv es auths k l \<and> (w \<longrightarrow> file_holds es disk)
    \<and> (\<forall>x \<in> set (log_entries l). wf_advert (ent_advert x) \<and> vouched S peer_table auths epoch_secs x)"
  using assms
proof (induction rule: log_reach.induct)
  case (log_start l)
  then have "log_inv [] auths k l \<and> file_holds [] [] \<and> log_entries l = []"
    by (auto simp: load_or_create_def log_inv_def with_persist_path_def log_new_def reports_of_def reporters_for_def
        file_holds_def QUORUM_LOG_RECORD_LEN_def)
  then show ?case by auto
next
  case (log_advert w l disk a io link_peer now max_age t res t' l' disk')
  obtain es where es: "log_inv es auths k l" "w \<longrightarrow> file_holds es disk"
    "\<forall>x \<in> set (log_entries l). wf_advert (ent_advert x) \<and> vouched S peer_table auths epoch_secs x"
    using log_advert.IH by blast
  let ?epoch = "advert_epoch (timestamp_secs a) epoch_secs"
  let ?x = "\<lparr>ent_epoch = ?epoch, ent_advert = a\<rparr>"
  show ?case
  proof (cases "l' = l \<and> disk' = disk")
    case True
    then show ?thesis using es by blast
  next
    case False
    obtain peer vk d res2 where peer: "map_of peer_table (reporter a) = Some peer"
      "Option.bind (gossip_verifying_key peer) (ed_from_bytes S) = Some vk"
      and step: "append_verified S io l ?epoch a vk t d disk = (res2, l', t', disk')"
      using accept_advert_append[OF log_advert.hyps(3)] False by blast
    from append_verified_shape[OF es(1) step] False
    have new: "advert_verify S a vk = Inr ()" "auths = [] \<or> reporter a \<in> set auths"
      "entry_key ?x \<notin> entry_key ` set (log_entries l)"
      and shape: "case io of None \<Rightarrow> disk' = disk @ record_bytes ?x \<and> appended ?x l l'
        | Some (err, n) \<Rightarrow> disk' = disk @ take n (record_bytes ?x) \<and> l' = add_seen ?x l"
      by blast+
    have "a\<lparr>timestamp_secs := timestamp_secs a\<rparr> = a" by simp
    then have x: "vouched S peer_table auths epoch_secs ?x"
      using new(1,2) peer by (auto simp: vouched_def intro!: exI[of _ "timestamp_secs a"])
    have disk: "case io of None \<Rightarrow> disk' = disk @ record_bytes ?x | Some (err, n) \<Rightarrow> disk' = disk @ take n (record_bytes ?x)"
      using shape by (auto split: option.splits)
    have wf: "\<forall>x \<in> set es. wf_advert (ent_advert x)" using counted_subset[OF es(1)] es(3) by blast
    note keep = file_holds_append[OF _ _ _ wf disk]
    show ?thesis
    proof (cases io)
      case None
      then have l': "log_inv (es @ [?x]) auths k l'" "log_entries l' = log_entries l @ [?x]"
        using shape appended_inv[OF es(1) new(3)] by auto
      have "disk' \<noteq> disk" using disk None length_record[of ?x] log_advert.hyps(2)
        by (auto simp: QUORUM_LOG_RECORD_LEN_def)
      then have "w \<and> keeps_records io disk disk' \<longrightarrow> file_holds (es @ [?x]) disk'" using keep es(2) None by auto
      then show ?thesis using l' es(3) x log_advert.hyps(2) by auto
    next
      case (Some f)
      then have l': "l' = add_seen ?x l" using shape by (auto split: prod.splits)
      have "w \<and> keeps_records io disk disk' \<longrightarrow> file_holds es disk'"
        using keep es(2) Some by (cases "disk' = disk") auto
      moreover have "log_entries l' = log_entries l @ [?x]" by (simp add: l' add_seen_def)
      ultimately show ?thesis using add_unstored_inv[OF es(1) new(3)] es(3) x log_advert.hyps(2) by (auto simp: l')
    qed
  qed
next
  case (log_restart l disk l')
  obtain es rest where es: "log_inv es auths k l"
    "\<forall>x \<in> set (log_entries l). wf_advert (ent_advert x) \<and> vouched S peer_table auths epoch_secs x"
    and rest: "disk = concat (map record_bytes es) @ rest" "length rest < QUORUM_LOG_RECORD_LEN"
    using log_restart.IH by (auto simp: file_holds_def)
  have wf: "\<forall>x \<in> set es. wf_advert (ent_advert x) \<and> (auths = [] \<or> reporter (ent_advert x) \<in> set auths)"
    using counted_subset[OF es(1)] es(2) by (auto simp: vouched_def)
  from load_ok[OF counted_distinct[OF es(1)] wf rest(2), of k] log_restart.hyps(2) rest(1)
  have l': "log_inv (map erase_timestamp es) auths k l'" "log_entries l' = map erase_timestamp es" by auto
  have "(ent_advert (erase_timestamp x))\<lparr>timestamp_secs := ts\<rparr> = (ent_advert x)\<lparr>timestamp_secs := ts\<rparr>" for x ts
    by (simp add: erase_timestamp_def)
  then have "vouched S peer_table auths epoch_secs (erase_timestamp x)" if "vouched S peer_table auths epoch_secs x" for x
    using that unfolding vouched_def erase_timestamp_simps by simp
  then have "\<forall>x \<in> set (log_entries l'). wf_advert (ent_advert x) \<and> vouched S peer_table auths epoch_secs x"
    using counted_subset[OF es(1)] es(2) by (auto simp: l'(2))
  moreover have "file_holds (map erase_timestamp es) disk" using rest by (auto simp: file_holds_def comp_def)
  ultimately show ?case using l'(1) by blast
qed

text \<open>C20. A quorum is real: in every log that a relay can reach from an empty start under one K and one authority
  set - any adverts in any order, writes that fail at any byte, and restarts from a file of whole records of
  successful writes with at most one torn record at the end (so not after a write that was reported as failed
  behind its last byte, nor after one behind a torn record) - an (epoch, subject) that counts as applied has at least K distinct reporters, each from
  the authority set (when one is configured) and each with an observation of that subject in that epoch whose
  signature verified under the key the peer table holds for it; and the log never holds two
  observations of the same reporter for the same epoch and subject.\<close>

theorem quorum_is_real:
  assumes "log_reach S peer_table k auths epoch_secs w l disk" "epoch_subject_applied l epoch s"
  shows "distinct (map entry_key (log_entries l))
    \<and> (\<exists>R. max k 1 \<le> card R \<and> finite R
         \<and> (\<forall>r \<in> R. \<exists>x \<in> set (log_entries l). ent_epoch x = epoch \<and> reporter (ent_advert x) = r \<and> subject (ent_advert x) = s
              \<and> vouched S peer_table auths epoch_secs x))"
proof -
  obtain es where es: "log_inv es auths k l" "\<forall>x \<in> set (log_entries l). vouched S peer_table auths epoch_secs x"
    using reach_inv[OF assms(1)] by blast
  let ?rs = "reporters_for es epoch s"
  have "max k 1 \<le> length ?rs"
    using log_invD(9)[OF es(1)] assms(2) by (simp add: epoch_subject_applied_def)
  moreover have "distinct ?rs"
    using counted_distinct[OF es(1)] unfolding reporters_for_def distinct_map
    by (auto simp: entry_key_def inj_on_def)
  ultimately have "max k 1 \<le> card (set ?rs)" by (simp add: distinct_card)
  moreover have "\<forall>r \<in> set ?rs. \<exists>x \<in> set (log_entries l). ent_epoch x = epoch \<and> reporter (ent_advert x) = r
      \<and> subject (ent_advert x) = s \<and> vouched S peer_table auths epoch_secs x"
    using es(2) counted_subset[OF es(1)] by (auto simp: reporters_for_def)
  ultimately show ?thesis using log_invD(4)[OF es(1)] by blast
qed

text \<open>C21. A restart loses no decision but makes new ones: as long as the file is torn at most in its last record
  (no record was written behind a torn one, and no write failed after its last byte), replaying it under
  the same K and authority set succeeds and gives back exactly the entries whose write succeeded, in order
  and without their timestamps, dropping a torn record at the end; the applied pairs are the ones applied
  before plus exactly the pairs that had K reports and were still waiting for a second organisation.\<close>

theorem restart_applies_waiting:
  assumes "log_reach S peer_table k auths epoch_secs True l disk"
  shows "\<exists>l' es rest. load_or_create (Some (Inr disk)) k auths = Inr l'
    \<and> disk = concat (map record_bytes es) @ rest \<and> length rest < QUORUM_LOG_RECORD_LEN
    \<and> subseq es (log_entries l) \<and> log_entries l' = map erase_timestamp es
    \<and> set (applied l') = set (applied l) \<union> {(epoch, s). log_majority_k l \<le> length (reports_of l epoch s)}"
proof -
  obtain es rest where es: "log_inv es auths k l"
    "\<forall>x \<in> set (log_entries l). wf_advert (ent_advert x) \<and> vouched S peer_table auths epoch_secs x"
    and rest: "disk = concat (map record_bytes es) @ rest" "length rest < QUORUM_LOG_RECORD_LEN"
    using reach_inv[OF assms] by (auto simp: file_holds_def)
  have "\<forall>x \<in> set es. wf_advert (ent_advert x) \<and> (auths = [] \<or> reporter (ent_advert x) \<in> set auths)"
    using counted_subset[OF es(1)] es(2) by (auto simp: vouched_def)
  from load_ok[OF counted_distinct[OF es(1)] this rest(2), of k]
  obtain l' where l': "load_or_create (Some (Inr disk)) k auths = Inr l'" "log_entries l' = map erase_timestamp es"
    "set (applied l') = {(epoch, s). max k 1 \<le> length (reporters_for es epoch s)}"
    unfolding rest(1) by blast
  have "length (reports_of l epoch s) = (if (epoch, s) \<in> set (applied l) then 0 else length (reporters_for es epoch s))" for epoch s
    using arg_cong[OF log_invD(8)[OF es(1), of epoch s], of length] by (simp split: if_splits)
  then have "max k 1 \<le> length (reporters_for es epoch s)
      \<longleftrightarrow> (epoch, s) \<in> set (applied l) \<or> log_majority_k l \<le> length (reports_of l epoch s)" for epoch s
    using log_invD(9)[OF es(1), of epoch s] log_invD(2)[OF es(1)] by auto
  then have "set (applied l') = set (applied l) \<union> {(epoch, s). log_majority_k l \<le> length (reports_of l epoch s)}"
    unfolding l'(3) by auto
  then show ?thesis using l' rest log_invD(7)[OF es(1)] by blast
qed

section \<open>A log that waits for a second organisation\<close>

definition example_table :: "(bytes \<times> PeerInfo) list" where
  "example_table = [(replicate 32 5, \<lparr>peer_addr = '''', link_key_bytes = [], peer_kem_commitment = None,
     gossip_verifying_key = Some (replicate 32 5), noise_static_public = None, org_id = Some ''a'', peer_jurisdiction = None\<rparr>)]"

lemma example_fields: "reporter (example_advert r) = replicate 32 r" "subject (example_advert r) = replicate 32 9"
  "timestamp_secs (example_advert r) = 7200"
  by (simp_all add: example_advert_def advert_sign_def Let_def)

lemma example_verifies: "advert_verify toy_sig (example_advert r) r = Inr ()"
proof -
  have "signable_bytes (example_advert r) = signable_bytes (example_advert r\<lparr>adv_signature := replicate ADVERT_SIG_LEN 0\<rparr>)"
    by (simp add: signable_bytes_def Let_def)
  then show ?thesis
    using sig_lawsD(3)[OF toy_sig_laws, of r]
    by (simp add: advert_verify_def example_advert_def advert_sign_def Let_def signable_bytes_def toy_sig_def)
qed

lemma example_waiting:
  "\<exists>l disk. log_reach toy_sig example_table 1 [] 3600 True l disk \<and> applied l = []
     \<and> log_majority_k l \<le> length (reports_of l 2 (replicate 32 9))"
proof -
  let ?l = "with_persist_path (log_new 1 [])" and ?a = "example_advert 5"
  let ?x = "\<lparr>ent_epoch = 2, ent_advert = ?a\<rparr>"
  have start: "log_reach toy_sig example_table 1 [] 3600 True ?l []" by (rule log_start) (simp add: load_or_create_def)
  have orgs: "min_orgs (ph_policy tracker_new) = 2"
    by (simp add: tracker_new_def tracker_with_policy_def sanitize_def stacked_def DEFAULT_GOSSIP_MIN_ORGS_def Let_def)
  let ?l' = "add_report ?x ''org:a'' (add_seen ?x ?l)"
  have "apply_quorum_median tracker_new s obs [d] = (GossipWaitingDiversity (length obs) 1 2, tracker_new)" for s obs d
    by (simp add: apply_quorum_median_def orgs distinct_diversity_count_def)
  moreover have "ed_from_bytes toy_sig (replicate 32 5) = Some 5" by (simp add: toy_sig_def)
  ultimately have "accept_advert_quorum toy_sig None ?a (replicate 32 5) example_table 7200 3600 3600 tracker_new (Some ?l) []
      = (Inr (GossipWaitingDiversity 1 1 2), tracker_new, Some ?l', record_bytes ?x)"
    by (simp add: accept_advert_quorum_def example_fields example_table_def timestamp_ok_def advert_epoch_def append_verified_def
        example_verifies with_persist_path_def log_new_def persist_entry_def append_pending_def gossip_diversity_key_def
        trim_def is_whitespace_def reports_of_def report_counts_def add_report_def add_seen_def entry_key_def entry_payload_def Let_def)
  from log_advert[OF start wf_example_advert this] have "log_reach toy_sig example_table 1 [] 3600 True ?l' (record_bytes ?x)"
    by (simp add: keeps_records_def)
  moreover have "applied ?l' = []" "log_majority_k ?l' \<le> length (reports_of ?l' 2 (replicate 32 9))"
    by (simp_all add: add_report_def add_seen_def with_persist_path_def log_new_def reports_of_def update_conv' example_fields)
  ultimately show ?thesis by blast
qed

theorem restart_applies_waiting_witness:
  "\<exists>l disk l'. log_reach toy_sig example_table 1 [] 3600 True l disk \<and> load_or_create (Some (Inr disk)) 1 [] = Inr l'
     \<and> \<not> epoch_subject_applied l 2 (replicate 32 9) \<and> epoch_subject_applied l' 2 (replicate 32 9)"
proof -
  obtain l disk where l: "log_reach toy_sig example_table 1 [] 3600 True l disk" "applied l = []"
    "log_majority_k l \<le> length (reports_of l 2 (replicate 32 9))" using example_waiting by blast
  from restart_applies_waiting[OF l(1)] l(2) obtain l' where l': "load_or_create (Some (Inr disk)) 1 [] = Inr l'"
    "set (applied l') = {(epoch, s). log_majority_k l \<le> length (reports_of l epoch s)}" by auto
  have "(2, replicate 32 9) \<in> set (applied l')" unfolding l'(2) using l(3) by simp
  then show ?thesis using l(1,2) l'(1) by (intro exI[of _ l] exI[of _ disk] exI[of _ l']) (simp add: epoch_subject_applied_def)
qed

lemma example_applied: "\<exists>l disk. log_reach toy_sig example_table 1 [] 3600 True l disk \<and> epoch_subject_applied l 2 (replicate 32 9)"
proof -
  obtain l disk where l: "log_reach toy_sig example_table 1 [] 3600 True l disk" "applied l = []"
    "log_majority_k l \<le> length (reports_of l 2 (replicate 32 9))" using example_waiting by blast
  obtain es rest where inv: "log_inv es [] 1 l" "\<forall>x \<in> set (log_entries l). wf_advert (ent_advert x)"
    and rest: "disk = concat (map record_bytes es) @ rest" "length rest < QUORUM_LOG_RECORD_LEN"
    using reach_inv[OF l(1)] by (auto simp: file_holds_def)
  then have wf: "\<forall>x \<in> set es. wf_advert (ent_advert x)" using counted_subset by blast
  obtain l' where l': "load_or_create (Some (Inr disk)) 1 [] = Inr l'"
    "set (applied l') = {(epoch, s). max 1 1 \<le> length (reporters_for es epoch s)}"
    using load_ok[OF counted_distinct[OF inv(1)] _ rest(2), of "[]" 1] wf rest(1) by auto
  have "length (reports_of l 2 (replicate 32 9)) = length (reporters_for es 2 (replicate 32 9))"
    using log_invD(8)[OF inv(1), of 2 "replicate 32 9"] l(2) by (metis empty_iff empty_set length_map)
  then have "epoch_subject_applied l' 2 (replicate 32 9)"
    using l'(2) l(3) log_invD(2)[OF inv(1)] by (simp add: epoch_subject_applied_def)
  then show ?thesis using log_restart[OF l(1) l'(1)] by blast
qed

theorem quorum_is_real_witness:
  "\<exists>l R. epoch_subject_applied l 2 (replicate 32 9) \<and> 1 \<le> card R
     \<and> (\<forall>r \<in> R. \<exists>x \<in> set (log_entries l). reporter (ent_advert x) = r \<and> vouched toy_sig example_table [] 3600 x)"
proof -
  obtain l disk where l: "log_reach toy_sig example_table 1 [] 3600 True l disk" "epoch_subject_applied l 2 (replicate 32 9)"
    using example_applied by blast
  from quorum_is_real[OF l] l(2) show ?thesis by fastforce
qed

text \<open>
  A failed write is not retried: the entry is remembered before it is stored, so the same advert is a duplicate
  from then on, although the file does not have it.
\<close>

lemma failed_write_is_forgotten:
  assumes "log_inv es auths k l" "auths = [] \<or> reporter a \<in> set auths" "advert_verify S a vk = Inr ()"
    and "map_of (seen l) (epoch, reporter a, subject a) = None"
    and "append_verified S (Some (err, 0)) l epoch a vk t d disk = (res, l', t', disk')"
  shows "res = Inl (LogIo err) \<and> disk' = disk \<and> append_verified S None l' epoch a vk t d disk' = (Inr LogDuplicate, l', t, disk)"
  using assms log_invD(1,3)[OF assms(1)]
  by (auto simp: append_verified_def persist_entry_def update_conv' Let_def)

end
