(* ===== verification/Negotiator.thy ===== *)
theory Negotiator
  imports Kem Float64 Assoc_Lists
begin

text \<open>
  The crate \<^verbatim>\<open>crates/aegis-negotiator\<close>: the security dial of a bulk transfer, the number of
  cover flows a round needs, the size ceiling and the chunks of a file above it, the rotating
  rendezvous identifiers and the batch scheduler.
\<close>

section \<open>The dial\<close>

definition L2_BASELINE_CONCURRENCY :: nat where "L2_BASELINE_CONCURRENCY = 40"

datatype SecurityDial = L0Raw | L1Bucketed | L2UniformBatched

datatype ThreatLevel = RelationshipExposureOk | PartialHidingRequired | FullHidingRequired

fun dial_cost :: "SecurityDial \<Rightarrow> nat" where
  "dial_cost L0Raw = 0"
| "dial_cost L1Bucketed = 1"
| "dial_cost L2UniformBatched = 2"

definition dial_hides_relationship :: "SecurityDial \<Rightarrow> bool" where
  "dial_hides_relationship dial \<longleftrightarrow> dial = L2UniformBatched"

definition dial_requires_relay_cover :: "SecurityDial \<Rightarrow> bool" where
  "dial_requires_relay_cover dial \<longleftrightarrow> dial = L2UniformBatched"

fun select_dial :: "ThreatLevel \<Rightarrow> nat \<Rightarrow> SecurityDial" where
  "select_dial RelationshipExposureOk concurrency = L0Raw"
| "select_dial PartialHidingRequired concurrency = L1Bucketed"
| "select_dial FullHidingRequired concurrency = L2UniformBatched"

text \<open>\<open>#[derive(PartialOrd, Ord)]\<close>: the order of the dials is the order of their costs.\<close>

instantiation SecurityDial :: linorder
begin

definition less_eq_SecurityDial :: "SecurityDial \<Rightarrow> SecurityDial \<Rightarrow> bool" where
  "less_eq_SecurityDial a b \<longleftrightarrow> dial_cost a \<le> dial_cost b"

definition less_SecurityDial :: "SecurityDial \<Rightarrow> SecurityDial \<Rightarrow> bool" where
  "less_SecurityDial a b \<longleftrightarrow> dial_cost a < dial_cost b"

instance
proof
  fix a b :: SecurityDial
  show "a \<le> b \<Longrightarrow> b \<le> a \<Longrightarrow> a = b"
    unfolding less_eq_SecurityDial_def by (cases a; cases b) simp_all
qed (auto simp: less_eq_SecurityDial_def less_SecurityDial_def)

end

text \<open>What a dial offers against a threat; the selected dial is the cheapest that does.\<close>

fun dial_meets :: "ThreatLevel \<Rightarrow> SecurityDial \<Rightarrow> bool" where
  "dial_meets RelationshipExposureOk d = True"
| "dial_meets PartialHidingRequired d = (L1Bucketed \<le> d)"
| "dial_meets FullHidingRequired d = dial_hides_relationship d"

lemma select_dial_cheapest:
  "dial_meets threat (select_dial threat n) \<and> (dial_meets threat d \<longrightarrow> select_dial threat n \<le> d)"
  by (cases threat; cases d) (simp_all add: less_eq_SecurityDial_def dial_hides_relationship_def)

section \<open>Cover flows\<close>

record CoverRequirement =
  target_flow_count :: u32

definition cover_requirement_new :: "u32 \<Rightarrow> CoverRequirement" where
  "cover_requirement_new target = \<lparr>target_flow_count = target\<rparr>"

definition sat_sub32 :: "u32 \<Rightarrow> u32 \<Rightarrow> u32" where
  "sat_sub32 a b = (if b \<le> a then a - b else 0)"

text \<open>\<open>real_participants as u32\<close> keeps the low 32 bits.\<close>

definition required_cover_flow_count :: "nat \<Rightarrow> u32 \<Rightarrow> u32" where
  "required_cover_flow_count real_participants target = sat_sub32 target (of_nat real_participants)"

definition cover_flows_needed :: "CoverRequirement \<Rightarrow> nat \<Rightarrow> u32" where
  "cover_flows_needed r real_participants = required_cover_flow_count real_participants (target_flow_count r)"

definition l2_cover_requirement :: "u32 \<Rightarrow> CoverRequirement" where
  "l2_cover_requirement target = cover_requirement_new target"

definition dial_needs_cover_plan :: "SecurityDial \<Rightarrow> nat \<Rightarrow> u32 \<Rightarrow> bool" where
  "dial_needs_cover_plan dial real_participants target \<longleftrightarrow>
     dial = L2UniformBatched \<and> 0 < required_cover_flow_count real_participants target"

lemma unat_sat_sub32: "unat (sat_sub32 a b) = unat a - unat b"
  by (simp add: sat_sub32_def unat_sub word_le_nat_alt)

lemma required_cover_count:
  "unat (required_cover_flow_count n target) = unat target - n mod 2 ^ 32"
  by (simp add: required_cover_flow_count_def unat_sat_sub32 unat_of_nat)

section \<open>The ceiling\<close>

definition DEFAULT_C_FLOWS :: u32 where "DEFAULT_C_FLOWS = 8"
definition DEFAULT_AVG_REAL :: u32 where "DEFAULT_AVG_REAL = 3"

datatype OverflowPolicy = OverflowFragment | OverflowAcceptExposure

datatype BulkPlan =
    BulkSingle u64
  | BulkFragment "u64 list" u64
  | BulkAcceptExposure u64 u64

datatype NegotiatorError =
    InvalidCeiling f64
  | ExceedsCeilingRequiresFragment u64 u64

definition f_max :: "f64 \<Rightarrow> f64 \<Rightarrow> u32 \<Rightarrow> u32 \<Rightarrow> f64" where
  "f_max cover_budget round_period c_flows avg_real =
     (let slack = f64_of_nat (unat (max (sat_sub32 c_flows avg_real) 1)) in
      f64_div (f64_mul cover_budget round_period) slack)"

definition f_max_default :: "f64 \<Rightarrow> f64 \<Rightarrow> f64" where
  "f_max_default cover_budget round_period = f_max cover_budget round_period DEFAULT_C_FLOWS DEFAULT_AVG_REAL"

definition f_max_prose :: "f64 \<Rightarrow> f64 \<Rightarrow> f64" where
  "f_max_prose cover_budget round_period = f64_mul cover_budget round_period"

text \<open>The \<open>assert!\<close> of a positive chunk size: \<open>None\<close> is the panic.\<close>

definition fragment_sizes :: "u64 \<Rightarrow> u64 \<Rightarrow> u64 list option" where
  "fragment_sizes file_size chunk_max =
     (if chunk_max = 0 then None
      else if file_size = 0 then Some [0]
      else let full = file_size div chunk_max; rem = file_size mod chunk_max in
        Some (replicate (unat full) chunk_max @ (if 0 < rem then [rem] else [])))"

definition enforce_ceiling :: "u64 \<Rightarrow> f64 \<Rightarrow> OverflowPolicy \<Rightarrow> (NegotiatorError, BulkPlan) result option" where
  "enforce_ceiling file_size f_max_bytes policy =
     (if f64_le f_max_bytes (Fin 0) \<or> \<not> f64_is_finite f_max_bytes then Some (Inl (InvalidCeiling f_max_bytes))
      else let ceiling = of_nat (f64_to_u64 (f64_floor f_max_bytes)) :: u64 in
      if ceiling = 0 then Some (Inl (InvalidCeiling f_max_bytes))
      else if file_size \<le> ceiling then Some (Inr (BulkSingle file_size))
      else case policy of
        OverflowFragment \<Rightarrow> map_option (\<lambda>chunks. Inr (BulkFragment chunks ceiling)) (fragment_sizes file_size ceiling)
      | OverflowAcceptExposure \<Rightarrow> Some (Inr (BulkAcceptExposure file_size ceiling)))"

section \<open>Rendezvous\<close>

definition RENDEZVOUS_DOMAIN :: bytes where
  "RENDEZVOUS_DOMAIN = map of_char ''aegis/rendezvous/v1''"

definition rendezvous_id :: "('xs, 'ms, 'mp, 'r) crypto_lib \<Rightarrow> bytes \<Rightarrow> u64 \<Rightarrow> bytes" where
  "rendezvous_id L shared_secret epoch = lib_sha3_256 L (RENDEZVOUS_DOMAIN @ shared_secret @ u64_to_le epoch)"

text \<open>\<open>None\<close> is the panic of \<open>assert_eq!\<close>.\<close>

definition hamming_distance :: "bytes \<Rightarrow> bytes \<Rightarrow> nat option" where
  "hamming_distance a b =
     (if length a \<noteq> length b then None
      else Some (sum_list (map (\<lambda>(x, y). length (filter (bit (xor x y)) [0..<8])) (zip a b))))"

section \<open>The batch scheduler\<close>

text \<open>\<open>None\<close> is the panic of the two asserts.\<close>

definition next_round :: "f64 \<Rightarrow> f64 \<Rightarrow> nat option" where
  "next_round current_time round_period =
     (if \<not> f64_lt (Fin 0) round_period \<or> \<not> f64_is_finite current_time then None
      else Some (f64_to_u64 (f64_floor (f64_div current_time round_period))))"

record BatchScheduler =
  rounds :: "(u64 \<times> bytes list) list"

definition scheduler_new :: BatchScheduler where
  "scheduler_new = \<lparr>rounds = []\<rparr>"

definition round_participants :: "BatchScheduler \<Rightarrow> u64 \<Rightarrow> bytes list" where
  "round_participants s r = (case map_of (rounds s) r of Some ps \<Rightarrow> ps | None \<Rightarrow> [])"

definition opt_in :: "BatchScheduler \<Rightarrow> bytes \<Rightarrow> u64 \<Rightarrow> BatchScheduler" where
  "opt_in s participant r = s\<lparr>rounds := AList.update r (round_participants s r @ [participant]) (rounds s)\<rparr>"

definition round_size :: "BatchScheduler \<Rightarrow> u64 \<Rightarrow> nat" where
  "round_size s r = (case map_of (rounds s) r of Some ps \<Rightarrow> length ps | None \<Rightarrow> 0)"

lemma round_participants_opt_ins:
  "round_participants (fold (\<lambda>(p, r) s. opt_in s p r) xs scheduler_new) r = map fst (filter (\<lambda>(p, r'). r' = r) xs)"
proof (induction xs rule: rev_induct)
  case Nil
  then show ?case by (simp add: scheduler_new_def round_participants_def)
next
  case (snoc x xs)
  have "round_participants (opt_in s p q) r = round_participants s r @ (if q = r then [p] else [])" for s p q
    by (simp add: opt_in_def round_participants_def update_conv')
  then show ?case using snoc by (cases x) simp
qed

lemma round_size_participants: "round_size s r = length (round_participants s r)"
  by (simp add: round_size_def round_participants_def split: option.split)

section \<open>What the ceiling promises\<close>

lemma ceil_div:
  fixes n c :: nat
  assumes "0 < c"
  shows "(n + c - 1) div c = n div c + (if 0 < n mod c then 1 else 0)"
proof -
  obtain q r where n: "n = r + q * c" "r < c" using assms mod_less_divisor mod_mult_div_eq by (metis mod_div_decomp add.commute)
  have "(r + (c - 1) + q * c) div c = q + (r + (c - 1)) div c" using assms by (metis div_mult_self1 less_numeral_extra(3))
  moreover have "(r + (c - 1)) div c = (if 0 < r then 1 else 0)" using n(2) by (auto intro!: div_nat_eqI)
  moreover have "n + c - 1 = r + (c - 1) + q * c" using n assms by simp
  ultimately show ?thesis using n by simp
qed

lemma fragment_sizes_facts:
  assumes "0 < c" "fragment_sizes sz c = Some chunks"
  shows "sum_list (map unat chunks) = unat sz" "set chunks \<subseteq> {0..c}"
    "length chunks = max 1 ((unat sz + unat c - 1) div unat c)" "set (butlast chunks) \<subseteq> {c}"
proof -
  let ?c = "unat c" and ?n = "unat sz"
  have c: "0 < ?c" and c0: "c \<noteq> 0" using assms(1) by (auto simp: unat_gt_0)
  have "sum_list (map unat chunks) = ?n \<and> set chunks \<subseteq> {0..c}
      \<and> length chunks = max 1 ((?n + ?c - 1) div ?c) \<and> set (butlast chunks) \<subseteq> {c}"
  proof (cases "sz = 0")
    case True
    then have "chunks = [0]" using assms(2) c0 by (simp add: fragment_sizes_def)
    moreover have "(?c - 1) div ?c = 0" using c by simp
    ultimately show ?thesis using True by simp
  next
    case False
    then have n: "0 < ?n" by (simp add: unat_gt_0)
    have chunks: "chunks = replicate (unat (sz div c)) c @ (if 0 < sz mod c then [sz mod c] else [])"
      using assms(2) False c0 by (simp add: fragment_sizes_def Let_def)
    have div: "unat (sz div c) = ?n div ?c" "unat (sz mod c) = ?n mod ?c"
      by (simp_all add: unat_div unat_mod)
    have pos: "0 < sz mod c \<longleftrightarrow> 0 < ?n mod ?c" by (simp add: word_less_nat_alt div)
    have le: "sz mod c \<le> c" using c by (simp add: word_le_nat_alt div less_imp_le)
    note up = ceil_div[OF c, of ?n]
    have "1 \<le> ?n div ?c + (if 0 < ?n mod ?c then 1 else 0)"
      using n c by (cases "?c \<le> ?n") (simp_all add: Suc_le_eq div_greater_zero_iff)
    then have "length chunks = max 1 ((?n + ?c - 1) div ?c)" unfolding up using pos by (simp add: chunks div)
    moreover have "sum_list (map unat chunks) = ?n"
      using pos mult_div_mod_eq[of ?c ?n] by (auto simp: chunks div sum_list_replicate mult.commute)
    ultimately show ?thesis
      using le by (auto simp: chunks butlast_append dest!: in_set_butlastD)
  qed
  then show "sum_list (map unat chunks) = unat sz" "set chunks \<subseteq> {0..c}"
    "length chunks = max 1 ((unat sz + unat c - 1) div unat c)" "set (butlast chunks) \<subseteq> {c}" by blast+
qed

text \<open>The size ceiling is enforced, on every branch: exactly the values below one byte and the non-finite ones are
  refused; a file that fits goes out in one piece; a larger one is either declared as exposed (when the
  policy says so) or cut into chunks that add up to the file, never exceed the ceiling, are all full
  except the last, and are as few as possible. The chunking never panics.\<close>

theorem enforce_ceiling_exact:
  fixes f :: f64
  defines "c \<equiv> min (f64_to_u64 (f64_floor f)) (2 ^ 64 - 1)"
  shows "enforce_ceiling file_size f policy =
      (if \<not> f64_is_finite f \<or> f64_lt f (Fin 1) then Some (Inl (InvalidCeiling f))
       else if unat file_size \<le> c then Some (Inr (BulkSingle file_size))
       else if policy = OverflowAcceptExposure then Some (Inr (BulkAcceptExposure file_size (of_nat c)))
       else map_option (\<lambda>chunks. Inr (BulkFragment chunks (of_nat c))) (fragment_sizes file_size (of_nat c)))
    \<and> (0 < c \<longrightarrow> (\<exists>chunks. fragment_sizes file_size (of_nat c) = Some chunks
         \<and> sum_list (map unat chunks) = unat file_size \<and> (\<forall>x \<in> set chunks. unat x \<le> c)
         \<and> (\<forall>x \<in> set (butlast chunks). unat x = c) \<and> length chunks = max 1 ((unat file_size + c - 1) div c)))"
proof (intro conjI impI)
  have small: "c < 2 ^ 64" by (simp add: c_def)
  then have c: "unat (of_nat c :: u64) = c" by (simp add: unat_of_nat)
  have same: "f64_to_u64 (f64_floor f) = c" by (cases f) (auto simp: c_def)
  have zero: "c = 0 \<longleftrightarrow> f64_le f (Fin 0) \<or> f64_lt f (Fin 1)" if "f64_is_finite f"
  proof -
    obtain q where f: "f = Fin q" using \<open>f64_is_finite f\<close> by (cases f) simp_all
    have "c = 0 \<longleftrightarrow> \<lfloor>q\<rfloor> \<le> 0" by (auto simp: c_def f min_def)
    also have "\<dots> \<longleftrightarrow> q < 1" by linarith
    finally show ?thesis by (auto simp: f)
  qed
  have fin: "f64_le f (Fin 0) \<Longrightarrow> f64_lt f (Fin 1)" by (cases f) auto
  have w0: "(of_nat c :: u64) = 0 \<longleftrightarrow> c = 0"
  proof
    assume "(of_nat c :: u64) = 0"
    then have "unat (of_nat c :: u64) = 0" by simp
    then show "c = 0" unfolding c .
  qed simp
  have le: "file_size \<le> of_nat c \<longleftrightarrow> unat file_size \<le> c" by (simp add: word_le_nat_alt c)
  show "enforce_ceiling file_size f policy =
      (if \<not> f64_is_finite f \<or> f64_lt f (Fin 1) then Some (Inl (InvalidCeiling f))
       else if unat file_size \<le> c then Some (Inr (BulkSingle file_size))
       else if policy = OverflowAcceptExposure then Some (Inr (BulkAcceptExposure file_size (of_nat c)))
       else map_option (\<lambda>chunks. Inr (BulkFragment chunks (of_nat c))) (fragment_sizes file_size (of_nat c)))"
  proof (cases "\<not> f64_is_finite f \<or> f64_lt f (Fin 1)")
    case True
    then show ?thesis using zero by (auto simp: enforce_ceiling_def same w0 Let_def)
  next
    case False
    then have "\<not> f64_le f (Fin 0)" "f64_is_finite f" "c \<noteq> 0" using zero fin by auto
    then show ?thesis using False by (cases policy) (simp_all add: enforce_ceiling_def same w0 le Let_def)
  qed
  assume "0 < c"
  then have pos: "0 < (of_nat c :: u64)" using w0 word_neq_0_conv by blast
  then have "(of_nat c :: u64) \<noteq> 0" by auto
  then obtain chunks where chunks: "fragment_sizes file_size (of_nat c) = Some chunks"
    by (cases "file_size = 0") (simp_all add: fragment_sizes_def Let_def)
  show "\<exists>chunks. fragment_sizes file_size (of_nat c) = Some chunks
         \<and> sum_list (map unat chunks) = unat file_size \<and> (\<forall>x \<in> set chunks. unat x \<le> c)
         \<and> (\<forall>x \<in> set (butlast chunks). unat x = c) \<and> length chunks = max 1 ((unat file_size + c - 1) div c)"
    using fragment_sizes_facts[OF pos chunks] chunks by (auto simp: c word_le_nat_alt subset_iff)
qed

theorem enforce_ceiling_exact_witness:
  "enforce_ceiling 10 (Fin (9 / 2)) OverflowFragment = Some (Inr (BulkFragment [4, 4, 2] 4))
   \<and> sum_list (map unat [4, 4, 2 :: u64]) = unat (10 :: u64)"
proof -
  have f: "min (f64_to_u64 (f64_floor (Fin (9 / 2)))) (2 ^ 64 - 1) = 4"
  proof -
    have "\<lfloor>9 / 2 :: rat\<rfloor> = 4" by (simp add: floor_eq_iff)
    then show ?thesis by simp
  qed
  have sizes: "fragment_sizes 10 4 = Some [4, 4, 2]" by code_simp
  show ?thesis using enforce_ceiling_exact[of 10 "Fin (9 / 2)" OverflowFragment] unfolding f by (simp add: sizes)
qed

text \<open>The worked examples of the specification.\<close>

lemma f_max_examples:
  "f_max_default (Fin 10000000) (Fin 60) = Fin 120000000"
  "f_max_default (Fin 50000000) (Fin 300) = Fin 3000000000"
  "f_max_default (Fin 200000000) (Fin 900) = Fin 36000000000"
proof -
  have slack: "f64_of_nat (unat (max (sat_sub32 8 3) 1 :: u32)) = Fin 5"
    using f64_of_nat_exact[of 5] by (simp add: sat_sub32_def max_def word_le_nat_alt)
  have exact: "f64_of_rat (of_nat n) = Fin (of_nat n)" if "n \<le> 2 ^ 53" for n
    using f64_of_nat_exact[OF that] by (simp add: f64_of_nat_def)
  show "f_max_default (Fin 10000000) (Fin 60) = Fin 120000000"
    using exact[of 600000000] exact[of 120000000] by (simp add: f_max_default_def f_max_def DEFAULT_C_FLOWS_def DEFAULT_AVG_REAL_def slack)
  show "f_max_default (Fin 50000000) (Fin 300) = Fin 3000000000"
    using exact[of 15000000000] exact[of 3000000000] by (simp add: f_max_default_def f_max_def DEFAULT_C_FLOWS_def DEFAULT_AVG_REAL_def slack)
  show "f_max_default (Fin 200000000) (Fin 900) = Fin 36000000000"
    using exact[of 180000000000] exact[of 36000000000] by (simp add: f_max_default_def f_max_def DEFAULT_C_FLOWS_def DEFAULT_AVG_REAL_def slack)
qed

end
