(* ===== verification/Cover_Flow.thy ===== *)
theory Cover_Flow
  imports Negotiator Fragment Sphinx Text_Codec
begin

text \<open>
  \<^verbatim>\<open>crates/aegis-relay/src/cover_flow.rs\<close> and the bulk cover policy of \<^verbatim>\<open>crates/aegis-relay/src/config.rs\<close>: how many
  synthetic flows a relay emits when a bulk round closes, what their cells look like, the round tracker, and the
  checks before a relay starts. The generator's random numbers come from the \<open>crypto_lib\<close>.
\<close>

section \<open>Markers\<close>

definition COVER_FRAGMENT_RESERVED :: bytes where "COVER_FRAGMENT_RESERVED = [0xC0, 0x01]"
definition COVER_ONION_SCAFFOLD_RESERVED :: bytes where "COVER_ONION_SCAFFOLD_RESERVED = [0xC0, 0x02]"

definition COVER_SINK_HOP_ID :: bytes where
  "COVER_SINK_HOP_ID = [0xA3, 0xC0, 0x53, 0x4B] @ replicate 27 0 @ [0x53]"

definition COVER_ONION_PAYLOAD_PREFIX :: bytes where
  "COVER_ONION_PAYLOAD_PREFIX = map of_char ''aegis-cover-onion-sink-v1''"

definition DEFAULT_MATCHED_COVER_FLOWS :: u32 where "DEFAULT_MATCHED_COVER_FLOWS = 1"
definition DEFAULT_COVER_ONION_FLOWS :: u32 where "DEFAULT_COVER_ONION_FLOWS = 1"

datatype CoverMultihopDefense = BaselineLocalDiscard | MatchedLocalDiscard | CoverOnions | CoverOnionsScaffold

definition defense_parse :: "string \<Rightarrow> CoverMultihopDefense option" where
  "defense_parse s =
     (let t = map ascii_lower (trim s) in
      if t \<in> {''baseline'', ''baseline_local_discard'', ''local_discard''} then Some BaselineLocalDiscard
      else if t \<in> {''matched'', ''matched_local_discard''} then Some MatchedLocalDiscard
      else if t \<in> {''cover_onions'', ''onions'', ''peelable_cover_onions''} then Some CoverOnions
      else if t \<in> {''cover_onions_scaffold'', ''onions_scaffold''} then Some CoverOnionsScaffold
      else None)"

fun defense_as_str :: "CoverMultihopDefense \<Rightarrow> string" where
  "defense_as_str BaselineLocalDiscard = ''baseline_local_discard''"
| "defense_as_str MatchedLocalDiscard = ''matched_local_discard''"
| "defense_as_str CoverOnions = ''cover_onions''"
| "defense_as_str CoverOnionsScaffold = ''cover_onions_scaffold''"

lemma defense_roundtrip: "defense_parse (defense_as_str d) = Some d"
  by (cases d) (simp_all add: defense_parse_def ascii_lower_def trim_def is_whitespace_def)

record 'mp CoverOnionTerminal =
  term_id :: bytes
  term_pk :: "'mp RelayKemPublic"

definition term_path_hop :: "'mp CoverOnionTerminal \<Rightarrow> 'mp PathHop" where
  "term_path_hop t = \<lparr>hop_id = term_id t, hop_pk = term_pk t\<rparr>"

section \<open>Planning\<close>

definition sat_add32 :: "u32 \<Rightarrow> u32 \<Rightarrow> u32" where
  "sat_add32 a b = (if unat a + unat b < 2 ^ 32 then a + b else - 1)"

record CoverEmitPlan =
  local_discard_flows :: u32
  onion_scaffold_flows :: u32
  onion_peelable_flows :: u32

definition total_flows :: "CoverEmitPlan \<Rightarrow> u32" where
  "total_flows p = sat_add32 (sat_add32 (local_discard_flows p) (onion_scaffold_flows p)) (onion_peelable_flows p)"

definition total_cells :: "CoverEmitPlan \<Rightarrow> nat \<Rightarrow> u64" where
  "total_cells p cells_per = of_nat (unat (total_flows p)) * of_nat cells_per"

definition plan_is_empty :: "CoverEmitPlan \<Rightarrow> bool" where
  "plan_is_empty p \<longleftrightarrow> total_flows p = 0"

definition plan_cover_emit ::
    "CoverMultihopDefense \<Rightarrow> SecurityDial \<Rightarrow> nat \<Rightarrow> u32 \<Rightarrow> u32 \<Rightarrow> u32 \<Rightarrow> CoverEmitPlan" where
  "plan_cover_emit defense dl real_participants target matched onions =
     (if dl \<noteq> L2UniformBatched
      then \<lparr>local_discard_flows = 0, onion_scaffold_flows = 0, onion_peelable_flows = 0\<rparr>
      else case defense of
        BaselineLocalDiscard \<Rightarrow>
          \<lparr>local_discard_flows = required_cover_flow_count real_participants target, onion_scaffold_flows = 0, onion_peelable_flows = 0\<rparr>
      | MatchedLocalDiscard \<Rightarrow>
          \<lparr>local_discard_flows = matched, onion_scaffold_flows = 0, onion_peelable_flows = 0\<rparr>
      | CoverOnions \<Rightarrow>
          \<lparr>local_discard_flows = required_cover_flow_count real_participants target, onion_scaffold_flows = 0, onion_peelable_flows = onions\<rparr>
      | CoverOnionsScaffold \<Rightarrow>
          \<lparr>local_discard_flows = required_cover_flow_count real_participants target, onion_scaffold_flows = onions, onion_peelable_flows = 0\<rparr>)"

section \<open>Recognising cover\<close>

definition is_cover_sink_hop :: "bytes \<Rightarrow> bool" where
  "is_cover_sink_hop next_hop \<longleftrightarrow> next_hop = COVER_SINK_HOP_ID"

definition is_relay_cover_fragment :: "Cell \<Rightarrow> bool" where
  "is_relay_cover_fragment b \<longleftrightarrow>
     command_from_u8 (b ! FR_OFF_COMMAND) = Some SphinxFragment \<and> slice FR_OFF_RESERVED 2 b = COVER_FRAGMENT_RESERVED"

definition is_cover_onion_scaffold_fragment :: "Cell \<Rightarrow> bool" where
  "is_cover_onion_scaffold_fragment b \<longleftrightarrow>
     command_from_u8 (b ! FR_OFF_COMMAND) = Some SphinxFragment \<and> slice FR_OFF_RESERVED 2 b = COVER_ONION_SCAFFOLD_RESERVED"

definition is_discard_cover_fragment :: "Cell \<Rightarrow> bool" where
  "is_discard_cover_fragment b \<longleftrightarrow> is_relay_cover_fragment b \<or> is_cover_onion_scaffold_fragment b"

section \<open>Generating flows\<close>

record 'mp CoverFlowConfig =
  cells_per_flow :: nat
  multihop_defense :: CoverMultihopDefense
  matched_cover_flows :: u32
  cover_onion_flows :: u32
  cover_onion_terminal :: "'mp CoverOnionTerminal option"

definition cover_config_default :: "'mp CoverFlowConfig" where
  "cover_config_default = \<lparr>cells_per_flow = SPHINX_FRAGMENT_COUNT, multihop_defense = BaselineLocalDiscard,
     matched_cover_flows = DEFAULT_MATCHED_COVER_FLOWS, cover_onion_flows = DEFAULT_COVER_ONION_FLOWS,
     cover_onion_terminal = None\<rparr>"

definition matched_local_discard :: "u32 \<Rightarrow> 'mp CoverFlowConfig" where
  "matched_local_discard n = cover_config_default\<lparr>multihop_defense := MatchedLocalDiscard, matched_cover_flows := n\<rparr>"

definition cover_onions_scaffold :: "u32 \<Rightarrow> 'mp CoverFlowConfig" where
  "cover_onions_scaffold n = cover_config_default\<lparr>multihop_defense := CoverOnionsScaffold, cover_onion_flows := n\<rparr>"

definition cover_onions :: "u32 \<Rightarrow> 'mp CoverOnionTerminal \<Rightarrow> 'mp CoverFlowConfig" where
  "cover_onions n t = cover_config_default\<lparr>multihop_defense := CoverOnions, cover_onion_flows := n, cover_onion_terminal := Some t\<rparr>"

definition matched_discard_cell_count :: "'mp CoverFlowConfig \<Rightarrow> u64" where
  "matched_discard_cell_count c = of_nat (unat (matched_cover_flows c)) * of_nat (cells_per_flow c)"

definition encode_cover_fragment_cell ::
    "('xs, 'ms, 'mp, 'r) crypto_lib \<Rightarrow> 'r \<Rightarrow> PacketId \<Rightarrow> byte \<Rightarrow> bytes \<Rightarrow> Cell \<times> 'r" where
  "encode_cover_fragment_cell L rng pid index reserved =
     (let buf = replicate CELL_LEN 0;
          buf = buf[FR_OFF_COMMAND := command_byte SphinxFragment];
          buf = buf[FR_OFF_FRAG_IDX := index];
          buf = put FR_OFF_PACKET_ID pid buf;
          buf = put FR_OFF_RESERVED reserved buf;
          copy_len = fragment_copy_len index;
          (noise, rng) = lib_fill_bytes L rng copy_len
      in (put FR_OFF_PAYLOAD noise buf, rng))"

fun cover_cells ::
    "('xs, 'ms, 'mp, 'r) crypto_lib \<Rightarrow> PacketId \<Rightarrow> bytes \<Rightarrow> nat list \<Rightarrow> 'r \<Rightarrow> Cell list \<times> 'r" where
  "cover_cells L pid reserved [] rng = ([], rng)"
| "cover_cells L pid reserved (i # is) rng =
     (let (c, rng) = encode_cover_fragment_cell L rng pid (of_nat i) reserved;
          (cs, rng) = cover_cells L pid reserved is rng
      in (c # cs, rng))"

definition generate_one_flow ::
    "('xs, 'ms, 'mp, 'r) crypto_lib \<Rightarrow> 'mp CoverFlowConfig \<Rightarrow> 'r \<Rightarrow> bytes \<Rightarrow> Cell list \<times> 'r" where
  "generate_one_flow L cfg rng reserved =
     (let (pid, rng) = lib_fill_bytes L rng 8 in cover_cells L pid reserved [0..<cells_per_flow cfg] rng)"

fun generate_flows ::
    "('xs, 'ms, 'mp, 'r) crypto_lib \<Rightarrow> 'mp CoverFlowConfig \<Rightarrow> bytes \<Rightarrow> nat \<Rightarrow> 'r \<Rightarrow> Cell list list \<times> 'r" where
  "generate_flows L cfg reserved 0 rng = ([], rng)"
| "generate_flows L cfg reserved (Suc n) rng =
     (let (f, rng) = generate_one_flow L cfg rng reserved;
          (fs, rng) = generate_flows L cfg reserved n rng
      in (f # fs, rng))"

definition build_peel_to_sink_cover_flow ::
    "('xs, 'ms, 'mp, 'r) crypto_lib \<Rightarrow> 'mp CoverOnionTerminal \<Rightarrow> 'r \<Rightarrow> (CryptoError, Cell list) result \<times> 'r" where
  "build_peel_to_sink_cover_flow L terminal rng =
     (let ((_, sink_pk), rng) = relay_generate L rng;
          path = [term_path_hop terminal, \<lparr>hop_id = COVER_SINK_HOP_ID, hop_pk = sink_pk\<rparr>];
          n = min (length COVER_ONION_PAYLOAD_PREFIX) DELTA_LEN;
          (tail, rng) = lib_fill_bytes L rng (DELTA_LEN - n);
          payload = take n COVER_ONION_PAYLOAD_PREFIX @ tail
      in case build L path (take n payload) rng of
        (Inl e, rng) \<Rightarrow> (Inl e, rng)
      | (Inr packet, rng) \<Rightarrow>
          let ((cells, _), rng) = fragment_with_random_id (lib_fill_bytes L) packet rng in (Inr cells, rng))"

text \<open>The peelable onions: the first that cannot be built ends the loop.\<close>

fun peelable_flows ::
    "('xs, 'ms, 'mp, 'r) crypto_lib \<Rightarrow> 'mp CoverOnionTerminal \<Rightarrow> nat \<Rightarrow> 'r \<Rightarrow> Cell list list \<times> 'r" where
  "peelable_flows L t 0 rng = ([], rng)"
| "peelable_flows L t (Suc n) rng =
     (case build_peel_to_sink_cover_flow L t rng of
        (Inl _, rng) \<Rightarrow> ([], rng)
      | (Inr f, rng) \<Rightarrow> let (fs, rng) = peelable_flows L t n rng in (f # fs, rng))"

record 'mp CoverFlowGenerator =
  gen_requirement :: CoverRequirement
  gen_config :: "'mp CoverFlowConfig"

definition generator_new :: "CoverRequirement \<Rightarrow> 'mp CoverFlowGenerator" where
  "generator_new r = \<lparr>gen_requirement = r, gen_config = cover_config_default\<rparr>"

definition generate_cover ::
    "('xs, 'ms, 'mp, 'r) crypto_lib \<Rightarrow> 'mp CoverFlowGenerator \<Rightarrow> nat \<Rightarrow> 'r \<Rightarrow> Cell list list \<times> 'r" where
  "generate_cover L g real_participants rng =
     generate_flows L (gen_config g) COVER_FRAGMENT_RESERVED (unat (cover_flows_needed (gen_requirement g) real_participants)) rng"

definition generate_plan ::
    "('xs, 'ms, 'mp, 'r) crypto_lib \<Rightarrow> 'mp CoverFlowGenerator \<Rightarrow> SecurityDial \<Rightarrow> nat \<Rightarrow> 'r
      \<Rightarrow> (CoverEmitPlan \<times> Cell list list) \<times> 'r" where
  "generate_plan L g dl real_participants rng =
     (let cfg = gen_config g;
          p = plan_cover_emit (multihop_defense cfg) dl real_participants (target_flow_count (gen_requirement g))
                (matched_cover_flows cfg) (cover_onion_flows cfg);
          (locals, rng) = generate_flows L cfg COVER_FRAGMENT_RESERVED (unat (local_discard_flows p)) rng;
          (scaffolds, rng) = generate_flows L cfg COVER_ONION_SCAFFOLD_RESERVED (unat (onion_scaffold_flows p)) rng;
          (onions, rng) = (case cover_onion_terminal cfg of
              Some t \<Rightarrow> if 0 < onion_peelable_flows p then peelable_flows L t (unat (onion_peelable_flows p)) rng else ([], rng)
            | None \<Rightarrow> ([], rng))
      in ((p\<lparr>onion_peelable_flows := of_nat (length onions)\<rparr>, locals @ scaffolds @ onions), rng))"

section \<open>Bulk rounds\<close>

datatype BulkRoundCommand = RoundBegin SecurityDial CoverRequirement | EndRound

record BulkRoundTracker =
  round_active :: bool
  round_dial :: SecurityDial
  round_requirement :: CoverRequirement
  real_flow_count :: nat

definition tracker_new_round :: BulkRoundTracker where
  "tracker_new_round = \<lparr>round_active = False, round_dial = L0Raw, round_requirement = cover_requirement_new 0, real_flow_count = 0\<rparr>"

definition begin_round :: "BulkRoundTracker \<Rightarrow> SecurityDial \<Rightarrow> CoverRequirement \<Rightarrow> BulkRoundTracker" where
  "begin_round t dl r = t\<lparr>round_active := True, round_dial := dl, round_requirement := r, real_flow_count := 0\<rparr>"

definition observe_real_flow :: "BulkRoundTracker \<Rightarrow> BulkRoundTracker" where
  "observe_real_flow t = (if round_active t then t\<lparr>real_flow_count := real_flow_count t + 1\<rparr> else t)"

record CoverEmitResult =
  res_flows :: "Cell list list"
  res_flow_count :: u32
  res_cell_count :: u64
  res_plan :: CoverEmitPlan
  res_defense :: CoverMultihopDefense

definition close_and_emit ::
    "('xs, 'ms, 'mp, 'r) crypto_lib \<Rightarrow> 'mp CoverFlowConfig \<Rightarrow> BulkRoundTracker \<Rightarrow> 'r
      \<Rightarrow> CoverEmitResult option \<times> BulkRoundTracker \<times> 'r" where
  "close_and_emit L cfg t rng =
     (if \<not> round_active t then (None, t, rng)
      else let dl = round_dial t; rl = real_flow_count t; target = target_flow_count (round_requirement t);
               t = t\<lparr>round_active := False, real_flow_count := 0\<rparr>;
               p = plan_cover_emit (multihop_defense cfg) dl rl target (matched_cover_flows cfg) (cover_onion_flows cfg);
               should_emit = (case multihop_defense cfg of
                   BaselineLocalDiscard \<Rightarrow> dial_needs_cover_plan dl rl target
                 | MatchedLocalDiscard \<Rightarrow> dl = L2UniformBatched \<and> \<not> plan_is_empty p
                 | CoverOnions \<Rightarrow> dl = L2UniformBatched \<and> \<not> plan_is_empty p
                 | CoverOnionsScaffold \<Rightarrow> dl = L2UniformBatched \<and> \<not> plan_is_empty p)
        in if \<not> should_emit then (None, t, rng)
           else let ((p, flows), rng) = generate_plan L \<lparr>gen_requirement = round_requirement t, gen_config = cfg\<rparr> dl rl rng
             in if plan_is_empty p \<and> flows = [] then (None, t, rng)
                else (Some \<lparr>res_flows = flows, res_flow_count = of_nat (length flows),
                         res_cell_count = of_nat (sum_list (map length flows)), res_plan = p,
                         res_defense = multihop_defense cfg\<rparr>, t, rng))"

section \<open>The policy of a relay\<close>

definition DEFAULT_MU :: f64 where "DEFAULT_MU = Fin 2"
definition DEFAULT_COVER_TARGET_FLOW_COUNT :: u32 where "DEFAULT_COVER_TARGET_FLOW_COUNT = of_nat L2_BASELINE_CONCURRENCY"
definition DEFAULT_COVER_ROUND_SECS :: u64 where "DEFAULT_COVER_ROUND_SECS = 30"

datatype CoverPolicyError = CoverChannelRequired | CoverDisabledWhileRequired | DialDoesNotRequireCover SecurityDial

record 'mp BulkCoverConfig =
  bc_enabled :: bool
  bc_require :: bool
  bc_dial :: SecurityDial
  bc_target_flow_count :: u32
  bc_round_secs :: u64
  bc_multihop_defense :: CoverMultihopDefense
  bc_matched_cover_flows :: u32
  bc_cover_onion_flows :: u32
  bc_cover_onion_terminal :: "'mp CoverOnionTerminal option"

definition bulk_cover_default :: "'mp BulkCoverConfig" where
  "bulk_cover_default = \<lparr>bc_enabled = False, bc_require = False, bc_dial = L2UniformBatched,
     bc_target_flow_count = DEFAULT_COVER_TARGET_FLOW_COUNT, bc_round_secs = DEFAULT_COVER_ROUND_SECS,
     bc_multihop_defense = BaselineLocalDiscard, bc_matched_cover_flows = DEFAULT_MATCHED_COVER_FLOWS,
     bc_cover_onion_flows = DEFAULT_COVER_ONION_FLOWS, bc_cover_onion_terminal = None\<rparr>"

definition production :: "'mp BulkCoverConfig" where
  "production = bulk_cover_default\<lparr>bc_enabled := True, bc_require := True\<rparr>"

definition bc_requirement :: "'mp BulkCoverConfig \<Rightarrow> CoverRequirement" where
  "bc_requirement c = l2_cover_requirement (bc_target_flow_count c)"

definition bc_cover_flow_config :: "'mp BulkCoverConfig \<Rightarrow> 'mp CoverFlowConfig" where
  "bc_cover_flow_config c = \<lparr>cells_per_flow = SPHINX_FRAGMENT_COUNT, multihop_defense = bc_multihop_defense c,
     matched_cover_flows = bc_matched_cover_flows c, cover_onion_flows = bc_cover_onion_flows c,
     cover_onion_terminal = bc_cover_onion_terminal c\<rparr>"

definition with_cover_onion_terminal :: "'mp BulkCoverConfig \<Rightarrow> 'mp CoverOnionTerminal \<Rightarrow> 'mp BulkCoverConfig" where
  "with_cover_onion_terminal c t = c\<lparr>bc_cover_onion_terminal := Some t\<rparr>"

definition validate_spawn :: "'mp BulkCoverConfig \<Rightarrow> bool \<Rightarrow> (CoverPolicyError, unit) result" where
  "validate_spawn c cover_channel_present =
     (if \<not> bc_require c then Inr ()
      else if \<not> bc_enabled c then Inl CoverDisabledWhileRequired
      else if \<not> cover_channel_present then Inl CoverChannelRequired
      else if \<not> dial_requires_relay_cover (bc_dial c) then Inl (DialDoesNotRequireCover (bc_dial c))
      else Inr ())"

record 'mp RelayConfig =
  rc_mu :: f64
  rc_bulk_cover :: "'mp BulkCoverConfig"

definition relay_config_default :: "'mp RelayConfig" where
  "relay_config_default = \<lparr>rc_mu = DEFAULT_MU, rc_bulk_cover = bulk_cover_default\<rparr>"

definition relay_config_new :: "f64 \<Rightarrow> 'mp RelayConfig" where
  "relay_config_new mu = \<lparr>rc_mu = mu, rc_bulk_cover = bulk_cover_default\<rparr>"

definition with_bulk_cover :: "'mp RelayConfig \<Rightarrow> 'mp BulkCoverConfig \<Rightarrow> 'mp RelayConfig" where
  "with_bulk_cover c b = c\<lparr>rc_bulk_cover := b\<rparr>"

end
