(* ===== verification/Cover_Correct.thy ===== *)
theory Cover_Correct
  imports Cover_Flow Sphinx_Correct
begin

text \<open>
  What the cover flows promise: a closed L2 round shows the planned number of flows, their cells look like
  fragments and are discarded before reassembly, while cells of real packets never are; and a peelable cover onion
  is a real packet whose only peel ends at the sink id.
\<close>

section \<open>Cells\<close>

lemma cover_cell_facts:
  assumes "lib_lengths L" "length pid = 8" "length reserved = 2" "encode_cover_fragment_cell L rng pid i reserved = (c, rng')"
  shows "wf_cell c" "command_from_u8 (c ! FR_OFF_COMMAND) = Some SphinxFragment" "slice FR_OFF_RESERVED 2 c = reserved"
proof -
  obtain noise rng2 where f: "lib_fill_bytes L rng (fragment_copy_len i) = (noise, rng2)" by fastforce
  then have n: "length noise = fragment_copy_len i" using lib_lengthsD(2)[OF assms(1), of rng "fragment_copy_len i"] by simp
  have le: "length noise \<le> 500" using fragment_copy_len_le[of i] n by simp
  let ?b = "put 2 pid ((replicate 512 (0::byte))[0 := 6, 1 := i])"
  have c: "c = put 12 noise (put 10 reserved ?b)"
    using assms(4) f by (simp add: encode_cover_fragment_cell_def Let_def fragment_values)
  have b: "length ?b = 512" using assms(2) by simp
  show "wf_cell c" using b le assms(3) by (simp add: c wf_cell_def fragment_values)
  have "?b ! 0 = 6" using assms(2) by (simp add: put_nth)
  then have "c ! 0 = 6" using b le assms(3) by (simp add: c put_nth)
  then show "command_from_u8 (c ! FR_OFF_COMMAND) = Some SphinxFragment"
    by (simp add: fragment_values command_from_u8_def)
  have "slice 10 2 (put 10 reserved ?b) = reserved"
    using b assms(3) slice_put_same[of 10 2 ?b reserved] by simp
  moreover have "slice 10 2 c = slice 10 2 (put 10 reserved ?b)"
    unfolding c using b assms(3) le by (intro slice_put_before) simp_all
  ultimately show "slice FR_OFF_RESERVED 2 c = reserved" by (simp add: fragment_values)
qed

lemma cover_cells_facts:
  assumes "lib_lengths L" "length pid = 8" "length reserved = 2" "cover_cells L pid reserved is rng = (cs, rng')"
  shows "length cs = length is \<and> (\<forall>c \<in> set cs. wf_cell c \<and> command_from_u8 (c ! FR_OFF_COMMAND) = Some SphinxFragment
    \<and> slice FR_OFF_RESERVED 2 c = reserved)"
  using assms(4)
proof (induction "is" arbitrary: cs rng rng')
  case (Cons i "is")
  obtain c r1 where c: "encode_cover_fragment_cell L rng pid (of_nat i) reserved = (c, r1)" by fastforce
  obtain ds r2 where d: "cover_cells L pid reserved is r1 = (ds, r2)" by fastforce
  have "cs = c # ds" using Cons.prems c d by simp
  then show ?case using Cons.IH[OF d] cover_cell_facts[OF assms(1-3) c] by simp
qed simp

definition discarded_flow :: "nat \<Rightarrow> Cell list \<Rightarrow> bool" where
  "discarded_flow n cells \<longleftrightarrow> length cells = n \<and> (\<forall>c \<in> set cells. wf_cell c \<and> is_discard_cover_fragment c)"

lemma generate_flows_facts:
  assumes "lib_lengths L" "reserved \<in> {COVER_FRAGMENT_RESERVED, COVER_ONION_SCAFFOLD_RESERVED}"
    and "generate_flows L cfg reserved n rng = (fs, rng')"
  shows "length fs = n \<and> (\<forall>f \<in> set fs. discarded_flow (cells_per_flow cfg) f)"
  using assms(3)
proof (induction n arbitrary: fs rng rng')
  case (Suc n)
  obtain pid r1 where pid: "lib_fill_bytes L rng 8 = (pid, r1)" by fastforce
  obtain cs r2 where cs: "cover_cells L pid reserved [0..<cells_per_flow cfg] r1 = (cs, r2)" by fastforce
  obtain gs r3 where gs: "generate_flows L cfg reserved n r2 = (gs, r3)" by fastforce
  have fs: "fs = cs # gs" using Suc.prems pid cs gs by (simp add: generate_one_flow_def)
  have "length reserved = 2" using assms(2) by (auto simp: COVER_FRAGMENT_RESERVED_def COVER_ONION_SCAFFOLD_RESERVED_def)
  moreover have "length pid = 8" using lib_lengthsD(2)[OF assms(1), of rng 8] pid by simp
  ultimately have "length cs = cells_per_flow cfg \<and> (\<forall>c \<in> set cs. wf_cell c
      \<and> command_from_u8 (c ! FR_OFF_COMMAND) = Some SphinxFragment \<and> slice FR_OFF_RESERVED 2 c = reserved)"
    using cover_cells_facts[OF assms(1) _ _ cs] by simp
  then have "discarded_flow (cells_per_flow cfg) cs"
    using assms(2) unfolding discarded_flow_def is_discard_cover_fragment_def is_relay_cover_fragment_def
      is_cover_onion_scaffold_fragment_def by auto
  then show ?case using Suc.IH[OF gs] fs by simp
qed simp

text \<open>Cells of real packets keep the reserved bytes zero.\<close>

lemma real_fragment_kept:
  assumes "length pid = 8" "c \<in> set (fragment p pid)"
  shows "\<not> is_discard_cover_fragment c"
proof -
  obtain i where "c = encode_fragment_cell pid (of_nat i) p" using assms(2) by (auto simp: fragment_def)
  then have "slice 10 2 c = [0, 0]"
    using assms(1) by (simp add: encode_layout slice_def take_Cons' drop_Cons' numeral_2_eq_2)
  then show ?thesis
    by (simp add: is_discard_cover_fragment_def is_relay_cover_fragment_def is_cover_onion_scaffold_fragment_def
        COVER_FRAGMENT_RESERVED_def COVER_ONION_SCAFFOLD_RESERVED_def fragment_values)
qed

section \<open>A peelable onion\<close>

lemma build_peel_eq:
  "build_peel_to_sink_cover_flow L t rng =
     (let ((_, pk), r1) = relay_generate L rng;
          (_, r2) = lib_fill_bytes L r1 (DELTA_LEN - length COVER_ONION_PAYLOAD_PREFIX)
      in case build L [term_path_hop t, \<lparr>hop_id = COVER_SINK_HOP_ID, hop_pk = pk\<rparr>] COVER_ONION_PAYLOAD_PREFIX r2 of
        (Inl e, r3) \<Rightarrow> (Inl e, r3)
      | (Inr p, r3) \<Rightarrow> (let (pid, r4) = lib_fill_bytes L r3 8 in (Inr (fragment p pid), r4)))"
proof -
  have pre: "min (length COVER_ONION_PAYLOAD_PREFIX) DELTA_LEN = length COVER_ONION_PAYLOAD_PREFIX"
    by (simp add: COVER_ONION_PAYLOAD_PREFIX_def layout_values)
  have payload: "take (length xs) (take (length xs) xs @ ys) = xs" for xs ys :: bytes by simp
  show ?thesis
    unfolding build_peel_to_sink_cover_flow_def pre Let_def payload fragment_with_random_id_def
    by (simp add: case_prod_beta split: sum.split)
qed

lemma peel_to_sink_parts:
  assumes "build_peel_to_sink_cover_flow L t rng = (Inr cells, rng')"
  obtains sk pk p pid r1 r2 r3 where "key_pair L sk pk"
    "build L [term_path_hop t, \<lparr>hop_id = COVER_SINK_HOP_ID, hop_pk = pk\<rparr>] COVER_ONION_PAYLOAD_PREFIX r1 = (Inr p, r2)"
    "lib_fill_bytes L r2 8 = (pid, r3)" "cells = fragment p pid"
proof -
  obtain sk pk r1 where gen: "relay_generate L rng = ((sk, pk), r1)" by (metis surj_pair)
  have "key_pair L sk pk" unfolding key_pair_def using gen by (metis fst_conv)
  then show thesis
    using assms that unfolding build_peel_eq by (auto simp: gen Let_def split: prod.splits sum.splits)
qed

text \<open>A peelable cover onion reaches its sink: its cells look like any client packet (18 full cells that no hop
  discards early), they reassemble to a packet, and the terminal relay, which holds the key it was built for,
  peels it to the sink id - so the relay drops it and never delivers it.\<close>

theorem cover_onion_sinks:
  assumes "lib_lengths L" "lib_dh_commutes L" "lib_mlkem_correct L"
    and "length (term_id t) = 32" "key_pair L sk (term_pk t)" "fresh_cache rc"
    and "build_peel_to_sink_cover_flow L t rng = (Inr cells, rng')"
  shows "length cells = 18 \<and> (\<forall>c \<in> set cells. wf_cell c \<and> \<not> is_discard_cover_fragment c)
    \<and> (\<exists>p q rc'. reassemble cells = Inr p \<and> process L p sk rc = (Inr (Forward COVER_SINK_HOP_ID q), rc')
          \<and> is_cover_sink_hop COVER_SINK_HOP_ID)"
proof -
  obtain sk2 pk2 p pid r1 r2 r3 where k: "key_pair L sk2 pk2"
    "build L [term_path_hop t, \<lparr>hop_id = COVER_SINK_HOP_ID, hop_pk = pk2\<rparr>] COVER_ONION_PAYLOAD_PREFIX r1 = (Inr p, r2)"
    "lib_fill_bytes L r2 8 = (pid, r3)" "cells = fragment p pid"
    using peel_to_sink_parts[OF assms(7)] .
  let ?path = "[term_path_hop t, \<lparr>hop_id = COVER_SINK_HOP_ID, hop_pk = pk2\<rparr>]"
  have ids: "\<And>hop. hop \<in> set ?path \<Longrightarrow> length (hop_id hop) = 32"
    using assms(4) by (auto simp: term_path_hop_def COVER_SINK_HOP_ID_def)
  have pid: "length pid = 8" using lib_lengthsD(2)[OF assms(1), of r2 8] k(3) by simp
  have wf: "wf_packet p" by (rule build_wf(1)[OF assms(1-3) ids k(2)])
  obtain last q where "traverse L p [(sk, rc), (sk2, rc)] = Inr (map hop_id (tl ?path) @ [last], q)"
    using built_packet_travels[OF assms(1-3) ids k(2), of "[(sk, rc), (sk2, rc)]"] assms(5,6) k(1)
    by (force simp: less_Suc_eq term_path_hop_def)
  then obtain r where r: "fst (process L p sk rc) = Inr r"
    "(case r of Forward next_hop p' \<Rightarrow> bind_result (traverse L p' [(sk2, rc)]) (\<lambda>(hops, q). Inr (next_hop # hops, q))
      | _ \<Rightarrow> Inl (CryptoMalformed ''not forwarded'')) = Inr (COVER_SINK_HOP_ID # [last], q)"
    unfolding traverse.simps(2)[of L p sk rc] bind_result_Inr_iff by auto
  then obtain q' where "fst (process L p sk rc) = Inr (Forward COVER_SINK_HOP_ID q')"
    by (cases r) (auto simp: bind_result_Inr_iff simp del: traverse.simps)
  then obtain rc' where "process L p sk rc = (Inr (Forward COVER_SINK_HOP_ID q'), rc')" by (metis prod.collapse)
  moreover have "length cells = 18" "\<forall>c \<in> set cells. wf_cell c" "reassemble cells = Inr p"
    using fragment_reassembles[OF wf pid] by (simp_all add: k(4) wf_cell_def fragment_values)
  moreover have "\<forall>c \<in> set cells. \<not> is_discard_cover_fragment c"
    using real_fragment_kept[OF pid] by (simp add: k(4))
  ultimately show ?thesis by (auto simp: is_cover_sink_hop_def)
qed

theorem cover_onion_sinks_witness:
  "\<exists>cells p q rc'. reassemble cells = Inr p
     \<and> process toy_lib p (toy_key 1) (with_capacity 5) = (Inr (Forward COVER_SINK_HOP_ID q), rc')"
proof -
  define t where "t = \<lparr>term_id = replicate 32 7, term_pk = hop_pk (toy_hop 1)\<rparr>"
  have "\<exists>cells rng'. build_peel_to_sink_cover_flow toy_lib t 0 = (Inr cells, rng')"
  proof -
    have "\<exists>p r3. build toy_lib [term_path_hop t, \<lparr>hop_id = COVER_SINK_HOP_ID, hop_pk = pk\<rparr>] COVER_ONION_PAYLOAD_PREFIX r2
        = (Inr p, r3)" for pk r2
      by (rule build_ok) (simp_all add: toy_lib_def layout_values COVER_ONION_PAYLOAD_PREFIX_def)
    then have built: "\<exists>p r3. build toy_lib [term_path_hop t, \<lparr>hop_id = COVER_SINK_HOP_ID, hop_pk = pk\<rparr>] COVER_ONION_PAYLOAD_PREFIX r2
        = (Inr p, r3)" for pk r2 .
    obtain sk pk r1 where gen: "relay_generate toy_lib 0 = ((sk, pk), r1)" by (metis surj_pair)
    obtain tail r2 where tail: "lib_fill_bytes toy_lib r1 (DELTA_LEN - length COVER_ONION_PAYLOAD_PREFIX) = (tail, r2)" by fastforce
    obtain p r3 where b: "build toy_lib [term_path_hop t, \<lparr>hop_id = COVER_SINK_HOP_ID, hop_pk = pk\<rparr>] COVER_ONION_PAYLOAD_PREFIX r2
        = (Inr p, r3)" using built by blast
    obtain pid r4 where pid: "lib_fill_bytes toy_lib r3 8 = (pid, r4)" by fastforce
    show ?thesis unfolding build_peel_eq Let_def gen tail prod.case b sum.case pid by (intro exI, rule refl)
  qed
  then obtain cells rng' where b: "build_peel_to_sink_cover_flow toy_lib t 0 = (Inr cells, rng')" by blast
  have "length (term_id t) = 32" "key_pair toy_lib (toy_key 1) (term_pk t)" by (simp_all add: t_def toy_key_pair)
  from cover_onion_sinks[OF toy_laws this fresh_with_capacity[of 5] b] show ?thesis by auto
qed

section \<open>A whole round\<close>

lemma plan_empty_iff:
  "plan_is_empty p \<longleftrightarrow> local_discard_flows p = 0 \<and> onion_scaffold_flows p = 0 \<and> onion_peelable_flows p = 0"
proof -
  have zero: "sat_add32 a b = 0 \<longleftrightarrow> a = 0 \<and> b = 0" for a b :: u32
  proof
    assume z: "sat_add32 a b = 0"
    then have "unat a + unat b < 2 ^ 32" "a + b = 0" by (auto simp: sat_add32_def split: if_splits)
    moreover have "unat (a + b) = (unat a + unat b) mod 2 ^ 32" by (simp add: unat_word_ariths)
    ultimately have "unat a + unat b = 0" by simp
    then show "a = 0 \<and> b = 0" by (simp add: unat_eq_zero)
  qed (simp add: sat_add32_def)
  show ?thesis by (simp add: plan_is_empty_def total_flows_def zero)
qed

text \<open>A flow that the peelable loop built for the terminal, and what the loop returns.\<close>

definition onion_flow :: "('xs, 'ms, 'mp, 'r) crypto_lib \<Rightarrow> 'mp CoverOnionTerminal \<Rightarrow> Cell list \<Rightarrow> bool" where
  "onion_flow L t f \<longleftrightarrow> (\<exists>rng rng'. build_peel_to_sink_cover_flow L t rng = (Inr f, rng'))"

definition onion_build_fails :: "('xs, 'ms, 'mp, 'r) crypto_lib \<Rightarrow> 'mp CoverOnionTerminal \<Rightarrow> bool" where
  "onion_build_fails L t \<longleftrightarrow> (\<exists>rng e rng'. build_peel_to_sink_cover_flow L t rng = (Inl e, rng'))"

lemma peelable_flows_facts:
  "peelable_flows L t n rng = (fs, rng') \<Longrightarrow>
     length fs \<le> n \<and> (length fs < n \<longrightarrow> onion_build_fails L t) \<and> (\<forall>f \<in> set fs. onion_flow L t f)"
proof (induction n arbitrary: rng fs rng')
  case (Suc n)
  obtain x r1 where x: "build_peel_to_sink_cover_flow L t rng = (x, r1)" by fastforce
  show ?case
  proof (cases x)
    case (Inl e)
    then show ?thesis using Suc.prems x by (auto simp: onion_build_fails_def)
  next
    case (Inr f)
    obtain gs r2 where gs: "peelable_flows L t n r1 = (gs, r2)" by fastforce
    have "fs = f # gs" using Suc.prems x Inr gs by simp
    then show ?thesis using Suc.IH[OF gs] x Inr by (auto simp: onion_flow_def)
  qed
qed simp

lemma observed_flows:
  "(observe_real_flow ^^ n) (begin_round t dl r) = (begin_round t dl r)\<lparr>real_flow_count := n\<rparr>"
  by (induction n) (simp_all add: observe_real_flow_def begin_round_def)

text \<open>The flows of a plan, by kind.\<close>

lemma generate_plan_facts:
  assumes "lib_lengths L" "generate_plan L \<lparr>gen_requirement = r, gen_config = cfg\<rparr> L2UniformBatched n rng = ((p, flows), rng')"
    and "p0 = plan_cover_emit (multihop_defense cfg) L2UniformBatched n (target_flow_count r) (matched_cover_flows cfg) (cover_onion_flows cfg)"
  shows "\<exists>kept onions. flows = kept @ onions \<and> length kept = unat (local_discard_flows p0) + unat (onion_scaffold_flows p0)
    \<and> (\<forall>f \<in> set kept. discarded_flow (cells_per_flow cfg) f)
    \<and> length onions \<le> unat (onion_peelable_flows p0)
    \<and> (case cover_onion_terminal cfg of None \<Rightarrow> onions = []
       | Some t \<Rightarrow> (\<forall>f \<in> set onions. onion_flow L t f)
           \<and> (length onions < unat (onion_peelable_flows p0) \<longrightarrow> onion_build_fails L t))"
proof -
  obtain xs r1 where xs: "generate_flows L cfg COVER_FRAGMENT_RESERVED (unat (local_discard_flows p0)) rng = (xs, r1)" by fastforce
  obtain ys r2 where ys: "generate_flows L cfg COVER_ONION_SCAFFOLD_RESERVED (unat (onion_scaffold_flows p0)) r1 = (ys, r2)" by fastforce
  obtain zs r3 where zs: "(case cover_onion_terminal cfg of
              Some t \<Rightarrow> if 0 < onion_peelable_flows p0 then peelable_flows L t (unat (onion_peelable_flows p0)) r2 else ([], r2)
            | None \<Rightarrow> ([], r2)) = (zs, r3)" by fastforce
  have "flows = xs @ ys @ zs"
    using assms(2) unfolding generate_plan_def Let_def CoverFlowGenerator.simps assms(3)[symmetric] xs ys prod.case zs by simp
  moreover have "length zs \<le> unat (onion_peelable_flows p0)
    \<and> (case cover_onion_terminal cfg of None \<Rightarrow> zs = []
       | Some t \<Rightarrow> (\<forall>f \<in> set zs. onion_flow L t f)
           \<and> (length zs < unat (onion_peelable_flows p0) \<longrightarrow> onion_build_fails L t))"
    using zs peelable_flows_facts[of L _ "unat (onion_peelable_flows p0)" r2 zs r3]
    by (auto simp: unat_gt_0 word_neq_0_conv split: option.splits if_splits)
  moreover note generate_flows_facts[OF assms(1) _ xs] generate_flows_facts[OF assms(1) _ ys]
  ultimately show ?thesis by (intro exI[of _ "xs @ ys"] exI[of _ zs]) auto
qed

definition emitted :: "CoverEmitResult option \<Rightarrow> Cell list list" where
  "emitted out = (case out of None \<Rightarrow> [] | Some res \<Rightarrow> res_flows res)"

lemma close_and_emit_flows:
  assumes "round_active t" "round_dial t = L2UniformBatched"
    and "close_and_emit L cfg t rng = (out, t', rng')"
    and "p0 = plan_cover_emit (multihop_defense cfg) L2UniformBatched (real_flow_count t) (target_flow_count (round_requirement t))
           (matched_cover_flows cfg) (cover_onion_flows cfg)"
  shows "t' = t\<lparr>round_active := False, real_flow_count := 0\<rparr>"
    "if plan_is_empty p0 then emitted out = []
     else \<exists>p. generate_plan L \<lparr>gen_requirement = round_requirement t, gen_config = cfg\<rparr> L2UniformBatched (real_flow_count t) rng
          = ((p, emitted out), rng')"
proof -
  have gate: "(case multihop_defense cfg of BaselineLocalDiscard \<Rightarrow> dial_needs_cover_plan L2UniformBatched (real_flow_count t) (target_flow_count (round_requirement t))
      | _ \<Rightarrow> L2UniformBatched = L2UniformBatched \<and> \<not> plan_is_empty p0) = (\<not> plan_is_empty p0)"
    unfolding plan_empty_iff assms(4) by (cases "multihop_defense cfg") (simp_all add: plan_cover_emit_def dial_needs_cover_plan_def word_neq_0_conv)
  obtain p flows r2 where g: "generate_plan L \<lparr>gen_requirement = round_requirement t, gen_config = cfg\<rparr> L2UniformBatched (real_flow_count t) rng
      = ((p, flows), r2)" by (metis surj_pair)
  show "t' = t\<lparr>round_active := False, real_flow_count := 0\<rparr>"
    using assms(1,3) by (auto simp: close_and_emit_def Let_def split: if_splits prod.splits)
  show "if plan_is_empty p0 then emitted out = []
     else \<exists>p. generate_plan L \<lparr>gen_requirement = round_requirement t, gen_config = cfg\<rparr> L2UniformBatched (real_flow_count t) rng
          = ((p, emitted out), rng')"
    using assms(3) gate unfolding close_and_emit_def Let_def assms(2) assms(4)[symmetric]
    by (cases "multihop_defense cfg") (auto simp: assms(1) g emitted_def split: if_splits)
qed

text \<open>Only an L2 round emits anything.\<close>

lemma close_and_emit_other_dial:
  assumes "round_active t" "round_dial t \<noteq> L2UniformBatched" "close_and_emit L cfg t rng = (out, t', rng')"
  shows "t' = t\<lparr>round_active := False, real_flow_count := 0\<rparr>" "emitted out = []"
  using assms
  by (cases "multihop_defense cfg";
      auto simp: close_and_emit_def Let_def dial_needs_cover_plan_def emitted_def split: if_splits prod.splits)+

text \<open>What is promised of one flow of peelable cover: 18 full cells that no hop discards early and that reassemble
  to a packet which the terminal relay peels to the sink.\<close>

definition sink_flow :: "('xs, 'ms, 'mp, 'r) crypto_lib \<Rightarrow> 'mp CoverOnionTerminal \<Rightarrow> Cell list \<Rightarrow> bool" where
  "sink_flow L t f \<longleftrightarrow> length f = 18 \<and> (\<forall>c \<in> set f. wf_cell c \<and> \<not> is_discard_cover_fragment c)
     \<and> (\<forall>sk rc. key_pair L sk (term_pk t) \<and> fresh_cache rc \<longrightarrow>
          (\<exists>p q rc'. reassemble f = Inr p \<and> process L p sk rc = (Inr (Forward COVER_SINK_HOP_ID q), rc')))"

lemma onion_flow_sinks:
  assumes "lib_lengths L" "lib_dh_commutes L" "lib_mlkem_correct L" "length (term_id t) = 32"
    and "key_pair L sk0 (term_pk t)" "onion_flow L t f"
  shows "sink_flow L t f"
proof -
  obtain rng rng' where b: "build_peel_to_sink_cover_flow L t rng = (Inr f, rng')"
    using assms(6) by (auto simp: onion_flow_def)
  note sinks = cover_onion_sinks[OF assms(1-4) _ _ b]
  from sinks[OF assms(5) fresh_with_capacity[of 5, simplified]] sinks show ?thesis
    unfolding sink_flow_def is_cover_sink_hop_def by fast
qed

text \<open>C22. A closed round shows the flows its mode asks for (the terminal relay of the configuration, if there is one, has
  a 32-byte id and a key pair whose public half is the configured key). When a round that observed n < 2^32 real flows closes, it
  is inactive and its counter reset, and under any dial but L2 it emits nothing. Under L2 the emitted flows are
  discarded ones - the configured number of full cells each, all discarded before reassembly - followed
  by peelable onions - 18 full cells each that no hop discards early, which reassemble to a packet that the
  terminal relay peels to the sink. With m = target - n (0 if n is larger), there are exactly m discarded flows
  in a baseline round, which brings the total to the larger of n and the target; exactly the fixed number in a
  matched round; m in a peelable round and m plus the onion number in a scaffold round, so both may exceed the
  target. Only a peelable round has onions: the onion number, or none without a terminal, or fewer if a
  packet for the terminal cannot be built.\<close>

theorem bulk_round_covered:
  assumes "lib_lengths L" "lib_dh_commutes L" "lib_mlkem_correct L" "n < 2 ^ 32"
    and "\<forall>t. cover_onion_terminal cfg = Some t \<longrightarrow> length (term_id t) = 32 \<and> (\<exists>sk. key_pair L sk (term_pk t))"
    and "close_and_emit L cfg ((observe_real_flow ^^ n) (begin_round t0 dl r)) rng = (out, t', rng')"
  shows "\<not> round_active t' \<and> real_flow_count t' = 0 \<and> (dl \<noteq> L2UniformBatched \<longrightarrow> emitted out = [])
    \<and> (dl = L2UniformBatched \<longrightarrow> (\<exists>kept onions. emitted out = kept @ onions
      \<and> (\<forall>f \<in> set kept. discarded_flow (cells_per_flow cfg) f)
      \<and> (\<forall>f \<in> set onions. \<exists>t. cover_onion_terminal cfg = Some t \<and> sink_flow L t f)
      \<and> (case multihop_defense cfg of
           BaselineLocalDiscard \<Rightarrow> n + length kept = max n (unat (target_flow_count r)) \<and> onions = []
         | MatchedLocalDiscard \<Rightarrow> length kept = unat (matched_cover_flows cfg) \<and> onions = []
         | CoverOnions \<Rightarrow> length kept = unat (target_flow_count r) - n
             \<and> length onions \<le> unat (cover_onion_flows cfg)
             \<and> (length onions < unat (cover_onion_flows cfg) \<longrightarrow>
                 (case cover_onion_terminal cfg of None \<Rightarrow> onions = [] | Some t \<Rightarrow> onion_build_fails L t))
         | CoverOnionsScaffold \<Rightarrow> length kept = unat (target_flow_count r) - n + unat (cover_onion_flows cfg)
             \<and> onions = [])))"
proof -
  let ?t = "(begin_round t0 dl r)\<lparr>real_flow_count := n\<rparr>"
  have act: "round_active ?t" "round_dial ?t = dl" by (simp_all add: begin_round_def)
  note closes = assms(6)[unfolded observed_flows]
  show ?thesis
  proof (cases "dl = L2UniformBatched")
    case False
    then show ?thesis using close_and_emit_other_dial[OF act(1) _ closes] act(2) by simp
  next
    case True
    define p0 where "p0 = plan_cover_emit (multihop_defense cfg) L2UniformBatched (real_flow_count ?t)
      (target_flow_count (round_requirement ?t)) (matched_cover_flows cfg) (cover_onion_flows cfg)"
    note emit = close_and_emit_flows[OF act(1) trans[OF act(2) True] closes p0_def]
    have "\<exists>kept onions. emitted out = kept @ onions \<and> length kept = unat (local_discard_flows p0) + unat (onion_scaffold_flows p0)
      \<and> (\<forall>f \<in> set kept. discarded_flow (cells_per_flow cfg) f)
      \<and> length onions \<le> unat (onion_peelable_flows p0)
      \<and> (case cover_onion_terminal cfg of None \<Rightarrow> onions = []
         | Some t \<Rightarrow> (\<forall>f \<in> set onions. onion_flow L t f)
             \<and> (length onions < unat (onion_peelable_flows p0) \<longrightarrow> onion_build_fails L t))"
    proof (cases "plan_is_empty p0")
      case True
      then show ?thesis using emit(2) by (simp add: plan_empty_iff split: option.split)
    next
      case False
      then obtain p where "generate_plan L \<lparr>gen_requirement = round_requirement ?t, gen_config = cfg\<rparr> L2UniformBatched (real_flow_count ?t) rng
            = ((p, emitted out), rng')" using emit(2) by auto
      from generate_plan_facts[OF assms(1) this p0_def] show ?thesis .
    qed
    then obtain kept onions where flows: "emitted out = kept @ onions"
      "length kept = unat (local_discard_flows p0) + unat (onion_scaffold_flows p0)"
      "\<forall>f \<in> set kept. discarded_flow (cells_per_flow cfg) f" "length onions \<le> unat (onion_peelable_flows p0)"
      and ends: "case cover_onion_terminal cfg of None \<Rightarrow> onions = []
         | Some t \<Rightarrow> (\<forall>f \<in> set onions. onion_flow L t f)
             \<and> (length onions < unat (onion_peelable_flows p0) \<longrightarrow> onion_build_fails L t)" by blast
    have sink: "\<exists>t. cover_onion_terminal cfg = Some t \<and> sink_flow L t f" if "f \<in> set onions" for f
      using that ends assms(5) onion_flow_sinks[OF assms(1-3)] by (cases "cover_onion_terminal cfg") auto
    have p0: "p0 = plan_cover_emit (multihop_defense cfg) L2UniformBatched n (target_flow_count r)
        (matched_cover_flows cfg) (cover_onion_flows cfg)" by (simp add: p0_def begin_round_def)
    have need: "unat (required_cover_flow_count n (target_flow_count r)) = unat (target_flow_count r) - n"
      using assms(4) by (simp add: required_cover_count)
    have "\<not> round_active t' \<and> real_flow_count t' = 0" unfolding emit(1) by simp
    moreover have "case multihop_defense cfg of
           BaselineLocalDiscard \<Rightarrow> n + length kept = max n (unat (target_flow_count r)) \<and> onions = []
         | MatchedLocalDiscard \<Rightarrow> length kept = unat (matched_cover_flows cfg) \<and> onions = []
         | CoverOnions \<Rightarrow> length kept = unat (target_flow_count r) - n
             \<and> length onions \<le> unat (cover_onion_flows cfg)
             \<and> (length onions < unat (cover_onion_flows cfg) \<longrightarrow>
                 (case cover_onion_terminal cfg of None \<Rightarrow> onions = [] | Some t \<Rightarrow> onion_build_fails L t))
         | CoverOnionsScaffold \<Rightarrow> length kept = unat (target_flow_count r) - n + unat (cover_onion_flows cfg)
             \<and> onions = []"
      using flows(2,4) ends need
      by (cases "multihop_defense cfg") (auto simp: p0 plan_cover_emit_def split: option.splits)
    ultimately show ?thesis using flows(1,3) sink True by blast
  qed
qed

theorem bulk_round_covered_witness:
  "1 + length (emitted (fst (close_and_emit toy_lib (cover_config_default :: unit CoverFlowConfig)
      ((observe_real_flow ^^ 1) (begin_round tracker_new_round L2UniformBatched (l2_cover_requirement 3))) 0))) = 3"
proof -
  obtain out t' rng' where c: "close_and_emit toy_lib (cover_config_default :: unit CoverFlowConfig)
      ((observe_real_flow ^^ 1) (begin_round tracker_new_round L2UniformBatched (l2_cover_requirement 3))) 0 = (out, t', rng')"
    by (metis surj_pair)
  have "multihop_defense (cover_config_default :: unit CoverFlowConfig) = BaselineLocalDiscard"
    "cover_onion_terminal (cover_config_default :: unit CoverFlowConfig) = None" by (simp_all add: cover_config_default_def)
  then show ?thesis
    using bulk_round_covered[OF toy_laws _ _ c] unfolding c
    by (auto simp: l2_cover_requirement_def cover_requirement_new_def)
qed

end
