(* ===== verification/Relay_Node.thy ===== *)
theory Relay_Node
  imports Cover_Flow Sphinx_Correct
begin

text \<open>
  \<^verbatim>\<open>crates/aegis-relay/src/node.rs\<close>, \<^verbatim>\<open>delay.rs\<close> and \<^verbatim>\<open>metrics_export.rs\<close>: the relay task. It handles one
  round command or one packet at a time, so it is a step relation on its state: the replay cache, the round tracker, the
  counters, the bounded outbound queue and the cover channel. Counters are \<open>AtomicU64\<close>: they wrap around.
  The logarithm of the mixing delay and the generator's \<open>next_u64\<close> are arguments.
\<close>

section \<open>Bounded queues\<close>

definition RELAY_CHANNEL_CAPACITY :: nat where "RELAY_CHANNEL_CAPACITY = 64"

record 'a mpsc_channel =
  ch_items :: "'a list"
  ch_capacity :: nat
  ch_closed :: bool

definition channel_new :: "nat \<Rightarrow> 'a mpsc_channel" where
  "channel_new cap = \<lparr>ch_items = [], ch_capacity = cap, ch_closed = False\<rparr>"

definition try_send_drop_newest :: "'a mpsc_channel \<Rightarrow> 'a \<Rightarrow> u64 \<Rightarrow> (unit, unit) result \<times> 'a mpsc_channel \<times> u64" where
  "try_send_drop_newest tx x dropped =
     (if ch_closed tx then (Inl (), tx, dropped)
      else if length (ch_items tx) < ch_capacity tx then (Inr (), tx\<lparr>ch_items := ch_items tx @ [x]\<rparr>, dropped)
      else (Inr (), tx, dropped + 1))"

section \<open>Mixing delay\<close>

definition F64_MIN_POSITIVE :: f64 where "F64_MIN_POSITIVE = Fin (1 / 2 ^ 1022)"

definition sample_mixing_delay :: "('r \<Rightarrow> u64 \<times> 'r) \<Rightarrow> (f64 \<Rightarrow> f64) \<Rightarrow> f64 \<Rightarrow> 'r \<Rightarrow> f64 \<times> 'r" where
  "sample_mixing_delay next_u64 log_e mu rng =
     (let (w, rng) = next_u64 rng;
          u = f64_div (f64_of_nat (unat w)) (f64_of_nat (unat (- 1 :: u64)));
          u = (if f64_le u (Fin 0) then F64_MIN_POSITIVE else u)
      in (f64_div (f64_neg (log_e u)) mu, rng))"

section \<open>Counters\<close>

record ForwardedPacket =
  fwd_next_hop :: bytes
  fwd_packet :: SphinxPacket
  fwd_delay :: f64

record RelayCoarseStats =
  processed_ok :: u64
  processed_fail :: u64
  cover_emitted :: u64
  queue_dropped :: u64

definition coarse_failure_rate :: "RelayCoarseStats \<Rightarrow> f64 option" where
  "coarse_failure_rate s =
     (let total = sat_add64 (processed_ok s) (processed_fail s) in
      if total = 0 then None
      else Some (f64_div (f64_of_nat (unat (processed_fail s))) (f64_of_nat (unat total))))"

record RelayDebugStats =
  loop_return_count :: u64
  dropped_count :: u64
  cover_onion_sink_count :: u64
  cover_flow_count :: u64
  cover_cell_count :: u64
  integrity_error_count :: u64
  replay_error_count :: u64
  other_error_count :: u64
  forwarded_count :: u64

record RelayStats = RelayDebugStats +
  st_queue_dropped :: u64

definition relay_stats_new :: RelayStats where
  "relay_stats_new = \<lparr>loop_return_count = 0, dropped_count = 0, cover_onion_sink_count = 0, cover_flow_count = 0,
     cover_cell_count = 0, integrity_error_count = 0, replay_error_count = 0, other_error_count = 0,
     forwarded_count = 0, st_queue_dropped = 0\<rparr>"

definition coarse_stats :: "RelayStats \<Rightarrow> RelayCoarseStats" where
  "coarse_stats s = \<lparr>
     processed_ok = forwarded_count s + loop_return_count s + dropped_count s + cover_onion_sink_count s,
     processed_fail = integrity_error_count s + replay_error_count s + other_error_count s,
     cover_emitted = cover_flow_count s, queue_dropped = st_queue_dropped s\<rparr>"

definition debug_stats :: "RelayStats \<Rightarrow> RelayDebugStats" where
  "debug_stats s = RelayDebugStats.truncate s"

section \<open>The node\<close>

record ('xs, 'ms, 'mp) RelayNode =
  node_id :: bytes
  node_secret :: "('xs, 'ms) RelayKemSecret"
  node_config :: "'mp RelayConfig"

record 'r RelayTask =
  task_replay :: ReplayCache
  task_stats :: RelayStats
  task_round :: BulkRoundTracker
  task_outbound :: "ForwardedPacket mpsc_channel"
  task_cover :: "(Cell list list \<times> nat option) option"
  task_rng :: 'r
  task_running :: bool

text \<open>
  One packet. The result \<open>Inl ()\<close> (the outbound channel is closed) ends the loop of the task.
\<close>

definition process_one_packet ::
    "('xs, 'ms, 'mp, 'r) crypto_lib \<Rightarrow> ('r \<Rightarrow> u64 \<times> 'r) \<Rightarrow> (f64 \<Rightarrow> f64) \<Rightarrow> ('xs, 'ms, 'mp) RelayNode \<Rightarrow> SphinxPacket
      \<Rightarrow> 'r RelayTask \<Rightarrow> (unit, unit) result \<times> 'r RelayTask" where
  "process_one_packet L next_u64 log_e node packet s =
     (let (res, cache) = process L packet (node_secret node) (task_replay s);
          s = s\<lparr>task_replay := cache\<rparr>; st = task_stats s in
      case res of
        Inr (Forward next_hop packet) \<Rightarrow>
          if is_cover_sink_hop next_hop
          then (Inr (), s\<lparr>task_stats := st\<lparr>cover_onion_sink_count := cover_onion_sink_count st + 1\<rparr>\<rparr>)
          else let s = s\<lparr>task_round := observe_real_flow (task_round s)\<rparr>;
                   (delay, rng) = sample_mixing_delay next_u64 log_e (rc_mu (node_config node)) (task_rng s);
                   st = st\<lparr>forwarded_count := forwarded_count st + 1\<rparr>;
                   (sent, out, dropped) = try_send_drop_newest (task_outbound s)
                     \<lparr>fwd_next_hop = next_hop, fwd_packet = packet, fwd_delay = delay\<rparr> (st_queue_dropped st)
            in (sent, s\<lparr>task_rng := rng, task_outbound := out, task_stats := st\<lparr>st_queue_dropped := dropped\<rparr>\<rparr>)
      | Inr LoopReturned \<Rightarrow> (Inr (), s\<lparr>task_stats := st\<lparr>loop_return_count := loop_return_count st + 1\<rparr>\<rparr>)
      | Inr ProcDrop \<Rightarrow> (Inr (), s\<lparr>task_stats := st\<lparr>dropped_count := dropped_count st + 1\<rparr>\<rparr>)
      | Inl IntegrityFailure \<Rightarrow> (Inr (), s\<lparr>task_stats := st\<lparr>integrity_error_count := integrity_error_count st + 1\<rparr>\<rparr>)
      | Inl ReplayError \<Rightarrow> (Inr (), s\<lparr>task_stats := st\<lparr>replay_error_count := replay_error_count st + 1\<rparr>\<rparr>)
      | Inl _ \<Rightarrow> (Inr (), s\<lparr>task_stats := st\<lparr>other_error_count := other_error_count st + 1\<rparr>\<rparr>))"

text \<open>
  The cover channel: the flows handed over so far and, when the receiver goes away, after how many
  more of them (\<open>tx.send\<close> waits for room, so nothing is lost before that).
\<close>

fun send_cover :: "Cell list list \<Rightarrow> Cell list list \<times> nat option \<Rightarrow> Cell list list \<times> nat option" where
  "send_cover flows (sent, None) = (sent @ flows, None)"
| "send_cover flows (sent, Some k) = (sent @ take k flows, Some (k - length flows))"

definition round_command ::
    "('xs, 'ms, 'mp, 'r) crypto_lib \<Rightarrow> ('xs, 'ms, 'mp) RelayNode \<Rightarrow> BulkRoundCommand \<Rightarrow> 'r RelayTask \<Rightarrow> 'r RelayTask" where
  "round_command L node cmd s =
     (case cmd of
        RoundBegin dl r \<Rightarrow> s\<lparr>task_round := begin_round (task_round s) dl r\<rparr>
      | EndRound \<Rightarrow>
          let (res, t, rng) = close_and_emit L (bc_cover_flow_config (rc_bulk_cover (node_config node))) (task_round s) (task_rng s);
              s = s\<lparr>task_round := t, task_rng := rng\<rparr>; st = task_stats s in
          (case res of
             None \<Rightarrow> s
           | Some r \<Rightarrow> s\<lparr>task_stats := st\<lparr>cover_flow_count := cover_flow_count st + ucast (res_flow_count r),
                              cover_cell_count := cover_cell_count st + res_cell_count r\<rparr>,
                        task_cover := map_option (send_cover (res_flows r)) (task_cover s)\<rparr>))"

definition relay_spawn ::
    "('xs, 'ms, 'mp) RelayNode \<Rightarrow> nat \<Rightarrow> bool \<Rightarrow> 'r \<Rightarrow> (CoverPolicyError, 'r RelayTask) result" where
  "relay_spawn node room cover_present rng =
     bind_result (validate_spawn (rc_bulk_cover (node_config node)) cover_present) (\<lambda>_. Inr
       \<lparr>task_replay = replay_new, task_stats = relay_stats_new, task_round = tracker_new_round,
        task_outbound = channel_new room, task_cover = (if cover_present then Some ([], None) else None),
        task_rng = rng, task_running = True\<rparr>)"

text \<open>The commands \<open>start_bulk_cover\<close> sends: \<open>Begin\<close>, then \<open>EndRound\<close> and \<open>Begin\<close> on every further tick.\<close>

definition start_bulk_cover :: "'mp BulkCoverConfig \<Rightarrow> nat \<Rightarrow> BulkRoundCommand list" where
  "start_bulk_cover policy ticks =
     (if \<not> bc_enabled policy then []
      else RoundBegin (bc_dial policy) (bc_requirement policy) #
        (if bc_round_secs policy = 0 then []
         else concat (replicate ticks [EndRound, RoundBegin (bc_dial policy) (bc_requirement policy)])))"

definition packet_delta :: "SphinxPacket \<Rightarrow> bytes" where
  "packet_delta p = slice (ALPHA_LEN + BETA_LEN + GAMMA_LEN) DELTA_LEN p"

section \<open>Exported counters\<close>

definition DEFAULT_MIN_SCRAPE_INTERVAL_SECS :: u64 where "DEFAULT_MIN_SCRAPE_INTERVAL_SECS = 30"
definition DEFAULT_QUANTIZE_BUCKET :: u64 where "DEFAULT_QUANTIZE_BUCKET = 16"

text \<open>A \<open>Duration\<close> and an \<open>Instant\<close> are a number of nanoseconds.\<close>

record MetricsExportConfig =
  min_scrape_interval :: nat
  quantize_bucket :: u64
  allow_high_resolution :: bool
  suppress_ingress_drop_detail :: bool

definition metrics_production :: MetricsExportConfig where
  "metrics_production = \<lparr>min_scrape_interval = unat DEFAULT_MIN_SCRAPE_INTERVAL_SECS * 10 ^ 9,
     quantize_bucket = DEFAULT_QUANTIZE_BUCKET, allow_high_resolution = False, suppress_ingress_drop_detail = True\<rparr>"

definition lab_high_resolution :: MetricsExportConfig where
  "lab_high_resolution = \<lparr>min_scrape_interval = 0, quantize_bucket = 0, allow_high_resolution = True,
     suppress_ingress_drop_detail = False\<rparr>"

definition is_hardened :: "MetricsExportConfig \<Rightarrow> bool" where
  "is_hardened c \<longleftrightarrow> \<not> allow_high_resolution c
     \<and> (0 < min_scrape_interval c \<or> 1 < quantize_bucket c \<or> suppress_ingress_drop_detail c)"

record ExportedRelayStats =
  exp_coarse :: RelayCoarseStats
  ingress_dropped_frames :: "u64 option"

datatype MetricsExportError = TooSoon nat

record MetricsExportGate =
  gate_config :: MetricsExportConfig
  last_ok :: "nat option"

definition gate_new :: "MetricsExportConfig \<Rightarrow> MetricsExportGate" where
  "gate_new c = \<lparr>gate_config = c, last_ok = None\<rparr>"

definition quantize_u64 :: "u64 \<Rightarrow> u64 \<Rightarrow> u64" where
  "quantize_u64 v bucket = (if bucket \<le> 1 then v else v div bucket * bucket)"

definition quantize_coarse :: "RelayCoarseStats \<Rightarrow> u64 \<Rightarrow> RelayCoarseStats" where
  "quantize_coarse s bucket = \<lparr>processed_ok = quantize_u64 (processed_ok s) bucket,
     processed_fail = quantize_u64 (processed_fail s) bucket, cover_emitted = quantize_u64 (cover_emitted s) bucket,
     queue_dropped = quantize_u64 (queue_dropped s) bucket\<rparr>"

definition export_at ::
    "MetricsExportGate \<Rightarrow> RelayCoarseStats \<Rightarrow> u64 \<Rightarrow> nat \<Rightarrow> (MetricsExportError, ExportedRelayStats) result \<times> MetricsExportGate" where
  "export_at g coarse dropped now =
     (let c = gate_config g;
          paced = \<not> allow_high_resolution c \<and> 0 < min_scrape_interval c in
      case (if paced then last_ok g else None) of
        Some prev \<Rightarrow>
          if now - prev < min_scrape_interval c
          then (Inl (TooSoon (min_scrape_interval c - (now - prev))), g)
          else (Inr \<lparr>exp_coarse = quantize_coarse coarse (quantize_bucket c),
                  ingress_dropped_frames = (if suppress_ingress_drop_detail c then None
                    else Some (quantize_u64 dropped (quantize_bucket c)))\<rparr>, g\<lparr>last_ok := Some now\<rparr>)
      | None \<Rightarrow>
          (Inr \<lparr>exp_coarse = (if allow_high_resolution c then coarse else quantize_coarse coarse (quantize_bucket c)),
             ingress_dropped_frames = (if allow_high_resolution c then Some dropped
               else if suppress_ingress_drop_detail c then None
               else Some (quantize_u64 dropped (quantize_bucket c)))\<rparr>,
           if paced then g\<lparr>last_ok := Some now\<rparr> else g))"

text \<open>Two exports of a paced gate are an interval apart, and what they show is blurred.\<close>

lemma exports_apart:
  assumes "\<not> allow_high_resolution (gate_config g)" "0 < min_scrape_interval (gate_config g)"
    and "export_at g a d t = (Inr x, g')" "export_at g' a' d' t' = (Inr y, g'')"
  shows "min_scrape_interval (gate_config g) \<le> t' - t"
  using assms by (auto simp: export_at_def Let_def split: option.splits if_splits)

lemma quantize_u64_value: "1 < b \<Longrightarrow> unat (quantize_u64 v b) = unat v div unat b * unat b"
proof -
  assume "1 < b"
  have "unat v div unat b * unat b < 2 ^ 64"
    using unsigned_less[of v, where ?'a = nat] div_times_less_eq_dividend[of "unat v" "unat b"]
    by (simp del: div_times_less_eq_dividend)
  moreover have "unat v div unat b \<le> unat v" by simp
  ultimately have "(unat v div unat b) mod 2 ^ 64 * unat b mod 2 ^ 64 = unat v div unat b * unat b"
    using unsigned_less[of v, where ?'a = nat] by (metis mod_less mod_mult_left_eq)
  then show ?thesis using \<open>1 < b\<close> by (simp add: quantize_u64_def word_le_nat_alt word_less_nat_alt unat_word_ariths unat_div)
qed

section \<open>The steps of the task\<close>

text \<open>
  \<open>node_run\<close> follows the task from its start: it handles commands and packets in any order while it runs; the receiver
  takes from the outbound queue or closes it at any time. \<open>handled\<close> counts the packets and
  \<open>taken\<close> the forwarded packets the receiver took.
\<close>

inductive node_run ::
    "('xs, 'ms, 'mp, 'r) crypto_lib \<Rightarrow> ('r \<Rightarrow> u64 \<times> 'r) \<Rightarrow> (f64 \<Rightarrow> f64) \<Rightarrow> ('xs, 'ms, 'mp) RelayNode
      \<Rightarrow> 'r RelayTask \<Rightarrow> nat \<Rightarrow> ForwardedPacket list \<Rightarrow> bool"
  for L next_u64 log_e node where
  run_spawn: "relay_spawn node RELAY_CHANNEL_CAPACITY cover rng = Inr s \<Longrightarrow> node_run L next_u64 log_e node s 0 []"
| run_command: "node_run L next_u64 log_e node s handled taken \<Longrightarrow> task_running s \<Longrightarrow>
    node_run L next_u64 log_e node (round_command L node cmd s) handled taken"
| run_packet: "node_run L next_u64 log_e node s handled taken \<Longrightarrow> task_running s \<Longrightarrow> wf_packet p \<Longrightarrow>
    process_one_packet L next_u64 log_e node p s = (res, s') \<Longrightarrow>
    node_run L next_u64 log_e node (s'\<lparr>task_running := (res = Inr ())\<rparr>) (Suc handled) taken"
| run_take: "node_run L next_u64 log_e node s handled taken \<Longrightarrow> ch_items (task_outbound s) = f # rest \<Longrightarrow>
    node_run L next_u64 log_e node (s\<lparr>task_outbound := (task_outbound s)\<lparr>ch_items := rest\<rparr>\<rparr>) handled (taken @ [f])"
| run_close: "node_run L next_u64 log_e node s handled taken \<Longrightarrow>
    node_run L next_u64 log_e node (s\<lparr>task_outbound := (task_outbound s)\<lparr>ch_closed := True\<rparr>\<rparr>) handled taken"

section \<open>What every reachable task satisfies\<close>

definition node_inv :: "'r RelayTask \<Rightarrow> nat \<Rightarrow> ForwardedPacket list \<Rightarrow> bool" where
  "node_inv s handled taken \<longleftrightarrow>
     ch_capacity (task_outbound s) = RELAY_CHANNEL_CAPACITY
     \<and> length (ch_items (task_outbound s)) \<le> RELAY_CHANNEL_CAPACITY
     \<and> (\<forall>f \<in> set (taken @ ch_items (task_outbound s)).
          length (fwd_next_hop f) = 32 \<and> wf_packet (fwd_packet f) \<and> \<not> is_cover_sink_hop (fwd_next_hop f))
     \<and> processed_ok (coarse_stats (task_stats s)) + processed_fail (coarse_stats (task_stats s)) = of_nat handled
     \<and> forwarded_count (task_stats s) = of_nat (length taken + length (ch_items (task_outbound s)))
          + st_queue_dropped (task_stats s) + (if task_running s then 0 else 1)
     \<and> loop_return_count (task_stats s) = 0 \<and> dropped_count (task_stats s) = 0
     \<and> replay_inv (task_replay s)"

lemma process_replay_inv:
  assumes "wf_packet p" "replay_inv rc"
  shows "replay_inv (snd (process L p sk rc))"
  using process_result[OF assms(1), of L sk rc] check_and_insert_inv(1)[OF assms(2)] assms(2) by auto

lemma round_command_keeps:
  "task_replay (round_command L node cmd s) = task_replay s \<and> task_outbound (round_command L node cmd s) = task_outbound s
   \<and> task_running (round_command L node cmd s) = task_running s
   \<and> coarse_stats (task_stats (round_command L node cmd s)) =
       (coarse_stats (task_stats s))\<lparr>cover_emitted := cover_flow_count (task_stats (round_command L node cmd s))\<rparr>
   \<and> forwarded_count (task_stats (round_command L node cmd s)) = forwarded_count (task_stats s)
   \<and> st_queue_dropped (task_stats (round_command L node cmd s)) = st_queue_dropped (task_stats s)
   \<and> loop_return_count (task_stats (round_command L node cmd s)) = loop_return_count (task_stats s)
   \<and> dropped_count (task_stats (round_command L node cmd s)) = dropped_count (task_stats s)"
  by (simp add: round_command_def coarse_stats_def Let_def split: BulkRoundCommand.split prod.split option.split)

lemma node_inv_packet:
  assumes inv: "node_inv s handled taken" and "task_running s" "wf_packet p"
    and step: "process_one_packet L next_u64 log_e node p s = (res, s')"
  shows "node_inv (s'\<lparr>task_running := (res = Inr ())\<rparr>) (Suc handled) taken"
proof -
  obtain r cache where pr: "process L p (node_secret node) (task_replay s) = (r, cache)" by fastforce
  have cache: "replay_inv cache"
    using process_replay_inv[OF assms(3), of "task_replay s" L "node_secret node"] inv pr by (simp add: node_inv_def)
  note out = process_result[OF assms(3), of L "node_secret node" "task_replay s", unfolded pr fst_conv snd_conv]
  show ?thesis
  proof (cases r)
    case (Inl e)
    then show ?thesis
      using step inv cache assms(2) pr
      by (cases e) (auto simp: process_one_packet_def node_inv_def coarse_stats_def Let_def ac_simps)
  next
    case (Inr x)
    then obtain next_hop q where x: "x = Forward next_hop q" "length next_hop = 32" "wf_packet q"
      using out by (cases x) simp_all
    show ?thesis
    proof (cases "is_cover_sink_hop next_hop")
      case True
      then show ?thesis
        using step inv cache assms(2) pr Inr x
        by (auto simp: process_one_packet_def node_inv_def coarse_stats_def Let_def ac_simps)
    next
      case False
      obtain delay rng where d: "sample_mixing_delay next_u64 log_e (rc_mu (node_config node)) (task_rng s) = (delay, rng)" by fastforce
      show ?thesis
        using step inv cache assms(2) pr Inr x False d
        by (auto simp: process_one_packet_def node_inv_def coarse_stats_def try_send_drop_newest_def Let_def ac_simps split: if_splits)
    qed
  qed
qed

text \<open>C23. The relay task is bounded and accounts for everything: in every state it can reach, the outbound queue never
  exceeds its capacity; every packet it queued or handed over is a full packet for a 32-byte hop that is not the cover
  sink; the handled packets are exactly the ok and the failed ones of the exported counters; the forwarded ones are
  exactly those handed over, queued or dropped on a full queue (plus the one that met a closed queue and
  stopped the task); and the replay cache stays consistent.\<close>

theorem relay_task_accounts:
  assumes "node_run L next_u64 log_e node s handled taken"
  shows "length (ch_items (task_outbound s)) \<le> RELAY_CHANNEL_CAPACITY
    \<and> (\<forall>f \<in> set (taken @ ch_items (task_outbound s)).
          length (fwd_next_hop f) = 32 \<and> wf_packet (fwd_packet f) \<and> \<not> is_cover_sink_hop (fwd_next_hop f))
    \<and> processed_ok (coarse_stats (task_stats s)) + processed_fail (coarse_stats (task_stats s)) = of_nat handled
    \<and> forwarded_count (task_stats s) = of_nat (length taken + length (ch_items (task_outbound s)))
          + queue_dropped (coarse_stats (task_stats s)) + (if task_running s then 0 else 1)
    \<and> replay_inv (task_replay s)"
proof -
  from assms have "node_inv s handled taken"
  proof induction
    case (run_spawn cover rng s)
    then show ?case
      by (auto simp: relay_spawn_def bind_result_Inr_iff node_inv_def relay_stats_new_def coarse_stats_def channel_new_def
          replay_new_def replay_inv_with_capacity DEFAULT_REPLAY_CACHE_CAPACITY_def)
  next
    case (run_command s handled taken cmd)
    then show ?case using round_command_keeps[of L node cmd s] by (simp add: node_inv_def)
  next
    case (run_packet s handled taken p res s')
    then show ?case using node_inv_packet by blast
  next
    case (run_take s handled taken f rest)
    then show ?case by (auto simp: node_inv_def)
  next
    case (run_close s handled taken)
    then show ?case by (simp add: node_inv_def)
  qed
  moreover have "queue_dropped (coarse_stats (task_stats s)) = st_queue_dropped (task_stats s)" by (simp add: coarse_stats_def)
  ultimately show ?thesis unfolding node_inv_def by (simp only:) blast
qed

definition example_node :: "(nat, unit, unit) RelayNode" where
  "example_node = \<lparr>node_id = replicate 32 1, node_secret = toy_key 1, node_config = relay_config_default\<rparr>"

theorem relay_task_accounts_witness:
  "\<exists>s. node_run toy_lib (\<lambda>r. (7, r)) (\<lambda>x. x) example_node s 1 []
     \<and> processed_ok (coarse_stats (task_stats s)) + processed_fail (coarse_stats (task_stats s)) = 1"
proof -
  have "\<exists>s. relay_spawn example_node RELAY_CHANNEL_CAPACITY True (0 :: nat) = Inr s \<and> task_running s"
    by (simp add: relay_spawn_def example_node_def relay_config_default_def bulk_cover_default_def validate_spawn_def)
  then obtain s where s: "relay_spawn example_node RELAY_CHANNEL_CAPACITY True (0 :: nat) = Inr s" "task_running s" by blast
  obtain res s' where p: "process_one_packet toy_lib (\<lambda>r. (7, r)) (\<lambda>x. x) example_node toy_packet s = (res, s')" by fastforce
  have run: "node_run toy_lib (\<lambda>r. (7, r)) (\<lambda>x. x) example_node (s'\<lparr>task_running := (res = Inr ())\<rparr>) (Suc 0) []"
    by (rule node_run.run_packet[OF node_run.run_spawn[OF s(1)] s(2) toy_packet_facts(1) p])
  show ?thesis using relay_task_accounts[OF run] run by auto
qed

end
