(* ===== verification/Client_Padding.thy ===== *)
theory Client_Padding
  imports Float64
begin

text \<open>
  \<^verbatim>\<open>crates/aegis-client/src/padding.rs\<close>: the hard-cap padder that shows exactly Q deliveries every
  round, and the batch analysis ported from the simulator. A \<open>VecDeque\<close> is a list, front first.
\<close>

section \<open>The padder\<close>

record HardCapConfig =
  cap_q :: u32

definition hard_cap_config_new :: "u32 \<Rightarrow> HardCapConfig" where
  "hard_cap_config_new q = \<lparr>cap_q = q\<rparr>"

datatype 'a DeliverySlot = RealSlot 'a | DummySlot

record 'a RoundOutput =
  out_round :: u64
  out_slots :: "'a DeliverySlot list"
  out_real_count :: u32
  out_dummy_count :: u32

definition observable_count :: "'a RoundOutput \<Rightarrow> u32" where
  "observable_count r = of_nat (length (out_slots r))"

record 'a HardCapPadder =
  pad_config :: HardCapConfig
  pad_pending :: "'a list"
  pad_round :: u64
  pad_deferral_slots :: f64
  last_real_count :: u32
  last_dummy_count :: u32

definition padder_new :: "HardCapConfig \<Rightarrow> 'a HardCapPadder" where
  "padder_new c = \<lparr>pad_config = c, pad_pending = [], pad_round = 0, pad_deferral_slots = Fin 0,
     last_real_count = 0, last_dummy_count = 0\<rparr>"

definition deliver_real :: "'a HardCapPadder \<Rightarrow> 'a \<Rightarrow> 'a HardCapPadder" where
  "deliver_real p x = p\<lparr>pad_pending := pad_pending p @ [x]\<rparr>"

definition pad_backlog :: "'a HardCapPadder \<Rightarrow> nat" where
  "pad_backlog p = length (pad_pending p)"

definition is_stable_for_mean_arrival :: "f64 \<Rightarrow> u32 \<Rightarrow> bool" where
  "is_stable_for_mean_arrival mean q \<longleftrightarrow> f64_lt mean (f64_of_nat (unat q))"

text \<open>The loop that fills the slots: a real item while there is one.\<close>

fun fill_round :: "nat \<Rightarrow> 'a list \<Rightarrow> 'a DeliverySlot list \<times> 'a list" where
  "fill_round 0 pending = ([], pending)"
| "fill_round (Suc n) [] = (let (slots, rest) = fill_round n [] in (DummySlot # slots, rest))"
| "fill_round (Suc n) (x # pending) = (let (slots, rest) = fill_round n pending in (RealSlot x # slots, rest))"

fun is_real :: "'a DeliverySlot \<Rightarrow> bool" where
  "is_real (RealSlot x) = True"
| "is_real DummySlot = False"

definition round_tick :: "'a HardCapPadder \<Rightarrow> 'a RoundOutput \<times> 'a HardCapPadder" where
  "round_tick p =
     (let q = cap_q (pad_config p);
          (slots, rest) = fill_round (unat q) (pad_pending p);
          reals = of_nat (length (filter is_real slots)) :: u32;
          dummies = q - reals;
          r = pad_round p
      in (\<lparr>out_round = r, out_slots = slots, out_real_count = reals, out_dummy_count = dummies\<rparr>,
          p\<lparr>pad_pending := rest, last_real_count := reals, last_dummy_count := dummies,
            pad_deferral_slots := f64_div (f64_of_nat (length rest)) (f64_of_nat (unat q)), pad_round := r + 1\<rparr>))"

definition arrive :: "unit HardCapPadder \<Rightarrow> u32 \<Rightarrow> unit HardCapPadder" where
  "arrive p n = ((\<lambda>p. deliver_real p ()) ^^ unat n) p"

section \<open>The batch analysis\<close>

record HardCapStats =
  hc_cap :: f64
  mean_deferral :: f64
  p99_deferral :: f64
  hc_stable :: bool

definition f64_sum :: "f64 list \<Rightarrow> f64" where
  "f64_sum xs = fold (\<lambda>x s. f64_add s x) xs (Fin 0)"

fun deferral_loop :: "f64 \<Rightarrow> f64 list \<Rightarrow> f64 \<Rightarrow> f64 list" where
  "deferral_loop cap [] backlog = []"
| "deferral_loop cap (x # counts) backlog =
     (let backlog = f64_add backlog x;
          backlog = f64_sub backlog (f64_min backlog cap)
      in (if f64_lt (Fin 0) cap then f64_div backlog cap else Fin 0) # deferral_loop cap counts backlog)"

text \<open>\<open>sort_by(partial_cmp)\<close> with incomparable values taken as equal: a stable insertion sort.\<close>

fun insert_f64 :: "f64 \<Rightarrow> f64 list \<Rightarrow> f64 list" where
  "insert_f64 x [] = [x]"
| "insert_f64 x (y # ys) = (if f64_lt y x then y # insert_f64 x ys else x # y # ys)"

definition percentile :: "f64 list \<Rightarrow> f64 \<Rightarrow> f64" where
  "percentile values p =
     (if values = [] then Fin 0
      else let sorted = foldr insert_f64 values [];
               idx = f64_to_u64 (f64_round (f64_mul (f64_div p (Fin 100)) (f64_sub (f64_of_nat (length sorted)) (Fin 1))))
        in sorted ! min idx (length sorted - 1))"

definition analyze_hard_cap :: "f64 list \<Rightarrow> f64 \<Rightarrow> HardCapStats" where
  "analyze_hard_cap counts c =
     (let m = (if counts = [] then Fin 0 else f64_div (f64_sum counts) (f64_of_nat (length counts)));
          cap = f64_mul c m;
          lat = deferral_loop cap counts (Fin 0);
          mean = (if lat = [] then Fin 0 else f64_div (f64_sum lat) (f64_of_nat (length lat)))
      in \<lparr>hc_cap = cap, mean_deferral = mean, p99_deferral = percentile lat (Fin 99), hc_stable = f64_lt m cap\<rparr>)"

section \<open>What an observer sees\<close>

lemma fill_round_eq:
  "fill_round n xs = (map RealSlot (take n xs) @ replicate (n - length xs) DummySlot, drop n xs)"
  by (induction n xs rule: fill_round.induct) simp_all

text \<open>The reference: the backlog of the queue with Q services per round, and what is released.\<close>

fun backlogs :: "nat \<Rightarrow> nat \<Rightarrow> nat list \<Rightarrow> nat list" where
  "backlogs q b [] = []"
| "backlogs q b (a # arrivals) = (b + a - q) # backlogs q (b + a - q) arrivals"

fun releases :: "nat \<Rightarrow> nat \<Rightarrow> nat list \<Rightarrow> nat list" where
  "releases q b [] = []"
| "releases q b (a # arrivals) = min q (b + a) # releases q (b + a - q) arrivals"

text \<open>A padder run: before each tick the batch of that round arrives.\<close>

fun run_rounds :: "'a HardCapPadder \<Rightarrow> 'a list list \<Rightarrow> ('a RoundOutput \<times> nat) list \<times> 'a HardCapPadder" where
  "run_rounds p [] = ([], p)"
| "run_rounds p (batch # batches) =
     (let (out, p) = round_tick (fold (\<lambda>x p. deliver_real p x) batch p);
          (outs, p') = run_rounds p batches
      in ((out, pad_backlog p) # outs, p'))"

fun reals :: "'a DeliverySlot list \<Rightarrow> 'a list" where
  "reals [] = []"
| "reals (RealSlot x # slots) = x # reals slots"
| "reals (DummySlot # slots) = reals slots"

lemma reals_append [simp]: "reals (xs @ ys) = reals xs @ reals ys"
  by (induction xs rule: reals.induct) simp_all

lemma reals_map [simp]: "reals (map RealSlot xs) = xs"
  by (induction xs) simp_all

lemma reals_dummies [simp]: "reals (replicate n DummySlot) = []"
  by (induction n) simp_all

lemma filter_is_real: "filter is_real (map RealSlot xs @ replicate n DummySlot) = map RealSlot xs"
  by (simp add: filter_map comp_def)

lemma deliver_all: "fold (\<lambda>x p. deliver_real p x) xs p = p\<lparr>pad_pending := pad_pending p @ xs\<rparr>"
  by (induction xs arbitrary: p) (simp_all add: deliver_real_def)

lemma round_tick_facts:
  fixes p :: "'a HardCapPadder"
  assumes "round_tick p = (out, p')" "q = unat (cap_q (pad_config p))"
  shows "length (out_slots out) = q" "reals (out_slots out) = take q (pad_pending p)"
    "unat (out_real_count out) = min q (length (pad_pending p))"
    "unat (out_dummy_count out) = q - length (pad_pending p)" "out_round out = pad_round p"
    "pad_pending p' = drop q (pad_pending p)" "pad_config p' = pad_config p" "pad_round p' = pad_round p + 1"
proof -
  let ?n = "length (pad_pending p)"
  have q: "q < 2 ^ 32" unfolding assms(2) using unsigned_less[of "cap_q (pad_config p)", where ?'a = nat] by simp
  have out: "out = \<lparr>out_round = pad_round p, out_slots = map RealSlot (take q (pad_pending p)) @ replicate (q - ?n) DummySlot,
      out_real_count = of_nat (min q ?n), out_dummy_count = cap_q (pad_config p) - of_nat (min q ?n)\<rparr>"
    using assms by (simp add: round_tick_def Let_def fill_round_eq filter_is_real min.commute)
  have p': "pad_pending p' = drop q (pad_pending p)" "pad_config p' = pad_config p" "pad_round p' = pad_round p + 1"
    using assms by (auto simp: round_tick_def Let_def fill_round_eq)
  have r: "unat (of_nat (min q ?n) :: u32) = min q ?n" using q by (simp add: unat_of_nat)
  then have "unat (cap_q (pad_config p) - of_nat (min q ?n)) = q - min q ?n"
    using assms(2) by (subst unat_sub) (simp_all add: word_le_nat_alt)
  then show "length (out_slots out) = q" "reals (out_slots out) = take q (pad_pending p)"
    "unat (out_real_count out) = min q ?n" "unat (out_dummy_count out) = q - ?n" "out_round out = pad_round p"
    "pad_pending p' = drop q (pad_pending p)" "pad_config p' = pad_config p" "pad_round p' = pad_round p + 1"
    using r p' by (simp_all add: out)
qed

text \<open>C24. The hard cap is exact and loses nothing. Whatever arrives in whichever round, an observer sees exactly Q
  slots in every round; the real items leave in arrival order, each exactly once (those not yet released are
  pending); and the number released and the backlog after each round are those of the reference queue with Q services
  per round, which is what the simulator computes.\<close>

theorem hard_cap_equals_reference:
  assumes "run_rounds p batches = (outs, p')" "q = unat (cap_q (pad_config p))"
  shows "(\<forall>(out, b) \<in> set outs. length (out_slots out) = q \<and> unat (out_real_count out) + unat (out_dummy_count out) = q)
    \<and> concat (map (\<lambda>(out, b). reals (out_slots out)) outs) @ pad_pending p' = pad_pending p @ concat batches
    \<and> map (\<lambda>(out, b). unat (out_real_count out)) outs = releases q (length (pad_pending p)) (map length batches)
    \<and> map snd outs = backlogs q (length (pad_pending p)) (map length batches)"
  using assms
proof (induction batches arbitrary: p outs)
  case Nil
  then show ?case by simp
next
  case (Cons batch batches)
  let ?p = "p\<lparr>pad_pending := pad_pending p @ batch\<rparr>"
  obtain out p1 where tick: "round_tick ?p = (out, p1)" by fastforce
  obtain outs' where rest: "run_rounds p1 batches = (outs', p')" "outs = (out, pad_backlog p1) # outs'"
    using Cons.prems(1) by (auto simp: deliver_all tick split: prod.splits)
  have q: "q = unat (cap_q (pad_config ?p))" using Cons.prems(2) by simp
  note t = round_tick_facts[OF tick q]
  have "q = unat (cap_q (pad_config p1))" using t(7) q by simp
  note IH = Cons.IH[OF rest(1) this]
  have "pad_pending p @ batch = take q (pad_pending p @ batch) @ pad_pending p1"
    using t(6) append_take_drop_id[of q "pad_pending p @ batch"] by (simp del: take_append drop_append append_take_drop_id)
  then have "concat (map (\<lambda>(out, b). reals (out_slots out)) outs) @ pad_pending p' = pad_pending p @ concat (batch # batches)"
    using IH t(2) rest(2) by (simp del: take_append)
  moreover have "length (pad_pending p1) = length (pad_pending p) + length batch - q" using t(6) by simp
  ultimately show ?case using IH t(1,3,4) rest(2) by (simp add: pad_backlog_def)
qed

theorem hard_cap_equals_reference_witness:
  "let (outs, p) = run_rounds (padder_new (hard_cap_config_new 2)) [[1, 2, 3 :: nat], [], [4]] in
     map (\<lambda>(out, b). unat (out_real_count out)) outs = [2, 1, 1] \<and> map snd outs = [1, 0, 0]"
proof -
  obtain outs p where r: "run_rounds (padder_new (hard_cap_config_new 2)) [[1, 2, 3 :: nat], [], [4]] = (outs, p)" by fastforce
  show ?thesis
    using hard_cap_equals_reference[OF r refl] unfolding r by (simp add: padder_new_def hard_cap_config_new_def)
qed

end
