(* ===== verification/Client_Session.thy ===== *)
theory Client_Session
  imports Float64 Fragment Text_Codec "HOL-Library.Sublist"
begin

text \<open>
  \<^verbatim>\<open>crates/aegis-client/src/emitter.rs\<close>, \<^verbatim>\<open>driver.rs\<close> and \<^verbatim>\<open>session.rs\<close>: the constant-rate emitter and the
  session task that feeds it. The task and the client interleave freely, so the session is a step relation: one
  received cell, one tick, one \<open>try_send\<close> at a time. A \<open>Duration\<close> is a number of nanoseconds.
\<close>

section \<open>Configuration\<close>

definition DEFAULT_MAX_RHO :: f64 where "DEFAULT_MAX_RHO = f64_of_rat (7 / 10)"
definition DEFAULT_PEAK_RATE_PER_SEC :: f64 where "DEFAULT_PEAK_RATE_PER_SEC = Fin 2"
definition DEFAULT_MAX_BACKLOG :: nat where "DEFAULT_MAX_BACKLOG = 256"
definition DATA_HEADER_LEN :: nat where "DATA_HEADER_LEN = 1 + 2"
definition MAX_CELL_PAYLOAD :: nat where "MAX_CELL_PAYLOAD = CELL_LEN - DATA_HEADER_LEN"

record RhoLimitError =
  rle_rho :: f64
  rle_max_rho :: f64
  rle_peak_rate :: f64
  rle_tau_secs :: f64

datatype BacklogFullError = BacklogFull nat

record EmitterConfig =
  em_tau :: nat
  peak_rate_per_sec :: f64
  max_backlog :: nat

definition emitter_config_default :: EmitterConfig where
  "emitter_config_default = \<lparr>em_tau = 350 * 10 ^ 6, peak_rate_per_sec = DEFAULT_PEAK_RATE_PER_SEC, max_backlog = DEFAULT_MAX_BACKLOG\<rparr>"

definition rho_at_peak_rate :: "f64 \<Rightarrow> nat \<Rightarrow> f64" where
  "rho_at_peak_rate peak tau = f64_mul peak (as_secs_f64 tau)"

definition rho :: "EmitterConfig \<Rightarrow> f64" where
  "rho c = rho_at_peak_rate (peak_rate_per_sec c) (em_tau c)"

definition validate_rho_with_options :: "EmitterConfig \<Rightarrow> f64 \<Rightarrow> bool \<Rightarrow> (RhoLimitError, unit) result" where
  "validate_rho_with_options c max_rho allow_high_rho =
     (if allow_high_rho then Inr ()
      else if f64_lt max_rho (rho c)
      then Inl \<lparr>rle_rho = rho c, rle_max_rho = max_rho, rle_peak_rate = peak_rate_per_sec c, rle_tau_secs = as_secs_f64 (em_tau c)\<rparr>
      else Inr ())"

definition validate_rho :: "EmitterConfig \<Rightarrow> (RhoLimitError, unit) result" where
  "validate_rho c = validate_rho_with_options c DEFAULT_MAX_RHO False"

section \<open>The emitter\<close>

record 'r ConstantRateEmitter =
  em_config :: EmitterConfig
  payload_queue :: "bytes list"
  cell_queue :: "Cell list"
  em_tick :: u64
  dropped_enqueue_count :: u64
  em_rng :: 'r

definition emitter_new :: "EmitterConfig \<Rightarrow> 'r \<Rightarrow> 'r ConstantRateEmitter" where
  "emitter_new c rng = \<lparr>em_config = c, payload_queue = [], cell_queue = [], em_tick = 0, dropped_enqueue_count = 0, em_rng = rng\<rparr>"

definition pending_emissions :: "'r ConstantRateEmitter \<Rightarrow> nat" where
  "pending_emissions e = length (cell_queue e) + length (payload_queue e)"

definition em_backlog :: "'r ConstantRateEmitter \<Rightarrow> nat" where
  "em_backlog e = length (payload_queue e)"

definition try_push_real :: "'r ConstantRateEmitter \<Rightarrow> (BacklogFullError, unit) result" where
  "try_push_real e =
     (if max_backlog (em_config e) \<le> pending_emissions e then Inl (BacklogFull (max_backlog (em_config e))) else Inr ())"

definition enqueue :: "'r ConstantRateEmitter \<Rightarrow> bytes \<Rightarrow> (BacklogFullError, unit) result \<times> 'r ConstantRateEmitter" where
  "enqueue e payload =
     (case try_push_real e of Inl x \<Rightarrow> (Inl x, e) | Inr _ \<Rightarrow> (Inr (), e\<lparr>payload_queue := payload_queue e @ [payload]\<rparr>))"

definition enqueue_cell :: "'r ConstantRateEmitter \<Rightarrow> Cell \<Rightarrow> (BacklogFullError, unit) result \<times> 'r ConstantRateEmitter" where
  "enqueue_cell e cell =
     (case try_push_real e of Inl x \<Rightarrow> (Inl x, e) | Inr _ \<Rightarrow> (Inr (), e\<lparr>cell_queue := cell_queue e @ [cell]\<rparr>))"

definition note_dropped_enqueue :: "'r ConstantRateEmitter \<Rightarrow> 'r ConstantRateEmitter" where
  "note_dropped_enqueue e = e\<lparr>dropped_enqueue_count := dropped_enqueue_count e + 1\<rparr>"

definition enqueue_drop_newest :: "'r ConstantRateEmitter \<Rightarrow> bytes \<Rightarrow> 'r ConstantRateEmitter" where
  "enqueue_drop_newest e payload =
     (if max_backlog (em_config e) \<le> pending_emissions e then note_dropped_enqueue e
      else e\<lparr>payload_queue := payload_queue e @ [payload]\<rparr>)"

text \<open>\<open>fill\<close> is \<open>fill_bytes\<close> of the generator. A payload beyond the capacity is cut (\<open>debug_assert!\<close> only).\<close>

definition encode_data_cell :: "('r \<Rightarrow> nat \<Rightarrow> bytes \<times> 'r) \<Rightarrow> bytes \<Rightarrow> 'r \<Rightarrow> Cell \<times> 'r" where
  "encode_data_cell fill payload rng =
     (let buf = replicate CELL_LEN 0;
          buf = buf[0 := command_byte Data];
          n = (if length payload < 2 ^ 16 then length payload else 2 ^ 16 - 1);
          buf = put 1 [of_nat (n div 256), of_nat (n mod 256)] buf;
          copy_len = min (length payload) MAX_CELL_PAYLOAD;
          buf = put 3 (take copy_len payload) buf;
          (noise, rng) = fill rng (CELL_LEN - (3 + copy_len))
      in (put (3 + copy_len) noise buf, rng))"

definition encode_dummy_cell :: "('r \<Rightarrow> nat \<Rightarrow> bytes \<times> 'r) \<Rightarrow> 'r \<Rightarrow> Cell \<times> 'r" where
  "encode_dummy_cell fill rng =
     (let buf = (replicate CELL_LEN 0)[0 := command_byte DropCell];
          (noise, rng) = fill rng (CELL_LEN - 1)
      in (put 1 noise buf, rng))"

definition next_cell :: "('r \<Rightarrow> nat \<Rightarrow> bytes \<times> 'r) \<Rightarrow> 'r ConstantRateEmitter \<Rightarrow> (u64 \<times> Cell) \<times> 'r ConstantRateEmitter" where
  "next_cell fill e =
     (let (cell, e') = (case cell_queue e of
            c # cs \<Rightarrow> (c, e\<lparr>cell_queue := cs\<rparr>)
          | [] \<Rightarrow> (case payload_queue e of
                p # ps \<Rightarrow> let (c, rng) = encode_data_cell fill p (em_rng e) in (c, e\<lparr>payload_queue := ps, em_rng := rng\<rparr>)
              | [] \<Rightarrow> let (c, rng) = encode_dummy_cell fill (em_rng e) in (c, e\<lparr>em_rng := rng\<rparr>)))
      in ((em_tick e, cell), e'\<lparr>em_tick := em_tick e + 1\<rparr>))"

section \<open>The session\<close>

record PacedSessionConfig =
  emitter_config :: EmitterConfig
  cover_after_send :: nat
  psc_allow_high_rho :: bool

definition env_allows_high_rho :: "string option \<Rightarrow> bool" where
  "env_allows_high_rho v = (case v of None \<Rightarrow> False
     | Some s \<Rightarrow> s = ''1'' \<or> map ascii_lower s = ''true'')"

definition validate_paced_config :: "string option \<Rightarrow> PacedSessionConfig \<Rightarrow> (RhoLimitError, unit) result" where
  "validate_paced_config env c =
     validate_rho_with_options (emitter_config c) DEFAULT_MAX_RHO (psc_allow_high_rho c \<or> env_allows_high_rho env)"

text \<open>
  The client's handle and the driver task together: the enqueue channel, the emitter, the cover window, the
  two watch values \<open>cover_done\<close> and \<open>pending\<close>, the cells written to the transport, and the cell whose write failed.
\<close>

record 'r PacedSession =
  ses_channel :: "Cell list"
  ses_emitter :: "'r ConstantRateEmitter"
  ses_cover_after_send :: nat
  cover_deadline :: "nat option"
  saw_real_since_cover :: bool
  cover_done :: bool
  ses_pending :: nat
  ses_shutdown :: bool
  ses_running :: bool
  ses_sent :: "Cell list"
  ses_failed :: "Cell list"

datatype SessionStartError = StartRho RhoLimitError | StartChannelPanic

text \<open>\<open>mpsc::channel\<close> panics on a bound of 0.\<close>

definition start_with_transport :: "string option \<Rightarrow> PacedSessionConfig \<Rightarrow> 'r \<Rightarrow> (SessionStartError, 'r PacedSession) result" where
  "start_with_transport env c rng =
     (case validate_paced_config env c of Inl e \<Rightarrow> Inl (StartRho e) | Inr _ \<Rightarrow>
      if max_backlog (emitter_config c) = 0 then Inl StartChannelPanic else Inr
       \<lparr>ses_channel = [], ses_emitter = emitter_new (emitter_config c) rng, ses_cover_after_send = cover_after_send c,
        cover_deadline = None, saw_real_since_cover = False, cover_done = False, ses_pending = 0,
        ses_shutdown = False, ses_running = True, ses_sent = [], ses_failed = []\<rparr>)"

datatype SendFailure = SendBacklogFull nat | SendSessionClosed

text \<open>One \<open>try_send\<close> of \<open>enqueue_fragments\<close>: the channel has \<open>max_backlog\<close> places, and is closed once the driver is gone.\<close>

definition try_send :: "Cell \<Rightarrow> 'r PacedSession \<Rightarrow> (SendFailure, unit) result \<times> 'r PacedSession" where
  "try_send cell s =
     (if \<not> ses_running s then (Inl SendSessionClosed, s)
      else if length (ses_channel s) < max_backlog (em_config (ses_emitter s))
      then (Inr (), s\<lparr>ses_channel := ses_channel s @ [cell]\<rparr>)
      else (Inl (SendBacklogFull (max_backlog (em_config (ses_emitter s)))), s))"

fun send_each :: "Cell list \<Rightarrow> 'r PacedSession \<Rightarrow> (SendFailure, unit) result \<times> 'r PacedSession" where
  "send_each [] s = (Inr (), s)"
| "send_each (c # cs) s = (case try_send c s of (Inl e, s) \<Rightarrow> (Inl e, s) | (Inr _, s) \<Rightarrow> send_each cs s)"

definition enqueue_fragments :: "Cell list \<Rightarrow> 'r PacedSession \<Rightarrow> (SendFailure, unit) result \<times> 'r PacedSession" where
  "enqueue_fragments cells s = send_each cells (s\<lparr>cover_done := False\<rparr>)"

text \<open>The driver receives one cell: \<open>run_session_emitter_loop\<close>, first branch.\<close>

definition driver_recv :: "'r PacedSession \<Rightarrow> 'r PacedSession" where
  "driver_recv s =
     (case ses_channel s of
        [] \<Rightarrow> s
      | cell # rest \<Rightarrow>
          let s = s\<lparr>ses_channel := rest\<rparr>;
              e = (case enqueue_cell (ses_emitter s) cell of
                (Inl _, e) \<Rightarrow> note_dropped_enqueue e | (Inr _, e) \<Rightarrow> e)
          in s\<lparr>ses_emitter := e, cover_deadline := None, saw_real_since_cover := True, cover_done := False,
               ses_pending := pending_emissions e\<rparr>)"

text \<open>One tick; \<open>ok\<close> says whether the transport took the cell (an error ends the task).\<close>

definition driver_tick :: "('r \<Rightarrow> nat \<Rightarrow> bytes \<times> 'r) \<Rightarrow> bool \<Rightarrow> nat \<Rightarrow> 'r PacedSession \<Rightarrow> 'r PacedSession" where
  "driver_tick fill ok now s =
     (let ((_, cell), e) = next_cell fill (ses_emitter s); s = s\<lparr>ses_emitter := e\<rparr> in
      if \<not> ok then s\<lparr>ses_running := False, ses_failed := [cell]\<rparr>
      else let s = s\<lparr>ses_sent := ses_sent s @ [cell], ses_pending := pending_emissions e\<rparr>;
               s = (if pending_emissions e = 0 \<and> saw_real_since_cover s
                    then if ses_cover_after_send s = 0 then s\<lparr>cover_done := True, saw_real_since_cover := False\<rparr>
                         else if cover_deadline s = None then s\<lparr>cover_deadline := Some (now + ses_cover_after_send s)\<rparr> else s
                    else s)
        in (case cover_deadline s of
              Some deadline \<Rightarrow>
                if deadline \<le> now then s\<lparr>cover_done := True, cover_deadline := None, saw_real_since_cover := False\<rparr> else s
            | None \<Rightarrow> s))"

definition session_shutdown :: "'r PacedSession \<Rightarrow> 'r PacedSession" where
  "session_shutdown s = s\<lparr>ses_shutdown := True\<rparr>"

definition driver_stop :: "'r PacedSession \<Rightarrow> 'r PacedSession" where
  "driver_stop s = (if ses_shutdown s then s\<lparr>ses_running := False\<rparr> else s)"

text \<open>What \<open>wait_idle_cover\<close> and \<open>wait_queue_drained\<close> wait for.\<close>

definition wait_idle_cover :: "'r PacedSession \<Rightarrow> (SendFailure, unit) result option" where
  "wait_idle_cover s = (if cover_done s then Some (Inr ()) else if ses_running s then None else Some (Inl SendSessionClosed))"

definition in_flight :: "'r PacedSession \<Rightarrow> nat" where
  "in_flight s = length (ses_channel s) + length (cell_queue (ses_emitter s))"

text \<open>
  The reachable sessions of a client that sends Sphinx fragments and starts a \<open>try_send\<close> only while fewer than
  \<open>limit\<close> cells are in flight; \<open>accepted\<close> are the cells \<open>try_send\<close> took.
\<close>

inductive session_run ::
    "('r \<Rightarrow> nat \<Rightarrow> bytes \<times> 'r) \<Rightarrow> PacedSessionConfig \<Rightarrow> nat \<Rightarrow> 'r PacedSession \<Rightarrow> Cell list \<Rightarrow> bool"
  for fill c limit where
  ses_start: "start_with_transport env c rng = Inr s \<Longrightarrow> session_run fill c limit s []"
| ses_begin: "session_run fill c limit s acc \<Longrightarrow> session_run fill c limit (s\<lparr>cover_done := False\<rparr>) acc"
| ses_send: "session_run fill c limit s acc \<Longrightarrow> wf_cell cell \<Longrightarrow> cell ! 0 = command_byte SphinxFragment \<Longrightarrow> in_flight s < limit \<Longrightarrow>
    try_send cell s = (res, s') \<Longrightarrow> session_run fill c limit s' (acc @ (if res = Inr () then [cell] else []))"
| ses_recv: "session_run fill c limit s acc \<Longrightarrow> ses_running s \<Longrightarrow> session_run fill c limit (driver_recv s) acc"
| ses_tick: "session_run fill c limit s acc \<Longrightarrow> ses_running s \<Longrightarrow> session_run fill c limit (driver_tick fill ok now s) acc"
| ses_stop: "session_run fill c limit s acc \<Longrightarrow> session_run fill c limit (driver_stop (session_shutdown s)) acc"

section \<open>Cells of the emitter\<close>

lemma length_dummy:
  assumes "\<And>r n. length (fst (fill r n)) = n"
  shows "wf_cell (fst (encode_dummy_cell fill rng))" "fst (encode_dummy_cell fill rng) ! 0 = command_byte DropCell"
proof -
  obtain noise rng' where f: "fill rng 511 = (noise, rng')" by fastforce
  then have n: "length noise = 511" using assms[of rng 511] by simp
  have e: "fst (encode_dummy_cell fill rng) = put 1 noise ((replicate 512 (0::byte))[0 := 4])"
    by (simp add: encode_dummy_cell_def fragment_values f Let_def)
  show "wf_cell (fst (encode_dummy_cell fill rng))" using n by (simp add: e wf_cell_def fragment_values)
  show "fst (encode_dummy_cell fill rng) ! 0 = command_byte DropCell" using n by (simp add: e put_nth)
qed

definition is_fragment :: "Cell \<Rightarrow> bool" where
  "is_fragment c \<longleftrightarrow> c ! 0 = command_byte SphinxFragment"

definition ses_out :: "'r PacedSession \<Rightarrow> Cell list" where
  "ses_out s = ses_sent s @ ses_failed s"

text \<open>The fragments of the session in the order they travel: written, then queued, then still in the channel.\<close>

definition ses_flow :: "'r PacedSession \<Rightarrow> Cell list" where
  "ses_flow s = filter is_fragment (ses_out s) @ cell_queue (ses_emitter s) @ ses_channel s"

definition session_inv :: "PacedSessionConfig \<Rightarrow> nat \<Rightarrow> 'r PacedSession \<Rightarrow> Cell list \<Rightarrow> bool" where
  "session_inv c limit s acc \<longleftrightarrow>
     em_config (ses_emitter s) = emitter_config c \<and> payload_queue (ses_emitter s) = []
     \<and> (\<forall>x \<in> set (ses_out s @ ses_flow s). wf_cell x)
     \<and> (\<forall>x \<in> set (cell_queue (ses_emitter s) @ ses_channel s). is_fragment x)
     \<and> subseq (ses_flow s) acc
     \<and> of_nat (length acc) = of_nat (length (ses_flow s)) + dropped_enqueue_count (ses_emitter s)
     \<and> length (cell_queue (ses_emitter s)) \<le> max_backlog (emitter_config c)
     \<and> (ses_running s \<longrightarrow> ses_failed s = [])
     \<and> em_tick (ses_emitter s) = of_nat (length (ses_out s))
     \<and> in_flight s \<le> limit
     \<and> (limit \<le> max_backlog (emitter_config c) \<longrightarrow> dropped_enqueue_count (ses_emitter s) = 0 \<and> ses_flow s = acc)"

lemma inv_send:
  assumes inv: "session_inv c limit s acc" and cell: "wf_cell cell" "is_fragment cell" "in_flight s < limit"
    and step: "try_send cell s = (res, s')"
  shows "session_inv c limit s' (acc @ (if res = Inr () then [cell] else []))"
proof (cases "res = Inr ()")
  case True
  then have s': "s' = s\<lparr>ses_channel := ses_channel s @ [cell]\<rparr>" using step by (auto simp: try_send_def split: if_splits)
  then have flow: "ses_flow s' = ses_flow s @ [cell]" and out: "ses_out s' = ses_out s"
    by (simp_all add: ses_flow_def ses_out_def)
  have "subseq (ses_flow s) acc" using inv by (simp add: session_inv_def)
  then have sub: "subseq (ses_flow s @ [cell]) (acc @ [cell])" using list_emb_append_mono[of "(=)" _ _ "[cell]" "[cell]"] by simp
  show ?thesis using inv cell True sub unfolding session_inv_def flow out by (auto simp: s' in_flight_def)
next
  case False
  then have "s' = s" using step by (auto simp: try_send_def split: if_splits)
  then show ?thesis using inv False by simp
qed

lemma inv_recv:
  assumes inv: "session_inv c limit s acc" and "ses_running s"
  shows "session_inv c limit (driver_recv s) acc"
proof (cases "ses_channel s")
  case Nil
  then show ?thesis using inv by (simp add: driver_recv_def)
next
  case (Cons cell rest)
  let ?e = "ses_emitter s" and ?s' = "driver_recv s"
  have pending: "pending_emissions ?e = length (cell_queue ?e)" using inv by (simp add: session_inv_def pending_emissions_def)
  have same: "ses_out ?s' = ses_out s" "ses_failed ?s' = ses_failed s" "ses_running ?s' = ses_running s" "ses_channel ?s' = rest"
    using Cons by (simp_all add: driver_recv_def ses_out_def Let_def)
  show ?thesis
  proof (cases "length (cell_queue ?e) < max_backlog (emitter_config c)")
    case True
    then have e: "ses_emitter ?s' = ?e\<lparr>cell_queue := cell_queue ?e @ [cell]\<rparr>"
      using inv Cons pending by (simp add: driver_recv_def enqueue_cell_def try_push_real_def session_inv_def Let_def)
    have flow: "ses_flow ?s' = ses_flow s" by (simp add: ses_flow_def same e Cons)
    show ?thesis using inv True Cons unfolding session_inv_def flow same e by (auto simp: in_flight_def same e)
  next
    case False
    then have full: "length (cell_queue ?e) = max_backlog (emitter_config c)" using inv by (simp add: session_inv_def)
    then have e: "ses_emitter ?s' = note_dropped_enqueue ?e"
      using inv Cons pending by (simp add: driver_recv_def enqueue_cell_def try_push_real_def session_inv_def Let_def)
    let ?pre = "filter is_fragment (ses_out s) @ cell_queue ?e"
    have flow: "ses_flow ?s' = ?pre @ rest" "ses_flow s = ?pre @ cell # rest"
      by (simp_all add: ses_flow_def same e Cons note_dropped_enqueue_def)
    have "subseq (ses_flow ?s') (ses_flow s)"
      unfolding flow by (intro list_emb_append_mono list_emb_Cons subseq_order.refl)
    then have sub: "subseq (ses_flow ?s') acc" using inv subseq_order.trans by (auto simp: session_inv_def)
    have "in_flight s \<le> limit" using inv by (simp add: session_inv_def)
    then have over: "\<not> limit \<le> max_backlog (emitter_config c)" using full Cons by (simp add: in_flight_def)
    have wf: "\<forall>x \<in> set (ses_out s @ ses_flow ?s'). wf_cell x" using inv unfolding session_inv_def flow by auto
    have count: "of_nat (length acc) = of_nat (length (ses_flow ?s')) + (dropped_enqueue_count ?e + 1)"
      using inv unfolding session_inv_def flow by (simp add: ac_simps)
    show ?thesis
      using inv over sub wf count Cons unfolding session_inv_def same e
      by (simp add: in_flight_def same e note_dropped_enqueue_def)
  qed
qed

lemma driver_tick_parts:
  assumes "next_cell fill (ses_emitter s) = ((n, cell), e)" "ses_failed s = []"
  shows "ses_emitter (driver_tick fill ok now s) = e"
    "ses_channel (driver_tick fill ok now s) = ses_channel s"
    "ses_out (driver_tick fill ok now s) = ses_out s @ [cell]"
    "ses_running (driver_tick fill ok now s) \<longrightarrow> ses_failed (driver_tick fill ok now s) = []"
  using assms by (auto simp: driver_tick_def ses_out_def Let_def split: option.split)

lemma next_cell_queue:
  assumes fill: "\<And>r n. length (fst (fill r n)) = n" and next_c: "next_cell fill e = ((n, cell), e')" and "payload_queue e = []"
  shows "(\<exists>cs. cell_queue e = cell # cs \<and> cell_queue e' = cs)
      \<or> (cell_queue e = [] \<and> cell_queue e' = [] \<and> \<not> is_fragment cell \<and> wf_cell cell)"
proof (cases "cell_queue e")
  case Nil
  obtain d rng where d: "encode_dummy_cell fill (em_rng e) = (d, rng)" by fastforce
  have "cell = d \<and> cell_queue e' = []" using assms(2,3) Nil d by (auto simp: next_cell_def Let_def)
  moreover have "wf_cell d" "d ! 0 = command_byte DropCell" using length_dummy[of fill "em_rng e"] fill d by simp_all
  ultimately show ?thesis using Nil by (simp add: is_fragment_def)
next
  case (Cons x xs)
  then show ?thesis using assms(2) by (auto simp: next_cell_def Let_def)
qed

lemma next_cell_rest:
  assumes "next_cell fill e = ((n, cell), e')" "payload_queue e = []"
  shows "em_config e' = em_config e" "payload_queue e' = []" "em_tick e' = em_tick e + 1"
    "dropped_enqueue_count e' = dropped_enqueue_count e"
  using assms by (auto simp: next_cell_def Let_def split: list.splits prod.splits)

lemma inv_tick:
  assumes fill: "\<And>r n. length (fst (fill r n)) = n" and inv: "session_inv c limit s acc" and run: "ses_running s"
  shows "session_inv c limit (driver_tick fill ok now s) acc"
proof -
  let ?e = "ses_emitter s" and ?s' = "driver_tick fill ok now s"
  obtain n cell e where next_c: "next_cell fill ?e = ((n, cell), e)" by (metis surj_pair)
  have pq: "payload_queue ?e = []" and nofail: "ses_failed s = []" using inv run by (simp_all add: session_inv_def)
  note parts = driver_tick_parts[OF next_c nofail, of ok now] and rest = next_cell_rest[OF next_c pq]
  have old: "\<And>x. x \<in> set (cell_queue ?e) \<Longrightarrow> is_fragment x \<and> wf_cell x" using inv by (auto simp: session_inv_def ses_flow_def)
  consider (real) "cell_queue ?e = cell # cell_queue e" | (dummy) "cell_queue ?e = []" "cell_queue e = []" "\<not> is_fragment cell" "wf_cell cell"
    using next_cell_queue[OF fill next_c pq] by auto
  then have queue: "filter is_fragment [cell] @ cell_queue e = cell_queue ?e \<and> wf_cell cell
      \<and> set (cell_queue e) \<subseteq> set (cell_queue ?e) \<and> length (cell_queue e) \<le> length (cell_queue ?e)"
  proof cases
    case real
    then have "is_fragment cell \<and> wf_cell cell" using old[of cell] by simp
    then show ?thesis unfolding real by auto
  qed simp
  have flow: "ses_flow ?s' = ses_flow s" unfolding ses_flow_def parts filter_append append_assoc conjunct1[OF queue, symmetric] ..
  have flight: "in_flight ?s' \<le> in_flight s" using queue by (simp add: in_flight_def parts)
  have wf: "\<forall>x \<in> set (ses_out ?s' @ ses_flow ?s'). wf_cell x" using inv queue unfolding flow parts by (auto simp: session_inv_def)
  have frag: "\<forall>x \<in> set (cell_queue e @ ses_channel s). is_fragment x" using inv queue by (auto simp: session_inv_def)
  show ?thesis
    using inv wf frag flight parts(4) queue unfolding session_inv_def flow
    by (simp add: parts rest)
qed

lemma inv_start:
  assumes "start_with_transport env c rng = Inr s"
  shows "session_inv c limit s []"
  using assms
  by (auto simp: start_with_transport_def session_inv_def ses_flow_def ses_out_def emitter_new_def in_flight_def split: sum.splits if_splits)

lemma session_run_inv:
  assumes "\<And>r n. length (fst (fill r n)) = n" "session_run fill c limit s acc"
  shows "session_inv c limit s acc"
  using assms(2)
proof induction
  case (ses_start env rng s)
  then show ?case by (rule inv_start)
next
  case (ses_begin s acc)
  then show ?case by (simp add: session_inv_def ses_flow_def ses_out_def in_flight_def)
next
  case (ses_send s acc cell res s')
  then show ?case by (intro inv_send) (simp_all add: is_fragment_def)
next
  case (ses_recv s acc)
  then show ?case by (intro inv_recv)
next
  case (ses_tick s acc ok now)
  then show ?case by (intro inv_tick assms(1))
next
  case (ses_stop s acc)
  then show ?case by (simp add: session_inv_def ses_flow_def ses_out_def in_flight_def driver_stop_def session_shutdown_def)
qed

section \<open>The session delivers in order\<close>

text \<open>
  A working driver: it receives \<open>m\<close> times and then ticks at the times \<open>nows\<close>, and the transport takes every cell.
\<close>

definition driver_drain :: "('r \<Rightarrow> nat \<Rightarrow> bytes \<times> 'r) \<Rightarrow> nat \<Rightarrow> nat list \<Rightarrow> 'r PacedSession \<Rightarrow> 'r PacedSession" where
  "driver_drain fill m nows s = fold (driver_tick fill True) nows ((driver_recv ^^ m) s)"

lemma driver_recv_keeps [simp]:
  "ses_channel (driver_recv s) = tl (ses_channel s)" "ses_running (driver_recv s) = ses_running s"
  by (simp_all add: driver_recv_def Let_def split: list.split)

lemma recvs_run:
  assumes "session_run fill c limit s acc" "ses_running s"
  shows "session_run fill c limit ((driver_recv ^^ m) s) acc \<and> ses_running ((driver_recv ^^ m) s)
    \<and> ses_channel ((driver_recv ^^ m) s) = drop m (ses_channel s)"
  using assms by (induction m) (auto simp: drop_Suc tl_drop intro: ses_recv)

lemma tick_ok_parts:
  assumes "payload_queue (ses_emitter s) = []"
  shows "ses_running (driver_tick fill True now s) = ses_running s"
    "ses_channel (driver_tick fill True now s) = ses_channel s"
    "cell_queue (ses_emitter (driver_tick fill True now s)) = tl (cell_queue (ses_emitter s))"
  using assms
  by (simp_all add: driver_tick_def next_cell_def Let_def case_prod_beta split: list.split option.split)

lemma ticks_run:
  assumes fill: "\<And>r n. length (fst (fill r n)) = n" and "session_run fill c limit s acc" "ses_running s" "ses_channel s = []"
  shows "let s' = fold (driver_tick fill True) nows s in
    session_run fill c limit s' acc \<and> ses_running s' \<and> ses_channel s' = []
    \<and> cell_queue (ses_emitter s') = drop (length nows) (cell_queue (ses_emitter s))"
  using assms(2-4)
proof (induction nows arbitrary: s)
  case (Cons now nows)
  have "payload_queue (ses_emitter s) = []"
    using session_run_inv[OF fill Cons.prems(1)] by (simp add: session_inv_def)
  note tick = tick_ok_parts[OF this, of fill now]
  have "session_run fill c limit (driver_tick fill True now s) acc" using Cons.prems by (intro ses_tick)
  from Cons.IH[OF this] show ?case using Cons.prems(2,3) by (simp add: tick drop_Suc)
qed simp

lemma drain_writes_flow:
  assumes fill: "\<And>r n. length (fst (fill r n)) = n" and run: "session_run fill c limit s acc" "ses_running s"
    and m: "length (ses_channel s) \<le> m" "max_backlog (emitter_config c) \<le> length nows"
  shows "session_run fill c limit (driver_drain fill m nows s) acc
    \<and> ses_flow (driver_drain fill m nows s) = filter is_fragment (ses_sent (driver_drain fill m nows s))"
proof -
  note r = recvs_run[OF run, of m]
  let ?r = "(driver_recv ^^ m) s" and ?d = "driver_drain fill m nows s"
  have "ses_channel ?r = []" using r m(1) by simp
  from ticks_run[OF fill conjunct1[OF r] _ this, of nows] r
  have d: "session_run fill c limit ?d acc" "ses_running ?d" "ses_channel ?d = []"
    "cell_queue (ses_emitter ?d) = drop (length nows) (cell_queue (ses_emitter ?r))"
    by (simp_all add: driver_drain_def Let_def)
  have "length (cell_queue (ses_emitter ?r)) \<le> length nows"
    using session_run_inv[OF fill conjunct1[OF r]] m(2) by (simp add: session_inv_def)
  moreover have "ses_failed ?d = []" using session_run_inv[OF fill d(1)] d(2) by (simp add: session_inv_def)
  ultimately show ?thesis using d by (simp add: ses_flow_def ses_out_def)
qed

text \<open>
  C25. For every interleaving of sends, driver steps, ticks, transport failures and shutdown: the fragments that were
  written, then the one whose write failed, then the queued ones, then those still in the channel are an ordered
  selection of the accepted cells; the number of accepted cells is the number of these plus the drop counter (a
  64-bit counter), every cell of an output has the cell length, and each tick outputs exactly one. For a client that
  keeps at most \<open>max_backlog\<close> cells in flight the selection is everything: nothing is dropped. Such a client's
  cells are all written, in order, once a driver that is still running has emptied the channel and then ticked
  \<open>max_backlog\<close> times on a working transport. (A driver that is shut down writes nothing more: what is queued or in
  the channel then stays there.)
\<close>

theorem session_fifo:
  assumes "\<And>r n. length (fst (fill r n)) = n" and "session_run fill c limit s acc"
  shows "subseq (filter is_fragment (ses_out s) @ cell_queue (ses_emitter s) @ ses_channel s) acc
    \<and> of_nat (length acc) = of_nat (length (filter is_fragment (ses_out s) @ cell_queue (ses_emitter s) @ ses_channel s))
        + dropped_enqueue_count (ses_emitter s)
    \<and> (\<forall>x \<in> set (ses_out s). wf_cell x)
    \<and> em_tick (ses_emitter s) = of_nat (length (ses_out s))
    \<and> (limit \<le> max_backlog (emitter_config c) \<longrightarrow>
         filter is_fragment (ses_out s) @ cell_queue (ses_emitter s) @ ses_channel s = acc)
    \<and> (limit \<le> max_backlog (emitter_config c) \<and> ses_running s \<and> length (ses_channel s) \<le> m
         \<and> max_backlog (emitter_config c) \<le> length nows \<longrightarrow>
         filter is_fragment (ses_sent (driver_drain fill m nows s)) = acc)"
proof -
  have "filter is_fragment (ses_sent (driver_drain fill m nows s)) = acc"
    if "limit \<le> max_backlog (emitter_config c)" "ses_running s" "length (ses_channel s) \<le> m"
      "max_backlog (emitter_config c) \<le> length nows"
  proof -
    note d = drain_writes_flow[OF assms that(2-4)]
    show ?thesis using session_run_inv[OF assms(1) conjunct1[OF d]] d that(1) by (simp add: session_inv_def)
  qed
  then show ?thesis
    using session_run_inv[OF assms] unfolding session_inv_def ses_flow_def[symmetric] by simp
qed

section \<open>Concrete sessions\<close>

abbreviation zero_fill :: "unit \<Rightarrow> nat \<Rightarrow> bytes \<times> unit" where
  "zero_fill r n \<equiv> (replicate n 0, r)"

definition small_config :: "nat \<Rightarrow> PacedSessionConfig" where
  "small_config n = \<lparr>emitter_config = \<lparr>em_tau = 1, peak_rate_per_sec = Fin 1, max_backlog = n\<rparr>,
     cover_after_send = 0, psc_allow_high_rho = True\<rparr>"

definition sample_cell :: "byte \<Rightarrow> Cell" where
  "sample_cell b = [command_byte SphinxFragment] @ replicate 511 b"

definition sample_session :: "nat \<Rightarrow> unit PacedSession" where
  "sample_session n = \<lparr>ses_channel = [], ses_emitter = emitter_new (emitter_config (small_config n)) (), ses_cover_after_send = 0,
     cover_deadline = None, saw_real_since_cover = False, cover_done = False, ses_pending = 0,
     ses_shutdown = False, ses_running = True, ses_sent = [], ses_failed = []\<rparr>"

lemma sample_session_run: "0 < n \<Longrightarrow> session_run zero_fill (small_config n) limit (sample_session n) []"
  by (rule ses_start[of None _ "()"])
    (simp add: start_with_transport_def validate_paced_config_def validate_rho_with_options_def small_config_def sample_session_def)

lemma sample_cell_wf: "wf_cell (sample_cell b)" "sample_cell b ! 0 = command_byte SphinxFragment"
  by (simp_all add: sample_cell_def wf_cell_def fragment_values)

lemmas session_steps = try_send_def driver_recv_def driver_tick_def next_cell_def enqueue_cell_def try_push_real_def
  pending_emissions_def note_dropped_enqueue_def emitter_new_def small_config_def sample_session_def in_flight_def Let_def

lemma ses_accept:
  assumes "session_run fill c limit s acc" "wf_cell cell" "cell ! 0 = command_byte SphinxFragment" "in_flight s < limit"
    "fst (try_send cell s) = Inr ()"
  shows "session_run fill c limit (snd (try_send cell s)) (acc @ [cell])"
  using ses_send[OF assms(1-4) prod.collapse[symmetric]] assms(5) by simp

text \<open>Two cells through a session with a backlog of 1, of which the first is written: the other is in the queue.\<close>

definition sample_sent :: "unit PacedSession" where
  "sample_sent = snd (try_send (sample_cell 2) (driver_tick zero_fill True 0 (driver_recv (snd (try_send (sample_cell 1) (sample_session 1))))))"

lemma sample_sent_run: "session_run zero_fill (small_config 1) 1 sample_sent [sample_cell 1, sample_cell 2]"
proof -
  let ?s1 = "snd (try_send (sample_cell 1) (sample_session 1))"
  have "session_run zero_fill (small_config 1) 1 ?s1 ([] @ [sample_cell 1])"
    by (rule ses_accept[OF sample_session_run]) (simp_all add: sample_cell_wf session_steps)
  then have "session_run zero_fill (small_config 1) 1 (driver_recv ?s1) [sample_cell 1]"
    using ses_recv by (fastforce simp: session_steps)
  then have "session_run zero_fill (small_config 1) 1 (driver_tick zero_fill True 0 (driver_recv ?s1)) [sample_cell 1]"
    by (rule ses_tick) (simp add: session_steps)
  then have "session_run zero_fill (small_config 1) 1 sample_sent ([sample_cell 1] @ [sample_cell 2])"
    unfolding sample_sent_def by (rule ses_accept) (simp_all add: sample_cell_wf session_steps)
  then show ?thesis by simp
qed

theorem session_fifo_witness:
  "filter is_fragment (ses_out sample_sent) @ cell_queue (ses_emitter sample_sent) @ ses_channel sample_sent
     = [sample_cell 1, sample_cell 2]
   \<and> filter is_fragment (ses_sent (driver_drain zero_fill 1 [0] sample_sent)) = [sample_cell 1, sample_cell 2]"
proof -
  have "ses_running sample_sent" "length (ses_channel sample_sent) \<le> 1"
    by (simp_all add: sample_sent_def session_steps)
  with session_fifo[OF _ sample_sent_run, of 1 "[0]"] show ?thesis by (simp add: small_config_def)
qed

text \<open>
  The channel and the emitter each hold \<open>max_backlog\<close> cells, so a client that fills both loses a cell that
  \<open>try_send\<close> accepted: the emitter is full when the driver receives it, and only a counter records the loss.
\<close>

theorem accepted_cell_dropped:
  "\<exists>s. session_run zero_fill (small_config 1) 2 s [sample_cell 1, sample_cell 2]
     \<and> ses_flow s = [sample_cell 1] \<and> dropped_enqueue_count (ses_emitter s) = 1"
proof -
  let ?s1 = "driver_recv (snd (try_send (sample_cell 1) (sample_session 1)))"
  let ?s2 = "snd (try_send (sample_cell 2) ?s1)"
  have "session_run zero_fill (small_config 1) 2 (snd (try_send (sample_cell 1) (sample_session 1))) ([] @ [sample_cell 1])"
    by (rule ses_accept[OF sample_session_run]) (simp_all add: sample_cell_wf session_steps)
  then have "session_run zero_fill (small_config 1) 2 ?s1 [sample_cell 1]"
    using ses_recv by (fastforce simp: session_steps)
  then have "session_run zero_fill (small_config 1) 2 ?s2 ([sample_cell 1] @ [sample_cell 2])"
    by (rule ses_accept) (simp_all add: sample_cell_wf session_steps)
  then have "session_run zero_fill (small_config 1) 2 (driver_recv ?s2) [sample_cell 1, sample_cell 2]"
    using ses_recv by (fastforce simp: session_steps)
  moreover have "ses_flow (driver_recv ?s2) = [sample_cell 1]" "dropped_enqueue_count (ses_emitter (driver_recv ?s2)) = 1"
    by (simp_all add: session_steps ses_flow_def ses_out_def)
  ultimately show ?thesis by blast
qed

text \<open>
  \<open>wait_idle_cover\<close> can return while an accepted cell is still in the channel: the tick that empties the emitter sets
  \<open>cover_done\<close>, whatever the channel holds.
\<close>

theorem idle_with_cells_in_channel:
  "\<exists>s. session_run zero_fill (small_config 2) 2 s [sample_cell 1, sample_cell 2]
     \<and> wait_idle_cover s = Some (Inr ()) \<and> ses_channel s = [sample_cell 2]"
proof -
  let ?s1 = "driver_recv (snd (try_send (sample_cell 1) (sample_session 2)))"
  let ?s2 = "snd (try_send (sample_cell 2) ?s1)"
  have "session_run zero_fill (small_config 2) 2 (snd (try_send (sample_cell 1) (sample_session 2))) ([] @ [sample_cell 1])"
    by (rule ses_accept[OF sample_session_run]) (simp_all add: sample_cell_wf session_steps)
  then have "session_run zero_fill (small_config 2) 2 ?s1 [sample_cell 1]"
    using ses_recv by (fastforce simp: session_steps)
  then have "session_run zero_fill (small_config 2) 2 ?s2 ([sample_cell 1] @ [sample_cell 2])"
    by (rule ses_accept) (simp_all add: sample_cell_wf session_steps)
  then have "session_run zero_fill (small_config 2) 2 (driver_tick zero_fill True 0 ?s2) ([sample_cell 1] @ [sample_cell 2])"
    by (rule ses_tick) (simp add: session_steps)
  moreover have "wait_idle_cover (driver_tick zero_fill True 0 ?s2) = Some (Inr ())"
      "ses_channel (driver_tick zero_fill True 0 ?s2) = [sample_cell 2]"
    by (simp_all add: session_steps wait_idle_cover_def)
  ultimately show ?thesis by auto
qed

end
