(* ===== verification/Client_Send.thy ===== *)
theory Client_Send
  imports Sphinx_Correct Paths Client_Session
begin

text \<open>
  The client's road from a configuration to a packet: \<^verbatim>\<open>crates/aegis-client/src/config.rs\<close>,
  \<^verbatim>\<open>roster_load.rs\<close>, \<^verbatim>\<open>path.rs\<close>, \<^verbatim>\<open>hops_resolve.rs\<close> and \<^verbatim>\<open>send.rs\<close>, with the seeded key
  generation of \<^verbatim>\<open>aegis-crypto/src/kem.rs\<close>. TOML parsing is outside; a configuration is its parsed record.
  \<open>fs\<close> reads and parses a roster file (\<open>None\<close>: I/O or JSON error).
\<close>

section \<open>Configuration\<close>

record RosterFileConfig =
  rfc_path :: string
  authority_pubkeys :: "string list"
  rfc_threshold :: nat
  allow_unverified_roster :: bool

record PathFileConfig =
  pfc_client_seed :: u64
  pfc_epoch :: u64
  pfc_topology_seed :: u64
  pfc_epoch_age :: u64
  pfc_anomaly_demotion_flag :: bool
  pfc_peer_anomaly_count :: u32
  require_diverse_jurisdictions :: bool
  pfc_max_per_jurisdiction :: nat

definition default_max_per_jurisdiction :: nat where "default_max_per_jurisdiction = 1"

definition path_file_config_default :: PathFileConfig where
  "path_file_config_default = \<lparr>pfc_client_seed = 0, pfc_epoch = 0, pfc_topology_seed = 0, pfc_epoch_age = 0,
     pfc_anomaly_demotion_flag = False, pfc_peer_anomaly_count = 0, require_diverse_jurisdictions = False,
     pfc_max_per_jurisdiction = default_max_per_jurisdiction\<rparr>"

definition file_jurisdiction_policy :: "PathFileConfig \<Rightarrow> JurisdictionPolicy option" where
  "file_jurisdiction_policy c =
     (if \<not> require_diverse_jurisdictions c then None
      else Some \<lparr>max_per_jurisdiction = max (pfc_max_per_jurisdiction c) 1\<rparr>)"

record HopConfig =
  hc_id :: string
  kem_x25519_seed :: string
  kem_mlkem_d :: string
  kem_mlkem_z :: string
  hc_kem_commitment :: "string option"

record ClientLinkFileConfig =
  clf_handshake :: "string option"
  clf_noise_static_secret :: "string option"
  first_hop_noise_static_public :: "string option"

record ClientConfigFile =
  ccf_first_hop_addr :: string
  ingress_link_key :: string
  ccf_payload :: "string option"
  ccf_hops :: "HopConfig list"
  ccf_roster :: "RosterFileConfig option"
  ccf_link :: "ClientLinkFileConfig option"
  ccf_guard_mitigation :: GuardMitigationFileConfig
  ccf_path :: "PathFileConfig option"

section \<open>Hexadecimal keys\<close>

text \<open>\<open>trim_start_matches("0x")\<close> removes every leading \<open>0x\<close>.\<close>

fun strip_0x :: "string \<Rightarrow> string" where
  "strip_0x (a # b # s) = (if a = CHR ''0'' \<and> b = CHR ''x'' then strip_0x s else a # b # s)"
| "strip_0x s = s"

definition client_parse_hex32 :: "string \<Rightarrow> (string, bytes) result" where
  "client_parse_hex32 s =
     (let s = strip_0x (trim s) in
      if length s \<noteq> 64 then Inl ''expected 64 hex chars'' else ok_or (parse_chunks s) ''invalid hex'')"

definition roster_parse_hex32 :: "string \<Rightarrow> (string, bytes) result" where
  "roster_parse_hex32 s =
     (let s = strip_0x (trim s) in
      if length s \<noteq> 64 then Inl ''expected 64 hex chars for 32 bytes'' else ok_or (parse_chunks s) ''invalid hex digit'')"

lemma length_parse_chunks: "parse_chunks s = Some out \<Longrightarrow> 2 * length out = length s"
  by (induction s arbitrary: out rule: parse_chunks.induct) (auto split: option.splits)

lemma length_client_parse_hex32: "client_parse_hex32 s = Inr out \<Longrightarrow> length out = 32"
  using length_parse_chunks by (fastforce simp: client_parse_hex32_def ok_or_def Let_def split: option.splits if_splits)

section \<open>Loading the roster\<close>

datatype RosterLoadError = RosterHex string | RosterRoster RosterError

fun parse_authority_keys :: "string list \<Rightarrow> (RosterLoadError, bytes list) result" where
  "parse_authority_keys [] = Inr []"
| "parse_authority_keys (h # hs) =
     (case roster_parse_hex32 h of Inl m \<Rightarrow> Inl (RosterHex m)
      | Inr key \<Rightarrow> bind_result (parse_authority_keys hs) (\<lambda>keys. Inr (key # keys)))"

definition roster_consortium ::
    "('sk, 'vk) sig_lib \<Rightarrow> RosterFileConfig \<Rightarrow> (RosterLoadError, 'vk ThresholdConsortium option) result" where
  "roster_consortium S cfg =
     (if authority_pubkeys cfg = [] then Inr None
      else bind_result (parse_authority_keys (authority_pubkeys cfg)) (\<lambda>keys.
        case from_raw_pubkeys S (rfc_threshold cfg) keys of Inl e \<Rightarrow> Inl (RosterRoster e) | Inr c \<Rightarrow> Inr (Some c)))"

definition load_roster_from_config ::
    "('sk, 'vk) sig_lib \<Rightarrow> (string \<Rightarrow> PersistedRoster option) \<Rightarrow> RosterFileConfig \<Rightarrow> (RosterLoadError, RelayRoster) result" where
  "load_roster_from_config S fs cfg =
     bind_result (roster_consortium S cfg) (\<lambda>consortium.
       if consortium = None \<and> \<not> allow_unverified_roster cfg then Inl (RosterRoster UnverifiedRosterNotAllowed)
       else case fs (rfc_path cfg) of
         None \<Rightarrow> Inl (RosterRoster RosterIo)
       | Some p \<Rightarrow> (case load_from_file_with_policy S p consortium (allow_unverified_roster cfg) of
             Inl e \<Rightarrow> Inl (RosterRoster e) | Inr r \<Rightarrow> Inr r))"

section \<open>The bound path\<close>

record ClientPathBuildParams =
  client_seed :: u64
  cp_guard_config :: GuardConfig
  mitigation :: GuardMitigationPolicy
  cp_signals :: GuardMitigationSignals
  min_reputation :: f64
  max_attempts :: nat
  jurisdiction :: "JurisdictionPolicy option"

definition path_params_default :: ClientPathBuildParams where
  "path_params_default = \<lparr>client_seed = 0, cp_guard_config = guard_config_default, mitigation = mitigation_disabled,
     cp_signals = signals_default, min_reputation = DEFAULT_PATH_REPUTATION_FLOOR, max_attempts = 50, jurisdiction = None\<rparr>"

definition build_client_bound_path ::
    "'r rand_lib \<Rightarrow> 'o rand_lib \<Rightarrow> Topology \<Rightarrow> RelayRoster \<Rightarrow> RelayPruningPolicy \<Rightarrow> ClientPathBuildParams \<Rightarrow> 'o
      \<Rightarrow> (GuardSelector \<times> RelayRecord list) outcome \<times> 'o" where
  "build_client_bound_path R Os t roster pruning params rng =
     (case jurisdiction params of
        Some j \<Rightarrow> build_bound_path_diverse_pruned_with_guards_mitigated R Os t roster (cp_guard_config params)
          (client_seed params) (mitigation params) (cp_signals params) j pruning (min_reputation params) (max_attempts params) rng
      | None \<Rightarrow> build_bound_path_pruned_with_guards_mitigated R Os t roster (cp_guard_config params)
          (client_seed params) (mitigation params) (cp_signals params) pruning (min_reputation params) (max_attempts params) rng)"

section \<open>Hops and packets\<close>

record 'mp ClientHop =
  ch_id :: bytes
  ch_kem_public :: "'mp RelayKemPublic"
  ch_commitment :: "KemPublicCommitment option"
  ch_addr :: "string option"

definition client_hop_new :: "bytes \<Rightarrow> 'mp RelayKemPublic \<Rightarrow> string option \<Rightarrow> 'mp ClientHop" where
  "client_hop_new i pk addr = \<lparr>ch_id = i, ch_kem_public = pk, ch_commitment = None, ch_addr = addr\<rparr>"

definition with_commitment :: "'mp ClientHop \<Rightarrow> KemPublicCommitment \<Rightarrow> 'mp ClientHop" where
  "with_commitment h c = h\<lparr>ch_commitment := Some c\<rparr>"

definition from_relay_record :: "RelayRecord \<Rightarrow> 'mp RelayKemPublic \<Rightarrow> string option \<Rightarrow> 'mp ClientHop" where
  "from_relay_record r pk addr =
     \<lparr>ch_id = as_bytes (rec_id r), ch_kem_public = pk, ch_commitment = Some (rec_commitment r), ch_addr = addr\<rparr>"

text \<open>The errors of the send path; a network error is opaque.\<close>

datatype SendError =
    PathTooShort
  | BoundPathLengthMismatch nat nat
  | SendCrypto CryptoError
  | SendQueue SendFailure
  | KemBindingMismatch byte byte
  | MissingKemCommitment byte byte

record BuildPacketOptions =
  require_kem_binding :: bool

definition build_options_default :: BuildPacketOptions where "build_options_default = \<lparr>require_kem_binding = True\<rparr>"
definition legacy_dev :: BuildPacketOptions where "legacy_dev = \<lparr>require_kem_binding = False\<rparr>"

definition verify_kem_binding ::
    "('xs, 'ms, 'mp, 'r) crypto_lib \<Rightarrow> 'mp ClientHop \<Rightarrow> bool \<Rightarrow> (SendError, unit) result" where
  "verify_kem_binding L hop require =
     (case ch_commitment hop of
        Some expected \<Rightarrow>
          if expected \<noteq> commitment_from_public L (ch_kem_public hop)
          then Inl (KemBindingMismatch (ch_id hop ! 0) (ch_id hop ! 1)) else Inr ()
      | None \<Rightarrow> if require then Inl (MissingKemCommitment (ch_id hop ! 0) (ch_id hop ! 1)) else Inr ())"

fun verify_hops :: "('xs, 'ms, 'mp, 'r) crypto_lib \<Rightarrow> bool \<Rightarrow> 'mp ClientHop list \<Rightarrow> (SendError, unit) result" where
  "verify_hops L require [] = Inr ()"
| "verify_hops L require (h # hs) = bind_result (verify_kem_binding L h require) (\<lambda>_. verify_hops L require hs)"

definition client_path :: "'mp ClientHop list \<Rightarrow> 'mp PathHop list" where
  "client_path hops = map (\<lambda>h. \<lparr>hop_id = ch_id h, hop_pk = ch_kem_public h\<rparr>) hops"

definition build_packet_with_options ::
    "('xs, 'ms, 'mp, 'r) crypto_lib \<Rightarrow> 'mp ClientHop list \<Rightarrow> bytes \<Rightarrow> 'r \<Rightarrow> BuildPacketOptions
      \<Rightarrow> (SendError, SphinxPacket) result \<times> 'r" where
  "build_packet_with_options L hops payload rng opts =
     (if length hops < 2 then (Inl PathTooShort, rng)
      else case verify_hops L (require_kem_binding opts) hops of
        Inl e \<Rightarrow> (Inl e, rng)
      | Inr _ \<Rightarrow> (case build L (client_path hops) payload rng of
            (Inl e, rng) \<Rightarrow> (Inl (SendCrypto e), rng) | (Inr p, rng) \<Rightarrow> (Inr p, rng)))"

definition build_packet_require_bindings ::
    "('xs, 'ms, 'mp, 'r) crypto_lib \<Rightarrow> 'mp ClientHop list \<Rightarrow> bytes \<Rightarrow> 'r \<Rightarrow> (SendError, SphinxPacket) result \<times> 'r" where
  "build_packet_require_bindings L hops payload rng = build_packet_with_options L hops payload rng \<lparr>require_kem_binding = True\<rparr>"

definition hops_from_keys_with_commitments ::
    "bytes list \<Rightarrow> 'mp RelayKemPublic list \<Rightarrow> KemPublicCommitment list option \<Rightarrow> (bytes \<times> string) list \<Rightarrow> 'mp ClientHop list" where
  "hops_from_keys_with_commitments ids publics commitments addrs =
     map (\<lambda>(i, (hop, pk)). \<lparr>ch_id = hop, ch_kem_public = pk,
        ch_commitment = Option.bind commitments (\<lambda>c. if i < length c then Some (c ! i) else None), ch_addr = map_of addrs hop\<rparr>)
       (enumerate 0 (zip ids publics))"

definition hops_from_keys :: "bytes list \<Rightarrow> 'mp RelayKemPublic list \<Rightarrow> (bytes \<times> string) list \<Rightarrow> 'mp ClientHop list" where
  "hops_from_keys ids publics addrs = hops_from_keys_with_commitments ids publics None addrs"

definition hops_from_records :: "RelayRecord list \<Rightarrow> 'mp RelayKemPublic list \<Rightarrow> (bytes \<times> string) list \<Rightarrow> 'mp ClientHop list" where
  "hops_from_records records publics addrs =
     map (\<lambda>(r, pk). from_relay_record r pk (map_of addrs (as_bytes (rec_id r)))) (zip records publics)"

fun check_bound :: "('xs, 'ms, 'mp, 'r) crypto_lib \<Rightarrow> (RelayRecord \<times> 'mp RelayKemPublic) list \<Rightarrow> (SendError, unit) result" where
  "check_bound L [] = Inr ()"
| "check_bound L ((r, pk) # xs) =
     (if \<not> binds_kem_public L r pk then Inl (KemBindingMismatch (as_bytes (rec_id r) ! 0) (as_bytes (rec_id r) ! 1))
      else check_bound L xs)"

definition hops_from_bound_path ::
    "('xs, 'ms, 'mp, 'r) crypto_lib \<Rightarrow> RelayRecord list \<Rightarrow> 'mp RelayKemPublic list \<Rightarrow> (bytes \<times> string) list
      \<Rightarrow> (SendError, 'mp ClientHop list) result" where
  "hops_from_bound_path L records publics addrs =
     (if length records \<noteq> length publics then Inl (BoundPathLengthMismatch (length records) (length publics))
      else bind_result (check_bound L (zip records publics)) (\<lambda>_. Inr (hops_from_records records publics addrs)))"

section \<open>Resolving the hops of a configuration\<close>

text \<open>Seeded keys: \<open>xsec\<close> and \<open>mgen\<close> are \<open>StaticSecret::from\<close> and \<open>MlKem768::generate_deterministic\<close>.\<close>

definition generate_deterministic ::
    "('xs, 'ms, 'mp, 'r) crypto_lib \<Rightarrow> (bytes \<Rightarrow> 'xs) \<Rightarrow> (bytes \<Rightarrow> bytes \<Rightarrow> 'ms \<times> 'mp) \<Rightarrow> bytes \<Rightarrow> bytes \<Rightarrow> bytes
      \<Rightarrow> ('xs, 'ms) RelayKemSecret \<times> 'mp RelayKemPublic" where
  "generate_deterministic L xsec mgen x d z =
     (let x25519 = xsec x; (mlkem, mlkem_pub) = mgen d z
      in (\<lparr>secret_x25519 = x25519, secret_mlkem = mlkem\<rparr>,
          \<lparr>public_x25519 = lib_x25519_public L x25519, public_mlkem = mlkem_pub\<rparr>))"

datatype HopsResolveError =
    ResolveHex string
  | ResolveRoster RosterLoadError
  | ResolveTopology TopologyError
  | ResolveSend SendError
  | NoHops
  | RosterRequired
  | KemRegistryRequired
  | MissingKemRegistryEntry string
  | ResolveKemCommitment string

definition map_err :: "('e \<Rightarrow> 'f) \<Rightarrow> ('e, 'a) result \<Rightarrow> ('f, 'a) result" where
  "map_err f x = (case x of Inl e \<Rightarrow> Inl (f e) | Inr a \<Rightarrow> Inr a)"

lemma map_err_Inr [simp]: "map_err f x = Inr a \<longleftrightarrow> x = Inr a"
  by (cases x) (simp_all add: map_err_def)

definition hop_config_to_client_hop ::
    "('xs, 'ms, 'mp, 'r) crypto_lib \<Rightarrow> (bytes \<Rightarrow> 'xs) \<Rightarrow> (bytes \<Rightarrow> bytes \<Rightarrow> 'ms \<times> 'mp) \<Rightarrow> HopConfig
      \<Rightarrow> (HopsResolveError, 'mp ClientHop) result" where
  "hop_config_to_client_hop L xsec mgen hop =
     bind_result (map_err ResolveHex (client_parse_hex32 (hc_id hop))) (\<lambda>i.
     bind_result (map_err ResolveHex (client_parse_hex32 (kem_x25519_seed hop))) (\<lambda>x.
     bind_result (map_err ResolveHex (client_parse_hex32 (kem_mlkem_d hop))) (\<lambda>d.
     bind_result (map_err ResolveHex (client_parse_hex32 (kem_mlkem_z hop))) (\<lambda>z.
       let (_, pk) = generate_deterministic L xsec mgen x d z in
     bind_result (case hc_kem_commitment hop of None \<Rightarrow> Inr None
         | Some s \<Rightarrow> bind_result (map_err ResolveKemCommitment (client_parse_hex32 s)) (\<lambda>c. Inr (Some c))) (\<lambda>commitment.
       Inr \<lparr>ch_id = i, ch_kem_public = pk, ch_commitment = commitment, ch_addr = None\<rparr>)))))"

fun map_result :: "('a \<Rightarrow> ('e, 'b) result) \<Rightarrow> 'a list \<Rightarrow> ('e, 'b list) result" where
  "map_result f [] = Inr []"
| "map_result f (x # xs) = bind_result (f x) (\<lambda>y. bind_result (map_result f xs) (\<lambda>ys. Inr (y # ys)))"

fun kem_registry_from_hops ::
    "('xs, 'ms, 'mp, 'r) crypto_lib \<Rightarrow> (bytes \<Rightarrow> 'xs) \<Rightarrow> (bytes \<Rightarrow> bytes \<Rightarrow> 'ms \<times> 'mp) \<Rightarrow> HopConfig list
      \<Rightarrow> (bytes \<times> 'mp ClientHop) list \<Rightarrow> (HopsResolveError, (bytes \<times> 'mp ClientHop) list) result" where
  "kem_registry_from_hops L xsec mgen [] registry = Inr registry"
| "kem_registry_from_hops L xsec mgen (hop # hops) registry =
     bind_result (hop_config_to_client_hop L xsec mgen hop) (\<lambda>h.
       if map_of registry (ch_id h) \<noteq> None
       then Inl (ResolveHex (''duplicate kem registry entry for relay '' @ hc_id hop))
       else kem_registry_from_hops L xsec mgen hops ((ch_id h, h) # registry))"

definition explicit_hops_from_config ::
    "('xs, 'ms, 'mp, 'r) crypto_lib \<Rightarrow> (bytes \<Rightarrow> 'xs) \<Rightarrow> (bytes \<Rightarrow> bytes \<Rightarrow> 'ms \<times> 'mp) \<Rightarrow> HopConfig list
      \<Rightarrow> (HopsResolveError, 'mp ClientHop list) result" where
  "explicit_hops_from_config L xsec mgen hops =
     (if hops = [] then Inl NoHops else map_result (hop_config_to_client_hop L xsec mgen) hops)"

definition use_roster_path :: "ClientConfigFile \<Rightarrow> bool \<Rightarrow> bool" where
  "use_roster_path file_cfg force_roster =
     (if ccf_hops file_cfg \<noteq> [] \<and> \<not> force_roster then False
      else ccf_roster file_cfg \<noteq> None \<or> ccf_hops file_cfg = [] \<or> force_roster)"

text \<open>The pruning policy's constants are always accepted (lemma \<open>client_policy_ok\<close>).\<close>

definition build_roster_path_records ::
    "'r rand_lib \<Rightarrow> 'o rand_lib \<Rightarrow> RelayRoster \<Rightarrow> PathFileConfig \<Rightarrow> ClientConfigFile \<Rightarrow> 'o
      \<Rightarrow> (HopsResolveError, RelayRecord list) result option \<times> 'o" where
  "build_roster_path_records R Os roster path_cfg file_cfg rng =
     (case build_topology R roster (pfc_epoch path_cfg) high_threat (pfc_topology_seed path_cfg) of
        Inl e \<Rightarrow> (Some (Inl (ResolveTopology e)), rng)
      | Inr topo \<Rightarrow> (case policy_new (f64_of_rat (9 / 10)) (f64_of_rat (2 / 10)) (Fin 3) of
          Inl e \<Rightarrow> (Some (Inl (ResolveHex ''pruning policy'')), rng)
        | Inr pruning \<Rightarrow>
            (let params = \<lparr>client_seed = pfc_client_seed path_cfg, cp_guard_config = guard_config_default,
                   mitigation = resolve_policy (ccf_guard_mitigation file_cfg),
                   cp_signals = \<lparr>epoch_age = pfc_epoch_age path_cfg, anomaly_demotion_flag = pfc_anomaly_demotion_flag path_cfg,
                     peer_anomaly_count = pfc_peer_anomaly_count path_cfg\<rparr>,
                   min_reputation = DEFAULT_PATH_REPUTATION_FLOOR, max_attempts = 50,
                   jurisdiction = file_jurisdiction_policy path_cfg\<rparr>;
                 (r, rng) = build_client_bound_path R Os topo roster pruning params rng
             in (map_option (\<lambda>r. bind_result (map_err ResolveTopology r) (\<lambda>(_, records). Inr records)) r, rng))))"

definition registry_publics ::
    "(bytes \<times> 'mp ClientHop) list \<Rightarrow> RelayRecord list \<Rightarrow> (HopsResolveError, 'mp RelayKemPublic list) result" where
  "registry_publics registry records =
     map_result (\<lambda>r. case map_of registry (as_bytes (rec_id r)) of
         Some hop \<Rightarrow> Inr (ch_kem_public hop)
       | None \<Rightarrow> Inl (MissingKemRegistryEntry (hex_encode (as_bytes (rec_id r))))) records"

definition resolve_roster_hops ::
    "('sk, 'vk) sig_lib \<Rightarrow> (string \<Rightarrow> PersistedRoster option) \<Rightarrow> ('xs, 'ms, 'mp, 'r) crypto_lib \<Rightarrow> (bytes \<Rightarrow> 'xs)
      \<Rightarrow> (bytes \<Rightarrow> bytes \<Rightarrow> 'ms \<times> 'mp) \<Rightarrow> 's rand_lib \<Rightarrow> 'o rand_lib \<Rightarrow> ClientConfigFile \<Rightarrow> 'o
      \<Rightarrow> (HopsResolveError, 'mp ClientHop list) result option \<times> 'o" where
  "resolve_roster_hops S fs L xsec mgen R Os file_cfg rng =
     (case ccf_roster file_cfg of
        None \<Rightarrow> (Some (Inl RosterRequired), rng)
      | Some roster_cfg \<Rightarrow>
          if ccf_hops file_cfg = [] then (Some (Inl KemRegistryRequired), rng)
          else case load_roster_from_config S fs roster_cfg of
            Inl e \<Rightarrow> (Some (Inl (ResolveRoster e)), rng)
          | Inr roster \<Rightarrow> (case kem_registry_from_hops L xsec mgen (ccf_hops file_cfg) [] of
              Inl e \<Rightarrow> (Some (Inl e), rng)
            | Inr registry \<Rightarrow>
                (let path_cfg = (case ccf_path file_cfg of Some p \<Rightarrow> p | None \<Rightarrow> path_file_config_default);
                     (r, rng) = build_roster_path_records R Os roster path_cfg file_cfg rng
                 in (map_option (\<lambda>r. bind_result r (\<lambda>records.
                       bind_result (registry_publics registry records) (\<lambda>publics.
                         map_err ResolveSend (hops_from_bound_path L records publics [])))) r, rng))))"

definition resolve_client_hops ::
    "('sk, 'vk) sig_lib \<Rightarrow> (string \<Rightarrow> PersistedRoster option) \<Rightarrow> ('xs, 'ms, 'mp, 'r) crypto_lib \<Rightarrow> (bytes \<Rightarrow> 'xs)
      \<Rightarrow> (bytes \<Rightarrow> bytes \<Rightarrow> 'ms \<times> 'mp) \<Rightarrow> 's rand_lib \<Rightarrow> 'o rand_lib \<Rightarrow> ClientConfigFile \<Rightarrow> bool \<Rightarrow> 'o
      \<Rightarrow> (HopsResolveError, 'mp ClientHop list) result option \<times> 'o" where
  "resolve_client_hops S fs L xsec mgen R Os file_cfg force_roster rng =
     (if use_roster_path file_cfg force_roster then resolve_roster_hops S fs L xsec mgen R Os file_cfg rng
      else (Some (explicit_hops_from_config L xsec mgen (ccf_hops file_cfg)), rng))"

section \<open>Sending on a session\<close>

definition enqueue_packet ::
    "('r \<Rightarrow> nat \<Rightarrow> bytes \<times> 'r) \<Rightarrow> SphinxPacket \<Rightarrow> 'r \<Rightarrow> 'e PacedSession
      \<Rightarrow> ((SendFailure, unit) result \<times> 'e PacedSession) \<times> 'r" where
  "enqueue_packet fill packet rng s =
     (let ((fragments, _), rng) = fragment_with_random_id fill packet rng in (enqueue_fragments fragments s, rng))"

definition send_payload_via_session_with_options ::
    "('xs, 'ms, 'mp, 'r) crypto_lib \<Rightarrow> 'mp ClientHop list \<Rightarrow> bytes \<Rightarrow> 'r \<Rightarrow> BuildPacketOptions \<Rightarrow> 'e PacedSession
      \<Rightarrow> ((SendError, SphinxPacket) result \<times> 'e PacedSession) \<times> 'r" where
  "send_payload_via_session_with_options L hops payload rng opts s =
     (case build_packet_with_options L hops payload rng opts of
        (Inl e, rng) \<Rightarrow> ((Inl e, s), rng)
      | (Inr p, rng) \<Rightarrow> (case enqueue_packet (lib_fill_bytes L) p rng s of
            ((Inl e, s), rng) \<Rightarrow> ((Inl (SendQueue e), s), rng)
          | ((Inr _, s), rng) \<Rightarrow> ((Inr p, s), rng)))"

definition send_payload_via_session ::
    "('xs, 'ms, 'mp, 'r) crypto_lib \<Rightarrow> 'mp ClientHop list \<Rightarrow> bytes \<Rightarrow> 'r \<Rightarrow> 'e PacedSession
      \<Rightarrow> ((SendError, SphinxPacket) result \<times> 'e PacedSession) \<times> 'r" where
  "send_payload_via_session L hops payload rng s =
     send_payload_via_session_with_options L hops payload rng build_options_default s"

section \<open>What the resolver promises\<close>

lemma strip_0x_hex_encode [simp]: "strip_0x (hex_encode bs) = hex_encode bs"
proof (cases bs)
  case (Cons b bs')
  have "hex_digit n \<noteq> CHR ''x''" if "n < 16" for n
    using digit_value_hex_digit[OF that] by (auto simp: digit_value_def)
  then show ?thesis using Cons by (simp add: hex_encode_def hex_byte_def)
qed (simp add: hex_encode_def)

lemma client_parse_hex32_encode: "length bs = 32 \<Longrightarrow> client_parse_hex32 (hex_encode bs) = Inr bs"
  by (simp add: client_parse_hex32_def ok_or_def parse_chunks_encode)

lemma client_policy_ok: "\<exists>p. policy_new (f64_of_rat (9 / 10)) (f64_of_rat (2 / 10)) (Fin 3) = Inr p"
proof -
  have "f64_of_rat (9 / 10) = Fin (fl (9 / 10))" "0 < fl (9 / 10)" "fl (9 / 10) \<le> 1"
    using f64_of_rat_01[of "9 / 10"] fl_mono[of "1 / 2" "9 / 10"] fl_cert[of "- 53" "1 / 2" "2 ^ 52"] fl_01[of "9 / 10"]
    by (auto simp: pow2_def)
  then show ?thesis by (simp add: policy_new_def ledger_new_def from_scores_def)
qed

lemma verify_hops_Inr: "verify_hops L q hops = Inr () \<longleftrightarrow> (\<forall>h \<in> set hops. verify_kem_binding L h q = Inr ())"
  by (induction hops) (auto simp: bind_result_Inr_iff)

lemma verify_kem_binding_Inr:
  "verify_kem_binding L h q = Inr () \<longleftrightarrow>
     (case ch_commitment h of Some c \<Rightarrow> c = commitment_from_public L (ch_kem_public h) | None \<Rightarrow> \<not> q)"
  by (auto simp: verify_kem_binding_def split: option.splits)

lemma hop_config_id: "hop_config_to_client_hop L xsec mgen hc = Inr h \<Longrightarrow> length (ch_id h) = 32"
  by (auto simp: hop_config_to_client_hop_def bind_result_Inr_iff generate_deterministic_def Let_def case_prod_beta length_client_parse_hex32)

lemma kem_registry_ids:
  assumes "kem_registry_from_hops L xsec mgen hcs registry = Inr registry'" "\<forall>x \<in> set registry. length (fst x) = 32"
  shows "\<forall>x \<in> set registry'. length (fst x) = 32"
  using assms
proof (induction hcs arbitrary: registry)
  case (Cons hc hcs)
  then obtain h where h: "hop_config_to_client_hop L xsec mgen hc = Inr h"
    "kem_registry_from_hops L xsec mgen hcs ((ch_id h, h) # registry) = Inr registry'"
    by (auto simp: bind_result_Inr_iff split: if_splits)
  show ?case by (rule Cons.IH[OF h(2)]) (use Cons.prems(2) hop_config_id[OF h(1)] in auto)
qed simp

lemma map_result_Inr: "map_result f xs = Inr ys \<longleftrightarrow> list_all2 (\<lambda>x y. f x = Inr y) xs ys"
proof (induction xs arbitrary: ys)
  case Nil
  then show ?case by auto
next
  case (Cons x xs)
  then show ?case by (auto simp: bind_result_Inr_iff list_all2_Cons1)
qed

lemma build_roster_path_from_roster:
  assumes "build_roster_path_records R Os roster path_cfg cfg rng = (Some (Inr records), rng')" "r \<in> set records"
  shows "\<exists>i. roster_get roster i = Some r"
proof -
  have "\<exists>path. relay_records_for_path path roster = Inr records"
    using assms(1)
    by (auto simp: build_roster_path_records_def build_client_bound_path_def Let_def bind_result_Inr_iff then_pure_def
        build_bound_path_pruned_with_guards_mitigated_def build_bound_path_diverse_pruned_with_guards_mitigated_def
        build_bound_path_pruned_def build_bound_path_diverse_pruned_def prod_eq_iff
        split: sum.splits prod.splits option.splits)
  then obtain path where "map (roster_get roster) path = map Some records" by (auto simp: records_iff)
  then have "Some r \<in> set (map (roster_get roster) path)" using assms(2) by simp
  then show ?thesis by auto
qed

lemma hops_from_records_nth:
  "h \<in> set (hops_from_records records publics addrs)
     \<Longrightarrow> \<exists>r \<in> set records. ch_id h = as_bytes (rec_id r) \<and> ch_commitment h = Some (rec_commitment r)"
  by (auto simp: hops_from_records_def from_relay_record_def dest: set_zip_leftD)

lemma resolve_roster_sound:
  assumes "resolve_roster_hops S fs L xsec mgen R Os cfg rng = (Some (Inr hops), rng')"
  shows "\<exists>roster_cfg roster. ccf_roster cfg = Some roster_cfg \<and> load_roster_from_config S fs roster_cfg = Inr roster
    \<and> (\<forall>h \<in> set hops. length (ch_id h) = 32 \<and> (\<exists>i r. roster_get roster i = Some r
          \<and> ch_id h = as_bytes (rec_id r) \<and> ch_commitment h = Some (rec_commitment r)))"
proof -
  obtain roster_cfg roster registry path_cfg records publics r1 where *:
    "ccf_roster cfg = Some roster_cfg" "load_roster_from_config S fs roster_cfg = Inr roster"
    "kem_registry_from_hops L xsec mgen (ccf_hops cfg) [] = Inr registry"
    "build_roster_path_records R Os roster path_cfg cfg rng = (Some (Inr records), r1)"
    "registry_publics registry records = Inr publics" "hops_from_bound_path L records publics [] = Inr hops"
    using assms
    by (auto simp: resolve_roster_hops_def Let_def bind_result_Inr_iff split: option.splits if_splits sum.splits prod.splits)
  have ids: "length (as_bytes (rec_id r)) = 32" if mem: "r \<in> set records" for r
  proof -
    obtain k where k: "k < length records" "records ! k = r" 
      by (metis mem in_set_conv_nth)
    have "\<exists>h. map_of registry (as_bytes (rec_id r)) = Some h"
      using *(5) k unfolding registry_publics_def map_result_Inr
      by (auto simp: list_all2_conv_all_nth split: option.splits)
    then show ?thesis using kem_registry_ids[OF *(3)] by (fastforce dest: map_of_SomeD)
  qed
  have "hops = hops_from_records records publics []" using *(6) by (auto simp: hops_from_bound_path_def bind_result_Inr_iff split: if_splits)
  then have "\<forall>h \<in> set hops. length (ch_id h) = 32 \<and> (\<exists>i r. roster_get roster i = Some r
      \<and> ch_id h = as_bytes (rec_id r) \<and> ch_commitment h = Some (rec_commitment r))"
    using hops_from_records_nth ids build_roster_path_from_roster[OF *(4)] by metis
  then show ?thesis using *(1,2) by blast
qed

lemma resolved_ids:
  assumes "resolve_client_hops S fs L xsec mgen R Os cfg force_roster rng = (Some (Inr hops), rng')" "h \<in> set hops"
  shows "length (ch_id h) = 32"
proof (cases "use_roster_path cfg force_roster")
  case True
  then show ?thesis using assms resolve_roster_sound by (fastforce simp: resolve_client_hops_def)
next
  case False
  then have "list_all2 (\<lambda>x y. hop_config_to_client_hop L xsec mgen x = Inr y) (ccf_hops cfg) hops"
    using assms(1) by (auto simp: resolve_client_hops_def explicit_hops_from_config_def map_result_Inr split: if_splits)
  then show ?thesis using assms(2) by (auto simp: list_all2_conv_all_nth in_set_conv_nth intro: hop_config_id)
qed

text \<open>
  C5. Whatever configuration, roster file and random numbers the client starts from: if it resolves hops and
  builds a packet with the default options, every hop's key is the one its commitment names; on the roster road that
  commitment is the one of a relay of the roster that loaded under the configured consortium; and the relays holding
  the private keys forward the packet along exactly the resolved hops and deliver the payload.
\<close>

theorem client_packet_bound:
  assumes "lib_lengths L" "lib_dh_commutes L" "lib_mlkem_correct L"
    and "resolve_client_hops S fs L xsec mgen R Os cfg force_roster os_rng = (Some (Inr hops), os_rng')"
    and "build_packet_with_options L hops payload rng build_options_default = (Inr p, rng')"
    and "length nodes = length hops"
    and "\<And>i. i < length hops \<Longrightarrow> key_pair L (fst (nodes ! i)) (ch_kem_public (hops ! i)) \<and> fresh_cache (snd (nodes ! i))"
  shows "(\<forall>h \<in> set hops. ch_commitment h = Some (commitment_from_public L (ch_kem_public h)))
    \<and> (use_roster_path cfg force_roster \<longrightarrow> (\<exists>roster_cfg roster.
         ccf_roster cfg = Some roster_cfg \<and> load_roster_from_config S fs roster_cfg = Inr roster
         \<and> (\<forall>h \<in> set hops. \<exists>i r. roster_get roster i = Some r \<and> ch_id h = as_bytes (rec_id r)
              \<and> rec_commitment r = commitment_from_public L (ch_kem_public h))))
    \<and> (\<exists>last q. traverse L p nodes = Inr (map ch_id (tl hops) @ [last], q)
         \<and> take (length payload) (drop OFF_DELTA q) = payload)"
proof -
  have verified: "verify_hops L True hops = Inr ()" and b: "build L (client_path hops) payload rng = (Inr p, rng')"
    using assms(5) by (auto simp: build_packet_with_options_def build_options_default_def split: if_splits sum.splits prod.splits)
  have bound: "ch_commitment h = Some (commitment_from_public L (ch_kem_public h))" if "h \<in> set hops" for h
    using verified that by (auto simp: verify_hops_Inr verify_kem_binding_Inr split: option.splits)
  have roster: "\<exists>roster_cfg roster. ccf_roster cfg = Some roster_cfg \<and> load_roster_from_config S fs roster_cfg = Inr roster
      \<and> (\<forall>h \<in> set hops. \<exists>i r. roster_get roster i = Some r \<and> ch_id h = as_bytes (rec_id r)
           \<and> rec_commitment r = commitment_from_public L (ch_kem_public h))" if "use_roster_path cfg force_roster"
    using resolve_roster_sound[of S fs L xsec mgen R Os cfg os_rng hops os_rng'] assms(4) that bound
    by (fastforce simp: resolve_client_hops_def)
  have ids: "length (hop_id hop) = 32" if "hop \<in> set (client_path hops)" for hop
    using that resolved_ids[OF assms(4)] by (auto simp: client_path_def)
  have "\<exists>last q. traverse L p nodes = Inr (map hop_id (tl (client_path hops)) @ [last], q)
      \<and> wf_packet q \<and> take (length payload) (drop OFF_DELTA q) = payload"
    by (rule built_packet_travels[OF assms(1-3) ids b]) (use assms(6,7) in \<open>simp_all add: client_path_def\<close>)
  moreover have "map hop_id (tl (client_path hops)) = map ch_id (tl hops)" by (simp add: client_path_def map_tl[symmetric] o_def)
  ultimately show ?thesis using bound roster by metis
qed

section \<open>A concrete configuration\<close>

definition toy_hop_config :: "nat \<Rightarrow> HopConfig" where
  "toy_hop_config s = \<lparr>hc_id = hex_encode (replicate 32 (of_nat s)), kem_x25519_seed = hex_encode (replicate 32 (of_nat s)),
     kem_mlkem_d = hex_encode (replicate 32 0), kem_mlkem_z = hex_encode (replicate 32 0),
     hc_kem_commitment = Some (hex_encode (kem_public_commitment toy_lib (hop_pk (toy_hop s))))\<rparr>"

definition toy_client_config :: ClientConfigFile where
  "toy_client_config = \<lparr>ccf_first_hop_addr = [], ingress_link_key = [], ccf_payload = None, ccf_hops = map toy_hop_config [1, 2, 3],
     ccf_roster = None, ccf_link = None, ccf_guard_mitigation = \<lparr>preset = None, file_adaptive_first = False\<rparr>, ccf_path = None\<rparr>"

definition toy_client_hop :: "nat \<Rightarrow> unit ClientHop" where
  "toy_client_hop s = \<lparr>ch_id = replicate 32 (of_nat s), ch_kem_public = hop_pk (toy_hop s),
     ch_commitment = Some (kem_public_commitment toy_lib (hop_pk (toy_hop s))), ch_addr = None\<rparr>"

abbreviation toy_resolve :: "(HopsResolveError, unit ClientHop list) result option \<times> u64" where
  "toy_resolve \<equiv> resolve_client_hops toy_sig (\<lambda>_. None) toy_lib (\<lambda>x. unat (hd x)) (\<lambda>d z. ((), ()))
     counter_rand counter_rand toy_client_config False 0"

lemma toy_hop_resolves:
  "s < 256 \<Longrightarrow> hop_config_to_client_hop toy_lib (\<lambda>x. unat (hd x)) (\<lambda>d z. ((), ())) (toy_hop_config s) = Inr (toy_client_hop s)"
proof -
  assume "s < 256"
  then have "unat (of_nat s :: byte) = s" by (simp add: unat_of_nat take_bit_eq_mod)
  moreover have "length (kem_public_commitment toy_lib k) = 32" for k using toy_laws(1) by (simp add: kem_public_commitment_def lib_lengths_def)
  moreover have "lib_x25519_public toy_lib s = replicate 32 (of_nat s)" by (simp add: toy_lib_def)
  ultimately show ?thesis
    by (simp add: hop_config_to_client_hop_def toy_hop_config_def toy_client_hop_def client_parse_hex32_encode map_err_def
        generate_deterministic_def toy_hop_def)
qed

lemma toy_resolves: "toy_resolve = (Some (Inr (map toy_client_hop [1, 2, 3])), 0)"
  using toy_hop_resolves[of 1] toy_hop_resolves[of 2] toy_hop_resolves[of 3]
  by (simp add: resolve_client_hops_def use_roster_path_def toy_client_config_def explicit_hops_from_config_def)

lemma toy_client_path: "client_path (map toy_client_hop [1, 2, 3]) = toy_path"
  by (simp add: client_path_def toy_client_hop_def toy_path_def toy_hop_def)

lemma toy_client_builds: "\<exists>rng'. build_packet_with_options toy_lib (map toy_client_hop [1, 2, 3]) [72, 105] 10 build_options_default = (Inr toy_packet, rng')"
proof -
  obtain rng' where b: "build toy_lib toy_path [72, 105] 10 = (Inr toy_packet, rng')" using toy_build by blast
  have verified: "verify_hops toy_lib True (map toy_client_hop ss) = Inr ()" for ss
    unfolding verify_hops_Inr by (auto simp: verify_kem_binding_Inr toy_client_hop_def commitment_from_public_def)
  have "build_packet_with_options toy_lib (map toy_client_hop [1, 2, 3]) [72, 105] 10 build_options_default = (Inr toy_packet, rng')"
    unfolding build_packet_with_options_def build_options_default_def BuildPacketOptions.simps verified toy_client_path b by simp
  then show ?thesis by blast
qed

theorem client_packet_bound_witness:
  "\<exists>last q. traverse toy_lib toy_packet (map (\<lambda>s. (toy_key s, with_capacity 5)) [1, 2, 3])
      = Inr (map ch_id (tl (map toy_client_hop [1, 2, 3])) @ [last], q) \<and> take (length [72, 105 :: byte]) (drop OFF_DELTA q) = [72, 105]"
proof -
  obtain rng' where built: "build_packet_with_options toy_lib (map toy_client_hop [1, 2, 3]) [72, 105] 10 build_options_default
      = (Inr toy_packet, rng')" using toy_client_builds by blast
  have keys: "key_pair toy_lib (fst (map (\<lambda>s. (toy_key s, with_capacity 5)) [1, 2, 3] ! i)) (ch_kem_public (map toy_client_hop [1, 2, 3] ! i))
      \<and> fresh_cache (snd (map (\<lambda>s. (toy_key s, with_capacity 5)) [1, 2, 3] ! i))" if "i < length (map toy_client_hop [1, 2, 3])" for i
    using that toy_key_pair fresh_with_capacity by (simp add: toy_client_hop_def del: list.map)
  have "length (map (\<lambda>s. (toy_key s, with_capacity 5)) [1, 2, 3]) = length (map toy_client_hop [1, 2, 3])" by simp
  from client_packet_bound[OF toy_laws toy_resolves built this keys] show ?thesis by blast
qed

end
