(* ===== verification/Fair_Queue.thy ===== *)
theory Fair_Queue
  imports Peer_Health Relay_Node
begin

text \<open>
  The weighted fair queues of \<^verbatim>\<open>crates/aegis-relay/src/net.rs\<close>: one bounded queue per peer, drained by a
  deficit round robin into the relay (inbound) or onto TCP (outbound). A slot's receiver is its queued items and
  whether a sender is left.
\<close>

section \<open>Weights\<close>

definition PER_PEER_INBOUND_CAPACITY :: nat where "PER_PEER_INBOUND_CAPACITY = 16"
definition PER_PEER_OUTBOUND_CAPACITY :: nat where "PER_PEER_OUTBOUND_CAPACITY = 16"
definition DEFAULT_PEER_QUEUE_WEIGHT :: u32 where "DEFAULT_PEER_QUEUE_WEIGHT = 1"
definition MAX_PEER_QUEUE_WEIGHT :: u32 where "MAX_PEER_QUEUE_WEIGHT = 8"

definition peer_queue_weight_from_success_rate :: "f64 option \<Rightarrow> u32" where
  "peer_queue_weight_from_success_rate rate =
     (case rate of
        None \<Rightarrow> DEFAULT_PEER_QUEUE_WEIGHT
      | Some r \<Rightarrow>
          let clamped = f64_clamp (Fin 0) (Fin 1) r;
              w = of_nat (min (f64_to_u64 (f64_round (f64_mul clamped (Fin (of_nat (unat MAX_PEER_QUEUE_WEIGHT)))))) (2 ^ 32 - 1))
          in max DEFAULT_PEER_QUEUE_WEIGHT (min w MAX_PEER_QUEUE_WEIGHT))"

definition peer_queue_weight_for :: "bytes option \<Rightarrow> PeerHealthTracker option \<Rightarrow> u32" where
  "peer_queue_weight_for matched_peer health =
     (case matched_peer of None \<Rightarrow> DEFAULT_PEER_QUEUE_WEIGHT
      | Some i \<Rightarrow> (case health of None \<Rightarrow> DEFAULT_PEER_QUEUE_WEIGHT
          | Some t \<Rightarrow> peer_queue_weight_from_success_rate (success_rate t i)))"

section \<open>Slots\<close>

record 'a FairPeerSlot =
  rx_items :: "'a list"
  rx_connected :: bool
  slot_weight :: u32
  slot_credits :: u32

type_synonym 'a slots = "'a FairPeerSlot option list"

definition slot_register :: "u32 \<Rightarrow> 'a slots \<Rightarrow> nat \<times> 'a slots" where
  "slot_register w slots =
     (let w = max w DEFAULT_PEER_QUEUE_WEIGHT;
          slot = \<lparr>rx_items = [], rx_connected = True, slot_weight = w, slot_credits = 0\<rparr>
      in case find (\<lambda>i. slots ! i = None) [0..<length slots] of
           Some i \<Rightarrow> (i, slots[i := Some slot])
         | None \<Rightarrow> (length slots, slots @ [Some slot]))"

definition slot_set_weight :: "nat \<Rightarrow> u32 \<Rightarrow> 'a slots \<Rightarrow> 'a slots" where
  "slot_set_weight i w slots =
     (let w = max w DEFAULT_PEER_QUEUE_WEIGHT in
      if i < length slots then slots[i := map_option (\<lambda>s. s\<lparr>slot_weight := w\<rparr>) (slots ! i)] else slots)"

text \<open>\<open>try_send_drop_newest\<close> on the queue of a slot whose receiver is alive.\<close>

definition slot_enqueue :: "nat \<Rightarrow> nat \<Rightarrow> 'a \<Rightarrow> 'a slots \<Rightarrow> u64 \<Rightarrow> 'a slots \<times> u64" where
  "slot_enqueue cap i x slots dropped =
     (case (if i < length slots then slots ! i else None) of
        None \<Rightarrow> (slots, dropped)
      | Some s \<Rightarrow> if length (rx_items s) < cap then (slots[i := Some (s\<lparr>rx_items := rx_items s @ [x]\<rparr>)], dropped)
                  else (slots, dropped + 1))"

datatype 'a visit = Served 'a bool | Disconnected | Skipped

text \<open>The visit of one slot: refill, then \<open>try_recv\<close>.\<close>

definition slot_refill :: "'a FairPeerSlot \<Rightarrow> 'a FairPeerSlot" where
  "slot_refill s =
     (if slot_credits s = 0 then s\<lparr>slot_credits := max (slot_weight s) DEFAULT_PEER_QUEUE_WEIGHT\<rparr> else s)"

definition sat_dec32 :: "u32 \<Rightarrow> u32" where
  "sat_dec32 c = (if c = 0 then 0 else c - 1)"

definition slot_visit :: "'a FairPeerSlot \<Rightarrow> 'a visit \<times> 'a FairPeerSlot" where
  "slot_visit s =
     (let s = slot_refill s in
      case rx_items s of
        x # xs \<Rightarrow> let c = sat_dec32 (slot_credits s) in (Served x (c = 0), s\<lparr>rx_items := xs, slot_credits := c\<rparr>)
      | [] \<Rightarrow> if rx_connected s then (Skipped, s\<lparr>slot_credits := 0\<rparr>) else (Disconnected, s))"

text \<open>The scan of \<open>fair_wfq_take_one\<close> from step \<open>k\<close>; \<open>fuel\<close> is the number of steps left.\<close>

fun wfq_scan :: "nat \<Rightarrow> nat \<Rightarrow> 'a slots \<Rightarrow> nat \<Rightarrow> 'a option \<times> 'a slots \<times> nat" where
  "wfq_scan 0 k slots cursor = (None, slots, cursor)"
| "wfq_scan (Suc fuel) k slots cursor =
     (let i = (cursor + k) mod length slots in
      case slots ! i of
        None \<Rightarrow> wfq_scan fuel (k + 1) slots cursor
      | Some s \<Rightarrow> (case slot_visit s of
            (Served x advance, s') \<Rightarrow> (Some x, slots[i := Some s'], if advance then i + 1 else i)
          | (Disconnected, _) \<Rightarrow> wfq_scan fuel (k + 1) (slots[i := None]) cursor
          | (Skipped, s') \<Rightarrow> wfq_scan fuel (k + 1) (slots[i := Some s']) cursor))"

definition fair_wfq_take_one :: "'a slots \<Rightarrow> nat \<Rightarrow> 'a option \<times> 'a slots \<times> nat" where
  "fair_wfq_take_one slots cursor =
     (if slots = [] then (None, slots, cursor) else wfq_scan (length slots) 0 slots cursor)"

definition all_outbound_slots_empty :: "'a slots \<Rightarrow> bool" where
  "all_outbound_slots_empty slots = list_all (\<lambda>s. case s of None \<Rightarrow> True | Some s \<Rightarrow> rx_items s = []) slots"

text \<open>One round of \<open>spawn_fair_inbound_drain\<close>: the packet goes to the relay's channel, drop-newest; a closed channel ends the drain.\<close>

definition inbound_drain_step ::
    "'a slots \<Rightarrow> nat \<Rightarrow> 'a mpsc_channel \<Rightarrow> u64 \<Rightarrow> bool \<times> 'a slots \<times> nat \<times> 'a mpsc_channel \<times> u64" where
  "inbound_drain_step slots cursor inbound dropped =
     (case fair_wfq_take_one slots cursor of
        (None, slots, cursor) \<Rightarrow> (True, slots, cursor, inbound, dropped)
      | (Some pkt, slots, cursor) \<Rightarrow> (case try_send_drop_newest inbound pkt dropped of
            (Inl _, inbound, dropped) \<Rightarrow> (False, slots, cursor, inbound, dropped)
          | (Inr _, inbound, dropped) \<Rightarrow> (True, slots, cursor, inbound, dropped)))"

section \<open>No peer starves\<close>

text \<open>
  Everything that happens to a hub: the drain takes, a packet arrives at a slot, a connection registers (a slot
  vacated by an earlier one, or a new one at the end), a slot gets the weight of its peer's health, a sender
  goes away. The inbound hub registers with the default weight (no peer matched yet), the outbound one with the
  weight of the peer's health.
\<close>

datatype 'a hub_event = Take | Arrive nat 'a | Register "bytes option" "PeerHealthTracker option"
  | Reweigh nat "bytes option" "PeerHealthTracker option" | Hangup nat

fun hub_step :: "nat \<Rightarrow> 'a hub_event \<Rightarrow> 'a slots \<Rightarrow> nat \<Rightarrow> 'a list \<times> 'a slots \<times> nat" where
  "hub_step cap Take slots cursor = (case fair_wfq_take_one slots cursor of (r, slots, cursor) \<Rightarrow>
     (case r of None \<Rightarrow> [] | Some x \<Rightarrow> [x], slots, cursor))"
| "hub_step cap (Arrive j x) slots cursor = ([], fst (slot_enqueue cap j x slots 0), cursor)"
| "hub_step cap (Register p h) slots cursor = ([], snd (slot_register (peer_queue_weight_for p h) slots), cursor)"
| "hub_step cap (Reweigh j p h) slots cursor = ([], slot_set_weight j (peer_queue_weight_for p h) slots, cursor)"
| "hub_step cap (Hangup j) slots cursor =
     ([], if j < length slots then slots[j := map_option (\<lambda>s. s\<lparr>rx_connected := False\<rparr>) (slots ! j)] else slots, cursor)"

fun hub_run :: "nat \<Rightarrow> 'a hub_event list \<Rightarrow> 'a slots \<Rightarrow> nat \<Rightarrow> 'a list" where
  "hub_run cap [] slots cursor = []"
| "hub_run cap (e # es) slots cursor =
     (case hub_step cap e slots cursor of (out, slots, cursor) \<Rightarrow> out @ hub_run cap es slots cursor)"

fun is_take :: "'a hub_event \<Rightarrow> bool" where
  "is_take Take = True"
| "is_take _ = False"

fun is_register :: "'a hub_event \<Rightarrow> bool" where
  "is_register (Register _ _) = True"
| "is_register _ = False"

text \<open>Weights and credits within the bound, and what a slot may still send before the cursor passes it.\<close>

definition hub_wf :: "'a slots \<Rightarrow> bool" where
  "hub_wf slots \<longleftrightarrow> (\<forall>s. Some s \<in> set slots \<longrightarrow> slot_weight s \<le> MAX_PEER_QUEUE_WEIGHT \<and> slot_credits s \<le> MAX_PEER_QUEUE_WEIGHT)"

definition service :: "'a slots \<Rightarrow> nat \<Rightarrow> nat" where
  "service slots j = (case slots ! j of None \<Rightarrow> 0 | Some s \<Rightarrow> if slot_credits s = 0 then 8 else unat (slot_credits s))"

text \<open>Slot \<open>i\<close> is \<open>d\<close> steps ahead of the cursor and at most \<open>b\<close> packets are taken before the cursor is there.\<close>

definition waits :: "'a slots \<Rightarrow> nat \<Rightarrow> nat \<Rightarrow> nat \<Rightarrow> bool" where
  "waits slots cursor i b \<longleftrightarrow> (\<exists>d < length slots. (cursor + d) mod length slots = i
     \<and> (\<Sum>k<d. service slots ((cursor + k) mod length slots)) \<le> b)"

lemma mod_shift_inj:
  fixes a b c n :: nat
  assumes "a < n" "b < n" "(c + a) mod n = (c + b) mod n"
  shows "a = b"
proof (rule ccontr)
  assume "a \<noteq> b"
  then consider "a < b" | "b < a" by linarith
  then show False
  proof cases
    case 1
    then have "n dvd (c + b) - (c + a)" using assms(3) mod_eq_dvd_iff_nat[of "c + a" "c + b" n] by simp
    then show False using 1 assms(2) by (auto dest: dvd_imp_le)
  next
    case 2
    then have "n dvd (c + a) - (c + b)" using assms(3) mod_eq_dvd_iff_nat[of "c + b" "c + a" n] by simp
    then show False using 2 assms(1) by (auto dest: dvd_imp_le)
  qed
qed

lemma unat_le_8: "(w :: u32) \<le> MAX_PEER_QUEUE_WEIGHT \<longleftrightarrow> unat w \<le> 8"
  by (simp add: MAX_PEER_QUEUE_WEIGHT_def word_le_nat_alt)

lemma hub_wf_update: "hub_wf slots \<Longrightarrow> (\<And>s. o' = Some s \<Longrightarrow> slot_weight s \<le> MAX_PEER_QUEUE_WEIGHT \<and> slot_credits s \<le> MAX_PEER_QUEUE_WEIGHT)
    \<Longrightarrow> hub_wf (slots[j := o'])"
  unfolding hub_wf_def using set_update_subset_insert[of slots j o'] by fast

text \<open>What one visit does.\<close>

lemma slot_refill_simps [simp]:
  "rx_items (slot_refill s) = rx_items s" "rx_connected (slot_refill s) = rx_connected s" "slot_weight (slot_refill s) = slot_weight s"
  by (simp_all add: slot_refill_def)

lemma refill_credits:
  assumes "slot_weight s \<le> MAX_PEER_QUEUE_WEIGHT" "slot_credits s \<le> MAX_PEER_QUEUE_WEIGHT"
  shows "0 < unat (slot_credits (slot_refill s))"
    "unat (slot_credits (slot_refill s)) \<le> (if slot_credits s = 0 then 8 else unat (slot_credits s))"
proof -
  have "0 < unat (max (slot_weight s) 1)" "unat (max (slot_weight s) 1) \<le> 8"
    using assms(1) unfolding unat_le_8 by (auto simp: max_def word_le_nat_alt)
  then show "0 < unat (slot_credits (slot_refill s))"
    "unat (slot_credits (slot_refill s)) \<le> (if slot_credits s = 0 then 8 else unat (slot_credits s))"
    by (auto simp: slot_refill_def DEFAULT_PEER_QUEUE_WEIGHT_def unat_gt_0)
qed

lemma unat_sat_dec32: "unat (sat_dec32 c) = unat c - 1"
  by (simp add: sat_dec32_def unat_minus_one)

lemma slot_visit_cases:
  assumes "slot_weight s \<le> MAX_PEER_QUEUE_WEIGHT" "slot_credits s \<le> MAX_PEER_QUEUE_WEIGHT"
  obtains (served) x xs adv s' where "rx_items s = x # xs" "slot_visit s = (Served x adv, s')" "rx_items s' = xs"
      "slot_weight s' = slot_weight s" "slot_credits s' \<le> MAX_PEER_QUEUE_WEIGHT" "adv \<longleftrightarrow> slot_credits s' = 0"
      "unat (slot_credits s') < (if slot_credits s = 0 then 8 else unat (slot_credits s))"
    | (skipped) s' where "rx_items s = []" "slot_visit s = (Skipped, s')" "slot_weight s' = slot_weight s" "slot_credits s' = 0"
    | (gone) s' where "rx_items s = []" "slot_visit s = (Disconnected, s')"
proof (cases "rx_items s")
  case Nil
  then show thesis using that(2,3) by (cases "rx_connected s") (simp_all add: slot_visit_def Let_def)
next
  case (Cons x xs)
  let ?c = "sat_dec32 (slot_credits (slot_refill s))"
  have "slot_visit s = (Served x (?c = 0), (slot_refill s)\<lparr>rx_items := xs, slot_credits := ?c\<rparr>)"
    using Cons by (simp add: slot_visit_def Let_def)
  moreover have "unat ?c < (if slot_credits s = 0 then 8 else unat (slot_credits s))"
    using refill_credits[OF assms] by (auto simp: unat_sat_dec32)
  moreover have "unat ?c \<le> 8" using calculation(2) assms(2) by (auto simp: unat_le_8 split: if_splits)
  ultimately show thesis using Cons by (intro that(1)[of x xs "?c = 0" "(slot_refill s)\<lparr>rx_items := xs, slot_credits := ?c\<rparr>"]) (simp_all add: unat_le_8)
qed

lemma service_update: "j \<noteq> m \<Longrightarrow> service (slots[j := o']) m = service slots m"
  by (simp add: service_def)

lemma hub_wf_nth: "hub_wf slots \<Longrightarrow> j < length slots \<Longrightarrow> slots ! j = Some s
    \<Longrightarrow> slot_weight s \<le> MAX_PEER_QUEUE_WEIGHT \<and> slot_credits s \<le> MAX_PEER_QUEUE_WEIGHT"
  unfolding hub_wf_def using nth_mem by metis

text \<open>A packet taken at slot \<open>j\<close>, \<open>k\<close> steps ahead of the cursor, brings the cursor nearer to the slots behind it.\<close>

lemma served_ahead:
  assumes n: "length slots = n" and k: "k < d" "d < n" and j: "j = (cursor + k) mod n" and i: "(cursor + d) mod n = i"
    and less: "unat (slot_credits s') < service slots j" and adv: "adv \<longleftrightarrow> slot_credits s' = 0"
  shows "\<exists>b. waits (slots[j := Some s']) (if adv then j + 1 else j) i b
    \<and> b < (\<Sum>m\<in>{k..<d}. service slots ((cursor + m) mod n))"
proof -
  let ?S = "slots[j := Some s']" and ?svc = "\<lambda>m. service slots ((cursor + m) mod n)"
  have split: "(\<Sum>m\<in>{k..<d}. ?svc m) = service slots j + (\<Sum>m\<in>{Suc k..<d}. ?svc m)"
    using k(1) by (simp add: sum.atLeast_Suc_lessThan j)
  have shift: "(j + e) mod n = (cursor + (k + e)) mod n" for e by (simp add: j mod_simps add.assoc)
  have other: "service ?S ((j + e) mod n) = ?svc (k + e)" if "0 < e" "k + e < n" for e
  proof -
    have "(j + e) mod n \<noteq> j" using mod_shift_inj[of "k + e" n k cursor] that k unfolding shift by (auto simp: j)
    then show ?thesis using service_update[of j "(j + e) mod n" slots "Some s'"] shift by simp
  qed
  have tail: "(\<Sum>m<d - Suc k. service ?S ((j + Suc m) mod n)) = (\<Sum>m\<in>{Suc k..<d}. ?svc m)"
  proof -
    have "(\<Sum>m<d - Suc k. service ?S ((j + Suc m) mod n)) = (\<Sum>m<d - Suc k. ?svc (m + Suc k))"
    proof (rule sum.cong[OF refl])
      fix m assume "m \<in> {..<d - Suc k}"
      then have "0 < Suc m" "k + Suc m < n" using k by auto
      from other[OF this] show "service ?S ((j + Suc m) mod n) = ?svc (m + Suc k)" by (simp add: ac_simps)
    qed
    also have "\<dots> = (\<Sum>m\<in>{Suc k..<d}. ?svc m)"
      using sum.shift_bounds_nat_ivl[of ?svc 0 "Suc k" "d - Suc k"] k by (simp add: lessThan_atLeast0)
    finally show ?thesis .
  qed
  show ?thesis
  proof (cases adv)
    case True
    have "waits ?S (j + 1) i (\<Sum>m\<in>{Suc k..<d}. ?svc m)" unfolding waits_def
    proof (intro exI[of _ "d - Suc k"] conjI)
      show "(j + 1 + (d - Suc k)) mod length ?S = i" using shift[of "Suc (d - Suc k)"] k i n by simp
    qed (use tail n k in simp_all)
    then show ?thesis using True split less by auto
  next
    case False
    have jn: "j < n" using k by (simp add: j)
    have cur: "service ?S j = unat (slot_credits s')" using False adv jn n by (simp add: service_def)
    have "waits ?S j i (unat (slot_credits s') + (\<Sum>m\<in>{Suc k..<d}. ?svc m))" unfolding waits_def
    proof (intro exI[of _ "d - k"] conjI)
      show "(j + (d - k)) mod length ?S = i" using shift[of "d - k"] k i n by simp
      have "d - k = Suc (d - Suc k)" using k by simp
      then have "(\<Sum>m<d - k. service ?S ((j + m) mod n)) = service ?S j + (\<Sum>m<d - Suc k. service ?S ((j + Suc m) mod n))"
        using jn by (simp only: sum.lessThan_Suc_shift) simp
      then show "(\<Sum>m<d - k. service ?S ((j + m) mod length ?S)) \<le> unat (slot_credits s') + (\<Sum>m\<in>{Suc k..<d}. ?svc m)"
        using tail cur n by simp
    qed (use n k in simp_all)
    then show ?thesis using False split less by auto
  qed
qed

lemma wfq_scan_progress:
  assumes "hub_wf slots" "length slots = n" "k \<le> d" "d < n" "fuel = n - k" "(cursor + d) mod n = i"
    "slots ! i = Some s" "rx_items s = x # xs" "wfq_scan fuel k slots cursor = (r, slots', cursor')"
  shows "length slots' = n \<and> hub_wf slots' \<and> (r = Some x \<or> (\<exists>y b. r = Some y \<and> slots' ! i = Some s \<and> waits slots' cursor' i b
    \<and> b < (\<Sum>m\<in>{k..<d}. service slots ((cursor + m) mod n))))"
  using assms
proof (induction fuel arbitrary: k slots)
  case 0
  then show ?case by simp
next
  case (Suc fuel)
  let ?j = "(cursor + k) mod n"
  have jn: "?j < n" using Suc.prems(4) by simp
  have step: "wfq_scan (Suc fuel) k slots cursor = (r, slots', cursor')" by (rule Suc.prems(9))
  have next_k: "?case" if o': "slots2 = slots \<or> slots2 = slots[?j := t]" "hub_wf slots2" "?j \<noteq> i"
      "wfq_scan fuel (k + 1) slots2 cursor = (r, slots', cursor')" for slots2 t
  proof -
    have kd: "k + 1 \<le> d" using o'(3) Suc.prems(3,6) by (metis Suc_eq_plus1 Suc_leI le_neq_implies_less)
    have same: "service slots2 ((cursor + m) mod n) = service slots ((cursor + m) mod n)" if "m \<in> {k + 1..<d}" for m
      using o'(1) mod_shift_inj[of k n m cursor] that Suc.prems(4) by (auto intro: service_update)
    have "slots2 ! i = Some s" "length slots2 = n" using o'(1,3) Suc.prems(2,7) by auto
    then have rec: "length slots' = n \<and> hub_wf slots' \<and> (r = Some x \<or> (\<exists>y b. r = Some y \<and> slots' ! i = Some s \<and> waits slots' cursor' i b
        \<and> b < (\<Sum>m\<in>{k + 1..<d}. service slots2 ((cursor + m) mod n))))"
      using Suc.prems kd o' by (intro Suc.IH[of slots2 "k + 1"]) simp_all
    have le: "(\<Sum>m\<in>{k + 1..<d}. service slots2 ((cursor + m) mod n)) \<le> (\<Sum>m\<in>{k..<d}. service slots ((cursor + m) mod n))"
    proof -
      have "(\<Sum>m\<in>{k + 1..<d}. service slots2 ((cursor + m) mod n)) = (\<Sum>m\<in>{k + 1..<d}. service slots ((cursor + m) mod n))"
        by (rule sum.cong[OF refl same])
      also have "\<dots> \<le> (\<Sum>m\<in>{k..<d}. service slots ((cursor + m) mod n))" by (intro sum_mono2) auto
      finally show ?thesis .
    qed
    from rec show ?thesis
    proof (elim conjE disjE exE)
      fix y b assume *: "length slots' = n" "hub_wf slots'" "r = Some y" "slots' ! i = Some s" "waits slots' cursor' i b"
        "b < (\<Sum>m\<in>{k + 1..<d}. service slots2 ((cursor + m) mod n))"
      have "b < (\<Sum>m\<in>{k..<d}. service slots ((cursor + m) mod n))" using *(6) le by linarith
      then show ?thesis using *(1-5) by blast
    qed simp
  qed
  show ?case
  proof (cases "slots ! ?j")
    case None
    then have "?j \<noteq> i" using Suc.prems(7) by fastforce
    then show ?thesis using step None Suc.prems(1,2) by (intro next_k[of slots None]) simp_all
  next
    case (Some t)
    then have t: "slot_weight t \<le> MAX_PEER_QUEUE_WEIGHT" "slot_credits t \<le> MAX_PEER_QUEUE_WEIGHT"
      using hub_wf_nth[OF Suc.prems(1)] jn Suc.prems(2) by auto
    have stay: "?j \<noteq> i" if "rx_items t = []" using that Some Suc.prems(7,8) by auto
    from t show ?thesis
    proof (cases t rule: slot_visit_cases)
      case (served y ys adv t')
      then have out: "r = Some y" "slots' = slots[?j := Some t']" "cursor' = (if adv then ?j + 1 else ?j)"
        using step Some Suc.prems(2) by (simp_all add: Let_def)
      have wf: "hub_wf slots'" unfolding out(2) using served(4,5) t(1) Suc.prems(1) by (intro hub_wf_update) auto
      show ?thesis
      proof (cases "k = d")
        case True
        then show ?thesis using out wf Some served(1) Suc.prems(2,6,7,8) by simp
      next
        case False
        then have kd: "k < d" using Suc.prems(3) by simp
        have "?j \<noteq> i" using mod_shift_inj[of k n d cursor] kd Suc.prems(4,6) by auto
        moreover have "unat (slot_credits t') < service slots ?j" using served(7) Some by (simp add: service_def)
        note served_ahead[OF Suc.prems(2) kd Suc.prems(4) refl Suc.prems(6) this served(6)]
        ultimately show ?thesis using out wf Suc.prems(2,7) by auto
      qed
    next
      case (skipped t')
      have "hub_wf (slots[?j := Some t'])" using skipped t(1) Suc.prems(1) by (intro hub_wf_update) (auto simp: word_zero_le)
      then show ?thesis using step Some skipped Suc.prems(2) stay by (intro next_k[of "slots[?j := Some t']" "Some t'"]) (simp_all add: Let_def)
    next
      case (gone t')
      have "hub_wf (slots[?j := None])" using Suc.prems(1) by (intro hub_wf_update) auto
      then show ?thesis using step Some gone Suc.prems(2) stay by (intro next_k[of "slots[?j := None]" None]) (simp_all add: Let_def)
    qed
  qed
qed

lemma service_le: "hub_wf slots \<Longrightarrow> j < length slots \<Longrightarrow> service slots j \<le> 8"
  using hub_wf_nth unat_le_8 by (fastforce simp: service_def split: option.split)

lemma waits_initially:
  assumes "hub_wf slots" "i < length slots"
  shows "waits slots cursor i (8 * (length slots - 1))"
proof -
  let ?n = "length slots"
  let ?d = "(i + ?n - cursor mod ?n) mod ?n"
  have n: "0 < ?n" using assms(2) by linarith
  have "cursor mod ?n + (i + ?n - cursor mod ?n) = i + ?n" using n mod_less_divisor[OF n, of cursor] by linarith
  then have "(cursor mod ?n + (i + ?n - cursor mod ?n)) mod ?n = i" using assms(2) by simp
  then have reach: "(cursor + ?d) mod ?n = i" by (simp add: mod_simps)
  have d: "?d < ?n" using n by simp
  have "(\<Sum>k<?d. service slots ((cursor + k) mod ?n)) \<le> (\<Sum>k<?d. 8)"
    by (rule sum_mono) (use service_le[OF assms(1)] n in simp)
  also have "\<dots> \<le> 8 * (?n - 1)" using d by simp
  finally show ?thesis unfolding waits_def using reach d by blast
qed

lemma waits_cong: "length slots' = length slots \<Longrightarrow> (\<And>j. service slots' j = service slots j) \<Longrightarrow> waits slots' cursor i b \<longleftrightarrow> waits slots cursor i b"
  by (simp add: waits_def)

lemma take_progress:
  assumes "hub_wf slots" "i < length slots" "slots ! i = Some s" "rx_items s = x # xs" "waits slots cursor i b"
    "fair_wfq_take_one slots cursor = (r, slots', cursor')"
  shows "length slots' = length slots \<and> hub_wf slots'
    \<and> (r = Some x \<or> (\<exists>y b'. r = Some y \<and> slots' ! i = Some s \<and> waits slots' cursor' i b' \<and> b' < b))"
proof -
  obtain d where d: "d < length slots" "(cursor + d) mod length slots = i" "(\<Sum>k<d. service slots ((cursor + k) mod length slots)) \<le> b"
    using assms(5) by (auto simp: waits_def)
  have "wfq_scan (length slots) 0 slots cursor = (r, slots', cursor')"
    using assms(2,6) by (auto simp: fair_wfq_take_one_def split: if_splits)
  from wfq_scan_progress[OF assms(1) refl _ d(1) _ d(2) assms(3,4) this]
  have "length slots' = length slots \<and> hub_wf slots'
    \<and> (r = Some x \<or> (\<exists>y b'. r = Some y \<and> slots' ! i = Some s \<and> waits slots' cursor' i b'
        \<and> b' < (\<Sum>k\<in>{0..<d}. service slots ((cursor + k) mod length slots))))" by simp
  then show ?thesis using d(3) order_less_le_trans unfolding lessThan_atLeast0 by blast
qed

definition has_head :: "'a slots \<Rightarrow> nat \<Rightarrow> 'a \<Rightarrow> bool" where
  "has_head slots i x \<longleftrightarrow> i < length slots \<and> (\<exists>s xs. slots ! i = Some s \<and> rx_items s = x # xs)"

text \<open>An event that is no take leaves the service, the bounds and every head as they are.\<close>

lemma update_progress:
  assumes "hub_wf slots" "has_head slots i x" "waits slots cursor i b"
    and upd: "slots' = slots \<or> (\<exists>t t'. j < length slots \<and> slots ! j = Some t \<and> slots' = slots[j := Some t'] \<and> slot_credits t' = slot_credits t
      \<and> (slot_weight t' \<le> MAX_PEER_QUEUE_WEIGHT \<or> slot_weight t' = slot_weight t) \<and> (\<exists>zs. rx_items t' = rx_items t @ zs))"
  shows "hub_wf slots' \<and> has_head slots' i x \<and> waits slots' cursor i b"
proof (cases "slots' = slots")
  case False
  then obtain t t' where j: "j < length slots" "slots ! j = Some t" "slots' = slots[j := Some t']" and t': "slot_credits t' = slot_credits t"
    "slot_weight t' \<le> MAX_PEER_QUEUE_WEIGHT \<or> slot_weight t' = slot_weight t" "\<exists>zs. rx_items t' = rx_items t @ zs" using upd by auto
  have "hub_wf slots'" unfolding j(3) using hub_wf_nth[OF assms(1) j(1,2)] t'(1,2) by (intro hub_wf_update assms(1)) auto
  moreover have "has_head slots' i x" using assms(2) t'(3) j by (cases "i = j") (auto simp: has_head_def)
  moreover have "service slots' m = service slots m" for m using j t'(1) by (cases "m = j") (simp_all add: service_def)
  ultimately show ?thesis using waits_cong[of slots' slots cursor i b] assms(3) j(3) by simp
qed (use assms in simp)

lemma health_weight_le: "peer_queue_weight_for i h \<le> MAX_PEER_QUEUE_WEIGHT"
  by (simp add: peer_queue_weight_for_def peer_queue_weight_from_success_rate_def DEFAULT_PEER_QUEUE_WEIGHT_def
      MAX_PEER_QUEUE_WEIGHT_def Let_def split: option.split)

lemma health_weight_max: "max (peer_queue_weight_for i h) DEFAULT_PEER_QUEUE_WEIGHT \<le> MAX_PEER_QUEUE_WEIGHT"
  using health_weight_le[of i h] by (simp add: DEFAULT_PEER_QUEUE_WEIGHT_def MAX_PEER_QUEUE_WEIGHT_def)

text \<open>The cursor stays within the table, or just behind its end.\<close>

lemma wfq_scan_cursor:
  "wfq_scan fuel k slots cursor = (r, slots', cursor') \<Longrightarrow> slots \<noteq> [] \<Longrightarrow> cursor \<le> length slots
    \<Longrightarrow> length slots' = length slots \<and> cursor' \<le> length slots"
proof (induction fuel arbitrary: k slots)
  case (Suc fuel)
  let ?j = "(cursor + k) mod length slots"
  have j: "?j < length slots" using Suc.prems(2) by simp
  show ?case
  proof (cases "slots ! ?j")
    case None
    then show ?thesis using Suc by (simp add: Let_def)
  next
    case (Some t)
    obtain v t' where v: "slot_visit t = (v, t')" by fastforce
    have rec: "length slots' = length slots \<and> cursor' \<le> length slots"
      if "wfq_scan fuel (k + 1) (slots[?j := u]) cursor = (r, slots', cursor')" for u
      using Suc.IH[OF that] Suc.prems(2,3) by simp
    show ?thesis
    proof (cases v)
      case (Served y adv)
      then show ?thesis using Suc.prems(1) Some v j by (auto simp: Let_def Suc_le_eq split: if_splits)
    qed (use rec Suc.prems(1) Some v in \<open>simp_all add: Let_def\<close>)
  qed
qed simp

lemma take_cursor:
  assumes "fair_wfq_take_one slots cursor = (r, slots', cursor')" "cursor \<le> length slots"
  shows "length slots' = length slots \<and> cursor' \<le> length slots'"
  using assms wfq_scan_cursor[of "length slots" 0 slots cursor r slots' cursor']
  by (cases "slots = []") (auto simp: fair_wfq_take_one_def)

text \<open>A registration puts at most one visit, of at most eight packets, in front of a waiting slot.\<close>

lemma waits_vacant:
  assumes "waits slots cursor i b" "j < length slots" "service (slots[j := o']) j \<le> 8"
  shows "waits (slots[j := o']) cursor i (b + 8)"
proof -
  let ?n = "length slots" and ?S = "slots[j := o']"
  obtain d where d: "d < ?n" "(cursor + d) mod ?n = i" "(\<Sum>k<d. service slots ((cursor + k) mod ?n)) \<le> b"
    using assms(1) by (auto simp: waits_def)
  let ?f = "\<lambda>k. service slots ((cursor + k) mod ?n)"
  define hit where "hit = {k \<in> {..<d}. (cursor + k) mod ?n = j}"
  have "k = k'" if "k \<in> hit" "k' \<in> hit" for k k'
    using that d(1) mod_shift_inj[of k ?n k' cursor] by (simp add: hit_def)
  moreover have "finite hit" by (simp add: hit_def)
  ultimately have "card hit \<le> 1" by (simp add: card_le_Suc0_iff_eq)
  have "service ?S ((cursor + k) mod ?n) \<le> ?f k + (if (cursor + k) mod ?n = j then 8 else 0)" for k
    using assms(3) service_update[of j "(cursor + k) mod ?n" slots o'] by auto
  then have "(\<Sum>k<d. service ?S ((cursor + k) mod ?n)) \<le> (\<Sum>k<d. ?f k + (if (cursor + k) mod ?n = j then 8 else 0))"
    by (intro sum_mono) blast
  also have "\<dots> = (\<Sum>k<d. ?f k) + (\<Sum>k<d. if (cursor + k) mod ?n = j then 8 else 0)" by (rule sum.distrib)
  also have "(\<Sum>k<d. if (cursor + k) mod ?n = j then 8 else 0) = (\<Sum>k\<in>hit. 8)"
    unfolding hit_def by (rule sum.inter_filter[symmetric]) simp
  also have "(\<Sum>k<d. ?f k) + (\<Sum>k\<in>hit. 8) \<le> b + 8" using d(3) \<open>card hit \<le> 1\<close> by simp
  finally have "(\<Sum>k<d. service ?S ((cursor + k) mod length ?S)) \<le> b + 8" by simp
  then show ?thesis unfolding waits_def using d(1,2) by (intro exI[of _ d]) simp
qed

lemma waits_new_slot:
  assumes "waits slots cursor i b" "i < length slots" "cursor \<le> length slots" "service (slots @ [o']) (length slots) \<le> 8"
  shows "waits (slots @ [o']) cursor i (b + 8)"
proof -
  let ?n = "length slots" and ?S = "slots @ [o']"
  obtain d where d: "d < ?n" "(cursor + d) mod ?n = i" "(\<Sum>k<d. service slots ((cursor + k) mod ?n)) \<le> b"
    using assms(1) by (auto simp: waits_def)
  have old: "service ?S m = service slots m" if "m < ?n" for m using that by (simp add: service_def nth_append)
  show ?thesis
  proof (cases "cursor + d < ?n")
    case True
    have "(\<Sum>k<d. service ?S ((cursor + k) mod length ?S)) = (\<Sum>k<d. service slots ((cursor + k) mod ?n))"
      by (rule sum.cong[OF refl]) (use True old in simp)
    then show ?thesis unfolding waits_def using d True by (intro exI[of _ d]) simp
  next
    case False
    define e where "e = ?n - cursor"
    have e: "cursor + e = ?n" "e \<le> d" using False assms(3) by (simp_all add: e_def)
    have i: "i = d - e" using d(1,2) e assms(3) by (auto simp: mod_if)
    have wrap: "(cursor + Suc (e + k)) mod length ?S = k" if "k < ?n" for k
    proof -
      have "cursor + Suc (e + k) = k + Suc ?n" using e(1) by simp
      then show ?thesis using that by (simp only: length_append_singleton mod_add_self2) simp
    qed
    have new: "(\<Sum>k<Suc d. service ?S ((cursor + k) mod length ?S))
        = (\<Sum>k<e. service slots (cursor + k)) + service ?S ?n + (\<Sum>k<d - e. service slots k)"
    proof -
      have "(\<Sum>k<Suc d. service ?S ((cursor + k) mod length ?S))
          = (\<Sum>k<e. service ?S ((cursor + k) mod length ?S)) + service ?S ((cursor + e) mod length ?S)
            + (\<Sum>k\<in>{Suc e..<Suc d}. service ?S ((cursor + k) mod length ?S))"
        using sum.atLeastLessThan_concat[of 0 "Suc e" "Suc d" "\<lambda>k. service ?S ((cursor + k) mod length ?S)"] e(2)
        by (simp only: lessThan_atLeast0 sum.atLeast0_lessThan_Suc le0 Suc_le_mono)
      moreover have "(\<Sum>k<e. service ?S ((cursor + k) mod length ?S)) = (\<Sum>k<e. service slots (cursor + k))"
        by (rule sum.cong[OF refl]) (use e(1) old in simp)
      moreover have "(\<Sum>k\<in>{Suc e..<Suc d}. service ?S ((cursor + k) mod length ?S)) = (\<Sum>k<d - e. service slots k)"
      proof -
        have "(\<Sum>k\<in>{Suc e..<Suc d}. service ?S ((cursor + k) mod length ?S))
            = (\<Sum>k\<in>{0..<d - e}. service ?S ((cursor + (k + Suc e)) mod length ?S))"
          using sum.shift_bounds_nat_ivl[of "\<lambda>k. service ?S ((cursor + k) mod length ?S)" 0 "Suc e" "d - e"] e(2) by simp
        also have "\<dots> = (\<Sum>k\<in>{0..<d - e}. service slots k)"
        proof (rule sum.cong[OF refl])
          fix k assume "k \<in> {0..<d - e}"
          then have "k < ?n" using d(1) by simp
          then show "service ?S ((cursor + (k + Suc e)) mod length ?S) = service slots k"
            using wrap[of k] old[of k] by (simp add: add.commute[of k] del: length_append_singleton)
        qed
        finally show ?thesis by (simp add: lessThan_atLeast0)
      qed
      ultimately show ?thesis using e(1) by simp
    qed
    have "(\<Sum>k<d. service slots ((cursor + k) mod ?n)) = (\<Sum>k<e. service slots (cursor + k)) + (\<Sum>k<d - e. service slots k)"
    proof -
      have "(\<Sum>k<d. service slots ((cursor + k) mod ?n))
          = (\<Sum>k<e. service slots ((cursor + k) mod ?n)) + (\<Sum>k\<in>{e..<d}. service slots ((cursor + k) mod ?n))"
        using sum.atLeastLessThan_concat[of 0 e d "\<lambda>k. service slots ((cursor + k) mod ?n)"] e(2)
        by (simp add: lessThan_atLeast0)
      moreover have "(\<Sum>k<e. service slots ((cursor + k) mod ?n)) = (\<Sum>k<e. service slots (cursor + k))"
        by (rule sum.cong[OF refl]) (use e(1) in simp)
      moreover have "(\<Sum>k\<in>{e..<d}. service slots ((cursor + k) mod ?n)) = (\<Sum>k<d - e. service slots k)"
      proof -
        have "(\<Sum>k\<in>{e..<d}. service slots ((cursor + k) mod ?n))
            = (\<Sum>k\<in>{0..<d - e}. service slots ((cursor + (k + e)) mod ?n))"
          using sum.shift_bounds_nat_ivl[of "\<lambda>k. service slots ((cursor + k) mod ?n)" 0 e "d - e"] e(2) by simp
        also have "\<dots> = (\<Sum>k\<in>{0..<d - e}. service slots k)"
        proof (rule sum.cong[OF refl])
          fix k assume "k \<in> {0..<d - e}"
          then have k: "k < ?n" using d(1) by simp
          have "cursor + (k + e) = k + ?n" using e(1) by simp
          then show "service slots ((cursor + (k + e)) mod ?n) = service slots k" using k by (simp only: mod_add_self2) simp
        qed
        finally show ?thesis by (simp add: lessThan_atLeast0)
      qed
      ultimately show ?thesis by simp
    qed
    then have "(\<Sum>k<Suc d. service ?S ((cursor + k) mod length ?S)) \<le> b + 8" using new assms(4) d(3) by simp
    moreover have "(cursor + Suc d) mod length ?S = i" using wrap[of i] assms(2) i e(2) by simp
    ultimately show ?thesis unfolding waits_def using d(1) by (intro exI[of _ "Suc d"]) simp
  qed
qed

lemma register_progress:
  assumes "hub_wf slots" "has_head slots i x" "waits slots cursor i b" "cursor \<le> length slots"
    and w: "max w DEFAULT_PEER_QUEUE_WEIGHT \<le> MAX_PEER_QUEUE_WEIGHT"
  defines "slots' \<equiv> snd (slot_register w slots)"
  shows "hub_wf slots' \<and> has_head slots' i x \<and> waits slots' cursor i (b + 8) \<and> cursor \<le> length slots'"
proof -
  define t :: "'a FairPeerSlot" where
    "t = \<lparr>rx_items = [], rx_connected = True, slot_weight = max w DEFAULT_PEER_QUEUE_WEIGHT, slot_credits = 0\<rparr>"
  have t: "slot_weight t \<le> MAX_PEER_QUEUE_WEIGHT" "slot_credits t \<le> MAX_PEER_QUEUE_WEIGHT" "slot_credits t = 0"
    using w by (simp_all add: t_def word_zero_le)
  show ?thesis
  proof (cases "find (\<lambda>j. slots ! j = None) [0..<length slots]")
    case (Some j)
    then have j: "j < length slots" "slots ! j = None" by (auto simp: find_Some_iff)
    have S: "slots' = slots[j := Some t]" using Some by (simp add: slots'_def slot_register_def Let_def t_def)
    have "hub_wf slots'" unfolding S using t by (intro hub_wf_update assms(1)) auto
    moreover have "has_head slots' i x" using assms(2) j by (cases "i = j") (auto simp: has_head_def S)
    moreover have "waits slots' cursor i (b + 8)"
      unfolding S by (rule waits_vacant[OF assms(3) j(1)]) (simp add: service_def j(1) t(3))
    ultimately show ?thesis using assms(4) by (simp add: S)
  next
    case None
    have S: "slots' = slots @ [Some t]" using None by (simp add: slots'_def slot_register_def Let_def t_def)
    have "hub_wf slots'" using assms(1) t by (auto simp: hub_wf_def S)
    moreover have "has_head slots' i x" using assms(2) by (auto simp: has_head_def S nth_append)
    moreover have "waits slots' cursor i (b + 8)"
      unfolding S using assms(2-4) by (intro waits_new_slot) (simp_all add: service_def t(3) has_head_def)
    ultimately show ?thesis using assms(4) by (simp add: S)
  qed
qed

lemma hub_step_cursor:
  assumes "hub_step cap e slots cursor = (out, slots', cursor')" "cursor \<le> length slots"
  shows "cursor' \<le> length slots'"
proof (cases e)
  case Take
  obtain r slots1 c1 where r: "fair_wfq_take_one slots cursor = (r, slots1, c1)" by (metis surj_pair)
  then show ?thesis using take_cursor[OF r assms(2)] assms(1) Take by auto
next
  case (Register p h)
  then have "slots' = snd (slot_register (peer_queue_weight_for p h) slots)" "cursor' = cursor" using assms(1) by auto
  then show ?thesis using assms(2) by (auto simp: slot_register_def Let_def split: option.split)
qed (use assms in \<open>auto simp: slot_enqueue_def slot_set_weight_def Let_def split: if_splits option.splits\<close>)

lemma hub_step_progress:
  assumes "hub_wf slots" "has_head slots i x" "waits slots cursor i b" "cursor \<le> length slots"
    "hub_step cap e slots cursor = (out, slots', cursor')"
  shows "x \<in> set out \<or> (hub_wf slots' \<and> has_head slots' i x
    \<and> (\<exists>b'. waits slots' cursor' i b'
        \<and> b' + (if is_take e then 1 else 0) \<le> b + (if is_register e then 8 else 0)))"
proof (cases e)
  case Take
  obtain s xs where s: "i < length slots" "slots ! i = Some s" "rx_items s = x # xs" using assms(2) by (auto simp: has_head_def)
  obtain r slots1 c1 where r: "fair_wfq_take_one slots cursor = (r, slots1, c1)" by (metis surj_pair)
  then have o: "out = (case r of None \<Rightarrow> [] | Some x \<Rightarrow> [x])" "slots' = slots1" "cursor' = c1" using assms(5) Take by auto
  from take_progress[OF assms(1) s assms(3) r] show ?thesis
  proof (elim conjE disjE exE)
    fix y b' assume "length slots1 = length slots" "hub_wf slots1" "slots1 ! i = Some s" "waits slots1 c1 i b'" "b' < b"
    then show ?thesis using o s Take by (auto simp: has_head_def intro!: exI[of _ b'])
  qed (use o in simp)
next
  case (Arrive j y)
  then have same: "out = []" "cursor' = cursor" "slots' = fst (slot_enqueue cap j y slots 0)" using assms(5) by auto
  have "hub_wf slots' \<and> has_head slots' i x \<and> waits slots' cursor i b"
    by (rule update_progress[OF assms(1-3), where j = j]) (auto simp: same slot_enqueue_def split: option.split)
  then show ?thesis using same Arrive by auto
next
  case (Register p h)
  then have same: "out = []" "cursor' = cursor" "slots' = snd (slot_register (peer_queue_weight_for p h) slots)"
    using assms(5) by auto
  have "hub_wf slots' \<and> has_head slots' i x \<and> waits slots' cursor i (b + 8)"
    using register_progress[OF assms(1-4) health_weight_max] by (simp add: same)
  then show ?thesis using same Register by auto
next
  case (Reweigh j p h)
  then have same: "out = []" "cursor' = cursor" "slots' = slot_set_weight j (peer_queue_weight_for p h) slots"
    using assms(5) by auto
  have "hub_wf slots' \<and> has_head slots' i x \<and> waits slots' cursor i b"
    by (rule update_progress[OF assms(1-3), where j = j], cases "slots ! j")
      (use health_weight_max in \<open>auto simp: same slot_set_weight_def Let_def list_update_same_conv\<close>)
  then show ?thesis using same Reweigh by auto
next
  case (Hangup j)
  then have same: "out = []" "cursor' = cursor"
    "slots' = (if j < length slots then slots[j := map_option (\<lambda>s. s\<lparr>rx_connected := False\<rparr>) (slots ! j)] else slots)"
    using assms(5) by auto
  have "hub_wf slots' \<and> has_head slots' i x \<and> waits slots' cursor i b"
    by (rule update_progress[OF assms(1-3), where j = j], cases "slots ! j") (auto simp: same list_update_same_conv)
  then show ?thesis using same Hangup by auto
qed

lemma hub_run_serves:
  assumes "hub_wf slots" "has_head slots i x" "waits slots cursor i b" "cursor \<le> length slots"
    "b + 8 * length (filter is_register es) < length (filter is_take es)"
  shows "x \<in> set (hub_run cap es slots cursor)"
  using assms
proof (induction es arbitrary: slots cursor b)
  case (Cons e es)
  obtain out slots' cursor' where st: "hub_step cap e slots cursor = (out, slots', cursor')" by (metis surj_pair)
  from hub_step_progress[OF Cons.prems(1-4) st] show ?case
  proof (elim disjE conjE exE)
    fix b' assume "hub_wf slots'" "has_head slots' i x" "waits slots' cursor' i b'"
      "b' + (if is_take e then 1 else 0) \<le> b + (if is_register e then 8 else 0)"
    then have "x \<in> set (hub_run cap es slots' cursor')"
      using Cons.prems(5) hub_step_cursor[OF st Cons.prems(4)]
      by (intro Cons.IH[of slots' cursor' b']) (auto split: if_splits)
    then show ?thesis by (simp add: st)
  qed (simp add: st)
qed simp

text \<open>
  C26. No peer starves: whatever happens to the hub meanwhile - packets arrive, connections register (in a vacated
  slot or a new one), hang up, or get the weight of their peer's health - the packet at the head of a slot's
  queue is taken within eight takes for every other slot of the table and every connection that registers
  meanwhile, and one more.
\<close>

theorem wfq_no_starvation:
  assumes "hub_wf slots" "i < length slots" "slots ! i = Some s" "rx_items s = x # xs" "cursor \<le> length slots"
    and "8 * (length slots - 1 + length (filter is_register es)) < length (filter is_take es)"
  shows "x \<in> set (hub_run cap es slots cursor)"
proof -
  have "has_head slots i x" using assms(2-4) by (simp add: has_head_def)
  from hub_run_serves[OF assms(1) this waits_initially[OF assms(1,2)] assms(5)] show ?thesis
    using assms(6) by (simp add: distrib_left)
qed

text \<open>Two busy peers and a third that joins: the packet 7 of the light one is served although the heavy one always
  has more.\<close>

theorem wfq_no_starvation_witness:
  "7 \<in> set (hub_run 16 (Register None None # replicate 17 Take)
     [Some \<lparr>rx_items = [1, 1, 1, 1, 1, 1, 1, 1, 1, 1, 1, 1 :: nat], rx_connected = True, slot_weight = 8, slot_credits = 0\<rparr>,
      Some \<lparr>rx_items = [7, 5], rx_connected = True, slot_weight = 1, slot_credits = 0\<rparr>] 0)"
  by (rule wfq_no_starvation[of _ 1 _ 7 "[5]"]) (auto simp: hub_wf_def MAX_PEER_QUEUE_WEIGHT_def)

end
