(* ===== verification/Rate_Limit.thy ===== *)
theory Rate_Limit
  imports Float64
begin

text \<open>
  The ingress rate limit of the link bridge, \<^verbatim>\<open>crates/aegis-relay/src/net.rs\<close>: a token bucket per connection and one for the
  whole listener, in floating point. An instant is a number of nanoseconds of the monotonic clock, an argument of the operations
  that read it.
\<close>

section \<open>Configuration\<close>

definition MODE1_TAU_SECS :: f64 where "MODE1_TAU_SECS = f64_of_rat (35 / 100)"
definition DEFAULT_INGRESS_MAX_CELLS_PER_SEC :: f64 where "DEFAULT_INGRESS_MAX_CELLS_PER_SEC = f64_div (Fin 1) MODE1_TAU_SECS"
definition DEFAULT_INGRESS_BURST :: u32 where "DEFAULT_INGRESS_BURST = 4"
definition DEFAULT_EXPECTED_INGRESS_CLIENTS :: f64 where "DEFAULT_EXPECTED_INGRESS_CLIENTS = Fin 8"
definition DEFAULT_GLOBAL_MAX_CELLS_PER_SEC :: f64 where
  "DEFAULT_GLOBAL_MAX_CELLS_PER_SEC = f64_div DEFAULT_EXPECTED_INGRESS_CLIENTS MODE1_TAU_SECS"

record IngressRateLimitConfig =
  max_cells_per_sec :: f64
  ingress_burst :: u32
  global_max_cells_per_sec :: "f64 option"

definition ingress_rate_limit_default :: IngressRateLimitConfig where
  "ingress_rate_limit_default = \<lparr>max_cells_per_sec = DEFAULT_INGRESS_MAX_CELLS_PER_SEC, ingress_burst = DEFAULT_INGRESS_BURST,
     global_max_cells_per_sec = Some DEFAULT_GLOBAL_MAX_CELLS_PER_SEC\<rparr>"

definition ingress_rate_limit_disabled :: IngressRateLimitConfig where
  "ingress_rate_limit_disabled = \<lparr>max_cells_per_sec = Fin 0, ingress_burst = 0, global_max_cells_per_sec = None\<rparr>"

definition rate_limit_is_active :: "IngressRateLimitConfig \<Rightarrow> bool" where
  "rate_limit_is_active c \<longleftrightarrow> f64_lt (Fin 0) (max_cells_per_sec c)
     \<or> (case global_max_cells_per_sec c of None \<Rightarrow> False | Some r \<Rightarrow> f64_lt (Fin 0) r)"

section \<open>Token buckets\<close>

record TokenBucket =
  tb_rate :: f64
  tb_capacity :: f64
  tb_tokens :: f64
  tb_last_refill :: nat

definition bucket_new :: "f64 \<Rightarrow> u32 \<Rightarrow> nat \<Rightarrow> TokenBucket" where
  "bucket_new rate burst now =
     (let cap = f64_of_nat (unat (max burst 1)) in \<lparr>tb_rate = rate, tb_capacity = cap, tb_tokens = cap, tb_last_refill = now\<rparr>)"

definition bucket_is_enabled :: "TokenBucket \<Rightarrow> bool" where
  "bucket_is_enabled b \<longleftrightarrow> f64_lt (Fin 0) (tb_rate b)"

text \<open>\<open>Instant::duration_since\<close> saturates at zero, as subtraction of naturals does.\<close>

definition refill :: "nat \<Rightarrow> TokenBucket \<Rightarrow> TokenBucket" where
  "refill now b =
     (let elapsed = as_secs_f64 (now - tb_last_refill b) in
      if f64_lt (Fin 0) elapsed
      then b\<lparr>tb_tokens := f64_min (f64_add (tb_tokens b) (f64_mul elapsed (tb_rate b))) (tb_capacity b), tb_last_refill := now\<rparr>
      else b)"

definition try_consume :: "nat \<Rightarrow> u32 \<Rightarrow> TokenBucket \<Rightarrow> bool \<times> TokenBucket" where
  "try_consume now n b =
     (if \<not> bucket_is_enabled b then (True, b)
      else let b = refill now b; need = f64_of_nat (unat n) in
        if f64_le need (tb_tokens b) then (True, b\<lparr>tb_tokens := f64_sub (tb_tokens b) need\<rparr>) else (False, b))"

section \<open>Frames\<close>

record InboundRateLimitState =
  rl_local :: TokenBucket
  rl_config :: IngressRateLimitConfig

definition rate_limit_new :: "IngressRateLimitConfig \<Rightarrow> nat \<Rightarrow> InboundRateLimitState" where
  "rate_limit_new c now =
     \<lparr>rl_local = (if f64_lt (Fin 0) (max_cells_per_sec c) then bucket_new (max_cells_per_sec c) (ingress_burst c) now
                 else bucket_new (Fin 0) 0 now),
      rl_config = c\<rparr>"

text \<open>The bucket that \<open>spawn_inbound_listener\<close> shares among its connections.\<close>

definition global_rate_bucket :: "IngressRateLimitConfig \<Rightarrow> nat \<Rightarrow> TokenBucket option" where
  "global_rate_bucket c now =
     (case global_max_cells_per_sec c of None \<Rightarrow> None
      | Some r \<Rightarrow> if f64_lt (Fin 0) r then Some (bucket_new r (ingress_burst c) now) else None)"

text \<open>\<open>allow_frame\<close> reads the clock once per bucket; the last argument is the shared counter of dropped frames.\<close>

definition allow_frame ::
    "nat \<Rightarrow> nat \<Rightarrow> InboundRateLimitState \<Rightarrow> TokenBucket option \<Rightarrow> u64 \<Rightarrow> bool \<times> InboundRateLimitState \<times> TokenBucket option \<times> u64" where
  "allow_frame now now' s global dropped =
     (if \<not> rate_limit_is_active (rl_config s) then (True, s, global, dropped)
      else let (passed, s) =
             (if f64_lt (Fin 0) (max_cells_per_sec (rl_config s))
              then let (ok, b) = try_consume now 1 (rl_local s) in (ok, s\<lparr>rl_local := b\<rparr>) else (True, s)) in
        if \<not> passed then (False, s, global, dropped + 1)
        else case global of
            None \<Rightarrow> (True, s, None, dropped)
          | Some b \<Rightarrow> (let (ok, b) = try_consume now' 1 b in
              if ok then (True, s, Some b, dropped) else (False, s, Some b, dropped + 1)))"

section \<open>What a refill adds\<close>

lemma fl_upper:
  assumes "0 \<le> q"
  shows "fl q \<le> q * (1 + pow2 (- 53)) + pow2 (- 1022)"
proof (cases "pow2 (- 1022) \<le> q")
  case True
  have "fl q - q \<le> q * pow2 (- 53)" using fl_error[OF True] by (simp add: abs_le_iff)
  moreover have "q * (1 + pow2 (- 53)) = q + q * pow2 (- 53)" by (simp add: ring_distribs)
  ultimately show ?thesis using pow2_nonneg[of "- 1022"] by linarith
next
  case False
  have "representable (pow2 (- 1022))" unfolding representable_def by (intro exI[of _ 1] exI[of _ "- 1022"]) simp
  then have "fl q \<le> pow2 (- 1022)" using fl_mono[of q "pow2 (- 1022)"] fl_representable[of "pow2 (- 1022)"] False by simp
  moreover have "0 \<le> q * (1 + pow2 (- 53))" using assms by simp
  ultimately show ?thesis by linarith
qed

lemma f64_of_rat_cases:
  assumes "0 \<le> q"
  shows "(f64_of_rat q = Fin (fl q) \<and> 0 \<le> fl q) \<or> (f64_of_rat q = Inf False \<and> 2 ^ 1023 \<le> q)"
proof (cases "q \<le> 2 ^ 1023")
  case True
  have r: "representable (2 ^ 1023)"
    unfolding representable_def by (intro exI[of _ 1] exI[of _ 1023]) (simp add: pow2_def)
  have "(2::rat) ^ 1023 < 2 ^ 1024" by simp
  then show ?thesis using f64_of_rat_small[OF r] True assms fl_nonneg[OF assms] by simp
next
  case False
  then show ?thesis using fl_nonneg[OF assms] by (simp add: f64_of_rat_def Let_def)
qed

text \<open>A duration in floating point exceeds the exact number of seconds by two roundings at most.\<close>

lemma fl_upper_normal: "q = 0 \<or> pow2 (- 1022) \<le> q \<Longrightarrow> fl q \<le> q * (1 + pow2 (- 53))"
  using fl_error[of q] by (auto simp: abs_le_iff ring_distribs)

lemma pow2_small: "pow2 (- 1022) \<le> 1 / 10 ^ 9"
proof -
  have "pow2 (- 1022) \<le> pow2 (- 30)" by (rule pow2_mono) simp
  also have "pow2 (- 30) = 1 / 2 ^ 30" by (simp add: pow2_def)
  also have "(1 :: rat) / 2 ^ 30 \<le> 1 / 10 ^ 9" by simp
  finally show ?thesis .
qed

lemma as_secs_upper:
  assumes "d \<le> 2 ^ 53 * 10 ^ 9"
  shows "\<exists>s. as_secs_f64 d = Fin s \<and> 0 \<le> s \<and> s \<le> of_nat d / 10 ^ 9 * (1 + pow2 (- 53)) ^ 2"
proof -
  let ?u = "1 + pow2 (- 53)" and ?secs = "d div 10 ^ 9" and ?nanos = "d mod 10 ^ 9"
  let ?q = "fl (of_nat ?nanos / 10 ^ 9)"
  have secs: "?secs \<le> 2 ^ 53" using div_le_mono[OF assms, of "10 ^ 9"] by simp
  have nanos: "?nanos < 10 ^ 9" "?nanos \<le> 2 ^ 53" using mod_less_divisor[of "10 ^ 9" d] by simp_all
  have u1: "1 \<le> ?u" by simp
  have frac: "0 \<le> (of_nat ?nanos :: rat) / 10 ^ 9" "(of_nat ?nanos :: rat) / 10 ^ 9 \<le> 1" using nanos(1) by simp_all
  have div: "f64_div (f64_of_nat ?nanos) (Fin (10 ^ 9)) = Fin ?q" "0 \<le> ?q" "?q \<le> 1"
    using f64_of_rat_01[OF frac] unfolding f64_of_nat_exact[OF nanos(2)] f64_div.simps by simp_all
  have q: "?q \<le> of_nat ?nanos / 10 ^ 9 * ?u"
    by (rule fl_upper_normal) (cases "?nanos = 0"; use pow2_small in \<open>force simp: field_simps\<close>)
  have r: "representable (2 ^ 54)"
    unfolding representable_def by (intro exI[of _ 1] exI[of _ 54]) (simp add: pow2_def)
  have "(of_nat ?secs :: rat) \<le> of_nat (2 ^ 53)" using secs by (simp only: of_nat_le_iff)
  then have small: "\<bar>of_nat ?secs + ?q\<bar> \<le> 2 ^ 54" using div(2,3) by simp
  have add: "as_secs_f64 d = Fin (fl (of_nat ?secs + ?q))"
    using f64_of_rat_small[OF r small] unfolding as_secs_f64_def div(1) f64_of_nat_exact[OF secs] by simp
  have lower: "of_nat ?secs + ?q = 0 \<or> pow2 (- 1022) \<le> of_nat ?secs + ?q"
  proof (cases "?secs = 0")
    case True
    have "?q = 0 \<or> pow2 (- 1022) \<le> ?q"
    proof (cases "?nanos = 0")
      case False
      have "representable (pow2 (- 1022))" unfolding representable_def by (intro exI[of _ 1] exI[of _ "- 1022"]) simp
      moreover have "pow2 (- 1022) \<le> of_nat ?nanos / 10 ^ 9" using False pow2_small by (force simp: field_simps)
      ultimately show ?thesis using fl_mono[of "pow2 (- 1022)"] by (metis fl_representable)
    qed simp
    then show ?thesis using True by simp
  next
    case False
    then have "1 \<le> (of_nat ?secs :: rat)" by simp
    then show ?thesis using div(2) pow2_small by simp
  qed
  have "fl (of_nat ?secs + ?q) \<le> (of_nat ?secs + ?q) * ?u" by (rule fl_upper_normal[OF lower])
  also have "\<dots> \<le> (of_nat ?secs * ?u + of_nat ?nanos / 10 ^ 9 * ?u) * ?u"
    using q u1 mult_left_mono[OF u1, of "of_nat ?secs"] by (intro mult_right_mono add_mono) simp_all
  also have "\<dots> = (of_nat ?secs + of_nat ?nanos / 10 ^ 9) * ?u ^ 2" by (simp add: power2_eq_square ring_distribs)
  also have "(of_nat ?secs + of_nat ?nanos / 10 ^ 9 :: rat) = of_nat d / 10 ^ 9"
  proof -
    have "(of_nat d :: rat) = of_nat (10 ^ 9 * ?secs + ?nanos)" by simp
    then show ?thesis by (simp only: of_nat_add of_nat_mult) (simp add: field_simps)
  qed
  finally show ?thesis using add fl_nonneg[of "of_nat ?secs + ?q"] div(2) by auto
qed

section \<open>What a bucket lets through\<close>

definition bucket_ok :: "rat \<Rightarrow> rat \<Rightarrow> TokenBucket \<Rightarrow> bool" where
  "bucket_ok r c b \<longleftrightarrow> tb_rate b = Fin r \<and> tb_capacity b = Fin c \<and> fl c = c \<and> c \<le> 2 ^ 53 \<and> (\<exists>x. tb_tokens b = Fin x \<and> 0 \<le> x \<and> x \<le> c)"

definition tb_level :: "TokenBucket \<Rightarrow> rat" where
  "tb_level b = (case tb_tokens b of Fin x \<Rightarrow> x | _ \<Rightarrow> 0)"

lemma bucket_new_ok:
  assumes "f64_lt (Fin 0) rate"
  shows "\<exists>c. c = of_nat (unat (max burst 1)) \<and> tb_capacity (bucket_new rate burst now) = Fin c \<and> tb_tokens (bucket_new rate burst now) = Fin c"
proof -
  have "unat (max burst 1) \<le> 2 ^ 53" using unsigned_less[of "max burst 1", where ?'a = nat] by simp
  then show ?thesis by (simp add: bucket_new_def Let_def f64_of_nat_exact)
qed

definition RATE_SLACK :: rat where "RATE_SLACK = 1 + pow2 (- 51)"

lemma u_cubed: "(1 + pow2 (- 53)) ^ 3 \<le> RATE_SLACK"
  by (simp add: RATE_SLACK_def pow2_def power3_eq_cube)

lemma f64_refill:
  assumes sr: "0 \<le> s * r" and gain: "s * r * (1 + pow2 (- 53)) \<le> g" and x: "0 \<le> x" "x \<le> c" "c \<le> 2 ^ 53"
  shows "\<exists>y. f64_min (f64_add (Fin x) (f64_mul (Fin s) (Fin r))) (Fin c) = Fin y \<and> 0 \<le> y \<and> y \<le> c
    \<and> y \<le> x + g + c * pow2 (- 53) + 2 * pow2 (- 1022)"
proof -
  have pos: "0 \<le> c * pow2 (- 53)" "0 \<le> pow2 (- 1022)" using x by simp_all
  have "(2 :: rat) ^ 53 \<le> 2 ^ 1023" by (rule power_increasing) simp_all
  then have big: "c \<le> 2 ^ 1023" using x(3) by (rule order_trans[rotated])
  have c0: "0 \<le> c" using x by linarith
  have "s * r * 1 \<le> s * r * (1 + pow2 (- 53))" by (rule mult_left_mono[OF _ sr]) simp
  then have g: "s * r \<le> g" using gain by linarith
  let ?p = "fl (s * r)"
  have full: "\<exists>y. Fin c = Fin y \<and> 0 \<le> y \<and> y \<le> c \<and> y \<le> x + g + c * pow2 (- 53) + 2 * pow2 (- 1022)" if "c \<le> x + g + pow2 (- 1022)"
    using that pos c0 by (intro exI[of _ c] conjI) (simp, linarith+)
  consider (fin) "f64_mul (Fin s) (Fin r) = Fin ?p" "0 \<le> ?p" | (inf) "f64_mul (Fin s) (Fin r) = Inf False" "2 ^ 1023 \<le> s * r"
    unfolding f64_mul.simps using f64_of_rat_cases[OF sr] by blast
  then show ?thesis
  proof cases
    case inf
    have "c \<le> x + g + pow2 (- 1022)" using big inf(2) g x(1) pos(2) by linarith
    from full[OF this] show ?thesis unfolding inf(1) by (simp add: f64_min_def)
  next
    case fin
    have p: "?p \<le> g + pow2 (- 1022)" using fl_upper[OF sr] gain by linarith
    have xp: "0 \<le> x + ?p" using x fin by linarith
    consider (fin2) "f64_add (Fin x) (Fin ?p) = Fin (fl (x + ?p))" "0 \<le> fl (x + ?p)" | (inf2) "f64_add (Fin x) (Fin ?p) = Inf False" "2 ^ 1023 \<le> x + ?p"
      unfolding f64_add.simps using f64_of_rat_cases[OF xp] by blast
    then show ?thesis
    proof cases
      case inf2
      have "c \<le> x + g + pow2 (- 1022)" using big inf2(2) p by linarith
      from full[OF this] show ?thesis unfolding fin(1) inf2(1) by (simp add: f64_min_def)
    next
      case fin2
      have le: "min (fl (x + ?p)) c \<le> x + ?p + c * pow2 (- 53) + pow2 (- 1022)"
      proof (cases "x + ?p \<le> c")
        case True
        have "(x + ?p) * pow2 (- 53) \<le> c * pow2 (- 53)" using True by (intro mult_right_mono) simp_all
        moreover have "(x + ?p) * (1 + pow2 (- 53)) = x + ?p + (x + ?p) * pow2 (- 53)" by (simp add: ring_distribs)
        ultimately have "fl (x + ?p) \<le> x + ?p + c * pow2 (- 53) + pow2 (- 1022)" using fl_upper[OF xp] by linarith
        then show ?thesis by simp
      next
        case False
        then have "c \<le> x + ?p + c * pow2 (- 53) + pow2 (- 1022)" using pos by linarith
        then show ?thesis by simp
      qed
      have "f64_min (Fin (fl (x + ?p))) (Fin c) = Fin (min (fl (x + ?p)) c)" by (simp add: f64_min_def)
      moreover have "min (fl (x + ?p)) c \<le> x + g + c * pow2 (- 53) + 2 * pow2 (- 1022)" using le p by linarith
      moreover have "0 \<le> min (fl (x + ?p)) c" "min (fl (x + ?p)) c \<le> c" using fin2(2) c0 by simp_all
      ultimately show ?thesis unfolding fin(1) fin2(1) by blast
    qed
  qed
qed

lemma refill_bound:
  assumes b: "bucket_ok r c b" and r: "0 < r" and d: "now - tb_last_refill b \<le> 2 ^ 53 * 10 ^ 9"
  shows "bucket_ok r c (refill now b)
    \<and> tb_last_refill b \<le> tb_last_refill (refill now b) \<and> tb_last_refill (refill now b) \<le> max (tb_last_refill b) now
    \<and> tb_level (refill now b) \<le> tb_level b
        + of_nat (tb_last_refill (refill now b) - tb_last_refill b) / 10 ^ 9 * r * RATE_SLACK + c * pow2 (- 53) + 2 * pow2 (- 1022)"
proof -
  obtain x where x: "tb_rate b = Fin r" "tb_capacity b = Fin c" "tb_tokens b = Fin x" "0 \<le> x" "x \<le> c" "c \<le> 2 ^ 53" "fl c = c"
    using b by (auto simp: bucket_ok_def)
  let ?d = "now - tb_last_refill b" and ?u = "1 + pow2 (- 53)"
  obtain s where s: "as_secs_f64 ?d = Fin s" "0 \<le> s" "s \<le> of_nat ?d / 10 ^ 9 * ?u ^ 2" using as_secs_upper[OF d] by blast
  have pos: "0 \<le> c * pow2 (- 53)" "0 \<le> pow2 (- 1022)" using x by simp_all
  show ?thesis
  proof (cases "0 < s")
    case False
    then show ?thesis using x pos s by (simp add: refill_def bucket_ok_def tb_level_def)
  next
    case True
    let ?g = "of_nat ?d / 10 ^ 9 * r * RATE_SLACK"
    have later: "tb_last_refill b < now" using True s(3) by (cases "?d = 0") simp_all
    have sr: "0 \<le> s * r" using s r by simp
    have gain: "s * r * ?u \<le> ?g"
    proof -
      have "s * r * ?u \<le> of_nat ?d / 10 ^ 9 * ?u ^ 2 * r * ?u" using s(3) r by (intro mult_right_mono) simp_all
      also have "\<dots> = of_nat ?d / 10 ^ 9 * r * ?u ^ 3" by (simp add: power2_eq_square power3_eq_cube)
      also have "\<dots> \<le> ?g" using r by (intro mult_left_mono[OF u_cubed]) simp
      finally show ?thesis .
    qed
    have new: "tb_tokens (refill now b) = f64_min (f64_add (Fin x) (f64_mul (Fin s) (Fin r))) (Fin c)"
      "tb_last_refill (refill now b) = now" "tb_rate (refill now b) = Fin r" "tb_capacity (refill now b) = Fin c"
      using x s True by (simp_all add: refill_def)
    have "\<exists>y. tb_tokens (refill now b) = Fin y \<and> 0 \<le> y \<and> y \<le> c \<and> y \<le> x + ?g + c * pow2 (- 53) + 2 * pow2 (- 1022)"
      unfolding new(1) by (rule f64_refill[OF sr gain x(4-6)])
    then show ?thesis using x new later by (auto simp: bucket_ok_def tb_level_def)
  qed
qed

lemma slack_error: "0 \<le> c \<Longrightarrow> 2 * (c * pow2 (- 53)) + 3 * pow2 (- 1022) \<le> (c + 1) * pow2 (- 52)"
proof -
  have "pow2 (- 1022) \<le> pow2 (- 54)" by (rule pow2_mono) simp
  moreover have "pow2 (- 53) = 2 * pow2 (- 54)" "pow2 (- 52) = 2 * pow2 (- 53)" using pow2_Suc[of "- 54"] pow2_Suc[of "- 53"] by simp_all
  ultimately have "3 * pow2 (- 1022) \<le> pow2 (- 52)" using pow2_nonneg[of "- 54"] by linarith
  then show ?thesis using \<open>pow2 (- 52) = 2 * pow2 (- 53)\<close> by (simp add: ring_distribs)
qed

lemma consume_bound:
  assumes b: "bucket_ok r c b" and r: "0 < r" and d: "now - tb_last_refill b \<le> 2 ^ 53 * 10 ^ 9"
    and run: "try_consume now 1 b = (ok, b')"
  shows "bucket_ok r c b'
    \<and> tb_last_refill b \<le> tb_last_refill b' \<and> tb_last_refill b' \<le> max (tb_last_refill b) now
    \<and> of_bool ok + tb_level b' \<le> tb_level b
        + of_nat (tb_last_refill b' - tb_last_refill b) / 10 ^ 9 * r * RATE_SLACK + (c + 1) * pow2 (- 52)"
proof -
  let ?b = "refill now b"
  let ?g = "of_nat (tb_last_refill ?b - tb_last_refill b) / 10 ^ 9 * r * RATE_SLACK"
  have en: "bucket_is_enabled b" using b r by (auto simp: bucket_is_enabled_def bucket_ok_def)
  have one: "f64_of_nat (Suc 0) = Fin 1" using f64_of_nat_exact[of 1] by simp
  note rb = refill_bound[OF b r d]
  obtain y where y: "tb_rate ?b = Fin r" "tb_capacity ?b = Fin c" "tb_tokens ?b = Fin y" "0 \<le> y" "y \<le> c" "c \<le> 2 ^ 53" "fl c = c"
    using rb by (auto simp: bucket_ok_def)
  have c: "0 \<le> c * pow2 (- 53)" "0 \<le> c" using y by simp_all
  have level: "tb_level ?b = y" using y by (simp add: tb_level_def)
  show ?thesis
  proof (cases "1 \<le> y")
    case False
    then have "ok = False" "b' = ?b" using run en y by (simp_all add: try_consume_def one Let_def)
    moreover have "tb_level ?b \<le> tb_level b + ?g + (c + 1) * pow2 (- 52)"
      using rb slack_error[OF c(2)] c pow2_nonneg[of "- 1022"] by linarith
    ultimately show ?thesis using rb by simp
  next
    case True
    have "representable (2 ^ 53)" by (metis of_nat_numeral of_nat_power order_refl representable_nat)
    then have sub: "f64_sub (Fin y) (Fin 1) = Fin (fl (y - 1))"
      using f64_of_rat_small[of "2 ^ 53" "y - 1"] True y by (simp add: f64_sub_def)
    have ok: "ok" "b' = ?b\<lparr>tb_tokens := Fin (fl (y - 1))\<rparr>"
      using run en y True by (simp_all add: try_consume_def one Let_def sub)
    have y1: "0 \<le> y - 1" using True by simp
    have "(y - 1) * pow2 (- 53) \<le> c * pow2 (- 53)" using y by (intro mult_right_mono) simp_all
    then have up: "fl (y - 1) \<le> y - 1 + c * pow2 (- 53) + pow2 (- 1022)"
      using fl_upper[OF y1] by (simp add: ring_distribs)
    have "fl (y - 1) \<le> fl c" by (rule fl_mono) (use y(5) in simp)
    then have "bucket_ok r c b'" using ok y fl_nonneg[OF y1] by (simp add: bucket_ok_def)
    moreover have "tb_level b' = fl (y - 1)" "tb_last_refill b' = tb_last_refill ?b" using ok by (simp_all add: tb_level_def)
    moreover have "1 + fl (y - 1) \<le> tb_level b + ?g + (c + 1) * pow2 (- 52)"
      using rb slack_error[OF c(2)] up level by linarith
    ultimately show ?thesis using rb ok(1) by simp
  qed
qed

text \<open>The frames that one bucket passes, given the instants at which it is asked.\<close>

fun consume_run :: "nat list \<Rightarrow> TokenBucket \<Rightarrow> nat \<times> TokenBucket" where
  "consume_run [] b = (0, b)"
| "consume_run (t # ts) b =
     (let (ok, b) = try_consume t 1 b; (n, b) = consume_run ts b in (of_bool ok + n, b))"

lemma consume_run_bound:
  assumes "bucket_ok r c b" "0 < r" "\<forall>t \<in> set ts. t \<le> T" "T \<le> 2 ^ 53 * 10 ^ 9" "consume_run ts b = (n, b')"
  shows "tb_last_refill b \<le> tb_last_refill b' \<and> tb_last_refill b' \<le> max (tb_last_refill b) T \<and> 0 \<le> tb_level b'
    \<and> of_nat n + tb_level b' \<le> tb_level b + of_nat (tb_last_refill b' - tb_last_refill b) / 10 ^ 9 * r * RATE_SLACK
        + of_nat (length ts) * ((c + 1) * pow2 (- 52))"
  using assms(1,3,5)
proof (induction ts arbitrary: b n)
  case Nil
  then show ?case by (auto simp: bucket_ok_def tb_level_def)
next
  case (Cons t ts)
  obtain ok b1 where b1: "try_consume t 1 b = (ok, b1)" by fastforce
  obtain m where m: "consume_run ts b1 = (m, b')" "n = of_bool ok + m" using Cons.prems(3) b1 by (auto simp: Let_def split: prod.splits)
  have "t - tb_last_refill b \<le> 2 ^ 53 * 10 ^ 9" using Cons.prems(2) assms(4) by (meson diff_le_self le_trans list.set_intros(1))
  note step = consume_bound[OF Cons.prems(1) assms(2) this b1]
  have t: "\<forall>t \<in> set ts. t \<le> T" "t \<le> T" using Cons.prems(2) by simp_all
  note ih = Cons.IH[OF conjunct1[OF step] t(1) m(1)]
  have "(of_nat (tb_last_refill b' - tb_last_refill b) :: rat)
      = of_nat (tb_last_refill b' - tb_last_refill b1) + of_nat (tb_last_refill b1 - tb_last_refill b)"
    using step ih by (simp flip: of_nat_add)
  then have split: "of_nat (tb_last_refill b' - tb_last_refill b) / 10 ^ 9 * r * RATE_SLACK
      = of_nat (tb_last_refill b' - tb_last_refill b1) / 10 ^ 9 * r * RATE_SLACK
        + of_nat (tb_last_refill b1 - tb_last_refill b) / 10 ^ 9 * r * RATE_SLACK"
    by (simp add: add_divide_distrib ring_distribs)
  have len: "of_nat (length (t # ts)) * ((c + 1) * pow2 (- 52)) = of_nat (length ts) * ((c + 1) * pow2 (- 52)) + (c + 1) * pow2 (- 52)"
    by (simp add: ring_distribs)
  have "of_nat n + tb_level b' \<le> tb_level b + of_nat (tb_last_refill b' - tb_last_refill b) / 10 ^ 9 * r * RATE_SLACK
      + of_nat (length (t # ts)) * ((c + 1) * pow2 (- 52))"
    unfolding len split m(2) of_nat_add of_nat_of_bool using step ih by linarith
  then show ?case using step ih t(2) by auto
qed

lemma consume_run_new:
  assumes "consume_run ts (bucket_new (Fin r) burst t0) = (n, b')" "0 < r" "\<forall>t \<in> set ts. t \<le> T" "T \<le> 2 ^ 53 * 10 ^ 9"
  shows "of_nat n \<le> of_nat (unat (max burst 1)) + of_nat (T - t0) / 10 ^ 9 * r * RATE_SLACK
      + of_nat (length ts) * ((of_nat (unat (max burst 1)) + 1) * pow2 (- 52))"
proof -
  let ?c = "of_nat (unat (max burst 1)) :: rat" and ?b = "bucket_new (Fin r) burst t0"
  have c53: "unat (max burst 1) \<le> 2 ^ 53" using unsigned_less[of "max burst 1", where ?'a = nat] by simp
  have "?c \<le> of_nat (2 ^ 53)" using c53 by (simp only: of_nat_le_iff)
  then have ok: "bucket_ok r ?c ?b" "tb_level ?b = ?c" "tb_last_refill ?b = t0"
    using fl_representable[OF representable_nat[OF c53]] by (simp_all add: bucket_new_def Let_def bucket_ok_def tb_level_def f64_of_nat_exact[OF c53] del: of_nat_unat)
  note run = consume_run_bound[OF ok(1) assms(2-4,1), unfolded ok(2,3)]
  have "tb_last_refill b' - t0 \<le> T - t0" using run by linarith
  then have "(of_nat (tb_last_refill b' - t0) :: rat) \<le> of_nat (T - t0)" by (simp only: of_nat_le_iff)
  then have "of_nat (tb_last_refill b' - t0) / 10 ^ 9 * r * RATE_SLACK \<le> of_nat (T - t0) / 10 ^ 9 * r * RATE_SLACK"
    using assms(2) by (intro mult_right_mono divide_right_mono) (simp_all add: RATE_SLACK_def)
  then show ?thesis using run by linarith
qed

section \<open>The listener\<close>

text \<open>
  The frames of all connections in the order in which they are admitted: the connection, and the two readings of the clock. The
  result is whether each frame passed, and the counter of dropped frames.
\<close>

fun ingress_run ::
    "(nat \<times> nat \<times> nat) list \<Rightarrow> InboundRateLimitState list \<Rightarrow> TokenBucket option \<Rightarrow> u64 \<Rightarrow> bool list \<times> u64" where
  "ingress_run [] states global dropped = ([], dropped)"
| "ingress_run ((i, t, t') # es) states global dropped =
     (let (ok, s, global, dropped) = allow_frame t t' (states ! i) global dropped;
          (out, dropped) = ingress_run es (states[i := s]) global dropped
      in (ok # out, dropped))"

definition passed_of :: "nat \<Rightarrow> (nat \<times> nat \<times> nat) list \<Rightarrow> bool list \<Rightarrow> nat" where
  "passed_of i es out = length (filter (\<lambda>((j, _), ok). j = i \<and> ok) (zip es out))"

definition times_of :: "nat \<Rightarrow> (nat \<times> nat \<times> nat) list \<Rightarrow> nat list" where
  "times_of i es = map (fst \<circ> snd) (filter (\<lambda>(j, _). j = i) es)"

lemma allow_frame_step:
  assumes "f64_lt (Fin 0) (max_cells_per_sec (rl_config s))" "allow_frame t t' s global dropped = (ok, s', global', dropped')"
  shows "rl_config s' = rl_config s \<and> rl_local s' = snd (try_consume t 1 (rl_local s)) \<and> (ok \<longrightarrow> fst (try_consume t 1 (rl_local s)))
    \<and> (global' = global \<and> (ok \<longrightarrow> global = None) \<or> (\<exists>b. global = Some b \<and> global' = Some (snd (try_consume t' 1 b)) \<and> ok = fst (try_consume t' 1 b)))
    \<and> dropped' = dropped + of_bool (\<not> ok)"
  using assms by (auto simp: allow_frame_def rate_limit_is_active_def Let_def split: prod.splits if_splits option.splits)

lemma ingress_run_length: "length (fst (ingress_run es states global dropped)) = length es"
  by (induction es states global dropped rule: ingress_run.induct) (auto simp: Let_def split: prod.splits)

lemma ingress_run_dropped:
  assumes "\<forall>s \<in> set states. f64_lt (Fin 0) (max_cells_per_sec (rl_config s))" "\<forall>(i, _) \<in> set es. i < length states"
    and "ingress_run es states global dropped = (out, dropped')"
  shows "dropped' = dropped + of_nat (length (filter Not out))"
  using assms
proof (induction es arbitrary: states global dropped out)
  case (Cons e es)
  obtain i t t' where e: "e = (i, t, t')" by (cases e)
  obtain ok s g d where a: "allow_frame t t' (states ! i) global dropped = (ok, s, g, d)" by (metis prod_cases4)
  obtain out' where r: "ingress_run es (states[i := s]) g d = (out', dropped')" "out = ok # out'"
    using Cons.prems(3) e a by (auto simp: Let_def split: prod.splits)
  have i: "i < length states" using Cons.prems(2) e by auto
  note step = allow_frame_step[OF Cons.prems(1)[rule_format, OF nth_mem[OF i]] a]
  have "\<forall>s \<in> set (states[i := s]). f64_lt (Fin 0) (max_cells_per_sec (rl_config s))"
    using Cons.prems(1) step nth_mem[OF i] by (auto dest!: set_update_subset_insert[THEN subsetD])
  from Cons.IH[OF this _ r(1)] Cons.prems(2) step show ?case unfolding r(2) by (simp add: ac_simps)
qed simp

lemma passed_of_Cons: "passed_of i ((j, t, t') # es) (ok # out) = of_bool (j = i \<and> ok) + passed_of i es out"
  by (simp add: passed_of_def)

lemma times_of_Cons: "times_of i ((j, t, t') # es) = (if j = i then t # times_of i es else times_of i es)"
  by (simp add: times_of_def)

text \<open>A connection passes at most what its own bucket passes, and all of them together at most what the shared one does.\<close>

lemma passed_of_le:
  assumes "f64_lt (Fin 0) (max_cells_per_sec (rl_config (states ! i)))" "i < length states"
    and "ingress_run es states global dropped = (out, dropped')"
  shows "passed_of i es out \<le> fst (consume_run (times_of i es) (rl_local (states ! i)))"
  using assms
proof (induction es arbitrary: states global dropped out)
  case Nil
  then show ?case by (simp add: passed_of_def)
next
  case (Cons e es)
  obtain j t t' where e: "e = (j, t, t')" by (cases e)
  obtain ok s g d where a: "allow_frame t t' (states ! j) global dropped = (ok, s, g, d)" by (metis prod_cases4)
  obtain out' where r: "ingress_run es (states[j := s]) g d = (out', dropped')" "out = ok # out'"
    using Cons.prems(3) e a by (auto simp: Let_def split: prod.splits)
  show ?case
  proof (cases "j = i")
    case False
    then show ?thesis using Cons.IH[OF _ _ r(1)] Cons.prems by (simp add: e r(2) passed_of_Cons times_of_Cons)
  next
    case True
    note step = allow_frame_step[OF Cons.prems(1) a[unfolded True]]
    obtain b b1 where b: "try_consume t 1 (rl_local (states ! i)) = (b, b1)" by fastforce
    have "passed_of i es out' \<le> fst (consume_run (times_of i es) b1)"
      using Cons.IH[OF _ _ r(1)] Cons.prems step b by (simp add: True)
    then show ?thesis using step b by (auto simp: e r(2) True passed_of_Cons times_of_Cons Let_def split: prod.splits)
  qed
qed

lemma passed_all_le:
  assumes "\<forall>s \<in> set states. f64_lt (Fin 0) (max_cells_per_sec (rl_config s))" "\<forall>(i, _) \<in> set es. i < length states"
    and "ingress_run es states (Some b) dropped = (out, dropped')"
  shows "\<exists>ts. set ts \<subseteq> (snd \<circ> snd) ` set es \<and> length ts \<le> length es \<and> length (filter (\<lambda>ok. ok) out) \<le> fst (consume_run ts b)"
  using assms
proof (induction es arbitrary: states b dropped out)
  case Nil
  then show ?case by simp
next
  case (Cons e es)
  obtain i t t' where e: "e = (i, t, t')" by (cases e)
  obtain ok s g d where a: "allow_frame t t' (states ! i) (Some b) dropped = (ok, s, g, d)" by (metis prod_cases4)
  obtain out' where r: "ingress_run es (states[i := s]) g d = (out', dropped')" "out = ok # out'"
    using Cons.prems(3) e a by (auto simp: Let_def split: prod.splits)
  have i: "i < length states" using Cons.prems(2) e by auto
  note step = allow_frame_step[OF Cons.prems(1)[rule_format, OF nth_mem[OF i]] a]
  have st: "\<forall>s \<in> set (states[i := s]). f64_lt (Fin 0) (max_cells_per_sec (rl_config s))"
    using Cons.prems(1) step nth_mem[OF i] by (auto dest!: set_update_subset_insert[THEN subsetD])
  have len: "\<forall>(k, _) \<in> set es. k < length (states[i := s])" using Cons.prems(2) by auto
  have "g = Some b \<and> \<not> ok \<or> (\<exists>b1. g = Some b1 \<and> try_consume t' 1 b = (ok, b1))"
    using step by (cases "try_consume t' 1 b") auto
  then consider "g = Some b" "\<not> ok" | b1 where "g = Some b1" "try_consume t' 1 b = (ok, b1)" by blast
  then show ?case
  proof cases
    case 1
    obtain ts where "set ts \<subseteq> (snd \<circ> snd) ` set es" "length ts \<le> length es" "length (filter (\<lambda>ok. ok) out') \<le> fst (consume_run ts b)"
      using Cons.IH[OF st len r(1)[unfolded 1(1)]] by blast
    then show ?thesis using 1 r(2) e by (intro exI[of _ ts]) auto
  next
    case 2
    obtain ts where "set ts \<subseteq> (snd \<circ> snd) ` set es" "length ts \<le> length es" "length (filter (\<lambda>ok. ok) out') \<le> fst (consume_run ts b1)"
      using Cons.IH[OF st len r(1)[unfolded 2(1)]] by blast
    then show ?thesis using 2 r(2) e by (intro exI[of _ "t' # ts"]) (auto simp: Let_def split: prod.splits)
  qed
qed

text \<open>
  C29. The ingress limit holds against any traffic: however frames of any number of connections are interleaved, each connection passes at most
  its burst plus rate times elapsed time, all together at most the burst plus the global rate times elapsed time (up to the
  relative rounding error \<open>RATE_SLACK\<close> and \<open>2^-52\<close> of a frame per frame), and the counter counts exactly the frames dropped.
\<close>

theorem ingress_rate_bounded:
  assumes "max_cells_per_sec c = Fin r" "0 < r" "global_max_cells_per_sec c = Some (Fin R)" "0 < R"
    and "\<forall>(i, t, t') \<in> set es. i < length starts \<and> t \<le> T \<and> t' \<le> T" "T \<le> 2 ^ 53 * 10 ^ 9"
    and "ingress_run es (map (rate_limit_new c) starts) (global_rate_bucket c t0) 0 = (out, dropped)"
  defines "burst \<equiv> of_nat (unat (max (ingress_burst c) 1))"
  shows "(\<forall>i < length starts. of_nat (passed_of i es out) \<le> burst + of_nat (T - starts ! i) / 10 ^ 9 * r * RATE_SLACK
        + of_nat (length (times_of i es)) * ((burst + 1) * pow2 (- 52)))
    \<and> of_nat (length (filter (\<lambda>ok. ok) out)) \<le> burst + of_nat (T - t0) / 10 ^ 9 * R * RATE_SLACK + of_nat (length es) * ((burst + 1) * pow2 (- 52))
    \<and> length out = length es \<and> dropped = of_nat (length (filter Not out))"
proof -
  have pos: "\<forall>s \<in> set (map (rate_limit_new c) starts). f64_lt (Fin 0) (max_cells_per_sec (rl_config s))"
    using assms(1,2) by (simp add: rate_limit_new_def)
  have len: "\<forall>(i, _) \<in> set es. i < length (map (rate_limit_new c) starts)" using assms(5) by auto
  have glob: "global_rate_bucket c t0 = Some (bucket_new (Fin R) (ingress_burst c) t0)" using assms(3,4) by (simp add: global_rate_bucket_def)
  have burst: "0 \<le> burst" by (simp add: burst_def del: of_nat_unat)
  have each: "of_nat (passed_of i es out) \<le> burst + of_nat (T - starts ! i) / 10 ^ 9 * r * RATE_SLACK
      + of_nat (length (times_of i es)) * ((burst + 1) * pow2 (- 52))" if i: "i < length starts" for i
  proof -
    let ?b = "bucket_new (Fin r) (ingress_burst c) (starts ! i)"
    obtain n b' where n: "consume_run (times_of i es) ?b = (n, b')" by fastforce
    have "\<forall>t \<in> set (times_of i es). t \<le> T" using assms(5) by (auto simp: times_of_def)
    note bound = consume_run_new[OF n assms(2) this assms(6)]
    have "passed_of i es out \<le> n"
      using passed_of_le[OF _ _ assms(7), of i] i n assms(1,2) by (simp add: rate_limit_new_def)
    then have "(of_nat (passed_of i es out) :: rat) \<le> of_nat n" by (simp only: of_nat_le_iff)
    then show ?thesis using bound unfolding burst_def by linarith
  qed
  obtain ts where ts: "set ts \<subseteq> (snd \<circ> snd) ` set es" "length ts \<le> length es"
      "length (filter (\<lambda>ok. ok) out) \<le> fst (consume_run ts (bucket_new (Fin R) (ingress_burst c) t0))"
    using passed_all_le[OF pos len assms(7)[unfolded glob]] by blast
  obtain n b' where n: "consume_run ts (bucket_new (Fin R) (ingress_burst c) t0) = (n, b')" by fastforce
  have "\<forall>t \<in> set ts. t \<le> T" using ts(1) assms(5) by fastforce
  note bound = consume_run_new[OF n assms(4) this assms(6)]
  have "(of_nat (length (filter (\<lambda>ok. ok) out)) :: rat) \<le> of_nat n" using ts(3) n by simp
  moreover have "of_nat (length ts) * ((burst + 1) * pow2 (- 52)) \<le> of_nat (length es) * ((burst + 1) * pow2 (- 52))"
    using ts(2) burst by (intro mult_right_mono) simp_all
  ultimately have all: "of_nat (length (filter (\<lambda>ok. ok) out)) \<le> burst + of_nat (T - t0) / 10 ^ 9 * R * RATE_SLACK + of_nat (length es) * ((burst + 1) * pow2 (- 52))"
    using bound unfolding burst_def by linarith
  show ?thesis
    using each all ingress_run_length[of es _ _ 0] ingress_run_dropped[OF pos len assms(7)] assms(7) by (metis add.left_neutral fst_conv)
qed

theorem ingress_rate_bounded_witness:
  "\<exists>out dropped. ingress_run [(0, 5, 5), (1, 7, 8), (0, 9, 9)]
      (map (rate_limit_new \<lparr>max_cells_per_sec = Fin 3, ingress_burst = 1, global_max_cells_per_sec = Some (Fin 24)\<rparr>) [2, 3])
      (global_rate_bucket \<lparr>max_cells_per_sec = Fin 3, ingress_burst = 1, global_max_cells_per_sec = Some (Fin 24)\<rparr> 1) 0 = (out, dropped)
    \<and> (\<forall>i < length [2, 3 :: nat]. of_nat (passed_of i [(0, 5, 5), (1, 7, 8), (0, 9, 9)] out)
        \<le> of_nat (unat (max 1 1 :: u32)) + of_nat (10 - [2, 3] ! i) / 10 ^ 9 * 3 * RATE_SLACK
          + of_nat (length (times_of i [(0, 5, 5), (1, 7, 8), (0, 9, 9)])) * ((of_nat (unat (max 1 1 :: u32)) + 1) * pow2 (- 52)))
    \<and> of_nat (length (filter (\<lambda>ok. ok) out)) \<le> of_nat (unat (max 1 1 :: u32)) + of_nat (10 - 1) / 10 ^ 9 * 24 * RATE_SLACK
        + of_nat (length [(0 :: nat, 5 :: nat, 5 :: nat), (1, 7, 8), (0, 9, 9)]) * ((of_nat (unat (max 1 1 :: u32)) + 1) * pow2 (- 52))
    \<and> length out = length [(0 :: nat, 5 :: nat, 5 :: nat), (1, 7, 8), (0, 9, 9)] \<and> dropped = of_nat (length (filter Not out))"
proof -
  let ?c = "\<lparr>max_cells_per_sec = Fin 3, ingress_burst = 1, global_max_cells_per_sec = Some (Fin 24)\<rparr>"
  let ?es = "[(0, 5, 5), (1, 7, 8), (0, 9, 9)] :: (nat \<times> nat \<times> nat) list"
  obtain out dropped where run: "ingress_run ?es (map (rate_limit_new ?c) [2, 3]) (global_rate_bucket ?c 1) 0 = (out, dropped)" by fastforce
  show ?thesis
    using run ingress_rate_bounded[of ?c 3 24 ?es "[2, 3]" 10 1 out dropped] by auto
qed

section \<open>The default limit\<close>

lemma default_rate: "\<exists>r. DEFAULT_INGRESS_MAX_CELLS_PER_SEC = Fin r \<and> 0 < r \<and> r \<le> 3"
proof -
  have rep: "representable (11 / 32)"
    unfolding representable_def by (intro exI[of _ 11] exI[of _ "- 5"]) (simp add: pow2_def power_int_def)
  have a: "f64_of_rat (35 / 100) = Fin (fl (35 / 100))" "11 / 32 \<le> fl (35 / 100)" "fl (35 / 100) \<le> 1"
    using f64_of_rat_01[of "35 / 100"] fl_mono[of "11 / 32" "35 / 100"] fl_representable[OF rep] by simp_all
  let ?t = "fl (35 / 100)"
  have pos: "0 < ?t" using a(2) by linarith
  have q: "1 \<le> 1 / ?t" "1 / ?t \<le> 3" using a pos by (simp_all add: field_simps)
  have three: "representable 3" using representable_nat[of 3] by simp
  have "f64_of_rat (1 / ?t) = Fin (fl (1 / ?t))" by (rule f64_of_rat_small[OF three]) (use q in simp_all)
  moreover have "1 \<le> fl (1 / ?t)" by (rule fl_pos_of_ge1[OF q(1)])
  moreover have "fl (1 / ?t) \<le> 3" using fl_mono[OF q(2)] fl_representable[OF three] by simp
  moreover have "f64_div (Fin 1) (Fin ?t) = f64_of_rat (1 / ?t)" using pos by simp
  ultimately show ?thesis
    unfolding DEFAULT_INGRESS_MAX_CELLS_PER_SEC_def MODE1_TAU_SECS_def a(1) by (intro exI[of _ "fl (1 / ?t)"]) simp
qed

text \<open>Of eighteen frames that arrive within four seconds of the connection, the default limit drops at least two.\<close>

lemma default_limit_sheds_packet:
  assumes "\<forall>t \<in> set ts. t \<le> t0 + 4 * 10 ^ 9" "t0 + 4 * 10 ^ 9 \<le> 2 ^ 53 * 10 ^ 9" "length ts = 18"
  shows "fst (consume_run ts (rl_local (rate_limit_new ingress_rate_limit_default t0))) \<le> 16"
proof -
  obtain r where r: "DEFAULT_INGRESS_MAX_CELLS_PER_SEC = Fin r" "0 < r" "r \<le> 3" using default_rate by blast
  have b: "rl_local (rate_limit_new ingress_rate_limit_default t0) = bucket_new (Fin r) 4 t0"
    unfolding rate_limit_new_def ingress_rate_limit_default_def DEFAULT_INGRESS_BURST_def IngressRateLimitConfig.simps r(1)
    using r(2) by simp
  obtain n b' where n: "consume_run ts (bucket_new (Fin r) 4 t0) = (n, b')" by fastforce
  have m: "unat (max 4 1 :: u32) = 4" by (simp add: max_def word_le_nat_alt)
  have "4 * r * RATE_SLACK \<le> 4 * 3 * RATE_SLACK"
    using r by (intro mult_right_mono mult_mono) (simp_all add: RATE_SLACK_def)
  moreover have "of_nat n \<le> 4 + 4 * r * RATE_SLACK + 90 * pow2 (- 52)"
    using consume_run_new[OF n r(2) assms(1,2)] by (simp add: m assms(3) del: of_nat_unat)
  ultimately have "of_nat n \<le> 4 + 12 * RATE_SLACK + 90 * pow2 (- 52)" by linarith
  moreover have "4 + 12 * RATE_SLACK + 90 * pow2 (- 52) < of_nat 17" by (simp add: RATE_SLACK_def pow2_def)
  ultimately have "(of_nat n :: rat) < of_nat 17" by linarith
  then have "n < 17" by (simp only: of_nat_less_iff)
  then show ?thesis using n b by simp
qed

end
