(* ===== verification/Link_Crypto.thy ===== *)
theory Link_Crypto
  imports Kem Cell
begin

text \<open>
  \<^verbatim>\<open>crates/aegis-crypto/src/link.rs\<close> and \<^verbatim>\<open>noise_link.rs\<close>: the authenticated key exchange of a hop link and
  the AEAD frames that carry its cells. X25519, SHA3-256 and the generator are the primitives \<open>L\<close> of Kem;
  ChaCha20-Poly1305 is \<open>A\<close> and the \<open>snow\<close> crate is \<open>N\<close>.
\<close>

section \<open>The AEAD\<close>

record aead_lib =
  aead_encrypt :: "bytes \<Rightarrow> bytes \<Rightarrow> bytes \<Rightarrow> bytes \<Rightarrow> bytes option"
  aead_decrypt :: "bytes \<Rightarrow> bytes \<Rightarrow> bytes \<Rightarrow> bytes \<Rightarrow> bytes option"

text \<open>The documented behaviour of an AEAD cipher: short messages are accepted, opened again, and grow by the tag.\<close>

definition aead_laws :: "aead_lib \<Rightarrow> bool" where
  "aead_laws A \<longleftrightarrow> (\<forall>key nonce aad msg. length msg = CELL_LEN \<longrightarrow>
     (\<exists>ct. aead_encrypt A key nonce aad msg = Some ct \<and> length ct = length msg + 16 \<and> aead_decrypt A key nonce aad ct = Some msg))"

section \<open>Frames\<close>

definition LINK_NONCE_LEN :: nat where "LINK_NONCE_LEN = 12"
definition LINK_TAG_LEN :: nat where "LINK_TAG_LEN = 16"
definition LINK_FRAME_LEN :: nat where "LINK_FRAME_LEN = LINK_NONCE_LEN + CELL_LEN + LINK_TAG_LEN"
definition LINK_EPH_PUB_LEN :: nat where "LINK_EPH_PUB_LEN = 32"
definition LINK_HANDSHAKE_NONCE_LEN :: nat where "LINK_HANDSHAKE_NONCE_LEN = 16"
definition LINK_HANDSHAKE_MAC_LEN :: nat where "LINK_HANDSHAKE_MAC_LEN = 32"
definition LINK_HANDSHAKE_INIT_LEN :: nat where "LINK_HANDSHAKE_INIT_LEN = LINK_EPH_PUB_LEN + LINK_HANDSHAKE_NONCE_LEN"
definition LINK_HANDSHAKE_RESP_LEN :: nat where "LINK_HANDSHAKE_RESP_LEN = LINK_EPH_PUB_LEN + LINK_HANDSHAKE_NONCE_LEN"
definition LINK_HANDSHAKE_CONFIRM_LEN :: nat where "LINK_HANDSHAKE_CONFIRM_LEN = LINK_HANDSHAKE_MAC_LEN"
definition LINK_HANDSHAKE_FINISH_LEN :: nat where "LINK_HANDSHAKE_FINISH_LEN = LINK_HANDSHAKE_MAC_LEN"

lemmas link_values = LINK_NONCE_LEN_def LINK_TAG_LEN_def LINK_FRAME_LEN_def LINK_EPH_PUB_LEN_def LINK_HANDSHAKE_NONCE_LEN_def
  LINK_HANDSHAKE_MAC_LEN_def LINK_HANDSHAKE_INIT_LEN_def LINK_HANDSHAKE_RESP_LEN_def LINK_HANDSHAKE_CONFIRM_LEN_def
  LINK_HANDSHAKE_FINISH_LEN_def

definition HANDSHAKE_AUTH_DOMAIN :: bytes where "HANDSHAKE_AUTH_DOMAIN = ascii ''aegis-link-handshake-auth-v1''"
definition HANDSHAKE_MAC_DOMAIN :: bytes where "HANDSHAKE_MAC_DOMAIN = ascii ''aegis-link-handshake-mac-v1''"
definition HANDSHAKE_IDENTITY_DOMAIN :: bytes where "HANDSHAKE_IDENTITY_DOMAIN = ascii ''aegis-link-handshake-identity-v1''"
definition HANDSHAKE_SESSION_DOMAIN :: bytes where "HANDSHAKE_SESSION_DOMAIN = ascii ''aegis-link-session-v1''"
definition HANDSHAKE_TRANSCRIPT_DOMAIN :: bytes where "HANDSHAKE_TRANSCRIPT_DOMAIN = ascii ''aegis-link-handshake-v1''"
definition LINK_AAD :: bytes where "LINK_AAD = ascii ''aegis-link-v1''"
definition ROLE_INITIATOR :: byte where "ROLE_INITIATOR = 0x01"
definition ROLE_RESPONDER :: byte where "ROLE_RESPONDER = 0x02"

type_synonym LinkKey = bytes

definition link_seal ::
    "aead_lib \<Rightarrow> ('r \<Rightarrow> nat \<Rightarrow> bytes \<times> 'r) \<Rightarrow> LinkKey \<Rightarrow> Cell \<Rightarrow> 'r \<Rightarrow> (CryptoError, bytes) result \<times> 'r" where
  "link_seal A fill key cell rng =
     (let (nonce, rng) = fill rng LINK_NONCE_LEN in
      (bind_result (ok_or (aead_encrypt A key nonce LINK_AAD cell) (CryptoMalformed ''seal'')) (\<lambda>ct. Inr (nonce @ ct)), rng))"

definition link_open :: "aead_lib \<Rightarrow> LinkKey \<Rightarrow> bytes \<Rightarrow> (CryptoError, Cell) result" where
  "link_open A key frame =
     (if length frame \<noteq> LINK_FRAME_LEN then Inl (CryptoMalformed ''link frame length'')
      else bind_result (ok_or (aead_decrypt A key (take LINK_NONCE_LEN frame) LINK_AAD (drop LINK_NONCE_LEN frame)) IntegrityFailure)
        (\<lambda>pt. if length pt \<noteq> CELL_LEN then Inl (CryptoMalformed ''plaintext length'') else Inr pt))"

section \<open>Handshake messages\<close>

record LinkHandshakeInit =
  hi_eph_pk :: bytes
  hi_nonce :: bytes

record LinkHandshakeResp =
  hr_eph_pk :: bytes
  hr_nonce :: bytes

record LinkHandshakeTranscript =
  initiator_eph_pk :: bytes
  initiator_nonce :: bytes
  responder_eph_pk :: bytes
  responder_nonce :: bytes

definition from_messages :: "LinkHandshakeInit \<Rightarrow> LinkHandshakeResp \<Rightarrow> LinkHandshakeTranscript" where
  "from_messages init resp = \<lparr>initiator_eph_pk = hi_eph_pk init, initiator_nonce = hi_nonce init,
     responder_eph_pk = hr_eph_pk resp, responder_nonce = hr_nonce resp\<rparr>"

record LinkHandshakeBinding =
  bind_peer_relay_id :: bytes
  bind_kem_commitment :: "bytes option"

definition binding_peer_id :: "bytes \<Rightarrow> LinkHandshakeBinding" where
  "binding_peer_id i = \<lparr>bind_peer_relay_id = i, bind_kem_commitment = None\<rparr>"

definition binding_with_kem_commitment :: "LinkHandshakeBinding \<Rightarrow> bytes \<Rightarrow> LinkHandshakeBinding" where
  "binding_with_kem_commitment b c = b\<lparr>bind_kem_commitment := Some c\<rparr>"

text \<open>The bytes that \<open>update_handshake_mac_with_binding\<close> feeds to the hash.\<close>

definition update_handshake_mac_with_binding :: "LinkHandshakeBinding option \<Rightarrow> bytes" where
  "update_handshake_mac_with_binding b =
     (case b of None \<Rightarrow> [] | Some b \<Rightarrow>
        HANDSHAKE_IDENTITY_DOMAIN @ bind_peer_relay_id b @
        (case bind_kem_commitment b of Some c \<Rightarrow> [0x01] @ c | None \<Rightarrow> [0x00]))"

definition handshake_auth_key :: "(bytes \<Rightarrow> bytes) \<Rightarrow> bytes \<Rightarrow> bytes" where
  "handshake_auth_key H psk = H (HANDSHAKE_AUTH_DOMAIN @ psk)"

definition mac_input :: "bytes \<Rightarrow> byte \<Rightarrow> LinkHandshakeTranscript \<Rightarrow> LinkHandshakeBinding option \<Rightarrow> bytes" where
  "mac_input auth_key role t b =
     HANDSHAKE_MAC_DOMAIN @ auth_key @ [role] @ initiator_eph_pk t @ initiator_nonce t @ responder_eph_pk t @ responder_nonce t
     @ update_handshake_mac_with_binding b"

definition handshake_mac ::
    "(bytes \<Rightarrow> bytes) \<Rightarrow> bytes \<Rightarrow> byte \<Rightarrow> LinkHandshakeTranscript \<Rightarrow> LinkHandshakeBinding option \<Rightarrow> bytes" where
  "handshake_mac H auth_key role t b = H (mac_input auth_key role t b)"

definition verify_handshake_mac ::
    "(bytes \<Rightarrow> bytes) \<Rightarrow> bytes \<Rightarrow> byte \<Rightarrow> LinkHandshakeTranscript \<Rightarrow> LinkHandshakeBinding option \<Rightarrow> bytes \<Rightarrow> bool" where
  "verify_handshake_mac H auth_key role t b mac \<longleftrightarrow> handshake_mac H auth_key role t b = mac"

definition derive_session_key_bytes :: "(bytes \<Rightarrow> bytes) \<Rightarrow> bytes \<Rightarrow> LinkHandshakeTranscript \<Rightarrow> bytes" where
  "derive_session_key_bytes H shared t =
     H (HANDSHAKE_SESSION_DOMAIN @ shared @ HANDSHAKE_TRANSCRIPT_DOMAIN @ initiator_eph_pk t @ initiator_nonce t
        @ responder_eph_pk t @ responder_nonce t)"

definition link_handshake_init_write :: "('xs, 'ms, 'mp, 'r) crypto_lib \<Rightarrow> 'r \<Rightarrow> ('xs \<times> bytes) \<times> 'r" where
  "link_handshake_init_write L rng =
     (let (secret, rng) = lib_x25519_random L rng;
          (nonce, rng) = lib_fill_bytes L rng LINK_HANDSHAKE_NONCE_LEN
      in ((secret, lib_x25519_public L secret @ nonce), rng))"

definition link_handshake_resp_write :: "('xs, 'ms, 'mp, 'r) crypto_lib \<Rightarrow> 'r \<Rightarrow> ('xs \<times> bytes) \<times> 'r" where
  "link_handshake_resp_write L rng =
     (let (secret, rng) = lib_x25519_random L rng;
          (nonce, rng) = lib_fill_bytes L rng LINK_HANDSHAKE_NONCE_LEN
      in ((secret, lib_x25519_public L secret @ nonce), rng))"

definition parse_link_handshake_init :: "bytes \<Rightarrow> (CryptoError, LinkHandshakeInit) result" where
  "parse_link_handshake_init bs =
     (if length bs \<noteq> LINK_HANDSHAKE_INIT_LEN then Inl (CryptoMalformed ''link handshake init length'')
      else Inr \<lparr>hi_eph_pk = take LINK_EPH_PUB_LEN bs, hi_nonce = drop LINK_EPH_PUB_LEN bs\<rparr>)"

definition parse_link_handshake_resp :: "bytes \<Rightarrow> (CryptoError, LinkHandshakeResp) result" where
  "parse_link_handshake_resp bs =
     (if length bs \<noteq> LINK_HANDSHAKE_RESP_LEN then Inl (CryptoMalformed ''link handshake resp length'')
      else Inr \<lparr>hr_eph_pk = take LINK_EPH_PUB_LEN bs, hr_nonce = drop LINK_EPH_PUB_LEN bs\<rparr>)"

definition parse_link_handshake_mac :: "bytes \<Rightarrow> (CryptoError, bytes) result" where
  "parse_link_handshake_mac bs =
     (if length bs \<noteq> LINK_HANDSHAKE_MAC_LEN then Inl (CryptoMalformed ''link handshake mac length'') else Inr bs)"

definition link_handshake_confirm_mac ::
    "(bytes \<Rightarrow> bytes) \<Rightarrow> bytes \<Rightarrow> LinkHandshakeTranscript \<Rightarrow> LinkHandshakeBinding option \<Rightarrow> bytes" where
  "link_handshake_confirm_mac H psk t b = handshake_mac H (handshake_auth_key H psk) ROLE_INITIATOR t b"

definition link_handshake_finish_mac ::
    "(bytes \<Rightarrow> bytes) \<Rightarrow> bytes \<Rightarrow> LinkHandshakeTranscript \<Rightarrow> LinkHandshakeBinding option \<Rightarrow> bytes" where
  "link_handshake_finish_mac H psk t b = handshake_mac H (handshake_auth_key H psk) ROLE_RESPONDER t b"

definition verify_link_handshake_confirm_mac ::
    "(bytes \<Rightarrow> bytes) \<Rightarrow> bytes \<Rightarrow> LinkHandshakeTranscript \<Rightarrow> LinkHandshakeBinding option \<Rightarrow> bytes \<Rightarrow> bool" where
  "verify_link_handshake_confirm_mac H psk t b mac = verify_handshake_mac H (handshake_auth_key H psk) ROLE_INITIATOR t b mac"

definition verify_link_handshake_finish_mac ::
    "(bytes \<Rightarrow> bytes) \<Rightarrow> bytes \<Rightarrow> LinkHandshakeTranscript \<Rightarrow> LinkHandshakeBinding option \<Rightarrow> bytes \<Rightarrow> bool" where
  "verify_link_handshake_finish_mac H psk t b mac = verify_handshake_mac H (handshake_auth_key H psk) ROLE_RESPONDER t b mac"

definition derive_link_session_key ::
    "('xs, 'ms, 'mp, 'r) crypto_lib \<Rightarrow> 'xs \<Rightarrow> bytes \<Rightarrow> LinkHandshakeTranscript \<Rightarrow> LinkKey" where
  "derive_link_session_key L local_ephemeral peer_eph_pk t =
     derive_session_key_bytes (lib_sha3_256 L) (lib_x25519_dh L local_ephemeral peer_eph_pk) t"

definition link_handshake_initiator_finish ::
    "('xs, 'ms, 'mp, 'r) crypto_lib \<Rightarrow> bytes \<Rightarrow> 'xs \<Rightarrow> LinkHandshakeInit \<Rightarrow> bytes \<Rightarrow> bytes \<Rightarrow> LinkHandshakeBinding option
      \<Rightarrow> (CryptoError, LinkKey \<times> bytes) result" where
  "link_handshake_initiator_finish L psk init_sk init resp_msg finish_msg b =
     bind_result (parse_link_handshake_resp resp_msg) (\<lambda>resp.
       let t = from_messages init resp; confirm = link_handshake_confirm_mac (lib_sha3_256 L) psk t b in
       bind_result (parse_link_handshake_mac finish_msg) (\<lambda>finish.
         if \<not> verify_link_handshake_finish_mac (lib_sha3_256 L) psk t b finish then Inl IntegrityFailure
         else Inr (derive_link_session_key L init_sk (hr_eph_pk resp) t, confirm)))"

definition link_handshake_responder_finish ::
    "('xs, 'ms, 'mp, 'r) crypto_lib \<Rightarrow> bytes \<Rightarrow> 'xs \<Rightarrow> LinkHandshakeInit \<Rightarrow> LinkHandshakeResp \<Rightarrow> bytes
      \<Rightarrow> LinkHandshakeBinding option \<Rightarrow> (CryptoError, LinkKey) result" where
  "link_handshake_responder_finish L psk resp_sk init resp confirm_msg b =
     bind_result (parse_link_handshake_mac confirm_msg) (\<lambda>confirm.
       let t = from_messages init resp in
       if \<not> verify_link_handshake_confirm_mac (lib_sha3_256 L) psk t b confirm then Inl IntegrityFailure
       else Inr (derive_link_session_key L resp_sk (hi_eph_pk init) t))"

section \<open>Noise IK\<close>

definition NOISE_IK_MSG1_LEN :: nat where "NOISE_IK_MSG1_LEN = 32 + 48 + 16"
definition NOISE_IK_MSG2_LEN :: nat where "NOISE_IK_MSG2_LEN = 32 + 16"
definition STATIC_SK_DOMAIN :: bytes where "STATIC_SK_DOMAIN = ascii ''aegis-noise-static-sk-v1''"
definition NOISE_SESSION_DOMAIN :: bytes where "NOISE_SESSION_DOMAIN = ascii ''aegis-noise-session-v1''"

datatype SnowError = SnowDecrypt | SnowOther

text \<open>The \<open>snow\<close> crate: a handshake state \<open>'h\<close>, its own randomness included.\<close>

record 'h noise_lib =
  snow_build_initiator :: "bytes \<Rightarrow> bytes \<Rightarrow> (SnowError, 'h) result"
  snow_build_responder :: "bytes \<Rightarrow> (SnowError, 'h) result"
  snow_write_message :: "'h \<Rightarrow> (SnowError, bytes) result \<times> 'h"
  snow_read_message :: "'h \<Rightarrow> bytes \<Rightarrow> (SnowError, bytes) result \<times> 'h"
  snow_remote_static :: "'h \<Rightarrow> bytes option"
  snow_finished :: "'h \<Rightarrow> bool"
  snow_handshake_hash :: "'h \<Rightarrow> bytes"
  snow_public :: "bytes \<Rightarrow> bytes"

definition map_snow_err :: "SnowError \<Rightarrow> CryptoError" where
  "map_snow_err e = (case e of SnowDecrypt \<Rightarrow> IntegrityFailure | SnowOther \<Rightarrow> CryptoMalformed ''noise handshake'')"

definition snow_result :: "(SnowError, 'a) result \<Rightarrow> (CryptoError, 'a) result" where
  "snow_result r = (case r of Inl e \<Rightarrow> Inl (map_snow_err e) | Inr a \<Rightarrow> Inr a)"

definition link_key_from_handshake_hash :: "(bytes \<Rightarrow> bytes) \<Rightarrow> bytes \<Rightarrow> LinkKey" where
  "link_key_from_handshake_hash H h = H (NOISE_SESSION_DOMAIN @ h)"

definition noise_ik_initiator_write_msg1 :: "'h noise_lib \<Rightarrow> bytes \<Rightarrow> bytes \<Rightarrow> (CryptoError, 'h \<times> bytes) result" where
  "noise_ik_initiator_write_msg1 N local_sk remote_pk =
     bind_result (snow_result (snow_build_initiator N local_sk remote_pk)) (\<lambda>hs.
       let (r, hs) = snow_write_message N hs in
       bind_result (snow_result r) (\<lambda>msg.
         if length msg \<noteq> NOISE_IK_MSG1_LEN then Inl (CryptoMalformed ''noise msg1 length'') else Inr (hs, msg)))"

definition noise_ik_initiator_read_msg2 :: "'h noise_lib \<Rightarrow> (bytes \<Rightarrow> bytes) \<Rightarrow> 'h \<Rightarrow> bytes \<Rightarrow> (CryptoError, LinkKey) result" where
  "noise_ik_initiator_read_msg2 N H hs msg2 =
     (if length msg2 \<noteq> NOISE_IK_MSG2_LEN then Inl (CryptoMalformed ''noise msg2 length'')
      else let (r, hs) = snow_read_message N hs msg2 in
        bind_result (snow_result r) (\<lambda>_.
          if \<not> snow_finished N hs then Inl (CryptoMalformed ''noise handshake incomplete'')
          else Inr (link_key_from_handshake_hash H (snow_handshake_hash N hs))))"

record NoiseIkResponderState =
  initiator_static_pk :: bytes
  noise_msg2 :: bytes
  noise_session :: LinkKey

definition noise_ik_responder_read_msg1 ::
    "'h noise_lib \<Rightarrow> (bytes \<Rightarrow> bytes) \<Rightarrow> bytes \<Rightarrow> bytes \<Rightarrow> (CryptoError, NoiseIkResponderState) result" where
  "noise_ik_responder_read_msg1 N H local_sk msg1 =
     (if length msg1 \<noteq> NOISE_IK_MSG1_LEN then Inl (CryptoMalformed ''noise msg1 length'')
      else bind_result (snow_result (snow_build_responder N local_sk)) (\<lambda>hs.
        let (r, hs) = snow_read_message N hs msg1 in
        bind_result (snow_result r) (\<lambda>_.
        bind_result (ok_or (snow_remote_static N hs) (CryptoMalformed ''noise initiator static missing'')) (\<lambda>remote.
          if length remote \<noteq> 32 then Inl (CryptoMalformed ''noise initiator static length'')
          else let (w, hs) = snow_write_message N hs in
            bind_result (snow_result w) (\<lambda>msg2.
              if length msg2 \<noteq> NOISE_IK_MSG2_LEN then Inl (CryptoMalformed ''noise msg2 length'')
              else if \<not> snow_finished N hs then Inl (CryptoMalformed ''noise handshake incomplete'')
              else Inr \<lparr>initiator_static_pk = remote, noise_msg2 = msg2,
                noise_session = link_key_from_handshake_hash H (snow_handshake_hash N hs)\<rparr>)))))"

definition into_session_if_peer_matches :: "NoiseIkResponderState \<Rightarrow> bytes \<Rightarrow> (CryptoError, LinkKey) result" where
  "into_session_if_peer_matches s expected =
     (if initiator_static_pk s \<noteq> expected then Inl IntegrityFailure else Inr (noise_session s))"

definition derive_noise_static_secret :: "(bytes \<Rightarrow> bytes) \<Rightarrow> bytes \<Rightarrow> bytes" where
  "derive_noise_static_secret H material = H (STATIC_SK_DOMAIN @ material)"

definition noise_static_public_of :: "'h noise_lib \<Rightarrow> bytes \<Rightarrow> bytes" where
  "noise_static_public_of N static_secret = snow_public N static_secret"

definition verify_noise_static_public :: "bytes \<Rightarrow> bytes \<Rightarrow> bool" where
  "verify_noise_static_public got expected \<longleftrightarrow> got = expected"

section \<open>Frames open to what was sealed\<close>

lemma aead_lawsD:
  assumes "aead_laws A" "length msg = CELL_LEN"
  obtains ct where "aead_encrypt A key nonce aad msg = Some ct" "length ct = CELL_LEN + 16" "aead_decrypt A key nonce aad ct = Some msg"
  using assms unfolding aead_laws_def by metis

lemma seal_open:
  assumes "aead_laws A" "length (fst (fill rng LINK_NONCE_LEN)) = LINK_NONCE_LEN" "length cell = CELL_LEN"
  shows "\<exists>frame. link_seal A fill key cell rng = (Inr frame, snd (fill rng LINK_NONCE_LEN)) \<and> length frame = LINK_FRAME_LEN
    \<and> link_open A key frame = Inr cell"
proof -
  obtain nonce rng' where f: "fill rng LINK_NONCE_LEN = (nonce, rng')" by fastforce
  obtain ct where "aead_encrypt A key nonce LINK_AAD cell = Some ct" "length ct = CELL_LEN + 16" "aead_decrypt A key nonce LINK_AAD ct = Some cell"
    using aead_lawsD[OF assms(1,3)] by metis
  then show ?thesis using assms(2,3) f by (simp add: link_seal_def link_open_def ok_or_def link_values Let_def)
qed

section \<open>What a MAC binds\<close>

definition wf_transcript :: "LinkHandshakeTranscript \<Rightarrow> bool" where
  "wf_transcript t \<longleftrightarrow> length (initiator_eph_pk t) = 32 \<and> length (initiator_nonce t) = 16
     \<and> length (responder_eph_pk t) = 32 \<and> length (responder_nonce t) = 16"

definition wf_binding :: "LinkHandshakeBinding option \<Rightarrow> bool" where
  "wf_binding b \<longleftrightarrow> (case b of None \<Rightarrow> True | Some b \<Rightarrow> length (bind_peer_relay_id b) = 32
     \<and> (case bind_kem_commitment b of None \<Rightarrow> True | Some c \<Rightarrow> length c = 32))"

lemma binding_bytes_inj:
  assumes "wf_binding b" "wf_binding b'" "update_handshake_mac_with_binding b = update_handshake_mac_with_binding b'"
  shows "b = b'"
proof -
  have dom: "HANDSHAKE_IDENTITY_DOMAIN \<noteq> []" by (simp add: HANDSHAKE_IDENTITY_DOMAIN_def ascii_def)
  show ?thesis
  proof (cases b; cases b')
    fix x y assume x: "b = Some x" and y: "b' = Some y"
    then have "bind_peer_relay_id x = bind_peer_relay_id y
        \<and> (case bind_kem_commitment x of Some c \<Rightarrow> [0x01] @ c | None \<Rightarrow> [0x00])
          = (case bind_kem_commitment y of Some c \<Rightarrow> [0x01] @ c | None \<Rightarrow> [0x00 :: byte])"
      using assms by (simp add: update_handshake_mac_with_binding_def wf_binding_def)
    then have "bind_peer_relay_id x = bind_peer_relay_id y \<and> bind_kem_commitment x = bind_kem_commitment y"
      by (auto split: option.splits)
    then show ?thesis using x y by simp
  qed (use assms(3) dom in \<open>simp_all add: update_handshake_mac_with_binding_def\<close>)
qed

lemma mac_input_inj:
  assumes "length k = 32" "length k' = 32" "wf_transcript t" "wf_transcript t'" "wf_binding b" "wf_binding b'"
    and "mac_input k role t b = mac_input k' role' t' b'"
  shows "k = k' \<and> role = role' \<and> t = t' \<and> b = b'"
proof -
  have "k = k' \<and> role = role' \<and> initiator_eph_pk t = initiator_eph_pk t' \<and> initiator_nonce t = initiator_nonce t'
      \<and> responder_eph_pk t = responder_eph_pk t' \<and> responder_nonce t = responder_nonce t'
      \<and> update_handshake_mac_with_binding b = update_handshake_mac_with_binding b'"
    using assms by (simp add: mac_input_def wf_transcript_def)
  then show ?thesis using binding_bytes_inj[OF assms(5,6)] by simp
qed

text \<open>A collision of the digest at two given inputs.\<close>

definition digest_clash :: "(bytes \<Rightarrow> bytes) \<Rightarrow> bytes \<Rightarrow> bytes \<Rightarrow> bool" where
  "digest_clash H x y \<longleftrightarrow> x \<noteq> y \<and> H x = H y"

text \<open>Two confirmations that differ in their key, transcript or binding have the same MAC: there is a collision at the inputs of one of the two digests.\<close>

fun mac_clash ::
    "(bytes \<Rightarrow> bytes) \<Rightarrow> byte \<Rightarrow> bytes \<times> LinkHandshakeTranscript \<times> LinkHandshakeBinding option
      \<Rightarrow> bytes \<times> LinkHandshakeTranscript \<times> LinkHandshakeBinding option \<Rightarrow> bool" where
  "mac_clash H role (k, t, b) (k', t', b') \<longleftrightarrow>
     digest_clash H (HANDSHAKE_AUTH_DOMAIN @ k) (HANDSHAKE_AUTH_DOMAIN @ k')
     \<or> digest_clash H (mac_input (handshake_auth_key H k) role t b) (mac_input (handshake_auth_key H k') role t' b')"

lemma mac_binds:
  assumes "\<And>m. length (H m) = 32" "wf_transcript t" "wf_transcript t'" "wf_binding b" "wf_binding b'"
    and "handshake_mac H (handshake_auth_key H psk) role t b = handshake_mac H (handshake_auth_key H psk') role t' b'"
  shows "(psk = psk' \<and> t = t' \<and> b = b') \<or> mac_clash H role (psk, t, b) (psk', t', b')"
proof (cases "mac_input (handshake_auth_key H psk) role t b = mac_input (handshake_auth_key H psk') role t' b'")
  case True
  then have *: "handshake_auth_key H psk = handshake_auth_key H psk'" "t = t'" "b = b'"
    using mac_input_inj[OF _ _ assms(2-5) True] assms(1) by (simp_all add: handshake_auth_key_def)
  then show ?thesis by (simp add: handshake_auth_key_def digest_clash_def)
next
  case False
  then show ?thesis using assms(6) by (simp add: handshake_mac_def digest_clash_def)
qed

end
