(* ===== verification/Link_Handshake.thy ===== *)
theory Link_Handshake
  imports Link_Crypto Health_Gossip Fragment Rate_Limit Sphinx_Correct
begin

text \<open>
  The handshakes of the TCP link bridge, \<^verbatim>\<open>crates/aegis-relay/src/net.rs\<close>: the state machine around the messages of
  \<^verbatim>\<open>Link_Crypto\<close>. A stream is what will be read from it, what has been written to it, and how much more
  can be written; it ends with end-of-file or falls silent. The peer table is the list of the order in which the hash map is
  iterated. The read timeout of the configuration is the point at which a silent stream fails. The \<open>noise-link\<close> feature is on, as by
  default.
\<close>

section \<open>Configuration\<close>

datatype LinkHandshakeMode = LegacyPsk | AutoMode | NoiseMode

record LinkBridgeConfig =
  identity_binding :: bool
  require_ingress_kem_commitment :: bool
  handshake :: LinkHandshakeMode
  noise_static_secret :: "bytes option"
  ingress_noise_static_public :: "bytes option"
  ingress_rate_limit :: IngressRateLimitConfig
  gossip_epoch_secs :: u64
  cover_cell_tau :: nat
  max_inbound_connections :: nat

definition DEFAULT_MAX_INBOUND_CONNECTIONS :: nat where "DEFAULT_MAX_INBOUND_CONNECTIONS = 256"
definition DEFAULT_COVER_CELL_TAU :: nat where "DEFAULT_COVER_CELL_TAU = 350 * 10 ^ 6"

definition bridge_config_default :: LinkBridgeConfig where
  "bridge_config_default = \<lparr>identity_binding = True, require_ingress_kem_commitment = False, handshake = AutoMode,
     noise_static_secret = None, ingress_noise_static_public = None,
     ingress_rate_limit = ingress_rate_limit_default, gossip_epoch_secs = 60,
     cover_cell_tau = DEFAULT_COVER_CELL_TAU, max_inbound_connections = DEFAULT_MAX_INBOUND_CONNECTIONS\<rparr>"

definition without_ingress_rate_limit :: "LinkBridgeConfig \<Rightarrow> LinkBridgeConfig" where
  "without_ingress_rate_limit c = c\<lparr>ingress_rate_limit := ingress_rate_limit_disabled\<rparr>"

definition without_cover_cell_pacing :: "LinkBridgeConfig \<Rightarrow> LinkBridgeConfig" where
  "without_cover_cell_pacing c = c\<lparr>cover_cell_tau := 0\<rparr>"

definition initiator_selects_noise :: "LinkBridgeConfig \<Rightarrow> bytes option \<Rightarrow> bool" where
  "initiator_selects_noise c peer_noise_static =
     (case handshake c of NoiseMode \<Rightarrow> True | LegacyPsk \<Rightarrow> False
      | AutoMode \<Rightarrow> noise_static_secret c \<noteq> None \<and> peer_noise_static \<noteq> None)"

definition responder_selects_noise :: "LinkBridgeConfig \<Rightarrow> bool" where
  "responder_selects_noise c =
     (case handshake c of NoiseMode \<Rightarrow> True | LegacyPsk \<Rightarrow> False | AutoMode \<Rightarrow> noise_static_secret c \<noteq> None)"

definition peer_info_new :: "string \<Rightarrow> bytes \<Rightarrow> PeerInfo" where
  "peer_info_new addr key = \<lparr>peer_addr = addr, link_key_bytes = key, peer_kem_commitment = None, gossip_verifying_key = None,
     noise_static_public = None, org_id = None, peer_jurisdiction = None\<rparr>"

definition peer_with_kem_commitment :: "bytes \<Rightarrow> PeerInfo \<Rightarrow> PeerInfo" where
  "peer_with_kem_commitment c p = p\<lparr>peer_kem_commitment := Some c\<rparr>"

definition peer_with_gossip_verifying_key :: "bytes \<Rightarrow> PeerInfo \<Rightarrow> PeerInfo" where
  "peer_with_gossip_verifying_key k p = p\<lparr>gossip_verifying_key := Some k\<rparr>"

definition peer_with_noise_static_public :: "bytes \<Rightarrow> PeerInfo \<Rightarrow> PeerInfo" where
  "peer_with_noise_static_public k p = p\<lparr>noise_static_public := Some k\<rparr>"

definition peer_with_org_id :: "string \<Rightarrow> PeerInfo \<Rightarrow> PeerInfo" where
  "peer_with_org_id s p = p\<lparr>org_id := Some s\<rparr>"

definition peer_with_jurisdiction :: "string \<Rightarrow> PeerInfo \<Rightarrow> PeerInfo" where
  "peer_with_jurisdiction s p = p\<lparr>peer_jurisdiction := Some s\<rparr>"

section \<open>Streams\<close>

datatype NetError =
    NetIo
  | NetCrypto CryptoError
  | PeerNotFound bytes
  | NetFragment FragmentError
  | UnidentifiedInbound
  | NoiseConfig string
  | ReadTimeout
  | ConnectionLimit nat

record stream =
  st_in :: bytes
  st_out :: bytes
  st_room :: nat
  st_eof :: bool

definition read_exact_timeout :: "nat \<Rightarrow> stream \<Rightarrow> (NetError, bytes) result \<times> stream" where
  "read_exact_timeout n s =
     (if n \<le> length (st_in s) then (Inr (take n (st_in s)), s\<lparr>st_in := drop n (st_in s)\<rparr>)
      else (Inl (if st_eof s then NetIo else ReadTimeout), s\<lparr>st_in := []\<rparr>))"

definition write_all_timeout :: "bytes \<Rightarrow> stream \<Rightarrow> (NetError, unit) result \<times> stream" where
  "write_all_timeout bs s =
     (if length bs \<le> st_room s then (Inr (), s\<lparr>st_out := st_out s @ bs, st_room := st_room s - length bs\<rparr>)
      else (Inl NetIo, s\<lparr>st_out := st_out s @ take (st_room s) bs, st_room := 0\<rparr>))"

text \<open>The operator \<open>?\<close> on an action that changes the stream, and on a pure result.\<close>

definition io_then :: "(NetError, 'a) result \<times> 's \<Rightarrow> ('a \<Rightarrow> 's \<Rightarrow> (NetError, 'b) result \<times> 's) \<Rightarrow> (NetError, 'b) result \<times> 's" where
  "io_then x f = (case x of (Inl e, s) \<Rightarrow> (Inl e, s) | (Inr a, s) \<Rightarrow> f a s)"

definition crypto_then :: "(CryptoError, 'a) result \<Rightarrow> 's \<Rightarrow> ('a \<Rightarrow> (NetError, 'b) result \<times> 's) \<Rightarrow> (NetError, 'b) result \<times> 's" where
  "crypto_then r s f = (case r of Inl e \<Rightarrow> (Inl (NetCrypto e), s) | Inr a \<Rightarrow> f a)"

lemma io_then_simps [simp]: "io_then (Inl e, s) f = (Inl e, s)" "io_then (Inr a, s) f = f a s"
  by (simp_all add: io_then_def)

lemma crypto_then_simps [simp]: "crypto_then (Inl e) s f = (Inl (NetCrypto e), s)" "crypto_then (Inr a) s f = f a"
  by (simp_all add: crypto_then_def)

section \<open>The initiator\<close>

definition link_handshake_binding :: "LinkBridgeConfig \<Rightarrow> bytes \<Rightarrow> bytes option \<Rightarrow> LinkHandshakeBinding option" where
  "link_handshake_binding c peer_relay_id kem_commitment =
     (if \<not> identity_binding c then None
      else let b = binding_peer_id peer_relay_id in
        Some (case kem_commitment of Some k \<Rightarrow> binding_with_kem_commitment b k | None \<Rightarrow> b))"

definition run_initiator_noise_handshake ::
    "'h noise_lib \<Rightarrow> (bytes \<Rightarrow> bytes) \<Rightarrow> stream \<Rightarrow> bytes option \<Rightarrow> LinkBridgeConfig \<Rightarrow> (NetError, LinkKey) result \<times> stream" where
  "run_initiator_noise_handshake N H s peer_noise_static c =
     (case noise_static_secret c of
        None \<Rightarrow> (Inl (NoiseConfig ''missing local noise_static_secret''), s)
      | Some local_sk \<Rightarrow> (case peer_noise_static of
          None \<Rightarrow> (Inl (NoiseConfig ''missing peer noise_static_public''), s)
        | Some remote_pk \<Rightarrow>
            crypto_then (noise_ik_initiator_write_msg1 N local_sk remote_pk) s (\<lambda>(hs, msg1).
            io_then (write_all_timeout msg1 s) (\<lambda>_ s.
            io_then (read_exact_timeout NOISE_IK_MSG2_LEN s) (\<lambda>msg2 s.
            crypto_then (noise_ik_initiator_read_msg2 N H hs msg2) s (\<lambda>key. (Inr key, s)))))))"

definition run_initiator_handshake ::
    "('xs, 'ms, 'mp, 'r) crypto_lib \<Rightarrow> 'h noise_lib \<Rightarrow> stream \<Rightarrow> bytes \<Rightarrow> bytes \<Rightarrow> bytes option \<Rightarrow> bytes option \<Rightarrow> 'r \<Rightarrow> LinkBridgeConfig
      \<Rightarrow> ((NetError, LinkKey) result \<times> stream) \<times> 'r" where
  "run_initiator_handshake L N s psk peer_relay_id kem_commitment peer_noise_static rng c =
     (if initiator_selects_noise c peer_noise_static
      then (run_initiator_noise_handshake N (lib_sha3_256 L) s peer_noise_static c, rng)
      else let b = link_handshake_binding c peer_relay_id kem_commitment;
               ((init_sk, init_msg), rng) = link_handshake_init_write L rng
        in (crypto_then (parse_link_handshake_init init_msg) s (\<lambda>init.
            io_then (write_all_timeout init_msg s) (\<lambda>_ s.
            io_then (read_exact_timeout LINK_HANDSHAKE_RESP_LEN s) (\<lambda>resp_msg s.
            crypto_then (parse_link_handshake_resp resp_msg) s (\<lambda>resp.
              let t = from_messages init resp; confirm = link_handshake_confirm_mac (lib_sha3_256 L) psk t b in
            io_then (write_all_timeout confirm s) (\<lambda>_ s.
            io_then (read_exact_timeout LINK_HANDSHAKE_FINISH_LEN s) (\<lambda>finish_msg s.
            crypto_then (parse_link_handshake_mac finish_msg) s (\<lambda>finish.
              if \<not> verify_link_handshake_finish_mac (lib_sha3_256 L) psk t b finish then (Inl (NetCrypto IntegrityFailure), s)
              else (Inr (derive_link_session_key L init_sk (hr_eph_pk resp) t), s)))))))), rng))"

section \<open>The responder\<close>

definition record_peer_outcome :: "PeerHealthTracker option \<Rightarrow> bytes \<Rightarrow> bool \<Rightarrow> PeerHealthTracker option" where
  "record_peer_outcome health peer success =
     map_option (\<lambda>t. if success then ph_record_success t peer else ph_record_failure t peer) health"

definition record_inbound_handshake_outcome :: "PeerHealthTracker option \<Rightarrow> bytes option \<Rightarrow> bool \<Rightarrow> PeerHealthTracker option" where
  "record_inbound_handshake_outcome health matched success =
     (case matched of None \<Rightarrow> health | Some peer \<Rightarrow> record_peer_outcome health peer success)"

text \<open>The tracker is part of the state that the responder's actions thread, beside the stream.\<close>

type_synonym resp_state = "stream \<times> PeerHealthTracker option"

definition with_health :: "PeerHealthTracker option \<Rightarrow> (NetError, 'a) result \<times> stream \<Rightarrow> (NetError, 'a) result \<times> resp_state" where
  "with_health h x = (fst x, snd x, h)"

lemma with_health_simp [simp]: "with_health h (r, s) = (r, s, h)"
  by (simp add: with_health_def)

fun candidate_peers :: "'h noise_lib \<Rightarrow> (bytes \<Rightarrow> bytes) \<Rightarrow> (bytes \<times> PeerInfo) list \<Rightarrow> (bytes \<times> bytes option) list" where
  "candidate_peers N H [] = []"
| "candidate_peers N H ((i, peer) # ps) =
     (case noise_static_public peer of Some pk \<Rightarrow> pk
      | None \<Rightarrow> noise_static_public_of N (derive_noise_static_secret H (link_key_bytes peer)), Some i) # candidate_peers N H ps"

definition noise_candidates ::
    "'h noise_lib \<Rightarrow> (bytes \<Rightarrow> bytes) \<Rightarrow> LinkBridgeConfig \<Rightarrow> bytes option \<Rightarrow> (bytes \<times> PeerInfo) list \<Rightarrow> (bytes \<times> bytes option) list" where
  "noise_candidates N H c ingress_link_key peer_table =
     (case ingress_noise_static_public c of
        Some expected \<Rightarrow> [(expected, None)]
      | None \<Rightarrow> (case ingress_link_key of
            Some psk \<Rightarrow> [(noise_static_public_of N (derive_noise_static_secret H psk), None)] | None \<Rightarrow> []))
     @ candidate_peers N H peer_table"

definition run_responder_noise_handshake ::
    "'h noise_lib \<Rightarrow> (bytes \<Rightarrow> bytes) \<Rightarrow> stream \<Rightarrow> bytes option \<Rightarrow> (bytes \<times> PeerInfo) list \<Rightarrow> LinkBridgeConfig \<Rightarrow> PeerHealthTracker option
      \<Rightarrow> (NetError, LinkKey \<times> bytes option) result \<times> resp_state" where
  "run_responder_noise_handshake N H s ingress_link_key peer_table c health =
     (case noise_static_secret c of
        None \<Rightarrow> (Inl (NoiseConfig ''missing local noise_static_secret''), s, health)
      | Some local_sk \<Rightarrow>
          io_then (with_health health (read_exact_timeout NOISE_IK_MSG1_LEN s)) (\<lambda>msg1 (s, health).
          crypto_then (noise_ik_responder_read_msg1 N H local_sk msg1) (s, health) (\<lambda>st.
            case find (\<lambda>(expected, _). verify_noise_static_public (initiator_static_pk st) expected)
                   (noise_candidates N H c ingress_link_key peer_table) of
              None \<Rightarrow> (Inl UnidentifiedInbound, s, health)
            | Some (expected, matched) \<Rightarrow>
                (case into_session_if_peer_matches st expected of
                   Inr session \<Rightarrow>
                     (case write_all_timeout (noise_msg2 st) s of
                        (Inl e, s) \<Rightarrow> (Inl e, s, record_inbound_handshake_outcome health matched False)
                      | (Inr _, s) \<Rightarrow> (Inr (session, matched), s, record_inbound_handshake_outcome health matched True))
                 | Inl e \<Rightarrow> (Inl (NetCrypto e), s, record_inbound_handshake_outcome health matched False)))))"

text \<open>The responder's keys in the order they are tried: the shared ingress key, then the peer table.\<close>

definition psk_candidates :: "bytes option \<Rightarrow> (bytes \<times> PeerInfo) list \<Rightarrow> (bytes \<times> bytes option) list" where
  "psk_candidates ingress_link_key peer_table =
     (case ingress_link_key of Some psk \<Rightarrow> [(psk, None)] | None \<Rightarrow> []) @ map (\<lambda>(i, peer). (link_key_bytes peer, Some i)) peer_table"

definition run_responder_handshake ::
    "('xs, 'ms, 'mp, 'r) crypto_lib \<Rightarrow> 'h noise_lib \<Rightarrow> stream \<Rightarrow> bytes \<Rightarrow> bytes option \<Rightarrow> bytes option \<Rightarrow> (bytes \<times> PeerInfo) list \<Rightarrow> 'r
      \<Rightarrow> LinkBridgeConfig \<Rightarrow> PeerHealthTracker option \<Rightarrow> ((NetError, LinkKey \<times> bytes option) result \<times> resp_state) \<times> 'r" where
  "run_responder_handshake L N s local_relay_id local_kem_commitment ingress_link_key peer_table rng c health =
     (if require_ingress_kem_commitment c \<and> local_kem_commitment = None
      then ((Inl (NetCrypto (CryptoMalformed ''ingress requires kem commitment binding but local commitment unset'')), s, health), rng)
      else if responder_selects_noise c
      then (if require_ingress_kem_commitment c
            then (Inl (NetCrypto (CryptoMalformed ''require_ingress_kem_commitment needs LegacyPsk handshake (Noise does not bind KEM commitment)'')), s, health)
            else run_responder_noise_handshake N (lib_sha3_256 L) s ingress_link_key peer_table c health, rng)
      else case read_exact_timeout LINK_HANDSHAKE_INIT_LEN s of
        (Inl e, s) \<Rightarrow> ((Inl e, s, health), rng)
      | (Inr init_msg, s) \<Rightarrow> (case parse_link_handshake_init init_msg of
          Inl e \<Rightarrow> ((Inl (NetCrypto e), s, health), rng)
        | Inr init \<Rightarrow>
            (let ((resp_sk, resp_msg), rng) = link_handshake_resp_write L rng;
                 b = link_handshake_binding c local_relay_id local_kem_commitment
             in (crypto_then (parse_link_handshake_resp resp_msg) (s, health) (\<lambda>resp.
                 io_then (with_health health (write_all_timeout resp_msg s)) (\<lambda>_ (s, health).
                 io_then (with_health health (read_exact_timeout LINK_HANDSHAKE_CONFIRM_LEN s)) (\<lambda>confirm_msg (s, health).
                 crypto_then (parse_link_handshake_mac confirm_msg) (s, health) (\<lambda>confirm.
                   let t = from_messages init resp in
                   case find (\<lambda>(psk, _). verify_link_handshake_confirm_mac (lib_sha3_256 L) psk t b confirm)
                          (psk_candidates ingress_link_key peer_table) of
                     None \<Rightarrow> (Inl UnidentifiedInbound, s, health)
                   | Some (psk, matched) \<Rightarrow>
                       (case link_handshake_responder_finish L psk resp_sk init resp confirm_msg b of
                          Inl e \<Rightarrow> (Inl (NetCrypto e), s, record_inbound_handshake_outcome health matched False)
                        | Inr session \<Rightarrow>
                            (case write_all_timeout (link_handshake_finish_mac (lib_sha3_256 L) psk t b) s of
                               (Inl e, s) \<Rightarrow> (Inl e, s, record_inbound_handshake_outcome health matched False)
                             | (Inr _, s) \<Rightarrow> (Inr (session, matched), s, record_inbound_handshake_outcome health matched True))))))),
                 rng))))"

section \<open>Honest runs agree\<close>

lemma handshake_write:
  assumes "lib_lengths L" "link_handshake_init_write L rng = ((secret, msg), rng') \<or> link_handshake_resp_write L rng = ((secret, msg), rng')"
  shows "\<exists>nonce. msg = lib_x25519_public L secret @ nonce \<and> length nonce = 16 \<and> length (lib_x25519_public L secret) = 32"
proof -
  obtain x r1 where x: "lib_x25519_random L rng = (x, r1)" by fastforce
  obtain nonce r2 where f: "lib_fill_bytes L r1 LINK_HANDSHAKE_NONCE_LEN = (nonce, r2)" by fastforce
  have "length nonce = 16" using assms(1) f unfolding lib_lengths_def LINK_HANDSHAKE_NONCE_LEN_def by (metis fst_conv)
  moreover have "length (lib_x25519_public L x) = 32" using assms(1) by (simp add: lib_lengths_def)
  ultimately show ?thesis using assms(2) x f by (auto simp: link_handshake_init_write_def link_handshake_resp_write_def)
qed

lemma handshake_write_length:
  assumes "lib_lengths L" "link_handshake_init_write L rng = ((secret, msg), rng') \<or> link_handshake_resp_write L rng = ((secret, msg), rng')"
  shows "length msg = 48"
proof -
  obtain nonce where "msg = lib_x25519_public L secret @ nonce" "length nonce = 16" "length (lib_x25519_public L secret) = 32"
    using handshake_write[OF assms] by blast
  then show ?thesis by simp
qed

lemma sha3_length: "lib_lengths L \<Longrightarrow> length (lib_sha3_256 L m) = 32"
  by (simp add: lib_lengths_def)

lemma mac_length: "lib_lengths L \<Longrightarrow> length (link_handshake_confirm_mac (lib_sha3_256 L) psk t b) = 32"
  "lib_lengths L \<Longrightarrow> length (link_handshake_finish_mac (lib_sha3_256 L) psk t b) = 32"
  by (simp_all add: link_handshake_confirm_mac_def link_handshake_finish_mac_def handshake_mac_def sha3_length)

lemma wf_link_binding:
  "length i = 32 \<Longrightarrow> (\<And>k. kem = Some k \<Longrightarrow> length k = 32) \<Longrightarrow> wf_binding (link_handshake_binding c i kem)"
  by (auto simp: link_handshake_binding_def wf_binding_def binding_peer_id_def binding_with_kem_commitment_def Let_def split: option.split)

lemma link_handshake_binding_cong:
  "identity_binding c = identity_binding c' \<Longrightarrow> link_handshake_binding c i kem = link_handshake_binding c' i kem"
  by (simp add: link_handshake_binding_def)

text \<open>The initiator on a stream that holds the responder's two messages.\<close>

lemma initiator_run:
  assumes L: "lib_lengths L" and legacy: "\<not> initiator_selects_noise c pn" and room: "80 \<le> st_room s"
    and i: "link_handshake_init_write L rng = ((a, pa @ na), rng')" "length pa = 32" "length na = 16"
    and r: "length pb = 32" "length nb = 16"
  defines "t \<equiv> \<lparr>initiator_eph_pk = pa, initiator_nonce = na, responder_eph_pk = pb, responder_nonce = nb\<rparr>"
  shows "run_initiator_handshake L N (s\<lparr>st_in := (pb @ nb) @ link_handshake_finish_mac (lib_sha3_256 L) psk t (link_handshake_binding c rid kem)\<rparr>)
       psk rid kem pn rng c
    = ((Inr (derive_link_session_key L a pb t),
        s\<lparr>st_in := [], st_out := st_out s @ (pa @ na) @ link_handshake_confirm_mac (lib_sha3_256 L) psk t (link_handshake_binding c rid kem),
          st_room := st_room s - 80\<rparr>), rng')"
proof -
  let ?b = "link_handshake_binding c rid kem"
  have p: "parse_link_handshake_init (pa @ na) = Inr \<lparr>hi_eph_pk = pa, hi_nonce = na\<rparr>"
    "parse_link_handshake_resp (pb @ nb) = Inr \<lparr>hr_eph_pk = pb, hr_nonce = nb\<rparr>"
    using i r by (simp_all add: parse_link_handshake_init_def parse_link_handshake_resp_def link_values)
  have t: "from_messages \<lparr>hi_eph_pk = pa, hi_nonce = na\<rparr> \<lparr>hr_eph_pk = pb, hr_nonce = nb\<rparr> = t" by (simp add: from_messages_def t_def)
  have w: "write_all_timeout (pa @ na) (s\<lparr>st_in := x\<rparr>) = (Inr (), s\<lparr>st_in := x, st_out := st_out s @ pa @ na, st_room := st_room s - 48\<rparr>)" for x
    using room i by (simp add: write_all_timeout_def)
  have rd: "read_exact_timeout LINK_HANDSHAKE_RESP_LEN (s'\<lparr>st_in := (pb @ nb) @ x, st_out := o', st_room := m\<rparr>)
      = (Inr (pb @ nb), s'\<lparr>st_in := x, st_out := o', st_room := m\<rparr>)" for s' :: stream and x o' m
    using r by (simp add: read_exact_timeout_def link_values)
  have w2: "length mac = 32 \<Longrightarrow> write_all_timeout mac (s\<lparr>st_in := x, st_out := o', st_room := st_room s - 48\<rparr>)
      = (Inr (), s\<lparr>st_in := x, st_out := o' @ mac, st_room := st_room s - 80\<rparr>)" for mac x o'
    using room by (simp add: write_all_timeout_def)
  have rd2: "length mac = 32 \<Longrightarrow> read_exact_timeout LINK_HANDSHAKE_FINISH_LEN (s\<lparr>st_in := mac, st_out := o', st_room := m\<rparr>)
      = (Inr mac, s\<lparr>st_in := [], st_out := o', st_room := m\<rparr>)" for mac o' m
    by (simp add: read_exact_timeout_def link_values)
  have pm: "parse_link_handshake_mac (link_handshake_finish_mac (lib_sha3_256 L) psk t ?b) = Inr (link_handshake_finish_mac (lib_sha3_256 L) psk t ?b)"
    using mac_length(2)[OF L] by (simp add: parse_link_handshake_mac_def link_values)
  have v: "verify_link_handshake_finish_mac (lib_sha3_256 L) psk t ?b (link_handshake_finish_mac (lib_sha3_256 L) psk t ?b)"
    by (simp add: verify_link_handshake_finish_mac_def verify_handshake_mac_def link_handshake_finish_mac_def)
  show ?thesis
    using legacy unfolding run_initiator_handshake_def i Let_def prod.case p crypto_then_simps w io_then_simps rd t w2[OF mac_length(1)[OF L]]
      rd2[OF mac_length(2)[OF L]] pm
    by (simp add: v)
qed

text \<open>The responder on a stream that holds the initiator's two messages.\<close>

lemma responder_run:
  assumes L: "lib_lengths L" and legacy: "\<not> responder_selects_noise c" and kem: "require_ingress_kem_commitment c \<longrightarrow> kem \<noteq> None"
    and room: "80 \<le> st_room s"
    and r: "link_handshake_resp_write L rng = ((b, pb @ nb), rng')" "length pb = 32" "length nb = 16"
    and i: "length pa = 32" "length na = 16" and mac: "length conf = 32"
  defines "t \<equiv> \<lparr>initiator_eph_pk = pa, initiator_nonce = na, responder_eph_pk = pb, responder_nonce = nb\<rparr>"
  assumes found: "find (\<lambda>(psk, _). verify_link_handshake_confirm_mac (lib_sha3_256 L) psk t (link_handshake_binding c rid kem) conf)
      (psk_candidates ingress table) = Some (psk, m)"
  shows "run_responder_handshake L N (s\<lparr>st_in := (pa @ na) @ conf @ frames\<rparr>) rid kem ingress table rng c health
    = ((Inr (derive_link_session_key L b pa t, m),
        s\<lparr>st_in := frames, st_out := st_out s @ (pb @ nb) @ link_handshake_finish_mac (lib_sha3_256 L) psk t (link_handshake_binding c rid kem),
          st_room := st_room s - 80\<rparr>, record_inbound_handshake_outcome health m True), rng')"
proof -
  let ?b = "link_handshake_binding c rid kem"
  have p: "parse_link_handshake_init (pa @ na) = Inr \<lparr>hi_eph_pk = pa, hi_nonce = na\<rparr>"
    "parse_link_handshake_resp (pb @ nb) = Inr \<lparr>hr_eph_pk = pb, hr_nonce = nb\<rparr>" "parse_link_handshake_mac conf = Inr conf"
    using i r mac by (simp_all add: parse_link_handshake_init_def parse_link_handshake_resp_def parse_link_handshake_mac_def link_values)
  have t: "from_messages \<lparr>hi_eph_pk = pa, hi_nonce = na\<rparr> \<lparr>hr_eph_pk = pb, hr_nonce = nb\<rparr> = t" by (simp add: from_messages_def t_def)
  have ver: "verify_link_handshake_confirm_mac (lib_sha3_256 L) psk t ?b conf" using found by (auto simp: find_Some_iff)
  have fin: "link_handshake_responder_finish L psk b \<lparr>hi_eph_pk = pa, hi_nonce = na\<rparr> \<lparr>hr_eph_pk = pb, hr_nonce = nb\<rparr> conf ?b
      = Inr (derive_link_session_key L b pa t)"
    unfolding link_handshake_responder_finish_def p(3) t by (simp add: ver t)
  have rd: "read_exact_timeout LINK_HANDSHAKE_INIT_LEN (s\<lparr>st_in := (pa @ na) @ x\<rparr>) = (Inr (pa @ na), s\<lparr>st_in := x\<rparr>)" for x
    using i by (simp add: read_exact_timeout_def link_values)
  have w: "write_all_timeout (pb @ nb) (s\<lparr>st_in := x\<rparr>) = (Inr (), s\<lparr>st_in := x, st_out := st_out s @ pb @ nb, st_room := st_room s - 48\<rparr>)" for x
    using room r by (simp add: write_all_timeout_def)
  have rd2: "read_exact_timeout LINK_HANDSHAKE_CONFIRM_LEN (s\<lparr>st_in := conf @ x, st_out := o', st_room := m\<rparr>)
      = (Inr conf, s\<lparr>st_in := x, st_out := o', st_room := m\<rparr>)" for x o' m
    using mac by (simp add: read_exact_timeout_def link_values)
  have w2: "length mac = 32 \<Longrightarrow> write_all_timeout mac (s\<lparr>st_in := x, st_out := o', st_room := st_room s - 48\<rparr>)
      = (Inr (), s\<lparr>st_in := x, st_out := o' @ mac, st_room := st_room s - 80\<rparr>)" for mac x o'
    using room by (simp add: write_all_timeout_def)
  show ?thesis
    using legacy kem unfolding run_responder_handshake_def rd prod.case sum.case r(1) p Let_def crypto_then_simps w with_health_simp io_then_simps rd2 t found
      option.case fin w2[OF mac_length(2)[OF L]]
    by (auto simp: found fin w2[OF mac_length(2)[OF L]])
qed

text \<open>The transcript of two messages.\<close>

definition transcript_of :: "bytes \<Rightarrow> bytes \<Rightarrow> LinkHandshakeTranscript" where
  "transcript_of im rm = \<lparr>initiator_eph_pk = take 32 im, initiator_nonce = drop 32 im,
     responder_eph_pk = take 32 rm, responder_nonce = drop 32 rm\<rparr>"

lemma confirm_binds:
  assumes L: "lib_lengths L" and wf: "wf_transcript t" "wf_transcript t'" "wf_binding b" "wf_binding b'"
    and ver: "verify_link_handshake_confirm_mac (lib_sha3_256 L) psk t b (link_handshake_confirm_mac (lib_sha3_256 L) psk' t' b')"
  shows "(psk = psk' \<and> t = t' \<and> b = b') \<or> mac_clash (lib_sha3_256 L) ROLE_INITIATOR (psk, t, b) (psk', t', b')"
  using mac_binds[OF sha3_length[OF L] wf, where psk = psk and psk' = psk' and role = ROLE_INITIATOR] ver
  by (simp only: verify_link_handshake_confirm_mac_def verify_handshake_mac_def link_handshake_confirm_mac_def)

lemma find_SomeD: "find P xs = Some y \<Longrightarrow> y \<in> set xs \<and> P y"
  by (induction xs) (auto split: if_splits)

lemma find_exists: "x \<in> set xs \<Longrightarrow> P x \<Longrightarrow> \<exists>y. find P xs = Some y"
  by (metis find_None_iff not_Some_eq)

lemma handshakes_agree:
  assumes L: "lib_lengths L" and dh: "lib_dh_commutes L"
    and legacy: "\<not> initiator_selects_noise ci pn" "\<not> responder_selects_noise cr" and bind: "identity_binding ci = identity_binding cr"
    and kem: "require_ingress_kem_commitment cr \<longrightarrow> kem \<noteq> None" "\<And>k. kem = Some k \<Longrightarrow> length k = 32" and rid: "length rid = 32"
    and psk: "(psk, m) \<in> set (psk_candidates ingress table)"
    and i: "link_handshake_init_write L rng_i = ((a, im), rng_i')" and r: "link_handshake_resp_write L rng_r = ((b, rm), rng_r')"
    and room: "80 \<le> st_room s_i" "80 \<le> st_room s_r"
    and nc: "\<And>k. k \<in> fst ` set (psk_candidates ingress table) \<Longrightarrow> \<not> mac_clash (lib_sha3_256 L) ROLE_INITIATOR
        (k, transcript_of im rm, link_handshake_binding cr rid kem) (psk, transcript_of im rm, link_handshake_binding cr rid kem)"
  shows "\<exists>conf fin key m'. (psk, m') \<in> set (psk_candidates ingress table)
    \<and> conf = link_handshake_confirm_mac (lib_sha3_256 L) psk (transcript_of im rm) (link_handshake_binding cr rid kem)
    \<and> run_initiator_handshake L N (s_i\<lparr>st_in := rm @ fin\<rparr>) psk rid kem pn rng_i ci
      = ((Inr key, s_i\<lparr>st_in := [], st_out := st_out s_i @ im @ conf, st_room := st_room s_i - 80\<rparr>), rng_i')
    \<and> (\<forall>frames. run_responder_handshake L N (s_r\<lparr>st_in := im @ conf @ frames\<rparr>) rid kem ingress table rng_r cr health
      = ((Inr (key, m'), s_r\<lparr>st_in := frames, st_out := st_out s_r @ rm @ fin, st_room := st_room s_r - 80\<rparr>,
          record_inbound_handshake_outcome health m' True), rng_r'))"
proof -
  let ?H = "lib_sha3_256 L" and ?b = "link_handshake_binding cr rid kem"
  obtain pa na where i': "link_handshake_init_write L rng_i = ((a, pa @ na), rng_i')" "im = pa @ na" "pa = lib_x25519_public L a"
      "length pa = 32" "length na = 16"
    using handshake_write[OF L disjI1[OF i]] i by auto
  obtain pb nb where r': "link_handshake_resp_write L rng_r = ((b, pb @ nb), rng_r')" "rm = pb @ nb" "pb = lib_x25519_public L b"
      "length pb = 32" "length nb = 16"
    using handshake_write[OF L disjI2[OF r]] r by auto
  let ?t = "\<lparr>initiator_eph_pk = pa, initiator_nonce = na, responder_eph_pk = pb, responder_nonce = nb\<rparr>"
  let ?conf = "link_handshake_confirm_mac ?H psk ?t ?b" and ?fin = "link_handshake_finish_mac ?H psk ?t ?b"
  have t: "transcript_of im rm = ?t" using i'(2,4) r'(2,4) by (simp add: transcript_of_def)
  have b: "link_handshake_binding ci rid kem = ?b" by (rule link_handshake_binding_cong[OF bind])
  have key: "derive_link_session_key L a pb ?t = derive_link_session_key L b pa ?t"
    using dh i'(3) r'(3) by (simp add: derive_link_session_key_def lib_dh_commutes_def)
  let ?P = "\<lambda>(k, _ :: bytes option). verify_link_handshake_confirm_mac ?H k ?t ?b ?conf"
  have "?P (psk, m)" by (simp add: verify_link_handshake_confirm_mac_def verify_handshake_mac_def link_handshake_confirm_mac_def)
  from find_exists[where P = ?P, OF psk this] obtain y where "find ?P (psk_candidates ingress table) = Some y" by (rule exE)
  then obtain k m' where found: "find ?P (psk_candidates ingress table) = Some (k, m')" by (cases y) simp
  have mem: "(k, m') \<in> set (psk_candidates ingress table)" by (rule conjunct1[OF find_SomeD[OF found]])
  have ver: "verify_link_handshake_confirm_mac ?H k ?t ?b ?conf" using conjunct2[OF find_SomeD[OF found]] by (simp only: prod.case)
  have wft: "wf_transcript ?t" using i'(4,5) r'(4,5) by (simp add: wf_transcript_def)
  have wfb: "wf_binding ?b" by (rule wf_link_binding[OF rid kem(2)])
  have "k = psk" using confirm_binds[OF L wft wft wfb wfb ver] nc[OF image_eqI[OF _ mem], of k] by (simp add: t)
  have ri: "run_initiator_handshake L N (s_i\<lparr>st_in := rm @ ?fin\<rparr>) psk rid kem pn rng_i ci
      = ((Inr (derive_link_session_key L a pb ?t), s_i\<lparr>st_in := [], st_out := st_out s_i @ im @ ?conf, st_room := st_room s_i - 80\<rparr>), rng_i')"
    unfolding i'(2) r'(2) using initiator_run[OF L legacy(1) room(1) i'(1,4,5) r'(4,5), where psk = psk and rid = rid and kem = kem] by (simp only: b)
  have rr: "run_responder_handshake L N (s_r\<lparr>st_in := im @ ?conf @ frames\<rparr>) rid kem ingress table rng_r cr health
    = ((Inr (derive_link_session_key L a pb ?t, m'), s_r\<lparr>st_in := frames, st_out := st_out s_r @ rm @ ?fin, st_room := st_room s_r - 80\<rparr>,
        record_inbound_handshake_outcome health m' True), rng_r')" for frames
    unfolding i'(2) r'(2) key
    using responder_run[OF L legacy(2) kem(1) room(2) r'(1,4,5) i'(4,5) mac_length(1)[OF L] found] \<open>k = psk\<close> by simp
  show ?thesis unfolding t using mem \<open>k = psk\<close> ri rr by blast
qed

text \<open>A run over the toy library, with one shared ingress key.\<close>

definition toy_aead :: aead_lib where
  "toy_aead = \<lparr>aead_encrypt = (\<lambda>key nonce aad msg. Some (msg @ replicate 16 (sum_list key))),
     aead_decrypt = (\<lambda>key nonce aad ct. if drop CELL_LEN ct = replicate 16 (sum_list key) then Some (take CELL_LEN ct) else None)\<rparr>"

lemma toy_aead_laws: "aead_laws toy_aead"
  by (simp add: aead_laws_def toy_aead_def)

definition toy_noise :: "unit noise_lib" where
  "toy_noise = \<lparr>snow_build_initiator = (\<lambda>_ _. Inl SnowOther), snow_build_responder = (\<lambda>_. Inl SnowOther),
     snow_write_message = (\<lambda>h. (Inl SnowOther, h)), snow_read_message = (\<lambda>h _. (Inl SnowOther, h)), snow_remote_static = (\<lambda>_. None),
     snow_finished = (\<lambda>_. False), snow_handshake_hash = (\<lambda>_. []), snow_public = id\<rparr>"

definition toy_stream :: stream where
  "toy_stream = \<lparr>st_in = [], st_out = [], st_room = 100, st_eof = False\<rparr>"

definition toy_config :: LinkBridgeConfig where
  "toy_config = bridge_config_default\<lparr>handshake := LegacyPsk\<rparr>"

definition toy_psk :: bytes where "toy_psk = replicate 32 5"
definition toy_init :: bytes where "toy_init = snd (fst (link_handshake_init_write toy_lib 3))"
definition toy_resp :: bytes where "toy_resp = snd (fst (link_handshake_resp_write toy_lib 8))"

lemma toy_init_write: "\<exists>a r. link_handshake_init_write toy_lib 3 = ((a, toy_init), r)"
  unfolding toy_init_def by (metis prod.collapse)

lemma toy_resp_write: "\<exists>b r. link_handshake_resp_write toy_lib 8 = ((b, toy_resp), r)"
  unfolding toy_resp_def by (metis prod.collapse)

lemma toy_candidates: "psk_candidates (Some toy_psk) [] = [(toy_psk, None)]"
  by (simp add: psk_candidates_def)

lemma mac_clash_refl [simp]: "\<not> mac_clash H role x x"
  by (cases x) (simp add: digest_clash_def)

text \<open>
  C27. Who is at the other end: if the responder accepts, and the confirmation it accepted was computed by someone from a key, a
  transcript and an identity binding, then the key is the one the link is attributed to, the transcript is the one of this
  connection with the responder's own fresh share, and the identity is this relay's, unless the two confirmations are a collision of
  the digest.
\<close>

theorem link_handshake_authentic:
  assumes "lib_lengths L" "\<not> responder_selects_noise c" "length rid = 32" "\<And>k. kem = Some k \<Longrightarrow> length k = 32"
    and "run_responder_handshake L N s rid kem ingress table rng c health = ((Inr (key, m), st), rng')"
    and "wf_transcript t" "wf_binding b"
    and "take 32 (drop 48 (st_in s)) = link_handshake_confirm_mac (lib_sha3_256 L) psk t b"
  shows "\<exists>k. (k, m) \<in> set (psk_candidates ingress table) \<and>
    (let t' = transcript_of (take 48 (st_in s)) (snd (fst (link_handshake_resp_write L rng))); b' = link_handshake_binding c rid kem
     in (k = psk \<and> t' = t \<and> b' = b) \<or> mac_clash (lib_sha3_256 L) ROLE_INITIATOR (k, t', b') (psk, t, b))"
proof -
  let ?H = "lib_sha3_256 L" and ?b = "link_handshake_binding c rid kem"
  obtain sk pb nb rng1 where r: "link_handshake_resp_write L rng = ((sk, pb @ nb), rng1)" "length pb = 32" "length nb = 16"
    using handshake_write[OF assms(1), of rng] by (metis prod.collapse)
  have p: "parse_link_handshake_resp (pb @ nb) = Inr \<lparr>hr_eph_pk = pb, hr_nonce = nb\<rparr>"
    using r by (simp add: parse_link_handshake_resp_def link_values)
  have len: "80 \<le> length (st_in s)"
    using assms(2,5) r(1) p
    by (auto simp: run_responder_handshake_def read_exact_timeout_def io_then_def crypto_then_def write_all_timeout_def link_values with_health_def
        split: if_splits sum.splits option.splits)
  let ?pa = "take 32 (st_in s)" and ?na = "take 16 (drop 32 (st_in s))" and ?conf = "take 32 (drop 48 (st_in s))"
  let ?t = "\<lparr>initiator_eph_pk = ?pa, initiator_nonce = ?na, responder_eph_pk = pb, responder_nonce = nb\<rparr>"
  have im: "take 48 (st_in s) = ?pa @ ?na" using take_add[of 32 16 "st_in s"] by simp
  have pi: "parse_link_handshake_init (take 48 (st_in s)) = Inr \<lparr>hi_eph_pk = ?pa, hi_nonce = ?na\<rparr>"
    using len unfolding im by (simp add: parse_link_handshake_init_def link_values)
  have pc: "parse_link_handshake_mac ?conf = Inr ?conf" using len by (simp add: parse_link_handshake_mac_def link_values)
  have tr: "from_messages \<lparr>hi_eph_pk = ?pa, hi_nonce = ?na\<rparr> \<lparr>hr_eph_pk = pb, hr_nonce = nb\<rparr> = ?t" by (simp add: from_messages_def)
  have rd: "read_exact_timeout LINK_HANDSHAKE_INIT_LEN s = (Inr (take 48 (st_in s)), s\<lparr>st_in := drop 48 (st_in s)\<rparr>)"
    using len by (simp add: read_exact_timeout_def link_values)
  obtain k where k: "find (\<lambda>(psk, _). verify_link_handshake_confirm_mac ?H psk ?t ?b ?conf) (psk_candidates ingress table) = Some (k, m)"
    using assms(2,5) len
    unfolding run_responder_handshake_def rd prod.case sum.case pi r(1) Let_def p crypto_then_simps
    by (auto simp: write_all_timeout_def io_then_def with_health_def read_exact_timeout_def link_values pc[unfolded link_values] crypto_then_def tr
        parse_link_handshake_mac_def
        split: if_splits option.splits sum.splits)
  have mem: "(k, m) \<in> set (psk_candidates ingress table)" by (rule conjunct1[OF find_SomeD[OF k]])
  have ver: "verify_link_handshake_confirm_mac ?H k ?t ?b ?conf" using conjunct2[OF find_SomeD[OF k]] by (simp only: prod.case)
  have wft: "wf_transcript ?t" using len r by (simp add: wf_transcript_def)
  have wfb: "wf_binding ?b" by (rule wf_link_binding[OF assms(3,4)])
  have t': "transcript_of (take 48 (st_in s)) (snd (fst (link_handshake_resp_write L rng))) = ?t"
    using len r by (simp add: transcript_of_def im)
  show ?thesis
    unfolding t' Let_def using mem confirm_binds[OF assms(1) wft assms(6) wfb assms(7) ver[unfolded assms(8)]] by blast
qed

theorem link_handshake_authentic_witness:
  "\<exists>k key m st rng'. run_responder_handshake toy_lib toy_noise
      (toy_stream\<lparr>st_in := toy_init @ link_handshake_confirm_mac (lib_sha3_256 toy_lib) toy_psk (transcript_of toy_init toy_resp)
        (link_handshake_binding toy_config (replicate 32 1) None)\<rparr>) (replicate 32 1) None (Some toy_psk) [] 8 toy_config None
      = ((Inr (key, m), st), rng')
    \<and> (k, m) \<in> set (psk_candidates (Some toy_psk) [])
    \<and> (let t' = transcript_of (take 48 toy_init) (snd (fst (link_handshake_resp_write toy_lib 8)));
           b' = link_handshake_binding toy_config (replicate 32 1) None
       in (k = toy_psk \<and> t' = transcript_of toy_init toy_resp \<and> b' = link_handshake_binding toy_config (replicate 32 1) None)
         \<or> mac_clash (lib_sha3_256 toy_lib) ROLE_INITIATOR (k, t', b')
             (toy_psk, transcript_of toy_init toy_resp, link_handshake_binding toy_config (replicate 32 1) None))"
proof -
  let ?b = "link_handshake_binding toy_config (replicate 32 1) None" and ?t = "transcript_of toy_init toy_resp"
  let ?conf = "link_handshake_confirm_mac (lib_sha3_256 toy_lib) toy_psk ?t ?b"
  obtain a r where i: "link_handshake_init_write toy_lib 3 = ((a, toy_init), r)" using toy_init_write by blast
  obtain b r' where r: "link_handshake_resp_write toy_lib 8 = ((b, toy_resp), r')" using toy_resp_write by blast
  have len: "length toy_init = 48" "length toy_resp = 48"
    by (rule handshake_write_length[OF toy_laws(1) disjI1[OF i]], rule handshake_write_length[OF toy_laws(1) disjI2[OF r]])
  have cfg: "\<not> responder_selects_noise toy_config" "\<not> initiator_selects_noise toy_config None" "\<not> require_ingress_kem_commitment toy_config"
    by (simp_all add: initiator_selects_noise_def responder_selects_noise_def toy_config_def bridge_config_default_def)
  have "\<exists>conf fin key m'. (toy_psk, m') \<in> set (psk_candidates (Some toy_psk) []) \<and> conf = ?conf
    \<and> run_initiator_handshake toy_lib toy_noise (toy_stream\<lparr>st_in := toy_resp @ fin\<rparr>) toy_psk (replicate 32 1) None None 3 toy_config
      = ((Inr key, toy_stream\<lparr>st_in := [], st_out := st_out toy_stream @ toy_init @ conf, st_room := st_room toy_stream - 80\<rparr>), r)
    \<and> (\<forall>frames. run_responder_handshake toy_lib toy_noise (toy_stream\<lparr>st_in := toy_init @ conf @ frames\<rparr>) (replicate 32 1) None (Some toy_psk) [] 8
        toy_config None
      = ((Inr (key, m'), toy_stream\<lparr>st_in := frames, st_out := st_out toy_stream @ toy_resp @ fin, st_room := st_room toy_stream - 80\<rparr>,
          record_inbound_handshake_outcome None m' True), r'))"
    by (rule handshakes_agree[OF toy_laws(1,2) cfg(2,1) _ _ _ _ _ i r]) (use cfg in \<open>simp_all add: toy_stream_def toy_candidates\<close>)
  then obtain key m st where run: "run_responder_handshake toy_lib toy_noise (toy_stream\<lparr>st_in := toy_init @ ?conf\<rparr>) (replicate 32 1) None
      (Some toy_psk) [] 8 toy_config None = ((Inr (key, m), st), r')"
    by (metis append_Nil2)
  have wf: "wf_transcript ?t" "wf_binding ?b"
    using len wf_link_binding[of "replicate 32 1" None toy_config] by (simp_all add: wf_transcript_def transcript_of_def)
  have c: "take 32 (drop 48 (st_in (toy_stream\<lparr>st_in := toy_init @ ?conf\<rparr>))) = ?conf"
    using len mac_length(1)[OF toy_laws(1)] by simp
  have i48: "take 48 (st_in (toy_stream\<lparr>st_in := toy_init @ ?conf\<rparr>)) = take 48 toy_init" using len by simp
  show ?thesis
    using run link_handshake_authentic[OF toy_laws(1) cfg(1) _ _ run wf c, unfolded i48] by auto
qed

section \<open>The modes of the two ends\<close>

text \<open>
  With \<open>AutoMode\<close> on both sides the ends may disagree: a responder with a static secret of its own demands Noise from an
  initiator that has no key for it and starts the other protocol.
\<close>

lemma auto_modes_may_disagree:
  assumes "handshake ci = AutoMode" "handshake cr = AutoMode" "noise_static_secret cr \<noteq> None"
    and "noise_static_secret ci = None \<or> peer_noise = None"
  shows "responder_selects_noise cr \<and> \<not> initiator_selects_noise ci peer_noise"
  using assms by (auto simp: responder_selects_noise_def initiator_selects_noise_def)

end
