(* ===== verification/Link_Inbound.thy ===== *)
theory Link_Inbound
  imports Link_Handshake Fair_Queue Quorum_Log
begin

text \<open>
  Cells on a hop link, \<^verbatim>\<open>crates/aegis-relay/src/net.rs\<close>: the writers, and the loop of an inbound connection that rate-limits, opens,
  filters and reassembles frames and puts the packets on its queue. \<open>flush\<close> on a TCP stream does nothing. What the connections
  share (health tracker, quorum log and its file, hub, counters, global bucket) is one record.
\<close>

section \<open>Writers\<close>

definition send_link_cell ::
    "aead_lib \<Rightarrow> ('r \<Rightarrow> nat \<Rightarrow> bytes \<times> 'r) \<Rightarrow> LinkKey \<Rightarrow> Cell \<Rightarrow> stream \<times> 'r \<Rightarrow> (NetError, unit) result \<times> stream \<times> 'r" where
  "send_link_cell A fill key cell st =
     (let (s, rng) = st; (r, rng) = link_seal A fill key cell rng in
      case r of Inl e \<Rightarrow> (Inl (NetCrypto e), s, rng)
      | Inr frame \<Rightarrow> (let (w, s) = write_all_timeout frame s in (w, s, rng)))"

fun write_cells ::
    "aead_lib \<Rightarrow> ('r \<Rightarrow> nat \<Rightarrow> bytes \<times> 'r) \<Rightarrow> LinkKey \<Rightarrow> Cell list \<Rightarrow> stream \<times> 'r \<Rightarrow> (NetError, unit) result \<times> stream \<times> 'r" where
  "write_cells A fill key [] st = (Inr (), st)"
| "write_cells A fill key (c # cs) st = io_then (send_link_cell A fill key c st) (\<lambda>_ st. write_cells A fill key cs st)"

definition write_packet_with_key ::
    "aead_lib \<Rightarrow> ('r \<Rightarrow> nat \<Rightarrow> bytes \<times> 'r) \<Rightarrow> LinkKey \<Rightarrow> SphinxPacket \<Rightarrow> stream \<times> 'r \<Rightarrow> (NetError, unit) result \<times> stream \<times> 'r" where
  "write_packet_with_key A fill key p st =
     (let (s, rng) = st; ((cells, _), rng) = fragment_with_random_id fill p rng in write_cells A fill key cells (s, rng))"

text \<open>Cover and gossip cells: all but the first wait for the pace. The last component is the clock.\<close>

fun write_cells_paced ::
    "aead_lib \<Rightarrow> ('r \<Rightarrow> nat \<Rightarrow> bytes \<times> 'r) \<Rightarrow> LinkKey \<Rightarrow> nat \<Rightarrow> nat \<Rightarrow> Cell list \<Rightarrow> stream \<times> 'r \<Rightarrow> nat
      \<Rightarrow> (NetError, unit) result \<times> (stream \<times> 'r) \<times> nat" where
  "write_cells_paced A fill key pace i [] st now = (Inr (), st, now)"
| "write_cells_paced A fill key pace i (c # cs) st now =
     (let now = (if i > 0 \<and> pace \<noteq> 0 then now + pace else now) in
      case send_link_cell A fill key c st of
        (Inl e, st) \<Rightarrow> (Inl e, st, now)
      | (Inr _, st) \<Rightarrow> write_cells_paced A fill key pace (i + 1) cs st now)"

definition write_cells_on_stream ::
    "aead_lib \<Rightarrow> ('r \<Rightarrow> nat \<Rightarrow> bytes \<times> 'r) \<Rightarrow> LinkKey \<Rightarrow> Cell list \<Rightarrow> nat \<Rightarrow> stream \<times> 'r \<Rightarrow> nat
      \<Rightarrow> (NetError, unit) result \<times> (stream \<times> 'r) \<times> nat" where
  "write_cells_on_stream A fill key cells pace st now = write_cells_paced A fill key pace 0 cells st now"

text \<open>\<open>read_one_packet\<close>: \<open>n\<close> frames are left to read.\<close>

fun read_packet_loop :: "aead_lib \<Rightarrow> LinkKey \<Rightarrow> nat \<Rightarrow> SphinxReassembler \<Rightarrow> stream \<Rightarrow> (NetError, SphinxPacket) result \<times> stream" where
  "read_packet_loop A key 0 r s = (Inl (NetCrypto (CryptoMalformed ''incomplete packet'')), s)"
| "read_packet_loop A key (Suc n) r s =
     io_then (read_exact_timeout LINK_FRAME_LEN s) (\<lambda>frame s.
     crypto_then (link_open A key frame) s (\<lambda>cell.
       case push r cell of
         (Inl e, _) \<Rightarrow> (Inl (NetFragment e), s)
       | (Inr (Some p), _) \<Rightarrow> (Inr p, s)
       | (Inr None, r) \<Rightarrow> read_packet_loop A key n r s))"

definition read_one_packet :: "aead_lib \<Rightarrow> LinkKey \<Rightarrow> stream \<Rightarrow> (NetError, SphinxPacket) result \<times> stream" where
  "read_one_packet A key s = read_packet_loop A key SPHINX_FRAGMENT_COUNT reassembler_new s"

section \<open>An inbound connection\<close>

record bridge_state =
  br_health :: "PeerHealthTracker option"
  br_quorum :: "(HealthQuorumLog \<times> bytes) option"
  br_slots :: "SphinxPacket slots"
  br_queue_dropped :: u64
  br_global :: "TokenBucket option"
  br_rate_dropped :: u64

record inbound_conn =
  ic_key :: LinkKey
  ic_peer :: "bytes option"
  ic_slot :: nat
  ic_reassembler :: SphinxReassembler
  ic_rate :: InboundRateLimitState

text \<open>\<open>FairPeerSender::try_enqueue\<close>: it fails when the receiver is gone.\<close>

definition peer_try_enqueue :: "nat \<Rightarrow> SphinxPacket \<Rightarrow> bridge_state \<Rightarrow> bool \<times> bridge_state" where
  "peer_try_enqueue i p br =
     (let (slots, dropped) = slot_enqueue PER_PEER_INBOUND_CAPACITY i p (br_slots br) (br_queue_dropped br) in
      (i < length (br_slots br) \<and> br_slots br ! i \<noteq> None, br\<lparr>br_slots := slots, br_queue_dropped := dropped\<rparr>))"

text \<open>A gossip cell: nothing it does ends the connection.\<close>

definition inbound_gossip ::
    "('sk, 'vk) sig_lib \<Rightarrow> (string \<times> nat) option \<Rightarrow> LinkBridgeConfig \<Rightarrow> (bytes \<times> PeerInfo) list \<Rightarrow> u64 \<Rightarrow> bytes option \<Rightarrow> Cell
      \<Rightarrow> bridge_state \<Rightarrow> bridge_state" where
  "inbound_gossip S io c peer_table wall matched cell br =
     (case (br_health br, matched) of
        (Some t, Some link_peer) \<Rightarrow>
          (case from_cell cell of
             Inl _ \<Rightarrow> br
           | Inr a \<Rightarrow>
               (case br_quorum br of
                  Some (l, disk) \<Rightarrow>
                    (case accept_advert_quorum S io a link_peer peer_table wall DEFAULT_MAX_ADVERT_AGE_SECS (gossip_epoch_secs c) t (Some l) disk of
                       (_, t, l', disk) \<Rightarrow> br\<lparr>br_health := Some t, br_quorum := map_option (\<lambda>l. (l, disk)) l'\<rparr>)
                | None \<Rightarrow>
                    (case accept_advert S a link_peer peer_table wall DEFAULT_MAX_ADVERT_AGE_SECS t of
                       (_, t) \<Rightarrow> br\<lparr>br_health := Some t\<rparr>)))
      | _ \<Rightarrow> br)"

text \<open>One iteration: \<open>None\<close> goes on, \<open>Some\<close> ends the connection. The clock is read once per bucket, and as wall time.\<close>

type_synonym clock = "nat \<times> nat \<times> u64"

definition inbound_frame ::
    "aead_lib \<Rightarrow> ('sk, 'vk) sig_lib \<Rightarrow> (string \<times> nat) option \<Rightarrow> LinkBridgeConfig \<Rightarrow> (bytes \<times> PeerInfo) list \<Rightarrow> clock \<Rightarrow> bytes
      \<Rightarrow> inbound_conn \<Rightarrow> bridge_state \<Rightarrow> (NetError, unit) result option \<times> inbound_conn \<times> bridge_state" where
  "inbound_frame A S io c peer_table clk frame conn br =
     (let (now, now', wall) = clk;
          (allowed, rate, global, dropped) = allow_frame now now' (ic_rate conn) (br_global br) (br_rate_dropped br);
          conn = conn\<lparr>ic_rate := rate\<rparr>; br = br\<lparr>br_global := global, br_rate_dropped := dropped\<rparr>
      in if \<not> allowed then (None, conn, br)
         else case link_open A (ic_key conn) frame of
           Inl e \<Rightarrow> (Some (Inl (NetCrypto e)), conn, br)
         | Inr cell \<Rightarrow>
             (case command_from_u8 (cell ! 0) of
                Some DropCell \<Rightarrow> (None, conn, br)
              | Some LoopToSelf \<Rightarrow> (None, conn, br)
              | Some Command.PeerHealthAdvert \<Rightarrow> (None, conn, inbound_gossip S io c peer_table wall (ic_peer conn) cell br)
              | Some SphinxFragment \<Rightarrow>
                  if is_discard_cover_fragment cell then (None, conn, br)
                  else (case push (ic_reassembler conn) cell of
                      (Inl e, r) \<Rightarrow> (Some (Inl (NetFragment e)), conn\<lparr>ic_reassembler := r\<rparr>, br)
                    | (Inr None, r) \<Rightarrow> (None, conn\<lparr>ic_reassembler := r\<rparr>, br)
                    | (Inr (Some p), r) \<Rightarrow>
                        (let (sent, br) = peer_try_enqueue (ic_slot conn) p br in
                         (if sent then None else Some (Inr ()), conn\<lparr>ic_reassembler := r\<rparr>, br)))
              | _ \<Rightarrow> (None, conn, br)))"

text \<open>The loop, one clock reading per iteration; it is still running when the readings are used up.\<close>

fun inbound_loop ::
    "aead_lib \<Rightarrow> ('sk, 'vk) sig_lib \<Rightarrow> (string \<times> nat) option \<Rightarrow> LinkBridgeConfig \<Rightarrow> (bytes \<times> PeerInfo) list \<Rightarrow> clock list
      \<Rightarrow> stream \<Rightarrow> inbound_conn \<Rightarrow> bridge_state \<Rightarrow> (NetError, unit) result option \<times> inbound_conn \<times> bridge_state" where
  "inbound_loop A S io c peer_table [] s conn br = (None, conn, br)"
| "inbound_loop A S io c peer_table (clk # clks) s conn br =
     (case read_exact_timeout LINK_FRAME_LEN s of
        (Inl e, _) \<Rightarrow> (Some (Inl e), conn, br)
      | (Inr frame, s) \<Rightarrow>
          (case inbound_frame A S io c peer_table clk frame conn br of
             (None, conn, br) \<Rightarrow> inbound_loop A S io c peer_table clks s conn br
           | (Some r, conn, br) \<Rightarrow> (Some r, conn, br)))"

definition run_inbound_connection ::
    "('xs, 'ms, 'mp, 'r) crypto_lib \<Rightarrow> 'h noise_lib \<Rightarrow> aead_lib \<Rightarrow> ('sk, 'vk) sig_lib \<Rightarrow> (string \<times> nat) option \<Rightarrow> stream \<Rightarrow> bytes
      \<Rightarrow> bytes option \<Rightarrow> (bytes \<times> PeerInfo) list \<Rightarrow> bytes option \<Rightarrow> nat \<Rightarrow> LinkBridgeConfig \<Rightarrow> 'r \<Rightarrow> nat \<Rightarrow> clock list \<Rightarrow> bridge_state
      \<Rightarrow> (NetError, unit) result option \<times> bridge_state" where
  "run_inbound_connection L N A S io s local_id local_kem peer_table ingress slot_id c rng start clks br =
     (case run_responder_handshake L N s local_id local_kem ingress peer_table rng c (br_health br) of
        ((Inl e, _, health), _) \<Rightarrow> (Some (Inl e), br\<lparr>br_health := health\<rparr>)
      | ((Inr (key, matched), s, health), _) \<Rightarrow>
          (let br = br\<lparr>br_health := health, br_slots := slot_set_weight slot_id (peer_queue_weight_for matched health) (br_slots br)\<rparr>;
               conn = \<lparr>ic_key = key, ic_peer = matched, ic_slot = slot_id, ic_reassembler = reassembler_new,
                 ic_rate = rate_limit_new (ingress_rate_limit c) start\<rparr>;
               (r, _, br) = inbound_loop A S io c peer_table clks s conn br
           in (r, br)))"

text \<open>The accept loop: a connection takes one of the permits and a queue, or is dropped.\<close>

record listener_state =
  li_active :: nat
  li_bridge :: bridge_state

definition accept_connection :: "LinkBridgeConfig \<Rightarrow> listener_state \<Rightarrow> nat option \<times> listener_state" where
  "accept_connection c li =
     (if li_active li < max_inbound_connections c
      then let (i, slots) = slot_register DEFAULT_PEER_QUEUE_WEIGHT (br_slots (li_bridge li)) in
        (Some i, li\<lparr>li_active := li_active li + 1, li_bridge := (li_bridge li)\<lparr>br_slots := slots\<rparr>\<rparr>)
      else (None, li))"

text \<open>The end of the connection's task: the permit is free again and the queue has no sender left.\<close>

definition connection_ended :: "nat \<Rightarrow> listener_state \<Rightarrow> listener_state" where
  "connection_ended i li =
     li\<lparr>li_active := li_active li - 1,
       li_bridge := (li_bridge li)\<lparr>br_slots := (br_slots (li_bridge li))[i := map_option (\<lambda>s. s\<lparr>rx_connected := False\<rparr>) (br_slots (li_bridge li) ! i)]\<rparr>\<rparr>"

section \<open>What a connection delivers\<close>

text \<open>The packets put one after the other on queue \<open>i\<close>: dropped, and counted, when it is full.\<close>

fun enqueue_all :: "nat \<Rightarrow> SphinxPacket list \<Rightarrow> SphinxPacket slots \<times> u64 \<Rightarrow> SphinxPacket slots \<times> u64" where
  "enqueue_all i [] st = st"
| "enqueue_all i (p # ps) st = enqueue_all i ps (slot_enqueue PER_PEER_INBOUND_CAPACITY i p (fst st) (snd st))"

definition fragment_cell :: "Cell \<Rightarrow> bool" where
  "fragment_cell c \<longleftrightarrow> command_from_u8 (c ! 0) = Some SphinxFragment \<and> \<not> is_discard_cover_fragment c"

lemma inbound_gossip_slots [simp]:
  "br_slots (inbound_gossip S io c peer_table wall m cell br) = br_slots br"
  "br_queue_dropped (inbound_gossip S io c peer_table wall m cell br) = br_queue_dropped br"
  by (simp_all add: inbound_gossip_def split: option.split sum.split prod.split)

lemma inactive_allows: "\<not> rate_limit_is_active (rl_config s) \<Longrightarrow> allow_frame t t' s g d = (True, s, g, d)"
  by (simp add: allow_frame_def)

lemma inbound_frame_control:
  assumes "\<not> rate_limit_is_active (rl_config (ic_rate conn))" "link_open A (ic_key conn) frame = Inr cell" "\<not> fragment_cell cell"
  shows "\<exists>br'. inbound_frame A S io c peer_table clk frame conn br = (None, conn, br')
    \<and> br_slots br' = br_slots br \<and> br_queue_dropped br' = br_queue_dropped br"
  using assms
  by (cases clk; cases "command_from_u8 (cell ! 0)")
    (auto simp: inbound_frame_def inactive_allows fragment_cell_def split: Command.split)

lemma inbound_frame_fragment:
  assumes "\<not> rate_limit_is_active (rl_config (ic_rate conn))" "link_open A (ic_key conn) frame = Inr cell" "fragment_cell cell"
  shows "inbound_frame A S io c peer_table clk frame conn br =
    (case push (ic_reassembler conn) cell of
       (Inl e, r) \<Rightarrow> (Some (Inl (NetFragment e)), conn\<lparr>ic_reassembler := r\<rparr>, br)
     | (Inr None, r) \<Rightarrow> (None, conn\<lparr>ic_reassembler := r\<rparr>, br)
     | (Inr (Some p), r) \<Rightarrow>
         (let (sent, br) = peer_try_enqueue (ic_slot conn) p br in (if sent then None else Some (Inr ()), conn\<lparr>ic_reassembler := r\<rparr>, br)))"
proof -
  have "conn\<lparr>ic_rate := ic_rate conn\<rparr> = conn" "br\<lparr>br_global := br_global br, br_rate_dropped := br_rate_dropped br\<rparr> = br" by simp_all
  then show ?thesis
    using assms by (cases clk) (simp add: inbound_frame_def inactive_allows fragment_cell_def)
qed

lemma slot_enqueue_alive:
  assumes "i < length slots" "slots ! i \<noteq> None"
  shows "i < length (fst (slot_enqueue cap i p slots d)) \<and> fst (slot_enqueue cap i p slots d) ! i \<noteq> None"
  using assms by (auto simp: slot_enqueue_def split: option.splits)

text \<open>
  The loop on frames that open to the cells \<open>cs\<close>: it reassembles the fragment cells among them, and ends with the stream.
\<close>

lemma inbound_loop_cells:
  assumes "list_all2 (\<lambda>f c. length f = LINK_FRAME_LEN \<and> link_open A key f = Inr c) fs cs" "ic_key conn = key"
    and "push_stream (ic_reassembler conn) (filter fragment_cell cs) = (Inr ps, r)"
    and "\<not> rate_limit_is_active (rl_config (ic_rate conn))"
    and "ic_slot conn < length (br_slots br)" "br_slots br ! ic_slot conn \<noteq> None" "length fs < length clks" "st_in s = concat fs"
  shows "\<exists>conn' br'. inbound_loop A S io c peer_table clks s conn br = (Some (Inl (if st_eof s then NetIo else ReadTimeout)), conn', br')
    \<and> ic_reassembler conn' = r
    \<and> (br_slots br', br_queue_dropped br') = enqueue_all (ic_slot conn) ps (br_slots br, br_queue_dropped br)"
  using assms
proof (induction fs cs arbitrary: conn br ps clks s rule: list_all2_induct)
  case Nil
  then show ?case by (cases clks) (simp_all add: read_exact_timeout_def link_values)
next
  case (Cons f fs cell cs)
  obtain clk clks' where clks: "clks = clk # clks'" "length fs < length clks'" using Cons.prems(6) by (cases clks) auto
  have f: "length f = LINK_FRAME_LEN" "link_open A (ic_key conn) f = Inr cell" using Cons.hyps(1) Cons.prems(1) by simp_all
  let ?s = "s\<lparr>st_in := concat fs\<rparr>"
  have rd: "read_exact_timeout LINK_FRAME_LEN s = (Inr f, ?s)" using f(1) Cons.prems(7) by (simp add: read_exact_timeout_def)
  have go: ?case
    if step: "inbound_frame A S io c peer_table clk f conn br = (None, conn1, br1)"
      and c1: "ic_key conn1 = key" "ic_slot conn1 = ic_slot conn" "ic_rate conn1 = ic_rate conn"
      and b1: "i < length (br_slots br1)" "br_slots br1 ! i \<noteq> None" "i = ic_slot conn"
      and p1: "push_stream (ic_reassembler conn1) (filter fragment_cell cs) = (Inr ps1, r)"
      and e: "enqueue_all (ic_slot conn) ps (br_slots br, br_queue_dropped br) = enqueue_all (ic_slot conn) ps1 (br_slots br1, br_queue_dropped br1)"
    for conn1 br1 ps1 i
    using Cons.IH[OF c1(1) p1, of br1 clks' ?s] Cons.prems(3) c1 b1 clks(2) step e by (simp add: clks(1) rd)
  show ?case
  proof (cases "fragment_cell cell")
    case False
    obtain br1 where "inbound_frame A S io c peer_table clk f conn br = (None, conn, br1)"
        "br_slots br1 = br_slots br" "br_queue_dropped br1 = br_queue_dropped br"
      using inbound_frame_control[OF Cons.prems(3) f(2) False] by blast
    from go[OF this(1) Cons.prems(1) refl refl, of "ic_slot conn" ps] this(2,3) show ?thesis using Cons.prems False by simp
  next
    case True
    note step = inbound_frame_fragment[OF Cons.prems(3) f(2) True, of S io c peer_table clk br]
    obtain out r1 where push: "push (ic_reassembler conn) cell = (Inr out, r1)"
      and rest: "\<exists>ps1. push_stream r1 (filter fragment_cell cs) = (Inr ps1, r) \<and> ps = (case out of None \<Rightarrow> [] | Some p \<Rightarrow> [p]) @ ps1"
      using Cons.prems(2) True by (auto split: prod.splits sum.splits)
    then obtain ps1 where ps1: "push_stream r1 (filter fragment_cell cs) = (Inr ps1, r)" "ps = (case out of None \<Rightarrow> [] | Some p \<Rightarrow> [p]) @ ps1" by blast
    show ?thesis
    proof (cases out)
      case None
      then have "inbound_frame A S io c peer_table clk f conn br = (None, conn\<lparr>ic_reassembler := r1\<rparr>, br)" using step push by simp
      from go[OF this, of "ic_slot conn" ps1] show ?thesis using Cons.prems ps1 None by simp
    next
      case (Some p)
      let ?e = "slot_enqueue PER_PEER_INBOUND_CAPACITY (ic_slot conn) p (br_slots br) (br_queue_dropped br)"
      have "inbound_frame A S io c peer_table clk f conn br
          = (None, conn\<lparr>ic_reassembler := r1\<rparr>, br\<lparr>br_slots := fst ?e, br_queue_dropped := snd ?e\<rparr>)"
        using step push Some Cons.prems(4,5) by (simp add: peer_try_enqueue_def split: prod.split)
      from go[OF this, of "ic_slot conn" ps1] show ?thesis
        using Cons.prems ps1 Some slot_enqueue_alive[OF Cons.prems(4,5), of PER_PEER_INBOUND_CAPACITY p "br_queue_dropped br"] by simp
    qed
  qed
qed

section \<open>From one relay to the next\<close>

text \<open>What a sender puts on a link: packets, and bursts of cover or gossip cells.\<close>

datatype sent = SentPacket SphinxPacket | SentCells nat "Cell list"

fun send_all ::
    "aead_lib \<Rightarrow> ('r \<Rightarrow> nat \<Rightarrow> bytes \<times> 'r) \<Rightarrow> LinkKey \<Rightarrow> sent list \<Rightarrow> stream \<times> 'r \<Rightarrow> nat \<Rightarrow> (NetError, unit) result \<times> stream \<times> 'r" where
  "send_all A fill key [] st now = (Inr (), st)"
| "send_all A fill key (SentPacket p # xs) st now =
     io_then (write_packet_with_key A fill key p st) (\<lambda>_ st. send_all A fill key xs st now)"
| "send_all A fill key (SentCells pace cs # xs) st now =
     (case write_cells_on_stream A fill key cs pace st now of
        (Inl e, st, _) \<Rightarrow> (Inl e, st)
      | (Inr _, st, now) \<Rightarrow> send_all A fill key xs st now)"

fun sent_packets :: "sent list \<Rightarrow> SphinxPacket list" where
  "sent_packets [] = []"
| "sent_packets (SentPacket p # xs) = p # sent_packets xs"
| "sent_packets (SentCells _ _ # xs) = sent_packets xs"

fun sent_ok :: "sent \<Rightarrow> bool" where
  "sent_ok (SentPacket p) \<longleftrightarrow> wf_packet p"
| "sent_ok (SentCells _ cs) \<longleftrightarrow> list_all (\<lambda>c. wf_cell c \<and> \<not> fragment_cell c) cs"

lemma write_cells_paced_eq:
  "(case write_cells_paced A fill key pace i cs st now of (r, st, _) \<Rightarrow> (r, st)) = write_cells A fill key cs st"
proof (induction cs arbitrary: i st now)
  case (Cons c cs)
  obtain r st1 where "send_link_cell A fill key c st = (r, st1)" by (rule prod.exhaust)
  then show ?case using Cons.IH[of "i + 1" st1] by (cases r) (simp_all add: io_then_def Let_def)
qed simp

lemma send_link_cell_frame:
  assumes "aead_laws A" "\<And>r n. length (fst (fill r n)) = n" "wf_cell c" "send_link_cell A fill key c st = (Inr (), st')"
  shows "\<exists>f. length f = LINK_FRAME_LEN \<and> link_open A key f = Inr c \<and> st_out (fst st') = st_out (fst st) @ f"
proof -
  obtain s rng where st: "st = (s, rng)" by (cases st)
  obtain f where f: "link_seal A fill key c rng = (Inr f, snd (fill rng LINK_NONCE_LEN))" "length f = LINK_FRAME_LEN" "link_open A key f = Inr c"
    using seal_open[OF assms(1), where fill = fill and rng = rng and cell = c and key = key] assms(2,3) by (auto simp: wf_cell_def)
  have "st_out (fst st') = st_out s @ f"
    using assms(4) f(1) st by (auto simp: send_link_cell_def write_all_timeout_def split: if_splits)
  then show ?thesis using f st by auto
qed

lemma write_cells_frames:
  assumes "aead_laws A" "\<And>r n. length (fst (fill r n)) = n" "list_all wf_cell cs" "write_cells A fill key cs st = (Inr (), st')"
  shows "\<exists>fs. list_all2 (\<lambda>f c. length f = LINK_FRAME_LEN \<and> link_open A key f = Inr c) fs cs \<and> st_out (fst st') = st_out (fst st) @ concat fs"
  using assms(3,4)
proof (induction cs arbitrary: st)
  case Nil
  then show ?case by (intro exI[of _ "[]"]) simp
next
  case (Cons c cs)
  obtain st1 where st1: "send_link_cell A fill key c st = (Inr (), st1)" "write_cells A fill key cs st1 = (Inr (), st')"
    using Cons.prems(2) by (auto simp: io_then_def split: prod.splits sum.splits)
  obtain f where "length f = LINK_FRAME_LEN" "link_open A key f = Inr c" "st_out (fst st1) = st_out (fst st) @ f"
    using send_link_cell_frame[OF assms(1,2) _ st1(1)] Cons.prems(1) by auto
  moreover obtain fs where "list_all2 (\<lambda>f c. length f = LINK_FRAME_LEN \<and> link_open A key f = Inr c) fs cs"
      "st_out (fst st') = st_out (fst st1) @ concat fs"
    using Cons.IH[OF _ st1(2)] Cons.prems(1) by auto
  ultimately show ?case by (intro exI[of _ "f # fs"]) simp
qed

lemma encoded_is_fragment: "length pid = 8 \<Longrightarrow> c \<in> set (fragment p pid) \<Longrightarrow> fragment_cell c"
proof -
  assume pid: "length pid = 8" and "c \<in> set (fragment p pid)"
  then obtain i where c: "c = [command_byte SphinxFragment, i] @ pid @ [0, 0]
      @ slice (unat i * 500) (fragment_copy_len i) p
      @ replicate (500 - length (slice (unat i * 500) (fragment_copy_len i) p)) 0"
    by (auto simp: fragment_def encode_layout)
  have "slice 10 2 c = [0, 0]" using pid unfolding c by (simp add: slice_def)
  moreover have "command_from_u8 (c ! 0) = Some SphinxFragment" unfolding c by (simp only: append_Cons nth_Cons_0 command_from_to)
  ultimately show ?thesis
    by (simp add: fragment_cell_def is_discard_cover_fragment_def is_relay_cover_fragment_def is_cover_onion_scaffold_fragment_def
        COVER_FRAGMENT_RESERVED_def COVER_ONION_SCAFFOLD_RESERVED_def fragment_values)
qed

text \<open>The cells of what was sent: the fragments among them are those of the packets, in order.\<close>

lemma send_all_frames:
  assumes "aead_laws A" "\<And>r n. length (fst (fill r n)) = n" "list_all sent_ok xs" "send_all A fill key xs st now = (Inr (), st')"
  shows "\<exists>fs cs pids. list_all2 (\<lambda>f c. length f = LINK_FRAME_LEN \<and> link_open A key f = Inr c) fs cs
    \<and> st_out (fst st') = st_out (fst st) @ concat fs
    \<and> map fst pids = sent_packets xs \<and> (\<forall>(p, pid) \<in> set pids. wf_packet p \<and> length pid = 8)
    \<and> filter fragment_cell cs = concat (map (\<lambda>(p, pid). fragment p pid) pids)"
  using assms(3,4)
proof (induction xs arbitrary: st now)
  case Nil
  then show ?case by (intro exI[of _ "[]"]) simp
next
  case (Cons x xs)
  have ok: "list_all sent_ok xs" using Cons.prems(1) by simp
  show ?case
  proof (cases x)
    case (SentPacket p)
    have p: "wf_packet p" using Cons.prems(1) SentPacket by simp
    obtain s rng where st: "st = (s, rng)" by (cases st)
    obtain pid rng1 where fr: "fill rng 8 = (pid, rng1)" by fastforce
    have pid: "length pid = 8" using assms(2)[of rng 8] fr by simp
    obtain st1 where st1: "write_cells A fill key (fragment p pid) (s, rng1) = (Inr (), st1)" "send_all A fill key xs st1 now = (Inr (), st')"
      using Cons.prems(2) SentPacket st fr
      by (auto simp: write_packet_with_key_def fragment_with_random_id_def io_then_def split: prod.splits sum.splits)
    have "list_all wf_cell (fragment p pid)" using wf_fragment[OF pid] by (simp add: list_all_iff)
    from write_cells_frames[OF assms(1,2) this st1(1)] obtain fs where
      fs: "list_all2 (\<lambda>f c. length f = LINK_FRAME_LEN \<and> link_open A key f = Inr c) fs (fragment p pid)" "st_out (fst st1) = st_out s @ concat fs"
      by auto
    obtain fs' cs pids where "list_all2 (\<lambda>f c. length f = LINK_FRAME_LEN \<and> link_open A key f = Inr c) fs' cs"
      "st_out (fst st') = st_out (fst st1) @ concat fs'" "map fst pids = sent_packets xs" "\<forall>(p, pid) \<in> set pids. wf_packet p \<and> length pid = 8"
      "filter fragment_cell cs = concat (map (\<lambda>(p, pid). fragment p pid) pids)"
      using Cons.IH[OF ok st1(2)] by blast
    moreover have "filter fragment_cell (fragment p pid) = fragment p pid" using encoded_is_fragment[OF pid] by (simp add: filter_id_conv)
    ultimately show ?thesis
      using fs p pid SentPacket st
      by (intro exI[of _ "fs @ fs'"] exI[of _ "fragment p pid @ cs"] exI[of _ "(p, pid) # pids"]) (simp add: list_all2_appendI)
  next
    case (SentCells pace cells)
    obtain st1 now1 where st1: "write_cells_on_stream A fill key cells pace st now = (Inr (), st1, now1)" "send_all A fill key xs st1 now1 = (Inr (), st')"
      using Cons.prems(2) SentCells by (auto split: prod.splits sum.splits)
    have w: "write_cells A fill key cells st = (Inr (), st1)"
      using write_cells_paced_eq[of A fill key pace 0 cells st now] st1(1) by (simp add: write_cells_on_stream_def)
    have wf: "list_all wf_cell cells" "filter fragment_cell cells = []" using Cons.prems(1) SentCells by (auto simp: list_all_iff filter_empty_conv)
    obtain fs where fs: "list_all2 (\<lambda>f c. length f = LINK_FRAME_LEN \<and> link_open A key f = Inr c) fs cells" "st_out (fst st1) = st_out (fst st) @ concat fs"
      using write_cells_frames[OF assms(1,2) wf(1) w] by blast
    obtain fs' cs pids where "list_all2 (\<lambda>f c. length f = LINK_FRAME_LEN \<and> link_open A key f = Inr c) fs' cs"
      "st_out (fst st') = st_out (fst st1) @ concat fs'" "map fst pids = sent_packets xs" "\<forall>(p, pid) \<in> set pids. wf_packet p \<and> length pid = 8"
      "filter fragment_cell cs = concat (map (\<lambda>(p, pid). fragment p pid) pids)"
      using Cons.IH[OF ok st1(2)] by blast
    then show ?thesis
      using fs wf(2) SentCells by (intro exI[of _ "fs @ fs'"] exI[of _ "cells @ cs"] exI[of _ pids]) (simp add: list_all2_appendI)
  qed
qed

lemma frames_length:
  "list_all2 (\<lambda>f c. length f = LINK_FRAME_LEN \<and> P f c) fs cs \<Longrightarrow> length (concat fs) = length fs * LINK_FRAME_LEN"
  by (induction rule: list_all2_induct) simp_all

lemma link_delivers:
  assumes A: "aead_laws A" and fill: "\<And>r n. length (fst (fill r n)) = n" and xs: "list_all sent_ok xs"
    and sent: "send_all A fill key xs (w, rng) now = (Inr (), w', rng')" "st_out w = []"
    and conn: "ic_key conn = key" "ic_reassembler conn = reassembler_new" "\<not> rate_limit_is_active (rl_config (ic_rate conn))"
    and alive: "ic_slot conn < length (br_slots br)" "br_slots br ! ic_slot conn \<noteq> None"
    and clks: "length (st_out w') < length clks * LINK_FRAME_LEN" and s: "st_in s = st_out w'"
  shows "\<exists>conn' br'. inbound_loop A S io c peer_table clks s conn br = (Some (Inl (if st_eof s then NetIo else ReadTimeout)), conn', br')
    \<and> ic_reassembler conn' = reassembler_new
    \<and> (br_slots br', br_queue_dropped br') = enqueue_all (ic_slot conn) (sent_packets xs) (br_slots br, br_queue_dropped br)"
proof -
  obtain fs cs pids where f: "list_all2 (\<lambda>f c. length f = LINK_FRAME_LEN \<and> link_open A key f = Inr c) fs cs"
    "st_out w' = concat fs" "map fst pids = sent_packets xs" "\<forall>(p, pid) \<in> set pids. wf_packet p \<and> length pid = 8"
    "filter fragment_cell cs = concat (map (\<lambda>(p, pid). fragment p pid) pids)"
    using send_all_frames[OF A fill xs sent(1)] sent(2) by auto
  have "push_stream (ic_reassembler conn) (filter fragment_cell cs) = (Inr (sent_packets xs), reassembler_new)"
    using stream_delivers[OF f(4)] f(3,5) conn(2) by simp
  moreover have "length fs < length clks" using clks frames_length[OF f(1)] f(2) by simp
  ultimately show ?thesis
    using inbound_loop_cells[OF f(1) conn(1) _ conn(3) alive _ trans[OF s f(2)]] by blast
qed

text \<open>What the queue of a live slot takes of a burst: the first packets that fit; the others are counted as dropped.\<close>

definition slot_items :: "nat \<Rightarrow> 'a slots \<Rightarrow> 'a list" where
  "slot_items i slots = (case slots ! i of None \<Rightarrow> [] | Some s \<Rightarrow> rx_items s)"

lemma enqueue_all_takes:
  assumes "i < length slots" "slots ! i \<noteq> None" "length (slot_items i slots) \<le> PER_PEER_INBOUND_CAPACITY"
  defines "n \<equiv> PER_PEER_INBOUND_CAPACITY - length (slot_items i slots)"
  shows "slot_items i (fst (enqueue_all i ps (slots, d))) = slot_items i slots @ take n ps
    \<and> snd (enqueue_all i ps (slots, d)) = d + of_nat (length ps - n)"
  using assms(1-3) unfolding n_def
proof (induction ps arbitrary: slots d)
  case (Cons p ps)
  obtain s where s: "slots ! i = Some s" using Cons.prems(2) by blast
  show ?case
  proof (cases "length (rx_items s) < PER_PEER_INBOUND_CAPACITY")
    case True
    let ?slots = "slots[i := Some (s\<lparr>rx_items := rx_items s @ [p]\<rparr>)]"
    have "slot_items i ?slots = rx_items s @ [p]" using Cons.prems(1) by (simp add: slot_items_def)
    moreover have "PER_PEER_INBOUND_CAPACITY - length (rx_items s) = Suc (PER_PEER_INBOUND_CAPACITY - Suc (length (rx_items s)))"
      using True by simp
    ultimately show ?thesis
      using Cons.IH[of ?slots d] Cons.prems(1) s True by (simp add: slot_enqueue_def slot_items_def)
  next
    case False
    then have "PER_PEER_INBOUND_CAPACITY - length (rx_items s) = 0" by simp
    then show ?thesis
      using Cons.IH[of slots "d + 1"] Cons.prems s False by (simp add: slot_enqueue_def slot_items_def)
  qed
qed simp

lemma slot_items_reweigh: "i < length slots \<Longrightarrow> slot_items i (slot_set_weight i w slots) = slot_items i slots"
  by (cases "slots ! i") (simp_all add: slot_items_def slot_set_weight_def)

text \<open>
  C28. A hop link, end to end, between two configurations without Noise on this link and with the same identity binding, when no other
  candidate key of the receiver has a MAC that collides with the sender's, both streams take the 80 bytes of the handshake, and the receiver's
  ingress rate limit is off (the default limit is on and loses a packet, as shown below): the handshake gives the sender a key; whatever full packets,
  cover bursts and gossip cells the sender then writes under it, interleaved as it likes and without a write error, the receiver's connection
  authenticates the sender as the holder of the key, lets none of the other cells disturb reassembly, and offers exactly the packets, in
  order, to the sender's queue. The queue of 16 takes the first of them that fit, and counts the others as dropped.
\<close>

theorem hop_link_delivers:
  assumes "lib_lengths L" "lib_dh_commutes L"
    and "\<not> initiator_selects_noise ci pn" "\<not> responder_selects_noise cr" "identity_binding ci = identity_binding cr"
    and "require_ingress_kem_commitment cr \<longrightarrow> kem \<noteq> None" "\<And>k. kem = Some k \<Longrightarrow> length k = 32" "length rid = 32"
    and "(psk, m) \<in> set (psk_candidates ingress table)"
    and "link_handshake_init_write L rng_i = ((a, im), rng_i')" "link_handshake_resp_write L rng_r = ((b, rm), rng_r')"
    and "80 \<le> st_room s_i" "80 \<le> st_room s_r"
    and "\<And>k. k \<in> fst ` set (psk_candidates ingress table) \<Longrightarrow> \<not> mac_clash (lib_sha3_256 L) ROLE_INITIATOR
        (k, transcript_of im rm, link_handshake_binding cr rid kem) (psk, transcript_of im rm, link_handshake_binding cr rid kem)"
    and "aead_laws A" "\<And>r n. length (fst (fill r n)) = n" "list_all sent_ok xs"
    and "\<not> rate_limit_is_active (ingress_rate_limit cr)" "i < length (br_slots br)" "br_slots br ! i \<noteq> None"
  shows "\<exists>conf fin key m'. (psk, m') \<in> set (psk_candidates ingress table)
    \<and> fst (run_initiator_handshake L N (s_i\<lparr>st_in := rm @ fin\<rparr>) psk rid kem pn rng_i ci)
      = (Inr key, s_i\<lparr>st_in := [], st_out := st_out s_i @ im @ conf, st_room := st_room s_i - 80\<rparr>)
    \<and> (\<forall>w rng now w' rng' clks. send_all A fill key xs (w\<lparr>st_out := []\<rparr>, rng) now = (Inr (), w', rng')
        \<and> length (st_out w') < length clks * LINK_FRAME_LEN \<longrightarrow>
      (\<exists>br'. run_inbound_connection L N A S io (s_r\<lparr>st_in := im @ conf @ st_out w'\<rparr>) rid kem table ingress i cr rng_r start clks br
          = (Some (Inl (if st_eof s_r then NetIo else ReadTimeout)), br')
        \<and> (br_slots br', br_queue_dropped br') = enqueue_all i (sent_packets xs)
            (slot_set_weight i (peer_queue_weight_for m' (record_inbound_handshake_outcome (br_health br) m' True)) (br_slots br), br_queue_dropped br)
        \<and> (let n = PER_PEER_INBOUND_CAPACITY - length (slot_items i (br_slots br)) in
            length (slot_items i (br_slots br)) \<le> PER_PEER_INBOUND_CAPACITY \<longrightarrow>
              slot_items i (br_slots br') = slot_items i (br_slots br) @ take n (sent_packets xs)
            \<and> br_queue_dropped br' = br_queue_dropped br + of_nat (length (sent_packets xs) - n))))"
proof -
  obtain conf fin key m' where h: "(psk, m') \<in> set (psk_candidates ingress table)"
    "run_initiator_handshake L N (s_i\<lparr>st_in := rm @ fin\<rparr>) psk rid kem pn rng_i ci
      = ((Inr key, s_i\<lparr>st_in := [], st_out := st_out s_i @ im @ conf, st_room := st_room s_i - 80\<rparr>), rng_i')"
    and resp: "\<And>frames. run_responder_handshake L N (s_r\<lparr>st_in := im @ conf @ frames\<rparr>) rid kem ingress table rng_r cr (br_health br)
      = ((Inr (key, m'), s_r\<lparr>st_in := frames, st_out := st_out s_r @ rm @ fin, st_room := st_room s_r - 80\<rparr>,
          record_inbound_handshake_outcome (br_health br) m' True), rng_r')"
    using handshakes_agree[OF assms(1-14), where N = N and health = "br_health br"] by metis
  let ?health = "record_inbound_handshake_outcome (br_health br) m' True"
  let ?slots = "slot_set_weight i (peer_queue_weight_for m' ?health) (br_slots br)"
  let ?br = "br\<lparr>br_health := ?health, br_slots := ?slots\<rparr>"
  let ?conn = "\<lparr>ic_key = key, ic_peer = m', ic_slot = i, ic_reassembler = reassembler_new, ic_rate = rate_limit_new (ingress_rate_limit cr) start\<rparr>"
  have inactive: "\<not> rate_limit_is_active (rl_config (ic_rate ?conn))" using assms(18) by (simp add: rate_limit_new_def)
  have alive: "ic_slot ?conn < length (br_slots ?br)" "br_slots ?br ! ic_slot ?conn \<noteq> None"
    using assms(19,20) by (simp_all add: slot_set_weight_def)
  have run: "\<exists>br'. run_inbound_connection L N A S io (s_r\<lparr>st_in := im @ conf @ st_out w'\<rparr>) rid kem table ingress i cr rng_r start clks br
        = (Some (Inl (if st_eof s_r then NetIo else ReadTimeout)), br')
      \<and> (br_slots br', br_queue_dropped br') = enqueue_all i (sent_packets xs) (?slots, br_queue_dropped br)
      \<and> (let n = PER_PEER_INBOUND_CAPACITY - length (slot_items i (br_slots br)) in
            length (slot_items i (br_slots br)) \<le> PER_PEER_INBOUND_CAPACITY \<longrightarrow>
              slot_items i (br_slots br') = slot_items i (br_slots br) @ take n (sent_packets xs)
            \<and> br_queue_dropped br' = br_queue_dropped br + of_nat (length (sent_packets xs) - n))"
    if w: "send_all A fill key xs (w\<lparr>st_out := []\<rparr>, rng) now = (Inr (), w', rng')" "length (st_out w') < length clks * LINK_FRAME_LEN" for w rng now w' rng' clks
  proof -
    let ?s = "s_r\<lparr>st_in := st_out w', st_out := st_out s_r @ rm @ fin, st_room := st_room s_r - 80\<rparr>"
    obtain conn' br' where l: "inbound_loop A S io cr table clks ?s ?conn ?br = (Some (Inl (if st_eof ?s then NetIo else ReadTimeout)), conn', br')"
      "(br_slots br', br_queue_dropped br') = enqueue_all (ic_slot ?conn) (sent_packets xs) (br_slots ?br, br_queue_dropped ?br)"
      using link_delivers[OF assms(15-17) w(1) _ _ _ inactive alive w(2), where S = S and io = io and c = cr and peer_table = table and s = ?s]
      by auto
    have "length (slot_items i ?slots) \<le> PER_PEER_INBOUND_CAPACITY \<longrightarrow>
        slot_items i (br_slots br') = slot_items i ?slots @ take (PER_PEER_INBOUND_CAPACITY - length (slot_items i ?slots)) (sent_packets xs)
      \<and> br_queue_dropped br' = br_queue_dropped br
          + of_nat (length (sent_packets xs) - (PER_PEER_INBOUND_CAPACITY - length (slot_items i ?slots)))"
      using enqueue_all_takes[of i ?slots "sent_packets xs" "br_queue_dropped br"] l(2)[symmetric] alive by simp
    then show ?thesis using l assms(19)
      unfolding run_inbound_connection_def resp prod.case sum.case Let_def by (simp add: slot_items_reweigh)
  qed
  show ?thesis
    by (rule exI[of _ conf], rule exI[of _ fin], rule exI[of _ key], rule exI[of _ m']) (use h run in auto)
qed

text \<open>Writing succeeds while the stream takes the frames.\<close>

lemma send_link_cell_ok:
  assumes "aead_laws A" "\<And>r n. length (fst (fill r n)) = n" "wf_cell c" "LINK_FRAME_LEN \<le> st_room s"
  shows "\<exists>s' rng'. send_link_cell A fill key c (s, rng) = (Inr (), s', rng')
    \<and> st_room s' = st_room s - LINK_FRAME_LEN \<and> length (st_out s') = length (st_out s) + LINK_FRAME_LEN"
proof -
  obtain f where "link_seal A fill key c rng = (Inr f, snd (fill rng LINK_NONCE_LEN))" "length f = LINK_FRAME_LEN"
    using seal_open[OF assms(1), where fill = fill and rng = rng and cell = c and key = key] assms(2,3) by (auto simp: wf_cell_def)
  then show ?thesis using assms(4) by (simp add: send_link_cell_def write_all_timeout_def)
qed

lemma write_cells_ok:
  assumes "aead_laws A" "\<And>r n. length (fst (fill r n)) = n" "list_all wf_cell cs" "length cs * LINK_FRAME_LEN \<le> st_room s"
  shows "\<exists>s' rng'. write_cells A fill key cs (s, rng) = (Inr (), s', rng')
    \<and> st_room s' = st_room s - length cs * LINK_FRAME_LEN \<and> length (st_out s') = length (st_out s) + length cs * LINK_FRAME_LEN"
  using assms(3,4)
proof (induction cs arbitrary: s rng)
  case (Cons c cs)
  have room: "LINK_FRAME_LEN \<le> st_room s" "wf_cell c" using Cons.prems by simp_all
  obtain s1 rng1 where s1: "send_link_cell A fill key c (s, rng) = (Inr (), s1, rng1)" "st_room s1 = st_room s - LINK_FRAME_LEN"
      "length (st_out s1) = length (st_out s) + LINK_FRAME_LEN"
    using send_link_cell_ok[where fill = fill and key = key and rng = rng, OF assms(1,2) room(2,1)] by blast
  have "list_all wf_cell cs" "length cs * LINK_FRAME_LEN \<le> st_room s1" using Cons.prems s1(2) by simp_all
  from Cons.IH[OF this, of rng1] show ?case using s1 by auto
qed simp

definition toy_bridge :: bridge_state where
  "toy_bridge = \<lparr>br_health = None, br_quorum = None,
     br_slots = [Some \<lparr>rx_items = [], rx_connected = True, slot_weight = 1, slot_credits = 0\<rparr>],
     br_queue_dropped = 0, br_global = None, br_rate_dropped = 0\<rparr>"

definition drop_cell :: Cell where "drop_cell = cell_zeroed[0 := command_byte DropCell]"

lemma toy_cells: "list_all sent_ok [SentCells 7 [drop_cell], SentPacket (replicate 8512 5)]"
proof -
  have "command_from_u8 (drop_cell ! 0) = Some DropCell"
    by (simp add: drop_cell_def cell_zeroed_def CELL_LEN_def del: command_byte.simps)
  moreover have "wf_cell drop_cell" by (simp add: drop_cell_def wf_cell_def cell_zeroed_def)
  ultimately show ?thesis by (simp add: fragment_cell_def wf_packet_def layout_values)
qed

lemma toy_sends:
  "\<exists>w' rng'. send_all toy_aead (\<lambda>r n. (replicate n 9, r)) key [SentCells 7 [drop_cell], SentPacket (replicate 8512 5)]
      ((toy_stream\<lparr>st_room := 19 * LINK_FRAME_LEN\<rparr>)\<lparr>st_out := []\<rparr>, ()) 0 = (Inr (), w', rng')
    \<and> length (st_out w') = 19 * LINK_FRAME_LEN"
proof -
  let ?fill = "\<lambda>r n. (replicate n 9, r) :: bytes \<times> unit" and ?p = "replicate 8512 5 :: SphinxPacket"
  let ?s = "(toy_stream\<lparr>st_room := 19 * LINK_FRAME_LEN\<rparr>)\<lparr>st_out := []\<rparr>"
  have fill: "length (fst (?fill r n)) = n" for r n by simp
  have wf: "list_all wf_cell [drop_cell]" "list_all wf_cell (fragment ?p (replicate 8 9))"
    using toy_cells wf_fragment[of "replicate 8 9" _ ?p] by (auto simp: list_all_iff)
  obtain s1 rng1 where s1: "write_cells toy_aead ?fill key [drop_cell] (?s, ()) = (Inr (), s1, rng1)"
      "st_room s1 = 18 * LINK_FRAME_LEN" "length (st_out s1) = LINK_FRAME_LEN"
    using write_cells_ok[where fill = ?fill and key = key and rng = "()" and s = ?s, OF toy_aead_laws fill wf(1)] by auto
  obtain s2 rng2 where s2: "write_cells toy_aead ?fill key (fragment ?p (replicate 8 9)) (s1, rng1) = (Inr (), s2, rng2)"
      "length (st_out s2) = 19 * LINK_FRAME_LEN"
    using write_cells_ok[where fill = ?fill and key = key and rng = rng1 and s = s1, OF toy_aead_laws fill wf(2)] s1(2,3)
    by (auto simp: fragment_values)
  obtain now where "write_cells_on_stream toy_aead ?fill key [drop_cell] 7 (?s, ()) 0 = (Inr (), (s1, rng1), now)"
    using write_cells_paced_eq[of toy_aead ?fill key 7 0 "[drop_cell]" "(?s, ())" 0] s1(1)
    by (auto simp: write_cells_on_stream_def split: prod.splits)
  then show ?thesis using s2 by (simp add: write_packet_with_key_def fragment_with_random_id_def)
qed

theorem hop_link_delivers_witness:
  "\<exists>conf fin key w' rng' br'.
    fst (run_initiator_handshake toy_lib toy_noise (toy_stream\<lparr>st_in := toy_resp @ fin\<rparr>) toy_psk (replicate 32 1) None None 3 toy_config)
      = (Inr key, toy_stream\<lparr>st_in := [], st_out := st_out toy_stream @ toy_init @ conf, st_room := st_room toy_stream - 80\<rparr>)
    \<and> send_all toy_aead (\<lambda>r n. (replicate n 9, r)) key [SentCells 7 [drop_cell], SentPacket (replicate 8512 5)]
        ((toy_stream\<lparr>st_room := 19 * LINK_FRAME_LEN\<rparr>)\<lparr>st_out := []\<rparr>, ()) 0 = (Inr (), w', rng')
    \<and> run_inbound_connection toy_lib toy_noise toy_aead toy_sig None (toy_stream\<lparr>st_in := toy_init @ conf @ st_out w'\<rparr>) (replicate 32 1) None []
        (Some toy_psk) 0 (without_ingress_rate_limit toy_config) 8 0 (replicate 20 (0, 0, 0)) toy_bridge
      = (Some (Inl ReadTimeout), br')
    \<and> slot_items 0 (br_slots br') = [replicate 8512 5]"
proof -
  let ?c = "without_ingress_rate_limit toy_config" and ?fill = "\<lambda>r n. (replicate n 9, r) :: bytes \<times> unit"
  let ?xs = "[SentCells 7 [drop_cell], SentPacket (replicate 8512 5)]"
  obtain a r where i: "link_handshake_init_write toy_lib 3 = ((a, toy_init), r)" using toy_init_write by blast
  obtain b r' where r: "link_handshake_resp_write toy_lib 8 = ((b, toy_resp), r')" using toy_resp_write by blast
  have cfg: "\<not> initiator_selects_noise toy_config None" "\<not> responder_selects_noise ?c" "identity_binding toy_config = identity_binding ?c"
    "require_ingress_kem_commitment ?c \<longrightarrow> None \<noteq> None" "\<not> rate_limit_is_active (ingress_rate_limit ?c)"
    by (simp_all add: initiator_selects_noise_def responder_selects_noise_def toy_config_def bridge_config_default_def
        without_ingress_rate_limit_def rate_limit_is_active_def ingress_rate_limit_disabled_def)
  have fill: "length (fst (?fill r n)) = n" for r n by simp
  have eof: "st_eof toy_stream = False" and none: "slot_items 0 (br_slots toy_bridge) = []"
    by (simp_all add: toy_stream_def toy_bridge_def slot_items_def)
  from hop_link_delivers[where L = toy_lib and ci = toy_config and cr = ?c and pn = None and kem = None and rid = "replicate 32 1" and psk = toy_psk
      and m = None and ingress = "Some toy_psk" and table = "[]" and s_i = toy_stream and s_r = toy_stream and A = toy_aead and fill = ?fill and xs = ?xs
      and br = toy_bridge and i = 0 and N = toy_noise and S = toy_sig and io = None and start = 0,
      OF toy_laws(1,2) cfg(1-4) _ _ _ i r _ _ _ toy_aead_laws fill toy_cells cfg(5)]
  obtain conf fin key m' where h: "fst (run_initiator_handshake toy_lib toy_noise (toy_stream\<lparr>st_in := toy_resp @ fin\<rparr>) toy_psk (replicate 32 1) None None 3 toy_config)
      = (Inr key, toy_stream\<lparr>st_in := [], st_out := st_out toy_stream @ toy_init @ conf, st_room := st_room toy_stream - 80\<rparr>)"
    and run: "\<And>w rng now w' rng' clks. send_all toy_aead ?fill key ?xs (w\<lparr>st_out := []\<rparr>, rng) now = (Inr (), w', rng')
        \<and> length (st_out w') < length clks * LINK_FRAME_LEN \<Longrightarrow>
      \<exists>br'. run_inbound_connection toy_lib toy_noise toy_aead toy_sig None (toy_stream\<lparr>st_in := toy_init @ conf @ st_out w'\<rparr>) (replicate 32 1) None []
          (Some toy_psk) 0 ?c 8 0 clks toy_bridge = (Some (Inl (if st_eof toy_stream then NetIo else ReadTimeout)), br')
        \<and> slot_items 0 (br_slots br') = slot_items 0 (br_slots toy_bridge)
            @ take (PER_PEER_INBOUND_CAPACITY - length (slot_items 0 (br_slots toy_bridge))) (sent_packets ?xs)"
    by (force simp: toy_stream_def toy_candidates toy_bridge_def slot_items_def)
  obtain w' rng' where sent: "send_all toy_aead ?fill key ?xs ((toy_stream\<lparr>st_room := 19 * LINK_FRAME_LEN\<rparr>)\<lparr>st_out := []\<rparr>, ()) 0 = (Inr (), w', rng')"
      "length (st_out w') = 19 * LINK_FRAME_LEN"
    using toy_sends by blast
  have "length (st_out w') < length (replicate 20 ((0, 0, 0) :: clock)) * LINK_FRAME_LEN" using sent(2) by (simp add: link_values)
  then obtain br' where "run_inbound_connection toy_lib toy_noise toy_aead toy_sig None (toy_stream\<lparr>st_in := toy_init @ conf @ st_out w'\<rparr>) (replicate 32 1) None []
          (Some toy_psk) 0 ?c 8 0 (replicate 20 (0, 0, 0)) toy_bridge = (Some (Inl ReadTimeout), br')"
      "slot_items 0 (br_slots br') = [replicate 8512 5]"
    using run[of "toy_stream\<lparr>st_room := 19 * LINK_FRAME_LEN\<rparr>" "()" 0 w' rng' "replicate 20 (0, 0, 0)"] sent(1)
    unfolding eof none by (auto simp: PER_PEER_INBOUND_CAPACITY_def)
  then show ?thesis using h sent(1) by blast
qed

section \<open>The default limit and a burst\<close>

lemma push_counts:
  assumes "unat (expected_index r) < 17" "push r c = (Inr out, r')"
  shows "out = None \<and> unat (expected_index r') = Suc (unat (expected_index r))"
proof -
  obtain pid pl where d: "decode_fragment_cell c = Inr (pid, expected_index r, pl)" "packet_id r = None \<or> packet_id r = Some pid"
    using push_InrD[OF assms(2)] by blast
  show ?thesis using assms unat_Suc_byte[of "expected_index r"] unfolding push_accept[OF d] by (auto simp: Let_def)
qed

lemma inbound_frame_counts:
  assumes "f64_lt (Fin 0) (max_cells_per_sec (rl_config (ic_rate conn)))" "unat (expected_index (ic_reassembler conn)) < 17"
    and "inbound_frame A S io c peer_table (t, t', wall) frame conn br = (res, conn', br')"
  shows "br_slots br' = br_slots br \<and> br_queue_dropped br' = br_queue_dropped br
    \<and> (res = None \<longrightarrow> rl_config (ic_rate conn') = rl_config (ic_rate conn) \<and> rl_local (ic_rate conn') = snd (try_consume t 1 (rl_local (ic_rate conn)))
      \<and> unat (expected_index (ic_reassembler conn'))
          \<le> unat (expected_index (ic_reassembler conn)) + of_bool (fst (try_consume t 1 (rl_local (ic_rate conn)))))"
proof -
  obtain ok rate global dropped where a: "allow_frame t t' (ic_rate conn) (br_global br) (br_rate_dropped br) = (ok, rate, global, dropped)"
    by (metis prod_cases4)
  note step = allow_frame_step[OF assms(1) a]
  note unfold = inbound_frame_def a prod.case Let_def
  show ?thesis
  proof (cases ok)
    case False
    then show ?thesis using assms(3) step by (simp add: unfold) auto
  next
    case True
    show ?thesis
    proof (cases "link_open A (ic_key conn) frame")
      case (Inl e)
      then show ?thesis using assms(3) True by (auto simp: unfold)
    next
      case (Inr cell)
      show ?thesis
      proof (cases "fragment_cell cell")
        case False
        then show ?thesis
          using assms(3) True Inr step
          by (cases "command_from_u8 (cell ! 0)") (auto simp: unfold fragment_cell_def split: Command.splits if_splits)
      next
        case frag: True
        obtain out r where p: "push (ic_reassembler conn) cell = (out, r)" by fastforce
        show ?thesis
        proof (cases out)
          case (Inl e)
          then show ?thesis using assms(3) True Inr frag p by (auto simp: unfold fragment_cell_def)
        next
          case out: (Inr o')
          then have "o' = None" "unat (expected_index r) = Suc (unat (expected_index (ic_reassembler conn)))"
            using push_counts[OF assms(2)] p by auto
          then show ?thesis using assms(3) True Inr frag p out step by (auto simp: unfold fragment_cell_def)
        qed
      qed
    qed
  qed
qed

lemma inbound_loop_counts:
  assumes "f64_lt (Fin 0) (max_cells_per_sec (rl_config (ic_rate conn)))"
    and "unat (expected_index (ic_reassembler conn)) + fst (consume_run (map fst clks) (rl_local (ic_rate conn))) < 17"
    and "inbound_loop A S io c peer_table clks s conn br = (res, conn', br')"
  shows "br_slots br' = br_slots br \<and> br_queue_dropped br' = br_queue_dropped br"
  using assms
proof (induction clks arbitrary: s conn br)
  case (Cons clk clks)
  obtain t t' wall where clk: "clk = (t, t', wall)" by (cases clk)
  obtain x s1 where fields: "read_exact_timeout LINK_FRAME_LEN s = (x, s1)" by (rule prod.exhaust)
  show ?case
  proof (cases x)
    case (Inl e)
    then show ?thesis using Cons.prems(3) fields by simp
  next
    case (Inr frame)
    obtain r conn1 br1 where f: "inbound_frame A S io c peer_table (t, t', wall) frame conn br = (r, conn1, br1)" by (metis prod_cases3)
    have "unat (expected_index (ic_reassembler conn)) < 17" using Cons.prems(2) by linarith
    note step = inbound_frame_counts[OF Cons.prems(1) this f]
    obtain ok b1 where b1: "try_consume t 1 (rl_local (ic_rate conn)) = (ok, b1)" by fastforce
    show ?thesis
    proof (cases r)
      case None
      have "unat (expected_index (ic_reassembler conn1)) + fst (consume_run (map fst clks) (rl_local (ic_rate conn1))) < 17"
        using Cons.prems(2) step None b1 by (auto simp: clk Let_def split: prod.splits)
      moreover have "inbound_loop A S io c peer_table clks s1 conn1 br1 = (res, conn', br')"
        using Cons.prems(3) fields Inr f None by (simp add: clk)
      ultimately show ?thesis using Cons.IH[of conn1 s1 br1] Cons.prems(1) step None by simp
    next
      case (Some y)
      then show ?thesis using Cons.prems(3) fields Inr f step by (simp add: clk)
    qed
  qed
qed simp

text \<open>
  C30. The default limit against a packet sent at once: whatever the first eighteen frames on a connection are, if they are read within four
  seconds of its start, no packet comes out of them; a relay writes the eighteen frames of a packet without pacing.
\<close>

theorem default_limit_loses_burst:
  assumes "ic_rate conn = rate_limit_new ingress_rate_limit_default start" "ic_reassembler conn = reassembler_new"
    and "length clks = 18" "\<forall>(t, _, _) \<in> set clks. t \<le> start + 4 * 10 ^ 9" "start + 4 * 10 ^ 9 \<le> 2 ^ 53 * 10 ^ 9"
    and "inbound_loop A S io c peer_table clks s conn br = (res, conn', br')"
  shows "br_slots br' = br_slots br \<and> br_queue_dropped br' = br_queue_dropped br"
proof -
  obtain r where r: "DEFAULT_INGRESS_MAX_CELLS_PER_SEC = Fin r" "0 < r" using default_rate by blast
  have "fst (consume_run (map fst clks) (rl_local (ic_rate conn))) \<le> 16"
    unfolding assms(1) by (rule default_limit_sheds_packet[OF _ assms(5)]) (use assms(3,4) in auto)
  moreover have "f64_lt (Fin 0) (max_cells_per_sec (rl_config (ic_rate conn)))"
    unfolding assms(1) rate_limit_new_def ingress_rate_limit_default_def InboundRateLimitState.simps IngressRateLimitConfig.simps r(1)
    using r(2) by simp
  moreover have "unat (expected_index (ic_reassembler conn)) = 0" by (simp add: assms(2) reassembler_new_def)
  ultimately show ?thesis using inbound_loop_counts[OF _ _ assms(6)] by simp
qed

definition toy_conn :: inbound_conn where
  "toy_conn = \<lparr>ic_key = toy_psk, ic_peer = None, ic_slot = 0, ic_reassembler = reassembler_new,
     ic_rate = rate_limit_new ingress_rate_limit_default 5\<rparr>"

theorem default_limit_loses_burst_witness:
  "let br' = snd (snd (inbound_loop toy_aead toy_sig None toy_config [] (replicate 18 (7, 7, 0))
      (toy_stream\<lparr>st_in := st_out (fst (snd (write_packet_with_key toy_aead (\<lambda>r n. (replicate n 9, r)) toy_psk (replicate 8512 5)
        (toy_stream\<lparr>st_room := 10 ^ 4\<rparr>, ()))))\<rparr>) toy_conn toy_bridge))
   in br_slots br' = br_slots toy_bridge \<and> br_queue_dropped br' = br_queue_dropped toy_bridge"
  unfolding Let_def
  by (rule default_limit_loses_burst[where start = 5 and conn = toy_conn and clks = "replicate 18 (7, 7, 0)"])
    (simp_all add: toy_conn_def, simp add: prod_eq_iff)

end
