(* ===== verification/Link_Outbound.thy ===== *)
theory Link_Outbound
  imports Link_Inbound
begin

text \<open>
  The outbound side of the link bridge, \<^verbatim>\<open>crates/aegis-relay/src/net.rs\<close> and \<^verbatim>\<open>trace.rs\<close>: the pool of handshaken connections, the
  retry over a fresh connection, and the dispatchers of packets, cover and gossip. The network is the argument \<open>connect\<close> on a world \<open>'w\<close>:
  it answers with a stream or an error. The pool's connections are its values: each dispatcher has a pool of its own and works on
  one connection at a time.
\<close>

section \<open>The forward trace\<close>

type_synonym trace = "(string \<times> u32) mpsc_channel option"

definition trace_record :: "string \<Rightarrow> u32 \<Rightarrow> trace \<Rightarrow> trace" where
  "trace_record ev n tr =
     map_option (\<lambda>ch. if \<not> ch_closed ch \<and> length (ch_items ch) < ch_capacity ch then ch\<lparr>ch_items := ch_items ch @ [(ev, n)]\<rparr> else ch) tr"

definition record_forward :: "u32 \<Rightarrow> trace \<Rightarrow> trace" where "record_forward n tr = trace_record ''forward'' n tr"
definition record_cover :: "u32 \<Rightarrow> trace \<Rightarrow> trace" where "record_cover n tr = trace_record ''cover'' n tr"
definition record_exit :: "u32 \<Rightarrow> trace \<Rightarrow> trace" where "record_exit n tr = trace_record ''exit'' n tr"

section \<open>The connection pool\<close>

record ('w, 'r) egress =
  eg_pool :: "string \<rightharpoonup> stream \<times> LinkKey"
  eg_world :: 'w
  eg_rng :: 'r
  eg_clock :: nat
  eg_health :: "PeerHealthTracker option"

type_synonym 'w network = "string \<Rightarrow> 'w \<Rightarrow> (NetError, stream) result \<times> 'w"

definition get_or_handshake ::
    "('xs, 'ms, 'mp, 'r) crypto_lib \<Rightarrow> 'h noise_lib \<Rightarrow> 'w network \<Rightarrow> LinkBridgeConfig \<Rightarrow> bytes \<Rightarrow> PeerInfo \<Rightarrow> ('w, 'r) egress
      \<Rightarrow> (NetError, stream \<times> LinkKey) result \<times> ('w, 'r) egress" where
  "get_or_handshake L N connect c peer_id peer st =
     (case eg_pool st (peer_addr peer) of
        Some conn \<Rightarrow> (Inr conn, st)
      | None \<Rightarrow>
          (case connect (peer_addr peer) (eg_world st) of
             (Inl e, w) \<Rightarrow> (Inl e, st\<lparr>eg_world := w\<rparr>)
           | (Inr s, w) \<Rightarrow>
               (case run_initiator_handshake L N s (link_key_bytes peer) peer_id (peer_kem_commitment peer) (noise_static_public peer) (eg_rng st) c of
                  ((Inl e, _), rng) \<Rightarrow> (Inl e, st\<lparr>eg_world := w, eg_rng := rng\<rparr>)
                | ((Inr key, s), rng) \<Rightarrow> (Inr (s, key), st\<lparr>eg_pool := (eg_pool st)(peer_addr peer \<mapsto> (s, key)), eg_world := w, eg_rng := rng\<rparr>))))"

definition reconnect ::
    "('xs, 'ms, 'mp, 'r) crypto_lib \<Rightarrow> 'h noise_lib \<Rightarrow> 'w network \<Rightarrow> LinkBridgeConfig \<Rightarrow> bytes \<Rightarrow> PeerInfo \<Rightarrow> ('w, 'r) egress
      \<Rightarrow> (NetError, stream \<times> LinkKey) result \<times> ('w, 'r) egress" where
  "reconnect L N connect c peer_id peer st =
     get_or_handshake L N connect c peer_id peer (st\<lparr>eg_pool := (eg_pool st)(peer_addr peer := None)\<rparr>)"

type_synonym 'r writer = "LinkKey \<Rightarrow> stream \<times> 'r \<Rightarrow> nat \<Rightarrow> (NetError, unit) result \<times> (stream \<times> 'r) \<times> nat"

text \<open>A write on a pooled connection changes the connection in place.\<close>

definition write_on :: "'r writer \<Rightarrow> PeerInfo \<Rightarrow> stream \<times> LinkKey \<Rightarrow> ('w, 'r) egress \<Rightarrow> (NetError, unit) result \<times> ('w, 'r) egress" where
  "write_on wr peer conn st =
     (let (s, key) = conn; (r, (s, rng), now) = wr key (s, eg_rng st) (eg_clock st) in
      (r, st\<lparr>eg_pool := (eg_pool st)(peer_addr peer \<mapsto> (s, key)), eg_rng := rng, eg_clock := now\<rparr>))"

definition eg_outcome :: "bytes \<Rightarrow> bool \<Rightarrow> ('w, 'r) egress \<Rightarrow> ('w, 'r) egress" where
  "eg_outcome peer_id ok st = st\<lparr>eg_health := record_peer_outcome (eg_health st) peer_id ok\<rparr>"

text \<open>The body that \<open>forward_to_peer\<close>, \<open>write_gossip_cell\<close> and \<open>write_cover_cells\<close> share: a broken connection is replaced once.\<close>

definition pooled_send ::
    "('xs, 'ms, 'mp, 'r) crypto_lib \<Rightarrow> 'h noise_lib \<Rightarrow> 'w network \<Rightarrow> LinkBridgeConfig \<Rightarrow> 'r writer \<Rightarrow> bytes \<Rightarrow> PeerInfo \<Rightarrow> ('w, 'r) egress
      \<Rightarrow> (NetError, unit) result \<times> ('w, 'r) egress" where
  "pooled_send L N connect c wr peer_id peer st =
     (case get_or_handshake L N connect c peer_id peer st of
        (Inl e, st) \<Rightarrow> (Inl e, eg_outcome peer_id False st)
      | (Inr conn, st) \<Rightarrow>
          (case write_on wr peer conn st of
             (Inr _, st) \<Rightarrow> (Inr (), eg_outcome peer_id True st)
           | (Inl e, st) \<Rightarrow>
               if e = NetIo \<or> e = ReadTimeout
               then (case reconnect L N connect c peer_id peer st of
                   (Inl e, st) \<Rightarrow> (Inl e, eg_outcome peer_id False st)
                 | (Inr conn, st) \<Rightarrow>
                     (case write_on wr peer conn st of
                        (Inr _, st) \<Rightarrow> (Inr (), eg_outcome peer_id True st)
                      | (Inl e, st) \<Rightarrow> (Inl e, eg_outcome peer_id False st)))
               else (Inl e, eg_outcome peer_id False st)))"

definition forward_to_peer ::
    "('xs, 'ms, 'mp, 'r) crypto_lib \<Rightarrow> 'h noise_lib \<Rightarrow> aead_lib \<Rightarrow> 'w network \<Rightarrow> LinkBridgeConfig \<Rightarrow> bytes \<Rightarrow> PeerInfo \<Rightarrow> SphinxPacket
      \<Rightarrow> ('w, 'r) egress \<Rightarrow> (NetError, unit) result \<times> ('w, 'r) egress" where
  "forward_to_peer L N A connect c peer_id peer p st =
     pooled_send L N connect c (\<lambda>key st now. let (r, st) = write_packet_with_key A (lib_fill_bytes L) key p st in (r, st, now)) peer_id peer st"

definition write_cover_cells ::
    "('xs, 'ms, 'mp, 'r) crypto_lib \<Rightarrow> 'h noise_lib \<Rightarrow> aead_lib \<Rightarrow> 'w network \<Rightarrow> LinkBridgeConfig \<Rightarrow> bytes \<Rightarrow> PeerInfo \<Rightarrow> Cell list
      \<Rightarrow> ('w, 'r) egress \<Rightarrow> (NetError, unit) result \<times> ('w, 'r) egress" where
  "write_cover_cells L N A connect c peer_id peer cells st =
     pooled_send L N connect c (\<lambda>key. write_cells_on_stream A (lib_fill_bytes L) key cells (cover_cell_tau c)) peer_id peer st"

definition write_gossip_cell ::
    "('xs, 'ms, 'mp, 'r) crypto_lib \<Rightarrow> 'h noise_lib \<Rightarrow> aead_lib \<Rightarrow> 'w network \<Rightarrow> LinkBridgeConfig \<Rightarrow> bytes \<Rightarrow> PeerInfo \<Rightarrow> Cell
      \<Rightarrow> ('w, 'r) egress \<Rightarrow> (NetError, unit) result \<times> ('w, 'r) egress" where
  "write_gossip_cell L N A connect c peer_id peer cell st =
     pooled_send L N connect c (\<lambda>key. write_cells_on_stream A (lib_fill_bytes L) key [cell] (cover_cell_tau c)) peer_id peer st"

section \<open>One-shot sends\<close>

text \<open>\<open>LinkSession::connect\<close> and \<open>send_sphinx_packet\<close>.\<close>

definition session_connect ::
    "('xs, 'ms, 'mp, 'r) crypto_lib \<Rightarrow> 'h noise_lib \<Rightarrow> 'w network \<Rightarrow> string \<Rightarrow> bytes \<Rightarrow> bytes \<Rightarrow> bytes option \<Rightarrow> bytes option \<Rightarrow> LinkBridgeConfig
      \<Rightarrow> 'w \<Rightarrow> 'r \<Rightarrow> (NetError, stream \<times> LinkKey) result \<times> 'w \<times> 'r" where
  "session_connect L N connect addr psk peer_id kem noise c w rng =
     (case connect addr w of
        (Inl e, w) \<Rightarrow> (Inl e, w, rng)
      | (Inr s, w) \<Rightarrow> (case run_initiator_handshake L N s psk peer_id kem noise rng c of
            ((Inl e, _), rng) \<Rightarrow> (Inl e, w, rng)
          | ((Inr key, s), rng) \<Rightarrow> (Inr (s, key), w, rng)))"

definition send_sphinx_packet ::
    "('xs, 'ms, 'mp, 'r) crypto_lib \<Rightarrow> 'h noise_lib \<Rightarrow> aead_lib \<Rightarrow> 'w network \<Rightarrow> string \<Rightarrow> bytes \<Rightarrow> bytes \<Rightarrow> bytes option \<Rightarrow> bytes option
      \<Rightarrow> SphinxPacket \<Rightarrow> LinkBridgeConfig \<Rightarrow> 'w \<Rightarrow> 'r \<Rightarrow> ((NetError, unit) result \<times> stream option) \<times> 'w \<times> 'r" where
  "send_sphinx_packet L N A connect addr psk peer_id kem noise p c w rng =
     (case session_connect L N connect addr psk peer_id kem noise c w rng of
        (Inl e, w, rng) \<Rightarrow> ((Inl e, None), w, rng)
      | (Inr (s, key), w, rng) \<Rightarrow> (case write_packet_with_key A (lib_fill_bytes L) key p (s, rng) of (r, s, rng) \<Rightarrow> ((r, Some s), w, rng)))"

section \<open>Dispatchers\<close>

definition gossip_dispatch ::
    "('xs, 'ms, 'mp, 'r) crypto_lib \<Rightarrow> 'h noise_lib \<Rightarrow> aead_lib \<Rightarrow> 'w network \<Rightarrow> LinkBridgeConfig \<Rightarrow> (bytes \<times> PeerInfo) list \<Rightarrow> bytes \<times> Cell
      \<Rightarrow> ('w, 'r) egress \<Rightarrow> ('w, 'r) egress" where
  "gossip_dispatch L N A connect c peer_table msg st =
     (let (peer_id, cell) = msg in
      case map_of peer_table peer_id of None \<Rightarrow> st | Some peer \<Rightarrow> snd (write_gossip_cell L N A connect c peer_id peer cell st))"

text \<open>The order of socket addresses is \<open>addr_key\<close>.\<close>

definition pick_cover_egress :: "(string \<Rightarrow> 'k :: linorder) \<Rightarrow> (bytes \<times> PeerInfo) list \<Rightarrow> (bytes \<times> PeerInfo) option" where
  "pick_cover_egress addr_key peer_table =
     (case sort_key (\<lambda>(_, p). addr_key (peer_addr p)) peer_table of [] \<Rightarrow> None | x # _ \<Rightarrow> Some x)"

definition cover_dispatch ::
    "('xs, 'ms, 'mp, 'r) crypto_lib \<Rightarrow> 'h noise_lib \<Rightarrow> aead_lib \<Rightarrow> 'w network \<Rightarrow> LinkBridgeConfig \<Rightarrow> (string \<Rightarrow> 'k :: linorder)
      \<Rightarrow> (bytes \<times> PeerInfo) list \<Rightarrow> Cell list \<Rightarrow> ('w, 'r) egress \<times> trace \<Rightarrow> ('w, 'r) egress \<times> trace" where
  "cover_dispatch L N A connect c addr_key peer_table cells st =
     (case pick_cover_egress addr_key peer_table of
        None \<Rightarrow> st
      | Some (peer_id, peer) \<Rightarrow>
          (case write_cover_cells L N A connect c peer_id peer cells (fst st) of
             (Inr _, eg) \<Rightarrow> (eg, record_cover (of_nat (length cells)) (snd st))
           | (Inl _, eg) \<Rightarrow> (eg, snd st)))"

text \<open>The router of outbound packets: one queue per peer of the table, registered in its order.\<close>

record router =
  ro_slots :: "ForwardedPacket slots"
  ro_senders :: "bytes \<rightharpoonup> nat"
  ro_dropped :: u64
  ro_exit :: "SphinxPacket list option"
  ro_trace :: trace
  ro_cursor :: nat

fun register_peers :: "PeerHealthTracker option \<Rightarrow> bytes list \<Rightarrow> router \<Rightarrow> router" where
  "register_peers health [] ro = ro"
| "register_peers health (i # ids) ro =
     (let (k, slots) = slot_register (peer_queue_weight_for (Some i) health) (ro_slots ro) in
      register_peers health ids (ro\<lparr>ro_slots := slots, ro_senders := (ro_senders ro)(i \<mapsto> k)\<rparr>))"

definition route_outbound :: "(bytes \<times> PeerInfo) list \<Rightarrow> PeerHealthTracker option \<Rightarrow> ForwardedPacket \<Rightarrow> router \<Rightarrow> router" where
  "route_outbound peer_table health fwd ro =
     (case (ro_exit ro, map_of peer_table (fwd_next_hop fwd)) of
        (Some out, None) \<Rightarrow>
          ro\<lparr>ro_trace := record_exit (of_nat SPHINX_FRAGMENT_COUNT) (ro_trace ro), ro_exit := Some (out @ [fwd_packet fwd])\<rparr>
      | (None, None) \<Rightarrow> ro
      | (_, Some _) \<Rightarrow>
          (case ro_senders ro (fwd_next_hop fwd) of
             None \<Rightarrow> ro
           | Some k \<Rightarrow>
               (let slots = slot_set_weight k (peer_queue_weight_for (Some (fwd_next_hop fwd)) health) (ro_slots ro);
                    (slots, dropped) = slot_enqueue PER_PEER_OUTBOUND_CAPACITY k fwd slots (ro_dropped ro)
                in ro\<lparr>ro_slots := slots, ro_dropped := dropped\<rparr>)))"

text \<open>One round of the outbound drain.\<close>

definition outbound_drain_step ::
    "('xs, 'ms, 'mp, 'r) crypto_lib \<Rightarrow> 'h noise_lib \<Rightarrow> aead_lib \<Rightarrow> 'w network \<Rightarrow> LinkBridgeConfig \<Rightarrow> (bytes \<times> PeerInfo) list
      \<Rightarrow> router \<times> ('w, 'r) egress \<Rightarrow> router \<times> ('w, 'r) egress" where
  "outbound_drain_step L N A connect c peer_table st =
     (let (ro, eg) = st in
      case fair_wfq_take_one (ro_slots ro) (ro_cursor ro) of
        (None, slots, cursor) \<Rightarrow> (ro\<lparr>ro_slots := slots, ro_cursor := cursor\<rparr>, eg)
      | (Some fwd, slots, cursor) \<Rightarrow>
          (let ro = ro\<lparr>ro_slots := slots, ro_cursor := cursor\<rparr> in
           case map_of peer_table (fwd_next_hop fwd) of
             None \<Rightarrow> (ro, eg)
           | Some peer \<Rightarrow>
               (case forward_to_peer L N A connect c (fwd_next_hop fwd) peer (fwd_packet fwd) eg of
                  (Inr _, eg) \<Rightarrow> (ro\<lparr>ro_trace := record_forward (of_nat SPHINX_FRAGMENT_COUNT) (ro_trace ro)\<rparr>, eg)
                | (Inl _, eg) \<Rightarrow> (ro, eg))))"

section \<open>A send has one outcome\<close>

lemma get_or_handshake_frame:
  assumes "get_or_handshake L N connect c peer_id peer st = (r, st')"
  shows "eg_health st' = eg_health st \<and> eg_clock st' = eg_clock st \<and> (\<forall>a. a \<noteq> peer_addr peer \<longrightarrow> eg_pool st' a = eg_pool st a)
    \<and> (\<forall>conn. r = Inr conn \<longrightarrow> eg_pool st' (peer_addr peer) = Some conn)"
  using assms by (auto simp: get_or_handshake_def split: option.splits prod.splits sum.splits)

lemma write_on_frame:
  assumes "write_on wr peer (s, key) st = (r, st')"
  shows "eg_health st' = eg_health st \<and> (\<forall>a. a \<noteq> peer_addr peer \<longrightarrow> eg_pool st' a = eg_pool st a)
    \<and> (\<exists>s'. wr key (s, eg_rng st) (eg_clock st) = (r, (s', eg_rng st'), eg_clock st') \<and> eg_pool st' (peer_addr peer) = Some (s', key))"
  using assms by (auto simp: write_on_def split: prod.splits)

lemma pooled_send_frame:
  assumes "pooled_send L N connect c wr peer_id peer st = (r, st')"
  shows "eg_health st' = record_peer_outcome (eg_health st) peer_id (r = Inr ())
    \<and> (\<forall>a. a \<noteq> peer_addr peer \<longrightarrow> eg_pool st' a = eg_pool st a)
    \<and> (r = Inr () \<longrightarrow> (\<exists>s key s' rng now. wr key (s, rng) now = (Inr (), (s', eg_rng st'), eg_clock st')
        \<and> eg_pool st' (peer_addr peer) = Some (s', key)))"
proof -
  note finish = eg_outcome_def
  obtain g st1 where g: "get_or_handshake L N connect c peer_id peer st = (g, st1)" by fastforce
  note fg = get_or_handshake_frame[OF g]
  show ?thesis
  proof (cases g)
    case (Inl e)
    then show ?thesis using assms fg g by (auto simp: pooled_send_def finish)
  next
    case (Inr conn)
    obtain s key where conn: "conn = (s, key)" by (cases conn)
    obtain x st2 where w: "write_on wr peer (s, key) st1 = (x, st2)" by fastforce
    note fw = write_on_frame[OF w]
    show ?thesis
    proof (cases x)
      case x: (Inr u)
      have eq: "r = Inr ()" "st' = eg_outcome peer_id True st2" using assms g Inr conn w x by (simp_all add: pooled_send_def)
      obtain s' where "wr key (s, eg_rng st1) (eg_clock st1) = (Inr (), (s', eg_rng st2), eg_clock st2)" "eg_pool st2 (peer_addr peer) = Some (s', key)"
        using fw x by auto
      then show ?thesis using eq fg fw by (auto simp: finish)
    next
      case x: (Inl e)
      show ?thesis
      proof (cases "e = NetIo \<or> e = ReadTimeout")
        case False
        then show ?thesis using assms g Inr conn w x fg fw by (auto simp: pooled_send_def finish)
      next
        case True
        let ?st = "st2\<lparr>eg_pool := (eg_pool st2)(peer_addr peer := None)\<rparr>"
        obtain g2 st3 where g2: "get_or_handshake L N connect c peer_id peer ?st = (g2, st3)" by fastforce
        note fg2 = get_or_handshake_frame[OF g2]
        show ?thesis
        proof (cases g2)
          case (Inl e2)
          then show ?thesis using assms g Inr conn w x True g2 fg fw fg2 by (auto simp: pooled_send_def finish reconnect_def)
        next
          case g2r: (Inr conn2)
          obtain s2 key2 where conn2: "conn2 = (s2, key2)" by (cases conn2)
          obtain y st4 where w2: "write_on wr peer (s2, key2) st3 = (y, st4)" by fastforce
          note fw2 = write_on_frame[OF w2]
          have eq: "r = y \<and> st' = eg_outcome peer_id (y = Inr ()) st4"
            using assms g Inr conn w x True g2 g2r conn2 w2 by (cases y) (auto simp: pooled_send_def reconnect_def)
          obtain s' where s': "wr key2 (s2, eg_rng st3) (eg_clock st3) = (y, (s', eg_rng st4), eg_clock st4)" "eg_pool st4 (peer_addr peer) = Some (s', key2)"
            using fw2 by blast
          have "y = Inr () \<longrightarrow> (\<exists>s key s' rng now. wr key (s, rng) now = (Inr (), (s', eg_rng st4), eg_clock st4) \<and> eg_pool st4 (peer_addr peer) = Some (s', key))"
            using s' by blast
          moreover have "eg_health st4 = eg_health st" "\<forall>a. a \<noteq> peer_addr peer \<longrightarrow> eg_pool st4 a = eg_pool st a" using fg fw fg2 fw2 by simp_all
          ultimately show ?thesis using eq by (simp add: finish)
        qed
      qed
    qed
  qed
qed

text \<open>
  C31. Sending a packet to the next relay: exactly one outcome, the true one, goes to the peer's health record; connections to other
  addresses are untouched; and a success means that the peer's connection now carries the frames of the whole packet, fragmented under
  one packet id and sealed under the key of that connection's handshake.
\<close>

theorem forward_to_peer_outcome:
  assumes "lib_lengths L" "aead_laws A" "wf_packet p"
    and "forward_to_peer L N A connect c peer_id peer p st = (r, st')"
  shows "eg_health st' = record_peer_outcome (eg_health st) peer_id (r = Inr ())
    \<and> (\<forall>a. a \<noteq> peer_addr peer \<longrightarrow> eg_pool st' a = eg_pool st a)
    \<and> (r = Inr () \<longrightarrow> (\<exists>s' key pid fs sent. eg_pool st' (peer_addr peer) = Some (s', key) \<and> length pid = 8
        \<and> st_out s' = sent @ concat fs
        \<and> list_all2 (\<lambda>f cell. length f = LINK_FRAME_LEN \<and> link_open A key f = Inr cell) fs (fragment p pid)))"
proof -
  note frame = pooled_send_frame[OF assms(4)[unfolded forward_to_peer_def]]
  have fill: "length (fst (lib_fill_bytes L rng n)) = n" for rng n using assms(1) by (simp add: lib_lengths_def)
  have carried: "\<exists>pid fs. length pid = 8 \<and> st_out s' = st_out s @ concat fs
      \<and> list_all2 (\<lambda>f cell. length f = LINK_FRAME_LEN \<and> link_open A key f = Inr cell) fs (fragment p pid)"
    if w: "write_packet_with_key A (lib_fill_bytes L) key p (s, rng) = (Inr (), s', rng')" for key s rng s' rng'
  proof -
    obtain pid rng1 where pid: "lib_fill_bytes L rng 8 = (pid, rng1)" by fastforce
    have len: "length pid = 8" using fill[of rng 8] pid by simp
    have cells: "list_all wf_cell (fragment p pid)" using wf_fragment[OF len] by (simp add: list_all_iff)
    have w1: "write_cells A (lib_fill_bytes L) key (fragment p pid) (s, rng1) = (Inr (), s', rng')"
      using w pid by (simp add: write_packet_with_key_def fragment_with_random_id_def)
    obtain fs where "list_all2 (\<lambda>f cell. length f = LINK_FRAME_LEN \<and> link_open A key f = Inr cell) fs (fragment p pid)"
        "st_out s' = st_out s @ concat fs"
      using write_cells_frames[where fill = "lib_fill_bytes L", OF assms(2) fill cells w1] by auto
    then show ?thesis using len by blast
  qed
  show ?thesis
  proof (intro conjI impI)
    assume "r = Inr ()"
    then obtain s key s' rng now where "(let (r, st) = write_packet_with_key A (lib_fill_bytes L) key p (s, rng) in (r, st, now)) = (Inr (), (s', eg_rng st'), eg_clock st')"
      and pool: "eg_pool st' (peer_addr peer) = Some (s', key)" using frame by blast
    then have "write_packet_with_key A (lib_fill_bytes L) key p (s, rng) = (Inr (), s', eg_rng st')" by (auto split: prod.splits)
    from carried[OF this] pool show "\<exists>s' key pid fs sent. eg_pool st' (peer_addr peer) = Some (s', key) \<and> length pid = 8
        \<and> st_out s' = sent @ concat fs
        \<and> list_all2 (\<lambda>f cell. length f = LINK_FRAME_LEN \<and> link_open A key f = Inr cell) fs (fragment p pid)" by blast
  qed (use frame in simp_all)
qed

text \<open>A pooled connection that breaks after a few frames, and a network that gives a new stream with the peer's answers.\<close>

definition toy_peer :: PeerInfo where "toy_peer = peer_info_new ''10.0.0.1:9000'' toy_psk"

definition toy_egress :: "(unit, nat) egress" where
  "toy_egress = \<lparr>eg_pool = [''10.0.0.1:9000'' \<mapsto> (toy_stream, toy_psk)], eg_world = (), eg_rng = 4, eg_clock = 0, eg_health = None\<rparr>"

theorem forward_to_peer_outcome_witness:
  "let x = forward_to_peer toy_lib toy_noise toy_aead (\<lambda>_ w. (Inl NetIo, w)) toy_config (replicate 32 1) toy_peer (replicate 8512 5) toy_egress
   in eg_health (snd x) = record_peer_outcome None (replicate 32 1) (fst x = Inr ())
    \<and> (\<forall>a. a \<noteq> peer_addr toy_peer \<longrightarrow> eg_pool (snd x) a = eg_pool toy_egress a)
    \<and> (fst x = Inr () \<longrightarrow> (\<exists>s' key pid fs sent. eg_pool (snd x) (peer_addr toy_peer) = Some (s', key) \<and> length pid = 8
        \<and> st_out s' = sent @ concat fs
        \<and> list_all2 (\<lambda>f cell. length f = LINK_FRAME_LEN \<and> link_open toy_aead key f = Inr cell) fs (fragment (replicate 8512 5) pid)))"
proof -
  have wf: "wf_packet (replicate 8512 5)" by (simp add: wf_packet_def layout_values)
  have h: "eg_health toy_egress = None" by (simp add: toy_egress_def)
  show ?thesis
    unfolding Let_def h[symmetric] by (rule forward_to_peer_outcome[OF toy_laws(1) toy_aead_laws wf surjective_pairing])
qed

section \<open>Cover egress\<close>

text \<open>All cover leaves through one peer, the one with the least address.\<close>

lemma cover_egress_least:
  assumes "pick_cover_egress addr_key peer_table = Some (i, p)"
  shows "(i, p) \<in> set peer_table \<and> (\<forall>(j, q) \<in> set peer_table. addr_key (peer_addr p) \<le> addr_key (peer_addr q))"
proof -
  let ?k = "\<lambda>(_ :: bytes, p). addr_key (peer_addr p)"
  obtain xs where xs: "sort_key ?k peer_table = (i, p) # xs" using assms by (auto simp: pick_cover_egress_def split: list.splits)
  have "sorted (map ?k ((i, p) # xs))" by (metis sorted_sort_key xs)
  moreover have "set ((i, p) # xs) = set peer_table" by (metis set_sort xs)
  ultimately show ?thesis by auto
qed

section \<open>Routing\<close>

text \<open>A forwarded packet has one fate: the exit, its peer's queue, the drop counter, or, with neither peer nor exit, nothing.\<close>

lemma route_outbound_fate:
  "route_outbound peer_table health fwd ro =
    (if map_of peer_table (fwd_next_hop fwd) = None
     then (case ro_exit ro of None \<Rightarrow> ro
         | Some out \<Rightarrow> ro\<lparr>ro_trace := record_exit (of_nat SPHINX_FRAGMENT_COUNT) (ro_trace ro), ro_exit := Some (out @ [fwd_packet fwd])\<rparr>)
     else (case ro_senders ro (fwd_next_hop fwd) of None \<Rightarrow> ro
         | Some k \<Rightarrow> ro\<lparr>ro_slots := fst (slot_enqueue PER_PEER_OUTBOUND_CAPACITY k fwd
               (slot_set_weight k (peer_queue_weight_for (Some (fwd_next_hop fwd)) health) (ro_slots ro)) (ro_dropped ro)),
             ro_dropped := snd (slot_enqueue PER_PEER_OUTBOUND_CAPACITY k fwd
               (slot_set_weight k (peer_queue_weight_for (Some (fwd_next_hop fwd)) health) (ro_slots ro)) (ro_dropped ro))\<rparr>))"
  by (simp add: route_outbound_def Let_def split: option.split prod.split)

section \<open>Shutting down\<close>

text \<open>
  The drain after the router is done: it runs until every queue is empty, and \<open>fuel\<close> is the number of rounds left. The first component of the result is what was
  taken, in order.
\<close>

fun outbound_drain_loop ::
    "nat \<Rightarrow> ('xs, 'ms, 'mp, 'r) crypto_lib \<Rightarrow> 'h noise_lib \<Rightarrow> aead_lib \<Rightarrow> 'w network \<Rightarrow> LinkBridgeConfig \<Rightarrow> (bytes \<times> PeerInfo) list
      \<Rightarrow> router \<times> ('w, 'r) egress \<Rightarrow> (ForwardedPacket list \<times> router \<times> ('w, 'r) egress) option" where
  "outbound_drain_loop 0 L N A connect c peer_table st = None"
| "outbound_drain_loop (Suc fuel) L N A connect c peer_table st =
     (if ro_slots (fst st) = [] \<or> all_outbound_slots_empty (ro_slots (fst st)) then Some ([], st)
      else map_option (\<lambda>(out, st'). ((case fst (fair_wfq_take_one (ro_slots (fst st)) (ro_cursor (fst st))) of None \<Rightarrow> [] | Some fwd \<Rightarrow> [fwd]) @ out, st'))
        (outbound_drain_loop fuel L N A connect c peer_table (outbound_drain_step L N A connect c peer_table st)))"

definition queued :: "'a slots \<Rightarrow> 'a list" where
  "queued slots = concat (map (\<lambda>s. case s of None \<Rightarrow> [] | Some s \<Rightarrow> rx_items s) slots)"

lemma queued_update:
  assumes "i < length slots"
  shows "mset (queued (slots[i := t])) + mset (case slots ! i of None \<Rightarrow> [] | Some s \<Rightarrow> rx_items s)
    = mset (queued slots) + mset (case t of None \<Rightarrow> [] | Some s \<Rightarrow> rx_items s)"
proof -
  let ?f = "\<lambda>s :: 'a FairPeerSlot option. case s of None \<Rightarrow> [] | Some s \<Rightarrow> rx_items s"
  have s: "slots = take i slots @ slots ! i # drop (Suc i) slots" using assms by (simp add: id_take_nth_drop)
  have q: "mset (queued (xs @ y # ys)) = mset (queued xs) + mset (?f y) + mset (queued ys)" for xs y ys by (simp add: queued_def)
  show ?thesis by (subst s, subst (2) s) (simp add: assms upd_conv_take_nth_drop q)
qed

lemma slot_visit_items:
  "case slot_visit s of (Served x adv, s') \<Rightarrow> rx_items s = x # rx_items s' | (_, s') \<Rightarrow> rx_items s = [] \<and> rx_items s' = []"
  by (cases "rx_items s") (simp_all add: slot_visit_def Let_def)

lemma wfq_scan_conserves:
  assumes "slots \<noteq> []" "wfq_scan fuel k slots cursor = (r, slots', cursor')"
  shows "mset (queued slots) = mset (case r of None \<Rightarrow> [] | Some x \<Rightarrow> [x]) + mset (queued slots')"
  using assms
proof (induction fuel arbitrary: k slots)
  case (Suc fuel)
  let ?i = "(cursor + k) mod length slots"
  have i: "?i < length slots" using Suc.prems(1) by simp
  show ?case
  proof (cases "slots ! ?i")
    case None
    then show ?thesis using Suc.prems Suc.IH[of slots "k + 1"] by (simp add: Let_def)
  next
    case (Some s)
    obtain v s' where v: "slot_visit s = (v, s')" by fastforce
    note items = slot_visit_items[of s, unfolded v prod.case]
    show ?thesis
    proof (cases v)
      case (Served x adv)
      then have "r = Some x" "slots' = slots[?i := Some s']" using Suc.prems(2) Some v by (simp_all add: Let_def)
      then show ?thesis using queued_update[OF i, of "Some s'"] Some items Served by simp
    next
      case Disconnected
      then show ?thesis
        using Suc.prems Suc.IH[of "slots[?i := None]" "k + 1"] Some v items queued_update[OF i, of None] by (simp add: Let_def)
    next
      case Skipped
      then show ?thesis
        using Suc.prems Suc.IH[of "slots[?i := Some s']" "k + 1"] Some v items queued_update[OF i, of "Some s'"] by (simp add: Let_def)
    qed
  qed
qed simp

lemma take_conserves:
  "fair_wfq_take_one slots cursor = (r, slots', cursor')
    \<Longrightarrow> mset (queued slots) = mset (case r of None \<Rightarrow> [] | Some x \<Rightarrow> [x]) + mset (queued slots')"
  using wfq_scan_conserves[of slots "length slots" 0 cursor r slots' cursor'] by (auto simp: fair_wfq_take_one_def split: if_splits)

lemma take_some:
  assumes "hub_wf slots" "\<not> all_outbound_slots_empty slots" "fair_wfq_take_one slots cursor = (r, slots', cursor')"
  shows "r \<noteq> None \<and> hub_wf slots'"
proof -
  obtain i s x xs where i: "i < length slots" "slots ! i = Some s" "rx_items s = x # xs"
    using assms(2) by (auto simp: all_outbound_slots_empty_def list_all_length neq_Nil_conv split: option.splits)
  from take_progress[OF assms(1) i waits_initially[OF assms(1) i(1)] assms(3)] show ?thesis by auto
qed

text \<open>
  C32. The bridge shuts down: with nothing more routed, the outbound drain returns after one round for each queued packet and one more, all queues
  are empty, and every queued packet was taken exactly once, whatever the network does.
\<close>

theorem outbound_drain_terminates:
  assumes "hub_wf (ro_slots (fst st))" "length (queued (ro_slots (fst st))) < fuel"
  shows "\<exists>out ro eg. outbound_drain_loop fuel L N A connect c peer_table st = Some (out, ro, eg)
    \<and> all_outbound_slots_empty (ro_slots ro) \<and> mset out = mset (queued (ro_slots (fst st)))"
  using assms
proof (induction fuel arbitrary: st)
  case (Suc fuel)
  obtain ro eg where st: "st = (ro, eg)" by (cases st)
  show ?case
  proof (cases "all_outbound_slots_empty (ro_slots ro)")
    case True
    then have "queued (ro_slots ro) = []" by (auto simp: queued_def all_outbound_slots_empty_def list_all_iff split: option.splits)
    then show ?thesis using True by (simp add: st)
  next
    case False
    then have ne: "ro_slots ro \<noteq> []" by (auto simp: all_outbound_slots_empty_def)
    obtain r slots cursor where t: "fair_wfq_take_one (ro_slots ro) (ro_cursor ro) = (r, slots, cursor)" by (metis prod_cases3)
    have wf: "hub_wf (ro_slots ro)" using Suc.prems(1) st by simp
    obtain fwd where r: "r = Some fwd" "hub_wf slots" using take_some[OF wf False t] by auto
    have q: "mset (queued (ro_slots ro)) = {#fwd#} + mset (queued slots)" using take_conserves[OF t] r by simp
    obtain ro1 eg1 where s1: "outbound_drain_step L N A connect c peer_table st = (ro1, eg1)" by fastforce
    have slots1: "ro_slots ro1 = slots"
      using s1 t r by (auto simp: outbound_drain_step_def st Let_def split: option.splits prod.splits sum.splits)
    have "length (queued slots) < fuel" using Suc.prems(2) arg_cong[OF q, of size] by (simp add: st)
    then obtain out ro2 eg2 where "outbound_drain_loop fuel L N A connect c peer_table (ro1, eg1) = Some (out, ro2, eg2)"
        "all_outbound_slots_empty (ro_slots ro2)" "mset out = mset (queued slots)"
      using Suc.IH[of "(ro1, eg1)"] slots1 r(2) by auto
    then show ?thesis using False ne s1 t r q by (simp add: st)
  qed
qed simp

definition toy_router :: router where
  "toy_router = \<lparr>ro_slots = [None, Some \<lparr>rx_items = [\<lparr>fwd_next_hop = replicate 32 1, fwd_packet = replicate 8512 5, fwd_delay = Fin 0\<rparr>],
       rx_connected = True, slot_weight = 1, slot_credits = 0\<rparr>],
     ro_senders = Map.empty, ro_dropped = 0, ro_exit = None, ro_trace = None, ro_cursor = 0\<rparr>"

theorem outbound_drain_terminates_witness:
  "\<exists>out ro eg. outbound_drain_loop 2 toy_lib toy_noise toy_aead (\<lambda>_ w. (Inl NetIo, w)) toy_config [(replicate 32 1, toy_peer)] (toy_router, toy_egress)
      = Some (out, ro, eg)
    \<and> all_outbound_slots_empty (ro_slots ro) \<and> mset out = mset (queued (ro_slots (fst (toy_router, toy_egress))))"
  by (rule outbound_drain_terminates) (simp_all add: toy_router_def hub_wf_def MAX_PEER_QUEUE_WEIGHT_def queued_def)

end
