(* ===== verification/Beacon.thy ===== *)
theory Beacon
  imports Layers
begin

text \<open>
  The randomness beacon and the cover committee, \<^verbatim>\<open>crates/aegis-topology/src/beacon.rs\<close>. The threshold BLS
  signatures of the \<open>blsttc\<close> crate are the primitives \<open>B\<close> and SHA3-256 is \<open>H\<close>. A \<open>BTreeMap\<close> is the list of its entries in
  ascending order of the keys.
\<close>

section \<open>Ordered maps\<close>

fun btree_insert :: "'k :: linorder \<Rightarrow> 'v \<Rightarrow> ('k \<times> 'v) list \<Rightarrow> ('k \<times> 'v) list" where
  "btree_insert k v [] = [(k, v)]"
| "btree_insert k v ((k', v') # xs) =
     (if k < k' then (k, v) # (k', v') # xs else if k = k' then (k, v) # xs else (k', v') # btree_insert k v xs)"

definition btree_ok :: "('k :: linorder \<times> 'v) list \<Rightarrow> bool" where
  "btree_ok m \<longleftrightarrow> sorted_wrt (<) (map fst m)"

lemma set_btree_insert: "btree_ok m \<Longrightarrow> set (btree_insert k v m) = insert (k, v) {e \<in> set m. fst e \<noteq> k}"
proof (induction m)
  case (Cons e m)
  obtain a b where e: "e = (a, b)" by (cases e)
  have a: "\<forall>x \<in> set m. a < fst x" "btree_ok m" using Cons.prems by (simp_all add: e btree_ok_def)
  consider "k < a" | "k = a" | "a < k" by (rule linorder_less_linear[THEN disjE]) auto
  then show ?case
  proof cases
    case 1
    then have "\<forall>x \<in> set m. fst x \<noteq> k" using a(1) by fastforce
    then show ?thesis using 1 by (auto simp: e)
  next
    case 2
    then have "\<forall>x \<in> set m. fst x \<noteq> k" using a(1) by fastforce
    then show ?thesis using 2 by (auto simp: e)
  next
    case 3
    then show ?thesis using Cons.IH[OF a(2)] by (auto simp: e)
  qed
qed simp

lemma btree_ok_insert: "btree_ok m \<Longrightarrow> btree_ok (btree_insert k v m)"
proof (induction m)
  case (Cons e m)
  obtain a b where e: "e = (a, b)" by (cases e)
  have "btree_ok m" using Cons.prems by (simp add: btree_ok_def)
  then show ?case using Cons set_btree_insert[of m k v] unfolding e by (auto simp: btree_ok_def)
qed (simp add: btree_ok_def)

lemma map_of_btree_insert: "map_of (btree_insert k v m) = (map_of m)(k \<mapsto> v)"
  by (induction m) auto

lemma btree_ok_distinct: "btree_ok m \<Longrightarrow> distinct (map fst m)"
  by (induction m) (auto simp: btree_ok_def)

section \<open>Threshold signatures\<close>

record ('sks, 'sk, 'pks, 'pk, 'sig, 'share, 'r) bls_lib =
  bls_random :: "nat \<Rightarrow> 'r \<Rightarrow> 'sks \<times> 'r"
  bls_public_keys :: "'sks \<Rightarrow> 'pks"
  bls_secret_key_share :: "'sks \<Rightarrow> nat \<Rightarrow> 'sk"
  bls_sign_share :: "'sk \<Rightarrow> bytes \<Rightarrow> 'share"
  bls_public_key :: "'pks \<Rightarrow> 'pk"
  bls_public_key_share :: "'pks \<Rightarrow> nat \<Rightarrow> 'pk"
  bls_verify_share :: "'pk \<Rightarrow> 'share \<Rightarrow> bytes \<Rightarrow> bool"
  bls_verify :: "'pk \<Rightarrow> 'sig \<Rightarrow> bytes \<Rightarrow> bool"
  bls_combine :: "'pks \<Rightarrow> (nat \<times> 'share) list \<Rightarrow> 'sig option"
  bls_sig_bytes :: "'sig \<Rightarrow> bytes"

text \<open>
  The documented behaviour of threshold BLS: a key set of threshold \<open>d\<close> makes shares that verify, any \<open>d + 1\<close> of them from different
  holders combine to the one signature of the set, which verifies, and fewer do not combine.
\<close>

definition bls_laws :: "('sks, 'sk, 'pks, 'pk, 'sig, 'share, 'r) bls_lib \<Rightarrow> bool" where
  "bls_laws B \<longleftrightarrow> (\<forall>d rng sks rng'. bls_random B d rng = (sks, rng') \<longrightarrow>
     (\<forall>msg. (\<forall>i. bls_verify_share B (bls_public_key_share B (bls_public_keys B sks) i) (bls_sign_share B (bls_secret_key_share B sks i) msg) msg)
       \<and> (\<exists>s. bls_verify B (bls_public_key B (bls_public_keys B sks)) s msg
            \<and> (\<forall>ids. distinct ids \<longrightarrow> bls_combine B (bls_public_keys B sks) (map (\<lambda>i. (i, bls_sign_share B (bls_secret_key_share B sks i) msg)) ids)
                = (if d < length ids then Some s else None)))))"

section \<open>The beacons\<close>

datatype BeaconError = NoSharesForRound u64 | InsufficientShares | InvalidBeaconShare nat | InvalidCombinedSignature | ParticipantOutOfRange nat

definition beacon_round_message :: "u64 \<Rightarrow> bytes" where
  "beacon_round_message rd = ascii ''aegis-beacon-v1'' @ u64_to_le rd"

definition hash_combined_signature :: "(bytes \<Rightarrow> bytes) \<Rightarrow> ('sks, 'sk, 'pks, 'pk, 'sig, 'share, 'r) bls_lib \<Rightarrow> 'sig \<Rightarrow> bytes" where
  "hash_combined_signature H B s = H (bls_sig_bytes B s)"

record ('pks, 'share) ThresholdBeacon =
  tb_pk_set :: 'pks
  shares_by_round :: "(u64 \<times> (nat \<times> 'share) list) list"

definition beacon_new :: "'pks \<Rightarrow> ('pks, 'share) ThresholdBeacon" where
  "beacon_new pks = \<lparr>tb_pk_set = pks, shares_by_round = []\<rparr>"

definition add_shares :: "u64 \<Rightarrow> (nat \<times> 'share) list \<Rightarrow> ('pks, 'share) ThresholdBeacon \<Rightarrow> ('pks, 'share) ThresholdBeacon" where
  "add_shares rd shares b =
     (let entry = (case map_of (shares_by_round b) rd of None \<Rightarrow> [] | Some m \<Rightarrow> m) in
      b\<lparr>shares_by_round := btree_insert rd (fold (\<lambda>(i, s). btree_insert i s) shares entry) (shares_by_round b)\<rparr>)"

definition from_quorum :: "'pks \<Rightarrow> u64 \<Rightarrow> (nat \<times> 'share) list \<Rightarrow> ('pks, 'share) ThresholdBeacon" where
  "from_quorum pks rd shares = add_shares rd shares (beacon_new pks)"

definition randomness_result ::
    "(bytes \<Rightarrow> bytes) \<Rightarrow> ('sks, 'sk, 'pks, 'pk, 'sig, 'share, 'r) bls_lib \<Rightarrow> ('pks, 'share) ThresholdBeacon \<Rightarrow> u64 \<Rightarrow> (BeaconError, bytes) result" where
  "randomness_result H B b rd =
     (case map_of (shares_by_round b) rd of
        None \<Rightarrow> Inl (NoSharesForRound rd)
      | Some shares \<Rightarrow>
          (let msg = beacon_round_message rd in
           case find (\<lambda>(i, s). \<not> bls_verify_share B (bls_public_key_share B (tb_pk_set b) i) s msg) shares of
             Some (i, _) \<Rightarrow> Inl (InvalidBeaconShare i)
           | None \<Rightarrow>
               (case bls_combine B (tb_pk_set b) shares of
                  None \<Rightarrow> Inl InsufficientShares
                | Some combined \<Rightarrow>
                    if \<not> bls_verify B (bls_public_key B (tb_pk_set b)) combined msg then Inl InvalidCombinedSignature
                    else Inr (hash_combined_signature H B combined))))"

text \<open>The trait's infallible path.\<close>

definition threshold_randomness ::
    "(bytes \<Rightarrow> bytes) \<Rightarrow> ('sks, 'sk, 'pks, 'pk, 'sig, 'share, 'r) bls_lib \<Rightarrow> ('pks, 'share) ThresholdBeacon \<Rightarrow> u64 \<Rightarrow> bytes" where
  "threshold_randomness H B b rd =
     (case randomness_result H B b rd of
        Inr r \<Rightarrow> r | Inl _ \<Rightarrow> H (ascii ''aegis-beacon-missing-quorum'' @ u64_to_le rd))"

record 'sk BeaconParticipant =
  part_index :: nat
  part_share :: 'sk

definition sign_round :: "('sks, 'sk, 'pks, 'pk, 'sig, 'share, 'r) bls_lib \<Rightarrow> 'sk BeaconParticipant \<Rightarrow> u64 \<Rightarrow> 'share" where
  "sign_round B p rd = bls_sign_share B (part_share p) (beacon_round_message rd)"

record ('pks, 'sk) ThresholdBeaconCommittee =
  bc_pk_set :: 'pks
  bc_participants :: "'sk BeaconParticipant list"
  reconstruction_threshold :: nat
  committee_size :: nat

text \<open>\<open>None\<close> is the panic of a failed assertion.\<close>

definition dealer_setup ::
    "('sks, 'sk, 'pks, 'pk, 'sig, 'share, 'r) bls_lib \<Rightarrow> nat \<Rightarrow> nat \<Rightarrow> 'r \<Rightarrow> (('pks, 'sk) ThresholdBeaconCommittee \<times> 'r) option" where
  "dealer_setup B n t rng =
     (if \<not> 1 \<le> t \<or> \<not> t \<le> n then None
      else let (sks, rng) = bls_random B (t - 1) rng in
        Some (\<lparr>bc_pk_set = bls_public_keys B sks,
               bc_participants = map (\<lambda>i. \<lparr>part_index = i, part_share = bls_secret_key_share B sks i\<rparr>) [0..<n],
               reconstruction_threshold = t, committee_size = n\<rparr>, rng))"

fun collect_shares ::
    "('sks, 'sk, 'pks, 'pk, 'sig, 'share, 'r) bls_lib \<Rightarrow> ('pks, 'sk) ThresholdBeaconCommittee \<Rightarrow> u64 \<Rightarrow> nat list \<Rightarrow> (nat \<times> 'share) list
      \<Rightarrow> (BeaconError, (nat \<times> 'share) list) result" where
  "collect_shares B c rd [] shares = Inr shares"
| "collect_shares B c rd (i # ids) shares =
     (if \<not> i < length (bc_participants c) then Inl (ParticipantOutOfRange i)
      else let share = sign_round B (bc_participants c ! i) rd in
        if \<not> bls_verify_share B (bls_public_key_share B (bc_pk_set c) i) share (beacon_round_message rd) then Inl (InvalidBeaconShare i)
        else collect_shares B c rd ids (btree_insert i share shares))"

definition build_beacon_for_round ::
    "('sks, 'sk, 'pks, 'pk, 'sig, 'share, 'r) bls_lib \<Rightarrow> ('pks, 'sk) ThresholdBeaconCommittee \<Rightarrow> u64 \<Rightarrow> nat list
      \<Rightarrow> (BeaconError, ('pks, 'share) ThresholdBeacon) result" where
  "build_beacon_for_round B c rd ids =
     bind_result (collect_shares B c rd ids []) (\<lambda>shares. Inr (from_quorum (bc_pk_set c) rd shares))"

definition hash_chain_randomness :: "(bytes \<Rightarrow> bytes) \<Rightarrow> bytes \<Rightarrow> u64 \<Rightarrow> bytes" where
  "hash_chain_randomness H seed rd = H (ascii ''aegis-beacon-v1'' @ seed @ u64_to_le rd)"

definition round_at :: "f64 \<Rightarrow> f64 \<Rightarrow> nat" where
  "round_at time_s round_period_s = f64_to_u64 (f64_max (f64_floor (f64_div time_s round_period_s)) (Fin 0))"

section \<open>Committees\<close>

text \<open>The first eight bytes of the digest, or zeros if there are fewer.\<close>

definition committee_draw :: "(bytes \<Rightarrow> bytes) \<Rightarrow> bytes \<Rightarrow> nat \<Rightarrow> nat" where
  "committee_draw H randomness i =
     (let digest = H (randomness @ u64_to_le (of_nat i)) in
      unat (u64_from_le (if 8 \<le> length digest then take 8 digest else replicate 8 0)))"

fun committee_loop :: "(bytes \<Rightarrow> bytes) \<Rightarrow> bytes \<Rightarrow> nat \<Rightarrow> nat \<Rightarrow> 'a list \<Rightarrow> 'a list" where
  "committee_loop H randomness 0 i candidates = candidates"
| "committee_loop H randomness (Suc n) i candidates =
     (let j = i + committee_draw H randomness i mod (length candidates - i)
      in committee_loop H randomness n (i + 1) (swap candidates i j))"

definition committee_from_randomness :: "(bytes \<Rightarrow> bytes) \<Rightarrow> bytes \<Rightarrow> 'a list \<Rightarrow> nat \<Rightarrow> 'a list" where
  "committee_from_randomness H randomness pool n =
     (if pool = [] \<or> n = 0 then []
      else take (min n (length pool)) (committee_loop H randomness (min n (length pool)) 0 pool))"

definition committee_for_round :: "(bytes \<Rightarrow> bytes) \<Rightarrow> (u64 \<Rightarrow> bytes) \<Rightarrow> 'a list \<Rightarrow> u64 \<Rightarrow> nat \<Rightarrow> 'a list" where
  "committee_for_round H beacon pool rd n = committee_from_randomness H (beacon rd) pool n"

section \<open>Every quorum gives the same randomness\<close>

lemma sorted_keys: "btree_ok m \<Longrightarrow> map fst m = sorted_list_of_set (fst ` set m)"
  by (metis btree_ok_def image_set sorted_list_of_set.idem_if_sorted_distinct strict_sorted_iff)

lemma collect_shares_ok:
  assumes "\<And>i. i < length (bc_participants c) \<Longrightarrow>
      bls_verify_share B (bls_public_key_share B (bc_pk_set c) i) (sign_round B (bc_participants c ! i) rd) (beacon_round_message rd)"
    and "btree_ok shares" "\<forall>(i, s) \<in> set shares. s = sign_round B (bc_participants c ! i) rd"
    and "\<forall>i \<in> set ids. i < length (bc_participants c)"
  shows "\<exists>m. collect_shares B c rd ids shares = Inr m \<and> btree_ok m \<and> fst ` set m = fst ` set shares \<union> set ids
    \<and> (\<forall>(i, s) \<in> set m. s = sign_round B (bc_participants c ! i) rd)"
  using assms(2-)
proof (induction ids arbitrary: shares)
  case (Cons i ids)
  let ?s = "sign_round B (bc_participants c ! i) rd"
  have i: "i < length (bc_participants c)" using Cons.prems(3) by simp
  note set = set_btree_insert[OF Cons.prems(1), of i ?s]
  have "\<forall>(k, s) \<in> set (btree_insert i ?s shares). s = sign_round B (bc_participants c ! k) rd" using Cons.prems(2) unfolding set by auto
  moreover have "fst ` set (btree_insert i ?s shares) = insert i (fst ` set shares)" unfolding set by force
  ultimately show ?case
    using Cons.IH[OF btree_ok_insert[OF Cons.prems(1), of i ?s]] Cons.prems(3) assms(1)[OF i] i by (simp add: Let_def)
qed simp

lemma fold_btree_insert_same:
  assumes "btree_ok m" "btree_ok acc" "fst ` set acc \<inter> fst ` set m = {}"
  shows "btree_ok (fold (\<lambda>(i, s). btree_insert i s) m acc) \<and> set (fold (\<lambda>(i, s). btree_insert i s) m acc) = set acc \<union> set m"
  using assms
proof (induction m arbitrary: acc)
  case (Cons e m)
  obtain i s where e: "e = (i, s)" by (cases e)
  have m: "btree_ok m" "i \<notin> fst ` set m" using Cons.prems(1) by (auto simp: e btree_ok_def)
  have set: "set (btree_insert i s acc) = insert (i, s) (set acc)" using set_btree_insert[OF Cons.prems(2), of i s] Cons.prems(3) by (auto simp: e)
  have "fst ` set (btree_insert i s acc) \<inter> fst ` set m = {}" using Cons.prems(3) m(2) by (auto simp: set e)
  from Cons.IH[OF m(1) btree_ok_insert[OF Cons.prems(2)] this] show ?case by (auto simp: e set)
qed simp

lemma btree_values: "btree_ok m \<Longrightarrow> m = map (\<lambda>k. (k, the (map_of m k))) (map fst m)"
proof -
  assume "btree_ok m"
  then have "(fst e, the (map_of m (fst e))) = e" if "e \<in> set m" for e
    using map_of_is_SomeI[OF btree_ok_distinct, of m "fst e" "snd e"] that by simp
  then have "map (\<lambda>e. (fst e, the (map_of m (fst e)))) m = m" by (rule map_idI)
  then show ?thesis by (simp add: comp_def)
qed

lemma btree_ext: "btree_ok m \<Longrightarrow> btree_ok m' \<Longrightarrow> set m = set m' \<Longrightarrow> m = m'"
  by (metis btree_ok_distinct btree_values map_of_inject_set sorted_keys)

lemma quorum_randomness:
  assumes B: "bls_laws B" and dealer: "dealer_setup B n t rng = Some (c, rng')"
  shows "\<exists>r. \<forall>ids. (\<forall>i \<in> set ids. i < n) \<longrightarrow> (\<exists>b. build_beacon_for_round B c rd ids = Inr b
    \<and> randomness_result H B b rd = (if t \<le> card (set ids) then Inr r else Inl InsufficientShares))"
proof -
  obtain sks where t: "1 \<le> t" "t \<le> n" and sks: "bls_random B (t - 1) rng = (sks, rng')"
    and c: "c = \<lparr>bc_pk_set = bls_public_keys B sks, bc_participants = map (\<lambda>i. \<lparr>part_index = i, part_share = bls_secret_key_share B sks i\<rparr>) [0..<n],
      reconstruction_threshold = t, committee_size = n\<rparr>"
    using dealer by (auto simp: dealer_setup_def split: if_splits prod.splits)
  let ?msg = "beacon_round_message rd" and ?share = "\<lambda>i. bls_sign_share B (bls_secret_key_share B sks i) (beacon_round_message rd)"
  have ver: "bls_verify_share B (bls_public_key_share B (bls_public_keys B sks) i) (?share i) ?msg" for i
    using B sks unfolding bls_laws_def by blast
  obtain s where s: "bls_verify B (bls_public_key B (bls_public_keys B sks)) s ?msg"
    "\<And>ids. distinct ids \<Longrightarrow> bls_combine B (bls_public_keys B sks) (map (\<lambda>i. (i, ?share i)) ids) = (if t - 1 < length ids then Some s else None)"
    using B sks unfolding bls_laws_def by blast
  have sign: "i < n \<Longrightarrow> sign_round B (bc_participants c ! i) rd = ?share i" for i by (simp add: c sign_round_def)
  show ?thesis
  proof (intro exI[of _ "hash_combined_signature H B s"] allI impI)
    fix ids :: "nat list" assume ids: "\<forall>i \<in> set ids. i < n"
    obtain m where m: "collect_shares B c rd ids [] = Inr m" "btree_ok m" "fst ` set m = set ids"
        "\<forall>(i, x) \<in> set m. x = sign_round B (bc_participants c ! i) rd"
      using collect_shares_ok[of c B rd "[]" ids] ids ver sign by (auto simp: c btree_ok_def)
    let ?b = "from_quorum (bc_pk_set c) rd m"
    have "fold (\<lambda>(i, s). btree_insert i s) m [] = m"
      using fold_btree_insert_same[OF m(2), of "[]"] m(2) by (intro btree_ext) (simp_all add: btree_ok_def)
    then have b: "shares_by_round ?b = [(rd, m)]" "tb_pk_set ?b = bls_public_keys B sks"
      by (simp_all add: from_quorum_def add_shares_def beacon_new_def c)
    have shares: "x = ?share i" if "(i, x) \<in> set m" for i x
    proof -
      have "i < n" using that m(3) ids by force
      then show ?thesis using m(4) that sign by fastforce
    qed
    have "m = map (\<lambda>e. (fst e, ?share (fst e))) m" by (rule map_idI[symmetric]) (use shares in auto)
    then have map: "m = map (\<lambda>i. (i, ?share i)) (map fst m)" by (simp add: comp_def)
    have "find (\<lambda>(i, s). \<not> bls_verify_share B (bls_public_key_share B (bls_public_keys B sks) i) s ?msg) m = None"
      unfolding find_None_iff using shares ver by fastforce
    moreover have "length (map fst m) = card (set ids)"
      using distinct_card[OF btree_ok_distinct[OF m(2)]] m(3) by simp
    then have "bls_combine B (bls_public_keys B sks) m = (if t \<le> card (set ids) then Some s else None)"
      by (subst map) (use s(2)[OF btree_ok_distinct[OF m(2)]] t in auto)
    ultimately have "randomness_result H B ?b rd = (if t \<le> card (set ids) then Inr (hash_combined_signature H B s) else Inl InsufficientShares)"
      using s(1) by (simp add: randomness_result_def b Let_def)
    then show "\<exists>b. build_beacon_for_round B c rd ids = Inr b
        \<and> randomness_result H B b rd = (if t \<le> card (set ids) then Inr (hash_combined_signature H B s) else Inl InsufficientShares)"
      by (intro exI[of _ ?b]) (simp add: build_beacon_for_round_def m(1))
  qed
qed

section \<open>The committee is a sample of the pool\<close>

lemma committee_loop_mset:
  "i + n \<le> length cs \<Longrightarrow> mset (committee_loop H r n i cs) = mset cs"
proof (induction n arbitrary: i cs)
  case (Suc n)
  let ?j = "i + committee_draw H r i mod (length cs - i)"
  have i: "i < length cs" using Suc.prems by simp
  then have "?j < length cs" using mod_less_divisor[of "length cs - i" "committee_draw H r i"] by linarith
  then show ?case using Suc.IH[of "i + 1" "swap cs i ?j"] Suc.prems i by (simp add: Let_def)
qed simp

lemma committee_sample:
  "\<exists>cs. mset cs = mset pool \<and> committee_from_randomness H r pool n = take (min n (length pool)) cs"
proof (cases "pool = [] \<or> n = 0")
  case False
  have "mset (committee_loop H r (min n (length pool)) 0 pool) = mset pool" by (rule committee_loop_mset) simp
  then show ?thesis using False by (auto simp: committee_from_randomness_def)
qed (auto simp: committee_from_randomness_def)

text \<open>
  C33. Everyone assigns the same cover committee: whichever members of a threshold committee sign a round, if at least the threshold of them do,
  the beacon has one value, and the relays chosen from a pool under it are the same, as many as asked for or all, each from
  the pool and none twice; with fewer signers the checked path reports an error.
\<close>

theorem quorum_assigns_committee:
  assumes "bls_laws B" "dealer_setup B n t rng = Some (c, rng')"
    and "\<forall>i \<in> set ids \<union> set js. i < n" "t \<le> card (set ids)" "distinct pool"
    and "build_beacon_for_round B c rd ids = Inr b" "build_beacon_for_round B c rd js = Inr b'"
  shows "let chosen = committee_for_round H (threshold_randomness H B b) pool rd k in
      (if t \<le> card (set js)
       then committee_for_round H (threshold_randomness H B b') pool rd k = chosen
       else randomness_result H B b' rd = Inl InsufficientShares)
      \<and> length chosen = min k (length pool) \<and> set chosen \<subseteq> set pool \<and> distinct chosen"
proof -
  obtain r where r: "\<And>ids. (\<forall>i \<in> set ids. i < n) \<Longrightarrow> \<exists>b. build_beacon_for_round B c rd ids = Inr b
    \<and> randomness_result H B b rd = (if t \<le> card (set ids) then Inr r else Inl InsufficientShares)"
    using quorum_randomness[OF assms(1,2), of rd H] by blast
  have b: "randomness_result H B b rd = Inr r" using r[of ids] assms(3,4,6) by auto
  have b': "randomness_result H B b' rd = (if t \<le> card (set js) then Inr r else Inl InsufficientShares)"
    using r[of js] assms(3,7) by auto
  obtain cs where cs: "mset cs = mset pool" "committee_from_randomness H r pool k = take (min k (length pool)) cs"
    using committee_sample[of pool H r k] by blast
  have pool: "length cs = length pool" "set cs = set pool" "distinct cs"
    using cs(1) assms(5) by (metis size_mset, metis set_mset_mset, metis mset_eq_imp_distinct_iff)
  then show ?thesis
    using b b' set_take_subset[of "min k (length pool)" cs] by (simp add: Let_def committee_for_round_def threshold_randomness_def cs(2))
qed

text \<open>Signatures that carry the message in the clear, shares that name their holder.\<close>

definition toy_bls :: "(nat, nat, nat, nat, bytes, nat \<times> bytes, unit) bls_lib" where
  "toy_bls = \<lparr>bls_random = (\<lambda>d rng. (d, rng)), bls_public_keys = (\<lambda>d. d), bls_secret_key_share = (\<lambda>_ i. i), bls_sign_share = (\<lambda>i msg. (i, msg)),
     bls_public_key = (\<lambda>d. d), bls_public_key_share = (\<lambda>_ i. i), bls_verify_share = (\<lambda>i s msg. s = (i, msg)), bls_verify = (\<lambda>_ s msg. s = msg),
     bls_combine = (\<lambda>d shares. if d < length shares then Some (snd (snd (hd shares))) else None), bls_sig_bytes = (\<lambda>s. s)\<rparr>"

lemma toy_bls_laws: "bls_laws toy_bls"
proof -
  have "(snd (snd (hd (map (\<lambda>i. (i, i, msg)) ids)))) = msg" if "d < length ids" for d :: nat and ids :: "nat list" and msg :: bytes
    using that by (cases ids) simp_all
  then show ?thesis by (auto simp: bls_laws_def toy_bls_def)
qed

definition toy_committee :: "(nat, nat) ThresholdBeaconCommittee" where
  "toy_committee = \<lparr>bc_pk_set = 1, bc_participants = map (\<lambda>i. \<lparr>part_index = i, part_share = i\<rparr>) [0..<4], reconstruction_threshold = 2, committee_size = 4\<rparr>"

theorem quorum_assigns_committee_witness:
  "let b = projr (build_beacon_for_round toy_bls toy_committee 7 [0, 2]); b' = projr (build_beacon_for_round toy_bls toy_committee 7 [3, 2, 0]);
       chosen = committee_for_round (\<lambda>m. m) (threshold_randomness (\<lambda>m. m) toy_bls b) [10, 20, 30 :: nat] 7 2
   in (if 2 \<le> card (set [3, 2, 0 :: nat])
       then committee_for_round (\<lambda>m. m) (threshold_randomness (\<lambda>m. m) toy_bls b') [10, 20, 30] 7 2 = chosen
       else randomness_result (\<lambda>m. m) toy_bls b' 7 = Inl InsufficientShares)
      \<and> length chosen = min 2 (length [10, 20, 30 :: nat]) \<and> set chosen \<subseteq> set [10, 20, 30] \<and> distinct chosen"
proof -
  have c: "dealer_setup toy_bls 4 2 () = Some (toy_committee, ())"
    by (simp add: dealer_setup_def toy_bls_def toy_committee_def)
  have b: "\<exists>b. build_beacon_for_round toy_bls toy_committee 7 ids = Inr b" if "\<forall>i \<in> set ids. i < 4" for ids
    using quorum_randomness[OF toy_bls_laws c] that by blast
  obtain b1 b2 where b12: "build_beacon_for_round toy_bls toy_committee 7 [0, 2] = Inr b1" "build_beacon_for_round toy_bls toy_committee 7 [3, 2, 0] = Inr b2"
    using b[of "[0, 2]"] b[of "[3, 2, 0]"] by auto
  have side: "\<forall>i \<in> set [0, 2] \<union> set [3, 2, 0]. i < (4 :: nat)" "2 \<le> card (set [0, 2 :: nat])" "distinct [10, 20, 30 :: nat]"
    by simp_all
  show ?thesis
    unfolding b12 sum.sel Let_def
    using quorum_assigns_committee[OF toy_bls_laws c side b12, of "\<lambda>m. m" 2, unfolded Let_def] .
qed

end
