(* ===== verification/Ceremony.thy ===== *)
theory Ceremony
  imports Shamir Roster Sphinx_Correct
begin

text \<open>
  The key ceremony of the consortium, \<^verbatim>\<open>crates/aegis-topology/src/ceremony.rs\<close>: \<open>n\<close> authority keys, their public keys, seeds and
  Shamir shares on disk, and a sample admission signed by a threshold of them. A path is the list of its components, the file system
  the map of what its files hold together with the faults the operating system answers with. The failure strings are constructors.
\<close>

section \<open>Files\<close>

type_synonym path = "string list"

record file_store =
  stored :: "path \<Rightarrow> string option"
  write_fault :: "path \<Rightarrow> (string \<times> string option) option"
  mkdir_fault :: "path \<Rightarrow> string option"

text \<open>A failing write reports its error and leaves some content, or no file, behind.\<close>

definition write_restricted :: "path \<Rightarrow> string \<Rightarrow> file_store \<Rightarrow> (string, unit) result \<times> file_store" where
  "write_restricted p text fs =
     (case (if butlast p = [] then None else mkdir_fault fs (butlast p)) of
        Some e \<Rightarrow> (Inl e, fs)
      | None \<Rightarrow>
          (case write_fault fs p of
             Some (e, left) \<Rightarrow> (Inl e, fs\<lparr>stored := (stored fs)(p := left)\<rparr>)
           | None \<Rightarrow> (Inr (), fs\<lparr>stored := (stored fs)(p \<mapsto> text)\<rparr>)))"

section \<open>Configuration and results\<close>

record CeremonyConfig =
  cer_n :: nat
  cer_threshold :: nat
  cer_jurisdiction :: string
  write_seeds :: bool
  shamir_n :: "nat option"
  shamir_threshold :: "nat option"

definition ceremony_config_default :: CeremonyConfig where
  "ceremony_config_default = \<lparr>cer_n = 3, cer_threshold = 2, cer_jurisdiction = ''US'', write_seeds = True, shamir_n = None, shamir_threshold = None\<rparr>"

record 'vk CeremonyOutput =
  authority_pubkeys_hex :: "string list"
  sample_admission :: ThresholdSignedRelayRecord
  consortium :: "'vk ThresholdConsortium"
  shamir_share_paths :: "path list list"

record ConsortiumManifest =
  man_threshold :: nat
  man_n :: nat
  man_pubkeys_hex :: "string list"
  man_sample_path :: string
  man_shamir_n :: "nat option"
  man_shamir_threshold :: "nat option"
  man_note :: string

datatype CeremonyFailure =
    ZeroAuthorities
  | ThresholdRange nat nat
  | ShamirCountMissing
  | ShamirThresholdMissing
  | ShamirThresholdRange nat nat
  | ShamirCountTooBig
  | FileFailure string
  | SplitFailed ShamirError
  | ConsortiumFailed RosterError
  | AdmissionUnverified RosterError
  | Unserializable string
  | NoShareFiles
  | BadShareFile string
  | Unreconstructable ShamirError

text \<open>\<open>serde_json::to_string_pretty\<close>.\<close>

record ceremony_json =
  json_admission :: "ThresholdSignedRelayRecord \<Rightarrow> (string, string) result"
  json_manifest :: "ConsortiumManifest \<Rightarrow> (string, string) result"

section \<open>The ceremony\<close>

definition newline :: string where
  "newline = [CHR 0x0A]"

definition shamir_params :: "CeremonyConfig \<Rightarrow> (CeremonyFailure, (nat \<times> nat) option) result" where
  "shamir_params cfg =
     (if shamir_n cfg \<noteq> None \<or> shamir_threshold cfg \<noteq> None
      then bind_result (ok_or (shamir_n cfg) ShamirCountMissing) (\<lambda>sn.
           bind_result (ok_or (shamir_threshold cfg) ShamirThresholdMissing) (\<lambda>st.
             if st = 0 \<or> st > sn then Inl (ShamirThresholdRange sn st)
             else if sn > 255 then Inl ShamirCountTooBig
             else Inr (Some (sn, st))))
      else Inr None)"

definition pub_path :: "path \<Rightarrow> nat \<Rightarrow> path" where
  "pub_path keys_dir i = keys_dir @ [''authority-'' @ dec_string i @ ''.pub.hex'']"

definition seed_path :: "path \<Rightarrow> nat \<Rightarrow> path" where
  "seed_path keys_dir i = keys_dir @ [''authority-'' @ dec_string i @ ''.seed.hex'']"

definition share_dir :: "path \<Rightarrow> nat \<Rightarrow> path" where
  "share_dir keys_dir i = keys_dir @ [''authority-'' @ dec_string i]"

definition share_path :: "path \<Rightarrow> nat \<Rightarrow> path" where
  "share_path dir j = dir @ [''share-'' @ dec_string j @ ''.hex'']"

fun write_shares :: "path \<Rightarrow> (nat \<times> SeedShare) list \<Rightarrow> path list \<Rightarrow> file_store \<Rightarrow> (string, path list) result \<times> file_store" where
  "write_shares dir [] paths fs = (Inr paths, fs)"
| "write_shares dir ((j, share) # rest) paths fs =
     (case write_restricted (share_path dir j) (encode_share_hex share @ newline) fs of
        (Inl e, fs) \<Rightarrow> (Inl e, fs)
      | (Inr _, fs) \<Rightarrow> write_shares dir rest (paths @ [share_path dir j]) fs)"

text \<open>One authority: \<open>None\<close> is a splitting that never ends.\<close>

definition ceremony_authority ::
    "('xs, 'ms, 'mp, 'r) crypto_lib \<Rightarrow> ('sk, 'vk) sig_lib \<Rightarrow> CeremonyConfig \<Rightarrow> (nat \<times> nat) option \<Rightarrow> path \<Rightarrow> nat \<Rightarrow> file_store \<times> 'r
      \<Rightarrow> ((CeremonyFailure, 'sk \<times> string \<times> path list) result \<times> file_store \<times> 'r) option" where
  "ceremony_authority L S cfg shamir keys_dir i st =
     (let (fs, rng) = st;
          (seed, rng) = lib_fill_bytes L rng 32;
          key = ed_from_seed S seed;
          pk_hex = hex_encode (ed_to_bytes S (ed_verifying_key S key))
      in case write_restricted (pub_path keys_dir i) (pk_hex @ newline) fs of
        (Inl e, fs) \<Rightarrow> Some (Inl (FileFailure e), fs, rng)
      | (Inr _, fs) \<Rightarrow>
        (case (if write_seeds cfg then write_restricted (seed_path keys_dir i) (hex_encode seed @ newline) fs else (Inr (), fs)) of
           (Inl e, fs) \<Rightarrow> Some (Inl (FileFailure e), fs, rng)
         | (Inr _, fs) \<Rightarrow>
           (case shamir of
              None \<Rightarrow> Some (Inr (key, pk_hex, []), fs, rng)
            | Some (sn, st) \<Rightarrow>
              (case split_seed (lib_fill_bytes L) seed st sn rng of
                 None \<Rightarrow> None
               | Some (Inl e, rng) \<Rightarrow> Some (Inl (SplitFailed e), fs, rng)
               | Some (Inr shares, rng) \<Rightarrow>
                 (case mkdir_fault fs (share_dir keys_dir i) of
                    Some e \<Rightarrow> Some (Inl (FileFailure e), fs, rng)
                  | None \<Rightarrow>
                    (case write_shares (share_dir keys_dir i) (enumerate 0 shares) [] fs of
                       (Inl e, fs) \<Rightarrow> Some (Inl (FileFailure e), fs, rng)
                     | (Inr paths, fs) \<Rightarrow> Some (Inr (key, pk_hex, paths), fs, rng)))))))"

fun ceremony_loop ::
    "('xs, 'ms, 'mp, 'r) crypto_lib \<Rightarrow> ('sk, 'vk) sig_lib \<Rightarrow> CeremonyConfig \<Rightarrow> (nat \<times> nat) option \<Rightarrow> path \<Rightarrow> nat list
      \<Rightarrow> ('sk \<times> string \<times> path list) list \<Rightarrow> file_store \<times> 'r
      \<Rightarrow> ((CeremonyFailure, ('sk \<times> string \<times> path list) list) result \<times> file_store \<times> 'r) option" where
  "ceremony_loop L S cfg shamir keys_dir [] acc st = Some (Inr acc, st)"
| "ceremony_loop L S cfg shamir keys_dir (i # is) acc st =
     (case ceremony_authority L S cfg shamir keys_dir i st of
        None \<Rightarrow> None
      | Some (Inl e, st) \<Rightarrow> Some (Inl e, st)
      | Some (Inr a, st) \<Rightarrow> ceremony_loop L S cfg shamir keys_dir is (acc @ [a]) st)"

definition sign_sample :: "('sk, 'vk) sig_lib \<Rightarrow> 'sk list \<Rightarrow> RelayRecord \<Rightarrow> ThresholdSignedRelayRecord" where
  "sign_sample S keys r = fold (\<lambda>key signed. with_signature signed (sign_authority S key r)) keys (threshold_new r)"

definition ceremony_note :: "bool \<Rightarrow> string" where
  "ceremony_note shamir =
     (if shamir
      then ''Distribute .pub.hex to operators; keep full .seed.hex offline if written. Distribute each Shamir share-*.hex to a distinct custodian; reconstruct with reconstruct_seed_from_files before signing.''
      else ''Distribute .pub.hex to operators; keep .seed.hex offline (HSM/airgap). Configure node [roster] authority_pubkeys + threshold from pubkeys.'')"

definition toml_snippet :: "nat \<Rightarrow> string list \<Rightarrow> string" where
  "toml_snippet threshold pubkeys =
     ''# Paste into node/client [roster] section'' @ newline @ ''threshold = '' @ dec_string threshold @ newline
       @ ''authority_pubkeys = ['' @ newline @ concat (map (\<lambda>pk. ''  '' @ [CHR 0x22] @ pk @ [CHR 0x22] @ '','' @ newline) pubkeys) @ '']'' @ newline"

text \<open>The files written in the end, in order.\<close>

fun write_files :: "(path \<times> string) list \<Rightarrow> file_store \<Rightarrow> (string, unit) result \<times> file_store" where
  "write_files [] fs = (Inr (), fs)"
| "write_files ((p, text) # rest) fs =
     (case write_restricted p text fs of
        (Inl e, fs) \<Rightarrow> (Inl e, fs)
      | (Inr _, fs) \<Rightarrow> write_files rest fs)"

definition ceremony_manifest :: "CeremonyConfig \<Rightarrow> (nat \<times> nat) option \<Rightarrow> string list \<Rightarrow> ConsortiumManifest" where
  "ceremony_manifest cfg shamir pubkeys =
     \<lparr>man_threshold = cer_threshold cfg, man_n = cer_n cfg, man_pubkeys_hex = pubkeys, man_sample_path = ''sample_admission.json'',
      man_shamir_n = map_option fst shamir, man_shamir_threshold = map_option snd shamir, man_note = ceremony_note (shamir \<noteq> None)\<rparr>"

text \<open>After the keys: the consortium, the signed sample and the three files for the operators.\<close>

definition ceremony_finish ::
    "('xs, 'ms, 'mp, 'r) crypto_lib \<Rightarrow> ('sk, 'vk) sig_lib \<Rightarrow> ceremony_json \<Rightarrow> path \<Rightarrow> CeremonyConfig \<Rightarrow> (nat \<times> nat) option
      \<Rightarrow> ('sk \<times> string \<times> path list) list \<Rightarrow> file_store \<times> 'r \<Rightarrow> (CeremonyFailure, 'vk CeremonyOutput) result \<times> file_store \<times> 'r" where
  "ceremony_finish L S J out_dir cfg shamir auths st =
     (let (fs, rng) = st; keys = map fst auths; pubkeys = map (fst \<circ> snd) auths in
      case consortium_new S (cer_threshold cfg) (map (ed_verifying_key S) keys) of
        Inl e \<Rightarrow> (Inl (ConsortiumFailed e), fs, rng)
      | Inr c \<Rightarrow>
        (let ((_, kem_pk), rng) = relay_generate L rng;
             rec = from_kem_public L (ascii (cer_jurisdiction cfg)) kem_pk;
             signed_rec = sign_sample S (take (cer_threshold cfg) keys) rec
         in case verify_threshold S signed_rec c of
              Inl e \<Rightarrow> (Inl (AdmissionUnverified e), fs, rng)
            | Inr _ \<Rightarrow>
          (case json_admission J signed_rec of
             Inl e \<Rightarrow> (Inl (Unserializable e), fs, rng)
           | Inr admission_json \<Rightarrow>
          (case write_restricted (out_dir @ [''sample_admission.json'']) admission_json fs of
             (Inl e, fs) \<Rightarrow> (Inl (FileFailure e), fs, rng)
           | (Inr _, fs) \<Rightarrow>
          (case json_manifest J (ceremony_manifest cfg shamir pubkeys) of
             Inl e \<Rightarrow> (Inl (Unserializable e), fs, rng)
           | Inr manifest_json \<Rightarrow>
          (case write_files [(out_dir @ [''consortium.json''], manifest_json),
                             (out_dir @ [''roster_authority.toml.snippet''], toml_snippet (cer_threshold cfg) pubkeys)] fs of
             (Inl e, fs) \<Rightarrow> (Inl (FileFailure e), fs, rng)
           | (Inr _, fs) \<Rightarrow>
               (Inr \<lparr>authority_pubkeys_hex = pubkeys, sample_admission = signed_rec, consortium = c,
                    shamir_share_paths = map (snd \<circ> snd) auths\<rparr>, fs, rng)))))))"

definition run_ceremony ::
    "('xs, 'ms, 'mp, 'r) crypto_lib \<Rightarrow> ('sk, 'vk) sig_lib \<Rightarrow> ceremony_json \<Rightarrow> path \<Rightarrow> CeremonyConfig \<Rightarrow> file_store \<times> 'r
      \<Rightarrow> ((CeremonyFailure, 'vk CeremonyOutput) result \<times> file_store \<times> 'r) option" where
  "run_ceremony L S J out_dir cfg st =
     (let (fs, rng) = st; keys_dir = out_dir @ [''authorities''] in
      if cer_n cfg = 0 then Some (Inl ZeroAuthorities, st)
      else if cer_threshold cfg = 0 \<or> cer_threshold cfg > cer_n cfg then Some (Inl (ThresholdRange (cer_n cfg) (cer_threshold cfg)), st)
      else case shamir_params cfg of
        Inl e \<Rightarrow> Some (Inl e, st)
      | Inr shamir \<Rightarrow>
        (case mkdir_fault fs out_dir of
           Some e \<Rightarrow> Some (Inl (FileFailure e), st)
         | None \<Rightarrow>
        (case mkdir_fault fs keys_dir of
           Some e \<Rightarrow> Some (Inl (FileFailure e), st)
         | None \<Rightarrow>
        (case ceremony_loop L S cfg shamir keys_dir [0..<cer_n cfg] [] st of
           None \<Rightarrow> None
         | Some (Inl e, st) \<Rightarrow> Some (Inl e, st)
         | Some (Inr auths, st) \<Rightarrow> Some (ceremony_finish L S J out_dir cfg shamir auths st)))))"

section \<open>Putting a seed together again\<close>

fun read_shares :: "file_store \<Rightarrow> path list \<Rightarrow> SeedShare list \<Rightarrow> (CeremonyFailure, SeedShare list) result" where
  "read_shares fs [] shares = Inr shares"
| "read_shares fs (p # paths) shares =
     (case stored fs p of
        None \<Rightarrow> Inl (FileFailure (last p))
      | Some text \<Rightarrow>
          (case decode_share_hex text of
             Inl e \<Rightarrow> Inl (BadShareFile e)
           | Inr share \<Rightarrow> read_shares fs paths (shares @ [share])))"

definition reconstruct_authority_seed :: "SeedShare list \<Rightarrow> (CeremonyFailure, bytes) result" where
  "reconstruct_authority_seed shares = (case reconstruct_seed shares of Inl e \<Rightarrow> Inl (Unreconstructable e) | Inr seed \<Rightarrow> Inr seed)"

definition reconstruct_seed_from_files :: "file_store \<Rightarrow> path list \<Rightarrow> (CeremonyFailure, bytes) result" where
  "reconstruct_seed_from_files fs paths =
     (if paths = [] then Inl NoShareFiles
      else bind_result (read_shares fs paths []) reconstruct_authority_seed)"

definition write_reconstructed_seed :: "path \<Rightarrow> bytes \<Rightarrow> file_store \<Rightarrow> (string, unit) result \<times> file_store" where
  "write_reconstructed_seed p seed fs = write_restricted p (hex_encode seed @ newline) fs"

section \<open>Paths do not clash\<close>

lemma dec_string_inj: "dec_string a = dec_string b \<longleftrightarrow> a = b"
  by (metis dec_digits_string option.inject)

lemma file_names_differ:
  "xs @ ''.pub.hex'' \<noteq> ys @ ''.seed.hex''" "xs @ ''.seed.hex'' \<noteq> ys @ ''.pub.hex''"
  using arg_cong[where f = rev, of "xs @ ''.pub.hex''" "ys @ ''.seed.hex''"] arg_cong[where f = rev, of "xs @ ''.seed.hex''" "ys @ ''.pub.hex''"]
  by auto

definition authority_owns :: "path \<Rightarrow> nat \<Rightarrow> path \<Rightarrow> bool" where
  "authority_owns d i p \<longleftrightarrow> p = pub_path d i \<or> p = seed_path d i \<or> (\<exists>x. p = share_dir d i @ [x])"

lemma authority_owns_one: "authority_owns d i p \<Longrightarrow> authority_owns d j p \<Longrightarrow> i = j"
  by (auto simp: authority_owns_def pub_path_def seed_path_def share_dir_def dec_string_inj file_names_differ)

lemma share_path_inj: "share_path d i = share_path d j \<longleftrightarrow> i = j"
  by (simp add: share_path_def dec_string_inj)

section \<open>Writing and reading shares\<close>

definition healthy :: "file_store \<Rightarrow> bool" where
  "healthy fs \<longleftrightarrow> (\<forall>p. write_fault fs p = None \<and> mkdir_fault fs p = None)"

lemma healthy_update [simp]: "healthy (fs\<lparr>stored := m\<rparr>) = healthy fs"
  by (simp add: healthy_def)

lemma write_restricted_ok: "healthy fs \<Longrightarrow> write_restricted p text fs = (Inr (), fs\<lparr>stored := (stored fs)(p \<mapsto> text)\<rparr>)"
  by (simp add: write_restricted_def healthy_def)

lemma write_files_ok: "healthy fs \<Longrightarrow> \<exists>m. write_files ws fs = (Inr (), fs\<lparr>stored := m\<rparr>) \<and> (\<forall>p. p \<notin> fst ` set ws \<longrightarrow> m p = stored fs p)"
proof (induction ws arbitrary: fs)
  case Nil
  show ?case by (rule exI[of _ "stored fs"]) simp
next
  case (Cons w ws)
  obtain p t where w: "w = (p, t)" by (cases w)
  show ?case using Cons.IH[of "fs\<lparr>stored := (stored fs)(p \<mapsto> t)\<rparr>"] Cons.prems by (auto simp: w write_restricted_ok)
qed

lemma write_shares_ok:
  assumes "healthy fs"
  shows "\<exists>m. write_shares d (enumerate k shares) acc fs = (Inr (acc @ map (share_path d) [k..<k + length shares]), fs\<lparr>stored := m\<rparr>)
    \<and> (\<forall>j < length shares. m (share_path d (k + j)) = Some (encode_share_hex (shares ! j) @ newline))
    \<and> (\<forall>p. p \<notin> share_path d ` {k..<k + length shares} \<longrightarrow> m p = stored fs p)"
  using assms
proof (induction shares arbitrary: k acc fs)
  case Nil
  show ?case by (rule exI[of _ "stored fs"]) simp
next
  case (Cons s shares)
  let ?fs = "fs\<lparr>stored := (stored fs)(share_path d k \<mapsto> encode_share_hex s @ newline)\<rparr>"
  have step: "write_shares d (enumerate k (s # shares)) acc fs = write_shares d (enumerate (Suc k) shares) (acc @ [share_path d k]) ?fs"
    using Cons.prems by (simp add: write_restricted_ok)
  obtain m where m: "write_shares d (enumerate (Suc k) shares) (acc @ [share_path d k]) ?fs
      = (Inr ((acc @ [share_path d k]) @ map (share_path d) [Suc k..<Suc k + length shares]), ?fs\<lparr>stored := m\<rparr>)"
    "\<forall>j < length shares. m (share_path d (Suc k + j)) = Some (encode_share_hex (shares ! j) @ newline)"
    "\<forall>p. p \<notin> share_path d ` {Suc k..<Suc k + length shares} \<longrightarrow> m p = stored ?fs p"
    using Cons.IH[of ?fs "Suc k" "acc @ [share_path d k]"] Cons.prems by auto
  have up: "[k..<k + length (s # shares)] = k # [Suc k..<Suc k + length shares]" by (simp add: upt_rec)
  have set_up: "{k..<k + length (s # shares)} = insert k {Suc k..<Suc k + length shares}" by auto
  have "m (share_path d (k + j)) = Some (encode_share_hex ((s # shares) ! j) @ newline)" if "j < length (s # shares)" for j
  proof (cases j)
    case 0
    have "share_path d k \<notin> share_path d ` {Suc k..<Suc k + length shares}" by (auto simp: share_path_inj)
    then have "m (share_path d k) = Some (encode_share_hex s @ newline)" using m(3) by simp
    then show ?thesis using 0 by simp
  next
    case (Suc i)
    then show ?thesis using m(2) that by simp
  qed
  moreover have "m p = stored fs p" if "p \<notin> share_path d ` {k..<k + length (s # shares)}" for p
    using m(3) that unfolding set_up by auto
  ultimately show ?case unfolding step m(1) up by auto
qed

lemma trim_newline:
  assumes "\<forall>c \<in> set s. \<not> is_whitespace c"
  shows "trim (s @ newline) = trim s"
proof -
  have "is_whitespace CHR 0x0A" by (simp add: is_whitespace_def)
  moreover have "dropWhile is_whitespace s = s" "dropWhile is_whitespace (rev s) = rev s"
    using assms by (auto intro: dropWhile_none)
  ultimately show ?thesis
    using assms by (cases s) (simp_all add: trim_def newline_def)
qed

lemma share_line_decodes:
  assumes "share_x s \<noteq> 0" "length (share_y s) = 32"
  shows "decode_share_hex (encode_share_hex s @ newline) = Inr s"
proof -
  have e: "encode_share_hex s = hex_encode (share_x s # share_y s)" by (simp add: encode_share_hex_def hex_encode_def)
  have "\<forall>c \<in> set (hex_encode (share_x s # share_y s)). \<not> is_whitespace c" using hex_encode_no_space by blast
  then have "trim (encode_share_hex s @ newline) = trim (encode_share_hex s)"
    unfolding e by (rule trim_newline)
  then show ?thesis using share_hex_roundtrip[OF assms] by (simp add: decode_share_hex_def)
qed

lemma read_shares_ok:
  assumes "\<forall>p \<in> set paths. \<exists>s. stored fs p = Some (encode_share_hex s @ newline) \<and> share_x s \<noteq> 0 \<and> length (share_y s) = 32 \<and> f p = s"
  shows "read_shares fs paths acc = Inr (acc @ map f paths)"
  using assms by (induction paths arbitrary: acc) (auto simp: share_line_decodes)

section \<open>One authority after another\<close>

lemma read_shares_cong: "\<forall>p \<in> set paths. stored fs' p = stored fs p \<Longrightarrow> read_shares fs' paths acc = read_shares fs paths acc"
  by (induction paths arbitrary: acc) (auto split: option.split sum.split)

text \<open>What an authority leaves on disk.\<close>

definition authority_kept ::
    "('sk, 'vk) sig_lib \<Rightarrow> CeremonyConfig \<Rightarrow> path \<Rightarrow> nat \<Rightarrow> nat \<Rightarrow> file_store \<Rightarrow> nat \<Rightarrow> 'sk \<times> string \<times> path list \<Rightarrow> bool" where
  "authority_kept S cfg d sn st fs i a \<longleftrightarrow> (\<exists>seed key pk paths. a = (key, pk, paths) \<and> key = ed_from_seed S seed
     \<and> pk = hex_encode (ed_to_bytes S (ed_verifying_key S key)) \<and> stored fs (pub_path d i) = Some (pk @ newline)
     \<and> (write_seeds cfg \<longrightarrow> stored fs (seed_path d i) = Some (hex_encode seed @ newline))
     \<and> length paths = sn \<and> distinct paths \<and> (\<forall>p \<in> set paths. authority_owns d i p)
     \<and> (\<forall>sub. set sub \<subseteq> set paths \<longrightarrow> distinct sub \<longrightarrow> st \<le> length sub \<longrightarrow> reconstruct_seed_from_files fs sub = Inr seed))"

lemma authority_kept_frame:
  assumes "authority_kept S cfg d sn st fs i a" "\<And>p. authority_owns d i p \<Longrightarrow> stored fs' p = stored fs p"
  shows "authority_kept S cfg d sn st fs' i a"
proof -
  obtain seed key pk paths where a: "a = (key, pk, paths)" "key = ed_from_seed S seed"
    "pk = hex_encode (ed_to_bytes S (ed_verifying_key S key))" "stored fs (pub_path d i) = Some (pk @ newline)"
    "write_seeds cfg \<longrightarrow> stored fs (seed_path d i) = Some (hex_encode seed @ newline)"
    "length paths = sn" "distinct paths" "\<forall>p \<in> set paths. authority_owns d i p"
    and rec: "\<And>sub. set sub \<subseteq> set paths \<Longrightarrow> distinct sub \<Longrightarrow> st \<le> length sub \<Longrightarrow> reconstruct_seed_from_files fs sub = Inr seed"
    using assms(1) unfolding authority_kept_def by blast
  have "reconstruct_seed_from_files fs' sub = Inr seed" if sub: "set sub \<subseteq> set paths" "distinct sub" "st \<le> length sub" for sub
  proof -
    have "\<forall>p \<in> set sub. stored fs' p = stored fs p" using sub(1) a(8) assms(2) by blast
    then show ?thesis using rec[OF sub] read_shares_cong[of sub fs' fs] by (simp add: reconstruct_seed_from_files_def split: if_splits)
  qed
  moreover have "stored fs' (pub_path d i) = stored fs (pub_path d i)" "stored fs' (seed_path d i) = stored fs (seed_path d i)"
    by (rule assms(2), simp add: authority_owns_def)+
  ultimately show ?thesis unfolding authority_kept_def using a by auto
qed

text \<open>The share files of one seed.\<close>

lemma share_files_reconstruct:
  assumes "\<forall>s \<in> set shares. share_x s \<noteq> 0 \<and> length (share_y s) = 32" "distinct shares" "0 < st"
    "\<forall>sub. set sub \<subseteq> set shares \<longrightarrow> distinct sub \<longrightarrow> st \<le> length sub \<longrightarrow> reconstruct_seed sub = Inr secret"
    "\<forall>j < length shares. stored fs (share_path d j) = Some (encode_share_hex (shares ! j) @ newline)"
    "set sub \<subseteq> share_path d ` {0..<length shares}" "distinct sub" "st \<le> length sub"
  shows "reconstruct_seed_from_files fs sub = Inr secret"
proof -
  define idx where "idx p = (THE j. share_path d j = p)" for p
  have idx: "idx (share_path d j) = j" for j unfolding idx_def by (simp add: share_path_inj)
  define f where "f p = shares ! idx p" for p
  have p: "\<exists>j < length shares. p = share_path d j" if "p \<in> set sub" for p
    using subsetD[OF assms(6) that] by auto
  have read: "read_shares fs sub [] = Inr ([] @ map f sub)"
  proof (rule read_shares_ok, rule ballI)
    fix q assume "q \<in> set sub"
    then obtain j where j: "j < length shares" "q = share_path d j" using p by blast
    then have "shares ! j \<in> set shares" "f q = shares ! j" by (simp_all add: f_def idx)
    then show "\<exists>s. stored fs q = Some (encode_share_hex s @ newline) \<and> share_x s \<noteq> 0 \<and> length (share_y s) = 32 \<and> f q = s"
      using j assms(1,5) by auto
  qed
  have "inj_on f (set sub)"
  proof (rule inj_onI)
    fix x y assume "x \<in> set sub" "y \<in> set sub" "f x = f y"
    then show "x = y" using p assms(2) by (metis f_def idx nth_eq_iff_index_eq)
  qed
  then have "distinct (map f sub)" using assms(7) by (simp add: distinct_map)
  moreover have "set (map f sub) \<subseteq> set shares" 
  proof
    fix y assume "y \<in> set (map f sub)"
    then obtain q where "q \<in> set sub" "y = f q" by auto
    then show "y \<in> set shares" using p[of q] idx by (auto simp: f_def)
  qed
  ultimately have "reconstruct_seed (map f sub) = Inr secret" using assms(4,8) by simp
  then show ?thesis using read assms(3,8) by (auto simp: reconstruct_seed_from_files_def reconstruct_authority_seed_def)
qed

lemma ceremony_authority_ok:
  assumes "healthy fs" "lively (lib_fill_bytes L)" "lib_lengths L" "0 < st" "st \<le> sn" "sn \<le> 255"
  shows "\<exists>a fs' rng'. ceremony_authority L S cfg (Some (sn, st)) d i (fs, rng) = Some (Inr a, fs', rng') \<and> healthy fs'
    \<and> authority_kept S cfg d sn st fs' i a \<and> (\<forall>p. \<not> authority_owns d i p \<longrightarrow> stored fs' p = stored fs p)"
proof -
  obtain seed rng1 where seed: "lib_fill_bytes L rng 32 = (seed, rng1)" by (rule prod.exhaust)
  have "length seed = 32" using lib_lengthsD(2)[OF assms(3), of rng 32] seed by simp
  then obtain shares rng2 where sh: "split_seed (lib_fill_bytes L) seed st sn rng1 = Some (Inr shares, rng2)"
    "length shares = sn" "distinct (map share_x shares)" "\<forall>s \<in> set shares. share_x s \<noteq> 0 \<and> length (share_y s) = 32"
    "\<forall>sub. set sub \<subseteq> set shares \<longrightarrow> distinct sub \<longrightarrow> st \<le> length sub \<longrightarrow> reconstruct_seed sub = Inr seed"
    using split_then_reconstruct[OF assms(2) _ assms(4-6), of seed rng1] by metis
  define key where "key = ed_from_seed S seed"
  define pk where "pk = hex_encode (ed_to_bytes S (ed_verifying_key S key))"
  define m1 where "m1 = (stored fs)(pub_path d i \<mapsto> pk @ newline)"
  define m2 where "m2 = (if write_seeds cfg then m1(seed_path d i \<mapsto> hex_encode seed @ newline) else m1)"
  define fs2 where "fs2 = fs\<lparr>stored := m2\<rparr>"
  have h2: "healthy fs2" using assms(1) by (simp add: fs2_def)
  obtain m where m: "write_shares (share_dir d i) (enumerate 0 shares) [] fs2 = (Inr (map (share_path (share_dir d i)) [0..<sn]), fs2\<lparr>stored := m\<rparr>)"
    "\<forall>j < sn. m (share_path (share_dir d i) j) = Some (encode_share_hex (shares ! j) @ newline)"
    "\<forall>p. p \<notin> share_path (share_dir d i) ` {0..<sn} \<longrightarrow> m p = stored fs2 p"
    using write_shares_ok[OF h2, of "share_dir d i" 0 shares "[]"] sh(2) by auto
  let ?paths = "map (share_path (share_dir d i)) [0..<sn]"
  have first: "write_restricted (pub_path d i) (pk @ newline) fs = (Inr (), fs\<lparr>stored := m1\<rparr>)"
    using write_restricted_ok[OF assms(1)] by (simp add: m1_def)
  have second: "(if write_seeds cfg then write_restricted (seed_path d i) (hex_encode seed @ newline) (fs\<lparr>stored := m1\<rparr>)
      else (Inr (), fs\<lparr>stored := m1\<rparr>)) = (Inr (), fs2)"
    using assms(1) by (simp add: write_restricted_ok m2_def fs2_def)
  have mk: "mkdir_fault fs2 (share_dir d i) = None" using h2 by (simp add: healthy_def)
  have run: "ceremony_authority L S cfg (Some (sn, st)) d i (fs, rng) = Some (Inr (key, pk, ?paths), fs2\<lparr>stored := m\<rparr>, rng2)"
    unfolding ceremony_authority_def seed Let_def prod.case key_def[symmetric] pk_def[symmetric] first sum.case second option.case sh(1) mk m(1) ..
  have not_share: "pub_path d i \<notin> share_path (share_dir d i) ` {0..<sn}" "seed_path d i \<notin> share_path (share_dir d i) ` {0..<sn}"
    by (auto simp: pub_path_def seed_path_def share_path_def share_dir_def)
  have pub_seed: "pub_path d i \<noteq> seed_path d i" by (simp add: pub_path_def seed_path_def)
  have kept: "authority_kept S cfg d sn st (fs2\<lparr>stored := m\<rparr>) i (key, pk, ?paths)"
    unfolding authority_kept_def
  proof (intro exI conjI)
    show "(key, pk, ?paths) = (key, pk, ?paths)" "key = ed_from_seed S seed" "pk = hex_encode (ed_to_bytes S (ed_verifying_key S key))"
      by (simp_all add: key_def pk_def)
    show "stored (fs2\<lparr>stored := m\<rparr>) (pub_path d i) = Some (pk @ newline)"
      using m(3) not_share(1) pub_seed by (simp add: fs2_def m2_def m1_def)
    show "write_seeds cfg \<longrightarrow> stored (fs2\<lparr>stored := m\<rparr>) (seed_path d i) = Some (hex_encode seed @ newline)"
      using m(3) not_share(2) by (simp add: fs2_def m2_def)
    show "length ?paths = sn" "distinct ?paths" by (simp_all add: distinct_map inj_on_def share_path_inj)
    show "\<forall>p \<in> set ?paths. authority_owns d i p" by (auto simp: authority_owns_def share_path_def)
    show "\<forall>sub. set sub \<subseteq> set ?paths \<longrightarrow> distinct sub \<longrightarrow> st \<le> length sub \<longrightarrow> reconstruct_seed_from_files (fs2\<lparr>stored := m\<rparr>) sub = Inr seed"
      using share_files_reconstruct[OF sh(4) _ assms(4) sh(5), of "fs2\<lparr>stored := m\<rparr>" "share_dir d i"] m(2) sh(2,3)
      by (simp add: distinct_map)
  qed
  have "m p = stored fs p" if "\<not> authority_owns d i p" for p
  proof -
    have "p \<notin> share_path (share_dir d i) ` {0..<sn}" "p \<noteq> pub_path d i" "p \<noteq> seed_path d i"
      using that by (auto simp: authority_owns_def share_path_def)
    then show ?thesis using m(3) by (simp add: fs2_def m2_def m1_def)
  qed
  then show ?thesis using run kept h2 by auto
qed

lemma ceremony_loop_ok:
  assumes "lively (lib_fill_bytes L)" "lib_lengths L" "0 < st" "st \<le> sn" "sn \<le> 255"
    and "healthy fs" "k \<le> n" "length acc = k" "\<forall>i < k. authority_kept S cfg d sn st fs i (acc ! i)"
  shows "\<exists>as fs' rng'. ceremony_loop L S cfg (Some (sn, st)) d [k..<n] acc (fs, rng) = Some (Inr as, fs', rng') \<and> healthy fs'
    \<and> length as = n \<and> (\<forall>i < n. authority_kept S cfg d sn st fs' i (as ! i))"
  using assms(6-)
proof (induction "n - k" arbitrary: k acc fs rng)
  case 0
  then show ?case by auto
next
  case (Suc x)
  obtain a fs1 rng1 where a: "ceremony_authority L S cfg (Some (sn, st)) d k (fs, rng) = Some (Inr a, fs1, rng1)" "healthy fs1"
    "authority_kept S cfg d sn st fs1 k a" "\<forall>p. \<not> authority_owns d k p \<longrightarrow> stored fs1 p = stored fs p"
    using ceremony_authority_ok[OF Suc.prems(1) assms(1-5)] by blast
  have "authority_kept S cfg d sn st fs1 i ((acc @ [a]) ! i)" if "i < Suc k" for i
  proof (cases "i = k")
    case True
    then show ?thesis using a(3) Suc.prems(3) nth_append_length[of acc a] by simp
  next
    case False
    then have i: "i < k" using that by simp
    have "stored fs1 p = stored fs p" if "authority_owns d i p" for p
      using a(4) authority_owns_one[OF that] i by blast
    then show ?thesis using authority_kept_frame[of S cfg d sn st fs i "acc ! i" fs1] Suc.prems(3,4) i by (simp add: nth_append)
  qed
  moreover have "x = n - Suc k" "Suc k \<le> n" "length (acc @ [a]) = Suc k" using Suc.hyps(2) Suc.prems(3) by auto
  ultimately have "\<exists>as fs' rng'. ceremony_loop L S cfg (Some (sn, st)) d [Suc k..<n] (acc @ [a]) (fs1, rng1) = Some (Inr as, fs', rng') \<and> healthy fs'
    \<and> length as = n \<and> (\<forall>i < n. authority_kept S cfg d sn st fs' i (as ! i))"
    by (intro Suc.hyps(1)[of "Suc k" fs1 "acc @ [a]" rng1] a(2)) blast+
  moreover have "[k..<n] = k # [Suc k..<n]" using Suc.hyps(2) by (simp add: upt_rec)
  ultimately show ?case by (simp add: a(1))
qed

section \<open>The sample admission\<close>

lemma sign_sample_eq: "sign_sample S keys r = \<lparr>thr_record = r, signatures = map (\<lambda>k. sign_authority S k r) keys\<rparr>"
proof -
  have "fold (\<lambda>key signed. with_signature signed (sign_authority S key r)) keys t = t\<lparr>signatures := signatures t @ map (\<lambda>k. sign_authority S k r) keys\<rparr>" for t
    by (induction keys arbitrary: t) (simp_all add: with_signature_def)
  then show ?thesis by (simp add: sign_sample_def threshold_new_def)
qed

lemma consortium_of_distinct:
  assumes "sig_laws S" "0 < t" "t \<le> length vks"
  shows "if distinct vks then \<exists>c. consortium_new S t vks = Inr c else consortium_new S t vks = Inl DuplicateAuthority"
proof -
  let ?m = "fold (\<lambda>pk m. AList.update (ed_to_bytes S pk) pk m) vks []"
  have keys: "distinct (map fst ?m)" "fst ` set ?m = ed_to_bytes S ` set vks"
    by (simp_all add: fst_fold_update distinct_fold_update)
  have "length ?m = card (ed_to_bytes S ` set vks)" using distinct_card[OF keys(1)] keys(2) by simp
  also have "\<dots> = card (set vks)" by (rule card_image) (simp add: inj_on_def ed_to_bytes_inj[OF assms(1)])
  finally have "length ?m = length vks \<longleftrightarrow> distinct vks" using card_distinct distinct_card by metis
  then show ?thesis using assms(2,3) by (auto simp: consortium_new_def Let_def)
qed

lemma ceremony_finish_ok:
  assumes "sig_laws S" "healthy fs" "\<forall>a. \<exists>t. json_admission J a = Inr t" "\<forall>m. \<exists>t. json_manifest J m = Inr t"
    and "0 < cer_threshold cfg" "cer_threshold cfg \<le> length auths" "vks = map (\<lambda>a. ed_verifying_key S (fst a)) auths"
  shows "\<exists>r fs' rng'. ceremony_finish L S J dir cfg sh auths (fs, rng) = (r, fs', rng')
    \<and> (\<forall>p. length dir + 1 < length p \<longrightarrow> stored fs' p = stored fs p)
    \<and> (if distinct vks
       then \<exists>out. r = Inr out \<and> verify_threshold S (sample_admission out) (consortium out) = Inr ()
         \<and> authority_pubkeys_hex out = map (fst \<circ> snd) auths \<and> shamir_share_paths out = map (snd \<circ> snd) auths
       else r = Inl (ConsortiumFailed DuplicateAuthority))"
proof (cases "distinct vks")
  case False
  then have "consortium_new S (cer_threshold cfg) (map (ed_verifying_key S) (map fst auths)) = Inl DuplicateAuthority"
    using consortium_of_distinct[OF assms(1,5), of vks] assms(6,7) by (simp add: comp_def)
  then show ?thesis using False by (simp add: ceremony_finish_def)
next
  case True
  then obtain c where c: "consortium_new S (cer_threshold cfg) (map (ed_verifying_key S) (map fst auths)) = Inr c"
    using consortium_of_distinct[OF assms(1,5), of vks] assms(6,7) by (auto simp: comp_def)
  obtain s pk rng1 where g: "relay_generate L rng = ((s, pk), rng1)" by (metis prod.exhaust)
  let ?rec = "from_kem_public L (ascii (cer_jurisdiction cfg)) pk"
  let ?ks = "take (cer_threshold cfg) (map fst auths)"
  have "distinct (map (ed_verifying_key S) (map fst auths))" using True assms(7) by (simp add: comp_def)
  then have "distinct (map (ed_verifying_key S) ?ks)" by (simp add: take_map[symmetric])
  moreover have "\<forall>k \<in> set ?ks. ed_verifying_key S k \<in> set (map (ed_verifying_key S) (map fst auths))"
    using in_set_takeD[of _ "cer_threshold cfg" "map fst auths"] by (metis image_eqI list.set_map)
  ultimately have v: "verify_threshold S (sign_sample S ?ks ?rec) c = Inr ()"
    unfolding sign_sample_eq using assms(6) by (intro verify_threshold_complete[OF assms(1) c]) simp_all
  obtain ta where ta: "json_admission J (sign_sample S ?ks ?rec) = Inr ta" using assms(3) by blast
  obtain tm where tm: "json_manifest J (ceremony_manifest cfg sh (map (fst \<circ> snd) auths)) = Inr tm" using assms(4) by blast
  let ?fs = "fs\<lparr>stored := (stored fs)(dir @ [''sample_admission.json''] \<mapsto> ta)\<rparr>"
  let ?ws = "[(dir @ [''consortium.json''], tm), (dir @ [''roster_authority.toml.snippet''], toml_snippet (cer_threshold cfg) (map (fst \<circ> snd) auths))]"
  obtain m where m: "write_files ?ws ?fs = (Inr (), ?fs\<lparr>stored := m\<rparr>)" "\<forall>p. p \<notin> fst ` set ?ws \<longrightarrow> m p = stored ?fs p"
    using write_files_ok[of ?fs ?ws] assms(2) by auto
  have "ceremony_finish L S J dir cfg sh auths (fs, rng)
      = (Inr \<lparr>authority_pubkeys_hex = map (fst \<circ> snd) auths, sample_admission = sign_sample S ?ks ?rec, consortium = c,
           shamir_share_paths = map (snd \<circ> snd) auths\<rparr>, ?fs\<lparr>stored := m\<rparr>, rng1)"
    unfolding ceremony_finish_def Let_def prod.case c sum.case g v ta write_restricted_ok[OF assms(2)] tm m(1) ..
  moreover have "m p = stored fs p" if "length dir + 1 < length p" for p
  proof -
    have "p \<noteq> dir @ [x]" for x using that by auto
    then show ?thesis using m(2) by simp
  qed
  ultimately show ?thesis using True v by auto
qed

section \<open>Theorem\<close>

text \<open>
  C34. The ceremony gives recoverable authorities and a valid consortium: on a healthy disk it always ends, and unless two of the drawn
  keys are equal (then two public key files are, and it reports the duplicate) the sample admission passes the threshold check of the
  consortium, the public key file of every authority holds its published key, and any \<open>st\<close> of the \<open>sn\<close> share files of an authority
  reconstruct, from the final disk, a seed of which that key is the public key.
\<close>

theorem ceremony_recovers:
  assumes "sig_laws S" "lib_lengths L" "lively (lib_fill_bytes L)" "healthy fs"
    and "\<forall>a. \<exists>t. json_admission J a = Inr t" "\<forall>m. \<exists>t. json_manifest J m = Inr t"
    and "0 < cer_threshold cfg" "cer_threshold cfg \<le> cer_n cfg" "shamir_n cfg = Some sn" "shamir_threshold cfg = Some st"
    and "0 < st" "st \<le> sn" "sn \<le> 255"
  shows "\<exists>r fs' rng'. run_ceremony L S J dir cfg (fs, rng) = Some (r, fs', rng') \<and>
    (case r of
       Inl e \<Rightarrow> e = ConsortiumFailed DuplicateAuthority
         \<and> (\<exists>i j. i < j \<and> j < cer_n cfg \<and> stored fs' (pub_path (dir @ [''authorities'']) i) \<noteq> None
             \<and> stored fs' (pub_path (dir @ [''authorities'']) i) = stored fs' (pub_path (dir @ [''authorities'']) j))
     | Inr out \<Rightarrow> verify_threshold S (sample_admission out) (consortium out) = Inr ()
         \<and> length (authority_pubkeys_hex out) = cer_n cfg
         \<and> (\<forall>i < cer_n cfg. stored fs' (pub_path (dir @ [''authorities'']) i) = Some (authority_pubkeys_hex out ! i @ newline)
             \<and> length (shamir_share_paths out ! i) = sn \<and> distinct (shamir_share_paths out ! i)
             \<and> (\<exists>seed. authority_pubkeys_hex out ! i = hex_encode (ed_to_bytes S (ed_verifying_key S (ed_from_seed S seed)))
                 \<and> (\<forall>paths. set paths \<subseteq> set (shamir_share_paths out ! i) \<longrightarrow> distinct paths \<longrightarrow> st \<le> length paths
                     \<longrightarrow> reconstruct_seed_from_files fs' paths = Inr seed))))"
proof -
  let ?d = "dir @ [''authorities'']"
  obtain as fs1 rng1 where loop: "ceremony_loop L S cfg (Some (sn, st)) ?d [0..<cer_n cfg] [] (fs, rng) = Some (Inr as, fs1, rng1)"
    "healthy fs1" "length as = cer_n cfg" "\<forall>i < cer_n cfg. authority_kept S cfg ?d sn st fs1 i (as ! i)"
    using ceremony_loop_ok[OF assms(3,2,11-13,4), where S = S and cfg = cfg and d = ?d and k = 0 and n = "cer_n cfg" and acc = "[]" and rng = rng] by auto
  define vks where "vks = map (\<lambda>a. ed_verifying_key S (fst a)) as"
  have th: "cer_threshold cfg \<le> length as" using assms(8) loop(3) by simp
  obtain r fs' rng' where fin: "ceremony_finish L S J dir cfg (Some (sn, st)) as (fs1, rng1) = (r, fs', rng')"
    "\<forall>p. length dir + 1 < length p \<longrightarrow> stored fs' p = stored fs1 p"
    "if distinct vks
     then \<exists>out. r = Inr out \<and> verify_threshold S (sample_admission out) (consortium out) = Inr ()
       \<and> authority_pubkeys_hex out = map (fst \<circ> snd) as \<and> shamir_share_paths out = map (snd \<circ> snd) as
     else r = Inl (ConsortiumFailed DuplicateAuthority)"
    using ceremony_finish_ok[OF assms(1) loop(2) assms(5-7) th vks_def, where dir = dir and sh = "Some (sn, st)" and rng = rng1] by blast
  have run: "run_ceremony L S J dir cfg (fs, rng) = Some (r, fs', rng')"
    using assms(4,7-13) loop(1) fin(1) by (simp add: run_ceremony_def shamir_params_def healthy_def)
  have kept: "authority_kept S cfg ?d sn st fs' i (as ! i)" if "i < cer_n cfg" for i
  proof (rule authority_kept_frame)
    show "authority_kept S cfg ?d sn st fs1 i (as ! i)" using loop(4) that by blast
    show "stored fs' p = stored fs1 p" if "authority_owns ?d i p" for p
      using fin(2) that by (auto simp: authority_owns_def pub_path_def seed_path_def share_dir_def)
  qed
  note k = kept[unfolded authority_kept_def]
  show ?thesis
  proof (cases "distinct vks")
    case True
    then obtain out where out: "r = Inr out" "verify_threshold S (sample_admission out) (consortium out) = Inr ()"
      "authority_pubkeys_hex out = map (fst \<circ> snd) as" "shamir_share_paths out = map (snd \<circ> snd) as"
      using fin(3) by auto
    show ?thesis unfolding run using out loop(3) k by fastforce
  next
    case False
    then obtain i j where ij: "i < j" "j < cer_n cfg" "vks ! i = vks ! j"
      using loop(3) by (auto simp: distinct_conv_nth vks_def) (metis linorder_neqE_nat)
    have "stored fs' (pub_path ?d l) = Some (hex_encode (ed_to_bytes S (vks ! l)) @ newline)" if "l < cer_n cfg" for l
      using k[OF that] that loop(3) by (auto simp: vks_def)
    then have "stored fs' (pub_path ?d i) \<noteq> None" "stored fs' (pub_path ?d i) = stored fs' (pub_path ?d j)"
      using ij by simp_all
    moreover have r: "r = Inl (ConsortiumFailed DuplicateAuthority)" using False fin(3) by simp
    ultimately have ex: "\<exists>i j. i < j \<and> j < cer_n cfg \<and> stored fs' (pub_path ?d i) \<noteq> None
        \<and> stored fs' (pub_path ?d i) = stored fs' (pub_path ?d j)"
      using ij(1,2) by blast
    show ?thesis
      by (intro exI[of _ r] exI[of _ fs'] exI[of _ rng'] conjI run) (simp only: r sum.case simp_thms ex)
  qed
qed

text \<open>One authority whose seed is split two of three.\<close>

definition ceremony_example :: CeremonyConfig where
  "ceremony_example = \<lparr>cer_n = 1, cer_threshold = 1, cer_jurisdiction = ''US'', write_seeds = False, shamir_n = Some 3, shamir_threshold = Some 2\<rparr>"

definition empty_disk :: file_store where
  "empty_disk = \<lparr>stored = (\<lambda>_. None), write_fault = (\<lambda>_. None), mkdir_fault = (\<lambda>_. None)\<rparr>"

definition toy_json :: ceremony_json where
  "toy_json = \<lparr>json_admission = (\<lambda>a. Inr (hex_encode (concat (map auth_signature (signatures a))))), json_manifest = (\<lambda>m. Inr (man_note m))\<rparr>"

lemma lively_toy_lib: "lively (lib_fill_bytes toy_lib)"
proof -
  have "nth_draw (lib_fill_bytes toy_lib) rng 0 \<noteq> 0 \<or> nth_draw (lib_fill_bytes toy_lib) rng 1 \<noteq> 0" for rng
    by (simp add: toy_lib_def draw_byte_def)
  then show ?thesis unfolding lively_def by blast
qed

theorem ceremony_recovers_witness:
  "\<exists>out fs' rng'. run_ceremony toy_lib toy_sig toy_json [''out''] ceremony_example (empty_disk, 5) = Some (Inr out, fs', rng')
    \<and> verify_threshold toy_sig (sample_admission out) (consortium out) = Inr ()
    \<and> (\<exists>seed. authority_pubkeys_hex out ! 0 = hex_encode (ed_to_bytes toy_sig (ed_verifying_key toy_sig (ed_from_seed toy_sig seed)))
        \<and> reconstruct_seed_from_files fs' [shamir_share_paths out ! 0 ! 2, shamir_share_paths out ! 0 ! 0] = Inr seed)"
proof -
  let ?run = "run_ceremony toy_lib toy_sig toy_json [''out''] ceremony_example (empty_disk, 5)"
  have h: "healthy empty_disk" "\<forall>a. \<exists>t. json_admission toy_json a = Inr t" "\<forall>m. \<exists>t. json_manifest toy_json m = Inr t"
    "0 < cer_threshold ceremony_example" "cer_threshold ceremony_example \<le> cer_n ceremony_example"
    "shamir_n ceremony_example = Some 3" "shamir_threshold ceremony_example = Some 2" "0 < (2 :: nat)" "(2 :: nat) \<le> 3" "(3 :: nat) \<le> 255"
    by (simp_all add: ceremony_example_def empty_disk_def toy_json_def healthy_def)
  have n: "cer_n ceremony_example = 1" by (simp add: ceremony_example_def)
  note t = ceremony_recovers[OF toy_sig_laws toy_laws(1) lively_toy_lib h, of "[''out'']" 5, unfolded n]
  show ?thesis
  proof (cases "\<exists>e fs' rng'. ?run = Some (Inl e, fs', rng')")
    case True
    then show ?thesis using t by auto
  next
    case False
    then obtain out fs' rng' where run: "?run = Some (Inr out, fs', rng')"
      using t by (metis sum.exhaust)
    let ?ps = "[shamir_share_paths out ! 0 ! 2, shamir_share_paths out ! 0 ! 0]"
    from t obtain seed where out: "verify_threshold toy_sig (sample_admission out) (consortium out) = Inr ()"
      "length (shamir_share_paths out ! 0) = 3" "distinct (shamir_share_paths out ! 0)"
      "authority_pubkeys_hex out ! 0 = hex_encode (ed_to_bytes toy_sig (ed_verifying_key toy_sig (ed_from_seed toy_sig seed)))"
      "\<forall>paths. set paths \<subseteq> set (shamir_share_paths out ! 0) \<longrightarrow> distinct paths \<longrightarrow> 2 \<le> length paths \<longrightarrow> reconstruct_seed_from_files fs' paths = Inr seed"
      unfolding run by auto
    have "set ?ps \<subseteq> set (shamir_share_paths out ! 0)" "distinct ?ps" using out(2,3) by (auto simp: nth_eq_iff_index_eq)
    then have "reconstruct_seed_from_files fs' ?ps = Inr seed" using out(5) by simp
    then show ?thesis using run out(1,4) by blast
  qed
qed

end
