(* ===== verification/Custody.thy ===== *)
theory Custody
  imports Ceremony
begin

text \<open>
  Where the authority keys live, \<^verbatim>\<open>crates/aegis-topology/src/custody.rs\<close>: in software, in a hardware module that is not linked and
  fails closed, or in the simulated module of the tests. The trait \<open>Pkcs11CustodyOps\<close> is the locale \<open>pkcs11_custody\<close>; both
  implementations satisfy its laws.
\<close>

section \<open>Values and errors\<close>

record HsmWrappedShareFields =
  key_label :: string
  wrapped_blob :: bytes
  wrapped_x :: byte
  wrapped_pubkey :: bytes

record HsmSlotInfo =
  slot_id :: u64
  slot_label :: string
  token_present :: bool

datatype CeremonyCustodyMode = SoftwareMode | HardwareMode

datatype CeremonyError = HsmUnavailable string | ShamirFailed ShamirError | UnknownKeyLabel string

definition SOFTWARE_CUSTODY_PROVIDER_ID :: string where
  "SOFTWARE_CUSTODY_PROVIDER_ID = ''software-custody-v1''"

definition HSM_CUSTODY_PROVIDER_ID :: string where
  "HSM_CUSTODY_PROVIDER_ID = ''hsm-custody-v1''"

definition SIMULATED_HSM_PROVIDER_ID :: string where
  "SIMULATED_HSM_PROVIDER_ID = ''simulated-hsm-lab-v1''"

definition hsm_unavailable_hint :: string where
  "hsm_unavailable_hint = ''PKCS#11 HSM unavailable: install vendor module (SoftHSM2, Luna, YubiHSM, etc.), set AEGIS_PKCS11_MODULE path, link cryptoki/pkcs11 crate, and implement HsmCustodyProvider + Pkcs11CustodyOps. See docs/ops/consortium_key_ceremony.md.''"

section \<open>Software custody\<close>

definition software_split_seed_shares ::
    "('r \<Rightarrow> nat \<Rightarrow> bytes \<times> 'r) \<Rightarrow> bytes \<Rightarrow> nat \<Rightarrow> nat \<Rightarrow> 'r \<Rightarrow> ((CeremonyError, SeedShare list) result \<times> 'r) option" where
  "software_split_seed_shares fill seed threshold share_count rng =
     map_option (\<lambda>(r, rng). (case r of Inl e \<Rightarrow> Inl (ShamirFailed e) | Inr shares \<Rightarrow> Inr shares, rng))
       (split_seed fill seed threshold share_count rng)"

definition software_sign_admission :: "('sk, 'vk) sig_lib \<Rightarrow> 'sk \<Rightarrow> RelayRecord \<Rightarrow> AuthorityAdmissionSignature" where
  "software_sign_admission S key r = sign_authority S key r"

definition key_from_seed :: "('sk, 'vk) sig_lib \<Rightarrow> bytes \<Rightarrow> 'sk" where
  "key_from_seed S seed = ed_from_seed S seed"

definition verifying_key_from_seed :: "('sk, 'vk) sig_lib \<Rightarrow> bytes \<Rightarrow> 'vk" where
  "verifying_key_from_seed S seed = ed_verifying_key S (key_from_seed S seed)"

section \<open>The hardware stub\<close>

definition hsm_unavailable :: CeremonyError where
  "hsm_unavailable = HsmUnavailable hsm_unavailable_hint"

definition hsm_try_new :: "(CeremonyError, unit) result" where
  "hsm_try_new = Inl hsm_unavailable"

definition hsm_list_slots :: "unit \<Rightarrow> (CeremonyError, HsmSlotInfo list) result" where
  "hsm_list_slots s = Inl hsm_unavailable"

definition hsm_generate_wrap_seed_share ::
    "bytes \<Rightarrow> nat \<Rightarrow> byte \<Rightarrow> string \<Rightarrow> unit \<Rightarrow> (CeremonyError, HsmWrappedShareFields) result \<times> unit" where
  "hsm_generate_wrap_seed_share seed authority_index x custodian s = (Inl hsm_unavailable, s)"

definition hsm_sign_admission :: "unit \<Rightarrow> string \<Rightarrow> RelayRecord \<Rightarrow> (CeremonyError, AuthorityAdmissionSignature) result" where
  "hsm_sign_admission s label r = Inl hsm_unavailable"

definition hsm_verify_wrapped_share :: "unit \<Rightarrow> HsmWrappedShareFields \<Rightarrow> (CeremonyError, unit) result" where
  "hsm_verify_wrapped_share s f = Inl hsm_unavailable"

text \<open>\<open>Inr ()\<close> is the software provider. The arm after a successful probe is unreachable: the probe never succeeds.\<close>

definition select_ceremony_custody :: "CeremonyCustodyMode \<Rightarrow> (CeremonyError, unit) result" where
  "select_ceremony_custody mode =
     (case mode of SoftwareMode \<Rightarrow> Inr () | HardwareMode \<Rightarrow> bind_result hsm_try_new (\<lambda>_. undefined))"

lemma hardware_custody_fails_closed: "select_ceremony_custody HardwareMode = Inl (HsmUnavailable hsm_unavailable_hint)"
  by (simp add: select_ceremony_custody_def hsm_try_new_def hsm_unavailable_def)

section \<open>The simulated module\<close>

record 'sk SimulatedHsm =
  sim_keys :: "(string \<times> 'sk) list"
  next_slot :: u64

definition sim_new_lab_only :: "'sk SimulatedHsm" where
  "sim_new_lab_only = \<lparr>sim_keys = [], next_slot = 1\<rparr>"

definition wrap_blob :: "string \<Rightarrow> byte \<Rightarrow> bytes \<Rightarrow> bytes" where
  "wrap_blob label x pubkey = ascii ''SIMHSM-LAB-v1:'' @ ascii label @ [x] @ pubkey"

definition sim_label :: "nat \<Rightarrow> string \<Rightarrow> string" where
  "sim_label authority_index custodian = ''sim-slot-'' @ dec_string authority_index @ ''-'' @ custodian"

definition sim_list_slots :: "'sk SimulatedHsm \<Rightarrow> (CeremonyError, HsmSlotInfo list) result" where
  "sim_list_slots s =
     (let slots = sort_key slot_id (map (\<lambda>(i, label, _). \<lparr>slot_id = of_nat i + 1, slot_label = label, token_present = True\<rparr>) (enumerate 0 (sim_keys s)))
      in Inr (if slots = [] then [\<lparr>slot_id = 0, slot_label = ''sim-empty'', token_present = False\<rparr>] else slots))"

text \<open>The key comes from the generator of the operating system: \<open>seed\<close> is what it draws.\<close>

definition sim_generate_wrap_seed_share ::
    "('sk, 'vk) sig_lib \<Rightarrow> bytes \<Rightarrow> nat \<Rightarrow> byte \<Rightarrow> string \<Rightarrow> 'sk SimulatedHsm
      \<Rightarrow> (CeremonyError, HsmWrappedShareFields) result \<times> 'sk SimulatedHsm" where
  "sim_generate_wrap_seed_share S seed authority_index x custodian s =
     (let label = sim_label authority_index custodian;
          key = ed_from_seed S seed;
          pubkey = ed_to_bytes S (ed_verifying_key S key);
          s = s\<lparr>sim_keys := AList.update label key (sim_keys s)\<rparr>;
          s = s\<lparr>next_slot := sat_add64 (next_slot s) 1\<rparr>
      in (Inr \<lparr>key_label = label, wrapped_blob = wrap_blob (dec_string authority_index) x pubkey, wrapped_x = x, wrapped_pubkey = pubkey\<rparr>, s))"

definition sim_sign_admission ::
    "('sk, 'vk) sig_lib \<Rightarrow> 'sk SimulatedHsm \<Rightarrow> string \<Rightarrow> RelayRecord \<Rightarrow> (CeremonyError, AuthorityAdmissionSignature) result" where
  "sim_sign_admission S s label r =
     bind_result (ok_or (map_of (sim_keys s) label) (UnknownKeyLabel label)) (\<lambda>key. Inr (software_sign_admission S key r))"

definition sim_verify_wrapped_share ::
    "('sk, 'vk) sig_lib \<Rightarrow> 'sk SimulatedHsm \<Rightarrow> HsmWrappedShareFields \<Rightarrow> (CeremonyError, unit) result" where
  "sim_verify_wrapped_share S s f =
     bind_result (ok_or (map_of (sim_keys s) (key_label f)) (UnknownKeyLabel (key_label f))) (\<lambda>key.
       if ed_to_bytes S (ed_verifying_key S key) \<noteq> wrapped_pubkey f then Inl (UnknownKeyLabel (key_label f)) else Inr ())"

section \<open>The contract of the operations\<close>

text \<open>A wrapped share is usable: it verifies, and its label signs any admission with the key it names.\<close>

definition usable ::
    "('sk, 'vk) sig_lib \<Rightarrow> ('s \<Rightarrow> string \<Rightarrow> RelayRecord \<Rightarrow> (CeremonyError, AuthorityAdmissionSignature) result)
      \<Rightarrow> ('s \<Rightarrow> HsmWrappedShareFields \<Rightarrow> (CeremonyError, unit) result) \<Rightarrow> 's \<Rightarrow> HsmWrappedShareFields \<Rightarrow> bool" where
  "usable S sign verify s f \<longleftrightarrow> verify s f = Inr () \<and>
     (\<exists>vk. ed_from_bytes S (wrapped_pubkey f) = Some vk
       \<and> (\<forall>r. \<exists>sig. sign s (key_label f) r = Inr sig \<and> authority_verify S sig r vk = Inr ()))"

type_synonym share_request = "bytes \<times> nat \<times> byte \<times> string"

fun generate_all ::
    "(bytes \<Rightarrow> nat \<Rightarrow> byte \<Rightarrow> string \<Rightarrow> 's \<Rightarrow> (CeremonyError, HsmWrappedShareFields) result \<times> 's) \<Rightarrow> share_request list \<Rightarrow> 's
      \<Rightarrow> (CeremonyError, HsmWrappedShareFields) result list \<times> 's" where
  "generate_all gen [] s = ([], s)"
| "generate_all gen ((seed, i, x, c) # reqs) s =
     (let (r, s) = gen seed i x c s; (rs, s) = generate_all gen reqs s in (r # rs, s))"

definition request_pair :: "share_request \<Rightarrow> nat \<times> string" where
  "request_pair q = (fst (snd q), snd (snd (snd q)))"

locale pkcs11_custody =
  fixes S :: "('sk, 'vk) sig_lib"
    and gen :: "bytes \<Rightarrow> nat \<Rightarrow> byte \<Rightarrow> string \<Rightarrow> 's \<Rightarrow> (CeremonyError, HsmWrappedShareFields) result \<times> 's"
    and sign :: "'s \<Rightarrow> string \<Rightarrow> RelayRecord \<Rightarrow> (CeremonyError, AuthorityAdmissionSignature) result"
    and verify :: "'s \<Rightarrow> HsmWrappedShareFields \<Rightarrow> (CeremonyError, unit) result"
    and label :: "nat \<Rightarrow> string \<Rightarrow> string"
  assumes gen_usable: "gen seed i x c s = (Inr f, s') \<Longrightarrow> usable S sign verify s' f \<and> key_label f = label i c"
    and gen_keeps: "gen seed i x c s = (r, s') \<Longrightarrow> key_label f \<noteq> label i c \<Longrightarrow> usable S sign verify s f \<Longrightarrow> usable S sign verify s' f"
    and label_inj: "label i c = label j d \<Longrightarrow> i = j \<and> c = d"
begin

lemma generate_all_keeps:
  assumes "generate_all gen reqs s = (rs, s')" "usable S sign verify s f" "\<forall>q \<in> set reqs. key_label f \<noteq> label (fst (request_pair q)) (snd (request_pair q))"
  shows "usable S sign verify s' f"
  using assms
proof (induction reqs arbitrary: s rs s')
  case (Cons q reqs)
  obtain seed i x c where q: "q = (seed, i, x, c)" by (cases q)
  obtain r1 s1 where one: "gen seed i x c s = (r1, s1)" by (rule prod.exhaust)
  obtain rs2 s2 where two: "generate_all gen reqs s1 = (rs2, s2)" by (rule prod.exhaust)
  have "s' = s2" using Cons.prems(1) by (simp add: q one two)
  moreover have "usable S sign verify s1 f"
    using gen_keeps[OF one _ Cons.prems(2)] Cons.prems(3) by (simp add: q request_pair_def)
  ultimately show ?case using Cons.IH[OF two] Cons.prems(3) by simp
qed simp

lemma generated_usable:
  assumes "generate_all gen reqs s = (rs, s')" "distinct (map request_pair reqs)" "Inr f \<in> set rs"
  shows "usable S sign verify s' f"
  using assms
proof (induction reqs arbitrary: s rs s')
  case (Cons q reqs)
  obtain seed i x c where q: "q = (seed, i, x, c)" by (cases q)
  obtain r1 s1 where one: "gen seed i x c s = (r1, s1)" by (rule prod.exhaust)
  obtain rs2 s2 where two: "generate_all gen reqs s1 = (rs2, s2)" by (rule prod.exhaust)
  have all: "rs = r1 # rs2" "s' = s2" using Cons.prems(1) by (simp_all add: q one two)
  show ?case
  proof (cases "Inr f \<in> set rs2")
    case True
    then show ?thesis using Cons.IH[OF two] Cons.prems(2) all by simp
  next
    case False
    then have f: "gen seed i x c s = (Inr f, s1)" using Cons.prems(3) all one by auto
    have "key_label f \<noteq> label (fst (request_pair p)) (snd (request_pair p))" if "p \<in> set reqs" for p
    proof
      assume "key_label f = label (fst (request_pair p)) (snd (request_pair p))"
      then have "request_pair p = (i, c)" using gen_usable[OF f] label_inj by (metis prod.collapse)
      then show False using Cons.prems(2) that by (force simp: q request_pair_def)
    qed
    then show ?thesis using generate_all_keeps[OF two] gen_usable[OF f] all(2) by blast
  qed
qed simp

end

section \<open>Both modules keep the contract\<close>

lemma dec_string_digits: "c \<in> set (dec_string n) \<Longrightarrow> c \<noteq> CHR ''-''"
proof (induction n rule: dec_string.induct)
  case (1 n)
  have m: "digit_value (CHR ''-'') = None" by (simp add: digit_value_def)
  have d: "hex_digit k \<noteq> CHR ''-''" "CHR ''-'' \<noteq> hex_digit k" if "k < 10" for k
    using m digit_value_hex_digit[of k] that by fastforce+
  show ?case using 1 by (cases "n < 10") (auto simp: dec_string.simps[of n] d)
qed

lemma sim_label_inj: "sim_label i c = sim_label j d \<longleftrightarrow> i = j \<and> c = d"
proof
  assume "sim_label i c = sim_label j d"
  then have eq: "dec_string i @ CHR ''-'' # c = dec_string j @ CHR ''-'' # d" by (simp add: sim_label_def)
  have t: "takeWhile (\<lambda>x. x \<noteq> CHR ''-'') (dec_string k @ CHR ''-'' # e) = dec_string k" for k e
    using dec_string_digits by (subst takeWhile_append2) auto
  have "dec_string i = dec_string j" using t[of i c] t[of j d] eq by simp
  then show "i = j \<and> c = d" using eq by (simp add: dec_string_inj)
qed simp

lemma sim_usable_iff:
  assumes "sig_laws S"
  shows "usable S (sim_sign_admission S) (sim_verify_wrapped_share S) s f
    \<longleftrightarrow> (\<exists>key. map_of (sim_keys s) (key_label f) = Some key \<and> ed_to_bytes S (ed_verifying_key S key) = wrapped_pubkey f)"
    (is "?u \<longleftrightarrow> ?k")
proof
  show "?u \<Longrightarrow> ?k"
    by (auto simp: usable_def sim_verify_wrapped_share_def bind_result_Inr_iff ok_or_def split: option.splits if_splits)
  assume ?k
  then obtain key where k: "map_of (sim_keys s) (key_label f) = Some key" "wrapped_pubkey f = ed_to_bytes S (ed_verifying_key S key)" by auto
  have "authority_verify S (sign_authority S key r) r (ed_verifying_key S key) = Inr ()" for r
    using sig_lawsD[OF assms] by (simp add: authority_verify_def sign_authority_def)
  then show ?u
    using k sig_lawsD(5)[OF assms] by (simp add: usable_def sim_verify_wrapped_share_def sim_sign_admission_def software_sign_admission_def)
qed

lemma sim_custody: "sig_laws S \<Longrightarrow> pkcs11_custody S (sim_generate_wrap_seed_share S) (sim_sign_admission S) (sim_verify_wrapped_share S) sim_label"
proof
  fix seed i x c s f s'
  assume "sig_laws S" "sim_generate_wrap_seed_share S seed i x c s = (Inr f, s')"
  then show "usable S (sim_sign_admission S) (sim_verify_wrapped_share S) s' f \<and> key_label f = sim_label i c"
    by (auto simp: sim_usable_iff sim_generate_wrap_seed_share_def Let_def update_conv')
next
  fix seed i x c s r s' f
  assume "sig_laws S" "sim_generate_wrap_seed_share S seed i x c s = (r, s')" "key_label f \<noteq> sim_label i c"
    "usable S (sim_sign_admission S) (sim_verify_wrapped_share S) s f"
  then show "usable S (sim_sign_admission S) (sim_verify_wrapped_share S) s' f"
    by (auto simp: sim_usable_iff sim_generate_wrap_seed_share_def Let_def update_conv')
qed (simp add: sim_label_inj)

interpretation hsm: pkcs11_custody S hsm_generate_wrap_seed_share hsm_sign_admission hsm_verify_wrapped_share sim_label for S
  by unfold_locales (simp_all add: hsm_generate_wrap_seed_share_def sim_label_inj)

locale lawful_signatures =
  fixes S :: "('sk, 'vk) sig_lib"
  assumes laws: "sig_laws S"

sublocale lawful_signatures < sim: pkcs11_custody S "sim_generate_wrap_seed_share S" "sim_sign_admission S" "sim_verify_wrapped_share S" sim_label
  by (rule sim_custody[OF laws])

interpretation toy: lawful_signatures toy_sig
  by unfold_locales (rule toy_sig_laws)

context lawful_signatures begin

lemma shares_usable: "generate_all (sim_generate_wrap_seed_share S) reqs s = (rs, s') \<Longrightarrow> distinct (map request_pair reqs) \<Longrightarrow> Inr f \<in> set rs
    \<Longrightarrow> usable S (sim_sign_admission S) (sim_verify_wrapped_share S) s' f"
  by (rule sim.generated_usable)

end

text \<open>Every wrapped share of the simulated module stays usable while no later request repeats its authority and custodian.\<close>

lemma sim_shares_usable:
  assumes "sig_laws S" "generate_all (sim_generate_wrap_seed_share S) reqs sim_new_lab_only = (rs, s)" "distinct (map request_pair reqs)"
  shows "length rs = length reqs \<and> (\<forall>r \<in> set rs. \<exists>f. r = Inr f \<and> usable S (sim_sign_admission S) (sim_verify_wrapped_share S) s f)"
proof -
  have "length rs = length reqs \<and> (\<forall>r \<in> set rs. \<not> isl r)"
    if "generate_all (sim_generate_wrap_seed_share S) reqs t = (rs, s)" for t :: "'a SimulatedHsm"
    using that by (induction reqs arbitrary: t rs) (auto simp: sim_generate_wrap_seed_share_def Let_def split: prod.splits)
  then show ?thesis
    using assms(2) lawful_signatures.shares_usable[OF lawful_signatures.intro[OF assms(1)] assms(2,3)] by (metis sum.collapse(2))
qed

text \<open>A repeated request replaces the key: the earlier share no longer verifies unless the same key was drawn again.\<close>

lemma sim_repeat_revokes:
  assumes "sim_generate_wrap_seed_share S seed i x c s = (Inr f, s1)" "sim_generate_wrap_seed_share S seed' i x' c s1 = (r, s2)"
    and "ed_to_bytes S (ed_verifying_key S (ed_from_seed S seed')) \<noteq> wrapped_pubkey f"
  shows "sim_verify_wrapped_share S s2 f = Inl (UnknownKeyLabel (key_label f))"
  using assms by (auto simp: sim_generate_wrap_seed_share_def sim_verify_wrapped_share_def Let_def update_conv')

end
