(* ===== verification/Seed_Files.thy ===== *)
theory Seed_Files
  imports Roster Nullifier
begin

text \<open>
  The seeds of a relay's KEM key on disk, \<^verbatim>\<open>crates/aegis-node/src/kem_seed_protect.rs\<close> and the \<open>[kem]\<close> part of
  \<^verbatim>\<open>crates/aegis-node/src/config.rs\<close>. The host is a value: its files with their modes, its keychain, and the faults it answers
  with. Which protection is compiled in is the argument \<open>b\<close>. Texts in files are byte strings, TOML (serde) the argument \<open>T\<close>.
\<close>

section \<open>Errors\<close>

datatype ConfigError =
    ConfigIo string
  | ConfigToml string
  | ConfigSerialize string
  | ConfigHex string
  | MissingKem
  | IncompleteKem
  | ConfigRoster RosterError
  | ConfigReputation ReputationError
  | ConfigNullifier NullifierError
  | KemProtect string

section \<open>Paths\<close>

text \<open>A path is absolute or not and has components; \<open>parent\<close>, \<open>join\<close> and \<open>PathBuf::from\<close>.\<close>

type_synonym rpath = "bool \<times> string list"

fun split_slash :: "string \<Rightarrow> string list" where
  "split_slash [] = [[]]"
| "split_slash (c # cs) =
     (if c = CHR ''/'' then [] # split_slash cs
      else case split_slash cs of [] \<Rightarrow> [[c]] | s # ss \<Rightarrow> (c # s) # ss)"

definition path_of :: "string \<Rightarrow> rpath" where
  "path_of s = (s \<noteq> [] \<and> hd s = CHR ''/'', filter (\<lambda>c. c \<noteq> [] \<and> c \<noteq> ''.'') (split_slash s))"

definition path_parent :: "rpath \<Rightarrow> rpath option" where
  "path_parent p = (if snd p = [] then None else Some (fst p, butlast (snd p)))"

definition path_join :: "rpath \<Rightarrow> rpath \<Rightarrow> rpath" where
  "path_join p q = (if fst q then q else (fst p, snd p @ snd q))"

fun join_slash :: "string list \<Rightarrow> string" where
  "join_slash [] = []"
| "join_slash [c] = c"
| "join_slash (c # cs) = c @ ''/'' @ join_slash cs"

definition path_text :: "rpath \<Rightarrow> string" where
  "path_text p = (if fst p then ''/'' else []) @ join_slash (snd p)"

section \<open>The host\<close>

datatype build_kind = UnixKeyring | UnixPlain | WindowsDpapi | OtherPlain

definition is_unix :: "build_kind \<Rightarrow> bool" where
  "is_unix b \<longleftrightarrow> b = UnixKeyring \<or> b = UnixPlain"

record host =
  host_files :: "rpath \<Rightarrow> (bytes \<times> u32) option"
  host_keychain :: "bytes \<Rightarrow> bytes option"
  host_read_fault :: "rpath \<Rightarrow> string option"
  host_write_fault :: "rpath \<Rightarrow> (string \<times> (bytes \<times> u32) option) option"
  host_keychain_fault :: "string option"
  host_new_mode :: u32
  dpapi_encrypt :: "bytes \<Rightarrow> (string, bytes) result"
  dpapi_decrypt :: "bytes \<Rightarrow> (string, bytes) result"

text \<open>\<open>fs::write\<close>: an existing file keeps its mode.\<close>

definition write_mode :: "u32 \<Rightarrow> rpath \<Rightarrow> bytes \<Rightarrow> host \<Rightarrow> (ConfigError, unit) result \<times> host" where
  "write_mode mode p contents h =
     (case host_write_fault h p of
        Some (e, left) \<Rightarrow> (Inl (ConfigIo e), h\<lparr>host_files := (host_files h)(p := left)\<rparr>)
      | None \<Rightarrow>
          (let m = (case host_files h p of Some (_, m) \<Rightarrow> m | None \<Rightarrow> mode)
           in (Inr (), h\<lparr>host_files := (host_files h)(p \<mapsto> (contents, m))\<rparr>)))"

definition fs_write :: "rpath \<Rightarrow> bytes \<Rightarrow> host \<Rightarrow> (ConfigError, unit) result \<times> host" where
  "fs_write p contents h = write_mode (host_new_mode h) p contents h"

text \<open>The mode bits \<open>0o600\<close>; \<open>0o777\<close> and \<open>0o077\<close> are \<open>0x1FF\<close> and \<open>0x3F\<close>.\<close>

definition OWNER_ONLY :: u32 where "OWNER_ONLY = 0x180"

text \<open>\<open>OpenOptions\<close> with \<open>mode(0o600)\<close>: the mode is that of a file it creates.\<close>

definition write_restricted_file :: "build_kind \<Rightarrow> rpath \<Rightarrow> bytes \<Rightarrow> host \<Rightarrow> (ConfigError, unit) result \<times> host" where
  "write_restricted_file b p contents h =
     (if is_unix b then write_mode OWNER_ONLY p contents h else fs_write p contents h)"

definition fs_read :: "rpath \<Rightarrow> host \<Rightarrow> (ConfigError, bytes) result" where
  "fs_read p h =
     (case host_read_fault h p of
        Some e \<Rightarrow> Inl (ConfigIo e)
      | None \<Rightarrow> (case host_files h p of None \<Rightarrow> Inl (ConfigIo ''No such file or directory'') | Some (bs, _) \<Rightarrow> Inr bs))"

section \<open>UTF-8\<close>

definition utf8_cont :: "byte \<Rightarrow> bool" where
  "utf8_cont b \<longleftrightarrow> 0x80 \<le> b \<and> b \<le> 0xBF"

text \<open>The second byte of a sequence of three or four bytes.\<close>

definition utf8_second :: "byte \<Rightarrow> byte \<Rightarrow> bool" where
  "utf8_second a b \<longleftrightarrow> utf8_cont b \<and> (a = 0xE0 \<longrightarrow> 0xA0 \<le> b) \<and> (a = 0xED \<longrightarrow> b \<le> 0x9F) \<and> (a = 0xF0 \<longrightarrow> 0x90 \<le> b) \<and> (a = 0xF4 \<longrightarrow> b \<le> 0x8F)"

fun is_utf8 :: "bytes \<Rightarrow> bool" where
  "is_utf8 [] = True"
| "is_utf8 (a # r) =
     (if a < 0x80 then is_utf8 r
      else case r of [] \<Rightarrow> False
      | b # r \<Rightarrow>
          if 0xC2 \<le> a \<and> a \<le> 0xDF then utf8_cont b \<and> is_utf8 r
          else (case r of [] \<Rightarrow> False
          | c # r \<Rightarrow>
              if 0xE0 \<le> a \<and> a \<le> 0xEF then utf8_second a b \<and> utf8_cont c \<and> is_utf8 r
              else (case r of [] \<Rightarrow> False
              | d # r \<Rightarrow> 0xF0 \<le> a \<and> a \<le> 0xF4 \<and> utf8_second a b \<and> utf8_cont c \<and> utf8_cont d \<and> is_utf8 r)))"

lemma utf8_ascii: "\<forall>b \<in> set bs. b < 0x80 \<Longrightarrow> is_utf8 bs"
  by (induction bs) simp_all

section \<open>Protection of the seed file\<close>

definition KEM_SEED_DPAPI_MAGIC :: bytes where
  "KEM_SEED_DPAPI_MAGIC = ascii ''AEGIS-KEM-DPAPI-v1'' @ [0]"

definition KEM_SEED_KEYRING_MAGIC :: bytes where
  "KEM_SEED_KEYRING_MAGIC = ascii ''AEGIS-KEM-KEYRING-v1'' @ [0]"

definition bytes_start_with :: "bytes \<Rightarrow> bytes \<Rightarrow> bool" where
  "bytes_start_with pre bs \<longleftrightarrow> take (length pre) bs = pre"

definition is_dpapi_protected :: "bytes \<Rightarrow> bool" where
  "is_dpapi_protected data = bytes_start_with KEM_SEED_DPAPI_MAGIC data"

definition is_keyring_protected :: "bytes \<Rightarrow> bool" where
  "is_keyring_protected data = bytes_start_with KEM_SEED_KEYRING_MAGIC data"

definition assert_kem_seed_file_mode_safe :: "build_kind \<Rightarrow> rpath \<Rightarrow> host \<Rightarrow> (string, unit) result" where
  "assert_kem_seed_file_mode_safe b p h =
     (if \<not> is_unix b then Inr ()
      else case host_files h p of
        None \<Rightarrow> Inl ''kem.seeds metadata''
      | Some (_, m) \<Rightarrow>
          (let mode = and m 0x1FF in
           if and mode 0x3F \<noteq> 0 then Inl (''kem.seeds at '' @ path_text p @ '' has insecure mode'') else Inr ()))"

definition kem_keyring_account :: "(bytes \<Rightarrow> bytes) \<Rightarrow> rpath \<Rightarrow> string option \<Rightarrow> string" where
  "kem_keyring_account H config_path relay_id_hex =
     (let hashed = ''kem:cfg:'' @ hex_encode (H (ascii ''aegis-kem-seed-v1'' @ ascii (path_text config_path))) in
      case relay_id_hex of
        None \<Rightarrow> hashed
      | Some i \<Rightarrow> (let i = trim_0x (trim i) in if i \<noteq> [] then ''kem:relay:'' @ i else hashed))"

definition keyring_store :: "bytes \<Rightarrow> bytes \<Rightarrow> host \<Rightarrow> (string, unit) result \<times> host" where
  "keyring_store account plaintext h =
     (if \<not> is_utf8 plaintext then (Inl ''kem seed plaintext is not UTF-8'', h)
      else case host_keychain_fault h of
        Some e \<Rightarrow> (Inl e, h)
      | None \<Rightarrow> (Inr (), h\<lparr>host_keychain := (host_keychain h)(account \<mapsto> plaintext)\<rparr>))"

definition keyring_load :: "bytes \<Rightarrow> host \<Rightarrow> (string, bytes) result" where
  "keyring_load account h =
     (case host_keychain_fault h of
        Some e \<Rightarrow> Inl e
      | None \<Rightarrow> ok_or (host_keychain h account) ''keyring get_password: no entry'')"

definition protect_seed_bytes :: "build_kind \<Rightarrow> bytes \<Rightarrow> string \<Rightarrow> host \<Rightarrow> (string, bytes) result \<times> host" where
  "protect_seed_bytes b plaintext account h =
     (case b of
        WindowsDpapi \<Rightarrow>
          (case dpapi_encrypt h plaintext of
             Inl e \<Rightarrow> (Inl (''DPAPI CryptProtectData failed: '' @ e), h)
           | Inr cipher \<Rightarrow> (Inr (KEM_SEED_DPAPI_MAGIC @ cipher), h))
      | UnixKeyring \<Rightarrow>
          (case keyring_store (ascii account) plaintext h of
             (Inr _, h) \<Rightarrow> (Inr (KEM_SEED_KEYRING_MAGIC @ ascii account), h)
           | (Inl _, h) \<Rightarrow> (Inr plaintext, h))
      | _ \<Rightarrow> (Inr plaintext, h))"

definition unprotect_seed_bytes :: "build_kind \<Rightarrow> bytes \<Rightarrow> host \<Rightarrow> (string, bytes) result" where
  "unprotect_seed_bytes b data h =
     (if is_dpapi_protected data
      then if b = WindowsDpapi
        then (case dpapi_decrypt h (drop (length KEM_SEED_DPAPI_MAGIC) data) of
                Inl e \<Rightarrow> Inl (''DPAPI CryptUnprotectData failed: '' @ e) | Inr bs \<Rightarrow> Inr bs)
        else Inl ''kem.seeds is DPAPI-protected but this build has no kem-dpapi / Windows support''
      else if is_keyring_protected data
      then let account = drop (length KEM_SEED_KEYRING_MAGIC) data in
        if \<not> is_utf8 account then Inl ''kem.seeds keyring pointer account is not UTF-8''
        else if b = UnixKeyring then keyring_load account h
        else Inl ''kem.seeds is keyring-protected but this build has no kem-keyring / Unix support''
      else Inr data)"

section \<open>Seeds and their place\<close>

definition DEFAULT_KEM_SEED_FILENAME :: string where
  "DEFAULT_KEM_SEED_FILENAME = ''kem.seeds''"

record KemSeeds =
  seed_x25519 :: string
  seed_mlkem_d :: string
  seed_mlkem_z :: string

record KemFileConfig =
  kem_file :: "string option"
  allow_plaintext_kem :: bool
  inline_x25519 :: "string option"
  inline_mlkem_d :: "string option"
  inline_mlkem_z :: "string option"

definition kem_file_config_default :: KemFileConfig where
  "kem_file_config_default = \<lparr>kem_file = None, allow_plaintext_kem = False, inline_x25519 = None, inline_mlkem_d = None, inline_mlkem_z = None\<rparr>"

text \<open>TOML text of the seeds, written and read.\<close>

record seeds_toml =
  seeds_to_toml :: "KemSeeds \<Rightarrow> (string, bytes) result"
  seeds_from_toml :: "bytes \<Rightarrow> (string, KemSeeds) result"

definition has_any_inline :: "KemFileConfig \<Rightarrow> bool" where
  "has_any_inline k \<longleftrightarrow> inline_x25519 k \<noteq> None \<or> inline_mlkem_d k \<noteq> None \<or> inline_mlkem_z k \<noteq> None"

definition has_complete_inline :: "KemFileConfig \<Rightarrow> bool" where
  "has_complete_inline k \<longleftrightarrow> inline_x25519 k \<noteq> None \<and> inline_mlkem_d k \<noteq> None \<and> inline_mlkem_z k \<noteq> None"

definition inline_seeds :: "KemFileConfig \<Rightarrow> KemSeeds option" where
  "inline_seeds k =
     (if has_complete_inline k
      then Some \<lparr>seed_x25519 = the (inline_x25519 k), seed_mlkem_d = the (inline_mlkem_d k), seed_mlkem_z = the (inline_mlkem_z k)\<rparr>
      else None)"

definition kem_seed_file_path_from_option :: "rpath \<Rightarrow> string option \<Rightarrow> rpath" where
  "kem_seed_file_path_from_option config_path file_name =
     (let dir = (case path_parent config_path of Some d \<Rightarrow> d | None \<Rightarrow> path_of ''.'') in
      case file_name of
        Some f \<Rightarrow> (let p = path_of f in if fst p then p else path_join dir p)
      | None \<Rightarrow> path_join dir (path_of DEFAULT_KEM_SEED_FILENAME))"

definition kem_seed_file_path :: "rpath \<Rightarrow> KemFileConfig \<Rightarrow> rpath" where
  "kem_seed_file_path config_path k = kem_seed_file_path_from_option config_path (kem_file k)"

definition resolve_kem_seeds :: "seeds_toml \<Rightarrow> build_kind \<Rightarrow> host \<Rightarrow> rpath \<Rightarrow> KemFileConfig \<Rightarrow> (ConfigError, KemSeeds) result" where
  "resolve_kem_seeds T b h config_path k =
     (if has_any_inline k then ok_or (inline_seeds k) IncompleteKem
      else let seed_path = kem_seed_file_path config_path k in
        if host_files h seed_path = None then Inl MissingKem
        else case assert_kem_seed_file_mode_safe b seed_path h of
          Inl e \<Rightarrow> Inl (KemProtect e)
        | Inr _ \<Rightarrow>
            bind_result (fs_read seed_path h) (\<lambda>raw.
              case unprotect_seed_bytes b raw h of
                Inl e \<Rightarrow> Inl (KemProtect e)
              | Inr plain \<Rightarrow>
                  if \<not> is_utf8 plain then Inl (KemProtect ''kem seed plaintext is not UTF-8'')
                  else (case seeds_from_toml T plain of Inl e \<Rightarrow> Inl (ConfigToml e) | Inr seeds \<Rightarrow> Inr seeds)))"

definition generate_kem_seeds :: "('r \<Rightarrow> nat \<Rightarrow> bytes \<times> 'r) \<Rightarrow> 'r \<Rightarrow> KemSeeds \<times> 'r" where
  "generate_kem_seeds fill rng =
     (let (x, rng) = fill rng 32; (d, rng) = fill rng 32; (z, rng) = fill rng 32
      in (\<lparr>seed_x25519 = hex_encode x, seed_mlkem_d = hex_encode d, seed_mlkem_z = hex_encode z\<rparr>, rng))"

definition persist_kem_seeds_file_with_account ::
    "seeds_toml \<Rightarrow> build_kind \<Rightarrow> rpath \<Rightarrow> KemSeeds \<Rightarrow> string \<Rightarrow> host \<Rightarrow> (ConfigError, unit) result \<times> host" where
  "persist_kem_seeds_file_with_account T b p seeds account h =
     (case seeds_to_toml T seeds of
        Inl e \<Rightarrow> (Inl (ConfigSerialize e), h)
      | Inr t \<Rightarrow>
          (case protect_seed_bytes b t account h of
             (Inl e, h) \<Rightarrow> (Inl (KemProtect e), h)
           | (Inr stored, h) \<Rightarrow> write_restricted_file b p stored h))"

definition persist_kem_seeds_file ::
    "(bytes \<Rightarrow> bytes) \<Rightarrow> seeds_toml \<Rightarrow> build_kind \<Rightarrow> rpath \<Rightarrow> KemSeeds \<Rightarrow> host \<Rightarrow> (ConfigError, unit) result \<times> host" where
  "persist_kem_seeds_file H T b p seeds h =
     persist_kem_seeds_file_with_account T b p seeds (kem_keyring_account H p None) h"

section \<open>Stored seeds come back\<close>

text \<open>TOML round trip: a table of quoted strings is UTF-8 and starts with none of the magic bytes.\<close>

definition toml_ok :: "seeds_toml \<Rightarrow> bool" where
  "toml_ok T \<longleftrightarrow> (\<forall>s. \<exists>t. seeds_to_toml T s = Inr t \<and> seeds_from_toml T t = Inr s \<and> is_utf8 t
     \<and> \<not> is_dpapi_protected t \<and> \<not> is_keyring_protected t)"

definition mode_safe :: "build_kind \<Rightarrow> u32 \<Rightarrow> bool" where
  "mode_safe b m \<longleftrightarrow> is_unix b \<longrightarrow> and (and m 0x1FF) 0x3F = 0"

lemma mode_safe_owner_only: "mode_safe b OWNER_ONLY"
  by (simp add: mode_safe_def OWNER_ONLY_def)

lemma mode_check: "host_files h p = Some (bs, m) \<Longrightarrow>
    assert_kem_seed_file_mode_safe b p h = (if mode_safe b m then Inr () else Inl (''kem.seeds at '' @ path_text p @ '' has insecure mode''))"
  by (simp add: assert_kem_seed_file_mode_safe_def mode_safe_def Let_def)

text \<open>A host that stores and loads at a path; the mode a file has after it is written there.\<close>

definition seed_place_ok :: "build_kind \<Rightarrow> rpath \<Rightarrow> host \<Rightarrow> bool" where
  "seed_place_ok b p h \<longleftrightarrow> host_write_fault h p = None \<and> host_read_fault h p = None
     \<and> (b = WindowsDpapi \<longrightarrow> (\<forall>bs. \<exists>c. dpapi_encrypt h bs = Inr c \<and> dpapi_decrypt h c = Inr bs))"

definition seed_mode :: "build_kind \<Rightarrow> host \<Rightarrow> rpath \<Rightarrow> u32" where
  "seed_mode b h p = (case host_files h p of Some (_, m) \<Rightarrow> m | None \<Rightarrow> if is_unix b then OWNER_ONLY else host_new_mode h)"

definition insecure_mode :: "rpath \<Rightarrow> ConfigError" where
  "insecure_mode p = KemProtect (''kem.seeds at '' @ path_text p @ '' has insecure mode'')"

lemma magic_facts:
  "is_dpapi_protected (KEM_SEED_DPAPI_MAGIC @ bs)" "is_keyring_protected (KEM_SEED_KEYRING_MAGIC @ bs)"
  "\<not> is_dpapi_protected (KEM_SEED_KEYRING_MAGIC @ bs)"
  by (simp_all add: is_dpapi_protected_def is_keyring_protected_def bytes_start_with_def KEM_SEED_DPAPI_MAGIC_def KEM_SEED_KEYRING_MAGIC_def ascii_def)

lemma protect_unprotect:
  assumes "is_utf8 t" "\<not> is_dpapi_protected t" "\<not> is_keyring_protected t" "is_utf8 (ascii account)"
    and "b = WindowsDpapi \<longrightarrow> (\<forall>bs. \<exists>c. dpapi_encrypt h bs = Inr c \<and> dpapi_decrypt h c = Inr bs)"
  shows "\<exists>stored chain. protect_seed_bytes b t account h = (Inr stored, h\<lparr>host_keychain := chain\<rparr>)
    \<and> (\<forall>files. unprotect_seed_bytes b stored (h\<lparr>host_keychain := chain, host_files := files\<rparr>) = Inr t)"
proof (cases b)
  case WindowsDpapi
  then obtain c where c: "dpapi_encrypt h t = Inr c" "dpapi_decrypt h c = Inr t" using assms(5) by blast
  show ?thesis
    by (rule exI[of _ "KEM_SEED_DPAPI_MAGIC @ c"], rule exI[of _ "host_keychain h"])
      (simp add: WindowsDpapi protect_seed_bytes_def unprotect_seed_bytes_def c magic_facts)
next
  case UnixKeyring
  show ?thesis
  proof (cases "host_keychain_fault h")
    case None
    show ?thesis
      by (rule exI[of _ "KEM_SEED_KEYRING_MAGIC @ ascii account"], rule exI[of _ "(host_keychain h)(ascii account \<mapsto> t)"])
        (simp add: UnixKeyring None protect_seed_bytes_def keyring_store_def assms(1,4) unprotect_seed_bytes_def keyring_load_def magic_facts)
  next
    case (Some e)
    show ?thesis
      by (rule exI[of _ t], rule exI[of _ "host_keychain h"])
        (simp add: UnixKeyring Some protect_seed_bytes_def keyring_store_def assms unprotect_seed_bytes_def)
  qed
qed (rule exI[of _ t], rule exI[of _ "host_keychain h"], simp add: protect_seed_bytes_def unprotect_seed_bytes_def assms)+

lemma persist_seeds:
  assumes "toml_ok T" "seed_place_ok b p h" "is_utf8 (ascii account)"
  obtains stored chain t where
    "persist_kem_seeds_file_with_account T b p seeds account h
      = (Inr (), h\<lparr>host_keychain := chain, host_files := (host_files h)(p \<mapsto> (stored, seed_mode b h p))\<rparr>)"
    "\<And>files. unprotect_seed_bytes b stored (h\<lparr>host_keychain := chain, host_files := files\<rparr>) = Inr t"
    "is_utf8 t" "seeds_from_toml T t = Inr seeds"
proof -
  obtain t where t: "seeds_to_toml T seeds = Inr t" "seeds_from_toml T t = Inr seeds" "is_utf8 t" "\<not> is_dpapi_protected t" "\<not> is_keyring_protected t"
    using assms(1) unfolding toml_ok_def by blast
  obtain stored chain where st: "protect_seed_bytes b t account h = (Inr stored, h\<lparr>host_keychain := chain\<rparr>)"
    "\<And>files. unprotect_seed_bytes b stored (h\<lparr>host_keychain := chain, host_files := files\<rparr>) = Inr t"
    using protect_unprotect[OF t(3-5) assms(3)] assms(2) unfolding seed_place_ok_def by blast
  have "persist_kem_seeds_file_with_account T b p seeds account h
      = (Inr (), h\<lparr>host_keychain := chain, host_files := (host_files h)(p \<mapsto> (stored, seed_mode b h p))\<rparr>)"
    using assms(2) by (simp add: persist_kem_seeds_file_with_account_def t(1) st(1) write_restricted_file_def fs_write_def write_mode_def
        seed_place_ok_def seed_mode_def split: option.split)
  then show thesis using that st(2) t(2,3) by blast
qed

lemma resolve_stored:
  assumes "\<not> has_any_inline k" "kem_seed_file_path config_path k = p" "host_files h p = Some (stored, m)" "host_read_fault h p = None"
    and "unprotect_seed_bytes b stored h = Inr t" "is_utf8 t" "seeds_from_toml T t = Inr seeds"
  shows "resolve_kem_seeds T b h config_path k = (if mode_safe b m then Inr seeds else Inl (insecure_mode p))"
  using assms by (simp add: resolve_kem_seeds_def mode_check[OF assms(3)] fs_read_def insecure_mode_def)

end
