(* ===== verification/Exit_Sink.thy ===== *)
theory Exit_Sink
  imports Sphinx_Correct Text_Codec Relay_Node
begin

text \<open>
  The exit of a relay, \<^verbatim>\<open>crates/aegis-node/src/exit_sink.rs\<close>: the payloads of the packets that end here are written as lines of
  hex digits, and with the presence pad every epoch is filled up with decoy lines. The task is the fold of its events: a packet
  from the channel, or the tick of an epoch with the word the generator draws. The world is what was written.
\<close>

section \<open>Settings\<close>

definition DEFAULT_PRESENCE_PAD_Q :: u32 where "DEFAULT_PRESENCE_PAD_Q = 10"
definition DEFAULT_PRESENCE_RATE_PCT :: byte where "DEFAULT_PRESENCE_RATE_PCT = 55"
definition DEFAULT_PRESENCE_EPOCH_MS :: u64 where "DEFAULT_PRESENCE_EPOCH_MS = 1000"

datatype ExitDeliverTarget = Stdout | FileTarget string

record PresencePadSettings =
  pad_enabled :: bool
  pad_q :: u32
  pad_epoch_ms :: u64
  presence_rate_pct :: byte

definition presence_pad_default :: PresencePadSettings where
  "presence_pad_default = \<lparr>pad_enabled = False, pad_q = DEFAULT_PRESENCE_PAD_Q, pad_epoch_ms = DEFAULT_PRESENCE_EPOCH_MS,
     presence_rate_pct = DEFAULT_PRESENCE_RATE_PCT\<rparr>"

record ExitSinkSettings =
  log_payloads :: bool
  deliver_to :: "ExitDeliverTarget option"
  presence_pad :: PresencePadSettings

definition exit_sink_enabled :: "ExitSinkSettings \<Rightarrow> bool" where
  "exit_sink_enabled s \<longleftrightarrow> log_payloads s \<or> deliver_to s \<noteq> None \<or> pad_enabled (presence_pad s)"

record PresencePadStats =
  real_cells :: u64
  decoy_cells :: u64
  pad_epochs :: u64
  idle_injects :: u64

section \<open>One epoch\<close>

record EpochPadDecision =
  dec_decoy_cells :: u32
  dec_idle_inject :: bool

definition presence_pad_epoch :: "u32 \<Rightarrow> u32 \<Rightarrow> byte \<Rightarrow> byte \<Rightarrow> EpochPadDecision" where
  "presence_pad_epoch cells q rate_pct roll_0_99 =
     (if q = 0 then \<lparr>dec_decoy_cells = 0, dec_idle_inject = False\<rparr>
      else let rate = min rate_pct 100 in
        if cells > 0 then \<lparr>dec_decoy_cells = (if cells \<le> q then q - cells else 0), dec_idle_inject = False\<rparr>
        else if roll_0_99 < rate then \<lparr>dec_decoy_cells = q, dec_idle_inject = True\<rparr>
        else \<lparr>dec_decoy_cells = 0, dec_idle_inject = False\<rparr>)"

section \<open>Writing\<close>

record sink_world =
  stdout_lines :: "string list"
  stderr_lines :: "string list"
  file_lines :: "string \<Rightarrow> string list"
  unwritable :: "string \<Rightarrow> bool"

definition deliver_line :: "ExitDeliverTarget \<Rightarrow> string \<Rightarrow> sink_world \<Rightarrow> sink_world" where
  "deliver_line target line w =
     (case target of
        Stdout \<Rightarrow> w\<lparr>stdout_lines := stdout_lines w @ [line]\<rparr>
      | FileTarget p \<Rightarrow> if unwritable w p then w else w\<lparr>file_lines := (file_lines w)(p := file_lines w p @ [line])\<rparr>)"

definition log_line :: "string \<Rightarrow> sink_world \<Rightarrow> sink_world" where
  "log_line line w = w\<lparr>stderr_lines := stderr_lines w @ [line]\<rparr>"

text \<open>The delta of a packet, and its bytes up to the last that is not zero.\<close>

definition payload_prefix :: "SphinxPacket \<Rightarrow> bytes" where
  "payload_prefix packet = rev (dropWhile (\<lambda>b. b = 0) (rev (packet_delta packet)))"

text \<open>The ellipsis of a long preview is the three bytes of its UTF-8 form.\<close>

definition hex_preview :: "bytes \<Rightarrow> string" where
  "hex_preview bs =
     (if length bs \<le> 32 then hex_encode bs else hex_encode (take 32 bs) @ [CHR 0xE2, CHR 0x80, CHR 0xA6])"

definition hex_u32 :: "u32 \<Rightarrow> string" where
  "hex_u32 w = hex_encode (rev (u32_to_le w))"

definition decoy_line :: "u32 \<Rightarrow> bool \<Rightarrow> string" where
  "decoy_line index idle_inject =
     ''decoy:presence_pad:'' @ (if idle_inject then ''idle'' else ''active'') @ '':'' @ hex_u32 index @ '':''
       @ hex_encode (ascii ''aegis-presence-pad-decoy-cell'')"

definition handle_real_peel ::
    "SphinxPacket \<Rightarrow> bool \<Rightarrow> ExitDeliverTarget option \<Rightarrow> PresencePadStats \<times> sink_world \<Rightarrow> PresencePadStats \<times> sink_world" where
  "handle_real_peel packet logging target st =
     (let (counters, w) = st;
          counters = counters\<lparr>real_cells := real_cells counters + 1\<rparr>;
          payload = payload_prefix packet;
          w = (if logging
               then log_line (''aegis-node exit: payload '' @ dec_string (length payload) @ '' bytes ('' @ hex_preview payload @ '')'') w
               else w);
          w = (case target of Some t \<Rightarrow> deliver_line t (hex_encode payload) w | None \<Rightarrow> w)
      in (counters, w))"

fun emit_decoys :: "nat \<Rightarrow> nat \<Rightarrow> EpochPadDecision \<Rightarrow> bool \<Rightarrow> ExitDeliverTarget option \<Rightarrow> sink_world \<Rightarrow> sink_world" where
  "emit_decoys 0 i d logging target w = w"
| "emit_decoys (Suc n) i d logging target w =
     (let line = decoy_line (of_nat i) (dec_idle_inject d);
          w = (if logging
               then log_line (''aegis-node exit: presence_pad decoy '' @ dec_string (i + 1) @ ''/'' @ dec_string (unat (dec_decoy_cells d))
                     @ '' idle='' @ (if dec_idle_inject d then ''true'' else ''false'')) w
               else w);
          w = (case target of Some t \<Rightarrow> deliver_line t line w | None \<Rightarrow> w)
      in emit_decoys n (i + 1) d logging target w)"

text \<open>\<open>draw\<close> is \<open>OsRng.next_u32()\<close>.\<close>

definition finish_epoch ::
    "u32 \<Rightarrow> PresencePadSettings \<Rightarrow> ExitDeliverTarget option \<Rightarrow> bool \<Rightarrow> u32 \<Rightarrow> PresencePadStats \<times> sink_world \<Rightarrow> PresencePadStats \<times> sink_world" where
  "finish_epoch cells pad target logging draw st =
     (let (counters, w) = st;
          counters = counters\<lparr>pad_epochs := pad_epochs counters + 1\<rparr>;
          roll = ucast (draw mod 100);
          d = presence_pad_epoch cells (pad_q pad) (presence_rate_pct pad) roll;
          counters = (if dec_idle_inject d then counters\<lparr>idle_injects := idle_injects counters + 1\<rparr> else counters)
      in if dec_decoy_cells d = 0 then (counters, w)
         else (counters\<lparr>decoy_cells := decoy_cells counters + ucast (dec_decoy_cells d)\<rparr>,
               emit_decoys (unat (dec_decoy_cells d)) 0 d logging target w))"

section \<open>The task\<close>

datatype sink_event = Peeled SphinxPacket | EpochTick u32

record sink_state =
  real_this_epoch :: u32
  sink_counters :: PresencePadStats
  sink_out :: sink_world

text \<open>Without the pad there is no tick to wait for.\<close>

definition sink_step :: "ExitSinkSettings \<Rightarrow> sink_event \<Rightarrow> sink_state \<Rightarrow> sink_state" where
  "sink_step s ev st =
     (case ev of
        Peeled packet \<Rightarrow>
          (let (c, w) = handle_real_peel packet (log_payloads s) (deliver_to s) (sink_counters st, sink_out st);
               n = real_this_epoch st
           in \<lparr>real_this_epoch = (if pad_enabled (presence_pad s) then (if n = - 1 then n else n + 1) else n), sink_counters = c, sink_out = w\<rparr>)
      | EpochTick draw \<Rightarrow>
          if pad_enabled (presence_pad s)
          then (let (c, w) = finish_epoch (real_this_epoch st) (presence_pad s) (deliver_to s) (log_payloads s) draw (sink_counters st, sink_out st)
                in \<lparr>real_this_epoch = 0, sink_counters = c, sink_out = w\<rparr>)
          else st)"

definition sink_run :: "ExitSinkSettings \<Rightarrow> sink_event list \<Rightarrow> sink_state \<Rightarrow> sink_state" where
  "sink_run s evs st = fold (sink_step s) evs st"

definition sink_new :: "sink_world \<Rightarrow> sink_state" where
  "sink_new w = \<lparr>real_this_epoch = 0, sink_counters = \<lparr>real_cells = 0, decoy_cells = 0, pad_epochs = 0, idle_injects = 0\<rparr>, sink_out = w\<rparr>"

text \<open>\<open>spawn_exit_sink\<close>: no task, and no channel, when nothing is switched on.\<close>

definition spawn_exit_sink :: "ExitSinkSettings \<Rightarrow> sink_world \<Rightarrow> sink_state option" where
  "spawn_exit_sink s w = (if \<not> exit_sink_enabled s then None else Some (sink_new w))"

section \<open>What an epoch shows\<close>

definition written :: "ExitDeliverTarget \<Rightarrow> sink_world \<Rightarrow> string list" where
  "written t w = (case t of Stdout \<Rightarrow> stdout_lines w | FileTarget p \<Rightarrow> file_lines w p)"

definition writable :: "ExitDeliverTarget \<Rightarrow> sink_world \<Rightarrow> bool" where
  "writable t w = (case t of Stdout \<Rightarrow> True | FileTarget p \<Rightarrow> \<not> unwritable w p)"

lemma written_simps [simp]:
  "writable t w \<Longrightarrow> written t (deliver_line t line w) = written t w @ [line]"
  "writable t (deliver_line t' line w) = writable t w"
  "written t (log_line line w) = written t w" "writable t (log_line line w) = writable t w"
  by (auto simp: written_def writable_def deliver_line_def log_line_def split: ExitDeliverTarget.splits)

lemma emit_decoys_written:
  "writable t w \<Longrightarrow> written t (emit_decoys n i d logging (Some t) w) = written t w @ map (\<lambda>j. decoy_line (of_nat j) (dec_idle_inject d)) [i..<i + n]
    \<and> writable t (emit_decoys n i d logging (Some t) w)"
  by (induction n arbitrary: i w) (simp_all add: Let_def upt_rec)

text \<open>The decoys of an epoch with \<open>r\<close> real cells.\<close>

definition epoch_decoys :: "PresencePadSettings \<Rightarrow> nat \<Rightarrow> u32 \<Rightarrow> nat" where
  "epoch_decoys pad r draw =
     (if 0 < r then unat (pad_q pad) - r
      else if unat draw mod 100 < min (unat (presence_rate_pct pad)) 100 then unat (pad_q pad) else 0)"

lemma unat_max_word32: "unat (- 1 :: u32) = 2 ^ 32 - 1"
  by (simp add: unsigned_minus_1_eq_mask mask_eq_exp_minus_1)

lemma epoch_decision:
  assumes "unat cells = r"
  shows "unat (dec_decoy_cells (presence_pad_epoch cells (pad_q pad) (presence_rate_pct pad) (ucast (draw mod 100)))) = epoch_decoys pad r draw"
proof -
  have "unat (draw mod 100 :: u32) < 100" by (simp add: unat_mod)
  then have roll: "unat (ucast (draw mod 100 :: u32) :: byte) = unat draw mod 100" by (simp add: unsigned_ucast_eq take_bit_eq_mod unat_mod)
  have rate: "unat (min (presence_rate_pct pad) 100) = min (unat (presence_rate_pct pad)) 100" by (simp add: min_def word_le_nat_alt)
  have "(cells = 0) = (r = 0)" using assms by (auto simp: unat_eq_0)
  then show ?thesis
    using assms by (auto simp: presence_pad_epoch_def epoch_decoys_def Let_def word_less_nat_alt word_le_nat_alt roll rate unat_sub word_gt_0)
qed

lemma peels_written:
  assumes "writable t (sink_out st)" "deliver_to s = Some t" "pad_enabled (presence_pad s)" "unat (real_this_epoch st) + length ps < 2 ^ 32"
  shows "let st' = sink_run s (map Peeled ps) st in
    written t (sink_out st') = written t (sink_out st) @ map (\<lambda>p. hex_encode (payload_prefix p)) ps \<and> writable t (sink_out st')
    \<and> unat (real_this_epoch st') = unat (real_this_epoch st) + length ps
    \<and> real_cells (sink_counters st') = real_cells (sink_counters st) + of_nat (length ps)
    \<and> decoy_cells (sink_counters st') = decoy_cells (sink_counters st) \<and> pad_epochs (sink_counters st') = pad_epochs (sink_counters st)"
  using assms(1,4)
proof (induction ps arbitrary: st)
  case Nil
  then show ?case by (simp add: sink_run_def)
next
  case (Cons p ps)
  let ?st = "sink_step s (Peeled p) st"
  have "real_this_epoch st \<noteq> - 1" using Cons.prems(2) unat_max_word32 by auto
  then have step: "written t (sink_out ?st) = written t (sink_out st) @ [hex_encode (payload_prefix p)]" "writable t (sink_out ?st)"
    "real_this_epoch ?st = real_this_epoch st + 1" "real_cells (sink_counters ?st) = real_cells (sink_counters st) + 1"
    "decoy_cells (sink_counters ?st) = decoy_cells (sink_counters st)" "pad_epochs (sink_counters ?st) = pad_epochs (sink_counters st)"
    using Cons.prems assms(2,3) by (simp_all add: sink_step_def handle_real_peel_def Let_def)
  have "unat (real_this_epoch ?st) = unat (real_this_epoch st) + 1"
    using Cons.prems(2) by (simp add: step(3) unat_word_ariths)
  then show ?case
    using Cons.IH[of ?st] Cons.prems step by (simp add: sink_run_def Let_def)
qed

text \<open>
  C37. The egress of an epoch with the presence pad: from the start of an epoch, the packets that arrive before its tick are written as
  their payloads, in order, and at the tick exactly the decoys of the decision follow: up to the target when there was traffic, the
  target or nothing in an idle epoch. The counters record the same numbers and the next epoch starts at zero.
\<close>

theorem exit_epoch_exact:
  assumes "writable t (sink_out st)" "deliver_to s = Some t" "pad_enabled (presence_pad s)" "real_this_epoch st = 0" "length ps < 2 ^ 32"
  shows "let st' = sink_run s (map Peeled ps @ [EpochTick draw]) st; n = epoch_decoys (presence_pad s) (length ps) draw in
    written t (sink_out st') = written t (sink_out st) @ map (\<lambda>p. hex_encode (payload_prefix p)) ps
        @ map (\<lambda>j. decoy_line (of_nat j) (ps = [])) [0..<n]
    \<and> length ps + n = (if ps \<noteq> [] then max (length ps) (unat (pad_q (presence_pad s))) else n)
    \<and> real_cells (sink_counters st') = real_cells (sink_counters st) + of_nat (length ps)
    \<and> decoy_cells (sink_counters st') = decoy_cells (sink_counters st) + of_nat n
    \<and> pad_epochs (sink_counters st') = pad_epochs (sink_counters st) + 1
    \<and> real_this_epoch st' = 0 \<and> writable t (sink_out st')"
proof -
  let ?st = "sink_run s (map Peeled ps) st" and ?pad = "presence_pad s"
  note p = peels_written[OF assms(1-3), of ps, unfolded Let_def]
  have r: "unat (real_this_epoch ?st) = length ps" using p assms(4,5) by simp
  let ?d = "presence_pad_epoch (real_this_epoch ?st) (pad_q ?pad) (presence_rate_pct ?pad) (ucast (draw mod 100))"
  have n: "unat (dec_decoy_cells ?d) = epoch_decoys ?pad (length ps) draw" by (rule epoch_decision[OF r])
  have idle: "dec_idle_inject ?d = (ps = [])" if "dec_decoy_cells ?d \<noteq> 0"
  proof -
    have "(real_this_epoch ?st = 0) = (ps = [])" using r by (metis length_0_conv unat_eq_0)
    then show ?thesis using that by (auto simp: presence_pad_epoch_def Let_def word_gt_0 split: if_splits)
  qed
  have run: "sink_run s (map Peeled ps @ [EpochTick draw]) st = sink_step s (EpochTick draw) ?st" by (simp add: sink_run_def)
  have len: "length ps + epoch_decoys ?pad (length ps) draw = (if ps \<noteq> [] then max (length ps) (unat (pad_q ?pad)) else epoch_decoys ?pad (length ps) draw)"
    by (auto simp: epoch_decoys_def)
  have w: "unat (real_this_epoch st) + length ps < 2 ^ 32" using assms(4,5) by simp
  show ?thesis
  proof (cases "dec_decoy_cells ?d = 0")
    case True
    then have "epoch_decoys ?pad (length ps) draw = 0" using n by simp
    then show ?thesis
      unfolding run Let_def using p[OF w] assms(2,3) True len by (simp add: sink_step_def finish_epoch_def Let_def)
  next
    case False
    have c: "(ucast (dec_decoy_cells ?d) :: u64) = of_nat (epoch_decoys ?pad (length ps) draw)" by (simp only: n[symmetric] of_nat_unat)
    show ?thesis
      unfolding run Let_def using p[OF w] assms(2,3) False len idle[OF False] c n emit_decoys_written[of t "sink_out ?st"]
      by (auto simp add: sink_step_def finish_epoch_def Let_def sink_run_def)
  qed
qed

definition toy_sink :: ExitSinkSettings where
  "toy_sink = \<lparr>log_payloads = False, deliver_to = Some Stdout, presence_pad = presence_pad_default\<lparr>pad_enabled := True\<rparr>\<rparr>"

definition toy_sink_start :: sink_state where
  "toy_sink_start = sink_new \<lparr>stdout_lines = [], stderr_lines = [], file_lines = (\<lambda>_. []), unwritable = (\<lambda>_. False)\<rparr>"

theorem exit_epoch_exact_witness:
  "let st' = sink_run toy_sink (map Peeled [toy_packet, toy_packet] @ [EpochTick 7]) toy_sink_start in
    length (written Stdout (sink_out st')) = 10 \<and> decoy_cells (sink_counters st') = 8 \<and> real_this_epoch st' = 0"
proof -
  have h: "writable Stdout (sink_out toy_sink_start)" "deliver_to toy_sink = Some Stdout" "pad_enabled (presence_pad toy_sink)"
    "real_this_epoch toy_sink_start = 0" "length [toy_packet, toy_packet] < 2 ^ 32"
    by (simp_all add: writable_def toy_sink_def toy_sink_start_def sink_new_def presence_pad_default_def)
  have n: "epoch_decoys (presence_pad toy_sink) (length [toy_packet, toy_packet]) 7 = 8"
    by (simp add: epoch_decoys_def toy_sink_def presence_pad_default_def DEFAULT_PRESENCE_PAD_Q_def)
  have z: "written Stdout (sink_out toy_sink_start) = []" "decoy_cells (sink_counters toy_sink_start) = 0"
    by (simp_all add: written_def toy_sink_start_def sink_new_def)
  show ?thesis
    using exit_epoch_exact[OF h, of 7, unfolded n Let_def] z by (simp add: Let_def)
qed

section \<open>The payload has no end mark\<close>

text \<open>
  The sender fills the rest of the delta with random bytes, and the exit cuts only trailing zeros: what is written starts with the
  payload but goes on with the filler, unless that is all zeros.
\<close>

lemma payload_prefix_split:
  assumes "packet_delta q = payload @ rest" "payload \<noteq> []" "last payload \<noteq> 0"
  shows "payload_prefix q = payload @ rev (dropWhile (\<lambda>b. b = 0) (rev rest))"
proof (cases "\<forall>b \<in> set rest. b = 0")
  case True
  have "dropWhile (\<lambda>b. b = 0) (rev payload) = rev payload"
    using assms(2,3) by (cases "rev payload") (auto simp: hd_rev[symmetric])
  then show ?thesis using True by (simp add: payload_prefix_def assms(1) dropWhile_append)
next
  case False
  then show ?thesis by (auto simp: payload_prefix_def assms(1) dropWhile_append)
qed

lemma payload_prefix_eq:
  assumes "packet_delta q = payload @ rest" "payload \<noteq> []" "last payload \<noteq> 0"
  shows "payload_prefix q = payload \<longleftrightarrow> (\<forall>b \<in> set rest. b = 0)"
  unfolding payload_prefix_split[OF assms] by auto

text \<open>The delta of what a delivery leaves.\<close>

lemma delivered_delta:
  assumes "wf_packet q" "take (length payload) (drop OFF_DELTA q) = payload"
  shows "packet_delta q = payload @ drop (length payload) (packet_delta q)"
proof -
  have "packet_delta q = drop OFF_DELTA q" using assms(1) by (simp add: packet_delta_def slice_def wf_packet_def layout_values)
  then show ?thesis using assms(2) by (metis append_take_drop_id)
qed

lemma hex_encode_append [simp]: "hex_encode (a @ b) = hex_encode a @ hex_encode b"
  by (simp add: hex_encode_def)

lemma exit_line_starts:
  assumes "wf_packet q" "take (length payload) (drop OFF_DELTA q) = payload" "payload \<noteq> []" "last payload \<noteq> 0"
  shows "take (2 * length payload) (hex_encode (payload_prefix q)) = hex_encode payload"
  unfolding payload_prefix_split[OF delivered_delta[OF assms(1,2)] assms(3,4)] by (simp add: length_hex_encode)

theorem exit_line_of_delivery:
  assumes "lib_lengths L" "lib_dh_commutes L" "lib_mlkem_correct L"
    and "\<And>hop. hop \<in> set path \<Longrightarrow> length (hop_id hop) = 32"
    and "build L path payload rng = (Inr p, rng')"
    and "length nodes = length path"
    and "\<And>i. i < length path \<Longrightarrow> key_pair L (fst (nodes ! i)) (hop_pk (path ! i)) \<and> fresh_cache (snd (nodes ! i))"
    and "payload \<noteq> []" "last payload \<noteq> 0"
  shows "\<exists>hop q. traverse L p nodes = Inr (map hop_id (tl path) @ [hop], q)
    \<and> (payload_prefix q = payload \<longleftrightarrow> (\<forall>b \<in> set (drop (length payload) (packet_delta q)). b = 0))"
proof -
  obtain hop q where q: "traverse L p nodes = Inr (map hop_id (tl path) @ [hop], q)" "wf_packet q"
    "take (length payload) (drop OFF_DELTA q) = payload"
    using built_packet_travels[OF assms(1-7)] by blast
  then show ?thesis using payload_prefix_eq[OF delivered_delta[OF q(2,3)] assms(8,9)] by blast
qed

end
