(* ===== verification/Node_Config.thy ===== *)
theory Node_Config
  imports Seed_Files Exit_Sink Link_Outbound Client_Send Relay_Node
begin

text \<open>
  The configuration of a relay process, \<^verbatim>\<open>crates/aegis-node/src/config.rs\<close>: what the TOML file holds, the seeds created on the
  first run, and the runtime configuration the relay starts from. TOML and JSON (serde) are outside: a file is its parsed record. The
  default features are compiled in (Noise links; the seed protection is the argument \<open>b\<close>). \<open>addr\<close> is the parser of socket addresses.
\<close>

section \<open>Hexadecimal keys\<close>

definition node_parse_hex32 :: "string \<Rightarrow> (ConfigError, bytes) result" where
  "node_parse_hex32 s =
     (let s = trim_0x (trim s) in
      if length s \<noteq> 64 then Inl (ConfigHex ''expected 64 hex chars for 32 bytes'')
      else ok_or (parse_chunks s) (ConfigHex ''invalid hex digit''))"

definition opt_hex32 :: "string option \<Rightarrow> (ConfigError, bytes option) result" where
  "opt_hex32 x = (case x of None \<Rightarrow> Inr None | Some s \<Rightarrow> bind_result (node_parse_hex32 s) (\<lambda>bs. Inr (Some bs)))"

section \<open>Metrics\<close>

record MetricsFileConfig =
  mfc_min_scrape_interval_secs :: u64
  mfc_quantize_bucket :: u64
  mfc_allow_high_resolution :: bool
  mfc_suppress_ingress_drop_detail :: bool

definition metrics_file_default :: MetricsFileConfig where
  "metrics_file_default = \<lparr>mfc_min_scrape_interval_secs = DEFAULT_MIN_SCRAPE_INTERVAL_SECS, mfc_quantize_bucket = DEFAULT_QUANTIZE_BUCKET,
     mfc_allow_high_resolution = False, mfc_suppress_ingress_drop_detail = True\<rparr>"

definition into_export_config :: "MetricsFileConfig \<Rightarrow> MetricsExportConfig" where
  "into_export_config c =
     (if mfc_allow_high_resolution c then lab_high_resolution
      else \<lparr>min_scrape_interval = unat (mfc_min_scrape_interval_secs c) * 10 ^ 9, quantize_bucket = mfc_quantize_bucket c,
            allow_high_resolution = False, suppress_ingress_drop_detail = mfc_suppress_ingress_drop_detail c\<rparr>)"

section \<open>Reputation files\<close>

text \<open>The files the configuration names: key files, ledgers and nullifier registries; \<open>None\<close> is a file that does not exist.\<close>

record trust_store =
  key_text :: "string \<Rightarrow> string option"
  ledger_at :: "string \<Rightarrow> (ReputationError, ReputationLedgerFile) result option"
  registry_at :: "string \<Rightarrow> (NullifierError, NullifierRegistryFile) result option"
  store_ok :: "string \<Rightarrow> bool"

record ReputationConfig =
  ledger_path :: "string option"
  nullifier_registry_path :: "string option"
  operator_signing_seed :: "string option"
  operator_signing_key_file :: "string option"
  operator_verifying_key :: "string option"

definition DEFAULT_REPUTATION_DECAY :: f64 where "DEFAULT_REPUTATION_DECAY = f64_of_rat (9 / 10)"
definition DEFAULT_ANOMALY_ALPHA :: f64 where "DEFAULT_ANOMALY_ALPHA = f64_of_rat (2 / 10)"
definition DEFAULT_ANOMALY_Z :: f64 where "DEFAULT_ANOMALY_Z = Fin 3"

definition signing_key_from_hex_seed :: "('sk, 'vk) sig_lib \<Rightarrow> string \<Rightarrow> (ReputationError, 'sk) result" where
  "signing_key_from_hex_seed S hex = bind_result (parse_hex32 hex) (\<lambda>seed. Inr (ed_from_seed S seed))"

definition verifying_key_from_hex :: "('sk, 'vk) sig_lib \<Rightarrow> string \<Rightarrow> (ReputationError, 'vk) result" where
  "verifying_key_from_hex S hex =
     bind_result (parse_hex32 hex) (\<lambda>bs. ok_or (ed_from_bytes S bs) (InvalidKey ''verifying key''))"

text \<open>The inline seed, else the key file, else no key.\<close>

definition optional_signing_key ::
    "('sk, 'vk) sig_lib \<Rightarrow> trust_store \<Rightarrow> string option \<Rightarrow> string option \<Rightarrow> (ReputationError, 'sk option) result" where
  "optional_signing_key S st inline key_file =
     (case inline of
        Some hex \<Rightarrow> bind_result (signing_key_from_hex_seed S hex) (\<lambda>k. Inr (Some k))
      | None \<Rightarrow>
          (case key_file of
             Some p \<Rightarrow> bind_result (ok_or (key_text st p) RepIo) (\<lambda>t. bind_result (signing_key_from_hex_seed S (trim t)) (\<lambda>k. Inr (Some k)))
           | None \<Rightarrow> Inr None))"

definition resolve_operator_keys ::
    "('sk, 'vk) sig_lib \<Rightarrow> trust_store \<Rightarrow> ReputationConfig \<Rightarrow> (ReputationError, 'sk option \<times> 'vk option) result" where
  "resolve_operator_keys S st c =
     bind_result (optional_signing_key S st (operator_signing_seed c) (operator_signing_key_file c)) (\<lambda>signing.
     bind_result (case operator_verifying_key c of
         Some hex \<Rightarrow> bind_result (verifying_key_from_hex S hex) (\<lambda>vk. Inr (Some vk))
       | None \<Rightarrow> Inr (map_option (ed_verifying_key S) signing)) (\<lambda>verifying.
     Inr (signing, verifying)))"

text \<open>A ledger that does not load is reported on stderr and replaced by a fresh one.\<close>

definition load_pruning_policy :: "('sk, 'vk) sig_lib \<Rightarrow> trust_store \<Rightarrow> ReputationConfig \<Rightarrow> (ReputationError, RelayPruningPolicy) result" where
  "load_pruning_policy S st c =
     bind_result (resolve_operator_keys S st c) (\<lambda>(_, verifying).
       let fresh = policy_new DEFAULT_REPUTATION_DECAY DEFAULT_ANOMALY_ALPHA DEFAULT_ANOMALY_Z in
       case ledger_path c of
         None \<Rightarrow> fresh
       | Some p \<Rightarrow>
           (case ledger_at st p of
              None \<Rightarrow> fresh
            | Some f \<Rightarrow>
                (case bind_result f (\<lambda>f. load_from_file_with_verify S f DEFAULT_REPUTATION_DECAY verifying) of
                   Inr l \<Rightarrow> Inr (with_ledger l DEFAULT_ANOMALY_ALPHA DEFAULT_ANOMALY_Z)
                 | Inl _ \<Rightarrow> fresh)))"

definition save_ledger :: "('sk, 'vk) sig_lib \<Rightarrow> ReputationConfig \<Rightarrow> RelayPruningPolicy \<Rightarrow> trust_store \<Rightarrow> trust_store" where
  "save_ledger S c policy st =
     (case ledger_path c of
        None \<Rightarrow> st
      | Some p \<Rightarrow>
          (case resolve_operator_keys S st c of
             Inl _ \<Rightarrow> st
           | Inr (signing, _) \<Rightarrow>
               if store_ok st p then st\<lparr>ledger_at := (ledger_at st)(p \<mapsto> Inr (write_file S (pol_ledger policy) signing))\<rparr> else st))"

definition load_nullifier_registry :: "trust_store \<Rightarrow> ReputationConfig \<Rightarrow> (NullifierError, NullifierRegistry) result" where
  "load_nullifier_registry st c =
     (case nullifier_registry_path c of
        None \<Rightarrow> Inr registry_new
      | Some p \<Rightarrow> (case registry_at st p of None \<Rightarrow> Inr registry_new | Some f \<Rightarrow> bind_result f load_registry))"

definition save_nullifier_registry :: "ReputationConfig \<Rightarrow> NullifierRegistry \<Rightarrow> trust_store \<Rightarrow> trust_store" where
  "save_nullifier_registry c registry st =
     (case nullifier_registry_path c of
        None \<Rightarrow> st
      | Some p \<Rightarrow> if store_ok st p then st\<lparr>registry_at := (registry_at st)(p \<mapsto> Inr (export_registry registry))\<rparr> else st)"

definition merge_nullifier_registry_from ::
    "ReputationConfig \<Rightarrow> NullifierRegistry \<Rightarrow> string \<Rightarrow> trust_store
      \<Rightarrow> (NullifierError, NullifierMergeReport) result \<times> NullifierRegistry \<times> trust_store" where
  "merge_nullifier_registry_from c registry import_path st =
     (case registry_at st import_path of
        None \<Rightarrow> (Inl NullifierIo, registry, st)
      | Some (Inl e) \<Rightarrow> (Inl e, registry, st)
      | Some (Inr f) \<Rightarrow>
          (case merge_from_file registry f of
             (Inl e, registry) \<Rightarrow> (Inl e, registry, st)
           | (Inr report, registry) \<Rightarrow> (Inr report, registry, save_nullifier_registry c registry st)))"

section \<open>Cover\<close>

record CoverFileConfig =
  cfc_enabled :: bool
  cfc_require :: bool
  cfc_target_flow_count :: u32
  cfc_round_secs :: u64
  cfc_multihop_defense :: string
  cfc_matched_cover_flows :: u32
  cfc_cover_onion_flows :: u32
  cover_onion_peer_id :: "string option"

definition cover_file_default :: CoverFileConfig where
  "cover_file_default = \<lparr>cfc_enabled = True, cfc_require = True, cfc_target_flow_count = DEFAULT_COVER_TARGET_FLOW_COUNT,
     cfc_round_secs = DEFAULT_COVER_ROUND_SECS, cfc_multihop_defense = defense_as_str BaselineLocalDiscard,
     cfc_matched_cover_flows = DEFAULT_MATCHED_COVER_FLOWS, cfc_cover_onion_flows = DEFAULT_COVER_ONION_FLOWS, cover_onion_peer_id = None\<rparr>"

definition into_bulk_cover :: "CoverFileConfig \<Rightarrow> (ConfigError, 'mp BulkCoverConfig) result" where
  "into_bulk_cover c =
     bind_result (ok_or (defense_parse (cfc_multihop_defense c))
         (ConfigHex ''cover.multihop_defense must be baseline_local_discard | matched_local_discard | cover_onions | cover_onions_scaffold'')) (\<lambda>d.
       Inr \<lparr>bc_enabled = cfc_enabled c, bc_require = cfc_require c, bc_dial = L2UniformBatched, bc_target_flow_count = cfc_target_flow_count c,
            bc_round_secs = cfc_round_secs c, bc_multihop_defense = d, bc_matched_cover_flows = cfc_matched_cover_flows c,
            bc_cover_onion_flows = cfc_cover_onion_flows c, bc_cover_onion_terminal = None\<rparr>)"

section \<open>Links and peers\<close>

text \<open>The read timeout is kept in seconds; the link model reads bytes without a clock.\<close>

record LinkNetConfig =
  lnc_read_timeout_secs :: u64
  lnc_max_inbound_connections :: nat
  lnc_identity_binding :: bool
  lnc_require_ingress_kem_commitment :: bool
  lnc_max_cells_per_sec :: f64
  lnc_burst :: u32
  lnc_global_max_cells_per_sec :: "f64 option"
  lnc_handshake :: string
  lnc_noise_static_secret :: "string option"
  lnc_ingress_noise_static_public :: "string option"

definition link_net_default :: LinkNetConfig where
  "link_net_default = \<lparr>lnc_read_timeout_secs = 30, lnc_max_inbound_connections = DEFAULT_MAX_INBOUND_CONNECTIONS, lnc_identity_binding = True,
     lnc_require_ingress_kem_commitment = False, lnc_max_cells_per_sec = DEFAULT_INGRESS_MAX_CELLS_PER_SEC, lnc_burst = DEFAULT_INGRESS_BURST,
     lnc_global_max_cells_per_sec = Some DEFAULT_GLOBAL_MAX_CELLS_PER_SEC, lnc_handshake = ''auto'', lnc_noise_static_secret = None,
     lnc_ingress_noise_static_public = None\<rparr>"

definition node_parse_link_handshake_mode :: "string \<Rightarrow> (ConfigError, LinkHandshakeMode) result" where
  "node_parse_link_handshake_mode s =
     (let t = map ascii_lower (trim s) in
      if t \<in> {''legacy_psk'', ''legacy'', ''psk''} then Inr LegacyPsk
      else if t = ''auto'' then Inr AutoMode
      else if t \<in> {''noise'', ''noise_ik''} then Inr NoiseMode
      else Inl (ConfigHex ''link.handshake must be auto, legacy_psk, or noise''))"

record IngressConfig =
  ing_link_key :: string
  ing_max_cells_per_sec :: "f64 option"
  ing_burst :: "u32 option"
  ing_global_max_cells_per_sec :: "f64 option"

record PeerConfig =
  pc_id :: string
  pc_addr :: string
  pc_link_key :: string
  pc_kem_commitment :: "string option"
  pc_gossip_verifying_key :: "string option"
  pc_noise_static_public :: "string option"
  pc_org_id :: "string option"
  pc_jurisdiction :: "string option"
  pc_kem_x25519_seed :: "string option"
  pc_kem_mlkem_d :: "string option"
  pc_kem_mlkem_z :: "string option"

definition ingress_limit :: "LinkNetConfig \<Rightarrow> IngressConfig option \<Rightarrow> IngressRateLimitConfig" where
  "ingress_limit l ingress =
     (let base = \<lparr>max_cells_per_sec = lnc_max_cells_per_sec l, ingress_burst = lnc_burst l, global_max_cells_per_sec = lnc_global_max_cells_per_sec l\<rparr> in
      case ingress of
        None \<Rightarrow> base
      | Some i \<Rightarrow>
          (let c = (case ing_max_cells_per_sec i of Some r \<Rightarrow> base\<lparr>max_cells_per_sec := r\<rparr> | None \<Rightarrow> base);
               c = (case ing_burst i of Some n \<Rightarrow> c\<lparr>ingress_burst := n\<rparr> | None \<Rightarrow> c)
           in if ing_global_max_cells_per_sec i \<noteq> None then c\<lparr>global_max_cells_per_sec := ing_global_max_cells_per_sec i\<rparr> else c))"

text \<open>A label of white space is no label.\<close>

definition trimmed_label :: "string option \<Rightarrow> string option" where
  "trimmed_label x = (case x of None \<Rightarrow> None | Some s \<Rightarrow> if trim s = [] then None else Some (trim s))"

definition peer_info_from :: "(string \<Rightarrow> string option) \<Rightarrow> PeerConfig \<Rightarrow> (ConfigError, bytes \<times> PeerInfo) result" where
  "peer_info_from addr peer =
     bind_result (node_parse_hex32 (pc_id peer)) (\<lambda>i.
     bind_result (ok_or (addr (pc_addr peer)) (ConfigHex ''peer addr'')) (\<lambda>a.
     bind_result (node_parse_hex32 (pc_link_key peer)) (\<lambda>key.
     bind_result (opt_hex32 (pc_kem_commitment peer)) (\<lambda>kem.
     bind_result (opt_hex32 (pc_gossip_verifying_key peer)) (\<lambda>gossip.
     bind_result (opt_hex32 (pc_noise_static_public peer)) (\<lambda>noise.
       Inr (i, (peer_info_new a key)\<lparr>peer_kem_commitment := kem, gossip_verifying_key := gossip, noise_static_public := noise,
                 org_id := trimmed_label (pc_org_id peer), peer_jurisdiction := trimmed_label (pc_jurisdiction peer)\<rparr>)))))))"

section \<open>Health gossip\<close>

record HealthGossipConfig =
  hg_enabled :: bool
  hg_signing_seed :: "string option"
  hg_signing_key_file :: "string option"
  hg_interval_secs :: u64
  hg_majority_k :: nat
  hg_min_orgs :: nat
  hg_eclipse_detect :: bool
  hg_eclipse_median_gap :: f64
  hg_eclipse_local_min_samples :: u64
  hg_eclipse_honest_baseline :: f64
  hg_quorum_log_path :: "string option"

definition health_gossip_default :: HealthGossipConfig where
  "health_gossip_default = \<lparr>hg_enabled = False, hg_signing_seed = None, hg_signing_key_file = None, hg_interval_secs = 60,
     hg_majority_k = majority_k stacked, hg_min_orgs = min_orgs stacked, hg_eclipse_detect = eclipse_detect stacked,
     hg_eclipse_median_gap = eclipse_median_gap stacked, hg_eclipse_local_min_samples = eclipse_local_min_samples stacked,
     hg_eclipse_honest_baseline = eclipse_honest_baseline stacked, hg_quorum_log_path = None\<rparr>"

definition resolve_signing_key :: "('sk, 'vk) sig_lib \<Rightarrow> trust_store \<Rightarrow> HealthGossipConfig \<Rightarrow> (ReputationError, 'sk option) result" where
  "resolve_signing_key S st c = optional_signing_key S st (hg_signing_seed c) (hg_signing_key_file c)"

definition merge_policy :: "HealthGossipConfig \<Rightarrow> GossipMergePolicy" where
  "merge_policy c =
     sanitize \<lparr>majority_k = hg_majority_k c, min_orgs = hg_min_orgs c, eclipse_detect = hg_eclipse_detect c,
       eclipse_median_gap = hg_eclipse_median_gap c, eclipse_local_min_samples = hg_eclipse_local_min_samples c,
       eclipse_honest_baseline = hg_eclipse_honest_baseline c\<rparr>"

section \<open>The exit\<close>

record ExitConfig =
  ec_log_payloads :: bool
  ec_deliver_to :: "string option"
  ec_presence_pad :: bool
  ec_pad_q :: u32
  ec_epoch_ms :: u64
  ec_presence_rate_pct :: byte

definition exit_config_default :: ExitConfig where
  "exit_config_default = \<lparr>ec_log_payloads = False, ec_deliver_to = None, ec_presence_pad = False, ec_pad_q = DEFAULT_PRESENCE_PAD_Q,
     ec_epoch_ms = DEFAULT_PRESENCE_EPOCH_MS, ec_presence_rate_pct = DEFAULT_PRESENCE_RATE_PCT\<rparr>"

definition strip_prefix :: "string \<Rightarrow> string \<Rightarrow> string option" where
  "strip_prefix p s = (if take (length p) s = p then Some (drop (length p) s) else None)"

definition parse_exit_deliver_to :: "string \<Rightarrow> (ConfigError, ExitDeliverTarget) result" where
  "parse_exit_deliver_to s =
     (let s = trim s in
      if map ascii_lower s = ''stdout'' then Inr Stdout
      else case strip_prefix ''file:'' s of
        Some p \<Rightarrow> (let p = trim p in if p = [] then Inl (ConfigHex ''exit.deliver_to file: requires a path'') else Inr (FileTarget p))
      | None \<Rightarrow> Inl (ConfigHex ''exit.deliver_to must be stdout or file:path''))"

definition into_settings :: "ExitConfig \<Rightarrow> (ConfigError, ExitSinkSettings) result" where
  "into_settings c =
     bind_result
       (if ec_presence_pad c \<and> ec_pad_q c = 0 then Inl (ConfigHex ''exit.pad_q must be >= 1 when presence_pad is enabled'')
        else if ec_presence_pad c \<and> ec_epoch_ms c = 0 then Inl (ConfigHex ''exit.epoch_ms must be >= 1 when presence_pad is enabled'')
        else if ec_presence_pad c \<and> ec_presence_rate_pct c > 100 then Inl (ConfigHex ''exit.presence_rate_pct must be <= 100'')
        else Inr ()) (\<lambda>_.
     bind_result (case ec_deliver_to c of None \<Rightarrow> Inr None | Some s \<Rightarrow> bind_result (parse_exit_deliver_to s) (\<lambda>t. Inr (Some t))) (\<lambda>target.
       Inr \<lparr>log_payloads = ec_log_payloads c, deliver_to = target,
            presence_pad = \<lparr>pad_enabled = ec_presence_pad c,
              pad_q = (if ec_pad_q c = 0 then DEFAULT_PRESENCE_PAD_Q else ec_pad_q c),
              pad_epoch_ms = (if ec_epoch_ms c = 0 then DEFAULT_PRESENCE_EPOCH_MS else ec_epoch_ms c),
              presence_rate_pct = min (ec_presence_rate_pct c) 100\<rparr>\<rparr>))"

section \<open>The configuration file\<close>

record NodeRosterConfig =
  nrc_path :: string
  nrc_authority_pubkeys :: "string list"
  nrc_threshold :: nat
  nrc_allow_unverified_roster :: bool

record NodeConfigFile =
  ncf_relay_id :: string
  ncf_listen :: string
  ncf_mu :: f64
  ncf_kem :: "KemFileConfig option"
  ncf_kem_commitment :: "string option"
  ncf_ingress :: "IngressConfig option"
  ncf_peers :: "PeerConfig list"
  ncf_link :: LinkNetConfig
  ncf_exit :: ExitConfig
  ncf_trace :: "string option"
  ncf_roster :: "NodeRosterConfig option"
  ncf_cover :: CoverFileConfig
  ncf_reputation :: ReputationConfig
  ncf_health_gossip :: HealthGossipConfig
  ncf_guard_mitigation :: GuardMitigationFileConfig
  ncf_metrics :: MetricsFileConfig

fun node_authority_keys :: "string list \<Rightarrow> (ConfigError, bytes list) result" where
  "node_authority_keys [] = Inr []"
| "node_authority_keys (h # hs) =
     bind_result (node_parse_hex32 h) (\<lambda>key. bind_result (node_authority_keys hs) (\<lambda>keys. Inr (key # keys)))"

definition node_consortium :: "('sk, 'vk) sig_lib \<Rightarrow> NodeRosterConfig \<Rightarrow> (ConfigError, 'vk ThresholdConsortium option) result" where
  "node_consortium S cfg =
     (if nrc_authority_pubkeys cfg = [] then Inr None
      else bind_result (node_authority_keys (nrc_authority_pubkeys cfg)) (\<lambda>keys.
        case from_raw_pubkeys S (nrc_threshold cfg) keys of Inl e \<Rightarrow> Inl (ConfigRoster e) | Inr c \<Rightarrow> Inr (Some c)))"

text \<open>\<open>fs\<close> reads and parses a roster file; \<open>None\<close> is an I/O or JSON error.\<close>

definition node_load_roster ::
    "('sk, 'vk) sig_lib \<Rightarrow> (string \<Rightarrow> PersistedRoster option) \<Rightarrow> NodeRosterConfig \<Rightarrow> (ConfigError, RelayRoster) result" where
  "node_load_roster S fs cfg =
     bind_result (node_consortium S cfg) (\<lambda>consortium.
       if consortium = None \<and> \<not> nrc_allow_unverified_roster cfg then Inl (ConfigRoster UnverifiedRosterNotAllowed)
       else case fs (nrc_path cfg) of
         None \<Rightarrow> Inl (ConfigRoster RosterIo)
       | Some p \<Rightarrow> (case load_from_file_with_policy S p consortium (nrc_allow_unverified_roster cfg) of
             Inl e \<Rightarrow> Inl (ConfigRoster e) | Inr r \<Rightarrow> Inr r))"

section \<open>The first run\<close>

text \<open>\<open>to_text\<close> is \<open>toml::to_string_pretty\<close> of the whole configuration.\<close>

definition load_or_init_kem ::
    "(bytes \<Rightarrow> bytes) \<Rightarrow> seeds_toml \<Rightarrow> (NodeConfigFile \<Rightarrow> (string, bytes) result) \<Rightarrow> ('r \<Rightarrow> nat \<Rightarrow> bytes \<times> 'r) \<Rightarrow> build_kind
      \<Rightarrow> rpath \<Rightarrow> NodeConfigFile \<Rightarrow> 'r \<Rightarrow> host \<Rightarrow> (ConfigError, unit) result \<times> NodeConfigFile \<times> 'r \<times> host" where
  "load_or_init_kem H T to_text fill b p f rng h =
     (let f = (if ncf_kem f = None then f\<lparr>ncf_kem := Some kem_file_config_default\<rparr> else f);
          k = the (ncf_kem f)
      in case resolve_kem_seeds T b h p k of
        Inr _ \<Rightarrow> (Inr (), f, rng, h)
      | Inl _ \<Rightarrow>
        (let (seeds, rng) = generate_kem_seeds fill rng in
         if allow_plaintext_kem k
         then let f = f\<lparr>ncf_kem := Some (k\<lparr>inline_x25519 := Some (seed_x25519 seeds), inline_mlkem_d := Some (seed_mlkem_d seeds),
                                          inline_mlkem_z := Some (seed_mlkem_z seeds)\<rparr>)\<rparr>
           in case to_text f of
                Inl e \<Rightarrow> (Inl (ConfigSerialize e), f, rng, h)
              | Inr t \<Rightarrow> (case fs_write p t h of (Inl e, h) \<Rightarrow> (Inl e, f, rng, h) | (Inr _, h) \<Rightarrow> (Inr (), f, rng, h))
         else
           (case persist_kem_seeds_file_with_account T b (kem_seed_file_path p k) seeds (kem_keyring_account H p (Some (ncf_relay_id f))) h of
              (Inl e, h) \<Rightarrow> (Inl e, f, rng, h)
            | (Inr _, h) \<Rightarrow>
                (let f = f\<lparr>ncf_kem := Some (k\<lparr>kem_file := Some (case kem_file k of Some n \<Rightarrow> n | None \<Rightarrow> DEFAULT_KEM_SEED_FILENAME),
                                inline_x25519 := None, inline_mlkem_d := None, inline_mlkem_z := None\<rparr>)\<rparr>
                 in case to_text f of
                      Inl e \<Rightarrow> (Inl (ConfigSerialize e), f, rng, h)
                    | Inr t \<Rightarrow> (case fs_write p t h of (Inl e, h) \<Rightarrow> (Inl e, f, rng, h) | (Inr _, h) \<Rightarrow> (Inr (), f, rng, h))))))"

section \<open>The runtime configuration\<close>

record ('xs, 'ms, 'mp) NodeRuntimeConfig =
  rt_relay_id :: bytes
  rt_listen :: string
  rt_relay_config :: "'mp RelayConfig"
  rt_kem_secret :: "('xs, 'ms) RelayKemSecret"
  rt_local_kem_commitment :: "bytes option"
  rt_ingress_link_key :: "bytes option"
  rt_peer_table :: "(bytes \<times> PeerInfo) list"
  rt_link_bridge_config :: LinkBridgeConfig
  rt_exit :: ExitConfig
  rt_trace :: "string option"
  rt_roster :: "RelayRoster option"
  rt_reputation :: ReputationConfig
  rt_health_gossip :: HealthGossipConfig
  rt_guard_mitigation :: GuardMitigationPolicy
  rt_metrics_export :: MetricsExportConfig

text \<open>What the code gets from libraries: key generation from seeds, Ed25519, TOML, files and the address parser.\<close>

record ('xs, 'ms, 'mp, 'r, 'sk, 'vk) node_env =
  env_lib :: "('xs, 'ms, 'mp, 'r) crypto_lib"
  env_xsec :: "bytes \<Rightarrow> 'xs"
  env_mgen :: "bytes \<Rightarrow> bytes \<Rightarrow> 'ms \<times> 'mp"
  env_sig :: "('sk, 'vk) sig_lib"
  env_toml :: seeds_toml
  env_build :: build_kind
  env_host :: host
  env_roster_file :: "string \<Rightarrow> PersistedRoster option"
  env_addr :: "string \<Rightarrow> string option"

definition env_generate :: "('xs, 'ms, 'mp, 'r, 'sk, 'vk) node_env \<Rightarrow> bytes \<Rightarrow> bytes \<Rightarrow> bytes \<Rightarrow> ('xs, 'ms) RelayKemSecret \<times> 'mp RelayKemPublic" where
  "env_generate E x d z = generate_deterministic (env_lib E) (env_xsec E) (env_mgen E) x d z"

text \<open>The cover-onion terminal a peer with lab seeds can be, and which one is chosen.\<close>

definition peer_terminal :: "('xs, 'ms, 'mp, 'r, 'sk, 'vk) node_env \<Rightarrow> PeerConfig \<Rightarrow> bytes \<Rightarrow> (ConfigError, 'mp CoverOnionTerminal option) result" where
  "peer_terminal E peer i =
     (case (pc_kem_x25519_seed peer, pc_kem_mlkem_d peer, pc_kem_mlkem_z peer) of
        (Some x, Some d, Some z) \<Rightarrow>
          bind_result (node_parse_hex32 x) (\<lambda>x. bind_result (node_parse_hex32 d) (\<lambda>d. bind_result (node_parse_hex32 z) (\<lambda>z.
            Inr (Some \<lparr>term_id = i, term_pk = snd (env_generate E x d z)\<rparr>))))
      | _ \<Rightarrow> Inr None)"

definition choose_terminal ::
    "string option \<Rightarrow> PeerConfig \<Rightarrow> 'mp CoverOnionTerminal option \<Rightarrow> 'mp CoverOnionTerminal option \<Rightarrow> 'mp CoverOnionTerminal option" where
  "choose_terminal want peer candidate chosen =
     (case candidate of
        None \<Rightarrow> chosen
      | Some t \<Rightarrow>
          (case want of
             Some w \<Rightarrow> if map ascii_lower (trim (pc_id peer)) = map ascii_lower (trim w) then Some t else chosen
           | None \<Rightarrow> if chosen = None then Some t else chosen))"

fun peer_loop ::
    "('xs, 'ms, 'mp, 'r, 'sk, 'vk) node_env \<Rightarrow> string option \<Rightarrow> PeerConfig list \<Rightarrow> 'mp CoverOnionTerminal option \<Rightarrow> (bytes \<times> PeerInfo) list
      \<Rightarrow> (ConfigError, 'mp CoverOnionTerminal option \<times> (bytes \<times> PeerInfo) list) result" where
  "peer_loop E want [] chosen table = Inr (chosen, table)"
| "peer_loop E want (peer # peers) chosen table =
     bind_result (peer_info_from (env_addr E) peer) (\<lambda>(i, info).
     bind_result (peer_terminal E peer i) (\<lambda>candidate.
       peer_loop E want peers (choose_terminal want peer candidate chosen) (AList.update i info table)))"

definition bridge_config_from ::
    "LinkNetConfig \<Rightarrow> LinkHandshakeMode \<Rightarrow> bytes option \<Rightarrow> bytes option \<Rightarrow> IngressRateLimitConfig \<Rightarrow> LinkBridgeConfig" where
  "bridge_config_from l mode secret ingress_pub limit =
     bridge_config_default\<lparr>max_inbound_connections := lnc_max_inbound_connections l, identity_binding := lnc_identity_binding l,
       require_ingress_kem_commitment := lnc_require_ingress_kem_commitment l, handshake := mode, noise_static_secret := secret,
       ingress_noise_static_public := ingress_pub, ingress_rate_limit := limit\<rparr>"

definition with_terminal :: "'mp CoverOnionTerminal option \<Rightarrow> 'mp BulkCoverConfig \<Rightarrow> 'mp BulkCoverConfig" where
  "with_terminal t c =
     (case t of Some t \<Rightarrow> if bc_multihop_defense c = CoverOnions then with_cover_onion_terminal c t else c | None \<Rightarrow> c)"

definition resolve_secret ::
    "('xs, 'ms, 'mp, 'r, 'sk, 'vk) node_env \<Rightarrow> rpath \<Rightarrow> NodeConfigFile \<Rightarrow> (ConfigError, ('xs, 'ms) RelayKemSecret) result" where
  "resolve_secret E config_path f =
     bind_result (ok_or (ncf_kem f) MissingKem) (\<lambda>k.
     bind_result (resolve_kem_seeds (env_toml E) (env_build E) (env_host E) config_path k) (\<lambda>kem.
     bind_result (node_parse_hex32 (seed_x25519 kem)) (\<lambda>x.
     bind_result (node_parse_hex32 (seed_mlkem_d kem)) (\<lambda>d.
     bind_result (node_parse_hex32 (seed_mlkem_z kem)) (\<lambda>z.
       Inr (fst (env_generate E x d z)))))))"

definition into_runtime ::
    "('xs, 'ms, 'mp, 'r, 'sk, 'vk) node_env \<Rightarrow> rpath \<Rightarrow> NodeConfigFile \<Rightarrow> (ConfigError, ('xs, 'ms, 'mp) NodeRuntimeConfig) result" where
  "into_runtime E config_path f =
     bind_result (node_parse_hex32 (ncf_relay_id f)) (\<lambda>relay_id.
     bind_result (ok_or (env_addr E (ncf_listen f)) (ConfigHex ''listen address'')) (\<lambda>listen.
     bind_result (resolve_secret E config_path f) (\<lambda>secret.
     bind_result (case ncf_ingress f of None \<Rightarrow> Inr None
                  | Some i \<Rightarrow> bind_result (node_parse_hex32 (ing_link_key i)) (\<lambda>k. Inr (Some k))) (\<lambda>ingress_key.
     bind_result (opt_hex32 (ncf_kem_commitment f)) (\<lambda>commitment.
     if lnc_require_ingress_kem_commitment (ncf_link f) \<and> commitment = None
     then Inl (ConfigHex ''link.require_ingress_kem_commitment requires top-level kem_commitment'')
     else bind_result (peer_loop E (cover_onion_peer_id (ncf_cover f)) (ncf_peers f) None []) (\<lambda>(terminal, table).
     bind_result (case ncf_roster f of None \<Rightarrow> Inr None
                  | Some c \<Rightarrow> bind_result (node_load_roster (env_sig E) (env_roster_file E) c) (\<lambda>r. Inr (Some r))) (\<lambda>roster.
     bind_result (node_parse_link_handshake_mode (lnc_handshake (ncf_link f))) (\<lambda>mode.
     bind_result (opt_hex32 (lnc_noise_static_secret (ncf_link f))) (\<lambda>noise_secret.
     bind_result (opt_hex32 (lnc_ingress_noise_static_public (ncf_link f))) (\<lambda>ingress_pub.
     if mode = NoiseMode \<and> noise_secret = None
     then Inl (ConfigHex ''link.noise_static_secret required when handshake is noise'')
     else bind_result (into_bulk_cover (ncf_cover f)) (\<lambda>cover.
       Inr \<lparr>rt_relay_id = relay_id, rt_listen = listen,
            rt_relay_config = with_bulk_cover (relay_config_new (ncf_mu f)) (with_terminal terminal cover),
            rt_kem_secret = secret, rt_local_kem_commitment = commitment, rt_ingress_link_key = ingress_key, rt_peer_table = table,
            rt_link_bridge_config = bridge_config_from (ncf_link f) mode noise_secret ingress_pub (ingress_limit (ncf_link f) (ncf_ingress f)),
            rt_exit = ncf_exit f, rt_trace = ncf_trace f, rt_roster = roster, rt_reputation = ncf_reputation f,
            rt_health_gossip = ncf_health_gossip f, rt_guard_mitigation = resolve_policy (ncf_guard_mitigation f),
            rt_metrics_export = into_export_config (ncf_metrics f)\<rparr>)))))))))))"

end
