(* ===== verification/Node_Start.thy ===== *)
theory Node_Start
  imports Node_Config
begin

text \<open>
  What the start of a node guarantees: what \<^verbatim>\<open>load_or_init_kem\<close> does to the identity of the node, and what every configuration
  accepted by \<^verbatim>\<open>into_runtime\<close> satisfies. The last section is a small configuration the theorems are applied to.
\<close>

section \<open>The first run, exactly\<close>

definition kem_section :: "NodeConfigFile \<Rightarrow> KemFileConfig" where
  "kem_section f = (case ncf_kem f of Some k \<Rightarrow> k | None \<Rightarrow> kem_file_config_default)"

lemma default_seed_path:
  "kem_seed_file_path p (k\<lparr>kem_file := Some (case kem_file k of Some n \<Rightarrow> n | None \<Rightarrow> DEFAULT_KEM_SEED_FILENAME),
     inline_x25519 := x, inline_mlkem_d := d, inline_mlkem_z := z\<rparr>) = kem_seed_file_path p k"
proof -
  have "path_of DEFAULT_KEM_SEED_FILENAME = (False, [''kem.seeds''])" by (simp add: path_of_def DEFAULT_KEM_SEED_FILENAME_def)
  then show ?thesis by (simp add: kem_seed_file_path_def kem_seed_file_path_from_option_def Let_def split: option.split)
qed

lemma first_run:
  assumes "toml_ok T" "\<forall>f. \<exists>t. to_text f = Inr t" "\<not> allow_plaintext_kem (kem_section f)"
    and "sp = kem_seed_file_path p (kem_section f)" "sp \<noteq> p" "seed_place_ok b sp h" "host_write_fault h p = None"
    and "is_utf8 (ascii (kem_keyring_account H p (Some (ncf_relay_id f))))"
  shows "\<exists>f' rng' h'. load_or_init_kem H T to_text fill b p f rng h = (Inr (), f', rng', h') \<and>
    (case resolve_kem_seeds T b h p (kem_section f) of
       Inr _ \<Rightarrow> h' = h \<and> kem_section f' = kem_section f
     | Inl _ \<Rightarrow>
         (\<exists>stored. host_files h' sp = Some (stored, seed_mode b h sp))
         \<and> resolve_kem_seeds T b h' p (kem_section f')
           = (if mode_safe b (seed_mode b h sp) then Inr (fst (generate_kem_seeds fill rng)) else Inl (insecure_mode sp))
         \<and> (mode_safe b (seed_mode b h sp) \<longrightarrow> load_or_init_kem H T to_text fill b p f' rng' h' = (Inr (), f', rng', h')))"
proof -
  let ?k = "kem_section f"
  define f0 where "f0 = (if ncf_kem f = None then f\<lparr>ncf_kem := Some kem_file_config_default\<rparr> else f)"
  have f0: "the (ncf_kem f0) = ?k" "ncf_kem f0 \<noteq> None" "kem_section f0 = ?k" "ncf_relay_id f0 = ncf_relay_id f"
    by (auto simp: f0_def kem_section_def)
  show ?thesis
  proof (cases "resolve_kem_seeds T b h p ?k")
    case (Inr s)
    have "load_or_init_kem H T to_text fill b p f rng h = (Inr (), f0, rng, h)"
      using Inr f0(1) unfolding load_or_init_kem_def f0_def[symmetric] by (simp add: Let_def)
    then show ?thesis using Inr f0(3) by simp
  next
    case (Inl e)
    obtain seeds rng1 where g: "generate_kem_seeds fill rng = (seeds, rng1)" by (rule prod.exhaust)
    obtain stored chain t where st: "persist_kem_seeds_file_with_account T b sp seeds (kem_keyring_account H p (Some (ncf_relay_id f))) h
        = (Inr (), h\<lparr>host_keychain := chain, host_files := (host_files h)(sp \<mapsto> (stored, seed_mode b h sp))\<rparr>)"
      "\<And>files. unprotect_seed_bytes b stored (h\<lparr>host_keychain := chain, host_files := files\<rparr>) = Inr t"
      "is_utf8 t" "seeds_from_toml T t = Inr seeds"
      using persist_seeds[OF assms(1,6,8)] by blast
    define k' where "k' = ?k\<lparr>kem_file := Some (case kem_file ?k of Some n \<Rightarrow> n | None \<Rightarrow> DEFAULT_KEM_SEED_FILENAME),
        inline_x25519 := None, inline_mlkem_d := None, inline_mlkem_z := None\<rparr>"
    define f' where "f' = f0\<lparr>ncf_kem := Some k'\<rparr>"
    obtain ct where ct: "to_text f' = Inr ct" using assms(2) by blast
    define files where "files = (host_files h)(sp \<mapsto> (stored, seed_mode b h sp), p \<mapsto> (ct, case host_files h p of Some (_, m) \<Rightarrow> m | None \<Rightarrow> host_new_mode h))"
    define h' where "h' = h\<lparr>host_keychain := chain, host_files := files\<rparr>"
    have w: "fs_write p ct (h\<lparr>host_keychain := chain, host_files := (host_files h)(sp \<mapsto> (stored, seed_mode b h sp))\<rparr>) = (Inr (), h')"
      using assms(5,7) by (simp add: fs_write_def write_mode_def h'_def files_def)
    have run: "load_or_init_kem H T to_text fill b p f rng h = (Inr (), f', rng1, h')"
      using Inl f0(1,4) g st(1) assms(3,4) ct w unfolding load_or_init_kem_def f0_def[symmetric] by (simp add: Let_def f'_def k'_def)
    have k': "kem_section f' = k'" "\<not> has_any_inline k'" "kem_seed_file_path p k' = sp"
      using assms(4) default_seed_path[where p = p and k = ?k and x = None and d = None and z = None] by (simp_all add: f'_def kem_section_def k'_def has_any_inline_def)
    have stored_at: "host_files h' sp = Some (stored, seed_mode b h sp)" using assms(5) by (simp add: h'_def files_def)
    have res: "resolve_kem_seeds T b h' p k' = (if mode_safe b (seed_mode b h sp) then Inr seeds else Inl (insecure_mode sp))"
      using resolve_stored[OF k'(2,3) stored_at _ _ st(3,4)] st(2) assms(6) by (simp add: h'_def seed_place_ok_def)
    have again: "load_or_init_kem H T to_text fill b p f' rng1 h' = (Inr (), f', rng1, h')" if "mode_safe b (seed_mode b h sp)"
      using res that by (simp add: load_or_init_kem_def f'_def)
    show ?thesis using run Inl stored_at res again g k'(1) by auto
  qed
qed

text \<open>The bad case happens: valid seeds in a file that a group can read are destroyed by the next start.\<close>

lemma readable_seeds_destroyed:
  assumes "toml_ok T" "\<forall>f. \<exists>t. to_text f = Inr t" "\<not> allow_plaintext_kem (kem_section f)" "\<not> has_any_inline (kem_section f)"
    and "sp = kem_seed_file_path p (kem_section f)" "sp \<noteq> p" "seed_place_ok b sp h" "host_write_fault h p = None"
    and "is_utf8 (ascii (kem_keyring_account H p (Some (ncf_relay_id f))))"
    and "host_files h sp = Some (old, m)" "\<not> mode_safe b m"
  shows "\<exists>f' rng' h' new. load_or_init_kem H T to_text fill b p f rng h = (Inr (), f', rng', h')
    \<and> host_files h' sp = Some (new, m) \<and> resolve_kem_seeds T b h' p (kem_section f') = Inl (insecure_mode sp)"
proof -
  have "resolve_kem_seeds T b h p (kem_section f) = Inl (insecure_mode sp)"
    using assms(4,5,10,11) mode_check[OF assms(10), of b] by (simp add: resolve_kem_seeds_def insecure_mode_def)
  moreover have "seed_mode b h sp = m" using assms(10) by (simp add: seed_mode_def)
  ultimately show ?thesis
    using first_run[OF assms(1-3,5-9), of fill rng] assms(11) by auto
qed

text \<open>With plaintext seeds allowed the configuration file itself gets the seeds, and the seed file is left alone.\<close>

lemma first_run_inline:
  assumes "\<forall>f. \<exists>t. to_text f = Inr t" "allow_plaintext_kem (kem_section f)" "host_write_fault h p = None"
    and "resolve_kem_seeds T b h p (kem_section f) = Inl e"
  shows "\<exists>f' rng' h' t m. load_or_init_kem H T to_text fill b p f rng h = (Inr (), f', rng', h')
    \<and> to_text f' = Inr t \<and> h' = h\<lparr>host_files := (host_files h)(p \<mapsto> (t, m))\<rparr>
    \<and> (\<forall>h2. resolve_kem_seeds T b h2 p (kem_section f') = Inr (fst (generate_kem_seeds fill rng)))
    \<and> load_or_init_kem H T to_text fill b p f' rng' h' = (Inr (), f', rng', h')"
proof -
  define f0 where "f0 = (if ncf_kem f = None then f\<lparr>ncf_kem := Some kem_file_config_default\<rparr> else f)"
  have f0: "the (ncf_kem f0) = kem_section f" by (auto simp: f0_def kem_section_def)
  obtain seeds rng1 where g: "generate_kem_seeds fill rng = (seeds, rng1)" by (rule prod.exhaust)
  define f' where "f' = f0\<lparr>ncf_kem := Some ((kem_section f)\<lparr>inline_x25519 := Some (seed_x25519 seeds),
      inline_mlkem_d := Some (seed_mlkem_d seeds), inline_mlkem_z := Some (seed_mlkem_z seeds)\<rparr>)\<rparr>"
  obtain t where t: "to_text f' = Inr t" using assms(1) by blast
  define m where "m = (case host_files h p of Some (_, m) \<Rightarrow> m | None \<Rightarrow> host_new_mode h)"
  let ?h' = "h\<lparr>host_files := (host_files h)(p \<mapsto> (t, m))\<rparr>"
  have w: "fs_write p t h = (Inr (), ?h')" using assms(3) by (simp add: fs_write_def write_mode_def m_def)
  have run: "load_or_init_kem H T to_text fill b p f rng h = (Inr (), f', rng1, ?h')"
    using assms(2,4) g t w f0 unfolding load_or_init_kem_def f0_def[symmetric] by (simp add: Let_def f'_def)
  have res: "resolve_kem_seeds T b h2 p (kem_section f') = Inr seeds" for h2
    by (simp add: f'_def kem_section_def resolve_kem_seeds_def has_any_inline_def inline_seeds_def has_complete_inline_def ok_or_def)
  have again: "load_or_init_kem H T to_text fill b p f' rng1 ?h' = (Inr (), f', rng1, ?h')"
    using res[of ?h'] by (simp add: load_or_init_kem_def f'_def kem_section_def Let_def)
  show ?thesis using run t res again g by auto
qed


section \<open>What an accepted configuration satisfies\<close>

lemma length_node_parse_hex32: "node_parse_hex32 s = Inr bs \<Longrightarrow> length bs = 32"
  using length_parse_chunks by (fastforce simp: node_parse_hex32_def ok_or_def Let_def split: option.splits if_splits)

lemma length_opt_hex32: "opt_hex32 x = Inr (Some bs) \<Longrightarrow> length bs = 32"
  by (auto simp: opt_hex32_def bind_result_Inr_iff length_node_parse_hex32 split: option.splits)

definition peer_keys_ok :: "PeerInfo \<Rightarrow> bool" where
  "peer_keys_ok info \<longleftrightarrow> length (link_key_bytes info) = 32
     \<and> (\<forall>bs \<in> set_option (peer_kem_commitment info) \<union> set_option (gossip_verifying_key info) \<union> set_option (noise_static_public info). length bs = 32)
     \<and> org_id info \<noteq> Some [] \<and> peer_jurisdiction info \<noteq> Some []"

lemma peer_info_from_ok:
  assumes "peer_info_from addr peer = Inr (i, info)"
  shows "length i = 32" "peer_keys_ok info"
proof -
  obtain a key kem gossip noise where p: "node_parse_hex32 (pc_id peer) = Inr i" "node_parse_hex32 (pc_link_key peer) = Inr key"
    "opt_hex32 (pc_kem_commitment peer) = Inr kem" "opt_hex32 (pc_gossip_verifying_key peer) = Inr gossip"
    "opt_hex32 (pc_noise_static_public peer) = Inr noise"
    "info = (peer_info_new a key)\<lparr>peer_kem_commitment := kem, gossip_verifying_key := gossip, noise_static_public := noise,
       org_id := trimmed_label (pc_org_id peer), peer_jurisdiction := trimmed_label (pc_jurisdiction peer)\<rparr>"
    using assms unfolding peer_info_from_def bind_result_Inr_iff by blast
  show "length i = 32" by (rule length_node_parse_hex32[OF p(1)])
  have label: "trimmed_label x \<noteq> Some []" for x by (simp add: trimmed_label_def split: option.split)
  show "peer_keys_ok info"
    using p(2-6) length_node_parse_hex32 length_opt_hex32 label by (auto simp: peer_keys_ok_def peer_info_new_def)
qed

definition peer_entry_ok :: "bytes \<times> PeerInfo \<Rightarrow> bool" where
  "peer_entry_ok e \<longleftrightarrow> length (fst e) = 32 \<and> peer_keys_ok (snd e)"

lemma peer_loop_ok:
  assumes "peer_loop E want peers chosen table = Inr (chosen', table')" "distinct (map fst table)" "\<forall>e \<in> set table. peer_entry_ok e"
  shows "distinct (map fst table') \<and> (\<forall>e \<in> set table'. peer_entry_ok e)"
  using assms
proof (induction peers arbitrary: chosen table)
  case (Cons peer peers)
  obtain i info cand where p: "peer_info_from (env_addr E) peer = Inr (i, info)"
    "peer_loop E want peers (choose_terminal want peer cand chosen) (AList.update i info table) = Inr (chosen', table')"
    using Cons.prems(1) by (auto simp: bind_result_Inr_iff)
  have "peer_entry_ok (i, info)" using peer_info_from_ok[OF p(1)] by (simp add: peer_entry_ok_def)
  then have "\<forall>e \<in> set (AList.update i info table). peer_entry_ok e"
    using Cons.prems(3) set_alist_update'[of _ i info table] by blast
  then show ?case by (rule Cons.IH[OF p(2) distinct_update[OF Cons.prems(2)]])
qed simp

lemma node_load_roster_ok:
  assumes "node_load_roster S fs c = Inr r"
  shows "if nrc_authority_pubkeys c = [] then nrc_allow_unverified_roster c
    else \<exists>con p. node_consortium S c = Inr (Some con) \<and> load_persisted S p (Some con) = Inr r"
proof -
  obtain co where co: "node_consortium S c = Inr co" "\<not> (co = None \<and> \<not> nrc_allow_unverified_roster c)"
    "(case fs (nrc_path c) of None \<Rightarrow> Inl (ConfigRoster RosterIo)
      | Some p \<Rightarrow> (case load_from_file_with_policy S p co (nrc_allow_unverified_roster c) of Inl e \<Rightarrow> Inl (ConfigRoster e) | Inr r \<Rightarrow> Inr r)) = Inr r"
    using assms unfolding node_load_roster_def bind_result_Inr_iff if_Inl_Inr by blast
  show ?thesis
  proof (cases co)
    case None
    have "(case x of Inl e \<Rightarrow> Inl (ConfigRoster e) | Inr c \<Rightarrow> Inr (Some c)) \<noteq> Inr None" for x :: "RosterError + 'b ThresholdConsortium"
      by (cases x) simp_all
    then have "nrc_authority_pubkeys c = []"
      using co(1) None by (auto simp: node_consortium_def bind_result_Inr_iff split: if_splits)
    then show ?thesis using co(2) None by simp
  next
    case (Some con)
    then have "nrc_authority_pubkeys c \<noteq> []" using co(1) by (auto simp: node_consortium_def)
    moreover have "\<exists>p. load_persisted S p (Some con) = Inr r"
      using co(3) Some by (auto simp: load_from_file_with_policy_def split: option.splits sum.splits)
    ultimately show ?thesis using co(1) Some by auto
  qed
qed

text \<open>
  C35. An accepted configuration is well formed and fails closed: all identities and keys have 32 bytes, there is one entry per peer,
  the KEM commitment the ingress demands is there, a Noise link has its secret, an onion terminal is only given to the onion defence,
  and a roster was checked against its consortium, unless no authority is configured and unverified rosters are explicitly allowed.
\<close>

theorem runtime_well_formed:
  assumes "into_runtime E config_path f = Inr rt"
  shows "length (rt_relay_id rt) = 32 \<and> distinct (map fst (rt_peer_table rt))
    \<and> (\<forall>e \<in> set (rt_peer_table rt). peer_entry_ok e)
    \<and> (\<forall>bs \<in> set_option (rt_ingress_link_key rt) \<union> set_option (rt_local_kem_commitment rt)
          \<union> set_option (noise_static_secret (rt_link_bridge_config rt)) \<union> set_option (ingress_noise_static_public (rt_link_bridge_config rt)). length bs = 32)
    \<and> (require_ingress_kem_commitment (rt_link_bridge_config rt) \<longrightarrow> rt_local_kem_commitment rt \<noteq> None)
    \<and> (handshake (rt_link_bridge_config rt) = NoiseMode \<longrightarrow> noise_static_secret (rt_link_bridge_config rt) \<noteq> None)
    \<and> (bc_cover_onion_terminal (rc_bulk_cover (rt_relay_config rt)) \<noteq> None \<longrightarrow> bc_multihop_defense (rc_bulk_cover (rt_relay_config rt)) = CoverOnions)
    \<and> (case (ncf_roster f, rt_roster rt) of
         (None, None) \<Rightarrow> True
       | (Some c, Some r) \<Rightarrow> (if nrc_authority_pubkeys c = [] then nrc_allow_unverified_roster c
           else \<exists>con p. node_consortium (env_sig E) c = Inr (Some con) \<and> load_persisted (env_sig E) p (Some con) = Inr r)
       | _ \<Rightarrow> False)"
proof -
  obtain relay_id listen secret ingress_key commitment terminal table roster mode noise_secret ingress_pub cover where
    p: "node_parse_hex32 (ncf_relay_id f) = Inr relay_id"
      "(case ncf_ingress f of None \<Rightarrow> Inr None | Some i \<Rightarrow> bind_result (node_parse_hex32 (ing_link_key i)) (\<lambda>k. Inr (Some k))) = Inr ingress_key"
      "opt_hex32 (ncf_kem_commitment f) = Inr commitment"
      "\<not> (lnc_require_ingress_kem_commitment (ncf_link f) \<and> commitment = None)"
      "peer_loop E (cover_onion_peer_id (ncf_cover f)) (ncf_peers f) None [] = Inr (terminal, table)"
      "(case ncf_roster f of None \<Rightarrow> Inr None | Some c \<Rightarrow> bind_result (node_load_roster (env_sig E) (env_roster_file E) c) (\<lambda>r. Inr (Some r))) = Inr roster"
      "opt_hex32 (lnc_noise_static_secret (ncf_link f)) = Inr noise_secret"
      "opt_hex32 (lnc_ingress_noise_static_public (ncf_link f)) = Inr ingress_pub"
      "\<not> (mode = NoiseMode \<and> noise_secret = None)" "into_bulk_cover (ncf_cover f) = Inr cover"
    and rt: "rt_relay_id rt = relay_id" "rt_ingress_link_key rt = ingress_key" "rt_local_kem_commitment rt = commitment" "rt_peer_table rt = table"
      "rt_roster rt = roster" "rc_bulk_cover (rt_relay_config rt) = with_terminal terminal cover"
      "rt_link_bridge_config rt = bridge_config_from (ncf_link f) mode noise_secret ingress_pub (ingress_limit (ncf_link f) (ncf_ingress f))"
    using assms unfolding into_runtime_def bind_result_Inr_iff if_Inl_Inr split_paired_Ex prod.case sum.inject
    apply (elim exE conjE)
    apply (rule that)
    apply assumption+
    apply (auto simp: with_bulk_cover_def) done
  have ingress: "\<forall>bs \<in> set_option ingress_key. length bs = 32"
    using p(2) length_node_parse_hex32 by (auto simp: bind_result_Inr_iff split: option.splits)
  have keys: "\<forall>bs \<in> set_option commitment \<union> set_option noise_secret \<union> set_option ingress_pub. length bs = 32"
    using p(3,7,8) length_opt_hex32 by auto
  have table: "distinct (map fst table)" "\<forall>e \<in> set table. peer_entry_ok e"
    using peer_loop_ok[OF p(5)] by simp_all
  have cover: "bc_cover_onion_terminal cover = None" using p(10) by (auto simp: into_bulk_cover_def bind_result_Inr_iff)
  have terminal: "bc_cover_onion_terminal (with_terminal terminal cover) \<noteq> None \<longrightarrow> bc_multihop_defense (with_terminal terminal cover) = CoverOnions"
    using cover by (simp add: with_terminal_def with_cover_onion_terminal_def split: option.split)
  have roster: "case (ncf_roster f, roster) of (None, None) \<Rightarrow> True
       | (Some c, Some r) \<Rightarrow> (if nrc_authority_pubkeys c = [] then nrc_allow_unverified_roster c
           else \<exists>con p. node_consortium (env_sig E) c = Inr (Some con) \<and> load_persisted (env_sig E) p (Some con) = Inr r)
       | _ \<Rightarrow> False"
  proof (cases "ncf_roster f")
    case (Some c)
    then obtain r where "node_load_roster (env_sig E) (env_roster_file E) c = Inr r" "roster = Some r"
      using p(6) by (auto simp: bind_result_Inr_iff)
    then show ?thesis using node_load_roster_ok[of "env_sig E" "env_roster_file E" c r] by (simp add: Some)
  qed (use p(6) in simp)
  show ?thesis
    unfolding rt bridge_config_from_def
    using length_node_parse_hex32[OF p(1)] ingress keys table terminal roster p(4,9) by (simp add: ball_Un)
qed

section \<open>A small configuration for the witnesses\<close>

text \<open>The seeds as three hexadecimal fields.\<close>

definition text_of :: "bytes \<Rightarrow> string" where
  "text_of bs = map (\<lambda>b. char_of (unat b)) bs"

definition toy_toml :: seeds_toml where
  "toy_toml = \<lparr>seeds_to_toml = (\<lambda>s. Inr (ascii (hex_encode (ascii (seed_x25519 s)) @ CHR ''/'' # hex_encode (ascii (seed_mlkem_d s))
         @ CHR ''/'' # hex_encode (ascii (seed_mlkem_z s))))),
     seeds_from_toml = (\<lambda>t. case map parse_chunks (split_slash (text_of t)) of
         [Some x, Some d, Some z] \<Rightarrow> Inr \<lparr>seed_x25519 = text_of x, seed_mlkem_d = text_of d, seed_mlkem_z = text_of z\<rparr>
       | _ \<Rightarrow> Inl ''toml'')\<rparr>"

lemma unat_of_char [simp]: "unat (of_char c :: byte) = of_char c"
proof -
  have "(of_char c :: byte) = of_nat (of_char c)" by (rule of_nat_of_char[symmetric])
  then show ?thesis using nat_of_char_less_256[of c] by (simp only: unat_of_nat) simp
qed

lemma text_of_ascii [simp]: "text_of (ascii s) = s"
  by (simp add: text_of_def ascii_def comp_def map_idI)

lemma split_slash_append: "CHR ''/'' \<notin> set a \<Longrightarrow> split_slash (a @ CHR ''/'' # b) = a # split_slash b"
  by (induction a) auto

lemma split_slash_none: "CHR ''/'' \<notin> set a \<Longrightarrow> split_slash a = [a]"
  by (induction a) auto

lemma hex_digit_code: "n < 16 \<Longrightarrow> (48 :: nat) \<le> of_char (hex_digit n) \<and> of_char (hex_digit n) < (128 :: nat) \<and> of_char (hex_digit n) \<noteq> (65 :: nat)"
  by (drule less_16_cases) (auto simp: hex_digit_def numeral_eq_Suc)

lemma hex_encode_code: "c \<in> set (hex_encode bs) \<Longrightarrow> (48 :: nat) \<le> of_char c \<and> of_char c < (128 :: nat) \<and> of_char c \<noteq> (65 :: nat)"
  using hex_digit_code by (auto simp: hex_encode_def hex_byte_def div_less_iff_less_mult)

lemma slash_not_hex: "CHR ''/'' \<notin> set (hex_encode bs)"
  using hex_encode_code[of "CHR ''/''" bs] by auto

lemma start_hd: "bytes_start_with pre bs \<Longrightarrow> pre \<noteq> [] \<Longrightarrow> hd bs = hd pre"
  by (metis bytes_start_with_def hd_take length_greater_0_conv)

lemma magic_heads: "KEM_SEED_DPAPI_MAGIC \<noteq> []" "hd KEM_SEED_DPAPI_MAGIC = 0x41" "KEM_SEED_KEYRING_MAGIC \<noteq> []" "hd KEM_SEED_KEYRING_MAGIC = 0x41"
  by (simp_all add: KEM_SEED_DPAPI_MAGIC_def KEM_SEED_KEYRING_MAGIC_def ascii_def)

lemma toy_toml_ok: "toml_ok toy_toml"
  unfolding toml_ok_def
proof
  fix s :: KemSeeds
  let ?t = "hex_encode (ascii (seed_x25519 s)) @ CHR ''/'' # hex_encode (ascii (seed_mlkem_d s)) @ CHR ''/'' # hex_encode (ascii (seed_mlkem_z s))"
  have code: "\<forall>c \<in> set ?t. of_char c < (128 :: nat) \<and> of_char c \<noteq> (65 :: nat)" using hex_encode_code by auto
  have byte: "(of_char c :: byte) < 0x80 \<and> (of_char c :: byte) \<noteq> 0x41" if "of_char c < (128 :: nat)" "of_char c \<noteq> (65 :: nat)" for c
    using that by (simp add: word_less_nat_alt word_unat_eq_iff)
  have bytes: "\<forall>b \<in> set (ascii ?t). b < 0x80 \<and> b \<noteq> 0x41" using code byte by (fastforce simp: ascii_def)
  have "ascii ?t \<noteq> []" by (simp add: ascii_def)
  then have "hd (ascii ?t) \<noteq> 0x41" using bytes hd_in_set by blast
  moreover have "is_utf8 (ascii ?t)" using bytes by (blast intro: utf8_ascii)
  moreover have "\<not> is_dpapi_protected t" "\<not> is_keyring_protected t" if "hd t \<noteq> 0x41" for t
    using that start_hd[of _ t] start_hd magic_heads unfolding is_dpapi_protected_def is_keyring_protected_def by metis+
  moreover have "seeds_from_toml toy_toml (ascii ?t) = Inr s"
    by (simp add: toy_toml_def split_slash_append[OF slash_not_hex] split_slash_none[OF slash_not_hex] parse_chunks_encode)
  moreover have "seeds_to_toml toy_toml s = Inr (ascii ?t)" by (simp add: toy_toml_def)
  ultimately show "\<exists>t. seeds_to_toml toy_toml s = Inr t \<and> seeds_from_toml toy_toml t = Inr s \<and> is_utf8 t \<and> \<not> is_dpapi_protected t \<and> \<not> is_keyring_protected t"
    by blast
qed

definition toy_id :: string where "toy_id = hex_encode (replicate 32 1)"

definition toy_peer_config :: PeerConfig where
  "toy_peer_config = \<lparr>pc_id = toy_id, pc_addr = ''h:1'', pc_link_key = toy_id, pc_kem_commitment = Some toy_id, pc_gossip_verifying_key = None,
     pc_noise_static_public = None, pc_org_id = Some '' '', pc_jurisdiction = None, pc_kem_x25519_seed = None, pc_kem_mlkem_d = None,
     pc_kem_mlkem_z = None\<rparr>"

definition toy_node_config :: NodeConfigFile where
  "toy_node_config = \<lparr>ncf_relay_id = toy_id, ncf_listen = ''h:0'', ncf_mu = Fin 2, ncf_kem = None, ncf_kem_commitment = Some toy_id, ncf_ingress = None,
     ncf_peers = [toy_peer_config], ncf_link = link_net_default\<lparr>lnc_require_ingress_kem_commitment := True\<rparr>, ncf_exit = exit_config_default,
     ncf_trace = None, ncf_roster = None, ncf_cover = cover_file_default,
     ncf_reputation = \<lparr>ledger_path = None, nullifier_registry_path = None, operator_signing_seed = None, operator_signing_key_file = None, operator_verifying_key = None\<rparr>,
     ncf_health_gossip = health_gossip_default, ncf_guard_mitigation = \<lparr>preset = None, file_adaptive_first = False\<rparr>, ncf_metrics = metrics_file_default\<rparr>"

definition toy_host :: host where
  "toy_host = \<lparr>host_files = Map.empty, host_keychain = Map.empty, host_read_fault = (\<lambda>_. None), host_write_fault = (\<lambda>_. None),
     host_keychain_fault = None, host_new_mode = 0x1A4, dpapi_encrypt = Inr, dpapi_decrypt = Inr\<rparr>"

lemma utf8_text: "\<forall>c \<in> set s. of_char c < (128 :: nat) \<Longrightarrow> is_utf8 (ascii s)"
  by (rule utf8_ascii) (simp add: ascii_def word_less_nat_alt)


lemma toy_id_facts [simp]: "node_parse_hex32 toy_id = Inr (replicate 32 1)" "trim toy_id = toy_id" "trim_0x toy_id = toy_id" "toy_id \<noteq> []"
proof -
  have "length toy_id = 64" by (simp add: toy_id_def length_hex_encode)
  then show "toy_id \<noteq> []" by auto
  show "trim toy_id = toy_id" "trim_0x toy_id = toy_id" unfolding toy_id_def by (rule trim_hex_encode trim_0x_hex_encode)+
  show "node_parse_hex32 toy_id = Inr (replicate 32 1)" unfolding toy_id_def node_parse_hex32_def trim_hex_encode trim_0x_hex_encode Let_def parse_chunks_encode by (simp add: ok_or_def)
qed

lemma toy_account: "is_utf8 (ascii (kem_keyring_account H p (Some (ncf_relay_id toy_node_config))))"
proof (rule utf8_text)
  have "\<forall>c \<in> set toy_id. of_char c < (128 :: nat)" using hex_encode_code by (auto simp: toy_id_def)
  then show "\<forall>c \<in> set (kem_keyring_account H p (Some (ncf_relay_id toy_node_config))). of_char c < (128 :: nat)"
    by (auto simp: kem_keyring_account_def toy_node_config_def Let_def)
qed

lemma toy_start:
  "kem_section toy_node_config = kem_file_config_default" "seed_place_ok UnixKeyring sp toy_host" "host_write_fault toy_host p = None"
  "kem_seed_file_path (True, [''etc'', ''node.toml'']) kem_file_config_default = (True, [''etc'', ''kem.seeds''])"
  "seed_mode UnixKeyring toy_host sp = OWNER_ONLY"
  "resolve_kem_seeds T b toy_host p kem_file_config_default = Inl MissingKem"
  by (simp_all add: kem_section_def toy_node_config_def seed_place_ok_def toy_host_def seed_mode_def is_unix_def resolve_kem_seeds_def
      has_any_inline_def kem_file_config_default_def kem_seed_file_path_def kem_seed_file_path_from_option_def path_parent_def path_join_def
      path_of_def DEFAULT_KEM_SEED_FILENAME_def)


definition toy_env :: "(nat, unit, unit, nat, byte, byte) node_env" where
  "toy_env = \<lparr>env_lib = toy_lib, env_xsec = (\<lambda>x. unat (hd x)), env_mgen = (\<lambda>d z. ((), ())), env_sig = toy_sig, env_toml = toy_toml,
     env_build = UnixKeyring, env_host = toy_host, env_roster_file = (\<lambda>_. None), env_addr = Some\<rparr>"

definition toy_inline_config :: NodeConfigFile where
  "toy_inline_config = toy_node_config\<lparr>ncf_kem := Some \<lparr>kem_file = None, allow_plaintext_kem = True, inline_x25519 = Some toy_id,
     inline_mlkem_d = Some toy_id, inline_mlkem_z = Some toy_id\<rparr>\<rparr>"

lemma toy_fields:
  "ncf_relay_id toy_node_config = toy_id" "ncf_kem_commitment toy_node_config = Some toy_id" "ncf_ingress toy_node_config = None"
  "ncf_peers toy_node_config = [toy_peer_config]" "ncf_roster toy_node_config = None" "ncf_cover toy_node_config = cover_file_default"
  "cover_onion_peer_id cover_file_default = None" "lnc_handshake (ncf_link toy_node_config) = ''auto''"
  "lnc_noise_static_secret (ncf_link toy_node_config) = None" "lnc_ingress_noise_static_public (ncf_link toy_node_config) = None"
  "lnc_require_ingress_kem_commitment (ncf_link toy_node_config)" "env_addr toy_env = Some" "opt_hex32 None = Inr None"
  "opt_hex32 (Some toy_id) = Inr (Some (replicate 32 1))" "choose_terminal w peer None c = c"
  by (simp_all add: toy_node_config_def link_net_default_def cover_file_default_def toy_env_def opt_hex32_def choose_terminal_def)

text \<open>The small configuration is accepted wherever its seeds come from.\<close>

lemma toy_accepts:
  fixes k :: "KemFileConfig option" and h :: host
  defines "f \<equiv> toy_node_config\<lparr>ncf_kem := k\<rparr>" and "E \<equiv> toy_env\<lparr>env_host := h\<rparr>"
  assumes "resolve_secret E p f = Inr secret"
  shows "\<exists>rt. into_runtime E p f = Inr rt \<and> require_ingress_kem_commitment (rt_link_bridge_config rt)"
proof -
  obtain info where "peer_info_from Some toy_peer_config = Inr (replicate 32 1, info)"
    by (simp add: peer_info_from_def toy_peer_config_def opt_hex32_def)
  moreover have "peer_terminal E toy_peer_config i = Inr None" for i by (simp add: peer_terminal_def toy_peer_config_def)
  moreover have "node_parse_link_handshake_mode ''auto'' = Inr AutoMode" by code_simp
  moreover obtain cover where "into_bulk_cover cover_file_default = (Inr cover :: (ConfigError, unit BulkCoverConfig) result)"
    by (simp add: into_bulk_cover_def cover_file_default_def defense_roundtrip[of BaselineLocalDiscard, simplified])
  ultimately show ?thesis
    using assms(3) unfolding f_def E_def by (simp add: into_runtime_def toy_fields bridge_config_from_def)
qed

lemma toy_accepted: "\<exists>rt. into_runtime toy_env (True, [''etc'', ''node.toml'']) toy_inline_config = Inr rt
    \<and> require_ingress_kem_commitment (rt_link_bridge_config rt)"
proof -
  have "resolve_secret toy_env p toy_inline_config = Inr (fst (env_generate toy_env (replicate 32 1) (replicate 32 1) (replicate 32 1)))" for p
    by (simp add: resolve_secret_def toy_inline_config_def resolve_kem_seeds_def has_any_inline_def inline_seeds_def has_complete_inline_def)
  moreover have "toy_env\<lparr>env_host := toy_host\<rparr> = toy_env" by (simp add: toy_env_def)
  ultimately show ?thesis using toy_accepts[where h = toy_host] by (simp only: toy_inline_config_def)
qed

theorem runtime_well_formed_witness:
  "\<exists>rt. into_runtime toy_env (True, [''etc'', ''node.toml'']) toy_inline_config = Inr rt
    \<and> length (rt_relay_id rt) = 32 \<and> rt_local_kem_commitment rt \<noteq> None"
proof -
  obtain rt where rt: "into_runtime toy_env (True, [''etc'', ''node.toml'']) toy_inline_config = Inr rt"
    "require_ingress_kem_commitment (rt_link_bridge_config rt)" using toy_accepted by blast
  show ?thesis using rt runtime_well_formed[OF rt(1)] by blast
qed

end
