(* ===== verification/Operator_Check.thy ===== *)
theory Operator_Check
  imports Node_Start
begin

text \<open>
  \<^verbatim>\<open>aegis-node validate\<close>, \<^verbatim>\<open>crates/aegis-node/src/operator_check.rs\<close>: the checks of a configuration before it goes to production. The
  checks are pushed in the order of the code; a block of the code is a list here. The last sections relate the verdict to what the
  node then runs with. \<open>show_error\<close> is the \<open>Display\<close> text of a configuration error.
\<close>

section \<open>Reports\<close>

datatype CheckSeverity = CheckError | CheckWarning

record ConfigCheck =
  severity :: CheckSeverity
  field :: string
  message :: string

record ValidationReport =
  report_relay_id :: "string option"
  report_listen :: "string option"
  checks :: "ConfigCheck list"

definition report_errors :: "ValidationReport \<Rightarrow> ConfigCheck list" where
  "report_errors r = filter (\<lambda>c. severity c = CheckError) (checks r)"

definition report_warnings :: "ValidationReport \<Rightarrow> ConfigCheck list" where
  "report_warnings r = filter (\<lambda>c. severity c = CheckWarning) (checks r)"

definition report_ok :: "ValidationReport \<Rightarrow> bool" where
  "report_ok r \<longleftrightarrow> report_errors r = []"

definition check_error :: "string \<Rightarrow> string \<Rightarrow> ConfigCheck" where
  "check_error f m = \<lparr>severity = CheckError, field = f, message = m\<rparr>"

definition check_warn :: "string \<Rightarrow> string \<Rightarrow> ConfigCheck" where
  "check_warn f m = \<lparr>severity = CheckWarning, field = f, message = m\<rparr>"

text \<open>The UTF-8 bytes of an em dash between two texts.\<close>

definition dashed :: "string \<Rightarrow> string \<Rightarrow> string" where
  "dashed a b = a @ '' '' @ [CHR 0xE2, CHR 0x80, CHR 0x94] @ '' '' @ b"

definition eol :: string where "eol = [CHR 0x0A]"

definition report_text :: "ValidationReport \<Rightarrow> string" where
  "report_text r =
     ''aegis-node config validation'' @ eol
     @ (case report_relay_id r of Some i \<Rightarrow> ''  relay_id: '' @ i @ eol | None \<Rightarrow> [])
     @ (case report_listen r of Some l \<Rightarrow> ''  listen: '' @ l @ eol | None \<Rightarrow> [])
     @ dashed (''  summary: '' @ dec_string (length (report_errors r)) @ '' error(s), '' @ dec_string (length (report_warnings r)) @ '' warning(s)'')
         (if report_ok r then ''PASS'' else ''FAIL'') @ eol
     @ concat (map (\<lambda>c. dashed (''  ['' @ (case severity c of CheckError \<Rightarrow> ''ERROR'' | CheckWarning \<Rightarrow> ''WARN'') @ ''] '' @ field c) (message c) @ eol)
         (checks r))
     @ eol
     @ ''live coarse_stats (at relay run): processed_ok, processed_fail, cover_emitted, queue_dropped'' @ eol
     @ ''  failure_rate = processed_fail / (processed_ok + processed_fail)'' @ eol
     @ ''  scrape: use MetricsExportGate / [metrics] (default min_scrape_interval_secs=30, quantize_bucket=16, suppress_ingress_drop_detail=true)'' @ eol
     @ ''  residual: privileged observers with raw coarse_stats / debug_stats or allow_high_resolution=true still see high-res deltas under flood'' @ eol"

section \<open>The checks\<close>

definition check_if :: "bool \<Rightarrow> ConfigCheck \<Rightarrow> ConfigCheck list" where
  "check_if c k = (if c then [k] else [])"

definition kem_checks :: "NodeConfigFile \<Rightarrow> ConfigCheck list" where
  "kem_checks f =
     (case ncf_kem f of
        None \<Rightarrow> []
      | Some k \<Rightarrow>
          check_if (allow_plaintext_kem k)
            (check_error ''kem.allow_plaintext_kem'' (dashed ''lab flag true'' ''production must use external kem.seeds (false or omitted)''))
          @ check_if (inline_x25519 k \<noteq> None \<or> inline_mlkem_d k \<noteq> None \<or> inline_mlkem_z k \<noteq> None)
            (check_error ''kem inline seeds'' (''inline KEM seeds in main config are lab-only; use [kem] file = '' @ [CHR 0x22] @ ''...'' @ [CHR 0x22])))"

definition roster_checks :: "('sk, 'vk) sig_lib \<Rightarrow> (string \<Rightarrow> PersistedRoster option) \<Rightarrow> (ConfigError \<Rightarrow> string) \<Rightarrow> NodeConfigFile \<Rightarrow> ConfigCheck list" where
  "roster_checks S fs show_error f =
     (case ncf_roster f of
        Some r \<Rightarrow>
          check_if (nrc_allow_unverified_roster r)
            (check_error ''roster.allow_unverified_roster'' (dashed ''lab flag true'' ''production requires signed roster verify''))
          @ check_if (nrc_authority_pubkeys r = [])
            (check_error ''roster.authority_pubkeys'' (dashed ''empty'' ''production requires consortium authority keys''))
          @ check_if (nrc_threshold r = 0) (check_error ''roster.threshold'' ''must be >= 1'')
          @ (case node_load_roster S fs r of
               Inr loaded \<Rightarrow> check_if (roster_is_empty loaded) (check_warn ''roster.path'' ''roster loaded but contains zero relays'')
             | Inl e \<Rightarrow> [check_error ''roster.path'' (''roster load/verify failed: '' @ show_error e)])
      | None \<Rightarrow> [check_warn ''roster'' (dashed ''no [roster] section'' ''permissioned deployment expects signed roster'')])"

definition exit_checks :: "NodeConfigFile \<Rightarrow> ConfigCheck list" where
  "exit_checks f =
     check_if (ncf_trace f \<noteq> None) (check_error ''trace.path'' (dashed ''lab/capture instrumentation set'' ''unset on production mix relays''))
     @ check_if (ec_log_payloads (ncf_exit f))
         (check_warn ''exit.log_payloads'' (dashed ''payload logging enabled'' ''disable except on designated debug exit hops''))
     @ (if ec_presence_pad (ncf_exit f)
        then [check_warn ''exit.presence_pad'' (dashed ''matched-Q egress pad burns bandwidth'' ''enable only on designated exit hops; clearnet GPA residual remains'')]
          @ check_if (ec_deliver_to (ncf_exit f) = None \<and> \<not> ec_log_payloads (ncf_exit f))
              (check_warn ''exit.presence_pad'' (dashed ''presence_pad enabled without deliver_to/log_payloads'' ''decoys are counted only (no egress sink)''))
        else [])"

definition cover_checks :: "NodeConfigFile \<Rightarrow> ConfigCheck list" where
  "cover_checks f =
     check_if (\<not> cfc_enabled (ncf_cover f) \<or> \<not> cfc_require (ncf_cover f))
       (check_error ''cover'' ''production requires [cover] enabled = true and require = true (fail-closed)'')"

text \<open>The handshake mode as the check reads it: in lower case, not trimmed, and without the aliases of the parser.\<close>

definition mode_text_is_noise :: "NodeConfigFile \<Rightarrow> bool" where
  "mode_text_is_noise f \<longleftrightarrow> map ascii_lower (lnc_handshake (ncf_link f)) \<in> {''auto'', ''noise''}"

definition link_checks :: "NodeConfigFile \<Rightarrow> ConfigCheck list" where
  "link_checks f =
     check_if (f64_le (lnc_max_cells_per_sec (ncf_link f)) (Fin 0))
       (check_error ''link.max_cells_per_sec'' (dashed ''ingress rate limit disabled (0)'' ''lab/test only''))
     @ check_if (lnc_global_max_cells_per_sec (ncf_link f) = Some (Fin 0))
       (check_error ''link.global_max_cells_per_sec'' (dashed ''global ingress cap disabled (0)'' ''lab/test only''))
     @ check_if (\<not> lnc_identity_binding (ncf_link f))
       (check_warn ''link.identity_binding'' (dashed ''false'' ''production should bind handshake MACs to roster relay id''))
     @ (if lnc_require_ingress_kem_commitment (ncf_link f) \<and> ncf_kem_commitment f = None
        then [check_error ''link.require_ingress_kem_commitment'' (dashed ''true but kem_commitment unset'' ''ingress KEM binding fails closed'')]
        else check_if (lnc_require_ingress_kem_commitment (ncf_link f))
          (check_warn ''link.require_ingress_kem_commitment'' ''ingress peers must present matching KEM commitment in link handshake (client hop config)''))
     @ check_if (map ascii_lower (lnc_handshake (ncf_link f)) = ''legacy_psk'')
       (check_warn ''link.handshake'' (dashed ''legacy_psk'' (''production should use handshake = '' @ [CHR 0x22] @ ''auto'' @ [CHR 0x22] @ '' with Noise static keys'')))
     @ check_if (mode_text_is_noise f \<and> lnc_noise_static_secret (ncf_link f) = None)
       (check_warn ''link.noise_static_secret'' (dashed ''missing'' ''Noise handshake selected but no local static secret configured''))"

definition gossip_checks :: "NodeConfigFile \<Rightarrow> ConfigCheck list" where
  "gossip_checks f =
     (if hg_enabled (ncf_health_gossip f)
      then check_if (hg_signing_seed (ncf_health_gossip f) = None \<and> hg_signing_key_file (ncf_health_gossip f) = None)
          (check_error ''health_gossip'' ''enabled but no signing_seed or signing_key_file'')
        @ check_if (length (filter (\<lambda>p. pc_gossip_verifying_key p \<noteq> None) (ncf_peers f)) = 0 \<and> ncf_peers f \<noteq> [])
          (check_warn ''peers.gossip_verifying_key'' ''health gossip enabled but no peer gossip_verifying_key configured'')
      else [check_warn ''health_gossip.enabled'' (dashed ''false'' ''production checklist recommends signed neighbor health gossip'')])"

definition metrics_checks :: "NodeConfigFile \<Rightarrow> ConfigCheck list" where
  "metrics_checks f =
     (let m = ncf_metrics f in
      if mfc_allow_high_resolution m
      then [check_warn ''metrics.allow_high_resolution'' (dashed ''true''
          ''lab/privileged high-res scrape; GPA residual under flood (production should keep false and use MetricsExportGate cadence)'')]
      else check_if (mfc_min_scrape_interval_secs m < 30)
          (check_warn ''metrics.min_scrape_interval_secs'' (dashed (dec_string (unat (mfc_min_scrape_interval_secs m))) ''production checklist recommends >= 30s scrape cadence''))
        @ check_if (mfc_quantize_bucket m \<le> 1)
          (check_warn ''metrics.quantize_bucket'' (dashed ''disabled'' ''coarser buckets reduce scrape delta timing resolution''))
        @ check_if (\<not> mfc_suppress_ingress_drop_detail m)
          (check_warn ''metrics.suppress_ingress_drop_detail'' (dashed ''false'' ''IngressRateLimitStats.dropped_frames exported; confirms flood volume'')))"

definition peer_checks :: "NodeConfigFile \<Rightarrow> PeerConfig \<Rightarrow> ConfigCheck list" where
  "peer_checks f peer =
     check_if (hg_enabled (ncf_health_gossip f) \<and> pc_gossip_verifying_key peer = None)
       (check_warn ''peers.gossip_verifying_key'' (''peer '' @ pc_id peer @ '' missing gossip_verifying_key''))
     @ check_if (mode_text_is_noise f \<and> pc_noise_static_public peer = None)
       (check_warn ''peers.noise_static_public'' (''peer '' @ pc_id peer @ '' missing noise_static_public for Noise handshake''))"

definition validate_production_config ::
    "('sk, 'vk) sig_lib \<Rightarrow> (string \<Rightarrow> PersistedRoster option) \<Rightarrow> (ConfigError \<Rightarrow> string) \<Rightarrow> NodeConfigFile \<Rightarrow> ValidationReport" where
  "validate_production_config S fs show_error f =
     \<lparr>report_relay_id = Some (ncf_relay_id f), report_listen = Some (ncf_listen f),
      checks = kem_checks f @ roster_checks S fs show_error f @ exit_checks f @ cover_checks f @ link_checks f @ gossip_checks f @ metrics_checks f
        @ check_if (ncf_peers f = []) (check_warn ''peers'' (dashed ''empty peer table'' ''mix relay needs neighbor links for routing''))
        @ concat (map (peer_checks f) (ncf_peers f))
        @ check_if (length (ncf_relay_id f) \<noteq> 64) (check_error ''relay_id'' ''expected 64 hex chars'')\<rparr>"

section \<open>What passes\<close>

definition no_errors :: "ConfigCheck list \<Rightarrow> bool" where
  "no_errors cs \<longleftrightarrow> (\<forall>c \<in> set cs. severity c \<noteq> CheckError)"

lemma no_errors_simps [simp]:
  "no_errors []" "no_errors (a @ b) \<longleftrightarrow> no_errors a \<and> no_errors b" "no_errors (k # cs) \<longleftrightarrow> severity k \<noteq> CheckError \<and> no_errors cs"
  "no_errors (check_if c k) \<longleftrightarrow> (c \<longrightarrow> severity k \<noteq> CheckError)" "no_errors (concat css) \<longleftrightarrow> (\<forall>cs \<in> set css. no_errors cs)"
  "severity (check_error x m) = CheckError" "severity (check_warn x m) = CheckWarning"
  by (auto simp: no_errors_def check_if_def check_error_def check_warn_def)

lemma report_ok_no_errors: "report_ok r \<longleftrightarrow> no_errors (checks r)"
  by (auto simp: report_ok_def report_errors_def no_errors_def filter_empty_conv)

text \<open>The verdict, with all that only warns left out.\<close>

lemma validate_ok:
  "report_ok (validate_production_config S fs show_error f) \<longleftrightarrow>
     (\<forall>k. ncf_kem f = Some k \<longrightarrow> \<not> allow_plaintext_kem k \<and> \<not> has_any_inline k)
     \<and> (\<forall>c. ncf_roster f = Some c \<longrightarrow> \<not> nrc_allow_unverified_roster c \<and> nrc_authority_pubkeys c \<noteq> [] \<and> nrc_threshold c \<noteq> 0
           \<and> (\<exists>r. node_load_roster S fs c = Inr r))
     \<and> ncf_trace f = None \<and> cfc_enabled (ncf_cover f) \<and> cfc_require (ncf_cover f)
     \<and> \<not> f64_le (lnc_max_cells_per_sec (ncf_link f)) (Fin 0) \<and> lnc_global_max_cells_per_sec (ncf_link f) \<noteq> Some (Fin 0)
     \<and> (lnc_require_ingress_kem_commitment (ncf_link f) \<longrightarrow> ncf_kem_commitment f \<noteq> None)
     \<and> (hg_enabled (ncf_health_gossip f) \<longrightarrow> hg_signing_seed (ncf_health_gossip f) \<noteq> None \<or> hg_signing_key_file (ncf_health_gossip f) \<noteq> None)
     \<and> length (ncf_relay_id f) = 64"
proof -
  have kem: "no_errors (kem_checks f) \<longleftrightarrow> (\<forall>k. ncf_kem f = Some k \<longrightarrow> \<not> allow_plaintext_kem k \<and> \<not> has_any_inline k)"
    by (cases "ncf_kem f") (auto simp: kem_checks_def has_any_inline_def)
  have roster: "no_errors (roster_checks S fs show_error f) \<longleftrightarrow> (\<forall>c. ncf_roster f = Some c \<longrightarrow> \<not> nrc_allow_unverified_roster c
      \<and> nrc_authority_pubkeys c \<noteq> [] \<and> nrc_threshold c \<noteq> 0 \<and> (\<exists>r. node_load_roster S fs c = Inr r))"
    by (cases "ncf_roster f") (auto simp: roster_checks_def split: sum.splits)
  have quiet: "no_errors (metrics_checks f)" "no_errors (peer_checks f p)" for p
    by (simp_all add: metrics_checks_def peer_checks_def Let_def)
  show ?thesis
    unfolding report_ok_no_errors
    by (auto simp: validate_production_config_def kem roster quiet exit_checks_def cover_checks_def link_checks_def gossip_checks_def)
qed

section \<open>What a validated node runs with\<close>

text \<open>What the runtime takes over from the file, for the facts a verdict is about.\<close>

lemma into_runtime_fields:
  assumes "into_runtime E config_path f = Inr rt"
  shows "rt_trace rt = ncf_trace f" "\<exists>cover t. into_bulk_cover (ncf_cover f) = Inr cover \<and> rc_bulk_cover (rt_relay_config rt) = with_terminal t cover"
    "(case ncf_roster f of None \<Rightarrow> Inr None | Some c \<Rightarrow> bind_result (node_load_roster (env_sig E) (env_roster_file E) c) (\<lambda>r. Inr (Some r))) = Inr (rt_roster rt)"
    "ingress_rate_limit (rt_link_bridge_config rt) = ingress_limit (ncf_link f) (ncf_ingress f)"
    "rt_health_gossip rt = ncf_health_gossip f"
  using assms unfolding into_runtime_def bind_result_Inr_iff if_Inl_Inr split_paired_Ex prod.case sum.inject
  by (auto simp: with_bulk_cover_def bridge_config_from_def)

text \<open>A secret that resolves without inline seeds was read from a seed file that only its owner can read.\<close>

definition seeds_from_file :: "('xs, 'ms, 'mp, 'r, 'sk, 'vk) node_env \<Rightarrow> rpath \<Rightarrow> KemFileConfig \<Rightarrow> KemSeeds \<Rightarrow> bool" where
  "seeds_from_file E config_path k seeds \<longleftrightarrow>
     (\<exists>stored m plain. host_files (env_host E) (kem_seed_file_path config_path k) = Some (stored, m) \<and> mode_safe (env_build E) m
        \<and> unprotect_seed_bytes (env_build E) stored (env_host E) = Inr plain \<and> seeds_from_toml (env_toml E) plain = Inr seeds)"

lemma resolve_from_file:
  assumes "resolve_kem_seeds (env_toml E) (env_build E) (env_host E) p k = Inr seeds" "\<not> has_any_inline k"
  shows "seeds_from_file E p k seeds"
proof -
  let ?h = "env_host E" and ?sp = "kem_seed_file_path p k"
  obtain stored m where f: "host_files ?h ?sp = Some (stored, m)"
    using assms by (auto simp: resolve_kem_seeds_def Let_def split: if_splits)
  note r = assms(1)[unfolded resolve_kem_seeds_def Let_def mode_check[OF f]]
  have m: "mode_safe (env_build E) m" using r assms(2) f by (auto split: if_splits)
  then have "fs_read ?sp ?h = Inr stored" and
    "(case unprotect_seed_bytes (env_build E) stored ?h of Inl e \<Rightarrow> Inl (KemProtect e)
      | Inr plain \<Rightarrow> if \<not> is_utf8 plain then Inl (KemProtect ''kem seed plaintext is not UTF-8'')
          else (case seeds_from_toml (env_toml E) plain of Inl e \<Rightarrow> Inl (ConfigToml e) | Inr seeds \<Rightarrow> Inr seeds)) = Inr seeds"
    using r assms(2) f by (auto simp: fs_read_def bind_result_Inr_iff split: option.splits)
  then show ?thesis using f m unfolding seeds_from_file_def by (auto split: sum.splits if_splits)
qed

lemma into_runtime_secret:
  assumes "into_runtime E config_path f = Inr rt"
  shows "\<exists>k seeds x d z. ncf_kem f = Some k \<and> resolve_kem_seeds (env_toml E) (env_build E) (env_host E) config_path k = Inr seeds
    \<and> node_parse_hex32 (seed_x25519 seeds) = Inr x \<and> node_parse_hex32 (seed_mlkem_d seeds) = Inr d
    \<and> node_parse_hex32 (seed_mlkem_z seeds) = Inr z \<and> rt_kem_secret rt = fst (env_generate E x d z)"
proof -
  have "resolve_secret E config_path f = Inr (rt_kem_secret rt)"
    using assms unfolding into_runtime_def bind_result_Inr_iff if_Inl_Inr split_paired_Ex prod.case sum.inject by auto
  then show ?thesis by (auto simp: resolve_secret_def bind_result_Inr_iff ok_or_def split: option.splits)
qed

text \<open>A roster with its consortium: as many distinct authorities of the file as its threshold says signed every admission.\<close>

lemma node_roster_admissions:
  assumes "node_consortium S c = Inr (Some con)" "load_persisted S p (Some con) = Inr r" "is_admitted r i"
  shows "\<exists>adm. get_threshold_signed r i = Some adm
    \<and> nrc_threshold c \<le> card {vk \<in> set (authorities con). signed_by S adm vk}"
proof -
  obtain keys where "from_raw_pubkeys S (nrc_threshold c) keys = Inr con"
  proof -
    obtain keys where "(case from_raw_pubkeys S (nrc_threshold c) keys of Inl e \<Rightarrow> Inl (ConfigRoster e) | Inr x \<Rightarrow> Inr (Some x)) = Inr (Some con)"
      using assms(1) unfolding node_consortium_def by (auto simp: bind_result_Inr_iff split: if_splits)
    then show thesis using that by (cases "from_raw_pubkeys S (nrc_threshold c) keys") auto
  qed
  then obtain auths where "consortium_new S (nrc_threshold c) auths = Inr con"
    by (auto simp: from_raw_pubkeys_def bind_result_Inr_iff)
  note wf = consortium_new_wf[OF this]
  obtain adm where "get_threshold_signed r i = Some adm" "verify_threshold S adm con = Inr ()"
    using load_persisted_verified[OF assms(2,3)] by blast
  then show ?thesis using verify_threshold_vouched[OF wf(1)] wf(2) by (auto simp: Roster.vouched_def)
qed

text \<open>
  C38. A configuration that passes validation and is accepted at start runs without the lab settings. Its secret is generated from the seeds of
  the seed file, which on Unix only its owner can read. It has a roster exactly if the file has a roster section (it need not have one);
  then the threshold is not zero, and each relay of the roster comes with an admission that at least that many distinct configured authorities
  signed (the record of the entry beside it is not signed and need not agree, see \<open>load_accepts_forged_record\<close>). Cover is on and required,
  nothing is traced, gossip has a signing key, and the ingress rate limit is active, provided that no ingress section sets a
  rate of its own and the rate is not NaN, which validation lets through.
\<close>

theorem validated_runs_production:
  assumes "report_ok (validate_production_config (env_sig E) (env_roster_file E) show_error f)" "into_runtime E config_path f = Inr rt"
  shows "(\<exists>k seeds x d z. ncf_kem f = Some k \<and> \<not> has_any_inline k \<and> \<not> allow_plaintext_kem k \<and> seeds_from_file E config_path k seeds
        \<and> node_parse_hex32 (seed_x25519 seeds) = Inr x \<and> node_parse_hex32 (seed_mlkem_d seeds) = Inr d
        \<and> node_parse_hex32 (seed_mlkem_z seeds) = Inr z \<and> rt_kem_secret rt = fst (env_generate E x d z))
    \<and> (case ncf_roster f of None \<Rightarrow> rt_roster rt = None
       | Some c \<Rightarrow> (\<exists>r con p. rt_roster rt = Some r \<and> nrc_threshold c \<noteq> 0 \<and> nrc_authority_pubkeys c \<noteq> []
           \<and> node_consortium (env_sig E) c = Inr (Some con) \<and> load_persisted (env_sig E) p (Some con) = Inr r
           \<and> (\<forall>i. is_admitted r i \<longrightarrow> (\<exists>adm. get_threshold_signed r i = Some adm
                \<and> nrc_threshold c \<le> card {vk \<in> set (authorities con). signed_by (env_sig E) adm vk}))))
    \<and> bc_enabled (rc_bulk_cover (rt_relay_config rt)) \<and> bc_require (rc_bulk_cover (rt_relay_config rt))
    \<and> rt_trace rt = None
    \<and> (hg_enabled (rt_health_gossip rt) \<longrightarrow> hg_signing_seed (rt_health_gossip rt) \<noteq> None \<or> hg_signing_key_file (rt_health_gossip rt) \<noteq> None)
    \<and> ((\<forall>i. ncf_ingress f = Some i \<longrightarrow> ing_max_cells_per_sec i = None)
        \<and> max_cells_per_sec (ingress_rate_limit (rt_link_bridge_config rt)) \<noteq> NaN
        \<longrightarrow> rate_limit_is_active (ingress_rate_limit (rt_link_bridge_config rt)))"
proof -
  note ok = assms(1)[unfolded validate_ok]
  note fields = into_runtime_fields[OF assms(2)]
  obtain k seeds x d z where k: "ncf_kem f = Some k" "resolve_kem_seeds (env_toml E) (env_build E) (env_host E) config_path k = Inr seeds"
    "node_parse_hex32 (seed_x25519 seeds) = Inr x" "node_parse_hex32 (seed_mlkem_d seeds) = Inr d"
    "node_parse_hex32 (seed_mlkem_z seeds) = Inr z" "rt_kem_secret rt = fst (env_generate E x d z)"
    using into_runtime_secret[OF assms(2)] by blast
  have external: "\<not> has_any_inline k" "\<not> allow_plaintext_kem k" using ok k(1) by auto
  have kem: "\<exists>k seeds x d z. ncf_kem f = Some k \<and> \<not> has_any_inline k \<and> \<not> allow_plaintext_kem k \<and> seeds_from_file E config_path k seeds
        \<and> node_parse_hex32 (seed_x25519 seeds) = Inr x \<and> node_parse_hex32 (seed_mlkem_d seeds) = Inr d
        \<and> node_parse_hex32 (seed_mlkem_z seeds) = Inr z \<and> rt_kem_secret rt = fst (env_generate E x d z)"
    using k external resolve_from_file[OF k(2) external(1)] by blast
  have roster: "case ncf_roster f of None \<Rightarrow> rt_roster rt = None
       | Some c \<Rightarrow> (\<exists>r con p. rt_roster rt = Some r \<and> nrc_threshold c \<noteq> 0 \<and> nrc_authority_pubkeys c \<noteq> []
           \<and> node_consortium (env_sig E) c = Inr (Some con) \<and> load_persisted (env_sig E) p (Some con) = Inr r
           \<and> (\<forall>i. is_admitted r i \<longrightarrow> (\<exists>adm. get_threshold_signed r i = Some adm
                \<and> nrc_threshold c \<le> card {vk \<in> set (authorities con). signed_by (env_sig E) adm vk})))"
  proof (cases "ncf_roster f")
    case None
    then show ?thesis using fields(3) by simp
  next
    case (Some c)
    then obtain r where r: "rt_roster rt = Some r" "node_load_roster (env_sig E) (env_roster_file E) c = Inr r"
      using fields(3) by (auto simp: bind_result_Inr_iff dest: sym)
    have c: "nrc_threshold c \<noteq> 0" "nrc_authority_pubkeys c \<noteq> []" using ok Some by auto
    obtain con p where con: "node_consortium (env_sig E) c = Inr (Some con)" "load_persisted (env_sig E) p (Some con) = Inr r"
      using node_load_roster_ok[OF r(2)] c(2) by auto
    then show ?thesis using Some r(1) c node_roster_admissions[OF con] by auto
  qed
  have cover: "bc_enabled (rc_bulk_cover (rt_relay_config rt)) \<and> bc_require (rc_bulk_cover (rt_relay_config rt))"
    using fields(2) ok by (auto simp: into_bulk_cover_def bind_result_Inr_iff with_terminal_def with_cover_onion_terminal_def split: option.split)
  have limit: "rate_limit_is_active (ingress_rate_limit (rt_link_bridge_config rt))"
    if "\<forall>i. ncf_ingress f = Some i \<longrightarrow> ing_max_cells_per_sec i = None" "max_cells_per_sec (ingress_rate_limit (rt_link_bridge_config rt)) \<noteq> NaN"
  proof -
    have rate: "max_cells_per_sec (ingress_limit (ncf_link f) (ncf_ingress f)) = lnc_max_cells_per_sec (ncf_link f)"
      using that(1) by (auto simp: ingress_limit_def Let_def split: option.split)
    have "f64_lt (Fin 0) x" if "\<not> f64_le x (Fin 0)" "x \<noteq> NaN" for x using that by (cases x) auto
    then show ?thesis using that(2) ok by (simp add: fields(4) rate_limit_is_active_def rate)
  qed
  show ?thesis using kem roster cover limit ok by (simp only: fields(1,5)) blast
qed

section \<open>A configuration that passes\<close>

definition toy_seeds :: KemSeeds where
  "toy_seeds = \<lparr>seed_x25519 = toy_id, seed_mlkem_d = toy_id, seed_mlkem_z = toy_id\<rparr>"

definition toy_seed_text :: bytes where
  "toy_seed_text = (case seeds_to_toml toy_toml toy_seeds of Inr t \<Rightarrow> t | Inl _ \<Rightarrow> [])"

definition toy_seeded_host :: host where
  "toy_seeded_host = toy_host\<lparr>host_files := [(True, [''etc'', ''kem.seeds'']) \<mapsto> (toy_seed_text, OWNER_ONLY)]\<rparr>"

definition toy_file_config :: NodeConfigFile where
  "toy_file_config = toy_node_config\<lparr>ncf_kem := Some kem_file_config_default\<rparr>"

lemma toy_validated: "report_ok (validate_production_config S fs show_error toy_file_config)"
proof -
  have "length toy_id = 64" by (simp add: toy_id_def length_hex_encode)
  moreover have "\<not> f64_le DEFAULT_INGRESS_MAX_CELLS_PER_SEC (Fin 0)" "DEFAULT_GLOBAL_MAX_CELLS_PER_SEC \<noteq> Fin 0" by (code_simp, code_simp)
  ultimately show ?thesis
    unfolding validate_ok
    by (simp add: toy_file_config_def toy_node_config_def kem_file_config_default_def has_any_inline_def cover_file_default_def
        link_net_default_def health_gossip_default_def)
qed

lemma toy_seeded_accepted: "\<exists>rt. into_runtime (toy_env\<lparr>env_host := toy_seeded_host\<rparr>) (True, [''etc'', ''node.toml'']) toy_file_config = Inr rt"
proof -
  obtain t where t: "seeds_to_toml toy_toml toy_seeds = Inr t" "seeds_from_toml toy_toml t = Inr toy_seeds" "is_utf8 t" "\<not> is_dpapi_protected t" "\<not> is_keyring_protected t"
    using toy_toml_ok unfolding toml_ok_def by blast
  have files: "host_files toy_seeded_host (True, [''etc'', ''kem.seeds'']) = Some (t, OWNER_ONLY)" "host_read_fault toy_seeded_host p = None" for p
    by (simp_all add: toy_seeded_host_def toy_seed_text_def t(1)) (simp add: toy_host_def)
  have plain: "unprotect_seed_bytes UnixKeyring t toy_seeded_host = Inr t" using t(4,5) by (simp add: unprotect_seed_bytes_def)
  have "\<not> has_any_inline kem_file_config_default" by (simp add: has_any_inline_def kem_file_config_default_def)
  then have seeds: "resolve_kem_seeds toy_toml UnixKeyring toy_seeded_host (True, [''etc'', ''node.toml'']) kem_file_config_default = Inr toy_seeds"
    using resolve_stored[OF _ toy_start(4) files plain t(3,2)] mode_safe_owner_only by simp
  show ?thesis
    unfolding toy_file_config_def
    using toy_accepts[where k = "Some kem_file_config_default" and h = toy_seeded_host and p = "(True, [''etc'', ''node.toml''])"]
      seeds by (simp add: resolve_secret_def toy_env_def toy_seeds_def) blast
qed

theorem validated_runs_production_witness:
  "\<exists>rt. into_runtime (toy_env\<lparr>env_host := toy_seeded_host\<rparr>) (True, [''etc'', ''node.toml'']) toy_file_config = Inr rt
    \<and> bc_require (rc_bulk_cover (rt_relay_config rt)) \<and> rt_trace rt = None"
proof -
  obtain rt where rt: "into_runtime (toy_env\<lparr>env_host := toy_seeded_host\<rparr>) (True, [''etc'', ''node.toml'']) toy_file_config = Inr rt"
    using toy_seeded_accepted by blast
  show ?thesis using rt validated_runs_production[OF toy_validated[of _ _ "\<lambda>_. []"] rt] by blast
qed

section \<open>What validation lets through\<close>

text \<open>A rate of zero in the ingress section, or no global rate: validation passes and no limit is active.\<close>

lemma validated_without_limit:
  fixes S :: "('sk, 'vk) sig_lib"
  defines "f \<equiv> toy_file_config\<lparr>ncf_ingress := Some \<lparr>ing_link_key = toy_id, ing_max_cells_per_sec = Some (Fin 0), ing_burst = None,
      ing_global_max_cells_per_sec = Some (Fin 0)\<rparr>\<rparr>"
  shows "report_ok (validate_production_config S fs show_error f) \<and> \<not> rate_limit_is_active (ingress_limit (ncf_link f) (ncf_ingress f))"
proof -
  have "report_ok (validate_production_config S fs show_error f) = report_ok (validate_production_config S fs show_error toy_file_config)"
    unfolding validate_ok by (simp add: f_def)
  then show ?thesis using toy_validated by (simp add: f_def rate_limit_is_active_def ingress_limit_def Let_def)
qed

text \<open>The other names of the legacy handshake are not warned about.\<close>

lemma legacy_alias_unnoticed:
  fixes f :: NodeConfigFile
  defines "g \<equiv> f\<lparr>ncf_link := (ncf_link f)\<lparr>lnc_handshake := ''psk''\<rparr>\<rparr>"
  shows "node_parse_link_handshake_mode (lnc_handshake (ncf_link g)) = Inr LegacyPsk
    \<and> ''link.handshake'' \<notin> set (map field (link_checks g))"
proof -
  have "node_parse_link_handshake_mode ''psk'' = Inr LegacyPsk" by code_simp
  moreover have "map ascii_lower ''psk'' \<noteq> ''legacy_psk''" "map ascii_lower ''psk'' \<noteq> ''auto''" "map ascii_lower ''psk'' \<noteq> ''noise''" by (code_simp)+
  ultimately show ?thesis
    by (auto simp: g_def link_checks_def check_if_def check_error_def check_warn_def mode_text_is_noise_def)
qed

end
