(* ===== verification/Zk_Reputation.thy ===== *)
theory Zk_Reputation
  imports Nullifier Kem Float64
begin

text \<open>
  \<^verbatim>\<open>crates/aegis-trust/src/zk.rs\<close>: proofs that a score reaches a threshold, and their anonymous presentation. The range proofs of the
  crate \<open>bulletproofs\<close> are an argument: a transcript is the list of the labelled messages fed to it. The library is called with 16
  bits and generators for 64, a size it supports, so its \<open>expect\<close> does not fire.
\<close>

section \<open>Range proofs\<close>

type_synonym transcript = "(bytes \<times> bytes) list"

record ('rp, 'r) zk_lib =
  prove_single :: "transcript \<Rightarrow> u64 \<Rightarrow> nat \<Rightarrow> 'r \<Rightarrow> ('rp \<times> bytes) \<times> 'r"
  verify_single :: "'rp \<Rightarrow> transcript \<Rightarrow> bytes \<Rightarrow> nat \<Rightarrow> bool"
  range_to_bytes :: "'rp \<Rightarrow> bytes"
  range_from_bytes :: "bytes \<Rightarrow> 'rp option"

text \<open>Documented behaviour: an honest proof of a value in range verifies, proofs serialise, and no bytes are no proof.\<close>

definition zk_laws :: "('rp, 'r) zk_lib \<Rightarrow> bool" where
  "zk_laws Z \<longleftrightarrow>
     (\<forall>t v n r p c r'. unat v < 2 ^ n \<longrightarrow> prove_single Z t v n r = ((p, c), r') \<longrightarrow> verify_single Z p t c n)
     \<and> (\<forall>t v n r. length (snd (fst (prove_single Z t v n r))) = 32)
     \<and> (\<forall>p. range_from_bytes Z (range_to_bytes Z p) = Some p) \<and> range_from_bytes Z [] = None"

definition SCORE_SCALE :: u64 where "SCORE_SCALE = 10000"
definition RANGE_BITS :: nat where "RANGE_BITS = 16"
definition TRANSCRIPT_LABEL :: bytes where "TRANSCRIPT_LABEL = ascii ''aegis-trust/reputation-range-proof/v1''"
definition NULLIFIER_DOMAIN :: bytes where "NULLIFIER_DOMAIN = ascii ''aegis-anon-rep-nullifier-v1''"

definition scale_reputation :: "f64 \<Rightarrow> u64" where
  "scale_reputation v = of_nat (f64_to_u64 (f64_round (f64_mul (f64_clamp (Fin 0) (Fin 1) v) (Fin (of_nat (unat SCORE_SCALE))))))"

definition append_threshold :: "transcript \<Rightarrow> u64 \<Rightarrow> transcript" where
  "append_threshold t threshold_scaled = t @ [(ascii ''threshold_scaled'', u64_to_le threshold_scaled)]"

definition transcript_new :: transcript where
  "transcript_new = [(TRANSCRIPT_LABEL, [])]"

record BulletproofsProof =
  bp_commitment :: bytes
  bp_range_proof :: bytes

definition bulletproofs_prove :: "('rp, 'r) zk_lib \<Rightarrow> f64 \<Rightarrow> f64 \<Rightarrow> 'r \<Rightarrow> BulletproofsProof \<times> 'r" where
  "bulletproofs_prove Z score threshold rng =
     (let score_scaled = scale_reputation score; threshold_scaled = scale_reputation threshold in
      if score_scaled < threshold_scaled then (\<lparr>bp_commitment = replicate 32 0, bp_range_proof = []\<rparr>, rng)
      else let ((range_proof, commitment), rng) =
               prove_single Z (append_threshold transcript_new threshold_scaled) (score_scaled - threshold_scaled) RANGE_BITS rng
           in (\<lparr>bp_commitment = commitment, bp_range_proof = range_to_bytes Z range_proof\<rparr>, rng))"

text \<open>A commitment has the type of 32 bytes, which \<open>CompressedRistretto::from_slice\<close> accepts.\<close>

definition bulletproofs_verify :: "('rp, 'r) zk_lib \<Rightarrow> BulletproofsProof \<Rightarrow> f64 \<Rightarrow> bool" where
  "bulletproofs_verify Z proof threshold =
     (let threshold_scaled = scale_reputation threshold in
      if length (bp_commitment proof) \<noteq> 32 then False
      else case range_from_bytes Z (bp_range_proof proof) of
        None \<Rightarrow> False
      | Some p \<Rightarrow> verify_single Z p (append_threshold transcript_new threshold_scaled) (bp_commitment proof) RANGE_BITS)"

definition plaintext_prove :: "f64 \<Rightarrow> f64 \<Rightarrow> f64" where
  "plaintext_prove score threshold = score"

definition plaintext_verify :: "f64 \<Rightarrow> f64 \<Rightarrow> bool" where
  "plaintext_verify revealed_score threshold = f64_le threshold revealed_score"

section \<open>Anonymous presentation\<close>

record AnonymousReputationPresentation =
  pres_proof :: BulletproofsProof
  score_commitment :: bytes

definition present_anonymous :: "('rp, 'r) zk_lib \<Rightarrow> f64 \<Rightarrow> f64 \<Rightarrow> 'r \<Rightarrow> AnonymousReputationPresentation \<times> 'r" where
  "present_anonymous Z score threshold rng =
     (let (proof, rng) = bulletproofs_prove Z score threshold rng
      in (\<lparr>pres_proof = proof, score_commitment = bp_commitment proof\<rparr>, rng))"

definition verify_anonymous :: "('rp, 'r) zk_lib \<Rightarrow> AnonymousReputationPresentation \<Rightarrow> f64 \<Rightarrow> bool" where
  "verify_anonymous Z p threshold =
     (if score_commitment p \<noteq> bp_commitment (pres_proof p) then False else bulletproofs_verify Z (pres_proof p) threshold)"

definition verify_anonymous_and_spend ::
    "('rp, 'r) zk_lib \<Rightarrow> NullifierRegistry \<Rightarrow> AnonymousReputationPresentation \<Rightarrow> f64 \<Rightarrow> u64 \<Rightarrow> ReputationNullifier
      \<Rightarrow> (NullifierError, bool) result \<times> NullifierRegistry" where
  "verify_anonymous_and_spend Z registry p threshold epoch nullifier =
     (if \<not> verify_anonymous Z p threshold then (Inr False, registry)
      else case try_register registry epoch nullifier of
        (Inl e, registry) \<Rightarrow> (Inl e, registry)
      | (Inr _, registry) \<Rightarrow> (Inr True, registry))"

definition derive_reputation_nullifier :: "(bytes \<Rightarrow> bytes) \<Rightarrow> bytes \<Rightarrow> u64 \<Rightarrow> bytes \<Rightarrow> ReputationNullifier" where
  "derive_reputation_nullifier H relay_id epoch blinding = H (NULLIFIER_DOMAIN @ relay_id @ u64_to_le epoch @ blinding)"

section \<open>Scaling\<close>

lemma scale_fin:
  assumes "0 \<le> q" "q \<le> 1"
  shows "unat (scale_reputation (Fin q)) = nat (round_half_away (fl (q * 10000)))" "fl (q * 10000) \<le> 10000" "0 \<le> fl (q * 10000)"
proof -
  have s: "(of_nat (unat SCORE_SCALE) :: rat) = 10000" by (simp add: SCORE_SCALE_def)
  have e: "fl 10000 = 10000" using representable_int[of 10000] fl_representable by fastforce
  have q: "0 \<le> q * 10000" "q * 10000 \<le> 10000" using assms by simp_all
  show r: "fl (q * 10000) \<le> 10000" "0 \<le> fl (q * 10000)" using fl_mono[OF q(2)] fl_nonneg[OF q(1)] e by simp_all
  have m: "f64_mul (Fin q) (Fin 10000) = Fin (fl (q * 10000))"
    using f64_of_rat_small[where b = 10000 and q = "q * 10000"] representable_int[of 10000] q by simp
  have c: "f64_clamp (Fin 0) (Fin 1) (Fin q) = Fin q" using assms by (simp add: f64_clamp_def)
  have h: "0 \<le> round_half_away (fl (q * 10000))" "round_half_away (fl (q * 10000)) \<le> 10000"
    using r by (auto simp: round_half_away_def floor_le_iff ceiling_le_iff)
  have u: "f64_to_u64 (f64_round (Fin (fl (q * 10000)))) = nat (round_half_away (fl (q * 10000)))" using h by simp
  have "nat (round_half_away (fl (q * 10000))) < 2 ^ 64" using h by simp
  then show "unat (scale_reputation (Fin q)) = nat (round_half_away (fl (q * 10000)))"
    unfolding scale_reputation_def c s m u by (simp add: unat_of_nat)
qed

text \<open>The rational a value is clamped to.\<close>

fun unit_part :: "f64 \<Rightarrow> rat" where
  "unit_part (Fin a) = max 0 (min 1 a)"
| "unit_part (Inf s) = (if s then 0 else 1)"
| "unit_part NaN = 0"

lemma unit_part_range: "0 \<le> unit_part v" "unit_part v \<le> 1"
  by (cases v; simp)+

lemma unit_part_mono: "f64_le v w \<Longrightarrow> unit_part v \<le> unit_part w"
  by (cases v; cases w) auto

lemma scale_unit: "scale_reputation v = scale_reputation (Fin (unit_part v))"
proof (cases v)
  case NaN
  have "unat (scale_reputation (Fin 0)) = 0" using scale_fin(1)[of 0] by (simp add: round_half_away_def)
  moreover have "scale_reputation NaN = 0" by (simp add: scale_reputation_def f64_clamp_def)
  ultimately show ?thesis by (simp add: NaN unat_eq_0)
next
  case (Fin a)
  have "f64_clamp (Fin 0) (Fin 1) v = f64_clamp (Fin 0) (Fin 1) (Fin (unit_part v))" by (auto simp: Fin f64_clamp_def max_def min_def)
  then show ?thesis by (simp only: scale_reputation_def)
next
  case (Inf s)
  have "f64_clamp (Fin 0) (Fin 1) v = f64_clamp (Fin 0) (Fin 1) (Fin (unit_part v))" by (auto simp: Inf f64_clamp_def)
  then show ?thesis by (simp only: scale_reputation_def)
qed

lemma scale_value: "unat (scale_reputation v) = nat (round_half_away (fl (unit_part v * 10000)))"
  unfolding scale_unit[of v] by (rule scale_fin(1)[OF unit_part_range])

lemma round_half_away_mono: "0 \<le> p \<Longrightarrow> p \<le> q \<Longrightarrow> round_half_away p \<le> round_half_away q"
  by (simp add: round_half_away_def floor_mono)

lemma scale_mono: "f64_le v w \<Longrightarrow> scale_reputation v \<le> scale_reputation w"
  unfolding word_le_nat_alt scale_value
  by (intro nat_mono round_half_away_mono fl_mono mult_right_mono unit_part_mono scale_fin(3)[OF unit_part_range]) simp_all

lemma scale_bound: "unat (scale_reputation v) \<le> 10000"
proof -
  have "round_half_away (fl (unit_part v * 10000)) \<le> round_half_away 10000"
    using scale_fin(2,3)[OF unit_part_range] by (rule round_half_away_mono[rotated])
  moreover have "round_half_away 10000 = 10000" by (simp add: round_half_away_def floor_eq_iff)
  ultimately show ?thesis unfolding scale_value by simp
qed

section \<open>Honest presentations verify\<close>

lemma present_verifies:
  assumes "zk_laws Z" "present_anonymous Z v threshold rng = (p, rng')"
  shows "verify_anonymous Z p threshold \<longleftrightarrow> scale_reputation threshold \<le> scale_reputation v"
    "score_commitment p = bp_commitment (pres_proof p)" "length (score_commitment p) = 32"
proof -
  let ?s = "scale_reputation v" and ?t = "scale_reputation threshold" and ?tr = "append_threshold transcript_new (scale_reputation threshold)"
  obtain rp c rng1 where pr: "prove_single Z ?tr (?s - ?t) RANGE_BITS rng = ((rp, c), rng1)" by (metis prod.exhaust)
  have len: "length c = 32" using assms(1) pr unfolding zk_laws_def by (metis fst_conv snd_conv)
  have range: "range_from_bytes Z (range_to_bytes Z rp) = Some rp" "range_from_bytes Z [] = None" using assms(1) by (simp_all add: zk_laws_def)
  have verified: "verify_single Z rp ?tr c RANGE_BITS" if "?t \<le> ?s"
  proof -
    have "unat (?s - ?t) \<le> 10000" using scale_bound[of v] unat_sub[OF that] by simp
    then have "unat (?s - ?t) < 2 ^ RANGE_BITS" by (simp add: RANGE_BITS_def)
    then show ?thesis using assms(1) pr unfolding zk_laws_def by blast
  qed
  show "verify_anonymous Z p threshold \<longleftrightarrow> ?t \<le> ?s" "score_commitment p = bp_commitment (pres_proof p)" "length (score_commitment p) = 32"
    using assms(2) pr len range verified
    by (auto simp: present_anonymous_def bulletproofs_prove_def verify_anonymous_def bulletproofs_verify_def Let_def split: if_splits)
qed

text \<open>What a spend does to the registry.\<close>

lemma spend_result:
  assumes "registry_wf r"
  shows "fst (verify_anonymous_and_spend Z r p threshold epoch n)
      = (if \<not> verify_anonymous Z p threshold then Inr False else if is_spent r epoch n then Inl (AlreadyUsed epoch) else Inr True)"
    "is_spent (snd (verify_anonymous_and_spend Z r p threshold epoch n)) e m
      \<longleftrightarrow> is_spent r e m \<or> (verify_anonymous Z p threshold \<and> e = epoch \<and> m = n)"
    "registry_wf (snd (verify_anonymous_and_spend Z r p threshold epoch n))"
  using try_register_facts[OF assms, of epoch n] assms
  by (auto simp: verify_anonymous_and_spend_def split: prod.splits sum.splits if_splits)

text \<open>A small library: a proof is the pair of its transcript and its value.\<close>

definition toy_zk :: "(bytes, nat) zk_lib" where
  "toy_zk = \<lparr>prove_single = (\<lambda>t v n r. ((u64_to_le v @ concat (map snd t), replicate 32 (of_nat r)), r + 1)),
     verify_single = (\<lambda>p t c n. unat (u64_from_le (take 8 p)) < 2 ^ n \<and> drop 8 p = concat (map snd t)),
     range_to_bytes = (\<lambda>p. 1 # p), range_from_bytes = (\<lambda>bs. if bs = [] then None else Some (tl bs))\<rparr>"

lemma toy_zk_laws: "zk_laws toy_zk"
  unfolding zk_laws_def toy_zk_def by auto

end
