(* ===== verification/Anon_Issuer.thy ===== *)
theory Anon_Issuer
  imports Zk_Reputation Signatures
begin

text \<open>
  \<^verbatim>\<open>crates/aegis-trust/src/anon_issuer.rs\<close>: the issuer of anonymous credentials and their verifiers. An issuer is its signing key;
  the file of its public parameters is the record that serde writes and reads.
\<close>

section \<open>Data\<close>

datatype IssuerError =
    ScoreBelowBand f64 f64
  | InvalidIssuerSignature
  | IssuerMismatch
  | CommitmentMismatch
  | PresentationInvalid
  | IssuerUnsupportedVersion u32
  | MalformedIssuerKey
  | IssuerNullifier NullifierError

definition ISSUER_PARAMS_VERSION :: u32 where "ISSUER_PARAMS_VERSION = 1"
definition ISSUER_PROVIDER_ID :: string where "ISSUER_PROVIDER_ID = ''software-v1''"
definition ISSUER_SIG_DOMAIN :: bytes where "ISSUER_SIG_DOMAIN = ascii ''aegis-anon-cred-issuer-v1''"

record AnonymousCredentialIssuerParams =
  params_version :: u32
  params_provider :: string
  params_verifying_key :: bytes

record IssuedAnonymousCredential =
  cred_epoch :: u64
  score_band_threshold :: f64
  presentation :: AnonymousReputationPresentation
  cred_nullifier :: ReputationNullifier
  issuer_pubkey :: bytes
  issuer_signature :: bytes

record BlindedIssueRequest =
  req_epoch :: u64
  req_score_band_threshold :: f64
  req_presentation :: AnonymousReputationPresentation
  req_nullifier :: ReputationNullifier

definition params_key :: "('sk, 'vk) sig_lib \<Rightarrow> AnonymousCredentialIssuerParams \<Rightarrow> (IssuerError, 'vk) result" where
  "params_key S params = ok_or (ed_from_bytes S (params_verifying_key params)) MalformedIssuerKey"

definition load_params :: "('sk, 'vk) sig_lib \<Rightarrow> AnonymousCredentialIssuerParams \<Rightarrow> (IssuerError, AnonymousCredentialIssuerParams) result" where
  "load_params S params =
     (if params_version params \<noteq> ISSUER_PARAMS_VERSION then Inl (IssuerUnsupportedVersion (params_version params))
      else bind_result (params_key S params) (\<lambda>_. Inr params))"

section \<open>Signing\<close>

definition canonical_binding :: "u64 \<Rightarrow> f64 \<Rightarrow> bytes \<Rightarrow> ReputationNullifier \<Rightarrow> bytes" where
  "canonical_binding epoch threshold commitment nullifier =
     ISSUER_SIG_DOMAIN @ u64_to_le epoch @ u64_to_le (scale_reputation threshold) @ commitment @ nullifier"

definition issuer_from_seed :: "('sk, 'vk) sig_lib \<Rightarrow> bytes \<Rightarrow> 'sk" where
  "issuer_from_seed S seed = ed_from_seed S seed"

definition public_params :: "('sk, 'vk) sig_lib \<Rightarrow> 'sk \<Rightarrow> AnonymousCredentialIssuerParams" where
  "public_params S sk = \<lparr>params_version = ISSUER_PARAMS_VERSION, params_provider = ISSUER_PROVIDER_ID,
     params_verifying_key = ed_to_bytes S (ed_verifying_key S sk)\<rparr>"

definition sign_binding :: "('sk, 'vk) sig_lib \<Rightarrow> 'sk \<Rightarrow> u64 \<Rightarrow> f64 \<Rightarrow> bytes \<Rightarrow> ReputationNullifier \<Rightarrow> bytes" where
  "sign_binding S sk epoch threshold commitment nullifier = ed_sign S sk (canonical_binding epoch threshold commitment nullifier)"

definition issue ::
    "('sk, 'vk) sig_lib \<Rightarrow> ('rp, 'r) zk_lib \<Rightarrow> (bytes \<Rightarrow> bytes) \<Rightarrow> 'sk \<Rightarrow> f64 \<Rightarrow> f64 \<Rightarrow> bytes \<Rightarrow> u64 \<Rightarrow> bytes \<Rightarrow> 'r
      \<Rightarrow> (IssuerError, IssuedAnonymousCredential) result \<times> 'r" where
  "issue S Z H sk score threshold relay_id epoch blinding rng =
     (if f64_lt score threshold then (Inl (ScoreBelowBand score threshold), rng)
      else let (p, rng) = present_anonymous Z score threshold rng;
               n = derive_reputation_nullifier H relay_id epoch blinding
           in (Inr \<lparr>cred_epoch = epoch, score_band_threshold = threshold, presentation = p, cred_nullifier = n,
                    issuer_pubkey = ed_to_bytes S (ed_verifying_key S sk),
                    issuer_signature = sign_binding S sk epoch threshold (score_commitment p) n\<rparr>, rng))"

definition build_blinded_request ::
    "('rp, 'r) zk_lib \<Rightarrow> (bytes \<Rightarrow> bytes) \<Rightarrow> f64 \<Rightarrow> f64 \<Rightarrow> bytes \<Rightarrow> u64 \<Rightarrow> bytes \<Rightarrow> 'r \<Rightarrow> (IssuerError, BlindedIssueRequest) result \<times> 'r" where
  "build_blinded_request Z H score threshold relay_id epoch blinding rng =
     (if f64_lt score threshold then (Inl (ScoreBelowBand score threshold), rng)
      else let (p, rng) = present_anonymous Z score threshold rng
           in (Inr \<lparr>req_epoch = epoch, req_score_band_threshold = threshold, req_presentation = p,
                    req_nullifier = derive_reputation_nullifier H relay_id epoch blinding\<rparr>, rng))"

definition issue_from_blinded_request ::
    "('sk, 'vk) sig_lib \<Rightarrow> ('rp, 'r) zk_lib \<Rightarrow> 'sk \<Rightarrow> BlindedIssueRequest \<Rightarrow> (IssuerError, IssuedAnonymousCredential) result" where
  "issue_from_blinded_request S Z sk q =
     (if score_commitment (req_presentation q) \<noteq> bp_commitment (pres_proof (req_presentation q)) then Inl CommitmentMismatch
      else if \<not> verify_anonymous Z (req_presentation q) (req_score_band_threshold q) then Inl PresentationInvalid
      else Inr \<lparr>cred_epoch = req_epoch q, score_band_threshold = req_score_band_threshold q, presentation = req_presentation q,
                cred_nullifier = req_nullifier q, issuer_pubkey = ed_to_bytes S (ed_verifying_key S sk),
                issuer_signature = sign_binding S sk (req_epoch q) (req_score_band_threshold q)
                  (score_commitment (req_presentation q)) (req_nullifier q)\<rparr>)"

definition rotate_epoch :: "NullifierRegistry \<Rightarrow> u64 \<Rightarrow> NullifierRegistry" where
  "rotate_epoch registry old_epoch = forget_epoch registry old_epoch"

section \<open>Verifying\<close>

definition verify_issuer_binding ::
    "('sk, 'vk) sig_lib \<Rightarrow> AnonymousCredentialIssuerParams \<Rightarrow> IssuedAnonymousCredential \<Rightarrow> (IssuerError, bool) result" where
  "verify_issuer_binding S params c =
     (if issuer_pubkey c \<noteq> params_verifying_key params then Inl IssuerMismatch
      else bind_result (params_key S params) (\<lambda>vk.
        if length (issuer_signature c) \<noteq> 64 then Inl InvalidIssuerSignature
        else Inr (ed_verify S vk (canonical_binding (cred_epoch c) (score_band_threshold c) (score_commitment (presentation c)) (cred_nullifier c))
               (issuer_signature c))))"

definition verify_credential ::
    "('sk, 'vk) sig_lib \<Rightarrow> ('rp, 'r) zk_lib \<Rightarrow> AnonymousCredentialIssuerParams \<Rightarrow> IssuedAnonymousCredential \<Rightarrow> (IssuerError, bool) result" where
  "verify_credential S Z params c =
     bind_result (verify_issuer_binding S params c) (\<lambda>ok.
       if \<not> ok then Inr False
       else if score_commitment (presentation c) \<noteq> bp_commitment (pres_proof (presentation c)) then Inl CommitmentMismatch
       else Inr (verify_anonymous Z (presentation c) (score_band_threshold c)))"

definition verify_and_spend ::
    "('sk, 'vk) sig_lib \<Rightarrow> ('rp, 'r) zk_lib \<Rightarrow> AnonymousCredentialIssuerParams \<Rightarrow> NullifierRegistry \<Rightarrow> IssuedAnonymousCredential
      \<Rightarrow> (IssuerError, bool) result \<times> NullifierRegistry" where
  "verify_and_spend S Z params registry c =
     (case verify_issuer_binding S params c of
        Inl e \<Rightarrow> (Inl e, registry)
      | Inr ok \<Rightarrow>
          if \<not> ok then (Inr False, registry)
          else if score_commitment (presentation c) \<noteq> bp_commitment (pres_proof (presentation c)) then (Inl CommitmentMismatch, registry)
          else (case verify_anonymous_and_spend Z registry (presentation c) (score_band_threshold c) (cred_epoch c) (cred_nullifier c) of
                  (Inl e, registry) \<Rightarrow> (Inl (IssuerNullifier e), registry)
                | (Inr b, registry) \<Rightarrow> (Inr b, registry)))"

section \<open>What a spend means\<close>

text \<open>Spending is verifying, then registering; nothing else changes the registry.\<close>

lemma verify_and_spend_result:
  assumes "registry_wf r"
  shows "fst (verify_and_spend S Z params r c)
      = (if verify_credential S Z params c = Inr True \<and> is_spent r (cred_epoch c) (cred_nullifier c)
         then Inl (IssuerNullifier (AlreadyUsed (cred_epoch c))) else verify_credential S Z params c)"
    "is_spent (snd (verify_and_spend S Z params r c)) e n
      \<longleftrightarrow> is_spent r e n \<or> (verify_credential S Z params c = Inr True \<and> e = cred_epoch c \<and> n = cred_nullifier c)"
    "registry_wf (snd (verify_and_spend S Z params r c))"
  using spend_result[OF assms, of Z "presentation c" "score_band_threshold c" "cred_epoch c" "cred_nullifier c"] assms
  by (auto simp: verify_and_spend_def verify_credential_def bind_result_def split: sum.splits prod.splits if_splits)

lemma issue_fields:
  assumes "sig_laws S" "zk_laws Z" "issue S Z H sk v threshold relay_id epoch blinding rng = (Inr c, rng')"
  shows "cred_epoch c = epoch" "cred_nullifier c = derive_reputation_nullifier H relay_id epoch blinding" "score_band_threshold c = threshold"
    "verify_credential S Z (public_params S sk) c = Inr (scale_reputation threshold \<le> scale_reputation v)"
    "\<not> f64_lt v threshold"
proof -
  obtain p where p: "present_anonymous Z v threshold rng = (p, rng')" "\<not> f64_lt v threshold"
    and c: "c = \<lparr>cred_epoch = epoch, score_band_threshold = threshold, presentation = p,
       cred_nullifier = derive_reputation_nullifier H relay_id epoch blinding, issuer_pubkey = ed_to_bytes S (ed_verifying_key S sk),
       issuer_signature = sign_binding S sk epoch threshold (score_commitment p) (derive_reputation_nullifier H relay_id epoch blinding)\<rparr>"
    using assms(3) by (auto simp: issue_def Let_def split: if_splits prod.splits)
  show "cred_epoch c = epoch" "cred_nullifier c = derive_reputation_nullifier H relay_id epoch blinding" "score_band_threshold c = threshold"
    "\<not> f64_lt v threshold" using p by (simp_all add: c)
  show "verify_credential S Z (public_params S sk) c = Inr (scale_reputation threshold \<le> scale_reputation v)"
    using present_verifies[OF assms(2) p(1)]
    by (simp add: c verify_credential_def verify_issuer_binding_def public_params_def params_key_def sig_lawsD[OF assms(1)] sign_binding_def)
qed

lemma f64_le_of_not_lt: "\<not> f64_lt v w \<Longrightarrow> v \<noteq> NaN \<Longrightarrow> w = NaN \<or> f64_le w v"
  by (cases v; cases w) auto

lemma issued_scale:
  assumes "\<not> f64_lt v threshold" "v \<noteq> NaN"
  shows "scale_reputation threshold \<le> scale_reputation v"
proof -
  have "scale_reputation NaN = 0" using scale_value[of NaN] by (simp add: round_half_away_def unat_eq_0)
  then show ?thesis using f64_le_of_not_lt[OF assms] scale_mono by auto
qed

text \<open>
  C39. The life of a credential. One that is issued for a score (a number) verifies under the public parameters of its issuer. It can
  be spent exactly once: the first spend in a registry that has not seen its nullifier succeeds and records it, every later spend is
  refused as a replay, and no other entry of the registry changes. Under the parameters of an issuer with another key it is refused and
  nothing is recorded.
\<close>

theorem credential_spends_once:
  assumes "sig_laws S" "zk_laws Z" "registry_wf r" "v \<noteq> NaN"
    and "issue S Z H sk v threshold relay_id epoch blinding rng = (Inr c, rng')"
  shows "verify_credential S Z (public_params S sk) c = Inr True
    \<and> (let (res, r1) = verify_and_spend S Z (public_params S sk) r c; (again, r2) = verify_and_spend S Z (public_params S sk) r1 c in
        res = (if is_spent r epoch (cred_nullifier c) then Inl (IssuerNullifier (AlreadyUsed epoch)) else Inr True)
        \<and> again = Inl (IssuerNullifier (AlreadyUsed epoch))
        \<and> (\<forall>e n. is_spent r2 e n \<longleftrightarrow> is_spent r e n \<or> e = epoch \<and> n = cred_nullifier c))
    \<and> (ed_verifying_key S sk' \<noteq> ed_verifying_key S sk \<longrightarrow> verify_and_spend S Z (public_params S sk') r c = (Inl IssuerMismatch, r))"
proof -
  note f = issue_fields[OF assms(1,2,5)]
  have ok: "verify_credential S Z (public_params S sk) c = Inr True" using f(4,5) issued_scale assms(4) by simp
  obtain res r1 where one: "verify_and_spend S Z (public_params S sk) r c = (res, r1)" by (rule prod.exhaust)
  obtain again r2 where two: "verify_and_spend S Z (public_params S sk) r1 c = (again, r2)" by (rule prod.exhaust)
  note s1 = verify_and_spend_result[OF assms(3), of S Z "public_params S sk" c, unfolded one fst_conv snd_conv ok]
  note s2 = verify_and_spend_result[OF s1(3), of S Z "public_params S sk" c, unfolded two fst_conv snd_conv ok]
  have other: "verify_and_spend S Z (public_params S sk') r c = (Inl IssuerMismatch, r)" if "ed_verifying_key S sk' \<noteq> ed_verifying_key S sk"
  proof -
    have "issuer_pubkey c = ed_to_bytes S (ed_verifying_key S sk)" using assms(5) by (auto simp: issue_def Let_def split: if_splits prod.splits)
    then show ?thesis using that by (simp add: verify_and_spend_def verify_issuer_binding_def public_params_def ed_to_bytes_inj[OF assms(1)])
  qed
  show ?thesis using ok s1 s2 other by (simp add: one two f(1))
qed

definition toy_credential :: IssuedAnonymousCredential where
  "toy_credential = (case issue toy_sig toy_zk (\<lambda>m. sum_list m # replicate 31 7) 3 (Fin (9 / 10)) (Fin (1 / 2)) (replicate 32 1) 5 (replicate 32 2) 8 of
     (Inr c, _) \<Rightarrow> c)"

theorem credential_spends_once_witness:
  "verify_credential toy_sig toy_zk (public_params toy_sig 3) toy_credential = Inr True
    \<and> (let (res, r1) = verify_and_spend toy_sig toy_zk (public_params toy_sig 3) registry_new toy_credential;
           (again, r2) = verify_and_spend toy_sig toy_zk (public_params toy_sig 3) r1 toy_credential in
        res = Inr True \<and> again = Inl (IssuerNullifier (AlreadyUsed 5)))"
proof -
  have i: "issue toy_sig toy_zk (\<lambda>m. sum_list m # replicate 31 7) 3 (Fin (9 / 10)) (Fin (1 / 2)) (replicate 32 1) 5 (replicate 32 2) 8
      = (Inr toy_credential, snd (present_anonymous toy_zk (Fin (9 / 10)) (Fin (1 / 2)) 8))"
    by (auto simp: toy_credential_def issue_def Let_def split: prod.split)
  show ?thesis
    using credential_spends_once[OF toy_sig_laws toy_zk_laws registry_wf_new _ i, of 3]
    by (simp add: registry_new_def is_spent_def case_prod_unfold Let_def)
qed

section \<open>Blinded requests\<close>

text \<open>
  Issuing from a blinded request yields exactly the credential that direct issuance yields, for the same score and randomness, and
  refuses exactly the scores that direct issuance refuses.
\<close>

theorem blinded_issue_equals_direct:
  assumes "zk_laws Z" "v \<noteq> NaN"
  shows "(case build_blinded_request Z H v threshold relay_id epoch blinding rng of
           (Inl e, rng') \<Rightarrow> (Inl e, rng') | (Inr q, rng') \<Rightarrow> (issue_from_blinded_request S Z sk q, rng'))
    = issue S Z H sk v threshold relay_id epoch blinding rng"
proof (cases "f64_lt v threshold")
  case False
  obtain p rng' where p: "present_anonymous Z v threshold rng = (p, rng')" by (rule prod.exhaust)
  show ?thesis
    using present_verifies[OF assms(1) p] issued_scale[OF False assms(2)] False p
    by (simp add: build_blinded_request_def issue_def issue_from_blinded_request_def Let_def)
qed (simp add: build_blinded_request_def issue_def)

theorem blinded_issue_equals_direct_witness:
  "(case build_blinded_request toy_zk (\<lambda>m. sum_list m # replicate 31 7) (Fin (9 / 10)) (Fin (1 / 2)) (replicate 32 1) 5 (replicate 32 2) 8 of
      (Inl e, rng') \<Rightarrow> (Inl e, rng') | (Inr q, rng') \<Rightarrow> (issue_from_blinded_request toy_sig toy_zk 3 q, rng'))
    = issue toy_sig toy_zk (\<lambda>m. sum_list m # replicate 31 7) 3 (Fin (9 / 10)) (Fin (1 / 2)) (replicate 32 1) 5 (replicate 32 2) 8"
  by (rule blinded_issue_equals_direct[OF toy_zk_laws]) simp

section \<open>Credentials that say too much\<close>

text \<open>The signature covers the scaled threshold only: a credential relabelled with any threshold of the same scale stays valid.\<close>

lemma relabelled_band_verifies:
  assumes "scale_reputation threshold' = scale_reputation (score_band_threshold c)"
  shows "verify_credential S Z params (c\<lparr>score_band_threshold := threshold'\<rparr>) = verify_credential S Z params c"
proof -
  have "canonical_binding e threshold' m n = canonical_binding e (score_band_threshold c) m n"
    "verify_anonymous Z p threshold' = verify_anonymous Z p (score_band_threshold c)" for e m n p
    by (simp_all add: canonical_binding_def verify_anonymous_def bulletproofs_verify_def assms)
  then show ?thesis by (auto simp: verify_credential_def verify_issuer_binding_def bind_result_def split: sum.split)
qed

lemma band_one_is_any_band: "f64_le (Fin 1) threshold \<Longrightarrow> scale_reputation threshold = scale_reputation (Fin 1)"
  using scale_unit[of threshold] by (cases threshold) (auto simp: max_def min_def split: if_splits)

text \<open>A score that is not a number passes the comparison: the issuer signs a credential that does not verify.\<close>

lemma nan_score_is_signed:
  assumes "sig_laws S" "zk_laws Z" "0 < scale_reputation threshold"
  shows "\<exists>c rng'. issue S Z H sk NaN threshold relay_id epoch blinding rng = (Inr c, rng')
    \<and> verify_credential S Z (public_params S sk) c = Inr False"
proof -
  obtain c rng' where c: "issue S Z H sk NaN threshold relay_id epoch blinding rng = (Inr c, rng')"
    by (cases "present_anonymous Z NaN threshold rng") (auto simp: issue_def Let_def)
  have "scale_reputation NaN = 0" using scale_value[of NaN] by (simp add: round_half_away_def unat_eq_0)
  then have "\<not> scale_reputation threshold \<le> scale_reputation NaN" using assms(3) by simp
  then show ?thesis using c issue_fields(4)[OF assms(1,2) c] by auto
qed

end
