(* ===== verification/Attestation.thy ===== *)
theory Attestation
  imports Custody
begin

text \<open>
  Attestation quotes, \<^verbatim>\<open>crates/aegis-trust/src/tee.rs\<close> and \<^verbatim>\<open>tee_hardware.rs\<close>: the software provider signs report data with Ed25519,
  the hardware provider fails closed, and the envelope of a hardware quote is only checked for its layout. The trait
  \<open>AttestationProvider\<close> is the locale \<open>attestation_provider\<close>, which the software provider implements; the gate of phase 7 is its client.
\<close>

section \<open>Data\<close>

definition SOFTWARE_QUOTE_DOMAIN :: bytes where "SOFTWARE_QUOTE_DOMAIN = ascii ''AEGIS-TEE-SOFTWARE-QUOTE-v1''"
definition SOFTWARE_PROVIDER_ID :: string where "SOFTWARE_PROVIDER_ID = ''software-v1''"
definition HARDWARE_PROVIDER_ID :: string where "HARDWARE_PROVIDER_ID = ''hardware-tee-v1''"
definition PHASE7_GATE_REPORT_DOMAIN :: bytes where "PHASE7_GATE_REPORT_DOMAIN = ascii ''AEGIS-PHASE7-GATE-v1''"
definition HARDWARE_QUOTE_ENVELOPE_MAGIC :: bytes where "HARDWARE_QUOTE_ENVELOPE_MAGIC = ascii ''ATQ1''"
definition HARDWARE_QUOTE_ENVELOPE_VERSION :: byte where "HARDWARE_QUOTE_ENVELOPE_VERSION = 1"
definition HARDWARE_QUOTE_ENVELOPE_MAX_REPORT_DATA :: u32 where "HARDWARE_QUOTE_ENVELOPE_MAX_REPORT_DATA = 65536"
definition HARDWARE_QUOTE_ENVELOPE_MAX_QUOTE_BLOB :: u32 where "HARDWARE_QUOTE_ENVELOPE_MAX_QUOTE_BLOB = 1048576"

datatype TeeAssumption = Trusted | BrokenEnclave

datatype TeePlatform = IntelDcap | AmdSevSnp

definition from_envelope_tag :: "byte \<Rightarrow> TeePlatform option" where
  "from_envelope_tag tag = (if tag = 0 then Some IntelDcap else if tag = 1 then Some AmdSevSnp else None)"

definition envelope_tag :: "TeePlatform \<Rightarrow> byte" where
  "envelope_tag p = (case p of IntelDcap \<Rightarrow> 0 | AmdSevSnp \<Rightarrow> 1)"

record HardwareQuoteFields =
  enclave_measurement :: bytes
  signer_measurement :: bytes
  hw_report_data :: bytes
  tcb_version :: "bytes option"

definition report_data_matches :: "HardwareQuoteFields \<Rightarrow> bytes \<Rightarrow> bool" where
  "report_data_matches f expected \<longleftrightarrow> hw_report_data f = expected"

record DcapQuoteRequest =
  dcap_report_data :: bytes
  expected_mrenclave :: "bytes option"
  expected_mrsigner :: "bytes option"

record SevQuoteRequest =
  sev_report_data :: bytes
  expected_measurement :: "bytes option"
  expected_author_key :: "bytes option"

record HardwareQuoteEnvelope =
  env_platform :: TeePlatform
  env_report_data :: bytes
  env_quote_blob :: bytes

record AttestationQuote =
  quote_provider :: string
  quote_report_data :: bytes
  quote_signature :: bytes
  signer_pubkey :: "bytes option"
  hardware_fields :: "HardwareQuoteFields option"

datatype AttestationMode = SoftwareQuotes | HardwareQuotes

datatype TeeError = HardwareUnavailable string

datatype AttestationError =
    ReportDataMismatch
  | UnsupportedProvider string
  | MalformedQuote
  | QuoteInvalidSignature
  | QuoteSignerMismatch
  | EnvelopeError string

section \<open>The software provider\<close>

definition sign_report_data :: "('sk, 'vk) sig_lib \<Rightarrow> 'sk \<Rightarrow> bytes \<Rightarrow> bytes" where
  "sign_report_data S sk report_data = ed_sign S sk (SOFTWARE_QUOTE_DOMAIN @ report_data)"

definition software_issue_quote :: "('sk, 'vk) sig_lib \<Rightarrow> 'sk \<Rightarrow> bytes \<Rightarrow> AttestationQuote" where
  "software_issue_quote S sk report_data =
     \<lparr>quote_provider = SOFTWARE_PROVIDER_ID, quote_report_data = report_data, quote_signature = sign_report_data S sk report_data,
      signer_pubkey = Some (ed_to_bytes S (ed_verifying_key S sk)), hardware_fields = None\<rparr>"

definition verify_software_quote :: "('sk, 'vk) sig_lib \<Rightarrow> AttestationQuote \<Rightarrow> bytes \<Rightarrow> 'vk \<Rightarrow> (AttestationError, unit) result" where
  "verify_software_quote S quote expected trusted_root =
     (if quote_provider quote \<noteq> SOFTWARE_PROVIDER_ID then Inl (UnsupportedProvider (quote_provider quote))
      else if quote_report_data quote \<noteq> expected then Inl ReportDataMismatch
      else bind_result (ok_or (signer_pubkey quote) MalformedQuote) (\<lambda>signer_array.
           bind_result (ok_or (ed_from_bytes S signer_array) MalformedQuote) (\<lambda>signer.
           if ed_to_bytes S signer \<noteq> ed_to_bytes S trusted_root then Inl QuoteSignerMismatch
           else if length (quote_signature quote) \<noteq> 64 then Inl MalformedQuote
           else if ed_verify S signer (SOFTWARE_QUOTE_DOMAIN @ expected) (quote_signature quote) then Inr () else Inl QuoteInvalidSignature)))"

definition software_verify_quote :: "('sk, 'vk) sig_lib \<Rightarrow> 'sk \<Rightarrow> AttestationQuote \<Rightarrow> bytes \<Rightarrow> (AttestationError, unit) result" where
  "software_verify_quote S sk quote expected = verify_software_quote S quote expected (ed_verifying_key S sk)"

section \<open>The envelope\<close>

definition encode_hardware_quote_envelope :: "TeePlatform \<Rightarrow> bytes \<Rightarrow> bytes \<Rightarrow> (AttestationError, bytes) result" where
  "encode_hardware_quote_envelope platform report_data quote_blob =
     (if length report_data \<ge> 2 ^ 32 then Inl (EnvelopeError ''report_data too long'')
      else if length quote_blob \<ge> 2 ^ 32 then Inl (EnvelopeError ''quote_blob too long'')
      else let report_len = of_nat (length report_data); quote_len = of_nat (length quote_blob) in
        if report_len > HARDWARE_QUOTE_ENVELOPE_MAX_REPORT_DATA then Inl (EnvelopeError ''report_data exceeds envelope limit'')
        else if quote_len > HARDWARE_QUOTE_ENVELOPE_MAX_QUOTE_BLOB then Inl (EnvelopeError ''quote_blob exceeds envelope limit'')
        else Inr (HARDWARE_QUOTE_ENVELOPE_MAGIC @ [HARDWARE_QUOTE_ENVELOPE_VERSION, envelope_tag platform]
               @ u32_to_le report_len @ u32_to_le quote_len @ report_data @ quote_blob))"

definition HEADER_LEN :: nat where "HEADER_LEN = 4 + 1 + 1 + 4 + 4"

text \<open>Past the two limits, the checked additions of the 64-bit lengths cannot overflow.\<close>

definition parse_hardware_quote_envelope :: "bytes \<Rightarrow> (AttestationError, HardwareQuoteEnvelope) result" where
  "parse_hardware_quote_envelope bs =
     (if length bs < HEADER_LEN then Inl (EnvelopeError ''truncated header'')
      else if take 4 bs \<noteq> HARDWARE_QUOTE_ENVELOPE_MAGIC then Inl (EnvelopeError ''bad magic'')
      else if bs ! 4 \<noteq> HARDWARE_QUOTE_ENVELOPE_VERSION then Inl (EnvelopeError ''unsupported version'')
      else bind_result (ok_or (from_envelope_tag (bs ! 5)) (EnvelopeError ''unknown platform tag'')) (\<lambda>platform.
        let report_len = u32_from_le (slice 6 4 bs); quote_len = u32_from_le (slice 10 4 bs) in
        if report_len > HARDWARE_QUOTE_ENVELOPE_MAX_REPORT_DATA then Inl (EnvelopeError ''report_data length exceeds limit'')
        else if quote_len > HARDWARE_QUOTE_ENVELOPE_MAX_QUOTE_BLOB then Inl (EnvelopeError ''quote_blob length exceeds limit'')
        else let report_end = HEADER_LEN + unat report_len; total = report_end + unat quote_len in
          if length bs \<noteq> total
          then Inl (EnvelopeError (''length mismatch: header declares '' @ dec_string total @ '' bytes, got '' @ dec_string (length bs)))
          else Inr \<lparr>env_platform = platform, env_report_data = slice HEADER_LEN (unat report_len) bs,
                    env_quote_blob = slice report_end (unat quote_len) bs\<rparr>))"

section \<open>The hardware provider\<close>

definition hardware_unavailable_hint :: "TeePlatform \<Rightarrow> string" where
  "hardware_unavailable_hint p =
     (case p of
        IntelDcap \<Rightarrow> ''Intel DCAP unavailable: install SGX driver + AESM/PCCS, link libsgx_dcap_quoteverify and libdcap_quoteprov (or intel-sgx-rs), enable Cargo feature `tee-hardware`, and implement HardwareTeeProvider::request_dcap_quote. See docs/ops/tee_attestation.md.''
      | AmdSevSnp \<Rightarrow> ''AMD SEV-SNP unavailable: enable SEV-SNP in firmware/BIOS, install PSP packages, link libsev-guest (or sev crate), enable Cargo feature `tee-hardware`, and implement HardwareTeeProvider::request_sev_quote. See docs/ops/tee_attestation.md.'')"

definition hardware_unavailable :: "TeePlatform \<Rightarrow> TeeError" where
  "hardware_unavailable p = HardwareUnavailable (hardware_unavailable_hint p)"

definition hardware_try_new :: "(TeeError, unit) result" where
  "hardware_try_new = Inl (hardware_unavailable IntelDcap)"

definition hardware_issue_quote :: "bytes \<Rightarrow> (TeeError, AttestationQuote) result" where
  "hardware_issue_quote report_data = Inl (hardware_unavailable IntelDcap)"

definition request_dcap_quote :: "DcapQuoteRequest \<Rightarrow> (TeeError, AttestationQuote) result" where
  "request_dcap_quote req = Inl (hardware_unavailable IntelDcap)"

definition request_sev_quote :: "SevQuoteRequest \<Rightarrow> (TeeError, AttestationQuote) result" where
  "request_sev_quote req = Inl (hardware_unavailable AmdSevSnp)"

definition hardware_verify_quote :: "AttestationQuote \<Rightarrow> bytes \<Rightarrow> (TeeError, unit) result" where
  "hardware_verify_quote quote expected = Inl (hardware_unavailable IntelDcap)"

definition verify_envelope_quote :: "bytes \<Rightarrow> bytes \<Rightarrow> (TeeError, unit) result" where
  "verify_envelope_quote envelope_bytes expected =
     (case parse_hardware_quote_envelope envelope_bytes of
        Inl _ \<Rightarrow> Inl (hardware_unavailable IntelDcap)
      | Inr e \<Rightarrow>
          if env_report_data e \<noteq> expected then Inl (hardware_unavailable IntelDcap)
          else hardware_verify_quote \<lparr>quote_provider = HARDWARE_PROVIDER_ID, quote_report_data = env_report_data e,
                 quote_signature = env_quote_blob e, signer_pubkey = None, hardware_fields = None\<rparr> expected)"

text \<open>A software provider is its signing key. Past a hardware probe that succeeds the code is \<open>unreachable!\<close>; the probe never does.\<close>

definition select_attestation_provider :: "('sk, 'vk) sig_lib \<Rightarrow> AttestationMode \<Rightarrow> bytes \<Rightarrow> (TeeError, 'sk) result option" where
  "select_attestation_provider S mode software_seed =
     (case mode of
        SoftwareQuotes \<Rightarrow> Some (Inr (ed_from_seed S software_seed))
      | HardwareQuotes \<Rightarrow> (case hardware_try_new of Inl e \<Rightarrow> Some (Inl e) | Inr _ \<Rightarrow> None))"

section \<open>The gate\<close>

definition phase7_gate_report_data :: bytes where
  "phase7_gate_report_data = PHASE7_GATE_REPORT_DOMAIN"

definition internal_core_gates_hold :: bool where
  "internal_core_gates_hold = True"

definition core_gates_hold_under :: "TeeAssumption \<Rightarrow> bool" where
  "core_gates_hold_under a = (case a of Trusted \<Rightarrow> internal_core_gates_hold | BrokenEnclave \<Rightarrow> False)"

definition core_gates_hold_under_attested ::
    "TeeAssumption \<Rightarrow> (AttestationQuote \<Rightarrow> bytes \<Rightarrow> (AttestationError, unit) result) \<Rightarrow> AttestationQuote \<Rightarrow> bytes \<Rightarrow> bool" where
  "core_gates_hold_under_attested a verify_quote quote expected =
     (if isl (verify_quote quote expected) then False
      else case a of Trusted \<Rightarrow> internal_core_gates_hold | BrokenEnclave \<Rightarrow> internal_core_gates_hold)"

section \<open>The envelope is exact\<close>

lemma tag_round_trip: "from_envelope_tag b = Some p \<longleftrightarrow> b = envelope_tag p"
  by (cases p) (auto simp: from_envelope_tag_def envelope_tag_def split: if_splits)

lemma magic_length: "length HARDWARE_QUOTE_ENVELOPE_MAGIC = 4"
  by (simp add: HARDWARE_QUOTE_ENVELOPE_MAGIC_def ascii_def)

lemma parse_encoded:
  assumes "encode_hardware_quote_envelope p r q = Inr bs"
  shows "parse_hardware_quote_envelope bs = Inr \<lparr>env_platform = p, env_report_data = r, env_quote_blob = q\<rparr>"
proof -
  let ?rl = "of_nat (length r) :: u32" and ?ql = "of_nat (length q) :: u32"
  have e: "length r < 2 ^ 32" "length q < 2 ^ 32" "\<not> ?rl > HARDWARE_QUOTE_ENVELOPE_MAX_REPORT_DATA" "\<not> ?ql > HARDWARE_QUOTE_ENVELOPE_MAX_QUOTE_BLOB"
    and bs: "bs = HARDWARE_QUOTE_ENVELOPE_MAGIC @ [HARDWARE_QUOTE_ENVELOPE_VERSION, envelope_tag p] @ u32_to_le ?rl @ u32_to_le ?ql @ r @ q"
    using assms by (auto simp: encode_hardware_quote_envelope_def Let_def split: if_splits)
  have u: "unat ?rl = length r" "unat ?ql = length q" using e(1,2) by (simp_all add: unat_of_nat)
  have parts: "bs = HARDWARE_QUOTE_ENVELOPE_MAGIC @ [HARDWARE_QUOTE_ENVELOPE_VERSION, envelope_tag p] @ u32_to_le ?rl @ u32_to_le ?ql @ r @ q"
    "bs = (HARDWARE_QUOTE_ENVELOPE_MAGIC @ [HARDWARE_QUOTE_ENVELOPE_VERSION, envelope_tag p]) @ u32_to_le ?rl @ (u32_to_le ?ql @ r @ q)"
    "bs = (HARDWARE_QUOTE_ENVELOPE_MAGIC @ [HARDWARE_QUOTE_ENVELOPE_VERSION, envelope_tag p] @ u32_to_le ?rl) @ u32_to_le ?ql @ (r @ q)"
    "bs = (HARDWARE_QUOTE_ENVELOPE_MAGIC @ [HARDWARE_QUOTE_ENVELOPE_VERSION, envelope_tag p] @ u32_to_le ?rl @ u32_to_le ?ql) @ r @ q"
    "bs = (HARDWARE_QUOTE_ENVELOPE_MAGIC @ [HARDWARE_QUOTE_ENVELOPE_VERSION, envelope_tag p] @ u32_to_le ?rl @ u32_to_le ?ql @ r) @ q @ []"
    by (simp_all add: bs)
  have mid: "slice k n bs = y" if "bs = x @ y @ z" "length x = k" "length y = n" for k n x y z using that by (simp add: slice_def)
  have "take 4 bs = HARDWARE_QUOTE_ENVELOPE_MAGIC" "bs ! 4 = HARDWARE_QUOTE_ENVELOPE_VERSION" "bs ! 5 = envelope_tag p"
    "length bs = HEADER_LEN + length r + length q"
    by (simp_all add: bs magic_length nth_append HEADER_LEN_def)
  moreover have "slice 6 4 bs = u32_to_le ?rl" "slice 10 4 bs = u32_to_le ?ql"
    "slice HEADER_LEN (length r) bs = r" "slice (HEADER_LEN + length r) (length q) bs = q"
    by (rule mid[OF parts(2)] mid[OF parts(3)] mid[OF parts(4)] mid[OF parts(5)]; simp add: magic_length HEADER_LEN_def)+
  ultimately show ?thesis
    using e(3,4) tag_round_trip[of "envelope_tag p" p] by (simp add: parse_hardware_quote_envelope_def u32_from_to_le u)
qed

lemma encode_parsed:
  assumes "parse_hardware_quote_envelope bs = Inr \<lparr>env_platform = p, env_report_data = r, env_quote_blob = q\<rparr>"
  shows "encode_hardware_quote_envelope p r q = Inr bs"
proof -
  let ?rl = "u32_from_le (slice 6 4 bs)" and ?ql = "u32_from_le (slice 10 4 bs)"
  obtain p' where c: "\<not> take 4 bs \<noteq> HARDWARE_QUOTE_ENVELOPE_MAGIC" "\<not> bs ! 4 \<noteq> HARDWARE_QUOTE_ENVELOPE_VERSION" "bs ! 5 = envelope_tag p'"
    "\<not> ?rl > HARDWARE_QUOTE_ENVELOPE_MAX_REPORT_DATA" "\<not> ?ql > HARDWARE_QUOTE_ENVELOPE_MAX_QUOTE_BLOB"
    and len: "\<not> length bs \<noteq> HEADER_LEN + unat ?rl + unat ?ql"
    and e: "\<lparr>env_platform = p', env_report_data = slice HEADER_LEN (unat ?rl) bs, env_quote_blob = slice (HEADER_LEN + unat ?rl) (unat ?ql) bs\<rparr>
      = \<lparr>env_platform = p, env_report_data = r, env_quote_blob = q\<rparr>"
    using assms unfolding parse_hardware_quote_envelope_def Let_def if_Inl_Inr bind_result_Inr_iff ok_or_Inr tag_round_trip sum.inject by (elim conjE exE) (rule that)
  have p: "p' = p" and r: "r = slice HEADER_LEN (unat ?rl) bs" and q: "q = slice (HEADER_LEN + unat ?rl) (unat ?ql) bs"
    using e by (simp_all only: HardwareQuoteEnvelope.ext_inject)
  note len = len[unfolded not_not]
  have room: "HEADER_LEN + unat ?rl \<le> length bs" "HEADER_LEN + unat ?rl + unat ?ql \<le> length bs" using len by linarith+
  have l: "length r = unat ?rl" "length q = unat ?ql" unfolding r q using room by (simp_all only: length_slice)
  then have words: "(of_nat (length r) :: u32) = ?rl" "(of_nat (length q) :: u32) = ?ql" by simp_all
  have small: "length r < 2 ^ 32" "length q < 2 ^ 32" using unsigned_less[of ?rl] unsigned_less[of ?ql] l by simp_all
  have "bs = take 4 bs @ [bs ! 4, bs ! 5] @ slice 6 4 bs @ slice 10 4 bs @ r @ q"
  proof -
    have l: "4 < length bs" "5 < length bs" using room(1) by (simp_all add: HEADER_LEN_def)
    have "bs = take 4 bs @ drop 4 bs" by simp
    also have "drop 4 bs = bs ! 4 # bs ! 5 # drop 6 bs" using Cons_nth_drop_Suc[OF l(1)] Cons_nth_drop_Suc[OF l(2)] by simp
    also have "drop 6 bs = slice 6 4 bs @ drop 10 bs" using drop_slice[of 6 bs 4] by simp
    also have "drop 10 bs = slice 10 4 bs @ drop HEADER_LEN bs" using drop_slice[of 10 bs 4] by (simp add: HEADER_LEN_def)
    also have "drop HEADER_LEN bs = r @ drop (HEADER_LEN + unat ?rl) bs" unfolding r by (rule drop_slice)
    also have "drop (HEADER_LEN + unat ?rl) bs = q @ drop (HEADER_LEN + unat ?rl + unat ?ql) bs" unfolding q by (rule drop_slice)
    also have "drop (HEADER_LEN + unat ?rl + unat ?ql) bs = []" unfolding drop_eq_Nil len by (rule order_refl)
    finally show ?thesis by simp
  qed
  then have bytes: "HARDWARE_QUOTE_ENVELOPE_MAGIC @ [HARDWARE_QUOTE_ENVELOPE_VERSION, envelope_tag p] @ slice 6 4 bs @ slice 10 4 bs @ r @ q = bs"
    using c(1,2,3) by (simp only: not_not p)
  have "14 \<le> length bs" using room(1) by (simp add: HEADER_LEN_def)
  then have "length (slice 6 4 bs) = 4" "length (slice 10 4 bs) = 4" by (simp_all only: length_slice)
  then have "u32_to_le ?rl = slice 6 4 bs" "u32_to_le ?ql = slice 10 4 bs" by (simp_all only: u32_to_from_le)
  then show ?thesis
    using c(4,5) bytes small[folded linorder_not_le] unfolding encode_hardware_quote_envelope_def words Let_def by (simp only: if_False)
qed

text \<open>
  C40. The envelope of a hardware quote is a bijection: parsing accepts exactly the bytes that encoding produces, with the platform,
  report data and quote that were encoded.
\<close>

theorem quote_envelope_exact:
  "parse_hardware_quote_envelope bs = Inr \<lparr>env_platform = p, env_report_data = r, env_quote_blob = q\<rparr>
    \<longleftrightarrow> encode_hardware_quote_envelope p r q = Inr bs"
  using parse_encoded encode_parsed by blast

section \<open>Providers and the gate\<close>

text \<open>The contract of the trait: an issued quote verifies, and a quote that verifies is bound to the report data it was checked for.\<close>

locale attestation_provider =
  fixes issue_quote :: "bytes \<Rightarrow> AttestationQuote"
    and verify_quote :: "AttestationQuote \<Rightarrow> bytes \<Rightarrow> (AttestationError, unit) result"
  assumes issued_verifies: "verify_quote (issue_quote d) d = Inr ()"
    and verified_bound: "verify_quote q d = Inr () \<Longrightarrow> quote_report_data q = d"
begin

lemma gate_iff: "core_gates_hold_under_attested a verify_quote q d \<longleftrightarrow> verify_quote q d = Inr ()"
  by (cases "verify_quote q d") (auto simp: core_gates_hold_under_attested_def internal_core_gates_hold_def split: TeeAssumption.split)

lemma gate_opens: "core_gates_hold_under_attested a verify_quote (issue_quote d) d' \<longleftrightarrow> d' = d"
  using issued_verifies verified_bound by (metis gate_iff)

end

lemma software_verifies_iff:
  assumes "sig_laws S"
  shows "software_verify_quote S sk q d = Inr () \<longleftrightarrow>
     quote_provider q = SOFTWARE_PROVIDER_ID \<and> quote_report_data q = d
     \<and> (\<exists>k. signer_pubkey q = Some k \<and> ed_from_bytes S k = Some (ed_verifying_key S sk))
     \<and> length (quote_signature q) = 64 \<and> ed_verify S (ed_verifying_key S sk) (SOFTWARE_QUOTE_DOMAIN @ d) (quote_signature q)"
  unfolding software_verify_quote_def verify_software_quote_def bind_result_Inr_iff if_Inl_Inr
  by (auto simp: ok_or_def ed_to_bytes_inj[OF assms] split: option.splits if_splits)

lemma software_provider: "sig_laws S \<Longrightarrow> attestation_provider (software_issue_quote S sk) (software_verify_quote S sk)"
  by unfold_locales (auto simp: software_verifies_iff software_issue_quote_def sign_report_data_def sig_lawsD)

sublocale lawful_signatures < software: attestation_provider "software_issue_quote S sk" "software_verify_quote S sk" for sk
  by (rule software_provider[OF laws])

interpretation toy_software: attestation_provider "software_issue_quote toy_sig sk" "software_verify_quote toy_sig sk" for sk
  by (rule software_provider[OF toy_sig_laws])

text \<open>
  The gate that checks an attestation opens for exactly the quotes the configured key signed for exactly this report data, whatever is
  assumed of the enclave: a quote for other data, of another provider or another signer, or with a bad signature keeps it closed, and
  a quote the provider issues opens it for its own data only. No hardware path ever attests.
\<close>

theorem attested_gate_exact:
  assumes "sig_laws S"
  shows "(core_gates_hold_under_attested a (software_verify_quote S sk) q d \<longleftrightarrow>
      quote_provider q = SOFTWARE_PROVIDER_ID \<and> quote_report_data q = d
      \<and> (\<exists>k. signer_pubkey q = Some k \<and> ed_from_bytes S k = Some (ed_verifying_key S sk))
      \<and> length (quote_signature q) = 64 \<and> ed_verify S (ed_verifying_key S sk) (SOFTWARE_QUOTE_DOMAIN @ d) (quote_signature q))
    \<and> (core_gates_hold_under_attested a (software_verify_quote S sk) (software_issue_quote S sk d') d \<longleftrightarrow> d = d')
    \<and> \<not> core_gates_hold_under BrokenEnclave
    \<and> isl (verify_envelope_quote bs d) \<and> isl (hardware_verify_quote q d)
    \<and> (\<exists>e. select_attestation_provider S HardwareQuotes seed = Some (Inl e))"
proof -
  note provider = software_provider[OF assms, of sk]
  have "isl (verify_envelope_quote bs d)" "isl (hardware_verify_quote q d)" "\<not> core_gates_hold_under BrokenEnclave"
    by (simp_all add: verify_envelope_quote_def hardware_verify_quote_def core_gates_hold_under_def split: sum.split)
  moreover have "\<exists>e. select_attestation_provider S HardwareQuotes seed = Some (Inl e)"
    by (simp add: select_attestation_provider_def hardware_try_new_def)
  moreover note attestation_provider.gate_opens[OF provider, of a d' d] attestation_provider.gate_iff[OF provider, of a q d, unfolded software_verifies_iff[OF assms]]
  ultimately show ?thesis by blast
qed

theorem attested_gate_exact_witness:
  "core_gates_hold_under_attested BrokenEnclave (software_verify_quote toy_sig 3) (software_issue_quote toy_sig 3 phase7_gate_report_data)
    phase7_gate_report_data"
  using attested_gate_exact[OF toy_sig_laws, of BrokenEnclave 3 _ phase7_gate_report_data phase7_gate_report_data] by blast

end
