(* ===== verification/Relay_Tasks.thy ===== *)
theory Relay_Tasks
  imports Link_Outbound
begin

text \<open>
  A whole relay. \<open>spawn_link_bridge_with_listener\<close> of \<^verbatim>\<open>crates/aegis-relay/src/net.rs\<close> starts the tasks
  of a relay's network side and joins them with queues to the relay task of \<^verbatim>\<open>node.rs\<close>: the connection's reader, the fair drain into the relay
  task, the router of what it forwards, the fair drain onto the pooled connections, and the dispatchers of cover and gossip. Each event is
  one turn of one task; the runtime may take them in any order. The health tracker, the bridge's generator and the trace are objects
  that the tasks share; the pools are not. Time is not modelled: a mixing delay is carried along and passes between events.
\<close>

section \<open>The tasks of a relay\<close>

record ('xs, 'ms, 'mp, 'r, 'h, 'sk, 'vk, 'w) mix_env =
  env_lib :: "('xs, 'ms, 'mp, 'r) crypto_lib"
  env_noise :: "'h noise_lib"
  env_aead :: aead_lib
  env_sig :: "('sk, 'vk) sig_lib"
  env_io :: "(string \<times> nat) option"
  env_connect :: "'w network"
  env_addr_key :: "string \<Rightarrow> nat"
  env_next_u64 :: "'r \<Rightarrow> u64 \<times> 'r"
  env_log :: "f64 \<Rightarrow> f64"

record ('xs, 'ms, 'mp, 'r, 'w) mix =
  mix_node :: "('xs, 'ms, 'mp) RelayNode"
  mix_link :: LinkBridgeConfig
  mix_peers :: "(bytes \<times> PeerInfo) list"
  mix_health :: "PeerHealthTracker option"
  mix_rng :: 'r
  mix_world :: 'w
  mix_conn :: inbound_conn
  mix_bridge :: bridge_state
  mix_draining :: bool
  mix_cursor :: nat
  mix_inbound :: "SphinxPacket mpsc_channel"
  mix_task :: "'r RelayTask"
  mix_router :: router
  mix_egress :: "('w, 'r) egress"
  mix_cover_taken :: nat
  mix_cover_egress :: "('w, 'r) egress"
  mix_gossip_egress :: "('w, 'r) egress"

datatype mix_event =
  FramesArrive "clock list" stream
| DrainInbound
| RelayPacket
| RelayRound BulkRoundCommand
| RouteForwarded
| DrainOutbound
| DispatchCover
| DispatchGossip "bytes \<times> Cell"

text \<open>A dispatcher sees the shared objects, and leaves them as its connections changed them.\<close>

definition shared :: "('xs, 'ms, 'mp, 'r, 'w) mix \<Rightarrow> ('w, 'r) egress \<Rightarrow> ('w, 'r) egress" where
  "shared m eg = eg\<lparr>eg_health := mix_health m, eg_rng := mix_rng m, eg_world := mix_world m\<rparr>"

definition share_back :: "('w, 'r) egress \<Rightarrow> ('xs, 'ms, 'mp, 'r, 'w) mix \<Rightarrow> ('xs, 'ms, 'mp, 'r, 'w) mix" where
  "share_back eg m = m\<lparr>mix_health := eg_health eg, mix_rng := eg_rng eg, mix_world := eg_world eg\<rparr>"

text \<open>The relay task owns the receiver of its channel: when it ends, the channel is closed.\<close>

fun mix_step ::
    "('xs, 'ms, 'mp, 'r, 'h, 'sk, 'vk, 'w) mix_env \<Rightarrow> mix_event \<Rightarrow> ('xs, 'ms, 'mp, 'r, 'w) mix \<Rightarrow> ('xs, 'ms, 'mp, 'r, 'w) mix" where
  "mix_step env (FramesArrive clks s) m =
     (case inbound_loop (env_aead env) (env_sig env) (env_io env) (mix_link m) (mix_peers m) clks s (mix_conn m)
         ((mix_bridge m)\<lparr>br_health := mix_health m\<rparr>) of
        (_, conn, br) \<Rightarrow> m\<lparr>mix_conn := conn, mix_bridge := br, mix_health := br_health br\<rparr>)"
| "mix_step env DrainInbound m =
     (if \<not> mix_draining m then m
      else case inbound_drain_step (br_slots (mix_bridge m)) (mix_cursor m) (mix_inbound m) (br_queue_dropped (mix_bridge m)) of
        (go, slots, cursor, ch, dropped) \<Rightarrow>
          m\<lparr>mix_bridge := (mix_bridge m)\<lparr>br_slots := slots, br_queue_dropped := dropped\<rparr>, mix_cursor := cursor, mix_inbound := ch,
            mix_draining := go\<rparr>)"
| "mix_step env RelayPacket m =
     (if \<not> task_running (mix_task m) then m
      else case ch_items (mix_inbound m) of
        [] \<Rightarrow> m
      | p # ps \<Rightarrow>
          (case process_one_packet (env_lib env) (env_next_u64 env) (env_log env) (mix_node m) p (mix_task m) of
             (res, t) \<Rightarrow> m\<lparr>mix_task := t\<lparr>task_running := (res = Inr ())\<rparr>,
               mix_inbound := (mix_inbound m)\<lparr>ch_items := ps, ch_closed := ch_closed (mix_inbound m) \<or> res \<noteq> Inr ()\<rparr>\<rparr>))"
| "mix_step env (RelayRound cmd) m =
     (if \<not> task_running (mix_task m) then m else m\<lparr>mix_task := round_command (env_lib env) (mix_node m) cmd (mix_task m)\<rparr>)"
| "mix_step env RouteForwarded m =
     (case ch_items (task_outbound (mix_task m)) of
        [] \<Rightarrow> m
      | fwd # rest \<Rightarrow>
          m\<lparr>mix_task := (mix_task m)\<lparr>task_outbound := (task_outbound (mix_task m))\<lparr>ch_items := rest\<rparr>\<rparr>,
            mix_router := route_outbound (mix_peers m) (mix_health m) fwd (mix_router m)\<rparr>)"
| "mix_step env DrainOutbound m =
     (case outbound_drain_step (env_lib env) (env_noise env) (env_aead env) (env_connect env) (mix_link m) (mix_peers m)
         (mix_router m, shared m (mix_egress m)) of
        (ro, eg) \<Rightarrow> share_back eg (m\<lparr>mix_router := ro, mix_egress := eg\<rparr>))"
| "mix_step env DispatchCover m =
     (case task_cover (mix_task m) of
        None \<Rightarrow> m
      | Some (flows, _) \<Rightarrow>
          if mix_cover_taken m < length flows
          then (case cover_dispatch (env_lib env) (env_noise env) (env_aead env) (env_connect env) (mix_link m) (env_addr_key env) (mix_peers m)
              (flows ! mix_cover_taken m) (shared m (mix_cover_egress m), ro_trace (mix_router m)) of
             (eg, tr) \<Rightarrow> share_back eg (m\<lparr>mix_cover_taken := mix_cover_taken m + 1, mix_cover_egress := eg,
               mix_router := (mix_router m)\<lparr>ro_trace := tr\<rparr>\<rparr>))
          else m)"
| "mix_step env (DispatchGossip msg) m =
     (let eg = gossip_dispatch (env_lib env) (env_noise env) (env_aead env) (env_connect env) (mix_link m) (mix_peers m) msg
         (shared m (mix_gossip_egress m))
      in share_back eg (m\<lparr>mix_gossip_egress := eg\<rparr>))"

definition mix_run ::
    "('xs, 'ms, 'mp, 'r, 'h, 'sk, 'vk, 'w) mix_env \<Rightarrow> mix_event list \<Rightarrow> ('xs, 'ms, 'mp, 'r, 'w) mix \<Rightarrow> ('xs, 'ms, 'mp, 'r, 'w) mix" where
  "mix_run env evs m = fold (mix_step env) evs m"

section \<open>Any order of the tasks\<close>

text \<open>The packets that the relay task accepts in a run, each with what it forwards.\<close>

definition accepts_now :: "('xs, 'ms, 'mp, 'r, 'h, 'sk, 'vk, 'w) mix_env \<Rightarrow> mix_event \<Rightarrow> ('xs, 'ms, 'mp, 'r, 'w) mix \<Rightarrow> (SphinxPacket \<times> SphinxPacket) list" where
  "accepts_now env e m =
     (case (e, ch_items (mix_inbound m)) of
        (RelayPacket, p # _) \<Rightarrow>
          if task_running (mix_task m)
          then (case fst (process (env_lib env) p (node_secret (mix_node m)) (task_replay (mix_task m))) of Inr (Forward _ q) \<Rightarrow> [(p, q)] | _ \<Rightarrow> [])
          else []
      | _ \<Rightarrow> [])"

fun accepted :: "('xs, 'ms, 'mp, 'r, 'h, 'sk, 'vk, 'w) mix_env \<Rightarrow> mix_event list \<Rightarrow> ('xs, 'ms, 'mp, 'r, 'w) mix \<Rightarrow> (SphinxPacket \<times> SphinxPacket) list" where
  "accepted env [] m = []"
| "accepted env (e # evs) m = accepts_now env e m @ accepted env evs (mix_step env e m)"

fun is_relay_packet :: "mix_event \<Rightarrow> bool" where
  "is_relay_packet RelayPacket \<longleftrightarrow> True"
| "is_relay_packet _ \<longleftrightarrow> False"

definition header_bytes :: "SphinxPacket \<Rightarrow> bytes" where "header_bytes p = slice OFF_ALPHA ALPHA_LEN p"

text \<open>The tag of a packet at a relay depends on its header only.\<close>

definition header_tag :: "('xs, 'ms, 'mp, 'r) crypto_lib \<Rightarrow> ('xs, 'ms) RelayKemSecret \<Rightarrow> bytes \<Rightarrow> ReplayTag option" where
  "header_tag L sk bs =
     (case bind_result (header_read_from bs) (decapsulate L sk) of Inl _ \<Rightarrow> None | Inr sec \<Rightarrow> Some (replay_tag L sec))"

lemma process_tag:
  assumes "replay_inv rc" "process L p sk rc = (r, rc')"
  shows "rc' = rc \<and> isl r \<or> (\<exists>tag. header_tag L sk (header_bytes p) = Some tag \<and> rc' = snd (check_and_insert rc tag) \<and> (isl r \<or> tag \<notin> seen rc))"
  using assms rc.offer_fresh[OF assms(1)]
  by (fastforce simp: process_def header_tag_def extract_kem_header_def header_bytes_def bind_result_def Let_def
      split: sum.splits if_splits prod.splits)

lemma process_one_replay: "task_replay (snd (process_one_packet L next_u64 log_e node p s)) = snd (process L p (node_secret node) (task_replay s))"
  by (simp add: process_one_packet_def Let_def split: prod.split sum.split Processed.split CryptoError.split)

lemma step_keeps:
  "mix_node (mix_step env e m) = mix_node m"
  "\<not> is_relay_packet e \<Longrightarrow> task_replay (mix_task (mix_step env e m)) = task_replay (mix_task m)"
  by (cases e; simp add: share_back_def round_command_keeps Let_def split: prod.split list.split option.split)+

lemma step_replay:
  fixes env :: "('xs, 'ms, 'mp, 'r, 'h, 'sk, 'vk, 'w) mix_env" and m :: "('xs, 'ms, 'mp, 'r, 'w) mix"
  assumes inv: "replay_inv (task_replay (mix_task m))" "replay_keeps (task_replay (mix_task m)) (length (filter is_relay_packet (e # evs)))"
  defines "rc \<equiv> task_replay (mix_task m)" and "rc' \<equiv> task_replay (mix_task (mix_step env e m))"
    and "tags \<equiv> map (\<lambda>x. header_tag (env_lib env) (node_secret (mix_node m)) (header_bytes (fst x))) (accepts_now env e m)"
  shows "replay_inv rc' \<and> replay_keeps rc' (length (filter is_relay_packet evs)) \<and> seen rc \<subseteq> seen rc'
    \<and> (tags = [] \<or> (\<exists>tag. tags = [Some tag] \<and> tag \<notin> seen rc \<and> tag \<in> seen rc'))"
proof (cases "is_relay_packet e")
  case False
  then have "tags = []" unfolding tags_def by (cases e) (simp_all add: accepts_now_def)
  then show ?thesis using inv step_keeps(2)[OF False, of env m] False by (simp add: rc_def rc'_def)
next
  case True
  then have e: "e = RelayPacket" by (cases e) simp_all
  let ?n = "length (filter is_relay_packet evs)"
  have keeps: "replay_keeps rc (Suc ?n)" using inv(2) e by (simp add: rc_def)
  then have fewer: "replay_keeps rc ?n" by (simp add: replay_keeps_def)
  show ?thesis
  proof (cases "task_running (mix_task m) \<and> ch_items (mix_inbound m) \<noteq> []")
    case False
    then have "rc' = rc" "tags = []" by (auto simp: rc'_def rc_def tags_def e accepts_now_def split: list.split)
    then show ?thesis using inv(1) fewer by (simp add: rc_def)
  next
    case run: True
    then obtain p ps where p: "ch_items (mix_inbound m) = p # ps" by (auto simp: neq_Nil_conv)
    obtain r c where pr: "process (env_lib env) p (node_secret (mix_node m)) rc = (r, c)" by fastforce
    have rc': "rc' = c" using run p pr process_one_replay[of "env_lib env" "env_next_u64 env" "env_log env" "mix_node m" p "mix_task m"]
      by (auto simp: rc'_def rc_def e split: prod.split)
    have tags: "tags = (case r of Inr (Forward _ q) \<Rightarrow> [header_tag (env_lib env) (node_secret (mix_node m)) (header_bytes p)] | _ \<Rightarrow> [])"
      using run p pr by (simp add: tags_def rc_def accepts_now_def e split: sum.split Processed.split)
    from process_tag[OF inv(1)[folded rc_def] pr] show ?thesis
    proof
      assume "c = rc \<and> isl r"
      then show ?thesis using inv(1) fewer tags rc' by (cases r) (simp_all add: rc_def)
    next
      assume "\<exists>tag. header_tag (env_lib env) (node_secret (mix_node m)) (header_bytes p) = Some tag \<and> c = snd (check_and_insert rc tag)
        \<and> (isl r \<or> tag \<notin> seen rc)"
      then obtain tag where t: "header_tag (env_lib env) (node_secret (mix_node m)) (header_bytes p) = Some tag" "c = snd (check_and_insert rc tag)"
        "isl r \<or> tag \<notin> seen rc" by blast
      have i: "replay_inv rc" using inv(1) by (simp add: rc_def)
      have "replay_inv c" "replay_keeps c ?n" using rc.offer_inv[OF i, of tag] rc.keeps_step[OF i keeps, of tag] by (simp_all add: t(2))
      moreover have "j \<in> seen c \<longleftrightarrow> j \<in> seen rc \<or> j = tag" for j using rc.keeps_holds[OF i keeps, of j tag] by (simp add: t(2))
      ultimately have "replay_inv c" "replay_keeps c ?n" "\<forall>j. j \<in> seen c \<longleftrightarrow> j \<in> seen rc \<or> j = tag" by blast+
      then show ?thesis using tags t rc' by (cases r) (auto split: Processed.split)
    qed
  qed
qed

lemma accepted_tags:
  assumes "replay_inv (task_replay (mix_task m))" "replay_keeps (task_replay (mix_task m)) (length (filter is_relay_packet evs))"
  shows "distinct (map (\<lambda>x. header_tag (env_lib env) (node_secret (mix_node m)) (header_bytes (fst x))) (accepted env evs m))
    \<and> (\<forall>x \<in> set (accepted env evs m). \<exists>tag. header_tag (env_lib env) (node_secret (mix_node m)) (header_bytes (fst x)) = Some tag
        \<and> tag \<notin> seen (task_replay (mix_task m)))"
  using assms
proof (induction evs arbitrary: m)
  case (Cons e evs)
  let ?m = "mix_step env e m"
  let ?tag = "\<lambda>x. header_tag (env_lib env) (node_secret (mix_node m)) (header_bytes (fst x))"
  note step = step_replay[OF Cons.prems, where env = env]
  have IH: "distinct (map ?tag (accepted env evs ?m))"
    "\<forall>x \<in> set (accepted env evs ?m). \<exists>tag. ?tag x = Some tag \<and> tag \<notin> seen (task_replay (mix_task ?m))"
    using Cons.IH[of ?m] step by (simp_all add: step_keeps(1))
  have "seen (task_replay (mix_task m)) \<subseteq> seen (task_replay (mix_task ?m))" using step by blast
  then have later: "\<forall>x \<in> set (accepted env evs ?m). \<exists>tag. ?tag x = Some tag \<and> tag \<notin> seen (task_replay (mix_task m))" using IH(2) by blast
  from step have "map ?tag (accepts_now env e m) = [] \<or> (\<exists>tag. map ?tag (accepts_now env e m) = [Some tag]
      \<and> tag \<notin> seen (task_replay (mix_task m)) \<and> tag \<in> seen (task_replay (mix_task ?m)))" by blast
  then show ?case
  proof (elim disjE exE conjE)
    assume "map ?tag (accepts_now env e m) = []"
    then show ?thesis using IH(1) later by simp
  next
    fix tag assume t: "map ?tag (accepts_now env e m) = [Some tag]" "tag \<notin> seen (task_replay (mix_task m))" "tag \<in> seen (task_replay (mix_task ?m))"
    then obtain x where x: "accepts_now env e m = [x]" "?tag x = Some tag" by auto
    have "Some tag \<notin> ?tag ` set (accepted env evs ?m)" using IH(2) t(3) by fastforce
    then show ?thesis using IH(1) later x t(2) by simp
  qed
qed simp

lemma accepts_now_processed:
  assumes "x \<in> set (accepts_now env e m)"
  shows "\<exists>rc next_hop. fst (process (env_lib env) (fst x) (node_secret (mix_node m)) rc) = Inr (Forward next_hop (snd x))"
proof (cases e)
  case RelayPacket
  have "ch_items (mix_inbound m) \<noteq> []"
  proof
    assume "ch_items (mix_inbound m) = []"
    then have "accepts_now env e m = []" by (simp add: accepts_now_def RelayPacket)
    then show False using assms by simp
  qed
  then obtain p ps where p: "ch_items (mix_inbound m) = p # ps" by (meson neq_Nil_conv)
  obtain r c where r: "process (env_lib env) p (node_secret (mix_node m)) (task_replay (mix_task m)) = (r, c)" by fastforce
  have run: "task_running (mix_task m)"
  proof (rule ccontr)
    assume "\<not> task_running (mix_task m)"
    then have "accepts_now env e m = []" by (simp add: accepts_now_def RelayPacket p)
    then show False using assms by simp
  qed
  have "accepts_now env e m = (case r of Inr (Forward _ q) \<Rightarrow> [(p, q)] | _ \<Rightarrow> [])"
    by (simp add: accepts_now_def RelayPacket p r run)
  then have "x \<in> set (case r of Inr (Forward _ q) \<Rightarrow> [(p, q)] | _ \<Rightarrow> [])" using assms by simp
  then obtain next_hop where "r = Inr (Forward next_hop (snd x))" "p = fst x" by (auto split: sum.splits Processed.splits)
  then show ?thesis using r by (metis fst_conv)
qed (use assms in \<open>simp_all add: accepts_now_def\<close>)

lemma accepted_processed:
  "\<forall>(p, q) \<in> set (accepted env evs m). \<exists>rc next_hop. fst (process (env_lib env) p (node_secret (mix_node m)) rc) = Inr (Forward next_hop q)"
proof (induction evs arbitrary: m)
  case (Cons e evs)
  show ?case using Cons[of "mix_step env e m"] accepts_now_processed[of _ env e m] by (fastforce simp: step_keeps(1))
qed simp

section \<open>What leaves was peeled\<close>

text \<open>The packets on the way out of a relay: forwarded, queued for a peer, or handed to the exit.\<close>

definition outgoing :: "('xs, 'ms, 'mp, 'r, 'w) mix \<Rightarrow> SphinxPacket multiset" where
  "outgoing m =
     mset (map fwd_packet (ch_items (task_outbound (mix_task m)))) + image_mset fwd_packet (mset (queued (ro_slots (mix_router m))))
     + mset (case ro_exit (mix_router m) of None \<Rightarrow> [] | Some out \<Rightarrow> out)"

lemma queued_set_weight: "mset (queued (slot_set_weight k w slots)) = mset (queued slots)"
proof (cases "k < length slots")
  case True
  show ?thesis
    using queued_update[OF True, of "map_option (\<lambda>s. s\<lparr>slot_weight := max w DEFAULT_PEER_QUEUE_WEIGHT\<rparr>) (slots ! k)"] True
    by (cases "slots ! k") (simp_all add: slot_set_weight_def Let_def)
qed (simp add: slot_set_weight_def)

lemma queued_enqueue: "mset (queued (fst (slot_enqueue cap k x slots d))) \<subseteq># mset (queued slots) + {#x#}"
proof (cases "k < length slots \<and> slots ! k \<noteq> None \<and> length (rx_items (the (slots ! k))) < cap")
  case True
  then obtain s where s: "slots ! k = Some s" by blast
  have "mset (queued (slots[k := Some (s\<lparr>rx_items := rx_items s @ [x]\<rparr>)])) = mset (queued slots) + {#x#}"
    using queued_update[of k slots "Some (s\<lparr>rx_items := rx_items s @ [x]\<rparr>)"] True s by simp
  then show ?thesis using True s by (simp add: slot_enqueue_def)
next
  case False
  then have "fst (slot_enqueue cap k x slots d) = slots" by (auto simp: slot_enqueue_def split: option.split)
  then show ?thesis by simp
qed

lemma process_one_outbound:
  "ch_items (task_outbound (snd (process_one_packet L next_u64 log_e node p s))) = ch_items (task_outbound s)
   \<or> (\<exists>next_hop q f. fst (process L p (node_secret node) (task_replay s)) = Inr (Forward next_hop q) \<and> fwd_packet f = q
      \<and> ch_items (task_outbound (snd (process_one_packet L next_u64 log_e node p s))) = ch_items (task_outbound s) @ [f])"
  by (auto simp: process_one_packet_def try_send_drop_newest_def Let_def split: prod.split sum.split Processed.split CryptoError.split)

lemma route_outgoing:
  "image_mset fwd_packet (mset (queued (ro_slots (route_outbound peers h f ro))))
     + mset (case ro_exit (route_outbound peers h f ro) of None \<Rightarrow> [] | Some out \<Rightarrow> out)
   \<subseteq># {#fwd_packet f#} + image_mset fwd_packet (mset (queued (ro_slots ro))) + mset (case ro_exit ro of None \<Rightarrow> [] | Some out \<Rightarrow> out)"
proof -
  have "image_mset fwd_packet (mset (queued (fst (slot_enqueue cap k f (slot_set_weight k w (ro_slots ro)) d))))
      \<subseteq># {#fwd_packet f#} + image_mset fwd_packet (mset (queued (ro_slots ro)))" for cap k w d
    using image_mset_subseteq_mono[OF queued_enqueue[of cap k f "slot_set_weight k w (ro_slots ro)" d], of fwd_packet]
    by (simp add: queued_set_weight)
  then show ?thesis by (auto simp: route_outbound_fate subset_mset.add_right_mono split: option.split)
qed

lemma drain_outgoing:
  "image_mset fwd_packet (mset (queued (ro_slots (fst (outbound_drain_step L N A connect c peers (ro, eg))))))
   \<subseteq># image_mset fwd_packet (mset (queued (ro_slots ro)))"
proof -
  obtain r slots cursor where t: "fair_wfq_take_one (ro_slots ro) (ro_cursor ro) = (r, slots, cursor)" by (metis prod_cases3)
  have "ro_slots (fst (outbound_drain_step L N A connect c peers (ro, eg))) = slots"
    by (simp add: outbound_drain_step_def t Let_def split: option.split prod.split sum.split)
  moreover have "mset (queued slots) \<subseteq># mset (queued (ro_slots ro))" using take_conserves[OF t] by simp
  ultimately show ?thesis by (simp add: image_mset_subseteq_mono)
qed

lemma outbound_drain_exit [simp]: "ro_exit (fst (outbound_drain_step L N A connect c peer_table (ro, eg))) = ro_exit ro"
  by (simp add: outbound_drain_step_def Let_def split: prod.split option.split sum.split)

lemma step_outgoing: "outgoing (mix_step env e m) \<subseteq># outgoing m + mset (map snd (accepts_now env e m))"
proof (cases e)
  case RelayPacket
  show ?thesis
  proof (cases "task_running (mix_task m) \<and> ch_items (mix_inbound m) \<noteq> []")
    case True
    then obtain p ps where p: "ch_items (mix_inbound m) = p # ps" by (auto simp: neq_Nil_conv)
    obtain res t where t: "process_one_packet (env_lib env) (env_next_u64 env) (env_log env) (mix_node m) p (mix_task m) = (res, t)" by fastforce
    show ?thesis
      using True p t process_one_outbound[of "env_lib env" "env_next_u64 env" "env_log env" "mix_node m" p "mix_task m"]
      by (auto simp: RelayPacket outgoing_def accepts_now_def)
  qed (auto simp: RelayPacket outgoing_def split: list.split)
next
  case RouteForwarded
  show ?thesis
    using route_outgoing[of "mix_peers m" "mix_health m" _ "mix_router m"]
    by (auto simp: RouteForwarded outgoing_def accepts_now_def split: list.split)
next
  case DrainOutbound
  obtain ro eg where d: "outbound_drain_step (env_lib env) (env_noise env) (env_aead env) (env_connect env) (mix_link m) (mix_peers m)
      (mix_router m, shared m (mix_egress m)) = (ro, eg)" by fastforce
  have "image_mset fwd_packet (mset (queued (ro_slots ro))) \<subseteq># image_mset fwd_packet (mset (queued (ro_slots (mix_router m))))"
    "ro_exit ro = ro_exit (mix_router m)"
    using d drain_outgoing outbound_drain_exit by (metis fst_conv)+
  then show ?thesis by (simp add: DrainOutbound outgoing_def accepts_now_def share_back_def d)
qed (auto simp: outgoing_def accepts_now_def share_back_def round_command_keeps Let_def split: prod.split option.split)

lemma run_outgoing: "outgoing (mix_run env evs m) \<subseteq># outgoing m + mset (map snd (accepted env evs m))"
proof (induction evs arbitrary: m)
  case (Cons e evs)
  have "outgoing (mix_run env (e # evs) m) \<subseteq># outgoing (mix_step env e m) + mset (map snd (accepted env evs (mix_step env e m)))"
    using Cons[of "mix_step env e m"] by (simp add: mix_run_def)
  also have "\<dots> \<subseteq># outgoing m + mset (map snd (accepts_now env e m)) + mset (map snd (accepted env evs (mix_step env e m)))"
    using step_outgoing by (rule subset_mset.add_right_mono)
  finally show ?case by (simp add: ac_simps)
qed (simp add: mix_run_def)

text \<open>
  C7. A relay under any order of its tasks: frames arrive, queues drain, commands and gossip come in whatever interleaving, and the same packet
  may be delivered repeatedly. Suppose the relay starts with a fresh replay cache and nothing on the way out, and its task takes at most as
  many packets, repeated ones included, as the replay window holds (850 000 in the default cache; beyond that the cache forgets and a packet can
  be emitted again). Then the packets it accepts have pairwise different headers, and what is on the way out (forwarded, queued for a peer, or
  at the exit) are packets peeled from these, each at most once.
\<close>

theorem relay_emits_once:
  assumes "fresh_cache (task_replay (mix_task m))" "length (filter is_relay_packet evs) \<le> replay_window (task_replay (mix_task m))"
    and "outgoing m = {#}"
  shows "distinct (map (\<lambda>(p, q). header_bytes p) (accepted env evs m))
    \<and> (\<forall>(p, q) \<in> set (accepted env evs m). \<exists>rc next_hop. fst (process (env_lib env) p (node_secret (mix_node m)) rc) = Inr (Forward next_hop q))
    \<and> outgoing (mix_run env evs m) \<subseteq># mset (map snd (accepted env evs m))"
proof (intro conjI)
  let ?tag = "header_tag (env_lib env) (node_secret (mix_node m))"
  have inv: "replay_inv (task_replay (mix_task m))" "seen (task_replay (mix_task m)) = {}" using assms(1) by (simp_all add: fresh_cache_def)
  have "replay_keeps (task_replay (mix_task m)) (length (filter is_relay_packet evs))"
    using assms(2) inv(2) by (simp add: replay_keeps_def replay_len_def)
  from accepted_tags[OF inv(1) this, of env] have "distinct (map ?tag (map (\<lambda>(p, q). header_bytes p) (accepted env evs m)))"
    by (simp add: o_def split_beta)
  then show "distinct (map (\<lambda>(p, q). header_bytes p) (accepted env evs m))" by (metis distinct_map)
  show "\<forall>(p, q) \<in> set (accepted env evs m). \<exists>rc next_hop. fst (process (env_lib env) p (node_secret (mix_node m)) rc) = Inr (Forward next_hop q)"
    by (rule accepted_processed)
  show "outgoing (mix_run env evs m) \<subseteq># mset (map snd (accepted env evs m))" using run_outgoing[of env evs m] assms(3) by simp
qed

text \<open>A relay with one peer at most, and the same packet twice in its channel.\<close>

definition toy_mix_env :: "(nat, unit, unit, nat, unit, byte, byte, unit) mix_env" where
  "toy_mix_env = \<lparr>env_lib = toy_lib, env_noise = toy_noise, env_aead = toy_aead, env_sig = toy_sig, env_io = None,
     env_connect = (\<lambda>_ w. (Inl NetIo, w)), env_addr_key = length, env_next_u64 = (\<lambda>r. (7, r)), env_log = (\<lambda>x. x)\<rparr>"

definition toy_pool :: "(string \<rightharpoonup> stream \<times> LinkKey) \<Rightarrow> (unit, nat) egress" where
  "toy_pool pool = \<lparr>eg_pool = pool, eg_world = (), eg_rng = 4, eg_clock = 0, eg_health = None\<rparr>"

definition toy_mix :: "nat \<Rightarrow> nat option \<Rightarrow> (nat, unit, unit, nat, unit) mix" where
  "toy_mix i next = (let ids = (case next of None \<Rightarrow> [] | Some j \<Rightarrow> [replicate 32 (of_nat j)]);
       slot = \<lparr>rx_items = [], rx_connected = True, slot_weight = 1, slot_credits = 0\<rparr> in
     \<lparr>mix_node = \<lparr>node_id = replicate 32 (of_nat i), node_secret = toy_key i, node_config = relay_config_default\<rparr>,
      mix_link = toy_config, mix_peers = map (\<lambda>i. (i, toy_peer)) ids, mix_health = None, mix_rng = 4, mix_world = (),
      mix_conn = \<lparr>ic_key = toy_psk, ic_peer = None, ic_slot = 0, ic_reassembler = reassembler_new,
        ic_rate = rate_limit_new ingress_rate_limit_disabled 0\<rparr>,
      mix_bridge = toy_bridge, mix_draining = True, mix_cursor = 0, mix_inbound = channel_new RELAY_CHANNEL_CAPACITY,
      mix_task = \<lparr>task_replay = with_capacity 5, task_stats = relay_stats_new, task_round = tracker_new_round,
        task_outbound = channel_new RELAY_CHANNEL_CAPACITY, task_cover = None, task_rng = 0, task_running = True\<rparr>,
      mix_router = \<lparr>ro_slots = map (\<lambda>_. Some slot) ids, ro_senders = map_of (map (\<lambda>i. (i, 0)) ids), ro_dropped = 0,
        ro_exit = Some [], ro_trace = None, ro_cursor = 0\<rparr>,
      mix_egress = toy_pool [peer_addr toy_peer \<mapsto> (toy_stream\<lparr>st_room := 18 * LINK_FRAME_LEN\<rparr>, toy_psk)],
      mix_cover_taken = 0, mix_cover_egress = toy_pool Map.empty, mix_gossip_egress = toy_pool Map.empty\<rparr>)"

definition toy_twice :: "(nat, unit, unit, nat, unit) mix" where
  "toy_twice = (toy_mix 1 (Some 2))\<lparr>mix_inbound := (channel_new RELAY_CHANNEL_CAPACITY)\<lparr>ch_items := [toy_packet, toy_packet]\<rparr>\<rparr>"

theorem relay_emits_once_witness:
  "let evs = [RelayPacket, RouteForwarded, RelayPacket, RouteForwarded] in
    distinct (map (\<lambda>(p, q). header_bytes p) (accepted toy_mix_env evs toy_twice))
    \<and> outgoing (mix_run toy_mix_env evs toy_twice) \<subseteq># mset (map snd (accepted toy_mix_env evs toy_twice))"
proof -
  have h: "fresh_cache (task_replay (mix_task toy_twice))"
    "length (filter is_relay_packet [RelayPacket, RouteForwarded, RelayPacket, RouteForwarded]) \<le> replay_window (task_replay (mix_task toy_twice))"
    "outgoing toy_twice = {#}"
    using fresh_with_capacity[of 5]
    by (simp_all add: toy_twice_def toy_mix_def Let_def replay_window_def with_capacity_def MIN_CAPACITY_FOR_PRESSURE_ADVANCE_def outgoing_def
        channel_new_def queued_def)
  show ?thesis unfolding Let_def using relay_emits_once[OF h, of toy_mix_env] by blast
qed

end
