(* ===== verification/Network.thy ===== *)
theory Network
  imports Relay_Tasks Client_Send Exit_Sink
begin

text \<open>
  A row of relays, each the tasks of Relay_Tasks: what one writes on a pooled connection the next one reads.
\<close>

section \<open>A row of relays\<close>

text \<open>What a relay has written to a peer is what the peer reads.\<close>

definition written_to :: "bytes \<Rightarrow> ('xs, 'ms, 'mp, 'r, 'w) mix \<Rightarrow> bytes" where
  "written_to i m =
     (case map_of (mix_peers m) i of
        None \<Rightarrow> []
      | Some peer \<Rightarrow> (case eg_pool (mix_egress m) (peer_addr peer) of None \<Rightarrow> [] | Some (s, _) \<Rightarrow> st_out s))"

definition arriving :: "bytes \<Rightarrow> stream" where
  "arriving bs = \<lparr>st_in = bs, st_out = [], st_room = 0, st_eof = False\<rparr>"

definition one_turn :: "clock list \<Rightarrow> bytes \<Rightarrow> mix_event list" where
  "one_turn clks bs = [FramesArrive clks (arriving bs), DrainInbound, RelayPacket, RouteForwarded, DrainOutbound]"

fun relay_row ::
    "('xs, 'ms, 'mp, 'r, 'h, 'sk, 'vk, 'w) mix_env \<Rightarrow> clock list \<Rightarrow> bytes \<Rightarrow> ('xs, 'ms, 'mp, 'r, 'w) mix list \<Rightarrow> ('xs, 'ms, 'mp, 'r, 'w) mix list" where
  "relay_row env clks bs [] = []"
| "relay_row env clks bs (m # ms) =
     (let m' = mix_run env (one_turn clks bs) m in
      m' # relay_row env clks (case ms of [] \<Rightarrow> [] | m2 # _ \<Rightarrow> written_to (node_id (mix_node m2)) m') ms)"

section \<open>Queues with one packet\<close>

lemma enqueue_then_take:
  assumes "hub_wf slots" "all_outbound_slots_empty slots" "i < length slots" "slots ! i \<noteq> None" "0 < cap"
    and e: "slot_enqueue cap i x slots d = (slots1, d1)"
  shows "\<exists>slots2 cursor2. fair_wfq_take_one slots1 cursor = (Some x, slots2, cursor2) \<and> queued slots2 = [] \<and> hub_wf slots2"
proof -
  obtain s where s: "slots ! i = Some s" using assms(4) by blast
  have "Some s \<in> set slots" using assms(3) s by (metis nth_mem)
  then have items: "rx_items s = []" using assms(2) by (auto simp: all_outbound_slots_empty_def list_all_iff split: option.splits)
  let ?s = "s\<lparr>rx_items := [x]\<rparr>"
  have slots1: "slots1 = slots[i := Some ?s]" using e assms(3,5) s items by (simp add: slot_enqueue_def split: if_splits)
  have wf: "hub_wf slots1"
    unfolding slots1 using hub_wf_nth[OF assms(1,3) s] by (intro hub_wf_update assms(1)) auto
  have "queued slots = []" using assms(2) by (auto simp: queued_def all_outbound_slots_empty_def list_all_iff split: option.splits)
  then have q: "mset (queued slots1) = {#x#}" using queued_update[OF assms(3), of "Some ?s"] s items by (simp add: slots1)
  have "slots1 ! i = Some ?s" "i < length slots1" using assms(3) by (simp_all add: slots1)
  then have "Some ?s \<in> set slots1" by (metis nth_mem)
  then have ne: "\<not> all_outbound_slots_empty slots1" by (force simp: all_outbound_slots_empty_def list_all_iff)
  obtain r slots2 cursor2 where t: "fair_wfq_take_one slots1 cursor = (r, slots2, cursor2)" by (metis prod_cases3)
  obtain y where y: "r = Some y" "hub_wf slots2" using take_some[OF wf ne t] by blast
  then have "mset (queued slots2) + {#y#} = {#x#}" using take_conserves[OF t] q by simp
  then have "y = x" "queued slots2 = []" by (simp_all add: add_mset_eq_single)
  then show ?thesis using t y by blast
qed

lemma reweighed:
  assumes "hub_wf slots" "all_outbound_slots_empty slots" "i < length slots" "slots ! i \<noteq> None" "w \<le> MAX_PEER_QUEUE_WEIGHT"
  shows "hub_wf (slot_set_weight i w slots) \<and> all_outbound_slots_empty (slot_set_weight i w slots)
    \<and> i < length (slot_set_weight i w slots) \<and> slot_set_weight i w slots ! i \<noteq> None"
proof -
  obtain s where s: "slots ! i = Some s" using assms(4) by blast
  have in_set: "Some s \<in> set slots" using assms(3) s by (metis nth_mem)
  have w: "max w DEFAULT_PEER_QUEUE_WEIGHT \<le> MAX_PEER_QUEUE_WEIGHT"
    using assms(5) by (simp add: DEFAULT_PEER_QUEUE_WEIGHT_def MAX_PEER_QUEUE_WEIGHT_def)
  have eq: "slot_set_weight i w slots = slots[i := Some (s\<lparr>slot_weight := max w DEFAULT_PEER_QUEUE_WEIGHT\<rparr>)]"
    using assms(3) s by (simp add: slot_set_weight_def)
  have "hub_wf (slot_set_weight i w slots)"
    unfolding eq using hub_wf_nth[OF assms(1,3) s] w by (intro hub_wf_update assms(1)) auto
  moreover have "all_outbound_slots_empty (slot_set_weight i w slots)"
    unfolding eq using assms(2) in_set set_update_subset_insert[of slots i "Some (s\<lparr>slot_weight := max w DEFAULT_PEER_QUEUE_WEIGHT\<rparr>)"]
    by (fastforce simp: all_outbound_slots_empty_def list_all_iff)
  ultimately show ?thesis using assms(3) by (simp add: eq)
qed

section \<open>One relay passes a packet on\<close>

text \<open>A relay with nothing on its way, and the pooled connection from one to the next with room for a packet.\<close>

definition ready :: "'a mpsc_channel \<Rightarrow> bool" where
  "ready ch \<longleftrightarrow> ch_items ch = [] \<and> \<not> ch_closed ch \<and> 0 < ch_capacity ch"

definition mix_idle :: "('xs, 'ms, 'mp, 'r, 'w) mix \<Rightarrow> bool" where
  "mix_idle m \<longleftrightarrow>
     mix_draining m \<and> task_running (mix_task m) \<and> ready (mix_inbound m) \<and> ready (task_outbound (mix_task m))
     \<and> ic_reassembler (mix_conn m) = reassembler_new
     \<and> hub_wf (br_slots (mix_bridge m)) \<and> all_outbound_slots_empty (br_slots (mix_bridge m))
     \<and> ic_slot (mix_conn m) < length (br_slots (mix_bridge m)) \<and> br_slots (mix_bridge m) ! ic_slot (mix_conn m) \<noteq> None
     \<and> hub_wf (ro_slots (mix_router m)) \<and> all_outbound_slots_empty (ro_slots (mix_router m))"

text \<open>Its ingress rate limit is off, which is not the default.\<close>

definition mix_unlimited :: "('xs, 'ms, 'mp, 'r, 'w) mix \<Rightarrow> bool" where
  "mix_unlimited m \<longleftrightarrow> \<not> rate_limit_is_active (rl_config (ic_rate (mix_conn m)))"

definition mix_open :: "('xs, 'ms, 'mp, 'r, 'w) mix \<Rightarrow> bool" where
  "mix_open m \<longleftrightarrow> mix_idle m \<and> mix_unlimited m"

definition mix_linked :: "('xs, 'ms, 'mp, 'r, 'w) mix \<Rightarrow> ('xs, 'ms, 'mp, 'r, 'w) mix \<Rightarrow> bool" where
  "mix_linked m m' \<longleftrightarrow>
     (case map_of (mix_peers m) (node_id (mix_node m')) of
        None \<Rightarrow> False
      | Some peer \<Rightarrow>
          (case eg_pool (mix_egress m) (peer_addr peer) of
             None \<Rightarrow> False
           | Some (s, key) \<Rightarrow> key = ic_key (mix_conn m') \<and> st_out s = [] \<and> 18 * LINK_FRAME_LEN \<le> st_room s)
          \<and> (case ro_senders (mix_router m) (node_id (mix_node m')) of
               None \<Rightarrow> False
             | Some k \<Rightarrow> k < length (ro_slots (mix_router m)) \<and> ro_slots (mix_router m) ! k \<noteq> None))"

text \<open>The bytes are the frames of the packet under the key.\<close>

definition link_carries :: "('xs, 'ms, 'mp, 'r) crypto_lib \<Rightarrow> aead_lib \<Rightarrow> LinkKey \<Rightarrow> bytes \<Rightarrow> SphinxPacket \<Rightarrow> bool" where
  "link_carries L A key bs p \<longleftrightarrow>
     (\<exists>s rng s' rng'. write_packet_with_key A (lib_fill_bytes L) key p (s, rng) = (Inr (), s', rng') \<and> st_out s = [] \<and> bs = st_out s')"

lemma lib_fill_length: "lib_lengths L \<Longrightarrow> length (fst (lib_fill_bytes L rng n)) = n"
  by (simp add: lib_lengths_def)

lemma packet_frames_length:
  assumes "lib_lengths L" "aead_laws A" "write_packet_with_key A (lib_fill_bytes L) key p (s, rng) = (Inr (), s', rng')"
  shows "length (st_out s') = length (st_out s) + 18 * LINK_FRAME_LEN"
proof -
  obtain pid rng1 where pid: "lib_fill_bytes L rng 8 = (pid, rng1)" by fastforce
  have len: "length pid = 8" using lib_fill_length[OF assms(1), of rng 8] pid by simp
  have cells: "list_all wf_cell (fragment p pid)" using wf_fragment[OF len] by (simp add: list_all_iff)
  have w: "write_cells A (lib_fill_bytes L) key (fragment p pid) (s, rng1) = (Inr (), s', rng')"
    using assms(3) pid by (simp add: write_packet_with_key_def fragment_with_random_id_def)
  obtain fs where fs: "list_all2 (\<lambda>f cell. length f = LINK_FRAME_LEN \<and> link_open A key f = Inr cell) fs (fragment p pid)"
      "st_out s' = st_out s @ concat fs"
    using write_cells_frames[where fill = "lib_fill_bytes L", OF assms(2) lib_fill_length[OF assms(1)] cells w] by auto
  have "length fs = 18" using list_all2_lengthD[OF fs(1)] by (simp add: fragment_values)
  then show ?thesis using frames_length[OF fs(1)] fs(2) by simp
qed

lemma packet_written:
  assumes "lib_lengths L" "aead_laws A" "18 * LINK_FRAME_LEN \<le> st_room s"
  shows "\<exists>s' rng'. write_packet_with_key A (lib_fill_bytes L) key p (s, rng) = (Inr (), s', rng')"
proof -
  obtain pid rng1 where pid: "lib_fill_bytes L rng 8 = (pid, rng1)" by fastforce
  have len: "length pid = 8" using lib_fill_length[OF assms(1), of rng 8] pid by simp
  have cells: "list_all wf_cell (fragment p pid)" using wf_fragment[OF len] by (simp add: list_all_iff)
  have room: "length (fragment p pid) * LINK_FRAME_LEN \<le> st_room s" using assms(3) by (simp add: fragment_values)
  from write_cells_ok[where fill = "lib_fill_bytes L", OF assms(2) lib_fill_length[OF assms(1)] cells room, of key rng1]
  show ?thesis using pid by (auto simp: write_packet_with_key_def fragment_with_random_id_def)
qed

lemma frames_reach_task:
  assumes "lib_lengths (env_lib env)" "aead_laws (env_aead env)" "mix_open m" "wf_packet p" "18 < length clks"
    and "link_carries (env_lib env) (env_aead env) (ic_key (mix_conn m)) bs p"
  shows "\<exists>conn br h cur. mix_step env DrainInbound (mix_step env (FramesArrive clks (arriving bs)) m)
    = m\<lparr>mix_conn := conn, mix_health := h, mix_bridge := br, mix_cursor := cur, mix_inbound := (mix_inbound m)\<lparr>ch_items := [p]\<rparr>, mix_draining := True\<rparr>"
proof -
  let ?L = "env_lib env" and ?A = "env_aead env" and ?br = "(mix_bridge m)\<lparr>br_health := mix_health m\<rparr>"
  obtain s rng s' rng' where w: "write_packet_with_key ?A (lib_fill_bytes ?L) (ic_key (mix_conn m)) p (s, rng) = (Inr (), s', rng')"
      "st_out s = []" "bs = st_out s'" using assms(6) by (auto simp: link_carries_def)
  have idle: "ic_reassembler (mix_conn m) = reassembler_new" "\<not> rate_limit_is_active (rl_config (ic_rate (mix_conn m)))"
    "ic_slot (mix_conn m) < length (br_slots ?br)" "br_slots ?br ! ic_slot (mix_conn m) \<noteq> None"
    using assms(3) by (simp_all add: mix_open_def mix_unlimited_def mix_idle_def)
  have sent: "send_all ?A (lib_fill_bytes ?L) (ic_key (mix_conn m)) [SentPacket p] (s, rng) 0 = (Inr (), s', rng')"
    using w(1) by (simp add: io_then_def)
  have "18 * LINK_FRAME_LEN < length clks * LINK_FRAME_LEN" using assms(5) by (intro mult_less_mono1) (simp_all add: link_values)
  then have "length (st_out s') < length clks * LINK_FRAME_LEN" using packet_frames_length[OF assms(1,2) w(1)] w(2) by simp
  from link_delivers[OF assms(2) lib_fill_length[OF assms(1)] _ sent w(2) refl idle this, where s = "arriving bs"]
  obtain conn br where l: "inbound_loop ?A (env_sig env) (env_io env) (mix_link m) (mix_peers m) clks (arriving bs) (mix_conn m) ?br
      = (Some (Inl (if st_eof (arriving bs) then NetIo else ReadTimeout)), conn, br)"
    and q: "(br_slots br, br_queue_dropped br)
      = slot_enqueue PER_PEER_INBOUND_CAPACITY (ic_slot (mix_conn m)) p (br_slots (mix_bridge m)) (br_queue_dropped (mix_bridge m))"
    using assms(4) w(3) by (fastforce simp: arriving_def)
  have slots: "hub_wf (br_slots (mix_bridge m))" "all_outbound_slots_empty (br_slots (mix_bridge m))"
    "ic_slot (mix_conn m) < length (br_slots (mix_bridge m))" "br_slots (mix_bridge m) ! ic_slot (mix_conn m) \<noteq> None" "0 < PER_PEER_INBOUND_CAPACITY"
    using assms(3) by (simp_all add: mix_open_def mix_unlimited_def mix_idle_def PER_PEER_INBOUND_CAPACITY_def)
  obtain slots2 cur where "fair_wfq_take_one (br_slots br) (mix_cursor m) = (Some p, slots2, cur)"
    using enqueue_then_take[OF slots q[symmetric]] by blast
  then show ?thesis
    using assms(3)
    by (simp add: l mix_open_def mix_idle_def ready_def inbound_drain_step_def try_send_drop_newest_def) (rule exI, rule exI, rule exI, rule exI, rule refl)
qed

lemma task_forwards:
  assumes "mix_idle m" "process (env_lib env) p (node_secret (mix_node m)) (task_replay (mix_task m)) = (Inr (Forward next_hop q), cache)"
    and "\<not> is_cover_sink_hop next_hop" "ch_items (mix_inbound m1) = [p]"
    and "mix_task m1 = mix_task m" "mix_node m1 = mix_node m"
  shows "\<exists>t ch f. mix_step env RouteForwarded (mix_step env RelayPacket m1)
    = m1\<lparr>mix_inbound := ch, mix_task := t, mix_router := route_outbound (mix_peers m1) (mix_health m1) f (mix_router m1)\<rparr>
    \<and> fwd_next_hop f = next_hop \<and> fwd_packet f = q"
proof -
  obtain delay rng where d: "sample_mixing_delay (env_next_u64 env) (env_log env) (rc_mu (node_config (mix_node m))) (task_rng (mix_task m)) = (delay, rng)"
    by fastforce
  have r: "ready (task_outbound (mix_task m))" "task_running (mix_task m)" using assms(1) by (simp_all add: mix_idle_def)
  show ?thesis
    using assms(2-) d r
    by (simp add: process_one_packet_def ready_def try_send_drop_newest_def Let_def) (rule exI, rule exI, rule exI, rule conjI, rule refl, simp)
qed

lemma last_hop_exits:
  assumes "map_of (mix_peers m1) (fwd_next_hop f) = None" "ro_exit ro = Some out"
    and "mix_router m1 = route_outbound (mix_peers m1) h f ro"
  shows "ro_exit (mix_router (mix_step env DrainOutbound m1)) = Some (out @ [fwd_packet f])"
proof -
  obtain ro1 eg where d: "outbound_drain_step (env_lib env) (env_noise env) (env_aead env) (env_connect env) (mix_link m1) (mix_peers m1)
      (mix_router m1, shared m1 (mix_egress m1)) = (ro1, eg)" by fastforce
  have "ro_exit (mix_router m1) = Some (out @ [fwd_packet f])" using assms by (simp add: route_outbound_fate)
  then have "ro_exit ro1 = Some (out @ [fwd_packet f])" by (metis d fst_conv outbound_drain_exit)
  then show ?thesis by (simp add: d share_back_def)
qed

lemma pooled_packet_sent:
  assumes "lib_lengths L" "aead_laws A" "eg_pool eg (peer_addr peer) = Some (s, key)" "st_out s = []" "18 * LINK_FRAME_LEN \<le> st_room s"
  shows "\<exists>s' eg'. forward_to_peer L N A connect c i peer p eg = (Inr (), eg')
    \<and> eg_pool eg' (peer_addr peer) = Some (s', key) \<and> link_carries L A key (st_out s') p"
proof -
  obtain s' rng' where w: "write_packet_with_key A (lib_fill_bytes L) key p (s, eg_rng eg) = (Inr (), s', rng')"
    using packet_written[OF assms(1,2,5)] by blast
  then have "link_carries L A key (st_out s') p" using assms(4) unfolding link_carries_def by blast
  then show ?thesis
    using assms(3) w by (simp add: forward_to_peer_def pooled_send_def get_or_handshake_def write_on_def eg_outcome_def)
qed

lemma next_hop_receives:
  assumes "lib_lengths (env_lib env)" "aead_laws (env_aead env)" "mix_idle m" "mix_linked m m'" "fwd_next_hop f = node_id (mix_node m')"
    and "mix_router m1 = route_outbound (mix_peers m1) h f (mix_router m)" "mix_peers m1 = mix_peers m" "mix_egress m1 = mix_egress m"
  shows "link_carries (env_lib env) (env_aead env) (ic_key (mix_conn m')) (written_to (node_id (mix_node m')) (mix_step env DrainOutbound m1)) (fwd_packet f)"
proof -
  obtain peer s k where l: "map_of (mix_peers m) (fwd_next_hop f) = Some peer"
    "eg_pool (mix_egress m) (peer_addr peer) = Some (s, ic_key (mix_conn m'))" "st_out s = []" "18 * LINK_FRAME_LEN \<le> st_room s"
    "ro_senders (mix_router m) (fwd_next_hop f) = Some k" "k < length (ro_slots (mix_router m))" "ro_slots (mix_router m) ! k \<noteq> None"
    using assms(4,5) by (auto simp: mix_linked_def split: option.splits)
  let ?slots = "slot_set_weight k (peer_queue_weight_for (Some (fwd_next_hop f)) h) (ro_slots (mix_router m))"
  obtain slots1 d1 where e: "slot_enqueue PER_PEER_OUTBOUND_CAPACITY k f ?slots (ro_dropped (mix_router m)) = (slots1, d1)" by fastforce
  have idle: "hub_wf (ro_slots (mix_router m))" "all_outbound_slots_empty (ro_slots (mix_router m))" using assms(3) by (simp_all add: mix_idle_def)
  have w: "hub_wf ?slots" "all_outbound_slots_empty ?slots" "k < length ?slots" "?slots ! k \<noteq> None" "0 < PER_PEER_OUTBOUND_CAPACITY"
    using reweighed[OF idle l(6,7) health_weight_le] by (simp_all add: PER_PEER_OUTBOUND_CAPACITY_def)
  have ro: "mix_router m1 = (mix_router m)\<lparr>ro_slots := slots1, ro_dropped := d1\<rparr>"
    using assms(6,7) l(1,5) e by (simp add: route_outbound_fate)
  obtain slots2 cursor2 where t: "fair_wfq_take_one slots1 (ro_cursor (mix_router m)) = (Some f, slots2, cursor2)"
    using enqueue_then_take[OF w e] by blast
  have pool: "eg_pool (shared m1 (mix_egress m1)) (peer_addr peer) = Some (s, ic_key (mix_conn m'))" using l(2) assms(8) by (simp add: shared_def)
  obtain s' eg' where f: "forward_to_peer (env_lib env) (env_noise env) (env_aead env) (env_connect env) (mix_link m1) (fwd_next_hop f) peer (fwd_packet f)
        (shared m1 (mix_egress m1)) = (Inr (), eg')"
      "eg_pool eg' (peer_addr peer) = Some (s', ic_key (mix_conn m'))" "link_carries (env_lib env) (env_aead env) (ic_key (mix_conn m')) (st_out s') (fwd_packet f)"
    using pooled_packet_sent[OF assms(1,2) pool l(3,4)] by blast
  have "outbound_drain_step (env_lib env) (env_noise env) (env_aead env) (env_connect env) (mix_link m1) (mix_peers m1)
      (mix_router m1, shared m1 (mix_egress m1))
    = ((mix_router m1)\<lparr>ro_slots := slots2, ro_cursor := cursor2,
         ro_trace := record_forward (of_nat SPHINX_FRAGMENT_COUNT) (ro_trace (mix_router m1))\<rparr>, eg')"
    using t f(1) l(1) assms(7) by (simp add: outbound_drain_step_def ro)
  then show ?thesis using l(1) assms(5,7) f(2,3) by (simp add: written_to_def share_back_def)
qed

text \<open>One turn of an idle relay: what the relay task makes of the packet goes to its next hop, or to the exit.\<close>

lemma one_turn_forwards:
  assumes "lib_lengths (env_lib env)" "aead_laws (env_aead env)" "mix_open m" "wf_packet p" "18 < length clks"
    and "link_carries (env_lib env) (env_aead env) (ic_key (mix_conn m)) bs p"
    and "process (env_lib env) p (node_secret (mix_node m)) (task_replay (mix_task m)) = (Inr (Forward next_hop q), cache)"
    and "\<not> is_cover_sink_hop next_hop"
  shows "(map_of (mix_peers m) next_hop = None \<longrightarrow> ro_exit (mix_router m) = Some out
      \<longrightarrow> ro_exit (mix_router (mix_run env (one_turn clks bs) m)) = Some (out @ [q]))
    \<and> (next_hop = node_id (mix_node m') \<longrightarrow> mix_linked m m'
      \<longrightarrow> link_carries (env_lib env) (env_aead env) (ic_key (mix_conn m')) (written_to next_hop (mix_run env (one_turn clks bs) m)) q)"
proof -
  have idle: "mix_idle m" using assms(3) by (simp add: mix_open_def)
  obtain conn br h cur where a: "mix_step env DrainInbound (mix_step env (FramesArrive clks (arriving bs)) m)
      = m\<lparr>mix_conn := conn, mix_health := h, mix_bridge := br, mix_cursor := cur, mix_inbound := (mix_inbound m)\<lparr>ch_items := [p]\<rparr>, mix_draining := True\<rparr>"
    (is "_ = ?m1") using frames_reach_task[OF assms(1-6)] by blast
  obtain t ch f where b: "mix_step env RouteForwarded (mix_step env RelayPacket ?m1)
      = ?m1\<lparr>mix_inbound := ch, mix_task := t, mix_router := route_outbound (mix_peers ?m1) (mix_health ?m1) f (mix_router ?m1)\<rparr>"
    and f: "fwd_next_hop f = next_hop" "fwd_packet f = q"
    using task_forwards[OF idle assms(7,8), of ?m1] by auto
  let ?m2 = "?m1\<lparr>mix_inbound := ch, mix_task := t, mix_router := route_outbound (mix_peers ?m1) (mix_health ?m1) f (mix_router ?m1)\<rparr>"
  have run: "mix_run env (one_turn clks bs) m = mix_step env DrainOutbound ?m2"
    unfolding mix_run_def one_turn_def fold_simps o_apply id_apply a b by (rule refl)
  have r: "mix_router ?m2 = route_outbound (mix_peers ?m2) h f (mix_router m)" "mix_peers ?m2 = mix_peers m" "mix_egress ?m2 = mix_egress m" by simp_all
  show ?thesis
    unfolding run
    using last_hop_exits[of ?m2 f "mix_router m" out h env] next_hop_receives[OF assms(1,2) idle, of m' f ?m2 h] r f by simp
qed

section \<open>The row\<close>

definition mix_keys :: "('xs, 'ms, 'mp, 'r, 'w) mix list \<Rightarrow> (('xs, 'ms) RelayKemSecret \<times> ReplayCache) list" where
  "mix_keys ms = map (\<lambda>m. (node_secret (mix_node m), task_replay (mix_task m))) ms"

lemma row_delivers:
  assumes "lib_lengths (env_lib env)" "aead_laws (env_aead env)" "18 < length clks"
    and "list_all mix_open ms" "successively mix_linked ms" "ms \<noteq> []" "wf_packet p"
    and "link_carries (env_lib env) (env_aead env) (ic_key (mix_conn (hd ms))) bs p"
    and "traverse (env_lib env) p (mix_keys ms) = Inr (map (\<lambda>m. node_id (mix_node m)) (tl ms) @ [hop], q)"
    and "list_all (\<lambda>m. \<not> is_cover_sink_hop (node_id (mix_node m))) (tl ms)" "\<not> is_cover_sink_hop hop"
    and "map_of (mix_peers (last ms)) hop = None" "ro_exit (mix_router (last ms)) = Some out"
  shows "ro_exit (mix_router (last (relay_row env clks bs ms))) = Some (out @ [q])"
  using assms(4-)
proof (induction ms arbitrary: p bs)
  case (Cons m ms)
  let ?L = "env_lib env"
  obtain r cache where pr: "process ?L p (node_secret (mix_node m)) (task_replay (mix_task m)) = (r, cache)" by fastforce
  then obtain next_hop p' hops where fwd: "r = Inr (Forward next_hop p')" "traverse ?L p' (mix_keys ms) = Inr (hops, q)"
    and hops: "next_hop # hops = map (\<lambda>m. node_id (mix_node m)) ms @ [hop]"
    using Cons.prems(6) by (cases r) (auto simp: mix_keys_def bind_result_Inr_iff split: Processed.splits)
  have wf: "wf_packet p'" using process_result[OF Cons.prems(4), of ?L "node_secret (mix_node m)" "task_replay (mix_task m)"] pr fwd(1) by simp
  have idle: "mix_open m" "link_carries ?L (env_aead env) (ic_key (mix_conn m)) bs p" using Cons.prems(1,5) by simp_all
  have sink: "\<not> is_cover_sink_hop next_hop" using hops Cons.prems(7,8) by (cases ms) auto
  note turn = one_turn_forwards[OF assms(1,2) idle(1) Cons.prems(4) assms(3) idle(2) pr[unfolded fwd(1)] sink]
  show ?case
  proof (cases ms)
    case Nil
    then have "next_hop = hop" "p' = q" using hops fwd(2) by (simp_all add: mix_keys_def)
    then show ?thesis using turn Cons.prems(9,10) Nil by simp
  next
    case m2: (Cons m2 ms')
    then have n: "next_hop = node_id (mix_node m2)" "hops = map (\<lambda>m. node_id (mix_node m)) (tl ms) @ [hop]" using hops by simp_all
    let ?bs = "written_to (node_id (mix_node m2)) (mix_run env (one_turn clks bs) m)"
    have "link_carries ?L (env_aead env) (ic_key (mix_conn (hd ms))) ?bs p'" using turn n(1) Cons.prems(2) m2 by simp
    then have "ro_exit (mix_router (last (relay_row env clks ?bs ms))) = Some (out @ [q])"
      using Cons.prems m2 fwd(2) n(2) wf by (intro Cons.IH[of p']) (simp_all add: successively_Cons)
    then show ?thesis using m2 by (simp add: Let_def)
  qed
qed simp

text \<open>
  C6. The network, end to end: a client builds a packet for its hops and writes it on its connection to the first. Suppose every relay of
  the row has its own key and a fresh replay cache, nothing on its way and open channels, a live slot for the sender, its ingress rate limit off
  (the default limit is on and loses the packet, as Link_Inbound shows), and a pooled connection, with the key of the next relay's and room for the packet, and
  an outbound slot to it; no hop is the cover sink; the exit task of the last relay is on and its delivery target writable; the clock of each
  link is read at least 19 times; and the payload is not empty and does not end in a zero byte. Then one turn of each relay carries the packet
  through frames, reassembly, fair queues, relay task, router and pooled link to the exit sink, and the line that is written starts with the
  digits of the payload. The id that the last relay finds is random: the theorem asks that it names no peer and no cover sink.
\<close>

theorem network_delivers:
  assumes "lib_lengths (env_lib env)" "lib_dh_commutes (env_lib env)" "lib_mlkem_correct (env_lib env)" "aead_laws (env_aead env)"
    and "\<And>h. h \<in> set hops \<Longrightarrow> length (ch_id h) = 32 \<and> \<not> is_cover_sink_hop (ch_id h)"
    and "build_packet_with_options (env_lib env) hops payload rng opts = (Inr p, rng1)"
    and "write_packet_with_key (env_aead env) (lib_fill_bytes (env_lib env)) key p (s, rng1) = (Inr (), s', rng2)" "st_out s = []"
    and "map (\<lambda>m. node_id (mix_node m)) mixes = map ch_id hops" "ic_key (mix_conn (hd mixes)) = key"
    and "\<And>i. i < length hops \<Longrightarrow> key_pair (env_lib env) (node_secret (mix_node (mixes ! i))) (ch_kem_public (hops ! i))
      \<and> fresh_cache (task_replay (mix_task (mixes ! i)))"
    and "list_all mix_idle mixes" "successively mix_linked mixes" "ro_exit (mix_router (last mixes)) = Some []" "18 < length clks"
    and "\<And>hop q. traverse (env_lib env) p (mix_keys mixes) = Inr (map ch_id (tl hops) @ [hop], q)
      \<Longrightarrow> map_of (mix_peers (last mixes)) hop = None \<and> \<not> is_cover_sink_hop hop"
    and "writable t (sink_out sk)" "deliver_to settings = Some t" "payload \<noteq> []" "last payload \<noteq> 0" "list_all mix_unlimited mixes"
  shows "\<exists>q line. ro_exit (mix_router (last (relay_row env clks (st_out s') mixes))) = Some [q]
    \<and> take (length payload) (drop OFF_DELTA q) = payload
    \<and> written t (sink_out (sink_run settings [Peeled q] sk)) = written t (sink_out sk) @ [line]
    \<and> take (2 * length payload) line = hex_encode payload"
proof -
  have b: "build (env_lib env) (client_path hops) payload rng = (Inr p, rng1)"
    using assms(6) by (auto simp: build_packet_with_options_def split: if_splits sum.splits prod.splits)
  have ids: "length (hop_id hop) = 32" if "hop \<in> set (client_path hops)" for hop using that assms(5) by (auto simp: client_path_def)
  have len: "length mixes = length hops" using arg_cong[OF assms(9), of length] by simp
  have keys: "key_pair (env_lib env) (fst (mix_keys mixes ! i)) (hop_pk (client_path hops ! i)) \<and> fresh_cache (snd (mix_keys mixes ! i))"
    if "i < length (client_path hops)" for i using assms(11) that len by (simp add: client_path_def mix_keys_def)
  have "length (mix_keys mixes) = length (client_path hops)" using len by (simp add: client_path_def mix_keys_def)
  from built_packet_travels[OF assms(1-3) ids b this keys]
  obtain hop q where "traverse (env_lib env) p (mix_keys mixes) = Inr (map hop_id (tl (client_path hops)) @ [hop], q)" and q: "wf_packet q"
    "take (length payload) (drop OFF_DELTA q) = payload" by blast
  moreover have "map hop_id (tl (client_path hops)) = map ch_id (tl hops)" by (simp add: client_path_def map_tl[symmetric] o_def)
  ultimately have t: "traverse (env_lib env) p (mix_keys mixes) = Inr (map ch_id (tl hops) @ [hop], q)" by simp
  have names: "map (\<lambda>m. node_id (mix_node m)) (tl mixes) = map ch_id (tl hops)" using assms(9) by (metis map_tl)
  have ne: "mixes \<noteq> []" "wf_packet p" using build_wf[OF assms(1-3) ids b] len by (auto simp: client_path_def)
  have c: "link_carries (env_lib env) (env_aead env) (ic_key (mix_conn (hd mixes))) (st_out s') p"
    using assms(7,8,10) unfolding link_carries_def by blast
  have sinks: "list_all (\<lambda>m. \<not> is_cover_sink_hop (node_id (mix_node m))) (tl mixes)"
  proof -
    have "\<not> is_cover_sink_hop i" if "i \<in> ch_id ` set (tl hops)" for i using that assms(5) list.set_sel(2)[of hops] by (cases hops) auto
    then have "\<forall>i \<in> set (map (\<lambda>m. node_id (mix_node m)) (tl mixes)). \<not> is_cover_sink_hop i" unfolding names by simp
    then show ?thesis by (simp add: list_all_iff)
  qed
  have open_row: "list_all mix_open mixes" using assms(12,21) by (simp add: list_all_iff mix_open_def)
  have out: "ro_exit (mix_router (last (relay_row env clks (st_out s') mixes))) = Some ([] @ [q])"
    by (rule row_delivers[OF assms(1,4,15) open_row assms(13) ne c _ sinks]) (use t names assms(14,16) in auto)
  have "written t (sink_out (sink_run settings [Peeled q] sk)) = written t (sink_out sk) @ [hex_encode (payload_prefix q)]"
    using assms(17,18) by (simp add: sink_run_def sink_step_def handle_real_peel_def Let_def)
  then show ?thesis using out q exit_line_starts[OF q assms(19,20)] by simp
qed

text \<open>Three relays in a row, each with one peer, the next.\<close>

definition toy_row :: "(nat, unit, unit, nat, unit) mix list" where
  "toy_row = [toy_mix 1 (Some 2), toy_mix 2 (Some 3), toy_mix 3 None]"

lemma toy_mix_fields [simp]:
  "mix_node (toy_mix i next) = \<lparr>node_id = replicate 32 (of_nat i), node_secret = toy_key i, node_config = relay_config_default\<rparr>"
  "task_replay (mix_task (toy_mix i next)) = with_capacity 5" "ic_key (mix_conn (toy_mix i next)) = toy_psk"
  "ro_exit (mix_router (toy_mix i next)) = Some []" "mix_peers (toy_mix i None) = []"
  by (simp_all add: toy_mix_def Let_def)

lemma toy_mix_idle: "mix_idle (toy_mix i next)" "mix_unlimited (toy_mix i next)"
  by (auto simp: mix_idle_def mix_unlimited_def toy_mix_def Let_def ready_def channel_new_def RELAY_CHANNEL_CAPACITY_def toy_bridge_def hub_wf_def
      MAX_PEER_QUEUE_WEIGHT_def all_outbound_slots_empty_def rate_limit_new_def rate_limit_is_active_def ingress_rate_limit_disabled_def
      split: option.splits)

lemma toy_mix_linked: "mix_linked (toy_mix i (Some j)) (toy_mix j next)"
  by (simp add: mix_linked_def toy_mix_def Let_def toy_stream_def toy_pool_def)

text \<open>All bytes but the first of a toy key stream are the same, as are those of the filler: no cover sink.\<close>

lemma no_sink_if_equal: "length xs = 32 \<Longrightarrow> xs ! 1 = xs ! 2 \<Longrightarrow> \<not> is_cover_sink_hop xs"
  by (auto simp: is_cover_sink_hop_def COVER_SINK_HOP_ID_def)

lemma toy_filler_no_sink: "\<not> is_cover_sink_hop (xor_bytes (take 32 (drop n (fst (lib_fill_bytes toy_lib r k)))) (ks_bytes toy_lib sec domain 32))"
proof
  let ?a = "take 32 (drop n (fst (lib_fill_bytes toy_lib r k)))" and ?k = "ks_bytes toy_lib sec domain 32"
  assume "is_cover_sink_hop (xor_bytes ?a ?k)"
  then have x: "xor_bytes ?a ?k = COVER_SINK_HOP_ID" by (simp add: is_cover_sink_hop_def)
  then have "length (xor_bytes ?a ?k) = 32" by (simp add: COVER_SINK_HOP_ID_def)
  then have "length ?a = 32" by simp
  then have "?a ! 1 = of_nat r" "?a ! 2 = of_nat r" "length ?a = 32" by (simp_all add: toy_lib_def)
  moreover have "?k ! 1 = 7" "?k ! 2 = 7" by (simp_all add: ks_bytes_def keystream_def digest32_def toy_lib_def)
  ultimately have "xor_bytes ?a ?k ! 1 = xor_bytes ?a ?k ! 2" by (simp add: xor_bytes_def)
  then show False unfolding x by (simp add: COVER_SINK_HOP_ID_def)
qed

lemma toy_row_keys: "mix_keys toy_row = map (\<lambda>s. (toy_key s, with_capacity 5)) [1, 2, 3]"
  by (simp add: mix_keys_def toy_row_def)

lemma toy_row_end:
  assumes "traverse toy_lib toy_packet (mix_keys toy_row) = Inr (map ch_id (tl (map toy_client_hop [1, 2, 3])) @ [hop], q)"
  shows "\<not> is_cover_sink_hop hop"
proof -
  obtain rng' where b: "build toy_lib toy_path [72, 105] 10 = (Inr toy_packet, rng')" using toy_build by blast
  have ids: "length (hop_id h) = 32" if "h \<in> set toy_path" for h using that by (auto simp: toy_path_def)
  have keys: "key_pair toy_lib (fst (mix_keys toy_row ! i)) (hop_pk (toy_path ! i)) \<and> fresh_cache (snd (mix_keys toy_row ! i))"
    if "i < length toy_path" for i
    using that toy_key_pair fresh_with_capacity by (simp add: toy_row_keys toy_path_def del: list.map)
  have "length (mix_keys toy_row) = length toy_path" by (simp add: toy_row_keys toy_path_def)
  from built_packet_route[OF toy_laws ids b this keys]
  obtain r1 sec where "hop = xor_bytes (take 32 (drop ((length toy_path - 1) * ROUTING_SLOT_LEN) (fst (lib_fill_bytes toy_lib r1 BETA_LEN))))
      (ks_bytes toy_lib sec STREAM_BETA 32)" using assms by auto
  then show ?thesis using toy_filler_no_sink by blast
qed

theorem network_delivers_witness:
  "\<exists>rng s' rng' q line.
      write_packet_with_key toy_aead (lib_fill_bytes toy_lib) toy_psk toy_packet (toy_stream\<lparr>st_room := 18 * LINK_FRAME_LEN\<rparr>, rng) = (Inr (), s', rng')
    \<and> ro_exit (mix_router (last (relay_row toy_mix_env (replicate 19 (0, 0, 0)) (st_out s') toy_row))) = Some [q]
    \<and> written Stdout (sink_out (sink_run toy_sink [Peeled q] toy_sink_start)) = [line] \<and> take 4 line = ''4869''"
proof -
  obtain rng1 where b: "build_packet_with_options toy_lib (map toy_client_hop [1, 2, 3]) [72, 105] 10 build_options_default = (Inr toy_packet, rng1)"
    using toy_client_builds by blast
  obtain s' rng2 where w: "write_packet_with_key toy_aead (lib_fill_bytes toy_lib) toy_psk toy_packet (toy_stream\<lparr>st_room := 18 * LINK_FRAME_LEN\<rparr>, rng1) = (Inr (), s', rng2)"
    using packet_written[OF toy_laws(1) toy_aead_laws, of "toy_stream\<lparr>st_room := 18 * LINK_FRAME_LEN\<rparr>" toy_psk toy_packet rng1] by (simp, blast)
  note e = toy_mix_env_def
  have hops: "h \<in> set (map toy_client_hop [1, 2, 3]) \<Longrightarrow> length (ch_id h) = 32 \<and> \<not> is_cover_sink_hop (ch_id h)" for h
    by (auto simp: toy_client_hop_def no_sink_if_equal)
  have names: "map (\<lambda>m. node_id (mix_node m)) toy_row = map ch_id (map toy_client_hop [1, 2, 3])" by (simp add: toy_row_def toy_client_hop_def)
  have key: "ic_key (mix_conn (hd toy_row)) = toy_psk" by (simp add: toy_row_def)
  have keys: "i < length (map toy_client_hop [1, 2, 3]) \<Longrightarrow> key_pair toy_lib (node_secret (mix_node (toy_row ! i))) (ch_kem_public (map toy_client_hop [1, 2, 3] ! i))
      \<and> fresh_cache (task_replay (mix_task (toy_row ! i)))" for i
    using toy_key_pair fresh_with_capacity by (auto simp: toy_row_def toy_client_hop_def less_Suc_eq numeral_3_eq_3)
  have idle: "list_all mix_idle toy_row" "list_all mix_unlimited toy_row" "successively mix_linked toy_row" "ro_exit (mix_router (last toy_row)) = Some []"
    by (simp_all add: toy_row_def toy_mix_idle toy_mix_linked)
  have sink: "writable Stdout (sink_out toy_sink_start)" "deliver_to toy_sink = Some Stdout"
    by (simp_all add: writable_def toy_sink_def toy_sink_start_def sink_new_def)
  have last_hop: "map_of (mix_peers (last toy_row)) hop = None \<and> \<not> is_cover_sink_hop hop"
    if "traverse toy_lib toy_packet (mix_keys toy_row) = Inr (map ch_id (tl (map toy_client_hop [1, 2, 3])) @ [hop], q)" for hop q
    using toy_row_end[OF that] by (simp add: toy_row_def)
  have z: "written Stdout (sink_out toy_sink_start) = []" by (simp add: written_def toy_sink_start_def sink_new_def)
  have "\<exists>q line. ro_exit (mix_router (last (relay_row toy_mix_env (replicate 19 (0, 0, 0)) (st_out s') toy_row))) = Some [q]
    \<and> take (length [72, 105 :: byte]) (drop OFF_DELTA q) = [72, 105]
    \<and> written Stdout (sink_out (sink_run toy_sink [Peeled q] toy_sink_start)) = written Stdout (sink_out toy_sink_start) @ [line]
    \<and> take (2 * length [72, 105 :: byte]) line = hex_encode [72, 105]"
    by (rule network_delivers[where env = toy_mix_env and s = "toy_stream\<lparr>st_room := 18 * LINK_FRAME_LEN\<rparr>" and hops = "map toy_client_hop [1, 2, 3]"
          and rng = 10 and opts = build_options_default and p = toy_packet and key = toy_psk])
      (use toy_laws toy_aead_laws hops b w names key keys idle last_hop sink in \<open>simp_all add: e toy_stream_def\<close>)
  moreover have "hex_encode [72, 105] = ''4869''" by code_simp
  moreover have "2 * length [72, 105 :: byte] = 4" by simp
  ultimately show ?thesis using w unfolding z append_Nil by metis
qed

end
