(* ===== verification/Spec2Isabelle.thy ===== *)
theory Spec2Isabelle
  imports Fragment Sphinx_Correct Nullifier Shamir Paths Quorum_Log Cover_Correct Relay_Node Client_Padding Client_Session Client_Send Fair_Queue Rate_Limit Link_Outbound Beacon Custody Operator_Check Anon_Issuer Attestation Network
begin

text \<open>
  A verification development for AEGIS, the mix network of the Rust workspace \<^verbatim>\<open>src/crates\<close>.

  \<^bold>\<open>The program.\<close> A client takes a signed roster of relays, chooses one relay per layer, wraps its payload in a Sphinx packet of
  fixed size and sends it, cut into 18 cells of 512 bytes, at a constant rate over an authenticated link to the first relay. A relay
  reassembles the packet, peels one layer, checks the MAC and the replay cache, waits a random time and forwards; between rounds it
  adds cover flows. Relays judge one another by local health windows and signed gossip, and an operator policy prunes relays by
  reputation. The roster, a randomness beacon and the health log rest on thresholds of consortium authorities, whose keys are made
  and shared in a ceremony. A node is started from one configuration file; its last hop hands payloads to an exit sink.

  \<^bold>\<open>Conventions.\<close> A byte is \<open>8 word\<close>, \<open>u32\<close>, \<open>u64\<close> are words that wrap, saturate or are checked as the code does it; \<open>usize\<close>
  is \<open>nat\<close> (64-bit targets; every length that is bounded is proved or assumed to be bounded). \<open>Result<T, E>\<close> is \<open>E + T\<close>,
  errors are the constructors of the code. \<open>&mut\<close> state is passed and returned. A panic is \<open>None\<close> where the code can reach one. A
  \<open>HashMap\<close> is the list of its entries in iteration order, and what is proved holds for every order. \<open>f64\<close> is binary64 over
  rationals with every rounding written out, and with one zero, so that 0.0 and -0.0 are not told apart (their bit patterns differ only in
  the digest of the reputation ledger). A clock reading, a random word or an answer of the operating system is an argument.

  \<^bold>\<open>Theories and sources.\<close>
  \<^item> Aegis_Prelude, Assoc_Lists, Float64, Text_Codec: bytes, results, buffers, saturating words, maps as lists, binary64, and the
    number and hexadecimal formats of the Rust library. Filter_Interfaces holds the locales of once-only registers
    (\<open>dup_filter\<close>, \<open>windowed_filter\<close>, \<open>persistent_filter\<close>), which Replay and Nullifier interpret.
  \<^item> Packet, Kem, Cell, Sphinx, Sphinx_Lemmas, Sphinx_Correct: \<^verbatim>\<open>aegis-crypto/src/{cell,kem,sphinx}.rs\<close>. Delivery along a path, totality and
    error order of \<open>process\<close>, replays, and tampering as a digest collision.
  \<^item> Fragment, Replay: \<^verbatim>\<open>fragment.rs\<close>, \<^verbatim>\<open>replay.rs\<close>. Round trip, exact acceptance, the refinement of the cache to
    a window that forgets its oldest tag, or from 1024 entries on all of them at once.
  \<^item> Link_Crypto, Link_Handshake, Rate_Limit, Link_Inbound, Link_Outbound, Fair_Queue: \<^verbatim>\<open>aegis-crypto/src/{link,noise_link}.rs\<close> and
    \<^verbatim>\<open>aegis-relay/src/{net,trace}.rs\<close>. Authentic handshakes, delivery over a hop, the token buckets in floating point, pooled sends,
    fair draining and its termination.
  \<^item> Relay_Node, Cover_Flow, Cover_Correct: \<^verbatim>\<open>aegis-relay/src/{node,delay,metrics_export,cover_flow,config}.rs\<close>. The relay task as a step
    relation with its accounting invariant; the number, shape and discarding of cover, and
    peelable onions that end at the sink.
  \<^item> Relay_Tasks, Network: \<^verbatim>\<open>net.rs\<close> again, the tasks that \<open>spawn_link_bridge_with_listener\<close> starts as one step function, and rows of relays.
    What leaves a relay was peeled once, in any order of its tasks; a client's packet passes a row to the exit sink.
  \<^item> Peer_Health, Health_Gossip, Quorum_Log: \<^verbatim>\<open>aegis-relay/src/{peer_health,health_gossip,health_quorum_log}.rs\<close>. Medians, organisations,
    and what a log applies when writes fail
    or are torn and the relay restarts.
  \<^item> Topology_Types, Roster, Layers, Guards, Paths: \<^verbatim>\<open>aegis-topology/src/{types,error,pruning,roster,layers,guards,guard_mitigation,path}.rs\<close>.
    Vouched admission, its rate limit under a clock that does not go back, even layers, and safe and live path selection (locales \<open>path_source\<close>, \<open>live_path_source\<close>).
  \<^item> Gf256, Interpolation, Shamir, Beacon, Ceremony, Custody: \<^verbatim>\<open>shamir.rs\<close>, \<^verbatim>\<open>beacon.rs\<close>, \<^verbatim>\<open>ceremony.rs\<close>, \<^verbatim>\<open>custody.rs\<close>. The byte field as an
    instance of \<open>field\<close>, reconstruction, committees from any quorum, the ceremony and its recovery, and the locale
    \<open>pkcs11_custody\<close> of the hardware modules.
  \<^item> Reputation, Nullifier, Zk_Reputation, Anon_Issuer, Attestation: \<^verbatim>\<open>aegis-trust/src/*.rs\<close>. Scores in the unit interval, first uses,
    credentials spent once, quotes and the gate (locale \<open>attestation_provider\<close>). Signatures is Ed25519 as an argument.
  \<^item> Negotiator: \<^verbatim>\<open>aegis-negotiator/src/*.rs\<close>. Dials, ceilings, fragments, rounds.
  \<^item> Client_Padding, Client_Session, Client_Send: \<^verbatim>\<open>aegis-client/src/{padding,emitter,driver,session,config,roster_load,path,hops_resolve,send}.rs\<close>.
    The padder and its reference recurrence, the paced session as interleaved steps that a working driver drains, packets bound to roster commitments.
  \<^item> Seed_Files, Exit_Sink, Node_Config, Node_Start, Operator_Check: \<^verbatim>\<open>aegis-node/src/{kem_seed_protect,exit_sink,config,operator_check}.rs\<close>.
    Seeds at rest, the egress of an epoch, the runtime configuration and its well-formedness, and what a validated node runs with.

  \<^bold>\<open>Parameters and laws.\<close> X25519, ML-KEM, SHA3, ChaCha20-Poly1305, snow, Ed25519, BLS, bulletproofs and the generators are records of
  functions. Theorems assume the documented laws they need: lengths (\<open>lib_lengths\<close>), commuting and correct key agreement
  (\<open>lib_dh_commutes\<close>, \<open>lib_mlkem_correct\<close>), signatures that verify (\<open>sig_laws\<close>), complete range proofs (\<open>zk_laws\<close>), TOML that reads what
  it wrote (\<open>toml_ok\<close>). No law says that a digest has no collisions or that a signature cannot be forged: security theorems exhibit the
  collision or name the signature instead. Each set of laws has a small instance in which the witnesses run.

  \<^bold>\<open>Bounds and fuel.\<close> Loops of the code are structural or have a measure, except two. The drain of the fair queues after the router is
  done takes the number of its rounds as fuel, and more fuel than packets are queued is proved to be enough. The redraw of a zero Shamir
  coefficient is a partial function: it returns whenever the generator is not stuck at zero (\<open>lively\<close>), and under that assumption the
  ceremony is proved to end.

  \<^bold>\<open>Conditions worth knowing.\<close> The default ingress rate limit is on, and with it a relay loses the packets that another one writes (Link_Inbound);
  the theorems on delivery over a link and over a row (Network) therefore speak of relays that have it off. A replay cache answers correctly only
  within its window (Replay). The quorum log is covered until a record is written behind a torn one. What a validated
  configuration still allows is at the end of Operator_Check.

  \<^bold>\<open>Not modelled.\<close>
  \<^item> \<^verbatim>\<open>noise_link_legacy.rs\<close> is compiled for tests only; \<^verbatim>\<open>aegis-crypto-dudect-ffi\<close> and the fuzz targets call modelled functions.
  \<^item> \<^verbatim>\<open>main.rs\<close>, the binaries, \<^verbatim>\<open>tcp_transport.rs\<close> and the writer of the trace file are process and socket I/O around
    the modelled steps; \<^verbatim>\<open>aegis_pilot_gen.rs\<close> prints deployment files.
  \<^item> JSON and TOML texts: the model starts at the parsed records. Human-readable error texts are kept where a caller reads them; elsewhere
    a message is its constructor.
  \<^item> Constant time, zeroisation and the scheduling of tasks beyond the order of their steps.
\<close>

end
